(* ===== verification/Prelude.thy ===== *)
theory Prelude
  imports Main "HOL-Library.Word"
begin

text \<open>
  Shared vocabulary of the development: machine types, error codes, run-time faults,
  byte-buffer access and the polling loops in which tasks call \<open>Yield\<close>.

  \<^item> Machine integers are words of their C width (\<open>uint8_t\<close>, \<open>uint16_t\<close>, \<open>uint32_t\<close>,
    \<open>size_t\<close>); \<open>err_t\<close> is a signed size, so it is an \<open>int\<close>: negative values are the codes of
    \<^verbatim>\<open>err.h\<close>, other values are results.
  \<^item> A C run-time failure (null dereference, access outside an object, failed \<open>assert\<close>, use of an
    uninitialised variable, division by zero) is a value of the type \<open>fault\<close>, on the left of a sum.
  \<^item> A loop in which the code calls \<open>Yield()\<close> is an instance of \<open>yield_loop\<close>: between two
    rounds of the loop the other tasks run, which is an arbitrary function on the shared state.
\<close>

unbundle bit_operations_syntax

section \<open>Machine types\<close>

type_synonym u8 = "8 word"
type_synonym u16 = "16 word"
type_synonym u32 = "32 word"
type_synonym u64 = "64 word"
type_synonym bytes = "8 word list"
type_synonym addr = "32 word"
type_synonym err_t = int

named_theorems err_defs \<open>the numeric values of the error codes\<close>
named_theorems buf_simps \<open>reads and writes of byte buffers\<close>

section \<open>Error codes\<close>

definition EOK :: err_t where [err_defs]: "EOK = 0"
definition EFATAL :: err_t where [err_defs]: "EFATAL = -1"
definition EBUSY :: err_t where [err_defs]: "EBUSY = -2"
definition EARGVAL :: err_t where [err_defs]: "EARGVAL = -3"
definition EAGAIN :: err_t where [err_defs]: "EAGAIN = -4"
definition ETIMEOUT :: err_t where [err_defs]: "ETIMEOUT = -5"
definition ECANCEL :: err_t where [err_defs]: "ECANCEL = -6"
definition EUNKPROT :: err_t where [err_defs]: "EUNKPROT = -7"
definition EUNKREQ :: err_t where [err_defs]: "EUNKREQ = -8"
definition EMALFORMED :: err_t where [err_defs]: "EMALFORMED = -8"
definition EUNKADDR :: err_t where [err_defs]: "EUNKADDR = -9"
definition EUNREACHABLE :: err_t where [err_defs]: "EUNREACHABLE = -10"
definition ENOCONNECT :: err_t where [err_defs]: "ENOCONNECT = -11"

section \<open>Run-time faults\<close>

datatype fault =
    NullDeref
  | OutOfBounds
  | AssertFail
  | Uninit
  | DivByZero
  | NoReturn

definition bind_res :: "fault + 'a \<Rightarrow> ('a \<Rightarrow> fault + 'b) \<Rightarrow> fault + 'b" where
  "bind_res m f = (case m of Inl e \<Rightarrow> Inl e | Inr x \<Rightarrow> f x)"

section \<open>Byte buffers\<close>

text \<open>
  \<open>mem_read buf off n\<close> and \<open>mem_write buf off xs\<close> are the accesses of a \<open>memcpy\<close> into or out of
  an object whose bytes are \<open>buf\<close>: an access that leaves the object is a fault.
\<close>

definition mem_read :: "'a list \<Rightarrow> nat \<Rightarrow> nat \<Rightarrow> fault + 'a list" where
  "mem_read buf off n =
     (if off + n \<le> length buf then Inr (take n (drop off buf)) else Inl OutOfBounds)"

definition mem_write :: "'a list \<Rightarrow> nat \<Rightarrow> 'a list \<Rightarrow> fault + 'a list" where
  "mem_write buf off xs =
     (if off + length xs \<le> length buf
      then Inr (take off buf @ xs @ drop (off + length xs) buf) else Inl OutOfBounds)"

lemma bind_res_simps [simp]:
  "bind_res (Inl e) f = Inl e"
  "bind_res (Inr x) f = f x"
  by (simp_all add: bind_res_def)

lemma bind_res_eq_Inr:
  "bind_res m f = Inr y \<longleftrightarrow> (\<exists>x. m = Inr x \<and> f x = Inr y)"
  by (cases m) auto

lemma mem_read_Inr [buf_simps]:
  "off + n \<le> length buf \<Longrightarrow> mem_read buf off n = Inr (take n (drop off buf))"
  by (simp add: mem_read_def)

lemma mem_write_Inr [buf_simps]:
  "off + length xs \<le> length buf \<Longrightarrow>
   mem_write buf off xs = Inr (take off buf @ xs @ drop (off + length xs) buf)"
  by (simp add: mem_write_def)

lemma mem_write_length: "mem_write buf off xs = Inr buf' \<Longrightarrow> length buf' = length buf"
  by (auto simp: mem_write_def split: if_splits)

lemma mem_write_then_read:
  "mem_write buf off xs = Inr buf' \<Longrightarrow> mem_read buf' off (length xs) = Inr xs"
  by (auto simp: mem_write_def mem_read_def split: if_splits)

lemma mem_write_nth:
  assumes "mem_write buf off xs = Inr buf'" "i < length buf"
  shows "buf' ! i = (if off \<le> i \<and> i < off + length xs then xs ! (i - off) else buf ! i)"
  using assms by (auto simp: mem_write_def nth_append split: if_splits)

lemma map_upt_offset: "map f [a..<a + n] = map (\<lambda>k. f (a + k)) [0..<n]"
  by (induction n) auto

section \<open>Words\<close>

lemma unat_u32_less: "unat (x :: u32) < 2 ^ 32"
  using unsigned_less [of x] by simp

lemma unat_u32_add: "unat a + unat b < 2 ^ 32 \<Longrightarrow> unat (a + b :: u32) = unat a + unat b"
  by (simp add: unat_word_ariths)

lemma unat_u32_mult: "unat a * unat b < 2 ^ 32 \<Longrightarrow> unat (a * b :: u32) = unat a * unat b"
  by (simp add: unat_word_ariths)

lemma unat_u32_sub: "b \<le> a \<Longrightarrow> unat (a - b :: u32) = unat a - unat b"
  by (rule unat_sub)

text \<open>Equality of words bit by bit, for evaluation by the simplifier.\<close>

named_theorems word_bits \<open>equality of words as equality of each of their bits\<close>

lemma u8_eq_bits [word_bits]:
  "(x :: u8) = y \<longleftrightarrow> list_all (\<lambda>n. bit x n = bit y n)
    [0, 1, 2, 3, 4, 5, 6, 7]"
proof -
  have "[0, 1, 2, 3, 4, 5, 6, 7] = [0..<8]"
    by (simp add: upt_rec)
  then show ?thesis by (auto simp: list_all_iff bit_word_eqI simp del: upt_Suc intro: bit_word_eqI)
qed

lemma u16_eq_bits [word_bits]:
  "(x :: u16) = y \<longleftrightarrow> list_all (\<lambda>n. bit x n = bit y n)
    [0, 1, 2, 3, 4, 5, 6, 7, 8, 9, 10, 11, 12, 13, 14, 15]"
proof -
  have "[0, 1, 2, 3, 4, 5, 6, 7, 8, 9, 10, 11, 12, 13, 14, 15] = [0..<16]"
    by (simp add: upt_rec)
  then show ?thesis by (auto simp: list_all_iff bit_word_eqI simp del: upt_Suc intro: bit_word_eqI)
qed

lemma u32_eq_bits [word_bits]:
  "(x :: u32) = y \<longleftrightarrow> list_all (\<lambda>n. bit x n = bit y n)
    [0, 1, 2, 3, 4, 5, 6, 7, 8, 9, 10, 11, 12, 13, 14, 15, 16, 17, 18, 19, 20, 21, 22, 23, 24,
     25, 26, 27, 28, 29, 30, 31]"
proof -
  have "[0, 1, 2, 3, 4, 5, 6, 7, 8, 9, 10, 11, 12, 13, 14, 15, 16, 17, 18, 19, 20, 21, 22, 23, 24,
     25, 26, 27, 28, 29, 30, 31] = [0..<32]"
    by (simp add: upt_rec)
  then show ?thesis by (auto simp: list_all_iff bit_word_eqI simp del: upt_Suc intro: bit_word_eqI)
qed

lemma u8_high_bit [simp]: "8 \<le> n \<Longrightarrow> \<not> bit (x :: u8) n"
  and u16_high_bit [simp]: "16 \<le> n \<Longrightarrow> \<not> bit (y :: u16) n"
  and u32_high_bit [simp]: "32 \<le> n \<Longrightarrow> \<not> bit (z :: u32) n"
  by (auto dest: bit_imp_le_length)

text \<open>Rounding down to a multiple of eight.\<close>

lemma unat_align8: "unat ((x :: u32) AND NOT 7) = unat x div 8 * 8"
proof -
  have m: "(7 :: u32) = mask 3" by (simp add: mask_eq_exp_minus_1)
  have "x AND NOT (mask 3) = push_bit 3 (drop_bit 3 x)"
    by (rule bit_eqI) (auto simp: bit_simps)
  then have eq: "x AND NOT 7 = push_bit 3 (drop_bit 3 x)" using m by simp
  have "unat x div 8 * 8 < 2 ^ 32" using unat_u32_less [of x] by simp
  then have "unat (push_bit 3 (drop_bit 3 x)) = unat x div 8 * 8"
    by (simp add: push_bit_eq_mult drop_bit_eq_div unat_word_ariths unat_div)
  then show ?thesis using eq by simp
qed

text \<open>Signed readings.\<close>

lemma uint_minus_of_int:
  fixes k :: int
  assumes "k < 0" "- k < 2 ^ LENGTH('a::len)"
  shows "uint (- (word_of_int k :: 'a word)) = - k"
proof -
  have "- (word_of_int k :: 'a word) = word_of_int (- k)" by simp
  then show ?thesis using assms by (simp only: uint_word_of_int_eq take_bit_int_eq_self)
qed

lemma uint_minus_neg:
  fixes w :: "'a::len word"
  assumes "sint w < 0"
  shows "uint (- w) = - sint w"
proof -
  have "- sint w \<le> 2 ^ (LENGTH('a) - 1)" using sint_ge [of w] by simp
  also have "\<dots> < (2 :: int) ^ LENGTH('a)" by simp
  finally show ?thesis using uint_minus_of_int [of "sint w", where 'a = 'a] assms by simp
qed

lemma uint_nonneg_sint:
  fixes w :: "'a::len word"
  assumes "\<not> sint w < 0"
  shows "uint w = sint w"
proof -
  have "sint w < 2 ^ (LENGTH('a) - 1)" using sint_lt [of w] by simp
  also have "\<dots> < (2 :: int) ^ LENGTH('a)" by simp
  finally have "uint (word_of_int (sint w) :: 'a word) = sint w"
    using assms by (simp only: uint_word_of_int_eq) (simp add: take_bit_int_eq_self)
  then show ?thesis by simp
qed

section \<open>Signed time differences\<close>

text \<open>\<open>dtime_t\<close> is the two's complement reading of a difference of \<open>time_t\<close> stamps.\<close>

definition dtime :: "u32 \<Rightarrow> u32 \<Rightarrow> int" where
  "dtime a b = sint (a - b)"

lemma dtime_range: "- (2 ^ 31) \<le> dtime a b" "dtime a b < 2 ^ 31"
  using sint_greater_eq [of "a - b"] sint_lt [of "a - b"] by (simp_all add: dtime_def)

lemma dtime_self [simp]: "dtime a a = 0"
  by (simp add: dtime_def)

lemma dtime_of_elapsed:
  assumes "n < 2 ^ 31"
  shows "dtime (ts + of_nat n) ts = int n"
proof -
  have "signed_take_bit 31 (int n) = int n"
    using assms by (intro signed_take_bit_int_eq_self) auto
  then show ?thesis by (simp add: dtime_def signed_of_nat)
qed

section \<open>Loops that yield\<close>

text \<open>
  The cooperative scheduler makes everything between two calls of \<open>Yield\<close> atomic. A loop whose body
  ends with \<open>Yield()\<close> is \<open>yield_loop\<close>: \<open>body l w\<close> runs one round on the loop's local variables \<open>l\<close>
  and the shared state \<open>w\<close>; it either returns (\<open>Inl\<close>) or asks for another round (\<open>Inr\<close>), before
  which \<open>env k\<close> is what the other tasks and interrupts do to the shared state during the \<open>k\<close>-th
  \<open>Yield\<close>. The first argument bounds the number of calls of \<open>Yield\<close>; \<open>None\<close> means that the
  loop is still waiting after that many.
\<close>

fun yield_loop ::
  "nat \<Rightarrow> (nat \<Rightarrow> 'w \<Rightarrow> 'w) \<Rightarrow> nat \<Rightarrow> ('l \<Rightarrow> 'w \<Rightarrow> ('r \<times> 'w) + ('l \<times> 'w)) \<Rightarrow> 'l \<Rightarrow> 'w \<Rightarrow> ('r \<times> 'w) option"
where
  "yield_loop 0 env k body l w = (case body l w of Inl rw \<Rightarrow> Some rw | Inr _ \<Rightarrow> None)"
| "yield_loop (Suc fuel) env k body l w =
     (case body l w of
        Inl rw \<Rightarrow> Some rw
      | Inr (l', w') \<Rightarrow> yield_loop fuel env (Suc k) body l' (env k w'))"

text \<open>More rounds never change the outcome.\<close>

lemma yield_loop_mono:
  "yield_loop fuel env k body l w = Some r \<Longrightarrow> fuel \<le> fuel' \<Longrightarrow>
   yield_loop fuel' env k body l w = Some r"
proof (induction fuel arbitrary: fuel' k l w)
  case 0
  then show ?case by (cases fuel') (auto split: sum.splits)
next
  case (Suc fuel)
  then obtain f where "fuel' = Suc f" "fuel \<le> f" by (cases fuel') auto
  with Suc show ?case by (auto split: sum.splits)
qed

text \<open>
  Invariants of a waiting loop: what the body and the other tasks keep holds when it returns.
\<close>

lemma yield_loop_invariant:
  assumes "yield_loop fuel env k body l w = Some (r, w_end)"
    and "I l w"
    and "\<And>l w l' w' j. I l w \<Longrightarrow> body l w = Inr (l', w') \<Longrightarrow> I l' (env j w')"
    and "\<And>l w r w'. I l w \<Longrightarrow> body l w = Inl (r, w') \<Longrightarrow> Q r w'"
  shows "Q r w_end"
  using assms(1,2)
proof (induction fuel arbitrary: k l w)
  case 0
  then show ?case using assms(4) by (auto split: sum.splits)
next
  case (Suc fuel)
  show ?case
  proof (cases "body l w")
    case (Inl rw)
    then show ?thesis using Suc.prems assms(4) by (cases rw) auto
  next
    case (Inr lw)
    obtain l' w' where "lw = (l', w')" by (cases lw)
    with Inr Suc.prems have "yield_loop fuel env (Suc k) body l' (env k w') = Some (r, w_end)"
      and "I l' (env k w')"
      using assms(3) by auto
    then show ?thesis by (rule Suc.IH)
  qed
qed

text \<open>
  A clock that every \<open>Yield\<close> advances by at least one and at most \<open>d\<close> milliseconds.
\<close>

definition ticking :: "('w \<Rightarrow> u32) \<Rightarrow> nat \<Rightarrow> (nat \<Rightarrow> 'w \<Rightarrow> 'w) \<Rightarrow> bool" where
  "ticking clk d env \<longleftrightarrow>
     (\<forall>k w. \<exists>n. 1 \<le> n \<and> n \<le> d \<and> clk (env k w) = clk w + of_nat n)"

lemma tickingE:
  assumes "ticking clk d env"
  obtains n where "1 \<le> n" "n \<le> d" "clk (env k w) = clk w + of_nat n"
  using assms unfolding ticking_def by blast

text \<open>
  The contract of a wait with a timeout: the body reads the clock and does not change it, and it
  returns in every round that starts more than \<open>tmo p\<close> milliseconds after the time stamp
  \<open>ts p\<close>. Every such wait returns after at most that many calls of \<open>Yield\<close>.
\<close>

locale timed_wait =
  fixes clk :: "'w \<Rightarrow> u32"
    and body :: "'p \<Rightarrow> 'l \<Rightarrow> 'w \<Rightarrow> ('r \<times> 'w) + ('l \<times> 'w)"
    and ts :: "'p \<Rightarrow> u32"
    and tmo :: "'p \<Rightarrow> int"
  assumes body_clk: "body p l w = Inr (l', w') \<Longrightarrow> clk w' = clk w"
    and body_expires:
      "0 < tmo p \<Longrightarrow> tmo p < dtime (clk w) (ts p) \<Longrightarrow> body p l w \<noteq> Inr (l', w')"
begin

lemma returns_from:
  assumes "ticking clk d env" and "0 < tmo p"
    and "nat (tmo p) + d < 2 ^ 31"
    and "clk w = ts p + of_nat e" and "e \<le> nat (tmo p) + d"
    and "nat (tmo p) < e + fuel"
  shows "\<exists>r. yield_loop fuel env k (body p) l w = Some r"
  using assms(4-6)
proof (induction fuel arbitrary: e k l w)
  case 0
  then have "dtime (clk w) (ts p) = int e"
    using assms(3) by (simp add: dtime_of_elapsed)
  with 0 assms(2) have "\<And>x. body p l w \<noteq> Inr x"
    using body_expires [of p w] by fastforce
  then show ?case by (cases "body p l w") auto
next
  case (Suc fuel)
  have dt: "dtime (clk w) (ts p) = int e"
    using Suc.prems assms(3) by (simp add: dtime_of_elapsed)
  show ?case
  proof (cases "body p l w")
    case (Inl r)
    then show ?thesis by simp
  next
    case (Inr lw)
    obtain l' w' where lw: "lw = (l', w')" by (cases lw)
    have le: "e \<le> nat (tmo p)"
      using body_expires [OF assms(2), of w l l' w'] Inr lw dt assms(2) by fastforce
    obtain n where n: "1 \<le> n" "n \<le> d" "clk (env k w') = clk w' + of_nat n"
      by (rule tickingE [OF assms(1)])
    have "clk (env k w') = ts p + of_nat (e + n)"
      using n(3) body_clk [of p l w l' w'] Inr lw Suc.prems(1) by simp
    then have "\<exists>r. yield_loop fuel env (Suc k) (body p) l' (env k w') = Some r"
      by (rule Suc.IH) (use n le Suc.prems in auto)
    then show ?thesis using Inr lw by simp
  qed
qed

theorem returns_in_time:
  assumes "ticking clk d env" and "0 < tmo p"
    and "nat (tmo p) + d < 2 ^ 31"
    and "clk w = ts p"
  shows "\<exists>r. yield_loop (Suc (nat (tmo p))) env k (body p) l w = Some r"
  by (rule returns_from [OF assms(1-3), of w 0]) (use assms(4) in auto)

end

end
