(* ===== verification/Sys_Heap.thy ===== *)
theory Sys_Heap
  imports Prelude
begin

text \<open>
  The dynamic memory allocator, \<^verbatim>\<open>sys/src/heap.c\<close>. The heap is a list of blocks, each a 16 byte
  header (\<open>block_t\<close>) followed by its memory, linked through \<open>next\<close> and \<open>prev\<close>. The model keeps the
  headers in a store \<open>addr \<rightharpoonup> block_t\<close>, so the pointer updates of \<open>Heap_Malloc\<close> and \<open>Heap_Free\<close>
  are the code's own, dangling and stale links included. A header read or written through a null
  pointer is the fault \<open>NullDeref\<close>; through a pointer to no header, \<open>OutOfBounds\<close>. Loops over the
  list are \<open>partial_function\<close>s: \<open>None\<close> is a walk that never ends.

  The invariant \<open>heap_inv\<close> says that the blocks tile the heap array exactly. The lemmas show that
  initialisation establishes it and allocation keeps it, which block an allocation takes, and what
  releasing a block does.
\<close>

unbundle bit_operations_syntax

section \<open>State and operations\<close>

record block_t =
  b_used :: u32
  b_size :: u32
  b_prev :: addr
  b_next :: addr

record heap_t =
  hp_base :: addr
  hp_blocks :: "addr \<rightharpoonup> block_t"
  hp_sig :: u32

abbreviation SYS_HEAP_SIZE :: u32 where "SYS_HEAP_SIZE \<equiv> 36864"
abbreviation sizeof_block_t :: u32 where "sizeof_block_t \<equiv> 16"
abbreviation DEADC0DE :: u32 where "DEADC0DE \<equiv> 0xdeadc0de"

definition blk_get :: "(addr \<rightharpoonup> block_t) \<Rightarrow> addr \<Rightarrow> fault + block_t" where
  "blk_get bl a =
     (if a = 0 then Inl NullDeref
      else case bl a of None \<Rightarrow> Inl OutOfBounds | Some b \<Rightarrow> Inr b)"

definition blk_set_prev :: "(addr \<rightharpoonup> block_t) \<Rightarrow> addr \<Rightarrow> addr \<Rightarrow> fault + (addr \<rightharpoonup> block_t)" where
  "blk_set_prev bl a p = bind_res (blk_get bl a) (\<lambda>b. Inr (bl(a \<mapsto> b\<lparr>b_prev := p\<rparr>)))"

definition size_at :: "(addr \<rightharpoonup> block_t) \<Rightarrow> addr \<Rightarrow> u32" where
  "size_at bl a = (case bl a of None \<Rightarrow> 0 | Some b \<Rightarrow> b_size b)"

definition Heap_Init :: "addr \<Rightarrow> heap_t" where
  "Heap_Init heap =
     \<lparr>hp_base = heap,
      hp_blocks = [heap \<mapsto> \<lparr>b_used = 0, b_size = SYS_HEAP_SIZE, b_prev = 0, b_next = 0\<rparr>],
      hp_sig = DEADC0DE\<rparr>"

partial_function (option) best_fit_walk ::
  "(addr \<rightharpoonup> block_t) \<Rightarrow> u32 \<Rightarrow> addr \<Rightarrow> addr \<Rightarrow> (fault + addr) option"
where
  "best_fit_walk bl sz b best =
     (if b = 0 then Some (Inr best)
      else case bl b of
        None \<Rightarrow> Some (Inl OutOfBounds)
      | Some blk \<Rightarrow>
          if b_used blk \<noteq> 0 then best_fit_walk bl sz (b_next blk) best
          else if best = 0 \<or> (sz \<le> b_size blk \<and> b_size blk < size_at bl best)
          then (if b_size blk = sz then Some (Inr b)
                else best_fit_walk bl sz (b_next blk) b)
          else best_fit_walk bl sz (b_next blk) best)"

definition alloc_size :: "u32 \<Rightarrow> u32" where
  "alloc_size sz = ((sz + 7) AND NOT 7) + sizeof_block_t"

definition split_block :: "(addr \<rightharpoonup> block_t) \<Rightarrow> addr \<Rightarrow> u32 \<Rightarrow> fault + (addr \<rightharpoonup> block_t)" where
  "split_block bl best sz =
     bind_res (blk_get bl best) (\<lambda>bf.
       if sz + 2 * sizeof_block_t \<le> b_size bf
       then let new_block = best + sz;
                bl1 = bl(new_block \<mapsto> \<lparr>b_used = 0, b_size = b_size bf - sz,
                                      b_prev = best, b_next = b_next bf\<rparr>)
            in bind_res (blk_get bl1 best) (\<lambda>bf1.
                 Inr (bl1(best \<mapsto> bf1\<lparr>b_next := new_block, b_size := sz\<rparr>)))
       else Inr bl)"

definition Heap_Malloc :: "heap_t \<Rightarrow> u32 \<Rightarrow> (fault + addr \<times> heap_t) option" where
  "Heap_Malloc h size_arg =
     (let sz = alloc_size size_arg
      in case best_fit_walk (hp_blocks h) sz (hp_base h) 0 of
           None \<Rightarrow> None
         | Some (Inl e) \<Rightarrow> Some (Inl e)
         | Some (Inr best_fit) \<Rightarrow>
             if best_fit = 0 then Some (Inr (0, h))
             else Some (bind_res (split_block (hp_blocks h) best_fit sz) (\<lambda>bl.
                        bind_res (blk_get bl best_fit) (\<lambda>bf.
                        Inr (best_fit + sizeof_block_t,
                             h\<lparr>hp_blocks := bl(best_fit \<mapsto> bf\<lparr>b_used := DEADC0DE\<rparr>)\<rparr>)))))"

definition join_next :: "(addr \<rightharpoonup> block_t) \<Rightarrow> addr \<Rightarrow> fault + (addr \<rightharpoonup> block_t)" where
  "join_next bl b =
     bind_res (blk_get bl b) (\<lambda>blk.
       if b_next blk = 0 then Inr bl
       else bind_res (blk_get bl (b_next blk)) (\<lambda>nb.
         if b_used nb = 0
         then blk_set_prev (bl(b \<mapsto> blk\<lparr>b_size := b_size blk + b_size nb, b_next := b_next nb\<rparr>))
                (b_next nb) b
         else Inr bl))"

definition join_prev :: "(addr \<rightharpoonup> block_t) \<Rightarrow> addr \<Rightarrow> fault + (addr \<rightharpoonup> block_t)" where
  "join_prev bl b =
     bind_res (blk_get bl b) (\<lambda>blk.
       if b_prev blk = 0 then Inr bl
       else bind_res (blk_get bl (b_prev blk)) (\<lambda>pb.
         if b_used pb = 0
         then blk_set_prev
                (bl(b_prev blk \<mapsto> pb\<lparr>b_size := b_size pb + b_size blk, b_next := b_next blk\<rparr>))
                (b_next blk) (b_prev blk)
         else Inr bl))"

definition Heap_Free :: "heap_t \<Rightarrow> addr \<Rightarrow> fault + heap_t" where
  "Heap_Free h ptr =
     (if ptr = 0 then Inr h
      else let b = ptr - sizeof_block_t
           in bind_res (blk_get (hp_blocks h) b) (\<lambda>blk.
              bind_res (join_next ((hp_blocks h)(b \<mapsto> blk\<lparr>b_used := 0\<rparr>)) b) (\<lambda>bl1.
              bind_res (join_prev bl1 b) (\<lambda>bl2.
              Inr (h\<lparr>hp_blocks := bl2\<rparr>)))))"

partial_function (option) check_walk :: "(addr \<rightharpoonup> block_t) \<Rightarrow> addr \<Rightarrow> (fault + err_t) option" where
  "check_walk bl b =
     (if b = 0 then Some (Inr EOK)
      else case bl b of
        None \<Rightarrow> Some (Inl OutOfBounds)
      | Some blk \<Rightarrow>
          if b_used blk \<noteq> 0 \<and> b_used blk \<noteq> DEADC0DE then Some (Inl AssertFail)
          else check_walk bl (b_next blk))"

definition Heap_CheckIntegrity :: "heap_t \<Rightarrow> (fault + err_t) option" where
  "Heap_CheckIntegrity h =
     (if hp_sig h \<noteq> DEADC0DE then Some (Inl AssertFail)
      else check_walk (hp_blocks h) (hp_base h))"

section \<open>Invariant and reference definitions\<close>

text \<open>
  \<open>tiled bl s e xs n\<close>: the blocks at the addresses \<open>xs\<close> are linked through \<open>next\<close> in this order, the
  last one pointing to \<open>n\<close>, and cover the addresses from \<open>s\<close> up to \<open>e\<close> without gap or overlap.
\<close>

definition first_or :: "'a \<Rightarrow> 'a list \<Rightarrow> 'a" where
  "first_or n xs = (case xs of [] \<Rightarrow> n | y # _ \<Rightarrow> y)"

definition blk_ok :: "block_t \<Rightarrow> bool" where
  "blk_ok b \<longleftrightarrow> 16 \<le> unat (b_size b) \<and> 8 dvd unat (b_size b) \<and>
     (b_used b = 0 \<or> b_used b = DEADC0DE)"

fun tiled :: "(addr \<rightharpoonup> block_t) \<Rightarrow> nat \<Rightarrow> nat \<Rightarrow> addr list \<Rightarrow> addr \<Rightarrow> bool" where
  "tiled bl s e [] n \<longleftrightarrow> s = e"
| "tiled bl s e (x # xs) n \<longleftrightarrow>
     (case bl x of
        None \<Rightarrow> False
      | Some b \<Rightarrow> unat x = s \<and> 0 < s \<and> blk_ok b \<and>
          b_next b = first_or n xs \<and>
          tiled bl (s + unat (b_size b)) e xs n)"

definition heap_inv :: "heap_t \<Rightarrow> addr list \<Rightarrow> bool" where
  "heap_inv h xs \<longleftrightarrow>
     0 < unat (hp_base h) \<and> 8 dvd unat (hp_base h) \<and>
     unat (hp_base h) + unat SYS_HEAP_SIZE < 2 ^ 32 \<and>
     tiled (hp_blocks h) (unat (hp_base h)) (unat (hp_base h) + unat SYS_HEAP_SIZE) xs 0"

text \<open>The search of \<open>Heap_Malloc\<close> over the list of block addresses instead of the links.\<close>

fun pick :: "(addr \<rightharpoonup> block_t) \<Rightarrow> u32 \<Rightarrow> addr list \<Rightarrow> addr \<Rightarrow> addr" where
  "pick bl sz [] best = best"
| "pick bl sz (x # xs) best =
     (case bl x of
        None \<Rightarrow> best
      | Some blk \<Rightarrow>
          if b_used blk \<noteq> 0 then pick bl sz xs best
          else if best = 0 \<or> (sz \<le> b_size blk \<and> b_size blk < size_at bl best)
          then (if b_size blk = sz then x else pick bl sz xs x)
          else pick bl sz xs best)"

text \<open>
  \<open>plinked bl p xs\<close>: the \<open>prev\<close> links of the blocks \<open>xs\<close> lead back along the list, the first one
  to \<open>p\<close>.
\<close>

fun plinked :: "(addr \<rightharpoonup> block_t) \<Rightarrow> addr \<Rightarrow> addr list \<Rightarrow> bool" where
  "plinked bl p [] \<longleftrightarrow> True"
| "plinked bl p (x # xs) \<longleftrightarrow>
     (case bl x of None \<Rightarrow> False | Some b \<Rightarrow> b_prev b = p \<and> plinked bl x xs)"

definition is_free :: "(addr \<rightharpoonup> block_t) \<Rightarrow> addr \<Rightarrow> bool" where
  "is_free bl x \<longleftrightarrow> (case bl x of None \<Rightarrow> False | Some b \<Rightarrow> b_used b = 0)"

definition free_list :: "heap_t \<Rightarrow> addr list \<Rightarrow> addr list" where
  "free_list h xs = filter (is_free (hp_blocks h)) xs"

text \<open>The block list after a release: the neighbours that are free disappear from it.\<close>

definition merge_next :: "(addr \<rightharpoonup> block_t) \<Rightarrow> addr list \<Rightarrow> addr list" where
  "merge_next bl zs = (if zs \<noteq> [] \<and> is_free bl (hd zs) then tl zs else zs)"

definition merge_prev :: "(addr \<rightharpoonup> block_t) \<Rightarrow> addr list \<Rightarrow> addr \<Rightarrow> addr list" where
  "merge_prev bl ys x = (if ys \<noteq> [] \<and> is_free bl (last ys) then ys else ys @ [x])"

definition heap_ok :: "heap_t \<Rightarrow> bool" where
  "heap_ok h \<longleftrightarrow> (\<exists>xs. heap_inv h xs)"

definition live :: "heap_t \<Rightarrow> addr \<Rightarrow> bool" where
  "live h p \<longleftrightarrow> (\<exists>xs. heap_inv h xs \<and> p - 16 \<in> set xs \<and> \<not> is_free (hp_blocks h) (p - 16))"

section \<open>The block list\<close>

lemma first_or_simps [simp]: "first_or n [] = n" "first_or n (y # ys) = y"
  by (simp_all add: first_or_def)

lemma first_or_append [simp]: "first_or n (xs @ ys) = first_or (first_or n ys) xs"
  by (cases xs) simp_all

lemma tiled_append:
  "tiled bl s e (xs @ ys) n \<longleftrightarrow> (\<exists>m. tiled bl s m xs (first_or n ys) \<and> tiled bl m e ys n)"
  by (induction xs arbitrary: s) (auto split: option.splits)

lemma tiled_le: "tiled bl s e xs n \<Longrightarrow> s \<le> e"
  by (induction xs arbitrary: s) (fastforce split: option.splits)+

lemma tiled_addr: "tiled bl s e xs n \<Longrightarrow> x \<in> set xs \<Longrightarrow> s \<le> unat x \<and> unat x < e"
proof (induction xs arbitrary: s)
  case (Cons y ys)
  then obtain b where b: "bl y = Some b" "unat y = s" "16 \<le> unat (b_size b)"
    "tiled bl (s + unat (b_size b)) e ys n"
    by (auto simp: blk_ok_def split: option.splits)
  with tiled_le [OF b(4)] Cons show ?case by fastforce
qed simp

lemma tiled_block: "tiled bl s e xs n \<Longrightarrow> x \<in> set xs \<Longrightarrow> \<exists>b. bl x = Some b \<and> blk_ok b"
  by (induction xs arbitrary: s) (auto split: option.splits)

lemma tiled_nonnull: "tiled bl s e xs n \<Longrightarrow> x \<in> set xs \<Longrightarrow> x \<noteq> 0"
  by (induction xs arbitrary: s) (auto split: option.splits)

lemma tiled_cong:
  "(\<And>x. x \<in> set xs \<Longrightarrow> bl x = bl' x) \<Longrightarrow> tiled bl s e xs n = tiled bl' s e xs n"
  by (induction xs arbitrary: s) (auto split: option.splits)

lemma tiled_upd_outside:
  "unat a < s \<or> e \<le> unat a \<Longrightarrow> tiled (bl(a \<mapsto> b)) s e xs n = tiled bl s e xs n"
proof -
  assume out: "unat a < s \<or> e \<le> unat a"
  show ?thesis
  proof (cases "a \<in> set xs")
    case True
    then show ?thesis
      using out tiled_addr [of "bl(a \<mapsto> b)" s e xs n a] tiled_addr [of bl s e xs n a] by fastforce
  next
    case False
    then show ?thesis by (intro tiled_cong) auto
  qed
qed

text \<open>Replacing a header by one of the same extent and link keeps the tiling.\<close>

lemma tiled_upd_same:
  assumes "tiled bl s e xs n" "bl x = Some b"
    and "b_size b' = b_size b" "b_next b' = b_next b" "blk_ok b'"
  shows "tiled (bl(x \<mapsto> b')) s e xs n"
  using assms by (induction xs arbitrary: s) (auto split: option.splits)

section \<open>The search\<close>

lemma best_fit_walk_pick:
  assumes "tiled bl s e xs 0"
  shows "best_fit_walk bl sz (first_or 0 xs) best = Some (Inr (pick bl sz xs best))"
  using assms
proof (induction xs arbitrary: s best)
  case Nil
  show ?case by (simp add: best_fit_walk.simps)
next
  case (Cons x xs)
  then obtain b where b: "bl x = Some b" "b_next b = first_or 0 xs"
    "tiled bl (s + unat (b_size b)) e xs 0"
    by (auto split: option.splits)
  have "x \<noteq> 0" using tiled_nonnull [OF Cons.prems] by simp
  then show ?case
    using Cons.IH [OF b(3)] b(1,2) by (subst best_fit_walk.simps) simp
qed

lemma pick_stuck:
  assumes "best \<noteq> 0" and "size_at bl best < sz"
  shows "pick bl sz xs best = best"
  using assms by (induction xs) (auto split: option.splits)

lemma pick_mem:
  "pick bl sz xs best = best \<or> (pick bl sz xs best \<in> set xs \<and> is_free bl (pick bl sz xs best))"
proof (induction xs arbitrary: best)
  case Nil
  show ?case by simp
next
  case (Cons x xs)
  show ?case
    using Cons.IH [of x] Cons.IH [of best]
    by (auto simp: is_free_def split: option.splits)
qed

lemma pick_eq_0:
  assumes "0 \<notin> set xs" "\<And>x. x \<in> set xs \<Longrightarrow> bl x \<noteq> None"
  shows "pick bl sz xs best = 0 \<longleftrightarrow> best = 0 \<and> (\<forall>x \<in> set xs. \<not> is_free bl x)"
  using assms
proof (induction xs arbitrary: best)
  case Nil
  show ?case by simp
next
  case (Cons x xs)
  then have IH: "\<And>b. pick bl sz xs b = 0 \<longleftrightarrow> b = 0 \<and> (\<forall>x \<in> set xs. \<not> is_free bl x)"
    by simp
  from Cons.prems obtain blk where "bl x = Some blk" "x \<noteq> 0" by fastforce
  then show ?case using IH by (auto simp: is_free_def)
qed

text \<open>Once a large enough block is held, the result is the smallest large enough free block.\<close>

lemma pick_best:
  assumes "best \<noteq> 0" and "sz \<le> size_at bl best" and "0 \<notin> set xs"
    and "\<And>x. x \<in> set xs \<Longrightarrow> bl x \<noteq> None"
  shows "sz \<le> size_at bl (pick bl sz xs best) \<and>
         size_at bl (pick bl sz xs best) \<le> size_at bl best \<and>
         (\<forall>y \<in> set xs. is_free bl y \<longrightarrow> sz \<le> size_at bl y \<longrightarrow>
            size_at bl (pick bl sz xs best) \<le> size_at bl y)"
  using assms
proof (induction xs arbitrary: best)
  case Nil
  then show ?case by simp
next
  case (Cons x xs)
  from Cons.prems obtain blk where x: "bl x = Some blk" "x \<noteq> 0" "size_at bl x = b_size blk"
    by (fastforce simp: size_at_def)
  have IH: "\<And>b. b \<noteq> 0 \<Longrightarrow> sz \<le> size_at bl b \<Longrightarrow>
      sz \<le> size_at bl (pick bl sz xs b) \<and> size_at bl (pick bl sz xs b) \<le> size_at bl b \<and>
      (\<forall>y \<in> set xs. is_free bl y \<longrightarrow> sz \<le> size_at bl y \<longrightarrow>
         size_at bl (pick bl sz xs b) \<le> size_at bl y)"
    using Cons.IH Cons.prems(3,4) by simp
  consider (used) "b_used blk \<noteq> 0"
    | (keep) "b_used blk = 0" "\<not> (sz \<le> b_size blk \<and> b_size blk < size_at bl best)"
    | (exact) "b_used blk = 0" "sz \<le> b_size blk" "b_size blk < size_at bl best" "b_size blk = sz"
    | (take) "b_used blk = 0" "sz \<le> b_size blk" "b_size blk < size_at bl best" "b_size blk \<noteq> sz"
    by blast
  then show ?case
  proof cases
    case used
    then show ?thesis using IH [OF Cons.prems(1,2)] x by (simp add: is_free_def)
  next
    case keep
    then show ?thesis using IH [OF Cons.prems(1,2)] x Cons.prems(1) by fastforce
  next
    case exact
    then show ?thesis using x Cons.prems(1) by (auto simp: size_at_def)
  next
    case take
    then show ?thesis using IH [of x] x Cons.prems(1) by fastforce
  qed
qed

section \<open>Sizes\<close>

text \<open>
  For every request that leaves room for the rounding, the block size is the request rounded up to a
  multiple of eight plus the header.
\<close>

lemma unat_alloc_size:
  assumes "unat sz < 2 ^ 31"
  shows "unat (alloc_size sz) = (unat sz + 7) div 8 * 8 + 16"
proof -
  have add: "unat (sz + 7) = unat sz + 7"
    using assms by (intro trans [OF unat_u32_add]) simp_all
  have al: "unat ((sz + 7) AND NOT 7) = (unat sz + 7) div 8 * 8"
    by (simp only: unat_align8 add)
  have "(unat sz + 7) div 8 * 8 \<le> unat sz + 7" by simp
  then have "(unat sz + 7) div 8 * 8 + 16 < 2 ^ 32"
    using assms by simp
  then have "unat ((sz + 7) AND NOT 7) + unat (16 :: u32) < 2 ^ 32"
    by (simp only: al) simp
  then show ?thesis
    unfolding alloc_size_def by (simp only: unat_u32_add al) simp
qed

lemma alloc_size_ge:
  assumes "unat sz < 2 ^ 31"
  shows "unat sz + 16 \<le> unat (alloc_size sz)" and "8 dvd unat (alloc_size sz)"
    and "unat (alloc_size sz) + 32 < 2 ^ 32"
  using unat_alloc_size [OF assms] assms by (auto simp: dvd_add_left_iff)

section \<open>Allocation\<close>

lemma split_block_tiled:
  assumes t: "tiled bl s e (ys @ x # zs) n" and b: "bl x = Some b"
    and sz: "16 \<le> unat sz" "8 dvd unat sz" "unat sz + 32 \<le> unat (b_size b)"
    and e: "e < 2 ^ 32"
  shows "\<exists>bl'. split_block bl x sz = Inr bl' \<and> tiled bl' s e (ys @ x # (x + sz) # zs) n \<and>
           bl' x = Some (b\<lparr>b_next := x + sz, b_size := sz\<rparr>) \<and>
           bl' (x + sz) = Some \<lparr>b_used = 0, b_size = b_size b - sz, b_prev = x, b_next = b_next b\<rparr> \<and>
           (\<forall>a. a \<noteq> x \<longrightarrow> a \<noteq> x + sz \<longrightarrow> bl' a = bl a)"
proof -
  define nb where "nb = \<lparr>b_used = 0, b_size = b_size b - sz, b_prev = x, b_next = b_next b\<rparr>"
  define b' where "b' = b\<lparr>b_next := x + sz, b_size := sz\<rparr>"
  define bl' where "bl' = bl(x + sz \<mapsto> nb, x \<mapsto> b')"
  from t b obtain m where m: "tiled bl s m ys x" "unat x = m" "0 < m" "blk_ok b"
    "b_next b = first_or n zs" "tiled bl (m + unat (b_size b)) e zs n"
    by (auto simp: tiled_append)
  have "m + unat (b_size b) \<le> e" using tiled_le [OF m(6)] .
  then have xsz: "unat (x + sz) = m + unat sz"
    using m(2) sz(3) e by (subst unat_u32_add) simp_all
  then have ne: "x + sz \<noteq> x" using sz(1) m(2) by auto
  have x0: "x \<noteq> 0" using m(2,3) by auto
  have le: "sz + 2 * 16 \<le> b_size b"
    using sz(3) unat_u32_less [of "b_size b"]
    by (simp add: word_le_nat_alt unat_u32_add)
  have split: "split_block bl x sz = Inr bl'"
    using b x0 le ne by (simp add: split_block_def blk_get_def Let_def bl'_def nb_def b'_def)
  have nbsz: "unat (b_size nb) = unat (b_size b) - unat sz"
    unfolding nb_def using sz(3) by (simp add: unat_sub word_le_nat_alt)
  have oknb: "blk_ok nb"
    using m(4) sz nbsz by (auto simp: blk_ok_def nb_def dvd_diff_nat)
  have okb': "blk_ok b'" using m(4) sz by (auto simp: blk_ok_def b'_def)
  have 1: "tiled bl' s m ys x"
    unfolding bl'_def using m(1,2) xsz by (simp add: tiled_upd_outside)
  have 2: "tiled bl' (m + unat (b_size b)) e zs n"
    unfolding bl'_def using m(2,6) xsz sz by (simp add: tiled_upd_outside)
  have "m + unat (b_size b') + unat (b_size nb) = m + unat (b_size b)"
    using nbsz sz(3) by (simp add: b'_def)
  then have "tiled bl' m e (x # (x + sz) # zs) n"
    using 2 m(2,3,5) oknb okb' xsz ne by (simp add: bl'_def b'_def nb_def add.assoc)
  then have "tiled bl' s e (ys @ x # (x + sz) # zs) n"
    using 1 by (auto simp: tiled_append)
  then show ?thesis using split ne by (auto simp: bl'_def nb_def b'_def)
qed

lemma tiled_aligned: "tiled bl s e xs n \<Longrightarrow> 8 dvd s \<Longrightarrow> x \<in> set xs \<Longrightarrow> 8 dvd unat x"
proof (induction xs arbitrary: s)
  case (Cons y ys)
  then show ?case by (auto simp: blk_ok_def split: option.splits)
qed simp

lemma tiled_extent:
  assumes "tiled bl s e xs n" "x \<in> set xs" "bl x = Some b"
  shows "unat x + unat (b_size b) \<le> e"
proof -
  from assms(2) obtain ys zs where "xs = ys @ x # zs" by (meson split_list)
  with assms(1,3) obtain m where "unat x = m" "tiled bl (m + unat (b_size b)) e zs n"
    by (auto simp: tiled_append)
  then show ?thesis using tiled_le by blast
qed

lemma heap_inv_first: "heap_inv h xs \<Longrightarrow> first_or 0 xs = hp_base h"
  by (cases xs) (auto simp: heap_inv_def word_unat_eq_iff split: option.splits)

lemma heap_inv_blocks: "heap_inv h xs \<Longrightarrow> x \<in> set xs \<Longrightarrow> hp_blocks h x \<noteq> None"
  using tiled_block by (fastforce simp: heap_inv_def)

lemma heap_inv_nonnull: "heap_inv h xs \<Longrightarrow> 0 \<notin> set xs"
  using tiled_nonnull by (fastforce simp: heap_inv_def)

lemma Heap_Malloc_eq:
  assumes "heap_inv h xs"
  shows "Heap_Malloc h sz =
     (let best = pick (hp_blocks h) (alloc_size sz) xs 0
      in if best = 0 then Some (Inr (0, h))
         else Some (bind_res (split_block (hp_blocks h) best (alloc_size sz)) (\<lambda>bl.
                    bind_res (blk_get bl best) (\<lambda>bf.
                    Inr (best + sizeof_block_t,
                         h\<lparr>hp_blocks := bl(best \<mapsto> bf\<lparr>b_used := DEADC0DE\<rparr>)\<rparr>)))))"
proof -
  have "best_fit_walk (hp_blocks h) (alloc_size sz) (hp_base h) 0 =
      Some (Inr (pick (hp_blocks h) (alloc_size sz) xs 0))"
    using best_fit_walk_pick heap_inv_first [OF assms] assms by (fastforce simp: heap_inv_def)
  then show ?thesis by (simp add: Heap_Malloc_def Let_def)
qed

text \<open>What an allocation does to the block it takes and to the list.\<close>

lemma Heap_Malloc_takes:
  assumes inv: "heap_inv h xs" and sz: "unat sz < 2 ^ 31"
    and x: "pick (hp_blocks h) (alloc_size sz) xs 0 = x" "x \<noteq> 0"
    and b: "hp_blocks h x = Some b"
  shows "\<exists>h' xs' b'. Heap_Malloc h sz = Some (Inr (x + 16, h')) \<and> heap_inv h' xs' \<and>
           set xs \<subseteq> set xs' \<and> hp_blocks h' x = Some b' \<and> b_used b' = DEADC0DE \<and>
           b_size b' = (if unat (alloc_size sz) + 32 \<le> unat (b_size b) then alloc_size sz else b_size b) \<and>
           (\<forall>a \<in> set xs - {x}. hp_blocks h' a = hp_blocks h a) \<and>
           hp_base h' = hp_base h \<and> hp_sig h' = hp_sig h"
proof -
  let ?s = "unat (hp_base h)" and ?e = "unat (hp_base h) + unat SYS_HEAP_SIZE"
  have mem: "x \<in> set xs" using pick_mem [of "hp_blocks h" "alloc_size sz" xs 0] x by auto
  then obtain ys zs where xs: "xs = ys @ x # zs" by (meson split_list)
  have t: "tiled (hp_blocks h) ?s ?e (ys @ x # zs) 0" and e: "?e < 2 ^ 32"
    using inv xs by (simp_all add: heap_inv_def)
  note a = alloc_size_ge [OF sz]
  show ?thesis
  proof (cases "unat (alloc_size sz) + 32 \<le> unat (b_size b)")
    case True
    obtain bl where bl: "split_block (hp_blocks h) x (alloc_size sz) = Inr bl"
      "tiled bl ?s ?e (ys @ x # (x + alloc_size sz) # zs) 0"
      "bl x = Some (b\<lparr>b_next := x + alloc_size sz, b_size := alloc_size sz\<rparr>)"
      "\<forall>a. a \<noteq> x \<longrightarrow> a \<noteq> x + alloc_size sz \<longrightarrow> bl a = hp_blocks h a"
      using split_block_tiled [OF t b _ a(2) True e] a(1) by auto
    let ?b' = "b\<lparr>b_next := x + alloc_size sz, b_size := alloc_size sz, b_used := DEADC0DE\<rparr>"
    let ?xs' = "ys @ x # (x + alloc_size sz) # zs"
    have "blk_ok ?b'" using a by (simp add: blk_ok_def)
    then have t': "tiled (bl(x \<mapsto> ?b')) ?s ?e ?xs' 0"
      using bl(2,3) by (intro tiled_upd_same) auto
    have new: "x + alloc_size sz \<notin> set xs"
    proof
      assume "x + alloc_size sz \<in> set xs"
      moreover from t b obtain m where m: "tiled (hp_blocks h) ?s m ys x" "unat x = m"
        "tiled (hp_blocks h) (m + unat (b_size b)) ?e zs 0"
        by (auto simp: tiled_append)
      moreover have "unat (x + alloc_size sz) = m + unat (alloc_size sz)"
        using m(2) True e tiled_le [OF m(3)] by (subst unat_u32_add) simp_all
      ultimately show False
        using a(1) True xs tiled_addr [OF m(1)] tiled_addr [OF m(3)] by fastforce
    qed
    have "Heap_Malloc h sz = Some (Inr (x + 16, h\<lparr>hp_blocks := bl(x \<mapsto> ?b')\<rparr>))"
      using x bl(1,3) by (simp add: Heap_Malloc_eq [OF inv] Let_def blk_get_def)
    then show ?thesis
      using t' inv True bl(4) new xs
      by (intro exI [of _ "h\<lparr>hp_blocks := bl(x \<mapsto> ?b')\<rparr>"] exI [of _ ?xs'] exI [of _ ?b'])
        (auto simp: heap_inv_def)
  next
    case False
    have "unat (alloc_size sz + 32) = unat (alloc_size sz) + 32"
      using a(3) by (subst unat_u32_add) simp_all
    then have ns: "\<not> alloc_size sz + 32 \<le> b_size b"
      using False by (simp add: word_le_nat_alt)
    let ?b' = "b\<lparr>b_used := DEADC0DE\<rparr>"
    have "blk_ok ?b'" using tiled_block [OF t, of x] b by (simp add: blk_ok_def)
    then have t': "tiled ((hp_blocks h)(x \<mapsto> ?b')) ?s ?e xs 0"
      using t b xs by (intro tiled_upd_same) auto
    have "Heap_Malloc h sz = Some (Inr (x + 16, h\<lparr>hp_blocks := (hp_blocks h)(x \<mapsto> ?b')\<rparr>))"
      using x b ns by (simp add: Heap_Malloc_eq [OF inv] Let_def blk_get_def split_block_def)
    then show ?thesis
      using t' inv False
      by (intro exI [of _ "h\<lparr>hp_blocks := (hp_blocks h)(x \<mapsto> ?b')\<rparr>"] exI [of _ xs] exI [of _ ?b'])
        (auto simp: heap_inv_def)
  qed
qed

lemma Heap_Malloc_spec:
  assumes "heap_inv h xs" and "unat sz < 2 ^ 31"
  shows "\<exists>p h' xs'. Heap_Malloc h sz = Some (Inr (p, h')) \<and> heap_inv h' xs' \<and> set xs \<subseteq> set xs' \<and>
           (p = 0 \<longleftrightarrow> free_list h xs = []) \<and> (p = 0 \<longrightarrow> h' = h) \<and>
           (p \<noteq> 0 \<longrightarrow> p - 16 \<in> set (free_list h xs) \<and> p - 16 \<notin> set (free_list h' xs') \<and> 8 dvd unat p \<and>
              (\<forall>a \<in> set xs - {p - 16}. hp_blocks h' a = hp_blocks h a))"
proof (cases "pick (hp_blocks h) (alloc_size sz) xs 0 = 0")
  case True
  then have "free_list h xs = []"
    using pick_eq_0 heap_inv_blocks [OF assms(1)] heap_inv_nonnull [OF assms(1)]
    by (fastforce simp: free_list_def filter_empty_conv)
  then show ?thesis
    using True assms(1) by (auto simp: Heap_Malloc_eq [OF assms(1)])
next
  case False
  define x where "x = pick (hp_blocks h) (alloc_size sz) xs 0"
  have x: "x \<in> set xs" "is_free (hp_blocks h) x" "x \<noteq> 0"
    using pick_mem [of "hp_blocks h" "alloc_size sz" xs 0] False by (auto simp: x_def)
  then obtain b where b: "hp_blocks h x = Some b"
    using heap_inv_blocks [OF assms(1)] by blast
  obtain h' xs' b' where h': "Heap_Malloc h sz = Some (Inr (x + 16, h'))" "heap_inv h' xs'"
    "set xs \<subseteq> set xs'" "hp_blocks h' x = Some b'" "b_used b' = DEADC0DE"
    "\<forall>a \<in> set xs - {x}. hp_blocks h' a = hp_blocks h a"
    using Heap_Malloc_takes [OF assms x_def [symmetric] x(3) b] by blast
  have t: "tiled (hp_blocks h) (unat (hp_base h)) (unat (hp_base h) + unat SYS_HEAP_SIZE) xs 0"
    and lim: "unat (hp_base h) + unat SYS_HEAP_SIZE < 2 ^ 32" and al: "8 dvd unat (hp_base h)"
    using assms(1) by (simp_all add: heap_inv_def)
  have "16 \<le> unat (b_size b)" using tiled_block [OF t x(1)] b by (auto simp: blk_ok_def)
  then have u: "unat (x + 16) = unat x + 16"
    using tiled_extent [OF t x(1) b] lim by (subst unat_u32_add) simp_all
  have "8 dvd unat (x + 16)" using u tiled_aligned [OF t al x(1)] by simp
  moreover have "x + 16 \<noteq> 0"
    using u by (metis add_is_0 unat_0 zero_neq_numeral)
  ultimately show ?thesis
    using h' x by (intro exI [of _ "x + 16"] exI [of _ h'] exI [of _ xs'])
      (auto simp: free_list_def is_free_def filter_empty_conv)
qed

text \<open>\<open>Heap_Init\<close> establishes the invariant wherever the linker places the heap array.\<close>

lemma Heap_Init_inv:
  assumes "0 < unat heap" "8 dvd unat heap" "unat heap + unat SYS_HEAP_SIZE < 2 ^ 32"
  shows "heap_inv (Heap_Init heap) [heap]"
  using assms by (simp add: heap_inv_def Heap_Init_def blk_ok_def)

lemma Heap_Init_ram: "heap_inv (Heap_Init 0x20000000) [0x20000000]"
  by (rule Heap_Init_inv) simp_all

text \<open>
  C1: allocation never fails at run time and keeps the block list intact. From any well-formed heap
  and for any request below 2 GiB, \<open>Heap_Malloc\<close> returns; it returns null only when no block is
  free; otherwise it returns the eight-byte aligned memory of a block that was free, marks that block
  used, leaves the header of every other block alone, and the blocks tile the heap again.
\<close>

theorem Heap_Malloc_safe:
  assumes "heap_inv h xs" and "unat sz < 2 ^ 31"
  shows "\<exists>p h' xs'. Heap_Malloc h sz = Some (Inr (p, h')) \<and> heap_inv h' xs' \<and> set xs \<subseteq> set xs' \<and>
           (p = 0 \<longleftrightarrow> free_list h xs = []) \<and> (p = 0 \<longrightarrow> h' = h) \<and>
           (p \<noteq> 0 \<longrightarrow> p - 16 \<in> set (free_list h xs) \<and> p - 16 \<notin> set (free_list h' xs') \<and> 8 dvd unat p \<and>
              (\<forall>a \<in> set xs - {p - 16}. hp_blocks h' a = hp_blocks h a))"
  using assms by (rule Heap_Malloc_spec)

theorem Heap_Malloc_safe_witness:
  "heap_inv (Heap_Init 0x20000000) [0x20000000] \<and> unat (100 :: u32) < 2 ^ 31 \<and>
   (\<exists>p h' xs'. Heap_Malloc (Heap_Init 0x20000000) 100 = Some (Inr (p, h')) \<and> heap_inv h' xs')"
  using Heap_Init_ram Heap_Malloc_safe [OF Heap_Init_ram, of 100] by fastforce

section \<open>Which block is taken\<close>

lemma is_free_Some: "bl x = Some b \<Longrightarrow> is_free bl x \<longleftrightarrow> b_used b = 0"
  by (simp add: is_free_def)

lemma pick_first_free:
  assumes "0 \<notin> set xs" "\<And>x. x \<in> set xs \<Longrightarrow> bl x \<noteq> None"
    and "filter (is_free bl) xs = f # fs"
  shows "\<exists>ys. set ys \<subseteq> set xs \<and> filter (is_free bl) ys = fs \<and> f \<in> set xs \<and> is_free bl f \<and>
           pick bl sz xs 0 = (if size_at bl f = sz then f else pick bl sz ys f)"
  using assms
proof (induction xs)
  case (Cons x xs)
  then obtain b where b: "bl x = Some b" by fastforce
  show ?case
  proof (cases "b_used b = 0")
    case True
    then show ?thesis
      using Cons.prems b by (intro exI [of _ xs]) (auto simp: is_free_def size_at_def)
  next
    case False
    then have "filter (is_free bl) xs = f # fs" using Cons.prems(3) b by (simp add: is_free_Some)
    then obtain ys where "set ys \<subseteq> set xs" "filter (is_free bl) ys = fs" "f \<in> set xs" "is_free bl f"
      "pick bl sz xs 0 = (if size_at bl f = sz then f else pick bl sz ys f)"
      using Cons.IH Cons.prems(1,2) by auto
    then show ?thesis using False b by (intro exI [of _ ys]) auto
  qed
qed simp

text \<open>
  C7: the size contract of \<open>Heap_Malloc\<close>, as the code has it. If the first free block of the list
  is large enough, the result is a best fit: its block holds the request and no large enough free
  block is smaller. If the first free block is too small, the code returns that block nevertheless,
  so the caller gets less memory than it asked for.
\<close>

theorem Heap_Malloc_fit:
  assumes "heap_inv h xs" and "unat sz < 2 ^ 31" and "free_list h xs = f # fs"
  shows "\<exists>x h'. Heap_Malloc h sz = Some (Inr (x + 16, h')) \<and> x \<in> set (f # fs) \<and>
     (alloc_size sz \<le> size_at (hp_blocks h) f \<longrightarrow>
        unat sz + 16 \<le> unat (size_at (hp_blocks h') x) \<and>
        (\<forall>y \<in> set (f # fs). alloc_size sz \<le> size_at (hp_blocks h) y \<longrightarrow>
           size_at (hp_blocks h) x \<le> size_at (hp_blocks h) y)) \<and>
     (size_at (hp_blocks h) f < alloc_size sz \<longrightarrow>
        x = f \<and> size_at (hp_blocks h') f = size_at (hp_blocks h) f)"
proof -
  let ?bl = "hp_blocks h" and ?n = "alloc_size sz"
  have nn: "0 \<notin> set xs" and some: "\<And>x. x \<in> set xs \<Longrightarrow> ?bl x \<noteq> None"
    using heap_inv_nonnull heap_inv_blocks assms(1) by auto
  obtain ys where ys: "set ys \<subseteq> set xs" "filter (is_free ?bl) ys = fs" "f \<in> set xs" "is_free ?bl f"
    "pick ?bl ?n xs 0 = (if size_at ?bl f = ?n then f else pick ?bl ?n ys f)"
    using pick_first_free [OF nn some assms(3) [unfolded free_list_def]] by blast
  have nn': "0 \<notin> set ys" and some': "\<And>x. x \<in> set ys \<Longrightarrow> ?bl x \<noteq> None"
    using ys(1) nn some by auto
  define x where "x = pick ?bl ?n xs 0"
  have f0: "f \<noteq> 0" using ys(3) nn by auto
  have xf: "x = f \<or> x \<in> set ys \<and> is_free ?bl x"
    using pick_mem [of ?bl ?n ys f] ys(5) by (auto simp: x_def)
  then have x: "x \<in> set xs" "x \<noteq> 0" "x \<in> set (f # fs)" using ys(1,2,3) nn by auto
  then obtain b where b: "?bl x = Some b" using some by blast
  obtain h' xs' b' where h': "Heap_Malloc h sz = Some (Inr (x + 16, h'))" "hp_blocks h' x = Some b'"
    "b_size b' = (if unat ?n + 32 \<le> unat (b_size b) then ?n else b_size b)"
    using Heap_Malloc_takes [OF assms(1,2) x_def [symmetric] x(2) b] by blast
  have sx: "size_at ?bl x = b_size b" "size_at (hp_blocks h') x = b_size b'"
    using b h'(2) by (simp_all add: size_at_def)
  have small: "size_at ?bl f < ?n \<longrightarrow> x = f"
    using pick_stuck [OF f0] ys(5) by (auto simp: x_def)
  moreover have "size_at ?bl f < ?n \<longrightarrow> b_size b' = b_size b"
    using small h'(3) sx(1) by (auto simp: word_less_nat_alt)
  moreover have big: "?n \<le> size_at ?bl f \<longrightarrow> ?n \<le> size_at ?bl x \<and>
      (\<forall>y \<in> set (f # fs). ?n \<le> size_at ?bl y \<longrightarrow> size_at ?bl x \<le> size_at ?bl y)"
    using pick_best [OF f0 _ nn' some', of ?n] ys(2,5) by (auto simp: x_def)
  moreover have "?n \<le> size_at ?bl f \<longrightarrow> unat sz + 16 \<le> unat (b_size b')"
    using big h'(3) sx alloc_size_ge(1) [OF assms(2)] by (auto simp: word_le_nat_alt)
  ultimately show ?thesis using h'(1) x sx by (metis (no_types, lifting))
qed

lemmas heap_eval = Heap_Malloc_def Heap_Init_def alloc_size_def best_fit_walk.simps split_block_def
  blk_get_def Let_def size_at_def Heap_Free_def join_next_def join_prev_def blk_set_prev_def

theorem Heap_Malloc_fit_witness:
  "\<exists>h. heap_inv h [0x20000000, 0x20000018, 0x20000030] \<and> unat (1000 :: u32) < 2 ^ 31 \<and>
     free_list h [0x20000000, 0x20000018, 0x20000030] = [0x20000000, 0x20000030] \<and>
     size_at (hp_blocks h) 0x20000000 < alloc_size 1000 \<and>
     (\<exists>h'. Heap_Malloc h 1000 = Some (Inr (0x20000010, h')) \<and> size_at (hp_blocks h') 0x20000000 = 24)"
proof -
  let ?h = "\<lparr>hp_base = 0x20000000,
     hp_blocks = [0x20000000 \<mapsto> \<lparr>b_used = 0, b_size = 24, b_prev = 0, b_next = 0x20000018\<rparr>,
                  0x20000018 \<mapsto> \<lparr>b_used = DEADC0DE, b_size = 24, b_prev = 0x20000000, b_next = 0x20000030\<rparr>,
                  0x20000030 \<mapsto> \<lparr>b_used = 0, b_size = 36816, b_prev = 0x20000018, b_next = 0\<rparr>],
     hp_sig = DEADC0DE\<rparr> :: heap_t"
  let ?xs = "[0x20000000, 0x20000018, 0x20000030] :: addr list"
  have inv: "heap_inv ?h ?xs" by (simp add: heap_inv_def blk_ok_def)
  have fl: "free_list ?h ?xs = [0x20000000, 0x20000030]"
    by (simp add: free_list_def is_free_def)
  have small: "size_at (hp_blocks ?h) 0x20000000 < alloc_size 1000"
    by (simp add: size_at_def alloc_size_def)
  have sz: "unat (1000 :: u32) < 2 ^ 31" by simp
  have at: "size_at (hp_blocks ?h) 0x20000000 = 24" by (simp add: size_at_def)
  obtain x h' where xh: "Heap_Malloc ?h 1000 = Some (Inr (x + 16, h'))" "x = 0x20000000"
    "size_at (hp_blocks h') 0x20000000 = 24"
    using Heap_Malloc_fit [OF inv sz fl] small at by auto
  then have "Heap_Malloc ?h 1000 = Some (Inr (0x20000010, h'))" by simp
  then show ?thesis using inv fl small sz xh(3) by blast
qed

section \<open>Release\<close>

lemma plinked_append: "plinked bl p (xs @ ys) \<longleftrightarrow> plinked bl p xs \<and> plinked bl (last (p # xs)) ys"
  by (induction xs arbitrary: p) (auto split: option.splits)

lemma plinked_cong:
  "(\<And>x. x \<in> set xs \<Longrightarrow> bl x = bl' x) \<Longrightarrow> plinked bl p xs = plinked bl' p xs"
  by (induction xs arbitrary: p) (auto split: option.splits)

lemma tiled_ConsE:
  assumes "tiled bl s e (x # xs) n"
  obtains b where "bl x = Some b" "unat x = s" "0 < s" "blk_ok b" "b_next b = first_or n xs"
    "tiled bl (s + unat (b_size b)) e xs n"
  using assms by (auto split: option.splits)

lemma tiled_distinct: "tiled bl s e xs n \<Longrightarrow> distinct xs"
proof (induction xs arbitrary: s)
  case (Cons x xs)
  from Cons.prems obtain b where b: "unat x = s" "blk_ok b" "tiled bl (s + unat (b_size b)) e xs n"
    by (rule tiled_ConsE)
  have "x \<notin> set xs"
  proof
    assume "x \<in> set xs"
    then have "s + unat (b_size b) \<le> unat x" using tiled_addr [OF b(3)] by blast
    then show False using b(1,2) by (simp add: blk_ok_def)
  qed
  then show ?case using Cons.IH [OF b(3)] by simp
qed simp

lemma join_next_free:
  assumes t: "tiled bl s e (ys @ x # y # z # zs) n" and e: "e < 2 ^ 32"
    and p: "plinked bl p (ys @ x # y # z # zs)" and fx: "is_free bl x" and f: "is_free bl y"
  shows "\<exists>bl'. join_next bl x = Inr bl' \<and> tiled bl' s e (ys @ x # z # zs) n \<and>
           plinked bl' p (ys @ x # z # zs) \<and> is_free bl' x \<and>
           (\<forall>a. a \<noteq> x \<longrightarrow> is_free bl' a = is_free bl a \<and> size_at bl' a = size_at bl a)"
proof -
  from t obtain m where m1: "tiled bl s m ys x" and m2: "tiled bl m e (x # y # z # zs) n"
    unfolding tiled_append by auto
  from m2 obtain bx where x: "bl x = Some bx" "unat x = m" "0 < m" "blk_ok bx" "b_next bx = y"
      "tiled bl (m + unat (b_size bx)) e (y # z # zs) n"
    by (rule tiled_ConsE) simp
  from x(6) obtain by' where y: "bl y = Some by'" "blk_ok by'" "b_next by' = z"
      "tiled bl (m + unat (b_size bx) + unat (b_size by')) e (z # zs) n"
    by (rule tiled_ConsE) simp
  from y(4) obtain bz where z: "bl z = Some bz" by (rule tiled_ConsE)
  have d: "distinct (ys @ x # y # z # zs)" using tiled_distinct [OF t] .
  have nn: "x \<noteq> 0" "y \<noteq> 0" "z \<noteq> 0" using tiled_nonnull [OF t] by auto
  define b' where "b' = bx\<lparr>b_size := b_size bx + b_size by', b_next := z\<rparr>"
  define bl' where "bl' = bl(x \<mapsto> b', z \<mapsto> bz\<lparr>b_prev := x\<rparr>)"
  have join: "join_next bl x = Inr bl'"
    using x(1,5) y(1,3) z nn f d
    by (auto simp: join_next_def blk_get_def blk_set_prev_def is_free_def bl'_def b'_def)
  have "m + unat (b_size bx) + unat (b_size by') \<le> e" using tiled_le [OF y(4)] .
  then have sz: "unat (b_size b') = unat (b_size bx) + unat (b_size by')"
    using e unfolding b'_def by (simp add: unat_u32_add)
  have ok: "blk_ok b'"
    using x(1,4) y(2) sz fx by (auto simp: blk_ok_def is_free_Some b'_def)
  have 1: "tiled bl' s m ys x"
    using m1 d by (subst tiled_cong [of _ _ bl]) (auto simp: bl'_def)
  have 2: "tiled bl' (m + unat (b_size b')) e (z # zs) n"
  proof -
    have "blk_ok (bz\<lparr>b_prev := x\<rparr>)" using tiled_block [OF y(4), of z] z by (simp add: blk_ok_def)
    then have "tiled (bl(z \<mapsto> bz\<lparr>b_prev := x\<rparr>)) (m + unat (b_size b')) e (z # zs) n"
      using y(4) z sz by (intro tiled_upd_same) (auto simp: add.assoc)
    then show ?thesis
      using d by (subst tiled_cong [of _ _ "bl(z \<mapsto> bz\<lparr>b_prev := x\<rparr>)"]) (auto simp: bl'_def)
  qed
  have "tiled bl' m e (x # z # zs) n"
    using 2 ok x(2,3) d by (simp add: bl'_def b'_def)
  then have T: "tiled bl' s e (ys @ x # z # zs) n"
    using 1 by (auto simp: tiled_append)
  have "plinked bl p ys" "plinked bl z zs"
    using p by (auto simp: plinked_append split: option.splits)
  moreover have "plinked bl' p ys = plinked bl p ys" "plinked bl' z zs = plinked bl z zs"
    using d by (intro plinked_cong; auto simp: bl'_def)+
  ultimately have P: "plinked bl' p (ys @ x # z # zs)"
    using p d x(1) by (auto simp: plinked_append bl'_def b'_def)
  have "is_free bl' x" using fx x(1) d by (simp add: bl'_def b'_def is_free_def)
  moreover have "\<forall>a. a \<noteq> x \<longrightarrow> is_free bl' a = is_free bl a \<and> size_at bl' a = size_at bl a"
    using z by (auto simp: bl'_def is_free_def size_at_def)
  ultimately show ?thesis using join T P by blast
qed

text \<open>Merging a free block into its free predecessor is merging the predecessor with its successor.\<close>

lemma join_prev_eq_join_next:
  assumes "bl x = Some bx" "bl q = Some bq" "b_prev bx = q" "b_next bq = x"
    and "x \<noteq> 0" "q \<noteq> 0" "b_used bx = 0" "b_used bq = 0"
  shows "join_prev bl x = join_next bl q"
  using assms by (simp add: join_prev_def join_next_def blk_get_def)

lemma plinked_upd_same:
  "plinked bl p xs \<Longrightarrow> bl x = Some b \<Longrightarrow> b_prev b' = b_prev b \<Longrightarrow> plinked (bl(x \<mapsto> b')) p xs"
  by (induction xs arbitrary: p) (auto split: option.splits)

lemma join_next_list:
  assumes t: "tiled bl s e (ys @ x # zs) 0" and e: "e < 2 ^ 32"
    and p: "plinked bl p (ys @ x # zs)" and fx: "is_free bl x"
    and z: "zs \<noteq> [] \<longrightarrow> is_free bl (hd zs) \<longrightarrow> tl zs \<noteq> []"
  shows "\<exists>bl'. join_next bl x = Inr bl' \<and> tiled bl' s e (ys @ x # merge_next bl zs) 0 \<and>
           plinked bl' p (ys @ x # merge_next bl zs) \<and> is_free bl' x \<and>
           (\<forall>a. a \<noteq> x \<longrightarrow> is_free bl' a = is_free bl a \<and> size_at bl' a = size_at bl a)"
proof (cases "zs \<noteq> [] \<and> is_free bl (hd zs)")
  case True
  then obtain y z zs' where "zs = y # z # zs'" "is_free bl y"
    using z by (metis list.collapse)
  then show ?thesis using join_next_free [of bl s e ys x y z zs' 0 p] assms
    by (auto simp: merge_next_def)
next
  case False
  from t obtain m where "tiled bl m e (x # zs) 0" unfolding tiled_append by auto
  then obtain bx where x: "bl x = Some bx" "b_next bx = first_or 0 zs" by (rule tiled_ConsE)
  have "x \<noteq> 0" using tiled_nonnull [OF t] by simp
  moreover have "zs = y # zs' \<Longrightarrow> \<exists>b. bl y = Some b \<and> b_used b \<noteq> 0 \<and> y \<noteq> 0" for y zs'
    using tiled_block [OF t, of y] tiled_nonnull [OF t, of y] False by (auto simp: is_free_Some)
  ultimately have "join_next bl x = Inr bl"
    using x by (cases zs) (fastforce simp: join_next_def blk_get_def)+
  then show ?thesis using False t p fx by (auto simp: merge_next_def)
qed

lemma join_prev_list:
  assumes t: "tiled bl s e (ys @ x # zs) 0" and e: "e < 2 ^ 32"
    and p: "plinked bl 0 (ys @ x # zs)" and fx: "is_free bl x"
    and z: "ys \<noteq> [] \<longrightarrow> is_free bl (last ys) \<longrightarrow> zs \<noteq> []"
  shows "\<exists>bl'. join_prev bl x = Inr bl' \<and> tiled bl' s e (merge_prev bl ys x @ zs) 0 \<and>
           plinked bl' 0 (merge_prev bl ys x @ zs) \<and>
           (\<forall>a. a \<noteq> x \<longrightarrow> \<not> is_free bl a \<longrightarrow> \<not> is_free bl' a \<and> size_at bl' a = size_at bl a)"
proof -
  from t obtain m where "tiled bl m e (x # zs) 0" unfolding tiled_append by auto
  then obtain bx where x: "bl x = Some bx" by (rule tiled_ConsE)
  have x0: "x \<noteq> 0" using tiled_nonnull [OF t] by simp
  have prev: "b_prev bx = last (0 # ys)" using p x by (simp add: plinked_append)
  consider (nil) "ys = []" | (q) ws q where "ys = ws @ [q]" by (metis rev_exhaust)
  then show ?thesis
  proof cases
    case nil
    then have "join_prev bl x = Inr bl" using x x0 prev by (simp add: join_prev_def blk_get_def)
    then show ?thesis using nil t p by (auto simp: merge_prev_def)
  next
    case q
    have t': "tiled bl s e (ws @ q # x # zs) 0" using t q by simp
    then obtain m' where "tiled bl m' e (q # x # zs) 0" unfolding tiled_append by auto
    then obtain bq where bq: "bl q = Some bq" "b_next bq = x" by (rule tiled_ConsE) simp
    have q0: "q \<noteq> 0" using tiled_nonnull [OF t'] by simp
    show ?thesis
    proof (cases "is_free bl q")
      case False
      then have "join_prev bl x = Inr bl"
        using x x0 prev q bq q0 by (simp add: join_prev_def blk_get_def is_free_Some)
      then show ?thesis using False q t p by (auto simp: merge_prev_def)
    next
      case True
      then obtain z zs' where zs: "zs = z # zs'" using z q by (cases zs) auto
      have eq: "join_prev bl x = join_next bl q"
        using x prev q bq True fx
        by (intro join_prev_eq_join_next [OF x bq(1) _ bq(2) x0 q0]) (auto simp: is_free_Some)
      show ?thesis
        using join_next_free [of bl s e ws q x z zs' 0 0] t' e p True fx q zs
        by (auto simp: eq merge_prev_def)
    qed
  qed
qed




text \<open>
  A defect of \<open>Heap_Free\<close>. When the block after the released one is free and is the last block
  of the list, the code writes \<open>nb->next->prev\<close> through the null pointer \<open>nb->next\<close>. This is the
  case for the very first allocation after \<open>Heap_Init\<close>.
\<close>

theorem Heap_Free_last_faults:
  assumes inv: "heap_inv h (ys @ [x, y])" and fy: "is_free (hp_blocks h) y"
  shows "Heap_Free h (x + 16) = Inl NullDeref"
proof -
  let ?s = "unat (hp_base h)" and ?e = "unat (hp_base h) + unat SYS_HEAP_SIZE"
  have t: "tiled (hp_blocks h) ?s ?e (ys @ [x, y]) 0" and e: "?e < 2 ^ 32"
    using inv by (simp_all add: heap_inv_def)
  then obtain m where "tiled (hp_blocks h) m ?e [x, y] 0" unfolding tiled_append by auto
  then obtain bx where x: "hp_blocks h x = Some bx" "blk_ok bx" "b_next bx = y"
      "tiled (hp_blocks h) (m + unat (b_size bx)) ?e [y] 0"
    by (rule tiled_ConsE) simp
  from x(4) obtain by' where y: "hp_blocks h y = Some by'" "b_next by' = 0"
    by (rule tiled_ConsE) simp
  have d: "x \<noteq> y" using tiled_distinct [OF t] by auto
  have nn: "x \<noteq> 0" "y \<noteq> 0" using tiled_nonnull [OF t] by auto
  have "unat (x + 16) = unat x + 16"
    using tiled_extent [OF t _ x(1)] x(2) e by (subst unat_u32_add) (simp_all add: blk_ok_def)
  then have "x + 16 \<noteq> 0" by (metis add_is_0 unat_0 zero_neq_numeral)
  then show ?thesis
    using x y d nn fy
    by (simp add: Heap_Free_def blk_get_def join_next_def blk_set_prev_def is_free_Some)
qed

theorem Heap_Free_last_faults_witness:
  "\<exists>h. Heap_Malloc (Heap_Init 0x20000000) 8 = Some (Inr (0x20000010, h)) \<and>
     heap_inv h [0x20000000, 0x20000018] \<and> Heap_Free h 0x20000010 = Inl NullDeref"
proof -
  let ?h = "\<lparr>hp_base = 0x20000000, hp_blocks =
      [0x20000018 \<mapsto> \<lparr>b_used = 0, b_size = 36840, b_prev = 0x20000000, b_next = 0\<rparr>,
       0x20000000 \<mapsto> \<lparr>b_used = DEADC0DE, b_size = 24, b_prev = 0, b_next = 0x20000018\<rparr>],
      hp_sig = DEADC0DE\<rparr> :: heap_t"
  have m: "Heap_Malloc (Heap_Init 0x20000000) 8 = Some (Inr (0x20000010, ?h))"
    by (simp add: heap_eval)
  have inv: "heap_inv ?h ([] @ [0x20000000, 0x20000018])"
    by (simp add: heap_inv_def blk_ok_def)
  have "Heap_Free ?h (0x20000000 + 16) = Inl NullDeref"
    by (rule Heap_Free_last_faults [OF inv]) (simp add: is_free_def)
  then have f: "Heap_Free ?h 0x20000010 = Inl NullDeref" by simp
  show ?thesis using m inv f by (intro exI [of _ ?h]) simp
qed

text \<open>
  A defect of the block splitting. \<open>Heap_Malloc\<close> does not redirect the \<open>prev\<close> link of the
  block after the one it splits, and \<open>Heap_Free\<close> trusts that link. A sequence of six allocations
  and three releases, each of them of live memory, ends with two live allocations that overlap.
\<close>

theorem Heap_overlap:
  "\<exists>p1 h1 p2 h2 p3 h3 h4 p5 h5 p6 h6 h7 h8 p9 h9.
     Heap_Malloc (Heap_Init 0x20000000) 64 = Some (Inr (p1, h1)) \<and>
     Heap_Malloc h1 8 = Some (Inr (p2, h2)) \<and>
     Heap_Malloc h2 8 = Some (Inr (p3, h3)) \<and>
     Heap_Free h3 p1 = Inr h4 \<and>
     Heap_Malloc h4 8 = Some (Inr (p5, h5)) \<and>
     Heap_Malloc h5 24 = Some (Inr (p6, h6)) \<and>
     Heap_Free h6 p5 = Inr h7 \<and>
     Heap_Free h7 p2 = Inr h8 \<and>
     Heap_Malloc h8 32 = Some (Inr (p9, h9)) \<and>
     p9 < p6 \<and> unat p6 < unat p9 + 32"
  by (simp add: heap_eval)

section \<open>Integrity check\<close>

lemma check_walk_ok:
  assumes "tiled bl s e xs 0"
  shows "check_walk bl (first_or 0 xs) = Some (Inr EOK)"
  using assms
proof (induction xs arbitrary: s)
  case Nil
  show ?case by (simp add: check_walk.simps)
next
  case (Cons x xs)
  from Cons.prems obtain b where "bl x = Some b" "blk_ok b" "b_next b = first_or 0 xs"
      "tiled bl (s + unat (b_size b)) e xs 0"
    by (rule tiled_ConsE)
  with Cons.IH tiled_nonnull [OF Cons.prems, of x] show ?case
    by (subst check_walk.simps) (auto simp: blk_ok_def)
qed

text \<open>A well-formed heap with its end mark intact passes the integrity check.\<close>

lemma Heap_CheckIntegrity_ok:
  "heap_inv h xs \<Longrightarrow> hp_sig h = DEADC0DE \<Longrightarrow> Heap_CheckIntegrity h = Some (Inr EOK)"
  using check_walk_ok heap_inv_first [of h xs]
  by (fastforce simp: Heap_CheckIntegrity_def heap_inv_def)

section \<open>The allocator interface\<close>

text \<open>
  What the clients of the heap rely on: an allocation returns, keeps everything that is live live,
  and a non-null result is new, aligned and live from then on.
\<close>

locale allocator =
  fixes malloc :: "'h \<Rightarrow> u32 \<Rightarrow> (fault + addr \<times> 'h) option"
    and inv :: "'h \<Rightarrow> bool"
    and live :: "'h \<Rightarrow> addr \<Rightarrow> bool"
  assumes malloc_returns:
    "inv h \<Longrightarrow> unat n < 2 ^ 31 \<Longrightarrow> \<exists>p h'. malloc h n = Some (Inr (p, h')) \<and> inv h'"
    and malloc_null: "inv h \<Longrightarrow> unat n < 2 ^ 31 \<Longrightarrow> malloc h n = Some (Inr (0, h')) \<Longrightarrow> h' = h"
    and malloc_new:
    "inv h \<Longrightarrow> unat n < 2 ^ 31 \<Longrightarrow> malloc h n = Some (Inr (p, h')) \<Longrightarrow> p \<noteq> 0 \<Longrightarrow>
       \<not> live h p \<and> live h' p \<and> 8 dvd unat p"
    and malloc_keeps:
    "inv h \<Longrightarrow> unat n < 2 ^ 31 \<Longrightarrow> malloc h n = Some (Inr (p, h')) \<Longrightarrow> live h q \<Longrightarrow> live h' q"
begin

lemma malloc_inv:
  "inv h \<Longrightarrow> unat n < 2 ^ 31 \<Longrightarrow> malloc h n = Some (Inr (p, h')) \<Longrightarrow> inv h'"
  using malloc_returns [of h n] by auto

text \<open>Two allocations in a row, as for a queue and its buffer or a task and its stack.\<close>

lemma malloc_twice:
  assumes "inv h" "unat n < 2 ^ 31" "unat m < 2 ^ 31"
    and "malloc h n = Some (Inr (p, h1))" "malloc h1 m = Some (Inr (q, h2))" "p \<noteq> 0" "q \<noteq> 0"
  shows "p \<noteq> q \<and> live h2 p \<and> live h2 q \<and> inv h2 \<and> \<not> live h p \<and> \<not> live h q \<and>
    (\<forall>a. live h a \<longrightarrow> live h2 a)"
proof -
  have i1: "inv h1" by (rule malloc_inv [OF assms(1,2,4)])
  have i2: "inv h2" by (rule malloc_inv [OF i1 assms(3,5)])
  note p = malloc_new [OF assms(1,2,4,6)] and q = malloc_new [OF i1 assms(3,5,7)]
  show ?thesis
    using p q i2 malloc_keeps [OF assms(1,2,4)] malloc_keeps [OF i1 assms(3,5)] by blast
qed

end

lemma Heap_Malloc_live:
  assumes "heap_inv h xs" "unat sz < 2 ^ 31" "Heap_Malloc h sz = Some (Inr (p, h'))"
  shows "heap_ok h'" and "p = 0 \<Longrightarrow> h' = h" and "p \<noteq> 0 \<Longrightarrow> \<not> live h p \<and> live h' p \<and> 8 dvd unat p"
proof -
  obtain q k xs' where *: "Heap_Malloc h sz = Some (Inr (q, k))" "heap_inv k xs'" "set xs \<subseteq> set xs'"
    "q = 0 \<longleftrightarrow> free_list h xs = []" "q = 0 \<longrightarrow> k = h"
    "q \<noteq> 0 \<longrightarrow> q - 16 \<in> set (free_list h xs) \<and> q - 16 \<notin> set (free_list k xs') \<and> 8 dvd unat q"
    using Heap_Malloc_spec [OF assms(1,2)] by blast
  then have [simp]: "q = p" "k = h'" using assms(3) by auto
  show "heap_ok h'" using * by (auto simp: heap_ok_def)
  show "p = 0 \<Longrightarrow> h' = h" using * by simp
  show "p \<noteq> 0 \<Longrightarrow> \<not> live h p \<and> live h' p \<and> 8 dvd unat p"
    using * by (auto simp: live_def free_list_def)
qed

lemma Heap_Malloc_keeps_live:
  assumes "unat sz < 2 ^ 31" "Heap_Malloc h sz = Some (Inr (p, h'))" "live h q"
  shows "live h' q"
proof -
  from assms(3) obtain xs where xs: "heap_inv h xs" "q - 16 \<in> set xs" "\<not> is_free (hp_blocks h) (q - 16)"
    by (auto simp: live_def)
  obtain r k xs' where *: "Heap_Malloc h sz = Some (Inr (r, k))" "heap_inv k xs'" "set xs \<subseteq> set xs'"
    "r = 0 \<longrightarrow> k = h"
    "r \<noteq> 0 \<longrightarrow> r - 16 \<in> set (free_list h xs) \<and> (\<forall>a \<in> set xs - {r - 16}. hp_blocks k a = hp_blocks h a)"
    using Heap_Malloc_spec [OF xs(1) assms(1)] by blast
  then have [simp]: "r = p" "k = h'" using assms(2) by auto
  have "hp_blocks h' (q - 16) = hp_blocks h (q - 16)"
    using * xs by (cases "p = 0") (auto simp: free_list_def)
  then show ?thesis using * xs by (auto simp: live_def is_free_def)
qed

interpretation heap: allocator Heap_Malloc heap_ok live
proof unfold_locales
  fix h :: heap_t and n :: u32
  assume "heap_ok h" and n: "unat n < 2 ^ 31"
  then obtain xs where "heap_inv h xs" by (auto simp: heap_ok_def)
  then show "\<exists>p h'. Heap_Malloc h n = Some (Inr (p, h')) \<and> heap_ok h'"
    using Heap_Malloc_spec [OF _ n] by (fastforce simp: heap_ok_def)
qed (use Heap_Malloc_live Heap_Malloc_keeps_live in \<open>auto simp: heap_ok_def\<close>)

end
