(* ===== verification/Sys_Queue.thy ===== *)
theory Sys_Queue
  imports Sys_Heap
begin

text \<open>
  The queues that pass data between tasks, \<^verbatim>\<open>sys/src/queue.c\<close>. A queue is a ring of \<open>count\<close> elements
  of \<open>size\<close> bytes with free-running 32 bit head and tail counters. \<open>ptr\<close> is the byte contents of the
  allocated buffer; every \<open>memcpy\<close> is a checked access to it (or to the caller's data), so an access
  outside the buffer is a fault. The queue's semaphore field is not used by any operation of
  \<^verbatim>\<open>queue.c\<close> and is left out.

  The abstraction \<open>q_items\<close> reads the ring as the list of its elements. The lemmas show that the
  operations refine operations on that list, and the locale \<open>byte_fifo\<close> is the contract the sockets rely on.
\<close>

section \<open>State and operations\<close>

record queue_t =
  q_size :: u32
  q_count :: u32
  q_ptr :: bytes
  q_head :: u32
  q_tail :: u32

abbreviation sizeof_queue_t :: u32 where "sizeof_queue_t \<equiv> 24"

definition c_min :: "u32 \<Rightarrow> u32 \<Rightarrow> u32" where
  "c_min a b = (if a < b then a else b)"

text \<open>
  \<open>Queue_Create\<close> allocates the descriptor and the buffer. The result is null or the addresses of
  both with the initialised descriptor. The buffer is all the memory of the block that the heap
  returned, with the contents \<open>junk\<close> it happens to have.
\<close>

definition Queue_Create ::
  "heap_t \<Rightarrow> (nat \<Rightarrow> u8) \<Rightarrow> u32 \<Rightarrow> u32 \<Rightarrow> (fault + heap_t \<times> (addr \<times> addr \<times> queue_t) option) option"
where
  "Queue_Create h junk esize cnt =
     (case Heap_Malloc h sizeof_queue_t of
        None \<Rightarrow> None
      | Some (Inl e) \<Rightarrow> Some (Inl e)
      | Some (Inr (q, h1)) \<Rightarrow>
          if q = 0 then Some (Inr (h1, None))
          else (case Heap_Malloc h1 (esize * cnt) of
                  None \<Rightarrow> None
                | Some (Inl e) \<Rightarrow> Some (Inl e)
                | Some (Inr (ptr, h2)) \<Rightarrow>
                    if ptr = 0
                    then Some (bind_res (Heap_Free h2 q) (\<lambda>h3. Inr (h3, None)))
                    else Some (Inr (h2, Some (q, ptr,
                           \<lparr>q_size = esize, q_count = cnt,
                            q_ptr = map junk [0..<unat (size_at (hp_blocks h2) (ptr - 16)) - 16],
                            q_head = 0, q_tail = 0\<rparr>)))))"

definition Queue_Destroy :: "heap_t \<Rightarrow> addr \<Rightarrow> addr \<Rightarrow> fault + heap_t" where
  "Queue_Destroy h q ptr = bind_res (Heap_Free h ptr) (\<lambda>h1. Heap_Free h1 q)"

definition Queue_GetUsed :: "queue_t \<Rightarrow> u32" where
  "Queue_GetUsed q = q_head q - q_tail q"

definition Queue_GetFree :: "queue_t \<Rightarrow> u32" where
  "Queue_GetFree q = q_count q - Queue_GetUsed q"

definition Queue_Drop :: "queue_t \<Rightarrow> u32 \<Rightarrow> u32 \<times> queue_t" where
  "Queue_Drop q count =
     (let max_to_drop = c_min count (Queue_GetUsed q)
      in (max_to_drop, q\<lparr>q_tail := q_tail q + max_to_drop\<rparr>))"

definition Queue_DropAll :: "queue_t \<Rightarrow> u32 \<times> queue_t" where
  "Queue_DropAll q = Queue_Drop q (Queue_GetUsed q)"

definition Queue_IncreaseCount :: "queue_t \<Rightarrow> u32 \<Rightarrow> u32 \<times> queue_t" where
  "Queue_IncreaseCount q count =
     (let max_to_add = c_min count (Queue_GetFree q)
      in (max_to_add, q\<lparr>q_head := q_head q + max_to_add\<rparr>))"

definition Queue_Put :: "queue_t \<Rightarrow> bytes \<Rightarrow> u32 \<Rightarrow> fault + u32 \<times> queue_t" where
  "Queue_Put q p8 count =
     (if q_count q = 0 then Inl DivByZero
      else let to_write = c_min count (Queue_GetFree q);
               head_idx = q_head q mod q_count q;
               to_wrap = c_min (q_count q - head_idx) to_write
           in bind_res (mem_read p8 0 (unat (to_wrap * q_size q))) (\<lambda>part1.
              bind_res (mem_write (q_ptr q) (unat (head_idx * q_size q)) part1) (\<lambda>buf1.
              bind_res (mem_read p8 (unat (to_wrap * q_size q))
                          (unat ((to_write - to_wrap) * q_size q))) (\<lambda>part2.
              bind_res (mem_write buf1 0 part2) (\<lambda>buf2.
              Inr (to_write, q\<lparr>q_ptr := buf2, q_head := q_head q + to_write\<rparr>))))))"

definition Queue_Peek :: "queue_t \<Rightarrow> u32 \<Rightarrow> fault + u32 \<times> bytes" where
  "Queue_Peek q count =
     (if q_count q = 0 then Inl DivByZero
      else let to_read = c_min count (Queue_GetUsed q);
               tail_idx = q_tail q mod q_count q;
               to_wrap = c_min (q_count q - tail_idx) to_read
           in bind_res (mem_read (q_ptr q) (unat (tail_idx * q_size q)) (unat (to_wrap * q_size q)))
                (\<lambda>part1.
              bind_res (mem_read (q_ptr q) 0 (unat ((to_read - to_wrap) * q_size q))) (\<lambda>part2.
              Inr (to_read, part1 @ part2))))"

definition Queue_Get :: "queue_t \<Rightarrow> u32 \<Rightarrow> fault + u32 \<times> bytes \<times> queue_t" where
  "Queue_Get q count =
     bind_res (Queue_Peek q count) (\<lambda>(rd, data). Inr (rd, data, snd (Queue_Drop q rd)))"

definition Queue_GetFreeLinearMem :: "queue_t \<Rightarrow> fault + u32 \<times> u32" where
  "Queue_GetFreeLinearMem q =
     (if q_count q = 0 then Inl DivByZero
      else let to_write = Queue_GetFree q;
               head_idx = q_head q mod q_count q;
               to_wrap = c_min (q_count q - head_idx) to_write
           in Inr (head_idx * q_size q, to_wrap))"

definition Queue_GetUsedLinearMem :: "queue_t \<Rightarrow> fault + u32 \<times> u32" where
  "Queue_GetUsedLinearMem q =
     (if q_count q = 0 then Inl DivByZero
      else let to_read = Queue_GetUsed q;
               tail_idx = q_tail q mod q_count q;
               to_wrap = c_min (q_count q - tail_idx) to_read
           in Inr (tail_idx * q_size q, to_wrap))"

text \<open>
  The waiting variants. The shared state of the waiting task is a record with the clock, its own
  cancellation status and the queue; the loop's locals are the count so far (and the data read).
\<close>

record qworld =
  qw_now :: u32
  qw_cancelled :: bool
  qw_queue :: queue_t

definition Queue_PutWait_body ::
  "(bytes \<times> u32 \<times> int \<times> u32) \<Rightarrow> u32 \<Rightarrow> qworld \<Rightarrow> ((fault + u32) \<times> qworld) + (u32 \<times> qworld)"
where
  "Queue_PutWait_body p written w =
     (case p of (ptr, count, timeout, ts) \<Rightarrow>
       (case Queue_Put (qw_queue w) (drop (unat (written * q_size (qw_queue w))) ptr) (count - written) of
          Inl e \<Rightarrow> Inl (Inl e, w)
        | Inr (n, q') \<Rightarrow>
            let written' = written + n; w' = w\<lparr>qw_queue := q'\<rparr>
            in if written' \<noteq> count
               then if (timeout \<noteq> 0 \<and> dtime (qw_now w') ts > timeout) \<or> qw_cancelled w'
                    then Inl (Inr written', w')
                    else Inr (written', w')
               else Inl (Inr written', w')))"

definition Queue_PutWait ::
  "nat \<Rightarrow> (nat \<Rightarrow> qworld \<Rightarrow> qworld) \<Rightarrow> bytes \<Rightarrow> u32 \<Rightarrow> int \<Rightarrow> qworld \<Rightarrow> ((fault + u32) \<times> qworld) option"
where
  "Queue_PutWait fuel env ptr count timeout w =
     yield_loop fuel env 0 (Queue_PutWait_body (ptr, count, timeout, qw_now w)) 0 w"

definition Queue_GetWait_body ::
  "(u32 \<times> int \<times> u32) \<Rightarrow> u32 \<times> bytes \<Rightarrow> qworld \<Rightarrow>
     ((fault + u32 \<times> bytes) \<times> qworld) + ((u32 \<times> bytes) \<times> qworld)"
where
  "Queue_GetWait_body p l w =
     (case p of (count, timeout, ts) \<Rightarrow>
       (case Queue_Get (qw_queue w) (count - fst l) of
          Inl e \<Rightarrow> Inl (Inl e, w)
        | Inr (n, data, q') \<Rightarrow>
            let rd = fst l + n; out = snd l @ data; w' = w\<lparr>qw_queue := q'\<rparr>
            in if rd \<noteq> count
               then if (timeout \<noteq> 0 \<and> dtime (qw_now w') ts > timeout) \<or> qw_cancelled w'
                    then Inl (Inr (rd, out), w')
                    else Inr ((rd, out), w')
               else Inl (Inr (rd, out), w')))"

definition Queue_GetWait ::
  "nat \<Rightarrow> (nat \<Rightarrow> qworld \<Rightarrow> qworld) \<Rightarrow> u32 \<Rightarrow> int \<Rightarrow> qworld \<Rightarrow>
     ((fault + u32 \<times> bytes) \<times> qworld) option"
where
  "Queue_GetWait fuel env count timeout w =
     yield_loop fuel env 0 (Queue_GetWait_body (count, timeout, qw_now w)) (0, []) w"

section \<open>Invariant and abstraction\<close>

text \<open>Element \<open>j\<close> of a byte buffer, and the first \<open>k\<close> elements of one.\<close>

definition slot :: "nat \<Rightarrow> 'a list \<Rightarrow> nat \<Rightarrow> 'a list" where
  "slot s buf j = take s (drop (j * s) buf)"

definition chunks :: "nat \<Rightarrow> nat \<Rightarrow> 'a list \<Rightarrow> 'a list list" where
  "chunks s k buf = map (slot s buf) [0..<k]"

abbreviation sz :: "queue_t \<Rightarrow> nat" where "sz q \<equiv> unat (q_size q)"
abbreviation cap :: "queue_t \<Rightarrow> nat" where "cap q \<equiv> unat (q_count q)"
abbreviation used :: "queue_t \<Rightarrow> nat" where "used q \<equiv> unat (Queue_GetUsed q)"

text \<open>
  A queue is well formed if its buffer holds \<open>count\<close> elements, it holds no more elements than that,
  and the ring position of the head is the one that follows the elements held. The last point is
  automatic for a capacity that divides \<open>2 ^ 32\<close>; for another capacity it lasts until the head
  counter wraps.
\<close>

definition q_wf :: "queue_t \<Rightarrow> bool" where
  "q_wf q \<longleftrightarrow> 0 < cap q \<and> 0 < sz q \<and> sz q * cap q < 2 ^ 32 \<and> sz q * cap q \<le> length (q_ptr q) \<and>
     used q \<le> cap q \<and>
     unat (q_head q) mod cap q = (unat (q_tail q) + used q) mod cap q"

definition q_items :: "queue_t \<Rightarrow> bytes list" where
  "q_items q = map (\<lambda>i. slot (sz q) (q_ptr q) ((unat (q_tail q) + i) mod cap q)) [0..<used q]"

text \<open>
  Advancing a counter keeps ring positions if the capacity divides \<open>2 ^ 32\<close> or the counter does not
  wrap.
\<close>

definition keeps_pos :: "queue_t \<Rightarrow> u32 \<Rightarrow> u32 \<Rightarrow> bool" where
  "keeps_pos q counter n \<longleftrightarrow> cap q dvd 2 ^ 32 \<or> unat counter + unat n < 2 ^ 32"

definition q_bytes :: "queue_t \<Rightarrow> bytes" where
  "q_bytes q = concat (q_items q)"

definition q_ok :: "queue_t \<Rightarrow> bool" where
  "q_ok q \<longleftrightarrow> q_wf q \<and> cap q dvd 2 ^ 32"

text \<open>A task's use of a queue as a sequence of operations, with the bytes accepted and delivered.\<close>

datatype fifo_op = Put bytes u32 | Get u32

fun fifo_run ::
  "('q \<Rightarrow> bytes \<Rightarrow> u32 \<Rightarrow> fault + u32 \<times> 'q) \<Rightarrow> ('q \<Rightarrow> u32 \<Rightarrow> fault + u32 \<times> bytes \<times> 'q) \<Rightarrow> nat \<Rightarrow>
     'q \<Rightarrow> fifo_op list \<Rightarrow> fault + bytes \<times> bytes \<times> 'q"
where
  "fifo_run put get u q [] = Inr ([], [], q)"
| "fifo_run put get u q (Put d n # ops) =
     bind_res (put q d n) (\<lambda>(w, q').
     bind_res (fifo_run put get u q' ops) (\<lambda>(ins, outs, q''). Inr (take (unat w * u) d @ ins, outs, q'')))"
| "fifo_run put get u q (Get n # ops) =
     bind_res (get q n) (\<lambda>(r, d, q').
     bind_res (fifo_run put get u q' ops) (\<lambda>(ins, outs, q''). Inr (ins, d @ outs, q'')))"

section \<open>Elements of a buffer\<close>

lemma slot_length: "Suc j * s \<le> length buf \<Longrightarrow> length (slot s buf j) = s"
  by (simp add: slot_def)

lemma slot_nth: "Suc j * s \<le> length buf \<Longrightarrow> i < s \<Longrightarrow> slot s buf j ! i = buf ! (j * s + i)"
  by (simp add: slot_def)

lemma slot_index:
  fixes a j s i n :: nat
  assumes "i < s"
  shows "a * s \<le> j * s + i \<and> j * s + i < a * s + n * s \<longleftrightarrow> a \<le> j \<and> j < a + n"
proof
  assume h: "a * s \<le> j * s + i \<and> j * s + i < a * s + n * s"
  have "a * s < (Suc j) * s" using h assms by simp
  then have "a \<le> j" using mult_less_cancel2 by (metis less_Suc_eq_le)
  moreover have "j * s < (a + n) * s" using h by (simp add: add_mult_distrib)
  then have "j < a + n" using mult_less_cancel2 by blast
  ultimately show "a \<le> j \<and> j < a + n" ..
next
  assume h: "a \<le> j \<and> j < a + n"
  have "a * s \<le> j * s" using h by (intro mult_le_mono1) simp
  moreover have "Suc j * s \<le> (a + n) * s" using h by (intro mult_le_mono1) simp
  then have "s + j * s \<le> a * s + n * s" by (simp only: add_mult_distrib mult_Suc)
  ultimately show "a * s \<le> j * s + i \<and> j * s + i < a * s + n * s"
    using assms by linarith
qed

text \<open>A write of whole elements, seen element by element.\<close>

lemma slot_mem_write:
  assumes w: "mem_write buf (a * s) xs = Inr buf'" and len: "length xs = n * s"
    and j: "Suc j * s \<le> length buf"
  shows "slot s buf' j = (if a \<le> j \<and> j < a + n then slot s xs (j - a) else slot s buf j)"
proof (rule nth_equalityI)
  have l: "length buf' = length buf" using mem_write_length [OF w] .
  have in_xs: "a \<le> j \<Longrightarrow> j < a + n \<Longrightarrow> Suc (j - a) * s \<le> length xs"
    unfolding len by (intro mult_le_mono1) simp
  show "length (slot s buf' j) = length (if a \<le> j \<and> j < a + n then slot s xs (j - a) else slot s buf j)"
    using j l in_xs by (auto simp: slot_length simp del: mult_Suc)
  fix i assume "i < length (slot s buf' j)"
  then have i: "i < s" using j l slot_length [of j s buf'] by simp
  have b: "j * s + i < length buf" using i j by simp
  show "slot s buf' j ! i = (if a \<le> j \<and> j < a + n then slot s xs (j - a) else slot s buf j) ! i"
  proof (cases "a \<le> j \<and> j < a + n")
    case True
    then have "j * s + i - a * s = (j - a) * s + i"
      by (simp add: diff_mult_distrib)
    then show ?thesis
      using True i l j in_xs mem_write_nth [OF w b] slot_index [OF i, of a j n] len
      by (simp add: slot_nth del: mult_Suc)
  next
    case False
    have "buf' ! (j * s + i) = buf ! (j * s + i)"
      using mem_write_nth [OF w b] slot_index [OF i, of a j n] len False by auto
    then show ?thesis using False i l j by (auto simp: slot_nth simp del: mult_Suc)
  qed
qed

lemma slot_take: "Suc j \<le> n \<Longrightarrow> slot s (take (n * s) xs) j = slot s xs j"
proof -
  assume "Suc j \<le> n"
  then have "Suc j * s \<le> n * s" by (intro mult_le_mono1)
  then show ?thesis by (simp add: slot_def drop_take)
qed

lemma slot_drop: "slot s (drop (m * s) xs) j = slot s xs (m + j)"
  by (simp add: slot_def add_mult_distrib add.commute)

lemma mod_window_neq:
  fixes a b c :: nat
  assumes "a < b" "b < a + c"
  shows "a mod c \<noteq> b mod c"
proof
  assume "a mod c = b mod c"
  then have "c dvd b - a" using assms by (metis less_imp_le mod_eq_dvd_iff_nat)
  then show False using assms by (auto dest: dvd_imp_le)
qed

lemma ring_pos: "h mod c + k < c \<Longrightarrow> (h + k) mod c = h mod c + k" for c h k :: nat
  by (metis mod_add_left_eq mod_less)

lemma ring_pos_wrap:
  "c \<le> h mod c + k \<Longrightarrow> h mod c + k < 2 * c \<Longrightarrow> (h + k) mod c = h mod c + k - c" for c h k :: nat
proof -
  assume a: "c \<le> h mod c + k" "h mod c + k < 2 * c"
  have "(h + k) mod c = (h mod c + k) mod c" by (simp add: mod_add_left_eq)
  also have "\<dots> = h mod c + k - c" using a by (simp add: le_mod_geq)
  finally show ?thesis .
qed

text \<open>A write of \<open>w\<close> elements at the ring position \<open>h mod c\<close>, in two parts as the code does it.\<close>

lemma ring_write:
  assumes c: "0 < c" "c * s \<le> length buf" and w: "w \<le> c" "w * s \<le> length src"
    and tw: "tw = min (c - h mod c) w"
  shows "\<exists>buf1 buf2. mem_read src 0 (tw * s) = Inr (take (tw * s) src) \<and>
     mem_write buf (h mod c * s) (take (tw * s) src) = Inr buf1 \<and>
     mem_read src (tw * s) ((w - tw) * s) = Inr (take ((w - tw) * s) (drop (tw * s) src)) \<and>
     mem_write buf1 0 (take ((w - tw) * s) (drop (tw * s) src)) = Inr buf2 \<and>
     length buf2 = length buf \<and>
     (\<forall>k < w. slot s buf2 ((h + k) mod c) = slot s src k) \<and>
     (\<forall>j < c. (\<forall>k < w. j \<noteq> (h + k) mod c) \<longrightarrow> slot s buf2 j = slot s buf j)"
proof -
  define hi where "hi = h mod c"
  have hi: "hi < c" using c(1) by (simp add: hi_def)
  have tww: "tw \<le> w" and twc: "hi + tw \<le> c" using tw hi by (auto simp: hi_def)
  have m1: "tw * s \<le> w * s" using tww by (intro mult_le_mono1)
  have m2: "(hi + tw) * s \<le> c * s" using twc by (intro mult_le_mono1)
  have m3: "(w - tw) * s \<le> c * s" using w(1) by (intro mult_le_mono1) simp
  have m4: "tw * s + (w - tw) * s = w * s" using tww by (simp flip: add_mult_distrib)
  define p1 where "p1 = take (tw * s) src"
  define p2 where "p2 = take ((w - tw) * s) (drop (tw * s) src)"
  have l1: "length p1 = tw * s" unfolding p1_def length_take using m1 w(2) by linarith
  have l2: "length p2 = (w - tw) * s" unfolding p2_def length_take length_drop using m4 w(2) by linarith
  obtain buf1 where b1: "mem_write buf (hi * s) p1 = Inr buf1"
    using m2 l1 c(2) by (simp add: mem_write_def add_mult_distrib)
  have lb1: "length buf1 = length buf" using mem_write_length [OF b1] .
  obtain buf2 where b2: "mem_write buf1 (0 * s) p2 = Inr buf2"
    using m3 l2 c(2) lb1 by (simp add: mem_write_def)
  have lb2: "length buf2 = length buf" using mem_write_length [OF b2] lb1 by simp
  have jb: "j < c \<Longrightarrow> Suc j * s \<le> length buf" for j
    using c(2) by (meson Suc_leI le_trans mult_le_mono1)
  have s2: "j < c \<Longrightarrow> slot s buf2 j =
      (if j < w - tw then slot s p2 j else if hi \<le> j \<and> j < hi + tw then slot s p1 (j - hi) else slot s buf j)" for j
    using slot_mem_write [OF b2 l2, of j] slot_mem_write [OF b1 l1, of j] jb [of j] lb1 by simp
  have old: "j < c \<Longrightarrow> \<forall>k < w. j \<noteq> (h + k) mod c \<Longrightarrow> slot s buf2 j = slot s buf j" for j
  proof -
    assume j: "j < c" and out: "\<forall>k < w. j \<noteq> (h + k) mod c"
    have "\<not> (hi \<le> j \<and> j < hi + tw)"
    proof
      assume a: "hi \<le> j \<and> j < hi + tw"
      then have "(h + (j - hi)) mod c = j" using j ring_pos [of h c "j - hi"] by (simp add: hi_def)
      moreover have "j - hi < w" using a tww by auto
      ultimately show False using out by metis
    qed
    moreover have "\<not> j < w - tw"
    proof
      assume a: "j < w - tw"
      then have "tw = c - hi" using tw by (auto simp: hi_def)
      then have "hi + (tw + j) = c + j" using hi by simp
      then have "(h + (tw + j)) mod c = j"
        using j ring_pos_wrap [of c h "tw + j"] unfolding hi_def by linarith
      moreover have "tw + j < w" using a by simp
      ultimately show False using out by metis
    qed
    ultimately show ?thesis using s2 [OF j] by auto
  qed
  have new: "k < w \<Longrightarrow> slot s buf2 ((h + k) mod c) = slot s src k" for k
  proof (cases "k < tw")
    case True
    assume "k < w"
    have pos: "(h + k) mod c = hi + k" using True twc ring_pos [of h c k] by (simp add: hi_def)
    have "\<not> hi + k < w - tw" using True tw w(1) by (auto simp: hi_def)
    then have "slot s buf2 (hi + k) = slot s p1 k" using s2 [of "hi + k"] True twc by simp
    then show ?thesis using pos True slot_take [of k tw s src] by (simp add: p1_def)
  next
    case False
    assume k: "k < w"
    then have e: "tw = c - hi" using False tw by (auto simp: hi_def)
    have pos: "(h + k) mod c = k - tw"
      using ring_pos_wrap [of c h k] False e hi k w(1) unfolding hi_def by linarith
    have lt: "k - tw < w - tw" "k - tw < c" using k False w(1) by auto
    then have "slot s buf2 (k - tw) = slot s p2 (k - tw)" using s2 by simp
    also have "\<dots> = slot s src k"
      unfolding p2_def using lt(1) False by (subst slot_take) (auto simp: slot_drop)
    finally show ?thesis using pos by simp
  qed
  have "mem_read src 0 (tw * s) = Inr p1" "mem_read src (tw * s) ((w - tw) * s) = Inr p2"
    using m1 m4 w(2) by (simp_all add: mem_read_def p1_def p2_def)
  then show ?thesis using b1 b2 lb2 old new unfolding p1_def p2_def hi_def by auto
qed

text \<open>Reading \<open>r\<close> elements from the ring position \<open>t mod c\<close>, in two parts.\<close>

lemma concat_chunks:
  assumes "k * s \<le> length buf"
  shows "concat (chunks s k buf) = take (k * s) buf"
  using assms
proof (induction k)
  case (Suc k)
  then show ?case by (simp add: chunks_def slot_def take_add add.commute [of s])
qed (simp add: chunks_def)

lemma ring_read:
  assumes c: "0 < c" "c * s \<le> length buf" and r: "r \<le> c" and tw: "tw = min (c - t mod c) r"
  shows "\<exists>a b. mem_read buf (t mod c * s) (tw * s) = Inr a \<and> mem_read buf 0 ((r - tw) * s) = Inr b \<and>
     a @ b = concat (map (\<lambda>i. slot s buf ((t + i) mod c)) [0..<r])"
proof -
  define ti where "ti = t mod c"
  have ti: "ti < c" using c(1) by (simp add: ti_def)
  have twr: "tw \<le> r" and twc: "ti + tw \<le> c" using tw ti by (auto simp: ti_def)
  have m2: "(ti + tw) * s \<le> c * s" using twc by (intro mult_le_mono1)
  have m3: "(r - tw) * s \<le> c * s" using r by (intro mult_le_mono1) simp
  have split: "[0..<r] = [0..<tw] @ map (\<lambda>i. i + tw) [0..<r - tw]"
    using upt_add_eq_append [of 0 tw "r - tw"] twr by (simp add: map_add_upt)
  have A: "map (\<lambda>i. slot s buf ((t + i) mod c)) [0..<tw] = chunks s tw (drop (ti * s) buf)"
    unfolding chunks_def using twc ring_pos [of t c]
    by (intro map_cong refl) (auto simp: slot_drop ti_def)
  have B: "map (\<lambda>i. slot s buf ((t + i) mod c)) (map (\<lambda>i. i + tw) [0..<r - tw]) = chunks s (r - tw) buf"
  proof (cases "tw = r")
    case False
    then have e: "tw = c - ti" using tw by (auto simp: ti_def)
    have "(t + (i + tw)) mod c = i" if "i < r - tw" for i
      using that r e ti ring_pos_wrap [of c t "i + tw"] by (simp add: ti_def)
    then show ?thesis by (simp add: chunks_def)
  qed (simp add: chunks_def)
  have "mem_read buf (ti * s) (tw * s) = Inr (take (tw * s) (drop (ti * s) buf))"
    using m2 c(2) by (simp add: mem_read_def add_mult_distrib)
  moreover have "mem_read buf 0 ((r - tw) * s) = Inr (take ((r - tw) * s) buf)"
    using le_trans [OF m3 c(2)] by (simp add: mem_read_def)
  moreover have "concat (chunks s tw (drop (ti * s) buf)) = take (tw * s) (drop (ti * s) buf)"
    using m2 c(2) by (intro concat_chunks) (simp add: add_mult_distrib)
  moreover have "concat (chunks s (r - tw) buf) = take ((r - tw) * s) buf"
    by (intro concat_chunks) (use m3 c(2) in linarith)
  ultimately show ?thesis
    unfolding split using A B by (simp add: ti_def)
qed


section \<open>Counters\<close>

lemma unat_c_min: "unat (c_min a b) = min (unat a) (unat b)"
  by (auto simp: c_min_def word_less_nat_alt min_def)

lemma used_mod: "unat (q_head q) = (unat (q_tail q) + used q) mod 2 ^ 32"
proof -
  have "q_tail q + Queue_GetUsed q = q_head q" by (simp add: Queue_GetUsed_def)
  then have "unat (q_head q) = unat (q_tail q + Queue_GetUsed q)" by simp
  then show ?thesis by (simp add: unat_word_ariths)
qed

lemma unat_GetFree: "q_wf q \<Longrightarrow> unat (Queue_GetFree q) = cap q - used q"
  unfolding Queue_GetFree_def by (rule unat_u32_sub) (simp add: q_wf_def word_le_nat_alt)

lemma elem_bytes: "q_wf q \<Longrightarrow> unat k \<le> cap q \<Longrightarrow> unat (k * q_size q) = unat k * sz q"
proof -
  assume a: "q_wf q" "unat k \<le> cap q"
  have "unat k * sz q \<le> cap q * sz q" using a(2) by (intro mult_le_mono1)
  moreover have "cap q * sz q < 2 ^ 32" using a(1) by (simp add: q_wf_def mult.commute)
  ultimately show ?thesis by (intro unat_u32_mult) linarith
qed

text \<open>The counters advance modulo \<open>2 ^ 32\<close>; this keeps ring positions if the capacity divides it.\<close>

lemma advance_mod:
  assumes "c dvd 2 ^ 32 \<or> unat a + unat n < 2 ^ 32"
  shows "unat (a + n :: u32) mod c = (unat a + unat n) mod c"
proof -
  have "unat (a + n) = (unat a + unat n) mod 2 ^ 32" by (simp add: unat_word_ariths)
  then show ?thesis using assms by (auto simp: mod_mod_cancel)
qed

lemma advance_head_wf:
  assumes wf: "q_wf q" and n: "used q + unat n \<le> cap q" and k: "keeps_pos q (q_head q) n"
    and l: "length buf = length (q_ptr q)"
  shows "q_wf (q\<lparr>q_ptr := buf, q_head := q_head q + n\<rparr>)"
    and "used (q\<lparr>q_ptr := buf, q_head := q_head q + n\<rparr>) = used q + unat n"
proof -
  let ?q = "q\<lparr>q_ptr := buf, q_head := q_head q + n\<rparr>"
  have "Queue_GetUsed ?q = Queue_GetUsed q + n" by (simp add: Queue_GetUsed_def)
  then show u: "used ?q = used q + unat n"
    using n unat_u32_less [of "q_count q"] by (simp add: unat_u32_add)
  have "unat (q_head q + n) mod cap q = (unat (q_head q) + unat n) mod cap q"
    using k by (intro advance_mod) (simp add: keeps_pos_def)
  also have "\<dots> = (unat (q_head q) mod cap q + unat n) mod cap q"
    by (simp add: mod_add_left_eq)
  also have "unat (q_head q) mod cap q = (unat (q_tail q) + used q) mod cap q"
    using wf by (simp add: q_wf_def)
  also have "((unat (q_tail q) + used q) mod cap q + unat n) mod cap q =
      (unat (q_tail q) + used q + unat n) mod cap q"
    by (simp add: mod_add_left_eq)
  finally show "q_wf ?q" using wf u n l by (simp add: q_wf_def add.assoc)
qed

lemma Queue_Put_spec:
  assumes wf: "q_wf q" and src: "unat n * sz q \<le> length src"
  defines "w \<equiv> c_min n (Queue_GetFree q)"
  shows "\<exists>buf. Queue_Put q src n = Inr (w, q\<lparr>q_ptr := buf, q_head := q_head q + w\<rparr>) \<and>
     length buf = length (q_ptr q) \<and> unat w = min (unat n) (cap q - used q) \<and>
     q_items (q\<lparr>q_ptr := buf, q_head := q_head q + w\<rparr>) = q_items q @ chunks (sz q) (unat w) src"
proof -
  let ?c = "cap q" and ?s = "sz q" and ?h = "unat (q_tail q) + used q"
  have c: "0 < ?c" "?c * ?s \<le> length (q_ptr q)" and uc: "used q \<le> ?c"
    and hm: "unat (q_head q) mod ?c = ?h mod ?c"
    using wf by (simp_all add: q_wf_def mult.commute)
  have uw: "unat w = min (unat n) (?c - used q)"
    unfolding w_def unat_c_min unat_GetFree [OF wf] ..
  have "unat w * ?s \<le> unat n * ?s" using uw by (intro mult_le_mono1) simp
  then have ws: "unat w \<le> ?c" "unat w * ?s \<le> length src" using uw src by linarith+
  define hi where "hi = q_head q mod q_count q"
  define tw where "tw = c_min (q_count q - hi) w"
  have uhi: "unat hi = ?h mod ?c" using hm by (simp add: hi_def unat_mod)
  have "hi \<le> q_count q" using uhi c(1) by (simp add: word_le_nat_alt)
  then have utw: "unat tw = min (?c - ?h mod ?c) (unat w)"
    by (simp add: tw_def unat_c_min unat_u32_sub uhi)
  obtain buf1 buf2 where r:
    "mem_read src 0 (unat tw * ?s) = Inr (take (unat tw * ?s) src)"
    "mem_write (q_ptr q) (?h mod ?c * ?s) (take (unat tw * ?s) src) = Inr buf1"
    "mem_read src (unat tw * ?s) ((unat w - unat tw) * ?s) =
       Inr (take ((unat w - unat tw) * ?s) (drop (unat tw * ?s) src))"
    "mem_write buf1 0 (take ((unat w - unat tw) * ?s) (drop (unat tw * ?s) src)) = Inr buf2"
    "length buf2 = length (q_ptr q)"
    "\<forall>k < unat w. slot ?s buf2 ((?h + k) mod ?c) = slot ?s src k"
    "\<forall>j < ?c. (\<forall>k < unat w. j \<noteq> (?h + k) mod ?c) \<longrightarrow> slot ?s buf2 j = slot ?s (q_ptr q) j"
    using ring_write [OF c ws utw] by blast
  have "tw \<le> w" using utw by (simp add: word_le_nat_alt)
  then have b: "unat (tw * q_size q) = unat tw * ?s" "unat (hi * q_size q) = ?h mod ?c * ?s"
    "unat ((w - tw) * q_size q) = (unat w - unat tw) * ?s"
    using elem_bytes [OF wf, of tw] elem_bytes [OF wf, of hi] elem_bytes [OF wf, of "w - tw"]
      utw ws(1) uhi c(1) by (simp_all add: unat_u32_sub)
  let ?q = "q\<lparr>q_ptr := buf2, q_head := q_head q + w\<rparr>"
  have "q_count q \<noteq> 0" using c(1) by auto
  then have put: "Queue_Put q src n = Inr (w, ?q)"
    using r(1-4) b by (simp add: Queue_Put_def Let_def w_def [symmetric] hi_def [symmetric]
        tw_def [symmetric])
  have "Queue_GetUsed ?q = Queue_GetUsed q + w" by (simp add: Queue_GetUsed_def)
  then have used': "used ?q = used q + unat w"
    using uw uc unat_u32_less [of "q_count q"] by (simp add: unat_u32_add)
  have old: "slot ?s buf2 ((unat (q_tail q) + i) mod ?c) = slot ?s (q_ptr q) ((unat (q_tail q) + i) mod ?c)"
    if "i < used q" for i
  proof -
    have "(unat (q_tail q) + i) mod ?c \<noteq> (?h + k) mod ?c" if "k < unat w" for k
      by (rule mod_window_neq) (use that \<open>i < used q\<close> uw uc in auto)
    then show ?thesis using r(7) c(1) by simp
  qed
  have "q_items ?q = map (\<lambda>i. slot ?s buf2 ((unat (q_tail q) + i) mod ?c)) [0..<used q + unat w]"
    using used' by (simp add: q_items_def)
  also have "\<dots> = map (\<lambda>i. slot ?s buf2 ((unat (q_tail q) + i) mod ?c)) [0..<used q] @
      map (\<lambda>k. slot ?s buf2 ((?h + k) mod ?c)) [0..<unat w]"
    using map_upt_offset [of "\<lambda>i. slot ?s buf2 ((unat (q_tail q) + i) mod ?c)" "used q" "unat w"]
      upt_add_eq_append [of 0 "used q" "unat w"] by (simp only: map_append le0 add.assoc)
  also have "\<dots> = q_items q @ chunks ?s (unat w) src"
    using old r(6) by (auto simp: q_items_def chunks_def)
  finally show ?thesis using put r(5) uw by blast
qed


lemma q_items_take: "k \<le> used q \<Longrightarrow> take k (q_items q) =
    map (\<lambda>i. slot (sz q) (q_ptr q) ((unat (q_tail q) + i) mod cap q)) [0..<k]"
  by (simp add: q_items_def take_map)

lemma Queue_Peek_spec:
  fixes n :: u32
  assumes wf: "q_wf q"
  defines "r \<equiv> c_min n (Queue_GetUsed q)"
  shows "Queue_Peek q n = Inr (r, concat (take (unat r) (q_items q)))" and "unat r = min (unat n) (used q)"
proof -
  let ?c = "cap q" and ?s = "sz q" and ?t = "unat (q_tail q)"
  have c: "0 < ?c" "?c * ?s \<le> length (q_ptr q)" and uc: "used q \<le> ?c"
    using wf by (simp_all add: q_wf_def mult.commute)
  show ur: "unat r = min (unat n) (used q)" by (simp add: r_def unat_c_min)
  then have rc: "unat r \<le> ?c" using uc by simp
  define ti where "ti = q_tail q mod q_count q"
  define tw where "tw = c_min (q_count q - ti) r"
  have uti: "unat ti = ?t mod ?c" by (simp add: ti_def unat_mod)
  have "ti \<le> q_count q" using uti c(1) by (simp add: word_le_nat_alt)
  then have utw: "unat tw = min (?c - ?t mod ?c) (unat r)"
    by (simp add: tw_def unat_c_min unat_u32_sub uti)
  obtain a b where ab: "mem_read (q_ptr q) (?t mod ?c * ?s) (unat tw * ?s) = Inr a"
    "mem_read (q_ptr q) 0 ((unat r - unat tw) * ?s) = Inr b"
    "a @ b = concat (map (\<lambda>i. slot ?s (q_ptr q) ((?t + i) mod ?c)) [0..<unat r])"
    using ring_read [OF c rc utw] by blast
  have "tw \<le> r" using utw by (simp add: word_le_nat_alt)
  then have m: "unat (tw * q_size q) = unat tw * ?s" "unat (ti * q_size q) = ?t mod ?c * ?s"
    "unat ((r - tw) * q_size q) = (unat r - unat tw) * ?s"
    using elem_bytes [OF wf, of tw] elem_bytes [OF wf, of ti] elem_bytes [OF wf, of "r - tw"]
      utw rc uti c(1) by (simp_all add: unat_u32_sub)
  have "q_count q \<noteq> 0" using c(1) by auto
  then show "Queue_Peek q n = Inr (r, concat (take (unat r) (q_items q)))"
    using ab m ur by (simp add: Queue_Peek_def Let_def r_def [symmetric] ti_def [symmetric]
        tw_def [symmetric] q_items_take)
qed

lemma Queue_Drop_spec:
  fixes n :: u32
  assumes wf: "q_wf q"
  defines "r \<equiv> c_min n (Queue_GetUsed q)"
  assumes k: "keeps_pos q (q_tail q) r"
  shows "Queue_Drop q n = (r, q\<lparr>q_tail := q_tail q + r\<rparr>)"
    and "q_wf (q\<lparr>q_tail := q_tail q + r\<rparr>)"
    and "q_items (q\<lparr>q_tail := q_tail q + r\<rparr>) = drop (unat r) (q_items q)"
    and "used (q\<lparr>q_tail := q_tail q + r\<rparr>) = used q - unat r"
proof -
  let ?q = "q\<lparr>q_tail := q_tail q + r\<rparr>" and ?c = "cap q" and ?t = "unat (q_tail q)"
  show "Queue_Drop q n = (r, ?q)" by (simp add: Queue_Drop_def r_def Let_def)
  have ur: "unat r = min (unat n) (used q)" by (simp add: r_def unat_c_min)
  then have le: "r \<le> Queue_GetUsed q" by (simp add: word_le_nat_alt)
  have "Queue_GetUsed ?q = Queue_GetUsed q - r" by (simp add: Queue_GetUsed_def)
  then show u: "used ?q = used q - unat r" using le by (simp add: unat_u32_sub)
  have pos: "unat (q_tail q + r) mod ?c = (?t + unat r) mod ?c"
    using k by (intro advance_mod) (simp add: keeps_pos_def)
  have pos_i: "(unat (q_tail q + r) + i) mod ?c = (?t + (unat r + i)) mod ?c" for i
  proof -
    have "(unat (q_tail q + r) + i) mod ?c = (unat (q_tail q + r) mod ?c + i) mod ?c"
      by (simp add: mod_add_left_eq)
    also have "\<dots> = (?t + unat r + i) mod ?c" unfolding pos by (simp add: mod_add_left_eq)
    finally show ?thesis by (simp add: add.assoc)
  qed
  have "unat r \<le> used q" using ur by simp
  then show "q_wf ?q" using wf u pos_i [of "used q - unat r"] by (auto simp: q_wf_def)
  have "q_items ?q = map (\<lambda>i. slot (sz q) (q_ptr q) ((?t + (unat r + i)) mod ?c)) [0..<used q - unat r]"
    using u by (simp add: q_items_def pos_i)
  also have "\<dots> = map (\<lambda>i. slot (sz q) (q_ptr q) ((?t + i) mod ?c)) [unat r..<used q]"
    using map_upt_offset [of "\<lambda>i. slot (sz q) (q_ptr q) ((?t + i) mod ?c)" "unat r" "used q - unat r"]
      \<open>unat r \<le> used q\<close> by simp
  finally show "q_items ?q = drop (unat r) (q_items q)" by (simp add: q_items_def drop_map drop_upt)
qed



section \<open>The operations on the abstract queue\<close>

lemma q_items_length [simp]: "length (q_items q) = used q"
  by (simp add: q_items_def)

lemma q_items_slots:
  assumes "q_wf q" "x \<in> set (q_items q)" shows "length x = sz q"
proof -
  obtain i where i: "i < used q" "x = slot (sz q) (q_ptr q) ((unat (q_tail q) + i) mod cap q)"
    using assms(2) by (auto simp: q_items_def)
  have "Suc ((unat (q_tail q) + i) mod cap q) * sz q \<le> cap q * sz q"
    by (intro mult_le_mono1) (use assms(1) in \<open>simp add: q_wf_def Suc_le_eq\<close>)
  also have "cap q * sz q \<le> length (q_ptr q)" using assms(1) by (simp add: q_wf_def mult.commute)
  finally show ?thesis using i(2) by (simp only: slot_length)
qed

lemma concat_length_const: "(\<And>x. x \<in> set xs \<Longrightarrow> length x = s) \<Longrightarrow> length (concat xs) = length xs * s"
  by (induction xs) auto

lemma q_bytes_length: "q_wf q \<Longrightarrow> length (q_bytes q) = used q * sz q"
  unfolding q_bytes_def using concat_length_const [of "q_items q" "sz q"] q_items_slots by auto

lemma q_ok_keeps: "q_ok q \<Longrightarrow> keeps_pos q c n"
  by (simp add: q_ok_def keeps_pos_def)

lemma Queue_Put_items:
  assumes "q_wf q" "unat n * sz q \<le> length src" "keeps_pos q (q_head q) (c_min n (Queue_GetFree q))"
  shows "\<exists>w q'. Queue_Put q src n = Inr (w, q') \<and> unat w = min (unat n) (cap q - used q) \<and>
     q_wf q' \<and> q_items q' = q_items q @ chunks (sz q) (unat w) src \<and>
     q_size q' = q_size q \<and> q_count q' = q_count q"
proof -
  obtain buf where b: "Queue_Put q src n = Inr (c_min n (Queue_GetFree q),
      q\<lparr>q_ptr := buf, q_head := q_head q + c_min n (Queue_GetFree q)\<rparr>)"
    "length buf = length (q_ptr q)" "unat (c_min n (Queue_GetFree q)) = min (unat n) (cap q - used q)"
    "q_items (q\<lparr>q_ptr := buf, q_head := q_head q + c_min n (Queue_GetFree q)\<rparr>) =
       q_items q @ chunks (sz q) (unat (c_min n (Queue_GetFree q))) src"
    using Queue_Put_spec [OF assms(1,2)] by blast
  have "used q \<le> cap q" using assms(1) by (simp add: q_wf_def)
  then have "q_wf (q\<lparr>q_ptr := buf, q_head := q_head q + c_min n (Queue_GetFree q)\<rparr>)"
    by (intro advance_head_wf assms b) (simp add: b(3))
  then show ?thesis using b by auto
qed

lemma Queue_Get_items:
  assumes "q_wf q" "keeps_pos q (q_tail q) (c_min n (Queue_GetUsed q))"
  shows "\<exists>r q'. Queue_Get q n = Inr (r, concat (take (unat r) (q_items q)), q') \<and>
     unat r = min (unat n) (used q) \<and>
     q_wf q' \<and> q_items q' = drop (unat r) (q_items q) \<and>
     q_size q' = q_size q \<and> q_count q' = q_count q"
proof -
  let ?r = "c_min n (Queue_GetUsed q)"
  have rr: "c_min ?r (Queue_GetUsed q) = ?r" by (auto simp: c_min_def)
  have k: "keeps_pos q (q_tail q) (c_min ?r (Queue_GetUsed q))" using assms(2) rr by simp
  note d = Queue_Drop_spec [OF assms(1) k, unfolded rr]
  show ?thesis
    using Queue_Peek_spec [OF assms(1), of n] d by (auto simp: Queue_Get_def)
qed

lemma Queue_Put_bytes:
  assumes "q_ok q \<and> sz q = u" "unat n * u \<le> length src"
  shows "\<exists>w q'. Queue_Put q src n = Inr (w, q') \<and> (q_ok q' \<and> sz q' = u) \<and>
     unat w = min (unat n) (unat (Queue_GetFree q)) \<and> q_bytes q' = q_bytes q @ take (unat w * u) src"
proof -
  have wf: "q_wf q" and u: "sz q = u" using assms(1) by (simp_all add: q_ok_def)
  obtain w q' where b: "Queue_Put q src n = Inr (w, q')" "unat w = min (unat n) (cap q - used q)"
     "q_wf q'" "q_items q' = q_items q @ chunks u (unat w) src"
     "q_size q' = q_size q" "q_count q' = q_count q"
    using Queue_Put_items [OF wf, of n src] assms q_ok_keeps u by auto
  have "unat w * u \<le> unat n * u" using b(2) by (intro mult_le_mono1) simp
  then have "concat (chunks u (unat w) src) = take (unat w * u) src"
    using assms(2) by (intro concat_chunks) linarith
  then have "q_bytes q' = q_bytes q @ take (unat w * u) src" by (simp add: q_bytes_def b(4))
  then show ?thesis using b(1-3,5,6) assms(1) unat_GetFree [OF wf] by (auto simp: q_ok_def)
qed

lemma Queue_Get_bytes:
  assumes "q_ok q \<and> sz q = u"
  shows "\<exists>r d q'. Queue_Get q n = Inr (r, d, q') \<and> (q_ok q' \<and> sz q' = u) \<and>
     unat r = min (unat n) (used q) \<and> length d = unat r * u \<and> q_bytes q = d @ q_bytes q'"
proof -
  have wf: "q_wf q" using assms by (simp add: q_ok_def)
  obtain r q' where b: "Queue_Get q n = Inr (r, concat (take (unat r) (q_items q)), q')"
     "unat r = min (unat n) (used q)" "q_wf q'" "q_items q' = drop (unat r) (q_items q)"
     "q_size q' = q_size q" "q_count q' = q_count q"
    using Queue_Get_items [OF wf] assms q_ok_keeps by blast
  have "length (concat (take (unat r) (q_items q))) = unat r * u"
    using concat_length_const [OF q_items_slots [OF wf], of "take (unat r) (q_items q)"] b(2) assms
    by (auto dest: in_set_takeD)
  moreover have "q_bytes q = concat (take (unat r) (q_items q)) @ q_bytes q'"
    unfolding q_bytes_def b(4) by (simp flip: concat_append)
  ultimately show ?thesis using b assms by (auto simp: q_ok_def)
qed

section \<open>The contract of a byte queue\<close>

text \<open>
  What the sockets and the virtual serial port rely on: a queue moves elements of \<open>u\<close> bytes; a put
  accepts as many elements as there is room for, a get delivers as many as there are, in order.
\<close>

fun put_ok :: "nat \<Rightarrow> fifo_op \<Rightarrow> bool" where
  "put_ok u (Put d n) = (unat n * u \<le> length d)"
| "put_ok u (Get n) = True"

locale byte_fifo =
  fixes put :: "'q \<Rightarrow> bytes \<Rightarrow> u32 \<Rightarrow> fault + u32 \<times> 'q"
    and get :: "'q \<Rightarrow> u32 \<Rightarrow> fault + u32 \<times> bytes \<times> 'q"
    and contents :: "'q \<Rightarrow> bytes"
    and room :: "'q \<Rightarrow> u32"
    and held :: "'q \<Rightarrow> u32"
    and inv :: "nat \<Rightarrow> 'q \<Rightarrow> bool"
  assumes put_law: "inv u q \<Longrightarrow> unat n * u \<le> length src \<Longrightarrow>
      \<exists>w q'. put q src n = Inr (w, q') \<and> inv u q' \<and> unat w = min (unat n) (unat (room q)) \<and>
        contents q' = contents q @ take (unat w * u) src"
    and get_law: "inv u q \<Longrightarrow>
      \<exists>r d q'. get q n = Inr (r, d, q') \<and> inv u q' \<and> unat r = min (unat n) (unat (held q)) \<and>
        length d = unat r * u \<and> contents q = d @ contents q'"
begin

text \<open>Whatever the tasks do, the bytes come out in the order in which they were accepted.\<close>

lemma run_order:
  "inv u q \<Longrightarrow> list_all (put_ok u) ops \<Longrightarrow>
   \<exists>ins outs q'. fifo_run put get u q ops = Inr (ins, outs, q') \<and> inv u q' \<and>
     contents q @ ins = outs @ contents q'"
proof (induction ops arbitrary: q)
  case Nil
  then show ?case by simp
next
  case (Cons a ops)
  show ?case
  proof (cases a)
    case (Put d n)
    then obtain w q' where p: "put q d n = Inr (w, q')" "inv u q'"
        "contents q' = contents q @ take (unat w * u) d"
      using put_law [of u q n d] Cons.prems by auto
    obtain ins outs q'' where "fifo_run put get u q' ops = Inr (ins, outs, q'')" "inv u q''"
        "contents q' @ ins = outs @ contents q''"
      using Cons.IH [OF p(2)] Cons.prems by auto
    then show ?thesis using p Put by simp
  next
    case (Get n)
    then obtain r d q' where p: "get q n = Inr (r, d, q')" "inv u q'" "contents q = d @ contents q'"
      using get_law [of u q n] Cons.prems by auto
    obtain ins outs q'' where "fifo_run put get u q' ops = Inr (ins, outs, q'')" "inv u q''"
        "contents q' @ ins = outs @ contents q''"
      using Cons.IH [OF p(2)] Cons.prems by auto
    then show ?thesis using p Get by simp
  qed
qed

end

interpretation queue: byte_fifo Queue_Put Queue_Get q_bytes Queue_GetFree Queue_GetUsed
  "\<lambda>u q. q_ok q \<and> sz q = u"
  by unfold_locales (rule Queue_Put_bytes Queue_Get_bytes; assumption)+

text \<open>
  C5: FIFO order. For a queue whose capacity divides \<open>2 ^ 32\<close>, any sequence of \<open>Queue_Put\<close> and
  \<open>Queue_Get\<close> whose puts have the data they announce runs without a fault, and the bytes held at
  the start followed by the bytes accepted are the bytes delivered followed by those still held,
  also across any number of wrap-arounds of the 32 bit counters.
\<close>

theorem Queue_fifo_order:
  assumes "q_ok q" and "list_all (put_ok (sz q)) ops"
  shows "\<exists>ins outs q'. fifo_run Queue_Put Queue_Get (sz q) q ops = Inr (ins, outs, q') \<and> q_ok q' \<and>
     q_bytes q @ ins = outs @ q_bytes q'"
  using queue.run_order [of q "sz q" ops] assms by auto

theorem Queue_fifo_order_witness:
  "\<exists>ins outs q'. fifo_run Queue_Put Queue_Get 1
      \<lparr>q_size = 1, q_count = 2, q_ptr = [0, 0], q_head = -1, q_tail = -1\<rparr>
      [Put [7, 8, 9] 3, Get 1, Put [5] 1, Get 4] = Inr (ins, outs, q') \<and> q_ok q' \<and>
     [] @ ins = outs @ q_bytes q'"
  using Queue_fifo_order [of "\<lparr>q_size = 1, q_count = 2, q_ptr = [0, 0], q_head = -1, q_tail = -1\<rparr>"
      "[Put [7, 8, 9] 3, Get 1, Put [5] 1, Get 4]"]
  by (simp add: q_ok_def q_wf_def Queue_GetUsed_def q_bytes_def q_items_def)

text \<open>
  Refinement to a list of elements, for any capacity. As long as the counter that an operation
  advances does not wrap (or the capacity divides \<open>2 ^ 32\<close>), \<open>Queue_Put\<close> appends the first
  \<open>min n free\<close> elements of the source to the list and \<open>Queue_Get\<close> returns and removes the first
  \<open>min n used\<close> elements of it, neither of them faults, and both keep the queue well formed.
\<close>

theorem Queue_refines_list:
  assumes "q_wf q"
  shows "(unat n * sz q \<le> length src \<and> keeps_pos q (q_head q) (c_min n (Queue_GetFree q)) \<longrightarrow>
      (\<exists>w q'. Queue_Put q src n = Inr (w, q') \<and> unat w = min (unat n) (cap q - used q) \<and>
        q_wf q' \<and> q_items q' = q_items q @ chunks (sz q) (unat w) src)) \<and>
    (keeps_pos q (q_tail q) (c_min n (Queue_GetUsed q)) \<longrightarrow>
      (\<exists>r q'. Queue_Get q n = Inr (r, concat (take (unat r) (q_items q)), q') \<and>
        unat r = min (unat n) (used q) \<and> q_wf q' \<and> q_items q' = drop (unat r) (q_items q)))"
  using Queue_Put_items [OF assms] Queue_Get_items [OF assms] by blast

theorem Queue_refines_list_witness:
  "\<exists>w q'. Queue_Put \<lparr>q_size = 2, q_count = 3, q_ptr = [1,2,3,4,5,6], q_head = 4, q_tail = 2\<rparr>
       [7, 8, 9, 10] 2 = Inr (w, q') \<and> unat w = 1 \<and> q_wf q' \<and> q_items q' = [[5, 6], [1, 2], [7, 8]]"
proof -
  let ?q = "\<lparr>q_size = 2, q_count = 3, q_ptr = [1,2,3,4,5,6], q_head = 4, q_tail = 2\<rparr>"
  have 1: "q_wf ?q" "used ?q = 2" "keeps_pos ?q (q_head ?q) (c_min 2 (Queue_GetFree ?q))"
    by (simp_all add: q_wf_def Queue_GetUsed_def keeps_pos_def Queue_GetFree_def c_min_def)
  have 2: "q_items ?q = [[5, 6], [1, 2]]" "chunks 2 1 [7, 8, 9, 10 :: u8] = [[7, 8]]"
    by (simp_all add: q_items_def Queue_GetUsed_def chunks_def slot_def upt_rec)
  show ?thesis
    using Queue_refines_list [OF 1(1), of 2 "[7, 8, 9, 10]"] 1(2,3) 2 by auto
qed

text \<open>
  The counters index the ring by \<open>head % count\<close> and wrap at \<open>2 ^ 32\<close>, so a capacity that does not
  divide \<open>2 ^ 32\<close> loses the order of the elements once, when the counters wrap: of the bytes 1 and 2
  put into a queue of three bytes, the second is delivered as 1.
\<close>

theorem Queue_wrap_corrupts:
  "fifo_run Queue_Put Queue_Get 1
     \<lparr>q_size = 1, q_count = 3, q_ptr = [0, 0, 0], q_head = -1, q_tail = -1\<rparr>
     [Put [1, 2] 2, Get 1, Get 1] =
   Inr ([1, 2], [1, 1], \<lparr>q_size = 1, q_count = 3, q_ptr = [1, 2, 0], q_head = 1, q_tail = 1\<rparr>)"
  by (simp add: Queue_Put_def Queue_Get_def Queue_Peek_def Queue_Drop_def Queue_GetUsed_def
      Queue_GetFree_def c_min_def mem_read_def mem_write_def Let_def)

section \<open>Waiting operations\<close>

lemma Queue_PutWait_body_expires:
  "0 < (case p of (_, _, t, _) \<Rightarrow> t) \<Longrightarrow>
   (case p of (_, _, t, _) \<Rightarrow> t) < dtime (qw_now w) (case p of (_, _, _, ts) \<Rightarrow> ts) \<Longrightarrow>
   Queue_PutWait_body p l w \<noteq> Inr (l', w')"
  by (auto simp: Queue_PutWait_body_def Let_def split: sum.splits if_splits prod.splits)

lemma Queue_GetWait_body_expires:
  "0 < (case p of (_, t, _) \<Rightarrow> t) \<Longrightarrow>
   (case p of (_, t, _) \<Rightarrow> t) < dtime (qw_now w) (case p of (_, _, ts) \<Rightarrow> ts) \<Longrightarrow>
   Queue_GetWait_body p l w \<noteq> Inr (l', w')"
  by (auto simp: Queue_GetWait_body_def Let_def split: sum.splits if_splits prod.splits)

lemma Queue_PutWait_body_clk: "Queue_PutWait_body p l w = Inr (l', w') \<Longrightarrow> qw_now w' = qw_now w"
  by (auto simp: Queue_PutWait_body_def Let_def split: sum.splits if_splits prod.splits)

lemma Queue_GetWait_body_clk: "Queue_GetWait_body p l w = Inr (l', w') \<Longrightarrow> qw_now w' = qw_now w"
  by (auto simp: Queue_GetWait_body_def Let_def split: sum.splits if_splits prod.splits)

interpretation put_wait: timed_wait qw_now Queue_PutWait_body "\<lambda>(_, _, _, ts). ts" "\<lambda>(_, _, t, _). t"
  by (unfold_locales; rule Queue_PutWait_body_clk Queue_PutWait_body_expires; assumption)

interpretation get_wait: timed_wait qw_now Queue_GetWait_body "\<lambda>(_, _, ts). ts" "\<lambda>(_, t, _). t"
  by (unfold_locales; rule Queue_GetWait_body_clk Queue_GetWait_body_expires; assumption)

text \<open>The other side of a queue while a task waits: it only appends, or it only removes.\<close>

definition producing :: "(nat \<Rightarrow> qworld \<Rightarrow> qworld) \<Rightarrow> bool" where
  "producing env \<longleftrightarrow> (\<forall>k w. q_ok (qw_queue w) \<longrightarrow> q_ok (qw_queue (env k w)) \<and>
     sz (qw_queue (env k w)) = sz (qw_queue w) \<and>
     (\<exists>d. q_bytes (qw_queue (env k w)) = q_bytes (qw_queue w) @ d))"

definition consuming :: "(nat \<Rightarrow> qworld \<Rightarrow> qworld) \<Rightarrow> bool" where
  "consuming env \<longleftrightarrow> (\<forall>k w. q_ok (qw_queue w) \<longrightarrow> q_ok (qw_queue (env k w)) \<and>
     sz (qw_queue (env k w)) = sz (qw_queue w) \<and>
     (\<exists>d. q_bytes (qw_queue w) = d @ q_bytes (qw_queue (env k w))))"

lemma Queue_GetWait_body_cases:
  assumes "q_ok (qw_queue w) \<and> sz (qw_queue w) = u" and "unat rd \<le> unat count"
  obtains r d q' where "q_ok q' \<and> sz q' = u" "length d = unat r * u"
    "q_bytes (qw_queue w) = d @ q_bytes q'" "unat (rd + r) = unat rd + unat r" "unat (rd + r) \<le> unat count"
    "Queue_GetWait_body (count, timeout, ts) (rd, out) w =
       (if rd + r = count \<or> timeout \<noteq> 0 \<and> dtime (qw_now w) ts > timeout \<or> qw_cancelled w
        then Inl (Inr (rd + r, out @ d), w\<lparr>qw_queue := q'\<rparr>)
        else Inr ((rd + r, out @ d), w\<lparr>qw_queue := q'\<rparr>))"
proof -
  obtain r d q' where g: "Queue_Get (qw_queue w) (count - rd) = Inr (r, d, q')" "q_ok q' \<and> sz q' = u"
      "unat r = min (unat (count - rd)) (used (qw_queue w))" "length d = unat r * u"
      "q_bytes (qw_queue w) = d @ q_bytes q'"
    using queue.get_law [OF assms(1), of "count - rd"] by blast
  have "unat (count - rd) = unat count - unat rd"
    using assms(2) by (intro unat_u32_sub) (simp add: word_le_nat_alt)
  then have le: "unat rd + unat r \<le> unat count" using g(3) assms(2) by simp
  then have "unat (rd + r) = unat rd + unat r"
    using unat_u32_less [of count] by (intro unat_u32_add) simp
  then show thesis
    using g le by (intro that [of q' d r]) (auto simp: Queue_GetWait_body_def Let_def)
qed

definition got :: "bytes \<Rightarrow> nat \<Rightarrow> u32 \<Rightarrow> u32 \<times> bytes \<Rightarrow> qworld \<Rightarrow> bool" where
  "got b0 u count l w \<longleftrightarrow> (q_ok (qw_queue w) \<and> sz (qw_queue w) = u) \<and> unat (fst l) \<le> unat count \<and>
     length (snd l) = unat (fst l) * u \<and> (\<exists>ds. b0 @ ds = snd l @ q_bytes (qw_queue w))"

lemma got_step:
  assumes "got b0 u count l w"
  obtains l' q' where "got b0 u count l' (w\<lparr>qw_queue := q'\<rparr>)"
    "Queue_GetWait_body (count, timeout, ts) l w =
       (if fst l' = count \<or> timeout \<noteq> 0 \<and> dtime (qw_now w) ts > timeout \<or> qw_cancelled w
        then Inl (Inr l', w\<lparr>qw_queue := q'\<rparr>) else Inr (l', w\<lparr>qw_queue := q'\<rparr>))"
proof -
  obtain rd out where l: "l = (rd, out)" by (cases l)
  have h: "q_ok (qw_queue w) \<and> sz (qw_queue w) = u" "unat rd \<le> unat count" "length out = unat rd * u"
    "\<exists>ds. b0 @ ds = out @ q_bytes (qw_queue w)"
    using assms l by (auto simp: got_def)
  obtain r d q' where s: "q_ok q' \<and> sz q' = u" "length d = unat r * u"
    "q_bytes (qw_queue w) = d @ q_bytes q'" "unat (rd + r) = unat rd + unat r" "unat (rd + r) \<le> unat count"
    "Queue_GetWait_body (count, timeout, ts) (rd, out) w =
       (if rd + r = count \<or> timeout \<noteq> 0 \<and> dtime (qw_now w) ts > timeout \<or> qw_cancelled w
        then Inl (Inr (rd + r, out @ d), w\<lparr>qw_queue := q'\<rparr>)
        else Inr ((rd + r, out @ d), w\<lparr>qw_queue := q'\<rparr>))"
    using Queue_GetWait_body_cases [OF h(1,2), of timeout ts out] by blast
  show thesis
    using s h(3,4) l by (intro that [of "(rd + r, out @ d)" q']) (auto simp: got_def add_mult_distrib)
qed

lemma got_produce: "got b0 u count l w \<Longrightarrow> producing env \<Longrightarrow> got b0 u count l (env k w)"
proof -
  assume h: "got b0 u count l w" "producing env"
  obtain ds d where d: "b0 @ ds = snd l @ q_bytes (qw_queue w)"
    "q_bytes (qw_queue (env k w)) = q_bytes (qw_queue w) @ d"
    using h unfolding got_def producing_def by blast
  then have "b0 @ (ds @ d) = snd l @ q_bytes (qw_queue (env k w))" by (metis append.assoc)
  then show ?thesis using h unfolding got_def producing_def by blast
qed

text \<open>
  A task that waits in \<open>Queue_GetWait\<close> for \<open>count\<close> elements, while the others only add to the
  queue, returns after at most \<open>timeout + 1\<close> calls of \<open>Yield\<close> (each takes at least a tick). It
  returns all elements asked for, unless the timeout has expired or the task was cancelled, and
  in every case what it returns is exactly the head of the stream of bytes, none lost or repeated.
\<close>

theorem Queue_GetWait_delivers:
  assumes "q_ok (qw_queue w)" and "producing env" and "ticking qw_now d env"
    and "0 < timeout" and "nat timeout + d < 2 ^ 31"
  shows "\<exists>rd out w' ds. Queue_GetWait (Suc (nat timeout)) env count timeout w = Some (Inr (rd, out), w') \<and>
     q_ok (qw_queue w') \<and> q_bytes (qw_queue w) @ ds = out @ q_bytes (qw_queue w') \<and>
     length out = unat rd * sz (qw_queue w) \<and> unat rd \<le> unat count \<and>
     (rd = count \<or> timeout < dtime (qw_now w') (qw_now w) \<or> qw_cancelled w')"
proof -
  obtain r wf where y: "Queue_GetWait (Suc (nat timeout)) env count timeout w = Some (r, wf)"
    using get_wait.returns_in_time [OF assms(3), of "(count, timeout, qw_now w)" w 0 "(0, [])"] assms(4,5)
    by (auto simp: Queue_GetWait_def simp del: yield_loop.simps)
  let ?I = "got (q_bytes (qw_queue w)) (sz (qw_queue w)) count"
  have init: "?I (0, []) w" using assms(1) by (simp add: got_def)
  have step: "?I l' (env j w')"
    if I: "?I l v" and b: "Queue_GetWait_body (count, timeout, qw_now w) l v = Inr (l', w')" for l v l' w' j
  proof (rule got_step [OF I, of timeout "qw_now w"])
    fix m q' assume "?I m (v\<lparr>qw_queue := q'\<rparr>)" "Queue_GetWait_body (count, timeout, qw_now w) l v =
       (if fst m = count \<or> timeout \<noteq> 0 \<and> dtime (qw_now v) (qw_now w) > timeout \<or> qw_cancelled v
        then Inl (Inr m, v\<lparr>qw_queue := q'\<rparr>) else Inr (m, v\<lparr>qw_queue := q'\<rparr>))"
    then show ?thesis using b got_produce [OF _ assms(2)] by (simp split: if_splits)
  qed
  have final: "\<exists>l. r = Inr l \<and> ?I l w' \<and>
      (fst l = count \<or> timeout < dtime (qw_now w') (qw_now w) \<or> qw_cancelled w')"
    if I: "?I l v" and b: "Queue_GetWait_body (count, timeout, qw_now w) l v = Inl (r, w')" for l v r w'
  proof (rule got_step [OF I, of timeout "qw_now w"])
    fix m q' assume "?I m (v\<lparr>qw_queue := q'\<rparr>)" "Queue_GetWait_body (count, timeout, qw_now w) l v =
       (if fst m = count \<or> timeout \<noteq> 0 \<and> dtime (qw_now v) (qw_now w) > timeout \<or> qw_cancelled v
        then Inl (Inr m, v\<lparr>qw_queue := q'\<rparr>) else Inr (m, v\<lparr>qw_queue := q'\<rparr>))"
    then show ?thesis using b by (intro exI [of _ m]) (auto split: if_splits)
  qed
  have "\<exists>l. r = Inr l \<and> ?I l wf \<and>
      (fst l = count \<or> timeout < dtime (qw_now wf) (qw_now w) \<or> qw_cancelled wf)"
    by (rule yield_loop_invariant [where I = ?I, OF y [unfolded Queue_GetWait_def]])
      (use init step final in blast)+
  then show ?thesis using y by (auto simp: got_def)
qed

theorem Queue_GetWait_delivers_witness:
  "\<exists>rd out w' ds. Queue_GetWait (Suc (nat 5)) (\<lambda>k v. v\<lparr>qw_now := qw_now v + 1\<rparr>) 2 5
      \<lparr>qw_now = -2, qw_cancelled = False,
       qw_queue = \<lparr>q_size = 1, q_count = 2, q_ptr = [3, 4], q_head = 1, q_tail = 0\<rparr>\<rparr> = Some (Inr (rd, out), w') \<and>
     q_ok (qw_queue w') \<and> [3] @ ds = out @ q_bytes (qw_queue w') \<and>
     length out = unat rd * 1 \<and> unat rd \<le> 2 \<and>
     (rd = 2 \<or> 5 < dtime (qw_now w') (-2) \<or> qw_cancelled w')"
proof -
  have "ticking qw_now 1 (\<lambda>k v. v\<lparr>qw_now := qw_now v + 1\<rparr>)"
    unfolding ticking_def by (intro allI exI [of _ 1]) simp
  moreover have "producing (\<lambda>k v. v\<lparr>qw_now := qw_now v + 1\<rparr>)" by (simp add: producing_def)
  ultimately show ?thesis
    using Queue_GetWait_delivers [of "\<lparr>qw_now = -2, qw_cancelled = False,
       qw_queue = \<lparr>q_size = 1, q_count = 2, q_ptr = [3, 4], q_head = 1, q_tail = 0\<rparr>\<rparr>"
       "\<lambda>k v. v\<lparr>qw_now := qw_now v + 1\<rparr>" 1 5 2]
    by (simp add: q_ok_def q_wf_def Queue_GetUsed_def q_bytes_def q_items_def slot_def)
qed

definition putted :: "bytes \<Rightarrow> nat \<Rightarrow> bytes \<Rightarrow> u32 \<Rightarrow> u32 \<Rightarrow> qworld \<Rightarrow> bool" where
  "putted b0 u ptr count l w \<longleftrightarrow> (q_ok (qw_queue w) \<and> sz (qw_queue w) = u) \<and> unat l \<le> unat count \<and>
     (\<exists>outs. b0 @ take (unat l * u) ptr = outs @ q_bytes (qw_queue w))"

lemma putted_step:
  assumes "putted b0 u ptr count l w" and "unat count * u \<le> length ptr" "unat count * u < 2 ^ 32"
  obtains l' q' where "putted b0 u ptr count l' (w\<lparr>qw_queue := q'\<rparr>)"
    "Queue_PutWait_body (ptr, count, timeout, ts) l w =
       (if l' = count \<or> timeout \<noteq> 0 \<and> dtime (qw_now w) ts > timeout \<or> qw_cancelled w
        then Inl (Inr l', w\<lparr>qw_queue := q'\<rparr>) else Inr (l', w\<lparr>qw_queue := q'\<rparr>))"
proof -
  have h: "q_ok (qw_queue w) \<and> sz (qw_queue w) = u" "unat l \<le> unat count"
    and outs: "\<exists>outs. b0 @ take (unat l * u) ptr = outs @ q_bytes (qw_queue w)"
    using assms(1) by (auto simp: putted_def)
  have "unat l * u \<le> unat count * u" using h(2) by (intro mult_le_mono1)
  then have "unat l * u < 2 ^ 32" using assms(3) by linarith
  then have off: "unat (l * q_size (qw_queue w)) = unat l * u"
    using h(1) unat_u32_mult [of l "q_size (qw_queue w)"] by simp
  have sub: "unat (count - l) = unat count - unat l"
    using h(2) by (intro unat_u32_sub) (simp add: word_le_nat_alt)
  have "unat (count - l) * u \<le> length (drop (unat l * u) ptr)"
    using assms(2) sub by (simp add: diff_mult_distrib)
  then obtain n q' where g: "Queue_Put (qw_queue w) (drop (unat l * u) ptr) (count - l) = Inr (n, q')"
      "q_ok q' \<and> sz q' = u" "unat n = min (unat (count - l)) (unat (Queue_GetFree (qw_queue w)))"
      "q_bytes q' = q_bytes (qw_queue w) @ take (unat n * u) (drop (unat l * u) ptr)"
    using queue.put_law [OF h(1)] by blast
  have le: "unat l + unat n \<le> unat count" using g(3) sub h(2) by simp
  then have ln: "unat (l + n) = unat l + unat n"
    using unat_u32_less [of count] by (intro unat_u32_add) simp
  have "\<exists>outs. b0 @ take (unat (l + n) * u) ptr = outs @ q_bytes q'"
    using outs g(4) unfolding ln add_mult_distrib take_add by (metis append.assoc)
  then show thesis
    using g le ln off
    by (intro that [of "l + n" q']) (auto simp: putted_def Queue_PutWait_body_def Let_def)
qed

lemma putted_consume:
  assumes "putted b0 u ptr count l w" "consuming env" shows "putted b0 u ptr count l (env k w)"
proof -
  obtain outs d where "b0 @ take (unat l * u) ptr = outs @ q_bytes (qw_queue w)"
    "q_bytes (qw_queue w) = d @ q_bytes (qw_queue (env k w))"
    using assms unfolding putted_def consuming_def by blast
  then have "b0 @ take (unat l * u) ptr = (outs @ d) @ q_bytes (qw_queue (env k w))" by simp
  then show ?thesis using assms unfolding putted_def consuming_def by blast
qed

text \<open>
  A task that writes \<open>count\<close> elements with \<open>Queue_PutWait\<close>, while the others only take from the
  queue, returns after at most \<open>timeout + 1\<close> calls of \<open>Yield\<close>. All elements were written unless
  the timeout has expired or the task was cancelled; the count returned is exactly the number of elements
  that entered the queue, in order.
\<close>

theorem Queue_PutWait_accepts:
  assumes "q_ok (qw_queue w)" and "unat count * sz (qw_queue w) \<le> length ptr"
    and "unat count * sz (qw_queue w) < 2 ^ 32"
    and "consuming env" and "ticking qw_now d env" and "0 < timeout" and "nat timeout + d < 2 ^ 31"
  shows "\<exists>n w' outs. Queue_PutWait (Suc (nat timeout)) env ptr count timeout w = Some (Inr n, w') \<and>
     q_ok (qw_queue w') \<and> unat n \<le> unat count \<and>
     q_bytes (qw_queue w) @ take (unat n * sz (qw_queue w)) ptr = outs @ q_bytes (qw_queue w') \<and>
     (n = count \<or> timeout < dtime (qw_now w') (qw_now w) \<or> qw_cancelled w')"
proof -
  obtain r wf where y: "Queue_PutWait (Suc (nat timeout)) env ptr count timeout w = Some (r, wf)"
    using put_wait.returns_in_time [OF assms(5), of "(ptr, count, timeout, qw_now w)" w 0 0] assms(6,7)
    by (auto simp: Queue_PutWait_def simp del: yield_loop.simps)
  let ?I = "putted (q_bytes (qw_queue w)) (sz (qw_queue w)) ptr count"
  have init: "?I 0 w" using assms(1) by (simp add: putted_def)
  have step: "?I l' (env j w')"
    if I: "?I l v" and b: "Queue_PutWait_body (ptr, count, timeout, qw_now w) l v = Inr (l', w')" for l v l' w' j
  proof (rule putted_step [OF I assms(2,3), of timeout "qw_now w"])
    fix m q' assume "?I m (v\<lparr>qw_queue := q'\<rparr>)" "Queue_PutWait_body (ptr, count, timeout, qw_now w) l v =
       (if m = count \<or> timeout \<noteq> 0 \<and> dtime (qw_now v) (qw_now w) > timeout \<or> qw_cancelled v
        then Inl (Inr m, v\<lparr>qw_queue := q'\<rparr>) else Inr (m, v\<lparr>qw_queue := q'\<rparr>))"
    then show ?thesis using b putted_consume [OF _ assms(4)] by (simp split: if_splits)
  qed
  have final: "\<exists>m. r = Inr m \<and> ?I m w' \<and>
      (m = count \<or> timeout < dtime (qw_now w') (qw_now w) \<or> qw_cancelled w')"
    if I: "?I l v" and b: "Queue_PutWait_body (ptr, count, timeout, qw_now w) l v = Inl (r, w')" for l v r w'
  proof (rule putted_step [OF I assms(2,3), of timeout "qw_now w"])
    fix m q' assume "?I m (v\<lparr>qw_queue := q'\<rparr>)" "Queue_PutWait_body (ptr, count, timeout, qw_now w) l v =
       (if m = count \<or> timeout \<noteq> 0 \<and> dtime (qw_now v) (qw_now w) > timeout \<or> qw_cancelled v
        then Inl (Inr m, v\<lparr>qw_queue := q'\<rparr>) else Inr (m, v\<lparr>qw_queue := q'\<rparr>))"
    then show ?thesis using b by (intro exI [of _ m]) (auto split: if_splits)
  qed
  have "\<exists>m. r = Inr m \<and> ?I m wf \<and> (m = count \<or> timeout < dtime (qw_now wf) (qw_now w) \<or> qw_cancelled wf)"
    by (rule yield_loop_invariant [where I = ?I, OF y [unfolded Queue_PutWait_def]])
      (use init step final in blast)+
  then show ?thesis using y by (auto simp: putted_def)
qed

theorem Queue_PutWait_accepts_witness:
  "\<exists>n w' outs. Queue_PutWait (Suc (nat 5)) (\<lambda>k v. v\<lparr>qw_now := qw_now v + 1\<rparr>) [8, 9] 2 5
      \<lparr>qw_now = 7, qw_cancelled = False,
       qw_queue = \<lparr>q_size = 1, q_count = 2, q_ptr = [3, 4], q_head = 1, q_tail = 0\<rparr>\<rparr> = Some (Inr n, w') \<and>
     q_ok (qw_queue w') \<and> unat n \<le> 2 \<and>
     [3] @ take (unat n * 1) [8, 9] = outs @ q_bytes (qw_queue w') \<and>
     (n = 2 \<or> 5 < dtime (qw_now w') 7 \<or> qw_cancelled w')"
proof -
  have "ticking qw_now 1 (\<lambda>k v. v\<lparr>qw_now := qw_now v + 1\<rparr>)"
    unfolding ticking_def by (intro allI exI [of _ 1]) simp
  moreover have "consuming (\<lambda>k v. v\<lparr>qw_now := qw_now v + 1\<rparr>)" by (simp add: consuming_def)
  ultimately show ?thesis
    using Queue_PutWait_accepts [of "\<lparr>qw_now = 7, qw_cancelled = False,
       qw_queue = \<lparr>q_size = 1, q_count = 2, q_ptr = [3, 4], q_head = 1, q_tail = 0\<rparr>\<rparr>"
       2 "[8, 9]" "\<lambda>k v. v\<lparr>qw_now := qw_now v + 1\<rparr>" 1 5]
    by (simp add: q_ok_def q_wf_def Queue_GetUsed_def q_bytes_def q_items_def slot_def)
qed

section \<open>Creation\<close>

text \<open>
  A created queue is empty; its descriptor and its buffer are two different new allocations, and
  everything that was allocated before still is. It is well formed if the block that the heap returned for
  the buffer is as large as asked for (which \<open>Heap_Malloc\<close> does not promise).
\<close>

lemma Queue_Create_spec:
  assumes "heap_ok h" "unat (esize * cnt) < 2 ^ 31"
    and "Queue_Create h junk esize cnt = Some (Inr (h', Some (a, p, q)))"
  shows "a \<noteq> p \<and> live h' a \<and> live h' p \<and> heap_ok h' \<and> \<not> live h a \<and> \<not> live h p \<and>
      (\<forall>b. live h b \<longrightarrow> live h' b)"
    and "q_items q = []" "q_size q = esize" "q_count q = cnt"
    and "0 < esize \<Longrightarrow> 0 < cnt \<Longrightarrow> unat esize * unat cnt < 2 ^ 32 \<Longrightarrow>
      unat esize * unat cnt + 16 \<le> unat (size_at (hp_blocks h') (p - 16)) \<Longrightarrow> q_wf q"
proof -
  obtain h1 where m1: "Heap_Malloc h 24 = Some (Inr (a, h1))" "a \<noteq> 0"
    and m2: "Heap_Malloc h1 (esize * cnt) = Some (Inr (p, h'))" "p \<noteq> 0"
    and q: "q = \<lparr>q_size = esize, q_count = cnt,
      q_ptr = map junk [0..<unat (size_at (hp_blocks h') (p - 16)) - 16], q_head = 0, q_tail = 0\<rparr>"
    using assms(3)
    by (auto simp: Queue_Create_def bind_res_def split: option.splits sum.splits if_splits prod.splits)
  show "a \<noteq> p \<and> live h' a \<and> live h' p \<and> heap_ok h' \<and> \<not> live h a \<and> \<not> live h p \<and>
      (\<forall>b. live h b \<longrightarrow> live h' b)"
    by (rule heap.malloc_twice [OF assms(1) _ assms(2) m1(1) m2(1) m1(2) m2(2)]) simp
  show "q_items q = []" "q_size q = esize" "q_count q = cnt"
    by (simp_all add: q q_items_def Queue_GetUsed_def)
  show "0 < esize \<Longrightarrow> 0 < cnt \<Longrightarrow> unat esize * unat cnt < 2 ^ 32 \<Longrightarrow>
      unat esize * unat cnt + 16 \<le> unat (size_at (hp_blocks h') (p - 16)) \<Longrightarrow> q_wf q"
    by (simp add: q q_wf_def Queue_GetUsed_def word_less_nat_alt)
qed

end
