(* ===== verification/Sys_Time.thy ===== *)
theory Sys_Time
  imports Prelude
begin

text \<open>
  The system clock, \<^verbatim>\<open>sys/src/time.c\<close>, the time differences of \<^verbatim>\<open>sys/time.h\<close> and \<open>Sleep\<close> of
  \<^verbatim>\<open>sys/src/sleep.c\<close>. The SysTick peripheral counts down from \<open>RELOAD\<close> to zero; its overflow
  interrupt adds 1000 to \<open>ticks\<close>. The reading of the peripheral after \<open>c\<close> counts is \<open>systick_val c\<close>, and
  \<open>systick_ticks c\<close> is the value of \<open>ticks\<close> when every overflow so far has been served.
\<close>

unbundle bit_operations_syntax

section \<open>State and operations\<close>

definition RELOAD :: u32 where
  "RELOAD = 84000000 div 1 div 8 - 1"

record systick_t =
  st_CTRL :: u32
  st_LOAD :: u32

abbreviation SYSTICK_LOAD_RELOAD :: u32 where "SYSTICK_LOAD_RELOAD \<equiv> 0x00ffffff"
abbreviation SYSTICK_CTRL_TICKINT :: u32 where "SYSTICK_CTRL_TICKINT \<equiv> 2"
abbreviation SYSTICK_CTRL_ENABLE :: u32 where "SYSTICK_CTRL_ENABLE \<equiv> 1"

definition Time_TickHander :: "u32 \<Rightarrow> u32" where
  "Time_TickHander ticks = ticks + 1000"

definition Time_Init :: "systick_t \<Rightarrow> fault + err_t \<times> systick_t" where
  "Time_Init st =
     (if \<not> RELOAD > 1000000 then Inl AssertFail
      else if \<not> RELOAD \<le> SYSTICK_LOAD_RELOAD then Inl AssertFail
      else Inr (EOK, st\<lparr>st_LOAD := RELOAD,
             st_CTRL := st_CTRL st OR (SYSTICK_CTRL_ENABLE OR SYSTICK_CTRL_TICKINT)\<rparr>))"

text \<open>
  \<open>Time_GetTime\<close> repeats its read of \<open>ticks\<close> and \<open>SYSTICK->VAL\<close> until no interrupt came between the
  exclusive load and the exclusive store. Each attempt is the pair of values it read and whether it was
  interrupted; without a successful attempt the loop does not return.
\<close>

fun Time_GetTime :: "(u32 \<times> u32 \<times> bool) list \<Rightarrow> u32 option" where
  "Time_GetTime [] = None"
| "Time_GetTime ((ticks, val, interrupted) # attempts) =
     (let ms = ticks + (RELOAD - val) div (RELOAD div 1000)
      in if \<not> interrupted then Some ms else Time_GetTime attempts)"

definition Time_GetUS :: "u32 \<Rightarrow> u32" where
  "Time_GetUS val =
     (let us = (RELOAD - val) mod (RELOAD div 100) in us * 10000 div (RELOAD div 100))"

text \<open>
  \<open>Time_DelayUS\<close> reads the microsecond counter again and again; the argument is the sequence of the
  readings. The result is the count of microseconds the loop believes to have waited and the readings
  that it did not use.
\<close>

fun delay_loop :: "u32 \<Rightarrow> u32 \<Rightarrow> u32 \<Rightarrow> u32 list \<Rightarrow> (u32 \<times> u32 list) option" where
  "delay_loop us elapsed prev_us [] = (if elapsed < us then None else Some (elapsed, []))"
| "delay_loop us elapsed prev_us (curr_us # readings) =
     (if elapsed < us
      then let diff = curr_us - prev_us;
               diff' = (if diff > 10000 then 10000 + diff else diff)
           in delay_loop us (elapsed + diff') curr_us readings
      else Some (elapsed, curr_us # readings))"

fun Time_DelayUS :: "u32 \<Rightarrow> u32 list \<Rightarrow> (u32 \<times> u32 list) option" where
  "Time_DelayUS us [] = None"
| "Time_DelayUS us (prev_us # readings) = delay_loop us 0 prev_us readings"

definition dtime_m :: "u32 \<Rightarrow> u32 \<Rightarrow> int" where
  "dtime_m a b = (let diff = dtime a b in if diff < 0 then 0 else diff)"

text \<open>
  \<open>Sleep\<close>: the comparison \<open>dtime(...) < period\<close> is between an \<open>int32_t\<close> and a \<open>uint32_t\<close>, so it is done
  on unsigned values.
\<close>

record sleepw =
  slw_now :: u32
  slw_cancelled :: bool

definition Sleep_body :: "u32 \<times> u32 \<Rightarrow> unit \<Rightarrow> sleepw \<Rightarrow> (err_t \<times> sleepw) + (unit \<times> sleepw)" where
  "Sleep_body p l w =
     (case p of (period, ts) \<Rightarrow>
        if word_of_int (dtime (slw_now w) ts) < period
        then if slw_cancelled w then Inl (ECANCEL, w) else Inr ((), w)
        else Inl (EOK, w))"

definition Sleep :: "nat \<Rightarrow> (nat \<Rightarrow> sleepw \<Rightarrow> sleepw) \<Rightarrow> u32 \<Rightarrow> sleepw \<Rightarrow> (err_t \<times> sleepw) option" where
  "Sleep fuel env period w = yield_loop fuel env 0 (Sleep_body (period, slw_now w)) () w"

section \<open>The clock\<close>

abbreviation st_period :: nat where "st_period \<equiv> 10500000"

definition systick_val :: "nat \<Rightarrow> u32" where
  "systick_val c = RELOAD - of_nat (c mod st_period)"

definition systick_ticks :: "nat \<Rightarrow> u32" where
  "systick_ticks c = of_nat (1000 * (c div st_period))"

definition clock_ms :: "nat \<Rightarrow> nat" where
  "clock_ms c = 1000 * (c div st_period) + c mod st_period div 10499"

lemma RELOAD_eq [simp]: "RELOAD = 10499999"
  by (simp add: RELOAD_def)

lemma Time_Init_ok:
  "Time_Init st = Inr (EOK, st\<lparr>st_LOAD := 10499999, st_CTRL := st_CTRL st OR 3\<rparr>)"
  by (simp add: Time_Init_def)

lemma of_nat_div_u32:
  fixes n :: nat assumes "n < 2 ^ 32" "m < 2 ^ 32"
  shows "(of_nat n :: u32) div of_nat m = of_nat (n div m)"
proof (rule word_unat_eq_iff [THEN iffD2])
  have "n div m < 2 ^ 32" using assms(1) by (metis div_le_dividend le_less_trans)
  then show "unat ((of_nat n :: u32) div of_nat m) = unat (of_nat (n div m) :: u32)"
    using assms by (simp add: unat_div unat_of_nat)
qed

lemma of_nat_mod_u32:
  fixes n :: nat assumes "n < 2 ^ 32" "m < 2 ^ 32"
  shows "(of_nat n :: u32) mod of_nat m = of_nat (n mod m)"
proof (rule word_unat_eq_iff [THEN iffD2])
  have "n mod m < 2 ^ 32" using assms(1) by (metis mod_less_eq_dividend le_less_trans)
  then show "unat ((of_nat n :: u32) mod of_nat m) = unat (of_nat (n mod m) :: u32)"
    using assms by (simp add: unat_mod unat_of_nat)
qed

lemma systick_tick:
  "c mod st_period + 1 = st_period \<Longrightarrow> systick_ticks (c + 1) = Time_TickHander (systick_ticks c)"
proof -
  assume h: "c mod st_period + 1 = st_period"
  have "c + 1 = (c div st_period + 1) * st_period" using h div_mult_mod_eq [of c st_period] by simp
  then have "(c + 1) div st_period = c div st_period + 1" by simp
  then show ?thesis by (simp add: systick_ticks_def Time_TickHander_def)
qed

lemma Time_GetTime_sample:
  "Time_GetTime ((systick_ticks c, systick_val c, False) # rest) = Some (of_nat (clock_ms c))"
proof -
  have "c mod st_period < 2 ^ 32" using mod_less_divisor [of st_period c] by simp
  then have "of_nat (c mod st_period) div (10499 :: u32) = of_nat (c mod st_period div 10499)"
    using of_nat_div_u32 [of "c mod st_period" 10499] by simp
  then show ?thesis by (simp add: systick_ticks_def systick_val_def clock_ms_def)
qed

lemma clock_ms_mono: "c \<le> c' \<Longrightarrow> clock_ms c \<le> clock_ms c'"
proof (rule lift_Suc_mono_le [of clock_ms])
  fix n
  show "clock_ms n \<le> clock_ms (Suc n)"
  proof (cases "Suc (n mod st_period) = st_period")
    case True
    then show ?thesis by (simp add: clock_ms_def div_Suc mod_Suc)
  next
    case False
    then show ?thesis
      by (simp add: clock_ms_def div_Suc mod_Suc div_le_mono)
  qed
qed

lemma clock_ms_accurate: "c * 1000 div st_period \<le> clock_ms c \<and> clock_ms c \<le> c * 1000 div st_period + 1"
proof -
  define q r where "q = c div st_period" and "r = c mod st_period"
  have c: "c = q * st_period + r" and r: "r < st_period" by (simp_all add: q_def r_def)
  have "c * 1000 div st_period = 1000 * q + r * 1000 div st_period" unfolding c by (simp add: add_mult_distrib)
  moreover have e: "r * 1000 div st_period = r div 10500"
    using div_mult_mult1 [of 1000 r 10500] by (simp add: mult.commute)
  moreover have "r div 10500 \<le> r div 10499" by (rule div_le_mono2) simp_all
  moreover have "r div 10499 \<le> r div 10500 + 1"
  proof -
    define k where "k = r div 10500"
    have "r < 10500 * (k + 1)" unfolding k_def by (simp add: dividend_less_times_div)
    moreover have "k < 1000" using r by (simp add: k_def less_mult_imp_div_less)
    ultimately have "r < (k + 2) * 10499" by simp
    then show ?thesis using less_mult_imp_div_less [of r "k + 2" 10499] by (simp add: k_def)
  qed
  ultimately show ?thesis by (simp add: clock_ms_def q_def [symmetric] r_def [symmetric])
qed

text \<open>
  C9: The clock. A read of the clock that no interrupt disturbs, \<open>c\<close> counts of the SysTick after its start,
  returns the number of elapsed milliseconds modulo \<open>2 ^ 32\<close>, at most one too high; a later read
  never returns an earlier time (before the wrap-around); an interrupted attempt is repeated.
\<close>

theorem Time_GetTime_accurate:
  "\<exists>ms. (\<forall>c rest. Time_GetTime ((systick_ticks c, systick_val c, False) # rest) = Some (of_nat (ms c))) \<and>
        (\<forall>c t v. Time_GetTime [(t, v, True), (systick_ticks c, systick_val c, False)] = Some (of_nat (ms c))) \<and>
        (\<forall>c. c * 1000 div st_period \<le> ms c \<and> ms c \<le> c * 1000 div st_period + 1) \<and> mono ms"
proof (intro exI [of _ clock_ms] conjI allI)
  show "Time_GetTime [(t, v, True), (systick_ticks c, systick_val c, False)] = Some (of_nat (clock_ms c))" for c t v
    using Time_GetTime_sample [of c "[]"] by (simp only: Time_GetTime.simps(2) [of t v True] Let_def if_False not_True_eq_False)
qed (rule Time_GetTime_sample, use clock_ms_accurate in blast, use clock_ms_accurate in blast,
  intro monoI clock_ms_mono)

section \<open>Microsecond delays\<close>

text \<open>Within one period of the SysTick, the microseconds elapsed since its start.\<close>

definition clock_us :: "nat \<Rightarrow> nat" where
  "clock_us c = c mod st_period * 10000 div 104999"

lemma Time_GetUS_sample: "Time_GetUS (systick_val c) = of_nat (clock_us c mod 10000)"
proof -
  define r where "r = c mod st_period"
  define k s where "k = r div 104999" and "s = r mod 104999"
  have r: "r < st_period" by (simp add: r_def)
  have s: "s < 104999" by (simp add: s_def)
  have "r = k * 104999 + s" by (simp add: k_def s_def)
  then have "r * 10000 = k * 10000 * 104999 + s * 10000" by simp
  then have u: "clock_us c = k * 10000 + s * 10000 div 104999" by (simp add: clock_us_def r_def [symmetric])
  have "s * 10000 div 104999 < 10000" using s by (simp add: less_mult_imp_div_less)
  then have m: "clock_us c mod 10000 = s * 10000 div 104999" using u by simp
  have "(of_nat r :: u32) mod 104999 = of_nat s"
    using of_nat_mod_u32 [of r 104999] r by (simp add: s_def)
  moreover have "(of_nat s * 10000 :: u32) div 104999 = of_nat (s * 10000 div 104999)"
    using of_nat_div_u32 [of "s * 10000" 104999] s by simp
  ultimately show ?thesis unfolding m by (simp add: Time_GetUS_def systick_val_def r_def Let_def)
qed

lemma mod_window_diff:
  fixes u u' m :: nat
  assumes "u \<le> u'" "u' < u + m"
  shows "u' - u = (if u mod m \<le> u' mod m then u' mod m - u mod m else m - (u mod m - u' mod m))"
proof -
  define q a q' b where "q = u div m" "a = u mod m" "q' = u' div m" "b = u' mod m"
  note d = this
  have e: "u = q * m + a" "u' = q' * m + b" by (simp_all add: d)
  have ab: "a < m" "b < m" using assms by (auto simp: d intro: mod_less_divisor)
  have "q \<le> q'" unfolding d using assms(1) by (rule div_le_mono)
  moreover have "q' \<le> q + 1"
  proof (rule ccontr)
    assume "\<not> q' \<le> q + 1"
    then have "(q + 2) * m \<le> q' * m" by (intro mult_le_mono1) simp
    then show False using e ab assms(2) by simp
  qed
  ultimately consider "q' = q" | "q' = q + 1" by linarith
  then have "u' - u = (if a \<le> b then b - a else m - (a - b))" using e ab assms by cases auto
  then show ?thesis by (simp add: d)
qed

lemma unat_neg_of_nat: "0 < n \<Longrightarrow> n < 2 ^ 32 \<Longrightarrow> unat (- of_nat n :: u32) = 2 ^ 32 - n"
proof -
  assume n: "0 < n" "n < 2 ^ 32"
  have "(- of_nat n :: u32) = of_nat (2 ^ 32 - n)" using n by (simp add: of_nat_diff)
  then have "unat (- of_nat n :: u32) = (2 ^ 32 - n) mod 2 ^ 32" by (simp only: unat_of_nat) simp
  then show ?thesis using n by simp
qed

lemma us_diff:
  fixes u u' :: nat
  assumes "u \<le> u'" "u' < u + 10000"
  shows "(let diff = of_nat (u' mod 10000) - of_nat (u mod 10000) :: u32
          in if diff > 10000 then 10000 + diff else diff) = of_nat (u' - u)"
proof -
  define a b where "a = u mod 10000" and "b = u' mod 10000"
  have ab: "a < 10000" "b < 10000" by (simp_all add: a_def b_def)
  note w = mod_window_diff [OF assms, folded a_def b_def]
  show ?thesis unfolding a_def [symmetric] b_def [symmetric]
  proof (cases "a \<le> b")
    case True
    then have "(of_nat b - of_nat a :: u32) = of_nat (b - a)" by (simp add: of_nat_diff)
    moreover have "\<not> (of_nat (b - a) :: u32) > 10000"
      using ab by (simp add: word_less_nat_alt unat_of_nat)
    ultimately show "(let diff = of_nat b - of_nat a :: u32
          in if diff > 10000 then 10000 + diff else diff) = of_nat (u' - u)"
      using w True by (simp add: Let_def)
  next
    case False
    then obtain n where n: "a = b + n" "0 < n" "n < 10000"
      using ab by (metis add_diff_inverse_nat less_imp_diff_less not_le_imp_less zero_less_diff nat_less_le)
    then have d: "(of_nat b - of_nat a :: u32) = - of_nat n" by simp
    have "unat (- of_nat n :: u32) = 2 ^ 32 - n"
      using n by (intro unat_neg_of_nat) auto
    then have "(- of_nat n :: u32) > 10000" using n by (simp add: word_less_nat_alt)
    moreover have "(10000 + - of_nat n :: u32) = of_nat (10000 - n)"
      using n by (simp add: of_nat_diff)
    moreover have "u' - u = 10000 - n" using w False n by simp
    ultimately show "(let diff = of_nat b - of_nat a :: u32
          in if diff > 10000 then 10000 + diff else diff) = of_nat (u' - u)"
      unfolding d Let_def by (simp only: if_True)
  qed
qed

text \<open>
  Readings taken within one period of the SysTick, less than ten milliseconds apart: the loop's count
  of microseconds is the true one.
\<close>

fun sampled :: "nat \<Rightarrow> nat list \<Rightarrow> bool" where
  "sampled c [] = True"
| "sampled c (c' # cs) = (c \<le> c' \<and> c div st_period = c' div st_period \<and> clock_us c' < clock_us c + 10000 \<and> sampled c' cs)"

lemma clock_us_mono: "c \<le> c' \<Longrightarrow> c div st_period = c' div st_period \<Longrightarrow> clock_us c \<le> clock_us c'"
proof -
  assume h: "c \<le> c'" "c div st_period = c' div st_period"
  have "c = c div st_period * st_period + c mod st_period" "c' = c' div st_period * st_period + c' mod st_period" by simp_all
  then have "c mod st_period \<le> c' mod st_period" using h by linarith
  then show ?thesis unfolding clock_us_def by (intro div_le_mono mult_le_mono1)
qed

lemma clock_us_bound: "clock_us c \<le> 1000010"
proof -
  have "c mod st_period < st_period" by simp
  then have "c mod st_period * 10000 \<le> 104999990000" by linarith
  then have "clock_us c \<le> 104999990000 div 104999" unfolding clock_us_def by (rule div_le_mono)
  then show ?thesis by simp
qed

lemma delay_loop_true:
  assumes "sampled c cs" "c0 \<le> c" "c0 div st_period = c div st_period"
    and "delay_loop us (of_nat (clock_us c - clock_us c0)) (of_nat (clock_us c mod 10000))
          (map (\<lambda>c. Time_GetUS (systick_val c)) cs) = Some (n, rest)"
  shows "\<exists>c' \<in> set (c # cs). n = of_nat (clock_us c' - clock_us c0) \<and> unat us \<le> clock_us c' - clock_us c0"
  using assms
proof (induction cs arbitrary: c)
  case Nil
  then show ?case using clock_us_bound [of c]
    by (auto simp: word_less_nat_alt unat_of_nat split: if_splits)
next
  case (Cons d cs)
  have le: "clock_us c0 \<le> clock_us c" using clock_us_mono Cons.prems(2,3) .
  show ?case
  proof (cases "(of_nat (clock_us c - clock_us c0) :: u32) < us")
    case False
    then show ?thesis using Cons.prems clock_us_bound [of c]
      by (auto simp: word_less_nat_alt unat_of_nat)
  next
    case True
    have s: "c \<le> d" "c div st_period = d div st_period" "clock_us d < clock_us c + 10000" "sampled d cs"
      using Cons.prems(1) by simp_all
    have cd: "clock_us c \<le> clock_us d" using clock_us_mono s(1,2) .
    have "(of_nat (clock_us c - clock_us c0) :: u32) + of_nat (clock_us d - clock_us c) = of_nat (clock_us d - clock_us c0)"
      using le cd by (simp flip: of_nat_add)
    then have "delay_loop us (of_nat (clock_us d - clock_us c0)) (of_nat (clock_us d mod 10000))
          (map (\<lambda>c. Time_GetUS (systick_val c)) cs) = Some (n, rest)"
      using Cons.prems(4) True us_diff [OF cd s(3)] by (simp add: Time_GetUS_sample Let_def)
    then show ?thesis using Cons.IH [OF s(4), of] Cons.prems(2,3) s(1,2) by auto
  qed
qed

text \<open>
  A delay whose readings stay within one period of the SysTick (one second) and come less than 10 ms apart
  ends only at a reading by which the requested number of microseconds has really passed.
\<close>

theorem Time_DelayUS_waits:
  assumes "sampled c0 cs"
    and "Time_DelayUS us (map (\<lambda>c. Time_GetUS (systick_val c)) (c0 # cs)) = Some (n, rest)"
  shows "\<exists>c \<in> set (c0 # cs). unat us \<le> clock_us c - clock_us c0 \<and> n = of_nat (clock_us c - clock_us c0)"
proof -
  have "delay_loop us (of_nat (clock_us c0 - clock_us c0)) (of_nat (clock_us c0 mod 10000))
          (map (\<lambda>c. Time_GetUS (systick_val c)) cs) = Some (n, rest)"
    using assms(2) by (simp add: Time_GetUS_sample)
  then show ?thesis using delay_loop_true [OF assms(1) order_refl refl] by blast
qed

theorem Time_DelayUS_waits_witness:
  "\<exists>c \<in> set [100000, 110000, 200000]. unat (3 :: u32) \<le> clock_us c - clock_us 100000 \<and>
     (953 :: u32) = of_nat (clock_us c - clock_us 100000)"
  by (rule Time_DelayUS_waits [of _ _ _ _ "[Time_GetUS (systick_val 200000)]"])
    (simp_all add: clock_us_def Time_GetUS_def systick_val_def)

text \<open>
  At the end of the SysTick period the microsecond counter falls from 9 to 0 (the period is not a multiple of
  ten milliseconds of the counter); the correction for an overflow then counts 9991 microseconds for
  a single count of the timer, and a delay of 5 ms that spans this point ends at once.
\<close>

theorem Time_DelayUS_reload_early:
  "Time_DelayUS 5000 (map (\<lambda>c. Time_GetUS (systick_val c)) [10499999, 10500000, 10500001]) =
     Some (9991, [Time_GetUS (systick_val 10500001)])"
  by (simp add: Time_GetUS_def systick_val_def)

section \<open>Sleeping\<close>

lemma word_of_dtime: "word_of_int (dtime a b) = a - b"
  by (simp add: dtime_def)

lemma Sleep_body_expires:
  "0 < int (unat (fst p)) \<Longrightarrow> int (unat (fst p)) < dtime (slw_now w) (snd p) \<Longrightarrow>
   Sleep_body p l w \<noteq> Inr (l', w')"
proof (cases p)
  case (Pair period ts)
  assume h: "int (unat (fst p)) < dtime (slw_now w) (snd p)" "0 < int (unat (fst p))"
  have d: "0 \<le> dtime (slw_now w) ts" using h Pair by simp
  then have "int (unat (slw_now w - ts)) = dtime (slw_now w) ts"
    using dtime_range(2) [of "slw_now w" ts] uint_sint [of "slw_now w - ts"]
    by (simp add: dtime_def take_bit_int_eq_self)
  then have "\<not> slw_now w - ts < period" using h Pair by (simp add: word_less_def)
  then show ?thesis using Pair by (auto simp: Sleep_body_def word_of_dtime split: if_splits)
qed

interpretation sleep_wait: timed_wait slw_now Sleep_body snd "\<lambda>p. int (unat (fst p))"
  by (unfold_locales; (rule Sleep_body_expires; assumption)?)
    (auto simp: Sleep_body_def split: if_splits prod.splits)

text \<open>
  \<open>Sleep\<close> returns after at most \<open>period + 1\<close> calls of \<open>Yield\<close>. It returns \<open>EOK\<close> only when \<open>period\<close>
  milliseconds have passed since the call, and \<open>ECANCEL\<close> only when the task was cancelled before that.
\<close>

theorem Sleep_sleeps:
  assumes "ticking slw_now d env" and "0 < unat period" and "unat period + d < 2 ^ 31"
  shows "\<exists>r w'. Sleep (Suc (unat period)) env period w = Some (r, w') \<and>
     (r = EOK \<and> period \<le> slw_now w' - slw_now w \<or>
      r = ECANCEL \<and> slw_cancelled w' \<and> slw_now w' - slw_now w < period)"
proof -
  have pos: "0 < int (unat period)" using assms(2) by (simp only: of_nat_0_less_iff)
  have "\<exists>r. Sleep (Suc (unat period)) env period w = Some r"
    using sleep_wait.returns_in_time [OF assms(1), of "(period, slw_now w)" w 0 "()",
        unfolded fst_conv snd_conv nat_int, OF pos assms(3) refl]
    by (simp only: Sleep_def)
  then obtain r w' where y: "Sleep (Suc (unat period)) env period w = Some (r, w')" by fastforce
  have "(r = EOK \<and> period \<le> slw_now w' - slw_now w \<or>
      r = ECANCEL \<and> slw_cancelled w' \<and> slw_now w' - slw_now w < period)"
    by (rule yield_loop_invariant [where I = "\<lambda>_ _. True", OF y [unfolded Sleep_def]])
      (auto simp: Sleep_body_def word_of_dtime split: if_splits)
  then show ?thesis using y by blast
qed

theorem Sleep_sleeps_witness:
  "\<exists>r w'. Sleep (Suc 3) (\<lambda>k v. v\<lparr>slw_now := slw_now v + 1\<rparr>) 3 \<lparr>slw_now = -1, slw_cancelled = False\<rparr> = Some (r, w') \<and>
     (r = EOK \<and> 3 \<le> slw_now w' - -1 \<or> r = ECANCEL \<and> slw_cancelled w' \<and> slw_now w' - -1 < 3)"
proof -
  have "ticking slw_now 1 (\<lambda>k v. v\<lparr>slw_now := slw_now v + 1\<rparr>)"
    unfolding ticking_def by (intro allI exI [of _ 1]) simp
  from Sleep_sleeps [OF this, of 3 "\<lparr>slw_now = -1, slw_cancelled = False\<rparr>"]
  show ?thesis by (simp del: yield_loop.simps)
qed

end
