(* ===== verification/Sys_Sem.thy ===== *)
theory Sys_Sem
  imports Prelude
begin

text \<open>
  The semaphores of \<^verbatim>\<open>sys/src/sem.c\<close>. A \<open>sem_t\<close> holds zero or the number of the task that locked it.
  Its type is an enumeration with the values 0 and 1, whose width is up to the compiler (one byte under the
  ARM procedure call standard, four bytes with the GCC option \<open>-fno-short-enums\<close>), so the model is
  parametric in the width \<open>'e\<close>: a store of a task number truncates it, a comparison extends
  the stored value.
\<close>

section \<open>State and operations\<close>

type_synonym 'e sems = "addr \<Rightarrow> 'e word"

record (overloaded) ('e :: len) semw =
  sw_now :: u32
  sw_sem :: "'e sems"

abbreviation SEM_RELEASED :: "'e :: len word" where "SEM_RELEASED \<equiv> 0"

definition Sem_Lock_body ::
  "addr \<times> int \<times> u32 \<times> u32 \<Rightarrow> unit \<Rightarrow> 'e :: len semw \<Rightarrow> (err_t \<times> 'e semw) + (unit \<times> 'e semw)"
where
  "Sem_Lock_body p l w =
     (case p of (sem, timeout, ts, task_id) \<Rightarrow>
        if sw_sem w sem \<noteq> SEM_RELEASED \<and> ucast (sw_sem w sem) \<noteq> task_id
        then if timeout \<noteq> 0 \<and> dtime (sw_now w) ts > timeout then Inl (ETIMEOUT, w) else Inr ((), w)
        else Inl (EOK, w\<lparr>sw_sem := (sw_sem w)(sem := ucast task_id)\<rparr>))"

definition Sem_Lock ::
  "nat \<Rightarrow> (nat \<Rightarrow> 'e semw \<Rightarrow> 'e semw) \<Rightarrow> u32 \<Rightarrow> addr \<Rightarrow> int \<Rightarrow> 'e :: len semw \<Rightarrow> (err_t \<times> 'e semw) option"
where
  "Sem_Lock fuel env task_id sem timeout w =
     yield_loop fuel env 0 (Sem_Lock_body (sem, timeout, sw_now w, task_id)) () w"

definition Sem_Release :: "'e :: len sems \<Rightarrow> addr \<Rightarrow> 'e sems" where
  "Sem_Release s sem = s(sem := SEM_RELEASED)"

text \<open>
  The first loop of \<open>Sem_LockMultiple\<close>: the number of semaphores locked before the first one that belongs to
  another task, and the store.
\<close>

fun lock_many :: "'e :: len sems \<Rightarrow> u32 \<Rightarrow> addr list \<Rightarrow> nat \<times> 'e sems" where
  "lock_many s task_id [] = (0, s)"
| "lock_many s task_id (p # ps) =
     (if s p = SEM_RELEASED \<or> ucast (s p) = task_id
      then let (k, s') = lock_many (s(p := ucast task_id)) task_id ps in (Suc k, s')
      else (0, s))"

text \<open>The second loop, from the last semaphore locked back to the first.\<close>

definition unlock_many :: "'e :: len sems \<Rightarrow> addr list \<Rightarrow> 'e sems" where
  "unlock_many s ps = foldr (\<lambda>p s. s(p := SEM_RELEASED)) ps s"

definition Sem_LockMultiple_body ::
  "addr list \<times> int \<times> u32 \<times> u32 \<Rightarrow> unit \<Rightarrow> 'e :: len semw \<Rightarrow> (err_t \<times> 'e semw) + (unit \<times> 'e semw)"
where
  "Sem_LockMultiple_body p l w =
     (case p of (sem_list, timeout, ts, task_id) \<Rightarrow>
        if timeout = 0 \<or> dtime (sw_now w) ts < timeout
        then let (k, s) = lock_many (sw_sem w) task_id sem_list
             in if k = length sem_list then Inl (EOK, w\<lparr>sw_sem := s\<rparr>)
                else Inr ((), w\<lparr>sw_sem := unlock_many s (take k sem_list)\<rparr>)
        else Inl (ETIMEOUT, w))"

definition Sem_LockMultiple ::
  "nat \<Rightarrow> (nat \<Rightarrow> 'e semw \<Rightarrow> 'e semw) \<Rightarrow> u32 \<Rightarrow> addr list \<Rightarrow> int \<Rightarrow> 'e :: len semw \<Rightarrow> (err_t \<times> 'e semw) option"
where
  "Sem_LockMultiple fuel env task_id sem_list timeout w =
     yield_loop fuel env 0 (Sem_LockMultiple_body (sem_list, timeout, sw_now w, task_id)) () w"

definition Sem_ReleaseMultiple :: "'e :: len sems \<Rightarrow> addr list \<Rightarrow> 'e sems" where
  "Sem_ReleaseMultiple s sem_list = fold (\<lambda>p s. s(p := SEM_RELEASED)) sem_list s"

section \<open>Lists of semaphores\<close>

lemma unlock_many_apply: "unlock_many s ps p = (if p \<in> set ps then 0 else s p)"
  by (induction ps) (auto simp: unlock_many_def)

lemma Sem_ReleaseMultiple_apply: "Sem_ReleaseMultiple s ps p = (if p \<in> set ps then 0 else s p)"
  by (induction ps arbitrary: s) (auto simp: Sem_ReleaseMultiple_def)

text \<open>A task number that a semaphore can hold.\<close>

definition fits :: "'e :: len itself \<Rightarrow> u32 \<Rightarrow> bool" where
  "fits TYPE('e) t \<longleftrightarrow> LENGTH('e) \<le> 32 \<and> t \<noteq> 0 \<and> unat t < 2 ^ LENGTH('e)"

lemma fits_store:
  assumes "fits TYPE('e :: len) t" shows "unat (ucast t :: 'e word) = unat t"
  using assms by (simp add: fits_def unsigned_ucast_eq take_bit_nat_eq_self)

lemma fits_eq:
  assumes "fits TYPE('e :: len) t" shows "ucast (x :: 'e word) = t \<longleftrightarrow> x = ucast t"
proof -
  have "(2 :: nat) ^ LENGTH('e) \<le> 2 ^ 32"
    using assms by (intro power_increasing) (simp_all add: fits_def)
  then have "unat x < 2 ^ 32" using unsigned_less [of x] by (rule less_le_trans [rotated])
  then have "unat (ucast x :: u32) = unat x"
    by (simp add: unsigned_ucast_eq take_bit_nat_eq_self)
  then show ?thesis using fits_store [OF assms] by (metis word_unat_eq_iff)
qed

lemma fits_nonzero: "fits TYPE('e :: len) t \<Longrightarrow> (ucast t :: 'e word) \<noteq> 0"
  using fits_store [of t] by (metis fits_def unat_eq_zero unat_0)

lemma fits_inj:
  "fits TYPE('e :: len) t \<Longrightarrow> fits TYPE('e) u \<Longrightarrow> (ucast t :: 'e word) = ucast u \<longleftrightarrow> t = u"
  using fits_store by (metis word_unat_eq_iff)

definition lockable :: "'e :: len sems \<Rightarrow> u32 \<Rightarrow> addr \<Rightarrow> bool" where
  "lockable s t p \<longleftrightarrow> s p = 0 \<or> s p = ucast t"

lemma lock_many_prefix:
  assumes f: "fits TYPE('e :: len) t" and r: "lock_many (s :: 'e sems) t ps = (k, s')"
  shows "take k ps = takeWhile (lockable s t) ps \<and> k \<le> length ps \<and>
    (\<forall>p. s' p = (if p \<in> set (take k ps) then ucast t else s p))"
  using r
proof (induction ps arbitrary: s k s')
  case Nil
  then show ?case by simp
next
  case (Cons a ps)
  show ?case
  proof (cases "lockable s t a")
    case False
    then show ?thesis using Cons.prems fits_eq [OF f] by (simp add: lockable_def)
  next
    case True
    then obtain j where j: "lock_many (s(a := ucast t)) t ps = (j, s')" "k = Suc j"
      using Cons.prems fits_eq [OF f] by (auto simp: lockable_def split: prod.splits)
    have l: "lockable (s(a := ucast t)) t = lockable s t"
      using True by (auto simp: lockable_def fun_eq_iff)
    show ?thesis using Cons.IH [OF j(1), unfolded l] j(2) True by auto
  qed
qed

lemma lock_many_all:
  assumes "fits TYPE('e :: len) t" and "lock_many (s :: 'e sems) t ps = (k, s')"
  shows "k = length ps \<longleftrightarrow> (\<forall>p \<in> set ps. lockable s t p)"
proof -
  have "take k ps = takeWhile (lockable s t) ps" "k \<le> length ps"
    using lock_many_prefix [OF assms] by auto
  then have "k = length ps \<longleftrightarrow> takeWhile (lockable s t) ps = ps" by (metis length_take min.absorb2 take_all le_refl)
  then show ?thesis by (simp add: takeWhile_eq_all_conv)
qed

text \<open>A round that does not get all semaphores of the list has no effect, if the task holds none of them.\<close>

lemma lock_many_undone:
  assumes "fits TYPE('e :: len) t" and "lock_many (s :: 'e sems) t ps = (k, s')"
    and "\<forall>p \<in> set ps. s p \<noteq> ucast t"
  shows "unlock_many s' (take k ps) = s"
proof
  fix p
  have "\<forall>x \<in> set (take k ps). s x = 0"
    using lock_many_prefix [OF assms(1,2)] assms(3) by (auto simp: lockable_def dest!: set_takeWhileD)
  then show "unlock_many s' (take k ps) p = s p"
    using lock_many_prefix [OF assms(1,2)] by (auto simp: unlock_many_apply)
qed

section \<open>Mutual exclusion\<close>

text \<open>
  Tasks that use semaphores, as a step relation. The state is the store and the pairs of a task and a
  semaphore that it has locked and not yet released, as the task itself sees it: it returned from a
  lock with \<open>EOK\<close>. Every round of a waiting loop is one step, at any time.
\<close>

inductive sem_step :: "'e :: len sems \<times> (u32 \<times> addr) set \<Rightarrow> 'e sems \<times> (u32 \<times> addr) set \<Rightarrow> bool" where
  lock: "fits TYPE('e) t \<Longrightarrow>
    Sem_Lock_body (p, timeout, ts, t) () \<lparr>sw_now = now, sw_sem = s\<rparr> = Inl (EOK, w) \<Longrightarrow>
    sem_step (s, H) (sw_sem w, insert (t, p) H)"
| lock_fails: "fits TYPE('e) t \<Longrightarrow>
    Sem_Lock_body (p, timeout, ts, t) () \<lparr>sw_now = now, sw_sem = s\<rparr> \<in> {Inl (ETIMEOUT, w), Inr ((), w)} \<Longrightarrow>
    sem_step (s, H) (sw_sem w, H)"
| multi: "fits TYPE('e) t \<Longrightarrow> \<forall>p \<in> set ps. (t, p) \<notin> H \<Longrightarrow>
    Sem_LockMultiple_body (ps, timeout, ts, t) () \<lparr>sw_now = now, sw_sem = s\<rparr> = Inl (EOK, w) \<Longrightarrow>
    sem_step (s, H) (sw_sem w, {t} \<times> set ps \<union> H)"
| multi_fails: "fits TYPE('e) t \<Longrightarrow> \<forall>p \<in> set ps. (t, p) \<notin> H \<Longrightarrow>
    Sem_LockMultiple_body (ps, timeout, ts, t) () \<lparr>sw_now = now, sw_sem = s\<rparr> \<in> {Inl (ETIMEOUT, w), Inr ((), w)} \<Longrightarrow>
    sem_step (s, H) (sw_sem w, H)"
| release: "(t, p) \<in> H \<Longrightarrow> sem_step (s, H) (Sem_Release s p, H - {(t, p)})"
| release_multi: "\<forall>p \<in> set ps. (t, p) \<in> H \<Longrightarrow>
    sem_step (s, H) (Sem_ReleaseMultiple s ps, H - {t} \<times> set ps)"

definition sem_inv :: "'e :: len sems \<times> (u32 \<times> addr) set \<Rightarrow> bool" where
  "sem_inv x \<longleftrightarrow> (\<forall>t p. (t, p) \<in> snd x \<longrightarrow> fits TYPE('e) t) \<and>
     (\<forall>t p. fits TYPE('e) t \<longrightarrow> ((t, p) \<in> snd x \<longleftrightarrow> fst x p = ucast t))"

lemma sem_invD:
  assumes "sem_inv (s :: 'e :: len sems, H)"
  shows "(t, p) \<in> H \<Longrightarrow> fits TYPE('e) t" and "fits TYPE('e) t \<Longrightarrow> (t, p) \<in> H \<longleftrightarrow> s p = ucast t"
    and "(t, p) \<in> H \<Longrightarrow> s p = ucast t"
  using assms unfolding sem_inv_def fst_conv snd_conv by blast+

lemma sem_invI:
  assumes "\<And>t p. (t, p) \<in> H \<Longrightarrow> fits TYPE('e :: len) t"
    and "\<And>t p. fits TYPE('e) t \<Longrightarrow> (t, p) \<in> H \<longleftrightarrow> s p = ucast t"
  shows "sem_inv (s :: 'e sems, H)"
  using assms unfolding sem_inv_def fst_conv snd_conv by blast

lemma lock_inv:
  assumes I: "sem_inv (s :: 'e :: len sems, H)" and f: "fits TYPE('e) t"
    and free: "\<forall>p \<in> P. lockable s t p" and s': "\<forall>p. s' p = (if p \<in> P then ucast t else s p)"
  shows "sem_inv (s', {t} \<times> P \<union> H)"
proof (rule sem_invI)
  show "fits TYPE('e) u" if "(u, p) \<in> {t} \<times> P \<union> H" for u p using that f sem_invD(1) [OF I] by auto
  show "(u, p) \<in> {t} \<times> P \<union> H \<longleftrightarrow> s' p = ucast u" if u: "fits TYPE('e) u" for u p
  proof (cases "p \<in> P")
    case False
    then show ?thesis using sem_invD(2) [OF I u] s' by simp
  next
    case True
    then have "(u, p) \<in> H \<Longrightarrow> u = t"
      using sem_invD(3) [OF I] free fits_nonzero [OF u] fits_inj [OF u f] by (auto simp: lockable_def)
    then show ?thesis using True s' fits_inj [OF f u] by auto
  qed
qed

lemma unlock_inv:
  assumes I: "sem_inv (s :: 'e :: len sems, H)" and own: "\<forall>p \<in> P. (t, p) \<in> H"
    and s': "\<forall>p. s' p = (if p \<in> P then 0 else s p)"
  shows "sem_inv (s', H - {t} \<times> P)"
proof (rule sem_invI)
  show "fits TYPE('e) u" if "(u, p) \<in> H - {t} \<times> P" for u p using that sem_invD(1) [OF I] by auto
  show "(u, p) \<in> H - {t} \<times> P \<longleftrightarrow> s' p = ucast u" if u: "fits TYPE('e) u" for u p
  proof (cases "p \<in> P")
    case False
    then show ?thesis using sem_invD(2) [OF I u] s' by simp
  next
    case True
    then have "(u, p) \<in> H \<Longrightarrow> u = t"
      using sem_invD(1,3) [OF I] own fits_inj [OF u, of t] by metis
    then show ?thesis using True s' fits_nonzero [OF u] by auto
  qed
qed

lemma Sem_Lock_body_ok:
  assumes "fits TYPE('e :: len) t"
    and "Sem_Lock_body (p, timeout, ts, t) () (v :: 'e semw) = Inl (EOK, w)"
  shows "lockable (sw_sem v) t p \<and> sw_sem w = (sw_sem v)(p := ucast t)"
  using assms(2) fits_eq [OF assms(1)]
  by (auto simp: Sem_Lock_body_def lockable_def err_defs split: if_splits)

lemma Sem_Lock_body_other:
  assumes "Sem_Lock_body p l v \<in> {Inl (ETIMEOUT, w), Inr ((), w)}" shows "w = v"
  using assms by (auto simp: Sem_Lock_body_def err_defs split: if_splits prod.splits)

lemma Sem_LockMultiple_body_ok:
  assumes "fits TYPE('e :: len) t"
    and "Sem_LockMultiple_body (ps, timeout, ts, t) () (v :: 'e semw) = Inl (EOK, w)"
  shows "(\<forall>p \<in> set ps. lockable (sw_sem v) t p) \<and>
     (\<forall>p. sw_sem w p = (if p \<in> set ps then ucast t else sw_sem v p))"
proof -
  obtain k s where l: "lock_many (sw_sem v) t ps = (k, s)" by (cases "lock_many (sw_sem v) t ps")
  then have "k = length ps" "sw_sem w = s"
    using assms(2) by (auto simp: Sem_LockMultiple_body_def err_defs split: if_splits)
  then show ?thesis using lock_many_all [OF assms(1) l] lock_many_prefix [OF assms(1) l] by auto
qed

lemma Sem_LockMultiple_body_other:
  assumes "fits TYPE('e :: len) t" and "\<forall>p \<in> set ps. sw_sem v p \<noteq> ucast t"
    and "Sem_LockMultiple_body (ps, timeout, ts, t) () (v :: 'e semw) \<in> {Inl (ETIMEOUT, w), Inr ((), w)}"
  shows "sw_sem w = sw_sem v"
proof -
  obtain k s where l: "lock_many (sw_sem v) t ps = (k, s)" by (cases "lock_many (sw_sem v) t ps")
  then show ?thesis
    using assms(3) lock_many_undone [OF assms(1) l assms(2)]
    by (auto simp: Sem_LockMultiple_body_def err_defs split: if_splits)
qed

lemma sem_step_inv: "sem_step x y \<Longrightarrow> sem_inv x \<Longrightarrow> sem_inv y"
proof (induction rule: sem_step.induct)
  case (lock t p timeout ts now s w H)
  then show ?case
    using lock_inv [of s H t "{p}" "sw_sem w"] Sem_Lock_body_ok [OF lock(1,2)] by simp
next
  case (lock_fails t p timeout ts now s w H)
  then show ?case using Sem_Lock_body_other [OF lock_fails(2)] by simp
next
  case (multi t ps H timeout ts now s w)
  then show ?case
    using lock_inv [of s H t "set ps" "sw_sem w"] Sem_LockMultiple_body_ok [OF multi(1,3)] by simp
next
  case (multi_fails t ps H timeout ts now s w)
  then have "\<forall>p \<in> set ps. s p \<noteq> ucast t" using sem_invD(2) [OF multi_fails(4) multi_fails(1)] by auto
  then show ?case
    using Sem_LockMultiple_body_other [OF multi_fails(1) _ multi_fails(3)] multi_fails(4) by simp
next
  case (release t p H s)
  then show ?case using unlock_inv [of s H "{p}" t "Sem_Release s p"] by (simp add: Sem_Release_def)
next
  case (release_multi ps t H s)
  then show ?case
    using unlock_inv [of s H "set ps" t "Sem_ReleaseMultiple s ps"] by (simp add: Sem_ReleaseMultiple_apply)
qed

inductive sem_reach :: "'e :: len sems \<times> (u32 \<times> addr) set \<Rightarrow> bool" where
  start: "sem_reach (\<lambda>_. SEM_RELEASED, {})"
| step: "sem_reach x \<Longrightarrow> sem_step x y \<Longrightarrow> sem_reach y"

lemma sem_reach_inv: "sem_reach (x :: 'e :: len sems \<times> (u32 \<times> addr) set) \<Longrightarrow> sem_inv x"
proof (induction rule: sem_reach.induct)
  case start
  have "\<not> fits TYPE('e) t \<or> (0 :: 'e word) \<noteq> ucast t" for t using fits_nonzero [of t] by metis
  then show ?case by (auto simp: sem_inv_def)
qed (rule sem_step_inv)



text \<open>
  With one byte semaphores, the 256th task does not exclude the others: its lock of a semaphore
  stores zero, so the next task locks the same semaphore at once while the first still holds it.
\<close>

theorem Sem_short_enum_breaks:
  "Sem_Lock_body (p, 0, ts, 256) () \<lparr>sw_now = now, sw_sem = (\<lambda>_. 0) :: 8 sems\<rparr> =
     Inl (EOK, \<lparr>sw_now = now, sw_sem = \<lambda>_. 0\<rparr>) \<and>
   Sem_Lock_body (p, 0, ts', 2) () \<lparr>sw_now = now, sw_sem = (\<lambda>_. 0) :: 8 sems\<rparr> =
     Inl (EOK, \<lparr>sw_now = now, sw_sem = (\<lambda>_. 0)(p := 2)\<rparr>)"
  by (auto simp: Sem_Lock_body_def fun_eq_iff)

text \<open>
  A round of \<open>Sem_LockMultiple\<close> that fails releases also what the task held before the call: task 3
  holds semaphore \<open>a\<close> and asks for \<open>a\<close> and \<open>b\<close>, which task 4 holds; after the round \<open>a\<close> is free.
\<close>

theorem Sem_LockMultiple_drops:
  assumes "a \<noteq> b"
  shows "Sem_LockMultiple_body ([a, b], 0, ts, 3) () \<lparr>sw_now = now, sw_sem = (\<lambda>_. 0)(a := 3, b := 4) :: 8 sems\<rparr> =
     Inr ((), \<lparr>sw_now = now, sw_sem = (\<lambda>_. 0)(b := 4)\<rparr>)"
  using assms by (auto simp: Sem_LockMultiple_body_def unlock_many_def fun_eq_iff)

theorem Sem_LockMultiple_drops_witness:
  "(1 :: addr) \<noteq> 2 \<and> Sem_LockMultiple_body ([1, 2], 0, 0, 3) ()
      \<lparr>sw_now = 0, sw_sem = (\<lambda>_. 0)(1 := 3, 2 := 4) :: 8 sems\<rparr> =
     Inr ((), \<lparr>sw_now = 0, sw_sem = (\<lambda>_. 0)(2 := 4)\<rparr>)"
  using Sem_LockMultiple_drops [of 1 2 0 0] by simp

section \<open>Waiting for a semaphore\<close>

lemma Sem_Lock_body_wait:
  "Sem_Lock_body p l w = Inr (l', w') \<Longrightarrow> w' = w \<and>
     \<not> (0 < fst (snd p) \<and> fst (snd p) < dtime (sw_now w) (fst (snd (snd p))))"
  by (auto simp: Sem_Lock_body_def split: if_splits prod.splits)

interpretation lock_wait: timed_wait sw_now Sem_Lock_body "\<lambda>p. fst (snd (snd p))" "\<lambda>p. fst (snd p)"
  by unfold_locales (auto dest: Sem_Lock_body_wait)

lemma Sem_LockMultiple_body_wait:
  "Sem_LockMultiple_body p l w = Inr (l', w') \<Longrightarrow> sw_now w' = sw_now w \<and>
     \<not> (0 < fst (snd p) \<and> fst (snd p) < dtime (sw_now w) (fst (snd (snd p))))"
  by (auto simp: Sem_LockMultiple_body_def split: if_splits prod.splits)

interpretation multi_wait: timed_wait sw_now Sem_LockMultiple_body "\<lambda>p. fst (snd (snd p))" "\<lambda>p. fst (snd p)"
  by unfold_locales (auto dest: Sem_LockMultiple_body_wait)

text \<open>
  With a timeout, \<open>Sem_Lock\<close> returns after at most \<open>timeout + 1\<close> calls of \<open>Yield\<close>: with \<open>EOK\<close> and
  the semaphore taken, or with \<open>ETIMEOUT\<close>, after more than \<open>timeout\<close> milliseconds and while another
  task holds the semaphore.
\<close>

theorem Sem_Lock_returns:
  fixes w :: "'e :: len semw"
  assumes "ticking sw_now d env" and "0 < timeout" and "nat timeout + d < 2 ^ 31" and "fits TYPE('e) t"
  shows "\<exists>r w'. Sem_Lock (Suc (nat timeout)) env t sem timeout w = Some (r, w') \<and>
     (r = EOK \<and> sw_sem w' sem = ucast t \<or>
      r = ETIMEOUT \<and> timeout < dtime (sw_now w') (sw_now w) \<and> sw_sem w' sem \<noteq> 0 \<and> sw_sem w' sem \<noteq> ucast t)"
proof -
  have "\<exists>r. Sem_Lock (Suc (nat timeout)) env t sem timeout w = Some r"
    using lock_wait.returns_in_time [OF assms(1), of "(sem, timeout, sw_now w, t)" w 0 "()",
        unfolded fst_conv snd_conv, OF assms(2,3) refl]
    by (simp only: Sem_Lock_def)
  then obtain r w' where y: "Sem_Lock (Suc (nat timeout)) env t sem timeout w = Some (r, w')" by fastforce
  have "r = EOK \<and> sw_sem w' sem = ucast t \<or>
      r = ETIMEOUT \<and> timeout < dtime (sw_now w') (sw_now w) \<and> sw_sem w' sem \<noteq> 0 \<and> sw_sem w' sem \<noteq> ucast t"
    by (rule yield_loop_invariant [where I = "\<lambda>_ _. True", OF y [unfolded Sem_Lock_def]])
      (auto simp: Sem_Lock_body_def fits_eq [OF assms(4)] split: if_splits)
  then show ?thesis using y by blast
qed

theorem Sem_Lock_returns_witness:
  "\<exists>r w'. Sem_Lock (Suc (nat 4)) (\<lambda>k v. v\<lparr>sw_now := sw_now v + 1\<rparr>) 7 16 4
      \<lparr>sw_now = 0, sw_sem = (\<lambda>_. 9) :: 8 sems\<rparr> = Some (r, w') \<and>
     (r = EOK \<and> sw_sem w' 16 = ucast (7 :: u32) \<or>
      r = ETIMEOUT \<and> 4 < dtime (sw_now w') 0 \<and> sw_sem w' 16 \<noteq> 0 \<and> sw_sem w' 16 \<noteq> ucast (7 :: u32))"
proof -
  have "ticking sw_now 1 (\<lambda>k (v :: 8 semw). v\<lparr>sw_now := sw_now v + 1\<rparr>)"
    unfolding ticking_def by (intro allI exI [of _ 1]) simp
  from Sem_Lock_returns [OF this, of 4 7 16 "\<lparr>sw_now = 0, sw_sem = (\<lambda>_. 9) :: 8 sems\<rparr>"]
  show ?thesis by (simp add: fits_def del: yield_loop.simps)
qed

end
