(* ===== verification/Sys_Ev.thy ===== *)
theory Sys_Ev
  imports Prelude
begin

text \<open>
  Events, \<^verbatim>\<open>sys/src/ev.c\<close>: callbacks that the notifying task calls, and listeners, tasks that capture each
  event and acknowledge it before the notifier goes on. A listener is given by its index in the event's array
  \<open>listeners\<close>; the entry's pointer to its event is the event it is part of. What a subscribed callback does
  to the event is the parameter \<open>call\<close>.

  The protocol between the notifier and the listeners is a step relation; its invariant gives that no
  listener loses or repeats an event.
\<close>

section \<open>State and operations\<close>

record ev_listener_t =
  l_task_id :: u32
  l_ev_id :: u32

record ev_t =
  ev_arg :: u32
  ev_id :: u32
  ev_cb :: "addr list"
  ev_listeners :: "ev_listener_t list"

abbreviation SYS_EV_MAX_CBS :: nat where "SYS_EV_MAX_CBS \<equiv> 8"

text \<open>The loops over the callback array: the first slot with the given contents.\<close>

fun find_slot :: "('a \<Rightarrow> bool) \<Rightarrow> nat \<Rightarrow> 'a list \<Rightarrow> nat option" where
  "find_slot P i [] = None"
| "find_slot P i (x # xs) = (if P x then Some i else find_slot P (Suc i) xs)"

definition Ev_Subscribe :: "ev_t \<Rightarrow> addr \<Rightarrow> err_t \<times> ev_t" where
  "Ev_Subscribe event callback =
     (case find_slot (\<lambda>c. c = 0) 0 (ev_cb event) of
        Some i \<Rightarrow> (EOK, event\<lparr>ev_cb := (ev_cb event)[i := callback]\<rparr>)
      | None \<Rightarrow> (EFATAL, event))"

definition Ev_Unsubscribe :: "ev_t \<Rightarrow> addr \<Rightarrow> err_t \<times> ev_t" where
  "Ev_Unsubscribe event callback =
     (case find_slot (\<lambda>c. c = callback) 0 (ev_cb event) of
        Some i \<Rightarrow> (EOK, event\<lparr>ev_cb := (ev_cb event)[i := 0]\<rparr>)
      | None \<Rightarrow> (EFATAL, event))"

text \<open>\<open>Ev_Notify\<close> up to its waiting loop: the callbacks run in the order of the slots.\<close>

definition Ev_Notify_calls :: "(addr \<Rightarrow> u32 \<Rightarrow> ev_t \<Rightarrow> ev_t) \<Rightarrow> ev_t \<Rightarrow> u32 \<Rightarrow> ev_t" where
  "Ev_Notify_calls call event arg =
     fold (\<lambda>i e. if ev_cb e ! i \<noteq> 0 then call (ev_cb e ! i) arg e else e) [0..<SYS_EV_MAX_CBS]
       (event\<lparr>ev_arg := arg, ev_id := ev_id event + 1\<rparr>)"

definition all_done :: "ev_t \<Rightarrow> bool" where
  "all_done event = list_all (\<lambda>lst. \<not> (l_task_id lst \<noteq> 0 \<and> l_ev_id lst \<noteq> ev_id event)) (ev_listeners event)"

record evw =
  ew_now :: u32
  ew_ev :: ev_t

definition Ev_Notify_body :: "unit \<Rightarrow> evw \<Rightarrow> (unit \<times> evw) + (unit \<times> evw)" where
  "Ev_Notify_body l w = (if all_done (ew_ev w) then Inl ((), w) else Inr ((), w))"

definition Ev_Notify ::
  "(addr \<Rightarrow> u32 \<Rightarrow> ev_t \<Rightarrow> ev_t) \<Rightarrow> nat \<Rightarrow> (nat \<Rightarrow> evw \<Rightarrow> evw) \<Rightarrow> u32 \<Rightarrow> evw \<Rightarrow> (unit \<times> evw) option"
where
  "Ev_Notify call fuel env arg w =
     yield_loop fuel env 0 Ev_Notify_body () (w\<lparr>ew_ev := Ev_Notify_calls call (ew_ev w) arg\<rparr>)"

definition Ev_Wait_body :: "u32 \<times> int \<times> u32 \<Rightarrow> unit \<Rightarrow> evw \<Rightarrow> (err_t \<times> evw) + (unit \<times> evw)" where
  "Ev_Wait_body p l w =
     (case p of (eid, timeout, ts) \<Rightarrow>
        if eid = ev_id (ew_ev w)
        then if timeout \<noteq> 0 \<and> dtime (ew_now w) ts > timeout then Inl (ETIMEOUT, w) else Inr ((), w)
        else Inl (EOK, w))"

definition Ev_Wait :: "nat \<Rightarrow> (nat \<Rightarrow> evw \<Rightarrow> evw) \<Rightarrow> int \<Rightarrow> evw \<Rightarrow> (err_t \<times> evw) option" where
  "Ev_Wait fuel env timeout w =
     yield_loop fuel env 0 (Ev_Wait_body (ev_id (ew_ev w), timeout, ew_now w)) () w"

definition Ev_Listen :: "ev_t \<Rightarrow> u32 \<Rightarrow> nat option \<times> ev_t" where
  "Ev_Listen event task_id =
     (case find_slot (\<lambda>lst. l_task_id lst = 0) 0 (ev_listeners event) of
        None \<Rightarrow> (None, event)
      | Some i \<Rightarrow> (Some i, event\<lparr>ev_listeners :=
          (ev_listeners event)[i := \<lparr>l_task_id = task_id, l_ev_id = ev_id event\<rparr>]\<rparr>))"

definition Ev_Capture_body :: "nat \<times> int \<times> u32 \<Rightarrow> unit \<Rightarrow> evw \<Rightarrow> ((err_t \<times> u32 option) \<times> evw) + (unit \<times> evw)" where
  "Ev_Capture_body p l w =
     (case p of (lst, timeout, ts) \<Rightarrow>
        if ev_id (ew_ev w) = l_ev_id (ev_listeners (ew_ev w) ! lst)
        then if timeout \<noteq> 0 \<and> dtime (ew_now w) ts > timeout then Inl ((ETIMEOUT, None), w) else Inr ((), w)
        else Inl ((EOK, Some (ev_arg (ew_ev w))), w))"

definition Ev_Capture ::
  "nat \<Rightarrow> (nat \<Rightarrow> evw \<Rightarrow> evw) \<Rightarrow> nat \<Rightarrow> int \<Rightarrow> evw \<Rightarrow> ((err_t \<times> u32 option) \<times> evw) option"
where
  "Ev_Capture fuel env lst timeout w =
     yield_loop fuel env 0 (Ev_Capture_body (lst, timeout, ew_now w)) () w"

definition Ev_Ack :: "ev_t \<Rightarrow> nat \<Rightarrow> ev_t" where
  "Ev_Ack event lst =
     event\<lparr>ev_listeners := (ev_listeners event)[lst := (ev_listeners event ! lst)\<lparr>l_ev_id := ev_id event\<rparr>]\<rparr>"

definition Ev_ListenEnd :: "ev_t \<Rightarrow> nat \<Rightarrow> ev_t" where
  "Ev_ListenEnd event lst =
     event\<lparr>ev_listeners := (ev_listeners event)[lst := (ev_listeners event ! lst)\<lparr>l_task_id := 0\<rparr>]\<rparr>"

section \<open>Slots\<close>

lemma find_slot_Some:
  "find_slot P i xs = Some j \<Longrightarrow> i \<le> j \<and> j < i + length xs \<and> P (xs ! (j - i)) \<and> (\<forall>k < j - i. \<not> P (xs ! k))"
proof (induction xs arbitrary: i)
  case (Cons x xs)
  show ?case
  proof (cases "P x")
    case False
    then have "find_slot P (Suc i) xs = Some j" using Cons.prems by simp
    from Cons.IH [OF this] False show ?thesis
      by (auto simp: nth_Cons less_Suc_eq_0_disj Suc_diff_le split: nat.splits)
  qed (use Cons.prems in auto)
qed simp

lemma find_slot_None: "find_slot P i xs = None \<longleftrightarrow> (\<forall>x \<in> set xs. \<not> P x)"
  by (induction xs arbitrary: i) auto

lemma find_slot_0:
  "find_slot P 0 xs = Some j \<Longrightarrow> j < length xs \<and> P (xs ! j) \<and> (\<forall>k < j. \<not> P (xs ! k))"
  using find_slot_Some [of P 0 xs j] by simp

text \<open>
  A subscription fills the first empty slot and leaves the others; undoing it restores the array,
  unless the same callback was subscribed before.
\<close>

lemma Ev_Subscribe_undo:
  assumes "Ev_Subscribe e cb = (EOK, e')" "cb \<notin> set (ev_cb e)"
  shows "Ev_Unsubscribe e' cb = (EOK, e)"
proof -
  obtain i where i: "find_slot (\<lambda>c. c = 0) 0 (ev_cb e) = Some i" "e' = e\<lparr>ev_cb := (ev_cb e)[i := cb]\<rparr>"
    using assms(1) by (auto simp: Ev_Subscribe_def err_defs split: option.splits)
  have s: "i < length (ev_cb e)" "ev_cb e ! i = 0" using find_slot_0 [OF i(1)] by auto
  have "find_slot (\<lambda>c. c = cb) 0 ((ev_cb e)[i := cb]) = Some i"
  proof (cases "find_slot (\<lambda>c. c = cb) 0 ((ev_cb e)[i := cb])")
    case None
    then show ?thesis using s by (auto simp: find_slot_None set_update_memI)
  next
    case (Some j)
    have "j < length (ev_cb e)" "(ev_cb e)[i := cb] ! j = cb" using find_slot_0 [OF Some] by auto
    then have "j = i" using assms(2) nth_mem by (metis nth_list_update_neq)
    then show ?thesis using Some by simp
  qed
  then show ?thesis using i s by (simp add: Ev_Unsubscribe_def list_update_same_conv)
qed

lemma Ev_Subscribe_full:
  "Ev_Subscribe e cb = (EFATAL, e') \<Longrightarrow> 0 \<notin> set (ev_cb e) \<and> e' = e"
  using find_slot_None [of "\<lambda>c. c = 0" 0 "ev_cb e"]
  by (auto simp: Ev_Subscribe_def err_defs split: option.splits)

section \<open>The protocol of notifier and listeners\<close>

text \<open>
  The state: the event, whether the notifier is inside \<open>Ev_Notify\<close>, the arguments notified so far, and
  for every listener the arguments captured since it began to listen, the number of events before that, and
  whether it has captured an event that it did not acknowledge yet. Callbacks may change subscriptions,
  but not the listeners or the number of the event (\<open>quiet\<close>).
\<close>

definition quiet :: "(addr \<Rightarrow> u32 \<Rightarrow> ev_t \<Rightarrow> ev_t) \<Rightarrow> bool" where
  "quiet call \<longleftrightarrow> (\<forall>c a e. ev_id (call c a e) = ev_id e \<and> ev_arg (call c a e) = ev_arg e \<and>
     ev_listeners (call c a e) = ev_listeners e)"

record proto =
  pr_ev :: ev_t
  pr_notifying :: bool
  pr_sent :: "u32 list"
  pr_got :: "nat \<Rightarrow> u32 list"
  pr_base :: "nat \<Rightarrow> nat"
  pr_busy :: "nat \<Rightarrow> bool"

inductive ev_step :: "proto \<Rightarrow> proto \<Rightarrow> bool" where
  notify: "quiet call \<Longrightarrow> \<not> pr_notifying s \<Longrightarrow>
    ev_step s (s\<lparr>pr_ev := Ev_Notify_calls call (pr_ev s) arg, pr_notifying := True,
      pr_sent := pr_sent s @ [arg]\<rparr>)"
| notified: "pr_notifying s \<Longrightarrow> Ev_Notify_body () \<lparr>ew_now = now, ew_ev = pr_ev s\<rparr> = Inl ((), w) \<Longrightarrow>
    ev_step s (s\<lparr>pr_notifying := False\<rparr>)"
| listen: "task_id \<noteq> 0 \<Longrightarrow> Ev_Listen (pr_ev s) task_id = (Some i, e) \<Longrightarrow>
    ev_step s (s\<lparr>pr_ev := e, pr_got := (pr_got s)(i := []), pr_base := (pr_base s)(i := length (pr_sent s)),
      pr_busy := (pr_busy s)(i := False)\<rparr>)"
| capture: "i < length (ev_listeners (pr_ev s)) \<Longrightarrow> l_task_id (ev_listeners (pr_ev s) ! i) \<noteq> 0 \<Longrightarrow> \<not> pr_busy s i \<Longrightarrow>
    Ev_Capture_body (i, timeout, ts) () \<lparr>ew_now = now, ew_ev = pr_ev s\<rparr> = Inl ((EOK, Some a), w) \<Longrightarrow>
    ev_step s (s\<lparr>pr_got := (pr_got s)(i := pr_got s i @ [a]), pr_busy := (pr_busy s)(i := True)\<rparr>)"
| ack: "i < length (ev_listeners (pr_ev s)) \<Longrightarrow> pr_busy s i \<Longrightarrow>
    ev_step s (s\<lparr>pr_ev := Ev_Ack (pr_ev s) i, pr_busy := (pr_busy s)(i := False)\<rparr>)"
| listen_end: "i < length (ev_listeners (pr_ev s)) \<Longrightarrow>
    ev_step s (s\<lparr>pr_ev := Ev_ListenEnd (pr_ev s) i, pr_busy := (pr_busy s)(i := False)\<rparr>)"

inductive ev_reach :: "proto \<Rightarrow> bool" where
  start: "list_all (\<lambda>l. l_task_id l = 0) (ev_listeners e) \<Longrightarrow>
    ev_reach \<lparr>pr_ev = e, pr_notifying = False, pr_sent = [], pr_got = (\<lambda>_. []), pr_base = (\<lambda>_. 0),
      pr_busy = (\<lambda>_. False)\<rparr>"
| step: "ev_reach s \<Longrightarrow> ev_step s s' \<Longrightarrow> ev_reach s'"

text \<open>One listener: it is up to date, or the event that the notifier waits for is still to be captured
  or acknowledged.\<close>

definition up_to_date :: "proto \<Rightarrow> nat \<Rightarrow> bool" where
  "up_to_date s i \<longleftrightarrow> pr_base s i \<le> length (pr_sent s) \<and>
     (if l_ev_id (ev_listeners (pr_ev s) ! i) = ev_id (pr_ev s)
      then \<not> pr_busy s i \<and> pr_got s i = drop (pr_base s i) (pr_sent s)
      else pr_notifying s \<and>
           pr_got s i @ (if pr_busy s i then [] else [ev_arg (pr_ev s)]) = drop (pr_base s i) (pr_sent s))"

definition proto_inv :: "proto \<Rightarrow> bool" where
  "proto_inv s \<longleftrightarrow> (\<forall>i < length (ev_listeners (pr_ev s)).
     if l_task_id (ev_listeners (pr_ev s) ! i) \<noteq> 0 then up_to_date s i else \<not> pr_busy s i)"

lemma Ev_Notify_calls_fields:
  assumes "quiet call"
  shows "ev_id (Ev_Notify_calls call e arg) = ev_id e + 1" "ev_arg (Ev_Notify_calls call e arg) = arg"
    "ev_listeners (Ev_Notify_calls call e arg) = ev_listeners e"
proof -
  define f where "f = (\<lambda>i e. if ev_cb e ! i \<noteq> 0 then call (ev_cb e ! i) arg e else e)"
  have "ev_id (fold f is x) = ev_id x \<and> ev_arg (fold f is x) = ev_arg x \<and>
      ev_listeners (fold f is x) = ev_listeners x" for "is" x
    using assms by (induction "is" arbitrary: x) (auto simp: f_def quiet_def)
  then show "ev_id (Ev_Notify_calls call e arg) = ev_id e + 1" "ev_arg (Ev_Notify_calls call e arg) = arg"
    "ev_listeners (Ev_Notify_calls call e arg) = ev_listeners e"
    unfolding Ev_Notify_calls_def f_def [symmetric] by simp_all
qed

lemma proto_invD:
  "proto_inv s \<Longrightarrow> i < length (ev_listeners (pr_ev s)) \<Longrightarrow> l_task_id (ev_listeners (pr_ev s) ! i) \<noteq> 0 \<Longrightarrow> up_to_date s i"
  "proto_inv s \<Longrightarrow> i < length (ev_listeners (pr_ev s)) \<Longrightarrow> l_task_id (ev_listeners (pr_ev s) ! i) = 0 \<Longrightarrow> \<not> pr_busy s i"
  unfolding proto_inv_def by (auto split: if_splits)

lemma proto_inv_update:
  assumes "proto_inv s" and "i < length (ev_listeners (pr_ev s))"
    and "length (ev_listeners (pr_ev s')) = length (ev_listeners (pr_ev s))"
    and "\<And>j. j \<noteq> i \<Longrightarrow> ev_listeners (pr_ev s') ! j = ev_listeners (pr_ev s) ! j \<and>
       pr_busy s' j = pr_busy s j \<and> pr_got s' j = pr_got s j \<and> pr_base s' j = pr_base s j"
    and "ev_id (pr_ev s') = ev_id (pr_ev s)" "ev_arg (pr_ev s') = ev_arg (pr_ev s)"
    and "pr_notifying s' = pr_notifying s" "pr_sent s' = pr_sent s"
    and "if l_task_id (ev_listeners (pr_ev s') ! i) \<noteq> 0 then up_to_date s' i else \<not> pr_busy s' i"
  shows "proto_inv s'"
  unfolding proto_inv_def
proof (intro allI impI)
  fix j assume j: "j < length (ev_listeners (pr_ev s'))"
  show "if l_task_id (ev_listeners (pr_ev s') ! j) \<noteq> 0 then up_to_date s' j else \<not> pr_busy s' j"
  proof (cases "j = i")
    case False
    then have "up_to_date s' j = up_to_date s j" using assms(4) [OF False] assms(5-8) by (simp add: up_to_date_def)
    then show ?thesis using assms(1,3) assms(4) [OF False] j by (simp add: proto_inv_def)
  qed (use assms(9) in simp)
qed

lemma ev_step_inv: "ev_step s s' \<Longrightarrow> proto_inv s \<Longrightarrow> proto_inv s'"
proof (induction rule: ev_step.induct)
  case (notify call s arg)
  let ?s = "s\<lparr>pr_ev := Ev_Notify_calls call (pr_ev s) arg, pr_notifying := True, pr_sent := pr_sent s @ [arg]\<rparr>"
  note f = Ev_Notify_calls_fields [OF notify(1)]
  have "up_to_date ?s i" if "up_to_date s i" for i
  proof -
    have "l_ev_id (ev_listeners (pr_ev s) ! i) = ev_id (pr_ev s)" using that notify(2)
      by (simp add: up_to_date_def split: if_splits)
    then show ?thesis using that by (simp add: up_to_date_def f)
  qed
  then show ?case using proto_invD [OF notify(3)] by (simp add: proto_inv_def f)
next
  case (notified s now w)
  then have "all_done (pr_ev s)" by (simp add: Ev_Notify_body_def split: if_splits)
  then have d: "l_ev_id (ev_listeners (pr_ev s) ! i) = ev_id (pr_ev s)"
    if "i < length (ev_listeners (pr_ev s))" "l_task_id (ev_listeners (pr_ev s) ! i) \<noteq> 0" for i
    using that by (auto simp: all_done_def list_all_length)
  have u: "up_to_date s i \<Longrightarrow> l_ev_id (ev_listeners (pr_ev s) ! i) = ev_id (pr_ev s) \<Longrightarrow>
      up_to_date (s\<lparr>pr_notifying := False\<rparr>) i" for i
    by (simp add: up_to_date_def)
  show ?case
    using proto_invD [OF notified(3)] d u by (simp add: proto_inv_def)
next
  case (listen task_id s i e)
  then have i: "find_slot (\<lambda>l. l_task_id l = 0) 0 (ev_listeners (pr_ev s)) = Some i"
    and e: "e = (pr_ev s)\<lparr>ev_listeners := (ev_listeners (pr_ev s))
          [i := \<lparr>l_task_id = task_id, l_ev_id = ev_id (pr_ev s)\<rparr>]\<rparr>"
    by (auto simp: Ev_Listen_def split: option.splits)
  show ?case
    by (rule proto_inv_update [OF listen(3), of i])
      (use find_slot_0 [OF i] e listen(1) in \<open>auto simp: up_to_date_def\<close>)
next
  case (capture i s timeout ts now a w)
  then have "up_to_date s i" using proto_invD by blast
  moreover have "ev_id (pr_ev s) \<noteq> l_ev_id (ev_listeners (pr_ev s) ! i)" "a = ev_arg (pr_ev s)"
    using capture(4) by (auto simp: Ev_Capture_body_def err_defs split: if_splits)
  ultimately show ?case
    by (intro proto_inv_update [OF capture(5,1)]) (use capture(2,3) in \<open>auto simp: up_to_date_def\<close>)
next
  case (ack i s)
  then have a: "l_task_id (ev_listeners (pr_ev s) ! i) \<noteq> 0" "up_to_date s i" using proto_invD by blast+
  show ?case
    by (rule proto_inv_update [OF ack(3,1)])
      (use a ack(1,2) in \<open>auto simp: up_to_date_def Ev_Ack_def split: if_splits\<close>)
next
  case (listen_end i s)
  show ?case
    by (rule proto_inv_update [OF listen_end(2,1)]) (use listen_end(1) in \<open>auto simp: Ev_ListenEnd_def\<close>)
qed

lemma ev_reach_inv: "ev_reach s \<Longrightarrow> proto_inv s"
proof (induction rule: ev_reach.induct)
  case (start e)
  then show ?case by (simp add: proto_inv_def list_all_length)
qed (rule ev_step_inv)


abbreviation lst4 :: "ev_listener_t list" where "lst4 \<equiv> [\<lparr>l_task_id = 4, l_ev_id = -1\<rparr>]"

lemma ev_reach_example:
  "ev_reach \<lparr>pr_ev = \<lparr>ev_arg = 9, ev_id = 0, ev_cb = replicate 8 0, ev_listeners = lst4\<rparr>,
      pr_notifying = True, pr_sent = [9], pr_got = (\<lambda>_. []), pr_base = (\<lambda>_. 0), pr_busy = (\<lambda>_. False)\<rparr>"
proof -
  let ?e = "\<lparr>ev_arg = 0, ev_id = -1, ev_cb = replicate 8 0, ev_listeners = [\<lparr>l_task_id = 0, l_ev_id = 0\<rparr>]\<rparr>"
  let ?s = "\<lambda>e. \<lparr>pr_ev = e, pr_notifying = False, pr_sent = [], pr_got = (\<lambda>_. []), pr_base = (\<lambda>_. 0),
      pr_busy = (\<lambda>_. False)\<rparr>"
  have "Ev_Listen ?e 4 = (Some 0, ?e\<lparr>ev_listeners := lst4\<rparr>)" by (simp add: Ev_Listen_def)
  then have 1: "ev_step (?s ?e) (?s (?e\<lparr>ev_listeners := lst4\<rparr>))"
    using ev_step.listen [of 4 "?s ?e" 0] by (simp add: fun_upd_idem)
  have "fold (\<lambda>i e. e) xs x = x" for xs :: "nat list" and x :: ev_t by (induction xs) auto
  then have "Ev_Notify_calls (\<lambda>_ _ e. e) (?e\<lparr>ev_listeners := lst4\<rparr>) 9 =
      \<lparr>ev_arg = 9, ev_id = 0, ev_cb = replicate 8 0, ev_listeners = lst4\<rparr>"
    by (simp add: Ev_Notify_calls_def)
  then have 2: "ev_step (?s (?e\<lparr>ev_listeners := lst4\<rparr>))
      \<lparr>pr_ev = \<lparr>ev_arg = 9, ev_id = 0, ev_cb = replicate 8 0, ev_listeners = lst4\<rparr>,
       pr_notifying = True, pr_sent = [9], pr_got = (\<lambda>_. []), pr_base = (\<lambda>_. 0), pr_busy = (\<lambda>_. False)\<rparr>"
    using ev_step.notify [of "\<lambda>_ _ e. e" "?s (?e\<lparr>ev_listeners := lst4\<rparr>)" 9] by (simp add: quiet_def)
  have "ev_reach (?s ?e)" by (rule ev_reach.start) simp
  then show ?thesis using 1 2 ev_reach.step by blast
qed


section \<open>Waiting for an event\<close>

lemma Ev_Wait_body_wait:
  "Ev_Wait_body p l w = Inr (l', w') \<Longrightarrow> w' = w \<and>
     \<not> (0 < fst (snd p) \<and> fst (snd p) < dtime (ew_now w) (snd (snd p)))"
  by (auto simp: Ev_Wait_body_def split: if_splits prod.splits)

interpretation ev_wait: timed_wait ew_now Ev_Wait_body "\<lambda>p. snd (snd p)" "\<lambda>p. fst (snd p)"
  by unfold_locales (auto dest: Ev_Wait_body_wait)

lemma Ev_Capture_body_wait:
  "Ev_Capture_body p l w = Inr (l', w') \<Longrightarrow> w' = w \<and>
     \<not> (0 < fst (snd p) \<and> fst (snd p) < dtime (ew_now w) (snd (snd p)))"
  by (auto simp: Ev_Capture_body_def split: if_splits prod.splits)

interpretation ev_capture: timed_wait ew_now Ev_Capture_body "\<lambda>p. snd (snd p)" "\<lambda>p. fst (snd p)"
  by unfold_locales (auto dest: Ev_Capture_body_wait)

text \<open>With a timeout, \<open>Ev_Wait\<close> returns: with \<open>EOK\<close> after an event, or with \<open>ETIMEOUT\<close> after the timeout.\<close>

lemma Ev_Wait_returns:
  assumes "ticking ew_now d env" and "0 < timeout" and "nat timeout + d < 2 ^ 31"
  shows "\<exists>r w'. Ev_Wait (Suc (nat timeout)) env timeout w = Some (r, w') \<and>
     (r = EOK \<and> ev_id (ew_ev w') \<noteq> ev_id (ew_ev w) \<or>
      r = ETIMEOUT \<and> timeout < dtime (ew_now w') (ew_now w) \<and> ev_id (ew_ev w') = ev_id (ew_ev w))"
proof -
  have "\<exists>r. Ev_Wait (Suc (nat timeout)) env timeout w = Some r"
    using ev_wait.returns_in_time [OF assms(1), of "(ev_id (ew_ev w), timeout, ew_now w)" w 0 "()",
        unfolded fst_conv snd_conv, OF assms(2,3) refl]
    by (simp only: Ev_Wait_def)
  then obtain r w' where y: "Ev_Wait (Suc (nat timeout)) env timeout w = Some (r, w')" by fastforce
  have "r = EOK \<and> ev_id (ew_ev w') \<noteq> ev_id (ew_ev w) \<or>
      r = ETIMEOUT \<and> timeout < dtime (ew_now w') (ew_now w) \<and> ev_id (ew_ev w') = ev_id (ew_ev w)"
    by (rule yield_loop_invariant [where I = "\<lambda>_ _. True", OF y [unfolded Ev_Wait_def]])
      (auto simp: Ev_Wait_body_def split: if_splits)
  then show ?thesis using y by blast
qed

text \<open>\<open>Ev_Notify\<close> returns only when every listener has acknowledged the event.\<close>

lemma Ev_Notify_returns_acked:
  assumes "Ev_Notify call fuel env arg w = Some (u, w')"
  shows "all_done (ew_ev w')"
  by (rule yield_loop_invariant [where I = "\<lambda>_ _. True", OF assms [unfolded Ev_Notify_def]])
    (auto simp: Ev_Notify_body_def split: if_splits)

end
