(* ===== verification/Sys_Yield.thy ===== *)
theory Sys_Yield
  imports Sys_Heap
begin

text \<open>
  The cooperative scheduler, \<^verbatim>\<open>sys/src/yield.c\<close>. Task descriptors live in a store
  \<open>addr \<rightharpoonup> task_t\<close> and are linked into a ring by \<open>next\<close> and \<open>prev\<close>, as in the code; releasing a
  descriptor removes it from the store, so a later access is a fault. \<open>y_mem\<close> is the memory in which the
  stacks lie, by words. The processor part of a context switch (the registers it moves to and from the
  stack) is not modelled: \<open>Yield_PendSVHandler\<close> gets the stack pointer that the assembly part
  leaves and goes up to the choice of the next task. Fields of a new descriptor that the code does not
  initialise have the values \<open>junk\<close> that the memory happens to have. Task numbers are unbounded; the code's
  \<open>int\<close> overflows after \<open>2 ^ 31\<close> tasks.
\<close>

unbundle bit_operations_syntax

section \<open>State\<close>

datatype task_state = TASK_PENDING | TASK_ACTIVE | TASK_DONE

abbreviation TASK_FLAGS_COROUTINE :: u32 where "TASK_FLAGS_COROUTINE \<equiv> 1"

record task_t =
  t_sp :: addr
  t_next :: addr
  t_prev :: addr
  t_state :: task_state
  t_flags :: u32
  t_handler :: addr
  t_handler_arg :: u32
  t_handler_done :: bool
  t_shielded :: bool
  t_cancelled :: bool
  t_stack :: addr
  t_stack_size :: u32
  t_id :: int

record yield_t =
  y_tasks :: "addr \<rightharpoonup> task_t"
  y_curr :: addr
  y_switch_cnt :: u32
  y_task_cnt :: u32
  y_next_id :: int
  y_coros :: "addr list"
  y_heap :: heap_t
  y_mem :: "addr \<Rightarrow> u32"
  y_exec_pc :: u32

abbreviation sizeof_task_frame_basic_t :: u32 where "sizeof_task_frame_basic_t \<equiv> 68"
abbreviation sizeof_task_frame_t :: u32 where "sizeof_task_frame_t \<equiv> 200"
abbreviation sizeof_task_t :: u32 where "sizeof_task_t \<equiv> 48"
abbreviation SYS_CORO_STACK_SIZE :: u32 where "SYS_CORO_STACK_SIZE \<equiv> 256"

definition task_get :: "yield_t \<Rightarrow> addr \<Rightarrow> fault + task_t" where
  "task_get s a =
     (if a = 0 then Inl NullDeref
      else case y_tasks s a of None \<Rightarrow> Inl OutOfBounds | Some t \<Rightarrow> Inr t)"

definition task_upd :: "yield_t \<Rightarrow> addr \<Rightarrow> (task_t \<Rightarrow> task_t) \<Rightarrow> fault + yield_t" where
  "task_upd s a f = bind_res (task_get s a) (\<lambda>t. Inr (s\<lparr>y_tasks := (y_tasks s)(a \<mapsto> f t)\<rparr>))"

text \<open>A call that does not return, as a fault.\<close>

definition returning :: "(fault + 'a) option \<Rightarrow> fault + 'a" where
  "returning m = (case m of None \<Rightarrow> Inl NoReturn | Some r \<Rightarrow> r)"

section \<open>Creating and releasing tasks\<close>

text \<open>
  When the stack cannot be allocated, the code jumps over the declaration of \<open>t\<close> to a \<open>Heap_Free(t)\<close>: a use of
  an uninitialised variable.
\<close>

definition Yield_AllocateTask :: "task_t \<Rightarrow> yield_t \<Rightarrow> u32 \<Rightarrow> fault + addr \<times> yield_t" where
  "Yield_AllocateTask junk s stack_size =
     (let stack_and_frame_size = stack_size + sizeof_task_frame_t
      in bind_res (returning (Heap_Malloc (y_heap s) stack_and_frame_size)) (\<lambda>(stack, h1).
           if stack = 0 then bind_res (Heap_Free h1 stack) (\<lambda>h2. Inl Uninit)
           else bind_res (returning (Heap_Malloc h1 sizeof_task_t)) (\<lambda>(t, h2).
             if t = 0
             then bind_res (Heap_Free h2 stack) (\<lambda>h3. bind_res (Heap_Free h3 t) (\<lambda>h4.
                    Inr (0, s\<lparr>y_heap := h4\<rparr>)))
             else Inr (t, s\<lparr>y_heap := h2, y_tasks := (y_tasks s)(t \<mapsto>
                    junk\<lparr>t_stack := stack, t_stack_size := stack_and_frame_size\<rparr>)\<rparr>))))"

definition Yield_DeallocateTask :: "yield_t \<Rightarrow> addr \<Rightarrow> fault + yield_t" where
  "Yield_DeallocateTask s t =
     bind_res (task_get s t) (\<lambda>r.
     bind_res (Heap_Free (y_heap s) (t_stack r)) (\<lambda>h1.
     bind_res (Heap_Free h1 t) (\<lambda>h2.
     Inr (s\<lparr>y_heap := h2, y_tasks := (y_tasks s)(t := None)\<rparr>))))"

text \<open>The initial stack: the guard word at its lowest address and the frame that the first switch pops.\<close>

definition init_sp :: "addr \<Rightarrow> u32 \<Rightarrow> addr" where
  "init_sp stack stack_size = ((stack + stack_size) AND NOT 7) - sizeof_task_frame_basic_t"

definition init_stack :: "(addr \<Rightarrow> u32) \<Rightarrow> addr \<Rightarrow> addr \<Rightarrow> u32 \<Rightarrow> addr \<Rightarrow> (addr \<Rightarrow> u32)" where
  "init_stack mem stack sp pc t =
     mem(stack := 0xdeadc0de, sp + 64 := 0x01000000, sp + 60 := pc, sp + 56 := 0xdeadc0de,
         sp + 36 := t, sp := 0xFFFFFFFD)"

text \<open>Linking a task into the ring, in front of the current task.\<close>

definition link_task :: "yield_t \<Rightarrow> addr \<Rightarrow> fault + yield_t" where
  "link_task s t =
     (if y_curr s = 0
      then bind_res (task_upd s t (\<lambda>r. r\<lparr>t_next := t, t_prev := t\<rparr>)) (\<lambda>s1. Inr (s1\<lparr>y_curr := t\<rparr>))
      else bind_res (task_get s (y_curr s)) (\<lambda>c.
           bind_res (task_upd s t (\<lambda>r. r\<lparr>t_prev := t_prev c\<rparr>)) (\<lambda>s1.
           bind_res (task_upd s1 t (\<lambda>r. r\<lparr>t_next := y_curr s\<rparr>)) (\<lambda>s2.
           bind_res (task_get s2 (y_curr s)) (\<lambda>c2.
           bind_res (task_upd s2 (t_prev c2) (\<lambda>r. r\<lparr>t_next := t\<rparr>)) (\<lambda>s3.
           task_upd s3 (y_curr s) (\<lambda>r. r\<lparr>t_prev := t\<rparr>)))))))"

definition Yield_InitializeTask :: "yield_t \<Rightarrow> addr \<Rightarrow> addr \<Rightarrow> u32 \<Rightarrow> u32 \<Rightarrow> fault + yield_t" where
  "Yield_InitializeTask s t handler arg flags =
     bind_res (task_get s t) (\<lambda>r.
       let stack = t_stack r; stack_size = t_stack_size r
       in if stack AND 3 \<noteq> 0 then Inl AssertFail
          else if stack_size AND 3 \<noteq> 0 then Inl AssertFail
          else if \<not> stack_size \<ge> sizeof_task_frame_t then Inl AssertFail
          else let sp = init_sp stack stack_size;
                   r' = r\<lparr>t_id := y_next_id s, t_handler := handler, t_handler_arg := arg,
                           t_handler_done := False, t_cancelled := False, t_sp := sp,
                           t_state := TASK_PENDING, t_flags := flags\<rparr>;
                   s1 = s\<lparr>y_tasks := (y_tasks s)(t \<mapsto> r'), y_next_id := y_next_id s + 1,
                           y_mem := init_stack (y_mem s) stack sp (y_exec_pc s) t\<rparr>
               in bind_res (link_task s1 t) (\<lambda>s2. Inr (s2\<lparr>y_task_cnt := y_task_cnt s2 + 1\<rparr>)))"

section \<open>Scheduling\<close>

definition Yield_CheckStack :: "yield_t \<Rightarrow> fault + unit" where
  "Yield_CheckStack s =
     bind_res (task_get s (y_curr s)) (\<lambda>c.
       if \<not> t_sp c > t_stack c then Inl AssertFail
       else if y_mem s (t_stack c) \<noteq> 0xdeadc0de then Inl AssertFail
       else Inr ())"

text \<open>The removal of a completed task \<open>t\<close> that is the current one.\<close>

definition sched_unlink :: "yield_t \<Rightarrow> addr \<Rightarrow> fault + yield_t" where
  "sched_unlink s t =
     bind_res (task_get s t) (\<lambda>r0.
     let s0 = s\<lparr>y_curr := t_next r0\<rparr>
     in bind_res (task_upd s0 (t_prev r0) (\<lambda>r. r\<lparr>t_next := t_next r0\<rparr>)) (\<lambda>s1.
        bind_res (task_get s1 t) (\<lambda>r1.
        bind_res (task_upd s1 (t_next r1) (\<lambda>r. r\<lparr>t_prev := t_prev r1\<rparr>)) (\<lambda>s2.
        bind_res (task_get s2 t) (\<lambda>r2.
          if \<not> (t_prev r2 \<noteq> t \<and> t_next r2 \<noteq> t) then Inl AssertFail
          else bind_res (if t_flags r2 AND TASK_FLAGS_COROUTINE = 0 then Yield_DeallocateTask s2 t
                         else Inr s2) (\<lambda>s3.
               Inr (s3\<lparr>y_task_cnt := y_task_cnt s3 - 1\<rparr>)))))))"

partial_function (option) sched_loop :: "yield_t \<Rightarrow> (fault + yield_t) option" where
  "sched_loop s =
     (case task_get s (y_curr s) of
        Inl e \<Rightarrow> Some (Inl e)
      | Inr c \<Rightarrow>
          (case t_state c of
             TASK_DONE \<Rightarrow>
               (case sched_unlink s (y_curr s) of Inl e \<Rightarrow> Some (Inl e) | Inr s' \<Rightarrow> sched_loop s')
           | TASK_ACTIVE \<Rightarrow>
               sched_loop (s\<lparr>y_tasks := (y_tasks s)(y_curr s \<mapsto> c\<lparr>t_state := TASK_PENDING\<rparr>),
                             y_curr := t_next c\<rparr>)
           | TASK_PENDING \<Rightarrow>
               Some (Inr (s\<lparr>y_tasks := (y_tasks s)(y_curr s \<mapsto> c\<lparr>t_state := TASK_ACTIVE\<rparr>)\<rparr>))))"

definition Yield_Schedule :: "yield_t \<Rightarrow> (fault + yield_t) option" where
  "Yield_Schedule s = sched_loop (s\<lparr>y_switch_cnt := y_switch_cnt s + 1\<rparr>)"

definition Yield_PendSVHandler :: "yield_t \<Rightarrow> addr \<Rightarrow> (fault + yield_t) option" where
  "Yield_PendSVHandler s sp =
     (case task_upd s (y_curr s) (\<lambda>r. r\<lparr>t_sp := sp\<rparr>) of
        Inl e \<Rightarrow> Some (Inl e)
      | Inr s1 \<Rightarrow> (case Yield_CheckStack s1 of Inl e \<Rightarrow> Some (Inl e) | Inr _ \<Rightarrow> Yield_Schedule s1))"

text \<open>\<open>Yield_ExecuteTask\<close> after the handler has returned, up to its first and up to its second context switch.\<close>

definition Yield_ExecuteTask_notify :: "yield_t \<Rightarrow> addr \<Rightarrow> fault + yield_t" where
  "Yield_ExecuteTask_notify s t = task_upd s t (\<lambda>r. r\<lparr>t_handler_done := True\<rparr>)"

definition Yield_ExecuteTask_end :: "yield_t \<Rightarrow> addr \<Rightarrow> fault + yield_t" where
  "Yield_ExecuteTask_end s t = task_upd s t (\<lambda>r. r\<lparr>t_state := TASK_DONE\<rparr>)"

text \<open>\<open>Yield_Start\<close> up to the call of the first handler.\<close>

definition Yield_Start :: "yield_t \<Rightarrow> fault + yield_t" where
  "Yield_Start s =
     (if y_curr s = 0 then Inl AssertFail
      else task_upd s (y_curr s) (\<lambda>c. c\<lparr>t_sp := (t_stack c + t_stack_size c) AND NOT 7,
             t_state := TASK_ACTIVE\<rparr>))"

section \<open>The interface for tasks\<close>

partial_function (option) get_walk :: "yield_t \<Rightarrow> int \<Rightarrow> addr \<Rightarrow> (fault + addr) option" where
  "get_walk s task_id t =
     (case task_get s t of
        Inl e \<Rightarrow> Some (Inl e)
      | Inr r \<Rightarrow>
          if t_id r = task_id then Some (Inr t)
          else if t_next r = y_curr s then Some (Inr 0)
          else get_walk s task_id (t_next r))"

definition Yield_GetTaskByID :: "yield_t \<Rightarrow> int \<Rightarrow> fault + addr" where
  "Yield_GetTaskByID s task_id = returning (get_walk s task_id (y_curr s))"

definition Yield_Task :: "task_t \<Rightarrow> yield_t \<Rightarrow> addr \<Rightarrow> u32 \<Rightarrow> u32 \<Rightarrow> fault + err_t \<times> yield_t" where
  "Yield_Task junk s handler arg stack_size =
     bind_res (Yield_AllocateTask junk s stack_size) (\<lambda>(t, s1).
       if t = 0 then Inr (EFATAL, s1)
       else bind_res (Yield_InitializeTask s1 t handler arg 0) (\<lambda>s2.
            bind_res (task_get s2 t) (\<lambda>r. Inr (t_id r, s2))))"

definition Yield_GetTaskID :: "yield_t \<Rightarrow> fault + int" where
  "Yield_GetTaskID s = bind_res (task_get s (y_curr s)) (\<lambda>c. Inr (t_id c))"

definition Yield_Shield :: "yield_t \<Rightarrow> bool \<Rightarrow> fault + yield_t" where
  "Yield_Shield s enable = task_upd s (y_curr s) (\<lambda>c. c\<lparr>t_shielded := enable\<rparr>)"

definition Yield_Cancel :: "yield_t \<Rightarrow> int \<Rightarrow> fault + err_t \<times> yield_t" where
  "Yield_Cancel s task_id =
     bind_res (Yield_GetTaskByID s task_id) (\<lambda>t.
       if t \<noteq> 0 then bind_res (task_upd s t (\<lambda>r. r\<lparr>t_cancelled := True\<rparr>)) (\<lambda>s1. Inr (EOK, s1))
       else Inr (EFATAL, s))"

text \<open>An array of task numbers ends with a zero.\<close>

fun Yield_CancelAll :: "yield_t \<Rightarrow> int list \<Rightarrow> fault + yield_t" where
  "Yield_CancelAll s [] = Inl OutOfBounds"
| "Yield_CancelAll s (task_id # ids) =
     (if task_id = 0 then Inr s
      else bind_res (Yield_Cancel s task_id) (\<lambda>(_, s1). Yield_CancelAll s1 ids))"

definition Yield_IsCancelled :: "yield_t \<Rightarrow> fault + bool" where
  "Yield_IsCancelled s = bind_res (task_get s (y_curr s)) (\<lambda>c. Inr (\<not> t_shielded c \<and> t_cancelled c))"

text \<open>The waiting operations. The shared state is the clock and the scheduler's state.\<close>

record yworld =
  yw_now :: u32
  yw_y :: yield_t

fun coro_find :: "yield_t \<Rightarrow> nat \<Rightarrow> addr list \<Rightarrow> fault + nat option" where
  "coro_find s i [] = Inr None"
| "coro_find s i (c # cs) =
     (if c = 0 then Inr (Some i)
      else bind_res (task_get s c) (\<lambda>r. if t_state r = TASK_DONE then Inr (Some i) else coro_find s (Suc i) cs))"

definition run_in_slot :: "task_t \<Rightarrow> yield_t \<Rightarrow> nat \<Rightarrow> addr \<Rightarrow> u32 \<Rightarrow> fault + err_t \<times> yield_t" where
  "run_in_slot junk s i handler arg =
     bind_res (if y_coros s ! i = 0
               then bind_res (Yield_AllocateTask junk s SYS_CORO_STACK_SIZE) (\<lambda>(t, s1).
                      Inr (t, s1\<lparr>y_coros := (y_coros s1)[i := t]\<rparr>))
               else Inr (y_coros s ! i, s)) (\<lambda>(t, s1).
       if t = 0 then Inr (EFATAL, s1)
       else bind_res (Yield_InitializeTask s1 t handler arg TASK_FLAGS_COROUTINE) (\<lambda>s2.
            bind_res (task_get s2 t) (\<lambda>r. Inr (t_id r, s2))))"

text \<open>
  The search of \<open>Yield_Run\<close> is a \<open>for\<close> loop with \<open>Yield()\<close> as its step, so it calls \<open>Yield\<close> also after it
  has found a slot: the loop's local is the slot found.
\<close>

definition Yield_Run_body ::
  "task_t \<times> addr \<times> u32 \<Rightarrow> nat option \<Rightarrow> yworld \<Rightarrow> ((fault + err_t) \<times> yworld) + (nat option \<times> yworld)"
where
  "Yield_Run_body p l w =
     (case p of (junk, handler, arg) \<Rightarrow>
       (case l of
          Some i \<Rightarrow> (case run_in_slot junk (yw_y w) i handler arg of
                       Inl e \<Rightarrow> Inl (Inl e, w)
                     | Inr (ec, s) \<Rightarrow> Inl (Inr ec, w\<lparr>yw_y := s\<rparr>))
        | None \<Rightarrow> (case coro_find (yw_y w) 0 (y_coros (yw_y w)) of
                      Inl e \<Rightarrow> Inl (Inl e, w)
                    | Inr r \<Rightarrow> Inr (r, w))))"

definition Yield_Run ::
  "task_t \<Rightarrow> nat \<Rightarrow> (nat \<Rightarrow> yworld \<Rightarrow> yworld) \<Rightarrow> addr \<Rightarrow> u32 \<Rightarrow> yworld \<Rightarrow> ((fault + err_t) \<times> yworld) option"
where
  "Yield_Run junk fuel env handler arg w =
     yield_loop fuel env 0 (Yield_Run_body (junk, handler, arg)) None w"

definition Yield_Wait_body ::
  "addr \<times> int \<times> u32 \<Rightarrow> unit \<Rightarrow> yworld \<Rightarrow> ((fault + err_t) \<times> yworld) + (unit \<times> yworld)"
where
  "Yield_Wait_body p l w =
     (case p of (t, timeout, ts) \<Rightarrow>
       (case task_get (yw_y w) t of
          Inl e \<Rightarrow> Inl (Inl e, w)
        | Inr r \<Rightarrow>
            if t_handler_done r then Inl (Inr EOK, w)
            else if timeout \<noteq> 0 \<and> dtime (yw_now w) ts > timeout then Inl (Inr ETIMEOUT, w)
            else Inr ((), w)))"

definition Yield_Wait ::
  "nat \<Rightarrow> (nat \<Rightarrow> yworld \<Rightarrow> yworld) \<Rightarrow> int \<Rightarrow> int \<Rightarrow> yworld \<Rightarrow> ((fault + err_t) \<times> yworld) option"
where
  "Yield_Wait fuel env task_id timeout w =
     (case Yield_GetTaskByID (yw_y w) task_id of
        Inl e \<Rightarrow> Some (Inl e, w)
      | Inr t \<Rightarrow> if t = 0 then Some (Inr EOK, w)
                else yield_loop fuel env 0 (Yield_Wait_body (t, timeout, yw_now w)) () w)"

text \<open>
  \<open>Yield_WaitAll\<close>: the locals are the numbers still to wait for and, inside a \<open>Yield_Wait\<close>, the task with
  the timeout and the time stamp of that call. \<open>wait_next\<close> runs up to the next call of \<open>Yield\<close>.
\<close>

type_synonym wait_locals = "int list \<times> (addr \<times> int \<times> u32) option"

fun wait_next ::
  "int \<Rightarrow> u32 \<Rightarrow> int list \<Rightarrow> yworld \<Rightarrow> ((fault + err_t) \<times> yworld) + (wait_locals \<times> yworld)"
where
  "wait_next timeout ts [] w = Inl (Inl OutOfBounds, w)"
| "wait_next timeout ts (task_id # ids) w =
     (if task_id = 0 then Inl (Inr EOK, w)
      else case Yield_GetTaskByID (yw_y w) task_id of
             Inl e \<Rightarrow> Inl (Inl e, w)
           | Inr t \<Rightarrow>
               if t = 0 then wait_next timeout ts ids w
               else let tmo = (if timeout \<noteq> 0 then timeout - dtime (yw_now w) ts else 0)
                    in case Yield_Wait_body (t, tmo, yw_now w) () w of
                         Inr _ \<Rightarrow> Inr ((ids, Some (t, tmo, yw_now w)), w)
                       | Inl (Inr ec, _) \<Rightarrow> if ec \<noteq> EOK then Inl (Inr ec, w) else wait_next timeout ts ids w
                       | Inl (Inl e, _) \<Rightarrow> Inl (Inl e, w))"

definition Yield_WaitAll_body ::
  "int \<times> u32 \<Rightarrow> wait_locals \<Rightarrow> yworld \<Rightarrow> ((fault + err_t) \<times> yworld) + (wait_locals \<times> yworld)"
where
  "Yield_WaitAll_body p l w =
     (case p of (timeout, ts) \<Rightarrow>
       (case l of
          (ids, None) \<Rightarrow> wait_next timeout ts ids w
        | (ids, Some q) \<Rightarrow>
            (case Yield_Wait_body q () w of
               Inr _ \<Rightarrow> Inr ((ids, Some q), w)
             | Inl (Inr ec, _) \<Rightarrow> if ec \<noteq> EOK then Inl (Inr ec, w) else wait_next timeout ts ids w
             | Inl (Inl e, _) \<Rightarrow> Inl (Inl e, w))))"

definition Yield_WaitAll ::
  "nat \<Rightarrow> (nat \<Rightarrow> yworld \<Rightarrow> yworld) \<Rightarrow> int list \<Rightarrow> int \<Rightarrow> yworld \<Rightarrow> ((fault + err_t) \<times> yworld) option"
where
  "Yield_WaitAll fuel env task_ids timeout w =
     yield_loop fuel env 0 (Yield_WaitAll_body (timeout, yw_now w)) (task_ids, None) w"

text \<open>
  \<open>Yield_Parallel\<close>: the list of handlers with their arguments, whether the caller passed an array for the task
  numbers, and as locals the handlers left, the slot found by the running \<open>Yield_Run\<close> and the numbers so far.
\<close>

type_synonym par_locals = "(addr \<times> u32) list \<times> nat option \<times> int list"

fun par_next ::
  "task_t \<Rightarrow> bool \<Rightarrow> (addr \<times> u32) list \<Rightarrow> nat option \<Rightarrow> int list \<Rightarrow> yworld \<Rightarrow>
     ((fault + err_t \<times> int list) \<times> yworld) + (par_locals \<times> yworld)"
where
  "par_next junk has_ids [] slot ids w =
     (if has_ids then Inl (Inr (int (length ids), ids @ [0]), w) else Inl (Inl NullDeref, w))"
| "par_next junk has_ids ((handler, arg) # coros) slot ids w =
     (case Yield_Run_body (junk, handler, arg) slot w of
        Inr (slot', w') \<Rightarrow> Inr (((handler, arg) # coros, slot', ids), w')
      | Inl (Inl e, w') \<Rightarrow> Inl (Inl e, w')
      | Inl (Inr ec, w') \<Rightarrow>
          if ec < EOK then Inl (Inr (ec, ids), w') else par_next junk has_ids coros None (ids @ [ec]) w')"

definition Yield_Parallel_body ::
  "task_t \<times> bool \<Rightarrow> par_locals \<Rightarrow> yworld \<Rightarrow> ((fault + err_t \<times> int list) \<times> yworld) + (par_locals \<times> yworld)"
where
  "Yield_Parallel_body p l w =
     (case p of (junk, has_ids) \<Rightarrow> (case l of (coros, slot, ids) \<Rightarrow> par_next junk has_ids coros slot ids w))"

definition Yield_Parallel ::
  "task_t \<Rightarrow> nat \<Rightarrow> (nat \<Rightarrow> yworld \<Rightarrow> yworld) \<Rightarrow> (addr \<times> u32) list \<Rightarrow> bool \<Rightarrow> yworld \<Rightarrow>
     ((fault + err_t \<times> int list) \<times> yworld) option"
where
  "Yield_Parallel junk fuel env coros has_ids w =
     yield_loop fuel env 0 (Yield_Parallel_body (junk, has_ids)) (coros, None, []) w"

section \<open>The ring of tasks\<close>

text \<open>
  \<open>chain m a xs b\<close>: from \<open>a\<close> the links lead through \<open>xs\<close> to \<open>b\<close>, forward and backward. The ring of the
  current task \<open>c\<close> with the others in the order in which they follow is a chain from \<open>c\<close> to itself.
\<close>

abbreviation nx :: "(addr \<rightharpoonup> task_t) \<Rightarrow> addr \<Rightarrow> addr" where "nx m a \<equiv> t_next (the (m a))"
abbreviation pv :: "(addr \<rightharpoonup> task_t) \<Rightarrow> addr \<Rightarrow> addr" where "pv m a \<equiv> t_prev (the (m a))"

fun chain :: "(addr \<rightharpoonup> task_t) \<Rightarrow> addr \<Rightarrow> addr list \<Rightarrow> addr \<Rightarrow> bool" where
  "chain m a [] b \<longleftrightarrow> nx m a = b \<and> pv m b = a"
| "chain m a (x # xs) b \<longleftrightarrow> nx m a = x \<and> pv m x = a \<and> chain m x xs b"

text \<open>
  The scheduler's invariant: the ring holds distinct existing tasks, the current task first, and all tasks
  but the current one are pending.
\<close>

definition st :: "yield_t \<Rightarrow> addr \<Rightarrow> task_state" where
  "st s a = t_state (the (y_tasks s a))"

definition ring :: "yield_t \<Rightarrow> addr list \<Rightarrow> bool" where
  "ring s xs \<longleftrightarrow> (case xs of [] \<Rightarrow> False | c # r \<Rightarrow>
     y_curr s = c \<and> distinct xs \<and> 0 \<notin> set xs \<and> set xs \<subseteq> dom (y_tasks s) \<and>
     chain (y_tasks s) c r c \<and> (\<forall>a \<in> set r. st s a = TASK_PENDING))"

lemma chain_append: "chain m a (xs @ y # ys) b \<longleftrightarrow> chain m a xs y \<and> chain m y ys b"
  by (induction xs arbitrary: a) auto

lemma chain_rotate: "chain m c (x # r) c \<longleftrightarrow> chain m x (r @ [c]) x"
  by (auto simp: chain_append)

lemma chain_cong:
  "chain m a xs b \<Longrightarrow> (\<And>x. x \<in> set (a # xs) \<Longrightarrow> nx m' x = nx m x) \<Longrightarrow>
   (\<And>x. x \<in> set (xs @ [b]) \<Longrightarrow> pv m' x = pv m x) \<Longrightarrow> chain m' a xs b"
  by (induction xs arbitrary: a) auto

lemma chain_redirect:
  "chain m a xs b \<Longrightarrow> distinct (a # xs) \<Longrightarrow> (\<And>x. x \<in> set (a # xs) \<Longrightarrow> x \<noteq> last (a # xs) \<Longrightarrow> nx m' x = nx m x) \<Longrightarrow>
   (\<And>x. x \<in> set xs \<Longrightarrow> pv m' x = pv m x) \<Longrightarrow>
   nx m' (last (a # xs)) = t \<Longrightarrow> pv m' t = last (a # xs) \<Longrightarrow> chain m' a xs t"
proof (induction xs arbitrary: a)
  case (Cons x xs)
  have ne: "a \<noteq> last (x # xs)" using Cons.prems(2) last_in_set [of "x # xs"] by fastforce
  then have "nx m' a = nx m a" using Cons.prems(3) [of a] by simp
  moreover have "chain m' x xs t"
    by (rule Cons.IH) (use Cons.prems in \<open>auto split: if_splits\<close>)
  ultimately show ?case using Cons.prems(1,4) by auto
qed simp

lemma chain_prev: "chain m c r c \<Longrightarrow> pv m c = last (c # r)"
proof -
  have "chain m a r b \<Longrightarrow> pv m b = last (a # r)" for a b
    by (induction r arbitrary: a) auto
  then show "chain m c r c \<Longrightarrow> pv m c = last (c # r)" .
qed

lemma ringD:
  assumes "ring s (c # r)"
  shows "y_curr s = c" "c \<noteq> 0" "c \<in> dom (y_tasks s)" "chain (y_tasks s) c r c" "distinct (c # r)"
    "pv (y_tasks s) c = last (c # r)" "last (c # r) \<noteq> 0" "last (c # r) \<in> dom (y_tasks s)"
    "a \<in> set r \<Longrightarrow> st s a = TASK_PENDING" "a \<in> set r \<Longrightarrow> a \<in> dom (y_tasks s)" "a \<in> set r \<Longrightarrow> a \<noteq> 0"
  using assms chain_prev [of "y_tasks s" c r] last_in_set [of "c # r"] by (auto simp: ring_def simp del: last.simps)

lemma task_get_ok: "a \<noteq> 0 \<Longrightarrow> a \<in> dom (y_tasks s) \<Longrightarrow> task_get s a = Inr (the (y_tasks s a))"
  by (auto simp: task_get_def)

lemma task_upd_ok:
  "a \<noteq> 0 \<Longrightarrow> a \<in> dom (y_tasks s) \<Longrightarrow>
   task_upd s a f = Inr (s\<lparr>y_tasks := (y_tasks s)(a \<mapsto> f (the (y_tasks s a)))\<rparr>)"
  by (simp add: task_upd_def task_get_ok)

text \<open>Changes that keep the links and states of the ring.\<close>

lemma ring_cong:
  assumes "ring s (c # r)" and "y_curr s' = c" and "\<And>a. a \<in> set (c # r) \<Longrightarrow> y_tasks s' a \<noteq> None"
    and "\<And>a. a \<in> set (c # r) \<Longrightarrow> nx (y_tasks s') a = nx (y_tasks s) a \<and> pv (y_tasks s') a = pv (y_tasks s) a"
    and "\<And>a. a \<in> set r \<Longrightarrow> st s' a = TASK_PENDING"
  shows "ring s' (c # r)"
  using assms chain_cong [of "y_tasks s" c r c "y_tasks s'"]
  by (auto simp: ring_def)

section \<open>Joining the ring\<close>

lemma link_task_ring:
  assumes R: "ring s (c # r)" and t: "t \<notin> set (c # r)" "t \<noteq> 0" "t \<in> dom (y_tasks s)" "st s t = TASK_PENDING"
  shows "\<exists>s'. link_task s t = Inr s' \<and> ring s' (c # r @ [t]) \<and> st s' = st s \<and>
     s' = s\<lparr>y_tasks := y_tasks s'\<rparr> \<and> dom (y_tasks s') = dom (y_tasks s) \<and>
     (\<forall>a. t_id (the (y_tasks s' a)) = t_id (the (y_tasks s a)))"
proof -
  let ?m = "y_tasks s" and ?l = "last (c # r)"
  note d = ringD [OF R]
  have lt: "?l \<noteq> t" using t(1) last_in_set [of "c # r"] by auto
  have ct: "c \<noteq> t" using t(1) by auto
  let ?m1 = "?m(t \<mapsto> (the (?m t))\<lparr>t_prev := ?l, t_next := c\<rparr>)"
  let ?m3 = "?m1(?l \<mapsto> (the (?m1 ?l))\<lparr>t_next := t\<rparr>)"
  let ?m4 = "?m3(c \<mapsto> (the (?m3 c))\<lparr>t_prev := t\<rparr>)"
  let ?s = "s\<lparr>y_tasks := ?m4\<rparr>"
  have "link_task s t = Inr ?s"
    using d(1-3,6-8) t(2,3) ct lt
    by (simp add: link_task_def task_get_ok task_upd_ok del: last.simps)
  moreover have fields: "t_state (the (?m4 a)) = t_state (the (?m a))" "t_id (the (?m4 a)) = t_id (the (?m a))" for a
    by (simp_all del: last.simps)
  have "chain ?m4 c r t"
    by (rule chain_redirect [OF d(4,5)]) (use t(1) lt ct d(5) in \<open>auto simp del: last.simps\<close>)
  then have "chain ?m4 c (r @ [t]) c" using lt ct by (simp add: chain_append del: last.simps)
  moreover have "dom ?m4 = dom ?m" using t(3) d(3,8) by auto
  moreover have "\<forall>a \<in> set (r @ [t]). t_state (the (?m4 a)) = TASK_PENDING"
    using R t(4) unfolding fields by (auto simp: ring_def st_def)
  ultimately have "ring ?s (c # r @ [t])" "dom (y_tasks ?s) = dom ?m"
    using R t(1-3) by (auto simp: ring_def st_def simp del: last.simps)
  moreover have "st ?s = st s" using fields(1) by (simp add: st_def fun_eq_iff del: fun_upd_apply)
  ultimately show ?thesis using \<open>link_task s t = Inr ?s\<close> fields(2) by (intro exI [of _ ?s]) simp
qed

text \<open>The asserts of \<open>Yield_InitializeTask\<close>.\<close>

definition stack_ok :: "task_t \<Rightarrow> bool" where
  "stack_ok r \<longleftrightarrow> t_stack r AND 3 = 0 \<and> t_stack_size r AND 3 = 0 \<and> sizeof_task_frame_t \<le> t_stack_size r"

lemma Yield_InitializeTask_ring:
  assumes R: "ring s (c # r)" and t: "t \<notin> set (c # r)" "t \<noteq> 0" "y_tasks s t = Some rec" "stack_ok rec"
  shows "\<exists>s'. Yield_InitializeTask s t handler arg flags = Inr s' \<and> ring s' (c # r @ [t]) \<and>
     st s' = (st s)(t := TASK_PENDING) \<and> dom (y_tasks s') = dom (y_tasks s) \<and>
     t_id (the (y_tasks s' t)) = y_next_id s \<and> y_next_id s' = y_next_id s + 1 \<and>
     y_task_cnt s' = y_task_cnt s + 1"
proof -
  let ?sp = "init_sp (t_stack rec) (t_stack_size rec)"
  let ?r = "rec\<lparr>t_id := y_next_id s, t_handler := handler, t_handler_arg := arg,
     t_handler_done := False, t_cancelled := False, t_sp := ?sp, t_state := TASK_PENDING, t_flags := flags\<rparr>"
  let ?s = "s\<lparr>y_tasks := (y_tasks s)(t \<mapsto> ?r), y_next_id := y_next_id s + 1,
     y_mem := init_stack (y_mem s) (t_stack rec) ?sp (y_exec_pc s) t\<rparr>"
  have R': "ring ?s (c # r)"
    by (rule ring_cong [OF R]) (use ringD(1,3,9,10) [OF R] t(1,3) in \<open>auto simp: st_def\<close>)
  have st: "st ?s = (st s)(t := TASK_PENDING)" by (auto simp: st_def)
  obtain s' where l: "link_task ?s t = Inr s'" "ring s' (c # r @ [t])" "st s' = st ?s"
      "s' = ?s\<lparr>y_tasks := y_tasks s'\<rparr>" "dom (y_tasks s') = dom (y_tasks ?s)"
      "\<forall>a. t_id (the (y_tasks s' a)) = t_id (the (y_tasks ?s a))"
    using link_task_ring [OF R' t(1,2)] by (auto simp: st_def)
  have g: "task_get s t = Inr rec" using t(2,3) by (auto simp: task_get_def)
  have "Yield_InitializeTask s t handler arg flags = Inr (s'\<lparr>y_task_cnt := y_task_cnt s' + 1\<rparr>)"
    using l(1) g t(4) by (simp add: Yield_InitializeTask_def stack_ok_def)
  moreover have "ring (s'\<lparr>y_task_cnt := y_task_cnt s' + 1\<rparr>) (c # r @ [t])"
    using l(2) by (simp add: ring_def st_def)
  moreover have "st (s'\<lparr>y_task_cnt := y_task_cnt s' + 1\<rparr>) = st s'" by (simp add: st_def fun_eq_iff)
  moreover have "y_next_id s' = y_next_id s + 1" "y_task_cnt s' = y_task_cnt s"
    by (subst l(4); simp)+
  moreover have "dom (y_tasks s') = dom (y_tasks s)" using l(5) t(3) by auto
  moreover have "t_id (the (y_tasks s' t)) = y_next_id s" using l(6) by simp
  ultimately show ?thesis using l(3) st by (intro exI [of _ "s'\<lparr>y_task_cnt := y_task_cnt s' + 1\<rparr>"]) simp
qed

section \<open>The scheduler\<close>

lemma sched_loop_pending:
  assumes "ring s (c # r)" "st s c = TASK_PENDING"
  shows "\<exists>s'. sched_loop s = Some (Inr s') \<and> ring s' (c # r) \<and> st s' = (st s)(c := TASK_ACTIVE) \<and>
    dom (y_tasks s') = dom (y_tasks s)"
proof -
  note d = ringD [OF assms(1)]
  let ?s = "s\<lparr>y_tasks := (y_tasks s)(c \<mapsto> (the (y_tasks s c))\<lparr>t_state := TASK_ACTIVE\<rparr>)\<rparr>"
  have "sched_loop s = Some (Inr ?s)"
    using assms(2) d(1-3) by (subst sched_loop.simps) (simp add: task_get_ok st_def)
  moreover have "ring ?s (c # r)"
    by (rule ring_cong [OF assms(1)]) (use d in \<open>auto simp: st_def\<close>)
  moreover have "st ?s = (st s)(c := TASK_ACTIVE)" by (auto simp: st_def)
  moreover have "dom (y_tasks ?s) = dom (y_tasks s)" using d(3) by auto
  ultimately show ?thesis by blast
qed

lemma Yield_Schedule_active:
  assumes "ring s (c # r)" "st s c = TASK_ACTIVE"
  shows "\<exists>s'. Yield_Schedule s = Some (Inr s') \<and> ring s' (r @ [c]) \<and>
    st s' = (st s)(c := TASK_PENDING, hd (r @ [c]) := TASK_ACTIVE) \<and> dom (y_tasks s') = dom (y_tasks s)"
proof -
  note d = ringD [OF assms(1)]
  let ?m = "(y_tasks s)(c \<mapsto> (the (y_tasks s c))\<lparr>t_state := TASK_PENDING\<rparr>)"
  let ?sa = "s\<lparr>y_switch_cnt := y_switch_cnt s + 1\<rparr>"
  let ?s = "?sa\<lparr>y_tasks := ?m, y_curr := nx (y_tasks s) c\<rparr>"
  have g: "task_get ?sa c = Inr (the (y_tasks s c))" using task_get_ok [of c ?sa] d(2,3) by simp
  have step: "Yield_Schedule s = sched_loop ?s"
    unfolding Yield_Schedule_def using assms(2) d(1) g
    by (subst sched_loop.simps) (simp add: st_def)
  have st: "st ?s = (st s)(c := TASK_PENDING)" by (auto simp: st_def)
  have "chain ?m c r c" by (rule chain_cong [OF d(4)]) auto
  moreover have "nx ?m c = nx (y_tasks s) c" by simp
  ultimately have R: "ring ?s (r @ [c])" using assms(1) d(9)
    by (cases r) (auto simp: ring_def st chain_append)
  obtain c' r' where e: "r @ [c] = c' # r'" by (cases r) auto
  have "st ?s c' = TASK_PENDING" using e d(9) unfolding st by (cases r) auto
  moreover have "dom ?m = dom (y_tasks s)" using d(3) by auto
  ultimately show ?thesis
    using sched_loop_pending [OF R [unfolded e]] step unfolding e by (auto simp: st)
qed

text \<open>Removing the current task when it is done.\<close>

lemma sched_unlink_ring:
  assumes R: "ring s (c # x # r)"
  defines "s2 \<equiv> s\<lparr>y_curr := x, y_tasks := (let m1 = (y_tasks s)(last (x # r) \<mapsto>
      (the (y_tasks s (last (x # r))))\<lparr>t_next := x\<rparr>) in m1(x \<mapsto> (the (m1 x))\<lparr>t_prev := last (x # r)\<rparr>))\<rparr>"
  shows "sched_unlink s c = bind_res (if t_flags (the (y_tasks s c)) AND 1 = 0 then Yield_DeallocateTask s2 c else Inr s2)
      (\<lambda>s3. Inr (s3\<lparr>y_task_cnt := y_task_cnt s3 - 1\<rparr>))"
    and "ring s2 (x # r)" and "\<forall>a \<in> set (x # r). st s2 a = TASK_PENDING"
    and "y_tasks s2 c = y_tasks s c" and "dom (y_tasks s2) = dom (y_tasks s)"
    and "y_heap s2 = y_heap s" "y_curr s2 = x"
proof -
  note d = ringD [OF R]
  let ?l = "last (x # r)"
  have l: "?l \<noteq> c" "x \<noteq> c" "?l \<noteq> 0" "?l \<in> dom (y_tasks s)" "pv (y_tasks s) c = ?l" "nx (y_tasks s) c = x"
    using d(4-8) last_in_set [of "x # r"] by (auto simp del: last.simps) (auto)
  let ?m1 = "(y_tasks s)(?l \<mapsto> (the (y_tasks s ?l))\<lparr>t_next := x\<rparr>)"
  let ?m2 = "?m1(x \<mapsto> (the (?m1 x))\<lparr>t_prev := ?l\<rparr>)"
  have s2: "s2 = s\<lparr>y_curr := x, y_tasks := ?m2\<rparr>" by (simp add: s2_def Let_def)
  have x: "x \<noteq> 0" "x \<in> dom (y_tasks s)" using d(10,11) by auto
  show c: "y_tasks s2 c = y_tasks s c" unfolding s2 using l(1,2) by (simp del: last.simps)
  show "sched_unlink s c = bind_res (if t_flags (the (y_tasks s c)) AND 1 = 0 then Yield_DeallocateTask s2 c else Inr s2)
      (\<lambda>s3. Inr (s3\<lparr>y_task_cnt := y_task_cnt s3 - 1\<rparr>))"
    unfolding s2 using l x d(2,3)
    by (simp add: sched_unlink_def task_get_ok task_upd_ok Let_def del: last.simps)
  have "chain (y_tasks s) x r c" using d(4) by simp
  then have ch: "chain ?m2 x r x"
    by (rule chain_redirect) (use d(5) in \<open>auto simp del: last.simps\<close>)
  have stx: "st s2 = st s" unfolding s2 by (auto simp: st_def fun_eq_iff simp del: last.simps)
  show dom: "dom (y_tasks s2) = dom (y_tasks s)" unfolding s2 using l(4) x(2) by (auto simp del: last.simps)
  show pend: "\<forall>a \<in> set (x # r). st s2 a = TASK_PENDING" unfolding stx using d(9) by auto
  show "ring s2 (x # r)" using R pend dom ch unfolding ring_def list.case s2 by auto
  show "y_heap s2 = y_heap s" "y_curr s2 = x" unfolding s2 by simp_all
qed

lemma Yield_DeallocateTask_ring:
  assumes "Yield_DeallocateTask s a = Inr s'" and "ring s (c # r)" and "a \<notin> set (c # r)"
  shows "ring s' (c # r)" "\<forall>b \<in> set (c # r). st s' b = st s b" "y_tasks s' = (y_tasks s)(a := None)"
proof -
  obtain h where s': "s' = s\<lparr>y_heap := h, y_tasks := (y_tasks s)(a := None)\<rparr>"
    using assms(1) by (auto simp: Yield_DeallocateTask_def bind_res_eq_Inr)
  show "y_tasks s' = (y_tasks s)(a := None)" by (simp add: s')
  show st: "\<forall>b \<in> set (c # r). st s' b = st s b" using assms(3) by (auto simp: s' st_def)
  note d = ringD [OF assms(2)]
  show "ring s' (c # r)"
    by (rule ring_cong [OF assms(2)])
      (use assms(3) st d(1,3) d(9,10) in \<open>auto simp: s'\<close>)
qed

lemma sched_loop_done:
  assumes "ring s (c # r)" "st s c = TASK_DONE" "sched_loop s = Some (Inr s')"
  shows "r \<noteq> [] \<and> ring s' r \<and> (\<forall>a \<in> set r. st s' a = (if a = hd r then TASK_ACTIVE else TASK_PENDING)) \<and>
    (t_flags (the (y_tasks s c)) AND 1 = 0 \<longrightarrow> y_tasks s' c = None) \<and>
    dom (y_tasks s') = dom (y_tasks s) - (if t_flags (the (y_tasks s c)) AND 1 = 0 then {c} else {})"
proof (cases r)
  case Nil
  note d = ringD [OF assms(1)]
  have "sched_unlink s c = Inl AssertFail"
    using d(1-4) Nil by (simp add: sched_unlink_def task_get_ok task_upd_ok)
  then show ?thesis using assms(2,3) d(1-3)
    by (subst (asm) sched_loop.simps) (simp add: task_get_ok st_def)
next
  case (Cons x r')
  note d = ringD [OF assms(1)] and R = assms(1) [unfolded Cons]
  define s2 where "s2 = s\<lparr>y_curr := x, y_tasks := (let m1 = (y_tasks s)(last (x # r') \<mapsto>
      (the (y_tasks s (last (x # r'))))\<lparr>t_next := x\<rparr>) in m1(x \<mapsto> (the (m1 x))\<lparr>t_prev := last (x # r')\<rparr>))\<rparr>"
  note u = sched_unlink_ring [OF R, folded s2_def]
  have nin: "c \<notin> set (x # r')" using d(5) Cons by auto
  let ?co = "t_flags (the (y_tasks s c)) AND 1 = 0"
  have "sched_loop s = (case sched_unlink s c of Inl e \<Rightarrow> Some (Inl e) | Inr s' \<Rightarrow> sched_loop s')"
    using assms(2) d(1-3) by (subst sched_loop.simps) (simp add: task_get_ok st_def)
  then obtain s3 where s3: "(if ?co then Yield_DeallocateTask s2 c else Inr s2) = Inr s3"
      and lp: "sched_loop (s3\<lparr>y_task_cnt := y_task_cnt s3 - 1\<rparr>) = Some (Inr s')"
    using assms(3) unfolding u(1) by (auto simp: bind_res_def split: sum.splits if_splits)
  have r3: "ring s3 (x # r')" "\<forall>b \<in> set (x # r'). st s3 b = st s2 b"
      "dom (y_tasks s3) = dom (y_tasks s) - (if ?co then {c} else {})"
  proof -
    have "ring s3 (x # r') \<and> (\<forall>b \<in> set (x # r'). st s3 b = st s2 b) \<and>
        dom (y_tasks s3) = dom (y_tasks s) - (if ?co then {c} else {})"
    proof (cases ?co)
      case True
      then have f: "Yield_DeallocateTask s2 c = Inr s3" using s3 by simp
      note dr = Yield_DeallocateTask_ring [OF f u(2) nin]
      show ?thesis using dr(1,2) True unfolding dr(3) u(5) [symmetric] by simp
    next
      case False
      then have "s3 = s2" using s3 by simp
      then show ?thesis using u(2,5) False by simp
    qed
    then show "ring s3 (x # r')" "\<forall>b \<in> set (x # r'). st s3 b = st s2 b"
      "dom (y_tasks s3) = dom (y_tasks s) - (if ?co then {c} else {})" by blast+
  qed
  have R4: "ring (s3\<lparr>y_task_cnt := y_task_cnt s3 - 1\<rparr>) (x # r')"
    using r3(1) by (simp add: ring_def st_def)
  have st4: "st (s3\<lparr>y_task_cnt := y_task_cnt s3 - 1\<rparr>) = st s3" by (simp add: st_def fun_eq_iff)
  have "st s3 x = TASK_PENDING" using r3(2) u(3) by simp
  then obtain q where q: "sched_loop (s3\<lparr>y_task_cnt := y_task_cnt s3 - 1\<rparr>) = Some (Inr q)" "ring q (x # r')"
      "st q = (st s3)(x := TASK_ACTIVE)" "dom (y_tasks q) = dom (y_tasks s3)"
    using sched_loop_pending [OF R4] unfolding st4 by auto
  then have "q = s'" using lp by simp
  moreover have "\<forall>a \<in> set r'. st q a = TASK_PENDING"
    using q(2) by (simp add: ring_def)
  moreover have "?co \<longrightarrow> c \<notin> dom (y_tasks q)" using r3(3) q(4) by simp
  ultimately show ?thesis using q Cons r3(3) nin by (auto simp: domIff)
qed

text \<open>
  A completed task that is the only one left makes the scheduler fail its assertion; otherwise the
  outcome is that of releasing its memory.
\<close>

lemma Yield_Schedule_switch_cnt:
  assumes "ring s (c # r)"
  shows "ring (s\<lparr>y_switch_cnt := n\<rparr>) (c # r)" "st (s\<lparr>y_switch_cnt := n\<rparr>) = st s"
  using assms by (simp_all add: ring_def st_def fun_eq_iff)

lemma Yield_Schedule_next:
  assumes R: "ring s (c # r)" and ok: "Yield_Schedule s = Some (Inr s')"
  shows "ring s' (case st s c of TASK_ACTIVE \<Rightarrow> r @ [c] | TASK_DONE \<Rightarrow> r | TASK_PENDING \<Rightarrow> c # r)"
    and "st s' (y_curr s') = TASK_ACTIVE"
proof -
  let ?n = "s\<lparr>y_switch_cnt := y_switch_cnt s + 1\<rparr>"
  note n = Yield_Schedule_switch_cnt [OF R, of "y_switch_cnt s + 1"]
  have lp: "sched_loop ?n = Some (Inr s')" using ok by (simp add: Yield_Schedule_def)
  have "ring s' (case st s c of TASK_ACTIVE \<Rightarrow> r @ [c] | TASK_DONE \<Rightarrow> r | TASK_PENDING \<Rightarrow> c # r) \<and>
      st s' (y_curr s') = TASK_ACTIVE"
  proof (cases "st s c")
    case TASK_PENDING
    then obtain q where "sched_loop ?n = Some (Inr q)" "ring q (c # r)" "st q = (st s)(c := TASK_ACTIVE)"
      using sched_loop_pending [OF n(1)] n(2) by auto
    then show ?thesis using lp TASK_PENDING ringD(1) [of s' c r] by auto
  next
    case TASK_ACTIVE
    obtain q where q: "Yield_Schedule s = Some (Inr q)" "ring q (r @ [c])"
        "st q = (st s)(c := TASK_PENDING, hd (r @ [c]) := TASK_ACTIVE)"
      using Yield_Schedule_active [OF R TASK_ACTIVE] by blast
    obtain c' r' where e: "r @ [c] = c' # r'" by (cases r) auto
    then show ?thesis using q ok TASK_ACTIVE ringD(1) [of q c' r'] by auto
  next
    case TASK_DONE
    have st: "st ?n c = TASK_DONE" using n(2) TASK_DONE by (simp only:)
    note q = sched_loop_done [OF n(1) st lp]
    then obtain c' r' where e: "r = c' # r'" by (cases r) auto
    then show ?thesis using q TASK_DONE ringD(1) [of s' c' r'] by auto
  qed
  then show "ring s' (case st s c of TASK_ACTIVE \<Rightarrow> r @ [c] | TASK_DONE \<Rightarrow> r | TASK_PENDING \<Rightarrow> c # r)"
    "st s' (y_curr s') = TASK_ACTIVE" by simp_all
qed

lemma PendSV_prefix:
  assumes R: "ring s (c # r)" and ok: "Yield_PendSVHandler s sp = Some (Inr s')"
  shows "\<exists>s1. ring s1 (c # r) \<and> st s1 = st s \<and> Yield_Schedule s1 = Some (Inr s')"
proof -
  note d = ringD [OF R]
  let ?s = "s\<lparr>y_tasks := (y_tasks s)(c \<mapsto> (the (y_tasks s c))\<lparr>t_sp := sp\<rparr>)\<rparr>"
  have "task_upd s (y_curr s) (\<lambda>r. r\<lparr>t_sp := sp\<rparr>) = Inr ?s" using d(1-3) by (simp add: task_upd_ok)
  then have "Yield_Schedule ?s = Some (Inr s')"
    using ok by (auto simp: Yield_PendSVHandler_def split: sum.splits)
  moreover have "ring ?s (c # r)" by (rule ring_cong [OF R]) (use d(1,3,9,10) in \<open>auto simp: st_def\<close>)
  moreover have "st ?s = st s" by (auto simp: st_def)
  ultimately show ?thesis by blast
qed

section \<open>Fairness\<close>

text \<open>
  Runs of the system, counting context switches. Between two of them the current task may create tasks, come to
  its end, and do anything that leaves links, states and completed handlers alone (\<open>quiet_step\<close>: allocate,
  cancel, shield, read the clock, complete a handler).
\<close>

definition quiet_step :: "yield_t \<Rightarrow> yield_t \<Rightarrow> bool" where
  "quiet_step s s' \<longleftrightarrow> y_curr s' = y_curr s \<and>
     (\<forall>a r. y_tasks s a = Some r \<longrightarrow> (\<exists>r'. y_tasks s' a = Some r' \<and> t_next r' = t_next r \<and> t_prev r' = t_prev r \<and>
        t_state r' = t_state r \<and> (t_handler_done r \<longrightarrow> t_handler_done r')))"

inductive yrun :: "nat \<Rightarrow> yield_t \<Rightarrow> yield_t \<Rightarrow> bool" where
  stop: "yrun 0 s s"
| switch: "yrun n s s1 \<Longrightarrow> Yield_PendSVHandler s1 sp = Some (Inr s2) \<Longrightarrow> yrun (Suc n) s s2"
| create: "yrun n s s1 \<Longrightarrow> \<forall>xs. ring s1 xs \<longrightarrow> t \<notin> set xs \<Longrightarrow> t \<noteq> 0 \<Longrightarrow> y_tasks s1 t = Some rec \<Longrightarrow> stack_ok rec \<Longrightarrow>
    Yield_InitializeTask s1 t handler arg flags = Inr s2 \<Longrightarrow> yrun n s s2"
| finish: "yrun n s s1 \<Longrightarrow> Yield_ExecuteTask_end s1 (y_curr s1) = Inr s2 \<Longrightarrow> yrun n s s2"
| other: "yrun n s s1 \<Longrightarrow> quiet_step s1 s2 \<Longrightarrow> yrun n s s2"

text \<open>What a run keeps of a task that waits at position \<open>i\<close> of the ring.\<close>

definition waits :: "yield_t \<Rightarrow> nat \<Rightarrow> addr \<Rightarrow> bool" where
  "waits s i a \<longleftrightarrow> (\<exists>c r. ring s (c # r) \<and> i < length (c # r) \<and> (c # r) ! i = a \<and> st s c \<noteq> TASK_PENDING)"

lemma quiet_step_ring:
  assumes "ring s (c # r)" "quiet_step s s'"
  shows "ring s' (c # r)" "a \<in> set (c # r) \<Longrightarrow> st s' a = st s a"
proof -
  have q: "\<exists>q q'. y_tasks s a = Some q \<and> y_tasks s' a = Some q' \<and> t_next q' = t_next q \<and> t_prev q' = t_prev q \<and>
      t_state q' = t_state q" if "a \<in> set (c # r)" for a
    using assms that unfolding quiet_step_def by (fastforce simp: ring_def)
  then show st: "st s' a = st s a" if "a \<in> set (c # r)" for a using that by (fastforce simp: st_def)
  show "ring s' (c # r)"
  proof (rule ring_cong [OF assms(1)])
    show "y_curr s' = c" using assms by (simp add: quiet_step_def ring_def)
    show "nx (y_tasks s') a = nx (y_tasks s) a \<and> pv (y_tasks s') a = pv (y_tasks s) a" "y_tasks s' a \<noteq> None"
      if "a \<in> set (c # r)" for a using q [OF that] by auto
    show "st s' a = TASK_PENDING" if "a \<in> set r" for a using st [of a] ringD(9) [OF assms(1) that] that by simp
  qed
qed

lemma waits_quiet: "waits s i a \<Longrightarrow> quiet_step s s' \<Longrightarrow> waits s' i a"
  unfolding waits_def using quiet_step_ring by (metis list.set_intros(1))

lemma waits_create:
  assumes "waits s i a" and "\<forall>xs. ring s xs \<longrightarrow> t \<notin> set xs" "t \<noteq> 0" "y_tasks s t = Some rec" "stack_ok rec"
    and "Yield_InitializeTask s t handler arg flags = Inr s'"
  shows "waits s' i a"
proof -
  obtain c r where R: "ring s (c # r)" "i < length (c # r)" "(c # r) ! i = a" "st s c \<noteq> TASK_PENDING"
    using assms(1) by (auto simp: waits_def)
  have t: "t \<notin> set (c # r)" using assms(2) R(1) by blast
  have "ring s' (c # r @ [t])" "st s' = (st s)(t := TASK_PENDING)"
    using Yield_InitializeTask_ring [OF R(1) t assms(3-5), of handler arg flags] assms(6) by auto
  moreover have "(c # r @ [t]) ! i = a" "i < length (c # r @ [t])"
    using R(2,3) nth_append [of "c # r" "[t]" i] by auto
  moreover have "st s' c \<noteq> TASK_PENDING" using calculation(2) t R(4) by auto
  ultimately show ?thesis unfolding waits_def by blast
qed

lemma waits_finish:
  assumes "waits s i a" and "Yield_ExecuteTask_end s (y_curr s) = Inr s'"
  shows "waits s' i a"
proof -
  obtain c r where R: "ring s (c # r)" "i < length (c # r)" "(c # r) ! i = a" "st s c \<noteq> TASK_PENDING"
    using assms(1) by (auto simp: waits_def)
  note d = ringD [OF R(1)]
  have s': "s' = s\<lparr>y_tasks := (y_tasks s)(c \<mapsto> (the (y_tasks s c))\<lparr>t_state := TASK_DONE\<rparr>)\<rparr>"
    using assms(2) d(1-3) by (simp add: Yield_ExecuteTask_end_def task_upd_ok)
  have "ring s' (c # r)"
    by (rule ring_cong [OF R(1)]) (use d(1,3,5,9,10) in \<open>auto simp: s' st_def\<close>)
  moreover have "st s' c \<noteq> TASK_PENDING" by (simp add: s' st_def)
  ultimately show ?thesis using R(2,3) unfolding waits_def by blast
qed

lemma waits_switch:
  assumes "waits s (Suc i) a" and "Yield_PendSVHandler s sp = Some (Inr s')"
  shows "waits s' i a"
proof -
  obtain c r where R: "ring s (c # r)" "i < length r" "r ! i = a" "st s c \<noteq> TASK_PENDING"
    using assms(1) by (auto simp: waits_def)
  obtain s1 where s1: "ring s1 (c # r)" "st s1 = st s" "Yield_Schedule s1 = Some (Inr s')"
    using PendSV_prefix [OF R(1) assms(2)] by blast
  note n = Yield_Schedule_next [OF s1(1,3)]
  have "\<exists>xs. ring s' (r @ xs)"
    using n(1) R(4) s1(2) by (cases "st s c") (auto intro: exI [of _ "[]"])
  then obtain xs where xs: "ring s' (r @ xs)" ..
  obtain c' r' where e: "r = c' # r'" using R(2) by (cases r) auto
  have "y_curr s' = c'" using xs e by (simp add: ring_def)
  moreover have "(r @ xs) ! i = a" "i < length (r @ xs)" using R(2,3) by (auto simp: nth_append)
  ultimately show ?thesis using xs n(2) e unfolding waits_def by (intro exI [of _ c'] exI [of _ "r' @ xs"]) auto
qed

lemma yrun_waits:
  "yrun n s s' \<Longrightarrow> waits s i a \<Longrightarrow> n \<le> i \<Longrightarrow> waits s' (i - n) a"
proof (induction rule: yrun.induct)
  case (switch n s s1 sp s2)
  then have "waits s1 (Suc (i - Suc n)) a" by (simp add: Suc_diff_Suc)
  then show ?case using waits_switch switch.hyps(2) by blast
qed (auto intro: waits_create waits_finish waits_quiet)

lemma waits_current: "waits s i a \<Longrightarrow> y_curr s = a \<longleftrightarrow> i = 0"
proof -
  assume "waits s i a"
  then obtain c r where r: "y_curr s = c" "distinct (c # r)" "i < length (c # r)" "(c # r) ! i = a"
    by (auto simp: waits_def ring_def)
  then have "(c # r) ! i = (c # r) ! 0 \<longleftrightarrow> i = 0" by (intro nth_eq_iff_index_eq) auto
  then show ?thesis using r(1,4) by auto
qed

text \<open>An example: two tasks, the first one active.\<close>

definition demo_task :: "addr \<Rightarrow> task_state \<Rightarrow> int \<Rightarrow> task_t" where
  "demo_task peer state tid = \<lparr>t_sp = 0x2000, t_next = peer, t_prev = peer, t_state = state, t_flags = 1,
     t_handler = 0, t_handler_arg = 0, t_handler_done = False, t_shielded = False, t_cancelled = False,
     t_stack = 0x1000, t_stack_size = 0x1000, t_id = tid\<rparr>"

definition demo :: yield_t where
  "demo = \<lparr>y_tasks = [0x100 \<mapsto> demo_task 0x200 TASK_ACTIVE 1, 0x200 \<mapsto> demo_task 0x100 TASK_PENDING 2],
     y_curr = 0x100, y_switch_cnt = 0, y_task_cnt = 2, y_next_id = 3, y_coros = [0, 0, 0, 0],
     y_heap = \<lparr>hp_base = 0, hp_blocks = Map.empty, hp_sig = 0\<rparr>, y_mem = (\<lambda>_. 0xdeadc0de), y_exec_pc = 0\<rparr>"

lemma demo_ring: "ring demo [0x100, 0x200]" "st demo (y_curr demo) = TASK_ACTIVE"
  by (simp_all add: ring_def demo_def demo_task_def st_def)

lemma demo_switch: "\<exists>s. Yield_PendSVHandler demo 0x1800 = Some (Inr s)"
  by (simp add: demo_def demo_task_def Yield_PendSVHandler_def task_upd_def task_get_def Yield_CheckStack_def
      Yield_Schedule_def sched_loop.simps)

text \<open>
  C2: Fairness. The scheduler is first come, first served: in any run in which the tasks yield, create
  other tasks, end, cancel or shield, the task at position \<open>i\<close> of the ring (the current task is at
  position 0) runs after exactly \<open>i\<close> context switches and not before.
\<close>

theorem Yield_fair:
  assumes "ring s xs" and "st s (y_curr s) = TASK_ACTIVE" and "i < length xs"
    and "yrun n s s'" and "n \<le> i"
  shows "y_curr s' = xs ! i \<longleftrightarrow> n = i"
proof -
  obtain c r where e: "xs = c # r" using assms(3) by (cases xs) auto
  have "y_curr s = c" using assms(1) e ringD(1) by blast
  then have "waits s i (xs ! i)" unfolding waits_def
    by (intro exI [of _ c] exI [of _ r]) (use assms(1-3) e in auto)
  then have "waits s' (i - n) (xs ! i)" using yrun_waits assms(4,5) by blast
  then show ?thesis using waits_current assms(5) by fastforce
qed

theorem Yield_fair_witness:
  "\<exists>s'. yrun 1 demo s' \<and> (y_curr s' = [0x100, 0x200] ! 1 \<longleftrightarrow> (1 :: nat) = 1)"
proof -
  obtain s' where "yrun (Suc 0) demo s'" using demo_switch yrun.switch [OF yrun.stop] by blast
  then show ?thesis using Yield_fair [OF demo_ring, of 1 1 s'] by auto
qed

text \<open>The end of a handler, once announced, stays announced until the descriptor is released or used again.\<close>

definition keeps_done :: "addr \<Rightarrow> yield_t \<Rightarrow> yield_t \<Rightarrow> bool" where
  "keeps_done a s s' \<longleftrightarrow> (\<forall>r'. y_tasks s' a = Some r' \<longrightarrow>
     (\<exists>r. y_tasks s a = Some r \<and> (t_handler_done r \<longrightarrow> t_handler_done r')))"

lemma keeps_done_refl [simp]: "keeps_done a s s"
  by (simp add: keeps_done_def)

lemma keeps_done_trans [trans]: "keeps_done a s s1 \<Longrightarrow> keeps_done a s1 s2 \<Longrightarrow> keeps_done a s s2"
  unfolding keeps_done_def by blast

lemma keeps_done_fields [simp]:
  "keeps_done a s (s'\<lparr>y_curr := c\<rparr>) = keeps_done a s s'" "keeps_done a s (s'\<lparr>y_switch_cnt := k\<rparr>) = keeps_done a s s'"
  "keeps_done a s (s'\<lparr>y_task_cnt := k\<rparr>) = keeps_done a s s'" "keeps_done a (s\<lparr>y_curr := c\<rparr>) s' = keeps_done a s s'"
  "keeps_done a (s\<lparr>y_switch_cnt := k\<rparr>) s' = keeps_done a s s'"
  by (simp_all add: keeps_done_def)

lemma keeps_done_upd:
  "task_upd s b f = Inr s' \<Longrightarrow> (\<And>r. t_handler_done r \<Longrightarrow> t_handler_done (f r)) \<Longrightarrow> keeps_done a s s'"
  by (auto simp: task_upd_def task_get_def keeps_done_def bind_res_eq_Inr split: option.splits if_splits)

lemma keeps_done_dealloc: "Yield_DeallocateTask s b = Inr s' \<Longrightarrow> keeps_done a s s'"
  by (auto simp: Yield_DeallocateTask_def keeps_done_def bind_res_eq_Inr split: if_splits)

text \<open>The same for a computation that may fail, step by step.\<close>

definition kd :: "addr \<Rightarrow> yield_t \<Rightarrow> fault + yield_t \<Rightarrow> bool" where
  "kd a s m \<longleftrightarrow> (\<forall>s'. m = Inr s' \<longrightarrow> keeps_done a s s')"

lemma kd_Inl [simp]: "kd a s (Inl e)" and kd_Inr [simp]: "kd a s (Inr s') = keeps_done a s s'"
  by (simp_all add: kd_def)

lemma kd_upd: "keeps_done a s s0 \<Longrightarrow> (\<And>r. t_handler_done r \<Longrightarrow> t_handler_done (f r)) \<Longrightarrow> kd a s (task_upd s0 b f)"
  using keeps_done_upd keeps_done_trans unfolding kd_def by metis

lemma kd_dealloc: "keeps_done a s s0 \<Longrightarrow> kd a s (Yield_DeallocateTask s0 b)"
  using keeps_done_dealloc keeps_done_trans unfolding kd_def by metis

lemma kd_bind: "(\<And>x. kd a s (g x)) \<Longrightarrow> kd a s (bind_res m g)"
  by (cases m) auto

lemma kd_bind_state: "kd a s m \<Longrightarrow> (\<And>s1. keeps_done a s s1 \<Longrightarrow> kd a s (g s1)) \<Longrightarrow> kd a s (bind_res m g)"
  by (cases m) auto

lemma kd_unlink: "kd a s (sched_unlink s b)"
  unfolding sched_unlink_def Let_def
  by (rule kd_bind, rule kd_bind_state, (rule kd_upd; simp), rule kd_bind, rule kd_bind_state, (rule kd_upd; simp), rule kd_bind)
    (auto intro!: kd_bind_state [OF kd_dealloc])

lemma keeps_done_unlink: "sched_unlink s b = Inr s' \<Longrightarrow> keeps_done a s s'"
  using kd_unlink [of a s b] by (simp add: kd_def)

lemma keeps_done_state:
  assumes "task_get s b = Inr c"
  shows "keeps_done a s (s\<lparr>y_tasks := (y_tasks s)(b \<mapsto> c\<lparr>t_state := x\<rparr>)\<rparr>)"
  using assms by (auto simp: keeps_done_def task_get_def split: option.splits if_splits)

lemma keeps_done_sched:
  assumes "sched_loop s = Some r" shows "kd a s r"
proof (rule sched_loop.raw_induct [OF _ assms])
  fix loop s r
  assume 1: "\<And>s r. loop s = Some r \<Longrightarrow> kd a s r"
    "(case task_get s (y_curr s) of
        Inl e \<Rightarrow> Some (Inl e)
      | Inr c \<Rightarrow>
          (case t_state c of
             TASK_PENDING \<Rightarrow>
               Some (Inr (s\<lparr>y_tasks := (y_tasks s)(y_curr s \<mapsto> c\<lparr>t_state := TASK_ACTIVE\<rparr>)\<rparr>))
           | TASK_ACTIVE \<Rightarrow>
               loop (s\<lparr>y_tasks := (y_tasks s)(y_curr s \<mapsto> c\<lparr>t_state := TASK_PENDING\<rparr>), y_curr := t_next c\<rparr>)
           | TASK_DONE \<Rightarrow>
               (case sched_unlink s (y_curr s) of Inl e \<Rightarrow> Some (Inl e) | Inr s' \<Rightarrow> loop s'))) = Some r"
  show "kd a s r"
  proof (cases "task_get s (y_curr s)")
    case (Inr c)
    show ?thesis
    proof (cases "t_state c")
      case TASK_PENDING
      then have "r = Inr (s\<lparr>y_tasks := (y_tasks s)(y_curr s \<mapsto> c\<lparr>t_state := TASK_ACTIVE\<rparr>)\<rparr>)"
        using 1(2) Inr by simp
      then show ?thesis using keeps_done_state [OF Inr] by simp
    next
      case TASK_ACTIVE
      then have "kd a (s\<lparr>y_tasks := (y_tasks s)(y_curr s \<mapsto> c\<lparr>t_state := TASK_PENDING\<rparr>), y_curr := t_next c\<rparr>) r"
        using 1(1) 1(2) Inr by simp
      then show ?thesis using keeps_done_trans [OF keeps_done_state [OF Inr, of a TASK_PENDING]] by (simp add: kd_def)
    next
      case TASK_DONE
      show ?thesis
      proof (cases "sched_unlink s (y_curr s)")
        case (Inr s1)
        then have "kd a s1 r" using 1(1) 1(2) \<open>task_get s (y_curr s) = Inr c\<close> TASK_DONE by simp
        then show ?thesis using keeps_done_unlink [OF Inr] keeps_done_trans by (metis kd_def)
      qed (use 1(2) Inr TASK_DONE kd_unlink [of a s] in auto)
    qed
  qed (use 1(2) in auto)
qed

lemma keeps_done_PendSV: "Yield_PendSVHandler s sp = Some (Inr s') \<Longrightarrow> keeps_done a s s'"
proof -
  assume h: "Yield_PendSVHandler s sp = Some (Inr s')"
  obtain s1 where s1: "task_upd s (y_curr s) (\<lambda>r. r\<lparr>t_sp := sp\<rparr>) = Inr s1" "Yield_Schedule s1 = Some (Inr s')"
    using h by (auto simp: Yield_PendSVHandler_def split: sum.splits)
  have "keeps_done a s s1" using keeps_done_upd [OF s1(1)] by simp
  moreover have "keeps_done a s1 s'" using keeps_done_sched [OF s1(2) [unfolded Yield_Schedule_def]] by simp
  ultimately show ?thesis by (rule keeps_done_trans)
qed

lemma keeps_done_link: "link_task s b = Inr s' \<Longrightarrow> keeps_done a s s'"
proof -
  have "kd a s (link_task s b)"
  proof (cases "y_curr s = 0")
    case True
    then show ?thesis unfolding link_task_def
      by (simp, intro kd_bind_state) (auto intro: kd_upd)
  next
    case False
    then show ?thesis unfolding link_task_def if_not_P [OF False]
      by (intro kd_bind kd_bind_state kd_upd) auto
  qed
  then show "link_task s b = Inr s' \<Longrightarrow> keeps_done a s s'" by (simp add: kd_def)
qed

lemma keeps_done_init:
  assumes "Yield_InitializeTask s b handler arg flags = Inr s'" "a \<noteq> b" shows "keeps_done a s s'"
proof -
  obtain r q mem s2 where l: "link_task (s\<lparr>y_tasks := (y_tasks s)(b \<mapsto> q), y_next_id := y_next_id s + 1,
      y_mem := mem\<rparr>) b = Inr s2" "s' = s2\<lparr>y_task_cnt := y_task_cnt s2 + 1\<rparr>"
    using assms(1) by (auto simp: Yield_InitializeTask_def bind_res_eq_Inr Let_def split: if_splits)
  have "keeps_done a s (s\<lparr>y_tasks := (y_tasks s)(b \<mapsto> q), y_next_id := y_next_id s + 1, y_mem := mem\<rparr>)"
    using assms(2) by (simp add: keeps_done_def)
  from keeps_done_trans [OF this keeps_done_link [OF l(1)]] show ?thesis using l(2) by simp
qed

lemma waits_task: "waits s i a \<Longrightarrow> a \<noteq> 0 \<and> y_tasks s a \<noteq> None"
  unfolding waits_def ring_def list.case by (metis domIff nth_mem subsetD)

lemma yrun_done:
  "yrun n s s' \<Longrightarrow> waits s i a \<Longrightarrow> n \<le> i \<Longrightarrow> t_handler_done (the (y_tasks s a)) \<Longrightarrow> t_handler_done (the (y_tasks s' a))"
proof (induction rule: yrun.induct)
  case (stop s)
  then show ?case by simp
next
  case (switch n s s1 sp s2)
  have "waits s2 (i - Suc n) a" using yrun_waits [OF yrun.switch [OF switch.hyps]] switch.prems by simp
  then show ?case
    using switch.IH switch.prems keeps_done_PendSV [OF switch.hyps(2), of a] waits_task [of s2 "i - Suc n" a]
    by (auto simp: keeps_done_def)
next
  case (create n s s1 t rec handler arg flags s2)
  have w: "waits s1 (i - n) a" using yrun_waits [OF create.hyps(1)] create.prems by simp
  then have "a \<noteq> t" using create.hyps(2) unfolding waits_def by (metis nth_mem)
  moreover have "waits s2 (i - n) a" using waits_create [OF w create.hyps(2-6)] .
  ultimately show ?case
    using create.IH create.prems keeps_done_init [OF create.hyps(6), of a] waits_task [of s2 "i - n" a]
    by (auto simp: keeps_done_def)
next
  case (finish n s s1 s2)
  have w: "waits s1 (i - n) a" using yrun_waits [OF finish.hyps(1)] finish.prems by simp
  have "keeps_done a s1 s2"
    using keeps_done_upd [OF finish.hyps(2) [unfolded Yield_ExecuteTask_end_def]] by simp
  then show ?case
    using finish.IH finish.prems waits_task [OF waits_finish [OF w finish.hyps(2)]]
    by (auto simp: keeps_done_def)
next
  case (other n s s1 s2)
  have "waits s1 (i - n) a" using yrun_waits [OF other.hyps(1)] other.prems by simp
  then obtain r where "y_tasks s1 a = Some r" using waits_task by blast
  then show ?case using other.IH other.prems other.hyps(2) unfolding quiet_step_def by fastforce
qed

text \<open>
  C3: A task that ends announces it and yields once before its descriptor may be released. Every other
  task then runs once before, and a \<open>Yield_Wait\<close> that it is in sees the end and returns \<open>EOK\<close>: no
  waiting task ever reads a released descriptor.
\<close>

theorem Yield_Wait_sees_end:
  assumes "ring s (t # r)" and "st s t = TASK_ACTIVE"
    and "Yield_ExecuteTask_notify s t = Inr s1" and "Yield_PendSVHandler s1 sp = Some (Inr s2)"
    and "yrun j s2 s'" and "j < length r"
  shows "y_curr s' = r ! j \<and>
     Yield_Wait_body (t, timeout, ts) () \<lparr>yw_now = now, yw_y = s'\<rparr> = Inl (Inr EOK, \<lparr>yw_now = now, yw_y = s'\<rparr>)"
proof -
  note d = ringD [OF assms(1)]
  have s1: "s1 = s\<lparr>y_tasks := (y_tasks s)(t \<mapsto> (the (y_tasks s t))\<lparr>t_handler_done := True\<rparr>)\<rparr>"
    using assms(3) d(1-3) by (simp add: Yield_ExecuteTask_notify_def task_upd_ok)
  have R1: "ring s1 (t # r)" by (rule ring_cong [OF assms(1)]) (use d in \<open>auto simp: s1 st_def\<close>)
  have st1: "st s1 = st s" by (auto simp: s1 st_def)
  obtain q where q: "ring q (t # r)" "st q = st s1" "Yield_Schedule q = Some (Inr s2)"
    using PendSV_prefix [OF R1 assms(4)] by blast
  note n = Yield_Schedule_next [OF q(1,3)]
  have R2: "ring s2 (r @ [t])" using n(1) q(2) st1 assms(2) by simp
  obtain c r' where e: "r @ [t] = c # r'" by (cases r) auto
  have act: "st s2 c \<noteq> TASK_PENDING" using n(2) ringD(1) [OF R2 [unfolded e]] by simp
  have w: "waits s2 k ((r @ [t]) ! k)" if "k < length (r @ [t])" for k
    using R2 act that e unfolding waits_def by auto
  have wt: "waits s2 (length r) t" using w [of "length r"] by simp
  have "keeps_done t s1 s2" by (rule keeps_done_PendSV [OF assms(4)])
  then have "t_handler_done (the (y_tasks s2 t))"
    using waits_task [OF wt] by (auto simp: keeps_done_def s1)
  then have "t_handler_done (the (y_tasks s' t))"
    using yrun_done [OF assms(5) wt] assms(6) by simp
  moreover have "waits s' (length r - j) t" using yrun_waits [OF assms(5) wt] assms(6) by simp
  then have "task_get s' t = Inr (the (y_tasks s' t))" using waits_task [of s' _ t] task_get_ok by blast
  moreover have "waits s' 0 (r ! j)"
    using yrun_waits [OF assms(5) w [of j]] assms(6) by (simp add: nth_append)
  then have "y_curr s' = r ! j" using waits_current by blast
  ultimately show ?thesis by (simp add: Yield_Wait_body_def)
qed

theorem Yield_Wait_sees_end_witness:
  "\<exists>s'. y_curr s' = [0x200] ! 0 \<and>
     Yield_Wait_body (0x100, 0, 0) () \<lparr>yw_now = 5, yw_y = s'\<rparr> = Inl (Inr EOK, \<lparr>yw_now = 5, yw_y = s'\<rparr>)"
proof -
  let ?s = "demo\<lparr>y_tasks := (y_tasks demo)(0x100 \<mapsto> (the (y_tasks demo 0x100))\<lparr>t_handler_done := True\<rparr>)\<rparr>"
  have n: "Yield_ExecuteTask_notify demo 0x100 = Inr ?s"
    by (simp add: Yield_ExecuteTask_notify_def demo_def task_upd_def task_get_def)
  have "\<exists>s2. Yield_PendSVHandler ?s 0x1800 = Some (Inr s2)"
    by (simp add: demo_def demo_task_def Yield_PendSVHandler_def task_upd_def task_get_def Yield_CheckStack_def
        Yield_Schedule_def sched_loop.simps)
  then obtain s2 where p: "Yield_PendSVHandler ?s 0x1800 = Some (Inr s2)" ..
  have "st demo 0x100 = TASK_ACTIVE" using demo_ring(2) by (simp add: demo_def)
  from Yield_Wait_sees_end [OF demo_ring(1) this n p yrun.stop, of 0 0 5] show ?thesis by auto
qed

section \<open>Tasks by number\<close>

lemma get_walk_chain:
  assumes "chain (y_tasks s) a xs (y_curr s)" and "set (a # xs) \<subseteq> dom (y_tasks s)" and "0 \<notin> set (a # xs)"
    and "y_curr s \<notin> set xs"
  shows "get_walk s i a = Some (Inr (case find (\<lambda>b. t_id (the (y_tasks s b)) = i) (a # xs) of
     Some b \<Rightarrow> b | None \<Rightarrow> 0))"
  using assms
proof (induction xs arbitrary: a)
  case Nil
  then show ?case by (subst get_walk.simps) (auto simp: task_get_ok)
next
  case (Cons x xs)
  have "x \<noteq> y_curr s" using Cons.prems(4) by auto
  then show ?case using Cons
    by (subst get_walk.simps) (auto simp: task_get_ok subset_iff domIff)
qed

lemma Yield_GetTaskByID_ring:
  assumes "ring s xs"
  shows "Yield_GetTaskByID s i = Inr (case find (\<lambda>b. t_id (the (y_tasks s b)) = i) xs of Some b \<Rightarrow> b | None \<Rightarrow> 0)"
proof -
  obtain c r where e: "xs = c # r" using assms by (cases xs) (auto simp: ring_def)
  have "chain (y_tasks s) c r (y_curr s)" "y_curr s = c" "y_curr s \<notin> set r"
    "set (c # r) \<subseteq> dom (y_tasks s)" "0 \<notin> set (c # r)"
    using assms e by (auto simp: ring_def)
  then show ?thesis using get_walk_chain [of s c r i] e by (simp add: Yield_GetTaskByID_def returning_def)
qed

lemma Yield_Cancel_cases:
  assumes R: "ring s xs" and inj: "inj_on (\<lambda>b. t_id (the (y_tasks s b))) (set xs)"
  shows "\<forall>b \<in> set xs. t_id (the (y_tasks s b)) \<noteq> i \<Longrightarrow> Yield_Cancel s i = Inr (EFATAL, s)"
    and "b \<in> set xs \<Longrightarrow> t_id (the (y_tasks s b)) = i \<Longrightarrow>
      \<exists>s'. Yield_Cancel s i = Inr (EOK, s') \<and> ring s' xs \<and>
        (\<forall>a. a \<noteq> b \<longrightarrow> y_tasks s' a = y_tasks s a) \<and>
        Yield_IsCancelled (s'\<lparr>y_curr := b\<rparr>) = Inr (\<not> t_shielded (the (y_tasks s b)))"
proof -
  let ?P = "\<lambda>b. t_id (the (y_tasks s b)) = i"
  show "Yield_Cancel s i = Inr (EFATAL, s)" if "\<forall>b \<in> set xs. t_id (the (y_tasks s b)) \<noteq> i"
  proof -
    have "find ?P xs = None" using that by (simp add: find_None_iff)
    then show ?thesis by (simp add: Yield_Cancel_def Yield_GetTaskByID_ring [OF R])
  qed
  show "\<exists>s'. Yield_Cancel s i = Inr (EOK, s') \<and> ring s' xs \<and> (\<forall>a. a \<noteq> b \<longrightarrow> y_tasks s' a = y_tasks s a) \<and>
        Yield_IsCancelled (s'\<lparr>y_curr := b\<rparr>) = Inr (\<not> t_shielded (the (y_tasks s b)))"
    if b: "b \<in> set xs" "t_id (the (y_tasks s b)) = i"
  proof -
    obtain c r where e: "xs = c # r" using R by (cases xs) (auto simp: ring_def)
    have f: "find ?P xs = Some b"
    proof (cases "find ?P xs")
      case None
      then show ?thesis using b by (auto simp: find_None_iff)
    next
      case (Some d)
      then have "d \<in> set xs" "t_id (the (y_tasks s d)) = i" by (auto simp: find_Some_iff)
      then show ?thesis using Some b inj_onD [OF inj] by auto
    qed
    have bd: "b \<noteq> 0" "b \<in> dom (y_tasks s)" using R b(1) e by (auto simp: ring_def)
    let ?s = "s\<lparr>y_tasks := (y_tasks s)(b \<mapsto> (the (y_tasks s b))\<lparr>t_cancelled := True\<rparr>)\<rparr>"
    have "Yield_Cancel s i = Inr (EOK, ?s)"
      using f bd by (simp add: Yield_Cancel_def Yield_GetTaskByID_ring [OF R] task_upd_ok)
    moreover have "ring ?s xs" unfolding e
      by (rule ring_cong [OF R [unfolded e]])
        (use ringD(1,3,9,10) [OF R [unfolded e]] in \<open>auto simp: st_def\<close>)
    ultimately show ?thesis using bd by (intro exI [of _ ?s]) (simp add: Yield_IsCancelled_def task_get_def)
  qed
qed

text \<open>
  \<open>Yield_Cancel\<close> of a number that a task of the ring has marks this task, and only it, as cancelled, and
  \<open>Yield_IsCancelled\<close> reports it in this task unless it is shielded; a number no task has is refused.
\<close>

theorem Yield_Cancel_correct:
  assumes "ring s xs" and "inj_on (\<lambda>b. t_id (the (y_tasks s b))) (set xs)"
  shows "((\<forall>b \<in> set xs. t_id (the (y_tasks s b)) \<noteq> i) \<longrightarrow> Yield_Cancel s i = Inr (EFATAL, s)) \<and>
    (\<forall>b \<in> set xs. t_id (the (y_tasks s b)) = i \<longrightarrow>
      (\<exists>s'. Yield_Cancel s i = Inr (EOK, s') \<and> ring s' xs \<and>
        (\<forall>a. a \<noteq> b \<longrightarrow> y_tasks s' a = y_tasks s a) \<and>
        Yield_IsCancelled (s'\<lparr>y_curr := b\<rparr>) = Inr (\<not> t_shielded (the (y_tasks s b)))))"
  using Yield_Cancel_cases [OF assms] by blast

theorem Yield_Cancel_correct_witness:
  "\<exists>s'. Yield_Cancel demo 2 = Inr (EOK, s') \<and> ring s' [0x100, 0x200] \<and>
     (\<forall>a. a \<noteq> 0x200 \<longrightarrow> y_tasks s' a = y_tasks demo a) \<and>
     Yield_IsCancelled (s'\<lparr>y_curr := 0x200\<rparr>) = Inr (\<not> False)"
  using Yield_Cancel_correct [OF demo_ring(1), of 2]
  by (simp add: demo_def demo_task_def inj_on_def)

section \<open>Waiting for tasks\<close>

lemma Yield_Wait_body_wait:
  "Yield_Wait_body p l w = Inr (l', w') \<Longrightarrow> w' = w \<and>
     \<not> (0 < fst (snd p) \<and> fst (snd p) < dtime (yw_now w) (snd (snd p)))"
  by (auto simp: Yield_Wait_body_def split: if_splits prod.splits sum.splits)

interpretation task_wait: timed_wait yw_now Yield_Wait_body "\<lambda>p. snd (snd p)" "\<lambda>p. fst (snd p)"
  by unfold_locales (auto dest: Yield_Wait_body_wait)

text \<open>With a timeout, \<open>Yield_Wait\<close> returns after at most \<open>timeout + 1\<close> context switches.\<close>

lemma Yield_Wait_returns:
  assumes "ticking yw_now d env" and "0 < timeout" and "nat timeout + d < 2 ^ 31"
  shows "\<exists>r w'. Yield_Wait (Suc (nat timeout)) env task_id timeout w = Some (r, w')"
proof (cases "Yield_GetTaskByID (yw_y w) task_id")
  case (Inr t)
  have "\<exists>r. yield_loop (Suc (nat timeout)) env 0 (Yield_Wait_body (t, timeout, yw_now w)) () w = Some r"
    using task_wait.returns_in_time [OF assms(1), of "(t, timeout, yw_now w)" w 0 "()",
        unfolded fst_conv snd_conv, OF assms(2,3) refl] .
  then show ?thesis using Inr by (fastforce simp: Yield_Wait_def simp del: yield_loop.simps)
qed (simp add: Yield_Wait_def)

text \<open>
  The timeout of \<open>Yield_WaitAll\<close> can turn into no timeout. The time left for the next task is the
  difference of the timeout and the time passed; when it is exactly zero, it means to \<open>Yield_Wait\<close> to wait
  without limit: 10 ms after the call, the second wait of a call with a timeout of 10 ms is unlimited.
\<close>

theorem Yield_WaitAll_loses_timeout:
  assumes "ring (yw_y w) xs" and "find (\<lambda>b. t_id (the (y_tasks (yw_y w) b)) = 7) xs = Some t"
    and "\<not> t_handler_done (the (y_tasks (yw_y w) t))"
    and "task_get (yw_y w) q = Inr r" and "t_handler_done r"
    and "yw_now w = 10"
  shows "Yield_WaitAll_body (10, 0) ([7, 0], Some (q, 10, 0)) w = Inr (([0], Some (t, 0, 10)), w)"
proof -
  have t: "t \<in> set xs" using assms(2) by (auto simp: find_Some_iff)
  then have "t \<noteq> 0" "t \<in> dom (y_tasks (yw_y w))" using assms(1) by (cases xs; auto simp: ring_def)+
  moreover have "dtime 10 0 = 10" using dtime_of_elapsed [of 10 0] by simp
  ultimately show ?thesis
    using assms(2-6) by (simp add: Yield_WaitAll_body_def Yield_Wait_body_def Yield_GetTaskByID_ring [OF assms(1)]
      task_get_ok Let_def)
qed

theorem Yield_WaitAll_loses_timeout_witness:
  "Yield_WaitAll_body (10, 0) ([7, 0], Some (0x300, 10, 0))
     \<lparr>yw_now = 10, yw_y = demo\<lparr>y_tasks := (y_tasks demo)(0x300 \<mapsto> (demo_task 0 TASK_DONE 5)\<lparr>t_handler_done := True\<rparr>,
        0x200 \<mapsto> demo_task 0x100 TASK_PENDING 7)\<rparr>\<rparr> =
   Inr (([0], Some (0x200, 0, 10)),
     \<lparr>yw_now = 10, yw_y = demo\<lparr>y_tasks := (y_tasks demo)(0x300 \<mapsto> (demo_task 0 TASK_DONE 5)\<lparr>t_handler_done := True\<rparr>,
        0x200 \<mapsto> demo_task 0x100 TASK_PENDING 7)\<rparr>\<rparr>)"
  by (rule Yield_WaitAll_loses_timeout [where xs = "[0x100, 0x200]"
        and r = "(demo_task 0 TASK_DONE 5)\<lparr>t_handler_done := True\<rparr>"])
    (simp_all add: ring_def demo_def demo_task_def st_def task_get_def)

section \<open>Coroutines\<close>

text \<open>
  Two tasks that call \<open>Yield_Run\<close> at the same time can get the same slot, since the search yields once more
  after it has found one. Both find the slot of a completed coroutine (at \<open>0x300\<close>); when the second one
  initialises it after the first, the descriptor is linked to itself. From then on it is the only
  task that runs, and the number the first call returned belongs to no task.
\<close>

definition race :: yield_t where
  "race = demo\<lparr>y_tasks := (y_tasks demo)(0x300 \<mapsto> demo_task 0 TASK_DONE 9), y_coros := [0x300, 0x100, 0x100, 0x100]\<rparr>"

theorem Yield_Run_race:
  "coro_find race 0 (y_coros race) = Inr (Some 0) \<and>
   (\<exists>s1 s2 t. run_in_slot junk race 0 hA argA = Inr (3, s1) \<and> run_in_slot junk s1 0 hB argB = Inr (4, s2) \<and>
      y_tasks s2 0x300 = Some t \<and> t_next t = 0x300 \<and> t_handler t = hB \<and>
      3 \<notin> t_id ` ran (y_tasks s2))"
  by (auto simp: ran_def race_def demo_def demo_task_def coro_find.simps run_in_slot_def task_get_def task_upd_def
      Yield_InitializeTask_def link_task_def Let_def split: if_splits)

text \<open>
  When no memory is left for a stack, \<open>Yield_AllocateTask\<close> reaches the release of a descriptor pointer that
  it has not initialised.
\<close>

theorem Yield_AllocateTask_no_memory:
  assumes "Heap_Malloc (y_heap s) (stack_size + 200) = Some (Inr (0, h))"
  shows "Yield_Task junk s handler arg stack_size = Inl Uninit"
  using assms by (simp add: Yield_Task_def Yield_AllocateTask_def returning_def Heap_Free_def)

theorem Yield_AllocateTask_no_memory_witness:
  "Yield_Task (demo_task 0 TASK_DONE 0) (demo\<lparr>y_heap := \<lparr>hp_base = 16, hp_blocks = [16 \<mapsto> \<lparr>b_used = 1, b_size = 64, b_prev = 0, b_next = 0\<rparr>],
     hp_sig = 0\<rparr>\<rparr>) 0 0 256 = Inl Uninit"
  by (rule Yield_AllocateTask_no_memory) (simp add: heap_eval demo_def)

text \<open>
  A new task's shield flag is whatever its memory holds: \<open>Yield_InitializeTask\<close> sets the
  cancellation flag but not this one, so a task may start out shielded and ignore a cancellation.
\<close>

lemma new_task_shield_junk:
  assumes "ring s (c # r)" and "t \<notin> set (c # r)" "t \<noteq> 0" "y_tasks s t = Some rec" "stack_ok rec"
    and "Yield_InitializeTask s t handler arg flags = Inr s'"
  shows "t_shielded (the (y_tasks s' t)) = t_shielded rec"
proof -
  have "c \<noteq> t" "last (c # r) \<noteq> t" using assms(2) last_in_set [of "c # r"] by auto
  then show ?thesis
    using assms(3-6) ringD(1-3,6-8) [OF assms(1)]
    by (auto simp: Yield_InitializeTask_def link_task_def task_get_ok task_upd_ok stack_ok_def Let_def domIff
        simp del: last.simps)
qed

end
