(* ===== verification/Util_Endian.thy ===== *)
theory Util_Endian
  imports Prelude
begin

text \<open>
  Byte orders: the conversion macros of \<^verbatim>\<open>util/endian.h\<close> and how the processor (little endian) reads and
  writes words in byte buffers, with the lemmas by which a converted word is its big endian bytes. Also the
  small pure helpers \<^verbatim>\<open>util/jenkins.c\<close> and \<^verbatim>\<open>util/lfsr32.c\<close>.
\<close>

unbundle bit_operations_syntax

section \<open>Conversions\<close>

definition HTOBE16 :: "u16 \<Rightarrow> u16" where
  "HTOBE16 x = push_bit 8 (x AND 0xff) OR drop_bit 8 (x AND 0xff00)"

definition HTOBE32 :: "u32 \<Rightarrow> u32" where
  "HTOBE32 x = push_bit 24 (x AND 0x000000ff) OR push_bit 8 (x AND 0x0000ff00) OR
     drop_bit 8 (x AND 0x00ff0000) OR drop_bit 24 (x AND 0xff000000)"

definition HTOBE64 :: "u64 \<Rightarrow> u64" where
  "HTOBE64 x = push_bit 32 (ucast (HTOBE32 (ucast (x AND 0xffffffff)))) OR
     ucast (HTOBE32 (ucast (drop_bit 32 x AND 0xffffffff)))"

text \<open>Words in memory.\<close>

definition le_bytes16 :: "u16 \<Rightarrow> bytes" where
  "le_bytes16 x = [ucast x, ucast (drop_bit 8 x)]"

definition le_bytes32 :: "u32 \<Rightarrow> bytes" where
  "le_bytes32 x = [ucast x, ucast (drop_bit 8 x), ucast (drop_bit 16 x), ucast (drop_bit 24 x)]"

fun le_word16 :: "bytes \<Rightarrow> u16" where
  "le_word16 (a # b # _) = ucast a OR push_bit 8 (ucast b)"
| "le_word16 _ = 0"

fun le_word32 :: "bytes \<Rightarrow> u32" where
  "le_word32 (a # b # c # d # _) =
     ucast a OR push_bit 8 (ucast b) OR push_bit 16 (ucast c) OR push_bit 24 (ucast d)"
| "le_word32 _ = 0"

text \<open>The same in network order.\<close>

definition be_bytes16 :: "u16 \<Rightarrow> bytes" where
  "be_bytes16 x = rev (le_bytes16 x)"

definition be_bytes32 :: "u32 \<Rightarrow> bytes" where
  "be_bytes32 x = rev (le_bytes32 x)"

fun be_word16 :: "bytes \<Rightarrow> u16" where
  "be_word16 (a # b # _) = push_bit 8 (ucast a) OR ucast b"
| "be_word16 _ = 0"

fun be_word32 :: "bytes \<Rightarrow> u32" where
  "be_word32 (a # b # c # d # _) =
     push_bit 24 (ucast a) OR push_bit 16 (ucast b) OR push_bit 8 (ucast c) OR ucast d"
| "be_word32 _ = 0"

section \<open>Hash and random numbers\<close>

fun jenkins_loop :: "u32 \<Rightarrow> bytes \<Rightarrow> u32" where
  "jenkins_loop hash [] = hash"
| "jenkins_loop hash (k # key) =
     (let h1 = hash + ucast k; h2 = h1 + push_bit 10 h1; h3 = h2 XOR drop_bit 6 h2 in jenkins_loop h3 key)"

definition Jenkins_OAAT :: "u32 \<Rightarrow> bytes \<Rightarrow> u32" where
  "Jenkins_OAAT iv key =
     (let hash = jenkins_loop iv key; h1 = hash + push_bit 3 hash; h2 = h1 XOR drop_bit 11 h1
      in h2 + push_bit 15 h2)"

definition LFSR32_Next :: "u32 \<Rightarrow> u32" where
  "LFSR32_Next x =
     (let b = (drop_bit 0 x XOR drop_bit 10 x XOR drop_bit 30 x XOR drop_bit 31 x) AND 1
      in drop_bit 1 x OR push_bit 31 b)"

section \<open>Laws\<close>

text \<open>A conversion undoes itself.\<close>

lemma HTOBE32_twice [simp]: "HTOBE32 (HTOBE32 x) = x"
  by (simp add: word_bits HTOBE32_def bit_simps)

lemma HTOBE16_twice [simp]: "HTOBE16 (HTOBE16 x) = x"
  by (simp add: word_bits HTOBE16_def bit_simps)

lemma le_bytes_length [simp]: "length (le_bytes16 x) = 2" "length (le_bytes32 y) = 4"
  "length (be_bytes16 x) = 2" "length (be_bytes32 y) = 4"
  by (simp_all add: le_bytes16_def le_bytes32_def be_bytes16_def be_bytes32_def)

lemma le_word32_bytes [simp]: "le_word32 (le_bytes32 x @ r) = x"
  unfolding le_bytes32_def append.simps le_word32.simps by (simp add: word_bits bit_simps)

lemma le_word16_bytes [simp]: "le_word16 (le_bytes16 x @ r) = x"
  unfolding le_bytes16_def append.simps le_word16.simps by (simp add: word_bits bit_simps)

lemma be_word32_bytes [simp]: "be_word32 (be_bytes32 x @ r) = x"
  unfolding be_bytes32_def le_bytes32_def rev.simps append.simps be_word32.simps by (simp add: word_bits bit_simps)

lemma be_word16_bytes [simp]: "be_word16 (be_bytes16 x @ r) = x"
  unfolding be_bytes16_def le_bytes16_def rev.simps append.simps be_word16.simps by (simp add: word_bits bit_simps)

lemma be_bytes32_word: "be_bytes32 (be_word32 [a, b, c, d]) = [a, b, c, d]"
  by (simp add: be_bytes32_def le_bytes32_def word_bits bit_simps)

lemma be_bytes16_word: "be_bytes16 (be_word16 [a, b]) = [a, b]"
  by (simp add: be_bytes16_def le_bytes16_def word_bits bit_simps)

text \<open>What the conversions are for: a converted word in memory is the word in network order.\<close>

lemma HTOBE32_bytes: "le_bytes32 (HTOBE32 x) = be_bytes32 x"
  by (simp add: be_bytes32_def le_bytes32_def word_bits HTOBE32_def bit_simps)

lemma HTOBE16_bytes: "le_bytes16 (HTOBE16 x) = be_bytes16 x"
  by (simp add: be_bytes16_def le_bytes16_def word_bits HTOBE16_def bit_simps)

lemma HTOBE32_le_word: "HTOBE32 (le_word32 (a # b # c # d # r)) = be_word32 (a # b # c # d # r)"
  by (simp add: word_bits HTOBE32_def bit_simps)

lemma HTOBE16_le_word: "HTOBE16 (le_word16 (a # b # r)) = be_word16 (a # b # r)"
  by (simp add: word_bits HTOBE16_def bit_simps)

section \<open>The shift register\<close>

lemma LFSR32_inj: "inj LFSR32_Next"
proof (rule injI)
  fix x y assume "LFSR32_Next x = LFSR32_Next y"
  then show "x = y" unfolding LFSR32_Next_def Let_def
    by (simp add: word_bits bit_simps) (elim conjE, simp add: numeral_2_eq_2,
      cases "bit y 10 = (bit y 30 = (\<not> bit y 31))", simp_all)
qed

text \<open>
  The random number generator never gets stuck: each state has exactly one predecessor, and zero is
  followed and preceded by zero only.
\<close>

theorem LFSR32_permutation: "bij LFSR32_Next \<and> (LFSR32_Next x = 0 \<longleftrightarrow> x = 0)"
proof -
  have "surj LFSR32_Next" using LFSR32_inj by (simp add: finite_UNIV_inj_surj)
  moreover have "LFSR32_Next 0 = 0" by (simp add: LFSR32_Next_def)
  ultimately show ?thesis using LFSR32_inj by (metis bij_def injD)
qed

end
