(* ===== verification/Util_String.thy ===== *)
theory Util_String
  imports Prelude
begin

text \<open>
  Memory and string functions, \<^verbatim>\<open>util/src/string.c\<close>. A pointer argument is the list of the bytes from
  the pointer to the end of the object it points into; reading or writing past it is the fault \<open>OutOfBounds\<close>. A
  function that writes returns the new contents of the destination.
\<close>

unbundle bit_operations_syntax

section \<open>Operations\<close>

text \<open>\<open>tolower\<close> of \<^verbatim>\<open>util/src/stdio.c\<close>.\<close>

definition tolower :: "int \<Rightarrow> int" where
  "tolower c = (if c \<ge> 65 \<and> c \<le> 90 then c + 32 else c)"

definition char_diff :: "u8 \<Rightarrow> u8 \<Rightarrow> int" where
  "char_diff a b = tolower (uint a) - tolower (uint b)"

fun memcmp :: "bytes \<Rightarrow> bytes \<Rightarrow> nat \<Rightarrow> fault + int" where
  "memcmp p1 p2 0 = Inr 0"
| "memcmp (a # p1) (b # p2) (Suc num) =
     (if a > b then Inr 1 else if a < b then Inr (-1) else memcmp p1 p2 num)"
| "memcmp _ _ (Suc num) = Inl OutOfBounds"

text \<open>
  \<open>memcpy\<close> is Duff's device: the \<open>switch\<close> enters the loop body of eight copies so that the first round
  copies \<open>size % 8\<close> bytes (eight for a multiple of eight), every further round copies eight.
\<close>

definition copy_bytes :: "nat \<Rightarrow> nat \<times> bytes \<Rightarrow> bytes \<Rightarrow> fault + nat \<times> bytes" where
  "copy_bytes k st src =
     fold (\<lambda>_ r. bind_res r (\<lambda>(i, dst).
        if i < length src \<and> i < length dst then Inr (Suc i, dst[i := src ! i]) else Inl OutOfBounds))
       [0..<k] (Inr st)"

fun duff_rounds :: "nat \<Rightarrow> nat \<Rightarrow> nat \<times> bytes \<Rightarrow> bytes \<Rightarrow> fault + nat \<times> bytes" where
  "duff_rounds entry 0 st src = Inr st"
| "duff_rounds entry (Suc n) st src = bind_res (copy_bytes entry st src) (\<lambda>st'. duff_rounds 8 n st' src)"

definition memcpy :: "bytes \<Rightarrow> bytes \<Rightarrow> u32 \<Rightarrow> fault + bytes" where
  "memcpy dst src sz =
     (let n = (sz + 7) div 8
      in if sz = 0 then Inr dst
         else bind_res (duff_rounds (if sz mod 8 = 0 then 8 else unat (sz mod 8)) (if n = 0 then 2 ^ 32 else unat n) (0, dst) src)
                (\<lambda>(_, dst'). Inr dst'))"

fun memset :: "bytes \<Rightarrow> u8 \<Rightarrow> nat \<Rightarrow> fault + bytes" where
  "memset p v 0 = Inr p"
| "memset [] v (Suc n) = Inl OutOfBounds"
| "memset (x # p) v (Suc n) = bind_res (memset p v n) (\<lambda>q. Inr (v # q))"

fun strlen :: "bytes \<Rightarrow> fault + nat" where
  "strlen [] = Inl OutOfBounds"
| "strlen (c # p) = (if c \<noteq> 0 then bind_res (strlen p) (\<lambda>n. Inr (Suc n)) else Inr 0)"

text \<open>\<open>strnlen\<close> reads a character before it looks at the limit.\<close>

fun strnlen :: "bytes \<Rightarrow> nat \<Rightarrow> fault + nat" where
  "strnlen [] max_len = Inl OutOfBounds"
| "strnlen (c # p) max_len =
     (if c \<noteq> 0 \<and> 0 < max_len then bind_res (strnlen p (max_len - 1)) (\<lambda>n. Inr (Suc n)) else Inr 0)"

fun strcmp :: "bytes \<Rightarrow> bytes \<Rightarrow> fault + int" where
  "strcmp (a # s1) (b # s2) = (if a \<noteq> 0 \<and> a = b then strcmp s1 s2 else Inr (uint a - uint b))"
| "strcmp _ _ = Inl OutOfBounds"

fun strcicmp :: "bytes \<Rightarrow> bytes \<Rightarrow> fault + int" where
  "strcicmp (a # s1) (b # s2) =
     (let d = char_diff a b in if d \<noteq> 0 \<or> a = 0 then Inr d else strcicmp s1 s2)"
| "strcicmp _ _ = Inl OutOfBounds"

text \<open>The local \<open>d\<close> is uninitialised when \<open>max_size\<close> is zero.\<close>

fun strncicmp_loop :: "int option \<Rightarrow> bytes \<Rightarrow> bytes \<Rightarrow> nat \<Rightarrow> fault + int" where
  "strncicmp_loop d a b 0 = (case d of None \<Rightarrow> Inl Uninit | Some x \<Rightarrow> Inr x)"
| "strncicmp_loop d (a # s1) (b # s2) (Suc max_size) =
     (let x = char_diff a b in if x \<noteq> 0 \<or> a = 0 then Inr x else strncicmp_loop (Some x) s1 s2 max_size)"
| "strncicmp_loop d _ _ (Suc max_size) = Inl OutOfBounds"

definition strncicmp :: "bytes \<Rightarrow> bytes \<Rightarrow> nat \<Rightarrow> fault + int" where
  "strncicmp a b max_size = strncicmp_loop None a b max_size"

fun strcpy :: "bytes \<Rightarrow> bytes \<Rightarrow> fault + bytes" where
  "strcpy (x # dst) (c # src) =
     (if c \<noteq> 0 then bind_res (strcpy dst src) (\<lambda>r. Inr (c # r)) else Inr (c # dst))"
| "strcpy _ _ = Inl OutOfBounds"

fun strncpy :: "bytes \<Rightarrow> bytes \<Rightarrow> nat \<Rightarrow> fault + bytes" where
  "strncpy dst src 0 = Inr dst"
| "strncpy (x # dst) (c # src) (Suc n) =
     (if c \<noteq> 0 then bind_res (strncpy dst src n) (\<lambda>r. Inr (c # r))
      else memset (x # dst) 0 (Suc n))"
| "strncpy _ _ (Suc n) = Inl OutOfBounds"

fun strlcpy_loop :: "bytes \<Rightarrow> bytes \<Rightarrow> nat \<Rightarrow> fault + nat \<times> bytes" where
  "strlcpy_loop dst [] n = Inl OutOfBounds"
| "strlcpy_loop [] (c # src) n = Inl OutOfBounds"
| "strlcpy_loop (x # dst) (c # src) n =
     (if c \<noteq> 0 \<and> 0 < n
      then bind_res (strlcpy_loop dst src (n - 1)) (\<lambda>(i, r). Inr (Suc i, c # r))
      else Inr (0, 0 # dst))"

definition strlcpy :: "bytes \<Rightarrow> bytes \<Rightarrow> nat \<Rightarrow> fault + nat \<times> bytes" where
  "strlcpy dst src sz = (if sz = 0 then Inr (0, dst) else strlcpy_loop dst src (sz - 1))"

text \<open>The result of a search is the offset of the match, or none.\<close>

fun strstr_loop :: "nat \<Rightarrow> bytes \<Rightarrow> bytes \<Rightarrow> nat \<Rightarrow> fault + nat option" where
  "strstr_loop i [] s2 n = Inl OutOfBounds"
| "strstr_loop i (c # s1) s2 n =
     (if c \<noteq> 0
      then bind_res (memcmp (c # s1) s2 n) (\<lambda>r. if r = 0 then Inr (Some i) else strstr_loop (Suc i) s1 s2 n)
      else Inr None)"

definition strstr :: "bytes \<Rightarrow> bytes \<Rightarrow> fault + nat option" where
  "strstr s1 s2 = bind_res (strlen s2) (\<lambda>n. strstr_loop 0 s1 s2 n)"

text \<open>
  \<open>strcistr\<close>: the inner loop assigns \<open>d\<close> for every character and looks at it only at its end; the local
  \<open>d\<close> is uninitialised when the first string is empty.
\<close>

fun cistr_inner :: "int \<Rightarrow> bytes \<Rightarrow> bytes \<Rightarrow> fault + int" where
  "cistr_inner d a [] = Inl OutOfBounds"
| "cistr_inner d [] (y # b) = (if y \<noteq> 0 then Inl OutOfBounds else Inr d)"
| "cistr_inner d (x # a) (y # b) = (if y \<noteq> 0 then cistr_inner (char_diff x y) a b else Inr d)"

fun cistr_loop :: "nat \<Rightarrow> int option \<Rightarrow> bytes \<Rightarrow> bytes \<Rightarrow> fault + nat option" where
  "cistr_loop i d [] s2 = Inl OutOfBounds"
| "cistr_loop i d (c # s1) [] = Inl OutOfBounds"
| "cistr_loop i d (c # s1) (k # s2) =
     (if c = 0 then (case d of None \<Rightarrow> Inl Uninit | Some x \<Rightarrow> Inr (if x = 0 then Some i else None))
      else let x = char_diff c k
           in if x \<noteq> 0 then cistr_loop (Suc i) (Some x) s1 (k # s2)
              else bind_res (cistr_inner x s1 s2) (\<lambda>y.
                if y = 0 then Inr (Some i) else cistr_loop (Suc i) (Some y) s1 (k # s2)))"

definition strcistr :: "bytes \<Rightarrow> bytes \<Rightarrow> fault + nat option" where
  "strcistr s1 s2 = cistr_loop 0 None s1 s2"

section \<open>Copying\<close>

lemma copy_bytes_ok:
  "i + k \<le> length src \<Longrightarrow> i + k \<le> length dst \<Longrightarrow>
   copy_bytes k (i, dst) src = Inr (i + k, take i dst @ take k (drop i src) @ drop (i + k) dst)"
proof (induction k)
  case 0
  then show ?case by (simp add: copy_bytes_def)
next
  case (Suc k)
  then have IH: "copy_bytes k (i, dst) src = Inr (i + k, take i dst @ take k (drop i src) @ drop (i + k) dst)" by simp
  have "length (take i dst @ take k (drop i src)) = i + k" using Suc.prems by simp
  moreover have "drop (i + k) dst = dst ! (i + k) # drop (Suc (i + k)) dst"
    using Suc.prems by (simp add: Cons_nth_drop_Suc)
  ultimately have "(take i dst @ take k (drop i src) @ drop (i + k) dst)[i + k := src ! (i + k)] =
      take i dst @ (take k (drop i src) @ [src ! (i + k)]) @ drop (Suc (i + k)) dst"
    by (metis append.assoc append_Cons append_Nil list_update_length)
  moreover have "take k (drop i src) @ [src ! (i + k)] = take (Suc k) (drop i src)"
    using Suc.prems by (simp add: take_Suc_conv_app_nth)
  ultimately show ?case using IH Suc.prems by (simp add: copy_bytes_def)
qed

lemma take_drop_join:
  "i + k \<le> length src \<Longrightarrow> i + k \<le> length dst \<Longrightarrow>
   take (i + k) (take i dst @ take k (drop i src) @ drop (i + k) dst) = take i dst @ take k (drop i src)"
  by simp

lemma duff_rounds_ok:
  "i + e + 8 * n \<le> length src \<Longrightarrow> i + e + 8 * n \<le> length dst \<Longrightarrow>
   duff_rounds e (Suc n) (i, dst) src =
     Inr (i + e + 8 * n, take i dst @ take (e + 8 * n) (drop i src) @ drop (i + e + 8 * n) dst)"
proof (induction n arbitrary: e i dst)
  case 0
  then show ?case by (simp add: copy_bytes_ok)
next
  case (Suc n)
  let ?d = "take i dst @ take e (drop i src) @ drop (i + e) dst"
  have l: "length ?d = length dst" using Suc.prems by simp
  have c: "copy_bytes e (i, dst) src = Inr (i + e, ?d)" using Suc.prems by (intro copy_bytes_ok) auto
  have "duff_rounds e (Suc (Suc n)) (i, dst) src = duff_rounds 8 (Suc n) (i + e, ?d) src"
    using c by (simp only: duff_rounds.simps(2) [of e "Suc n"] bind_res_simps)
  moreover have "duff_rounds 8 (Suc n) (i + e, ?d) src = Inr (i + e + 8 + 8 * n,
      take (i + e) ?d @ take (8 + 8 * n) (drop (i + e) src) @ drop (i + e + 8 + 8 * n) ?d)"
    by (rule Suc.IH) (use Suc.prems l in simp_all)
  moreover have "take (i + e) ?d = take i dst @ take e (drop i src)" using Suc.prems by simp
  moreover have "drop (i + e + 8 + 8 * n) ?d = drop (i + e + 8 + 8 * n) dst"
    using Suc.prems by (simp add: ac_simps)
  moreover have "take e (drop i src) @ take (8 + 8 * n) (drop (i + e) src) = take (e + 8 * Suc n) (drop i src)"
    by (simp add: take_add add.commute add.left_commute)
  moreover have "i + e + 8 * Suc n = i + e + 8 + 8 * n" by simp
  ultimately show ?case by (metis append.assoc)
qed

lemma duff_count:
  fixes n k :: nat
  assumes "(n + 7) div 8 = Suc k"
  shows "n mod 8 = 0 \<Longrightarrow> n = 8 * Suc k" and "n mod 8 \<noteq> 0 \<Longrightarrow> n = n mod 8 + 8 * k"
proof -
  define q r where "q = n div 8" and "r = n mod 8"
  have n: "n = 8 * q + r" "r < 8" by (simp_all add: q_def r_def)
  have "(n + 7) div 8 = q + (r + 7) div 8" unfolding n(1) by simp
  moreover have "(r + 7) div 8 = (if r = 0 then 0 else 1)" using n(2) by auto
  ultimately show "n mod 8 = 0 \<Longrightarrow> n = 8 * Suc k" "n mod 8 \<noteq> 0 \<Longrightarrow> n = n mod 8 + 8 * k"
    using assms n by (auto simp: r_def [symmetric] split: if_splits)
qed

lemma memcpy_duff:
  assumes "unat sz \<le> length src" "unat sz \<le> length dst" "unat sz + 7 < 2 ^ 32"
  shows "memcpy dst src sz = Inr (take (unat sz) src @ drop (unat sz) dst)"
proof (cases "sz = 0")
  case True
  then show ?thesis by (simp add: memcpy_def)
next
  case False
  define e where "e = (if sz mod 8 = 0 then 8 else unat (sz mod 8))"
  have n: "unat ((sz + 7) div 8) = (unat sz + 7) div 8"
    using assms(3) by (simp add: unat_div unat_u32_add)
  have m: "unat (sz mod 8) = unat sz mod 8" by (simp add: unat_mod)
  have pos: "0 < unat sz" using False by (simp add: unat_gt_0)
  have z: "sz mod 8 = 0 \<longleftrightarrow> unat sz mod 8 = 0" using m by (metis unat_eq_zero)
  obtain k where k: "(unat sz + 7) div 8 = Suc k" using pos by (cases "(unat sz + 7) div 8") auto
  have e: "unat sz = e + 8 * k"
  proof (cases "unat sz mod 8 = 0")
    case True
    then have "unat sz = 8 * Suc k" by (rule duff_count [OF k])
    then show ?thesis using True z by (simp add: e_def)
  next
    case False
    then have "unat sz = unat sz mod 8 + 8 * k" by (rule duff_count [OF k])
    then show ?thesis using False z m by (simp add: e_def)
  qed
  have "(sz + 7) div 8 \<noteq> 0" using n k by auto
  then have "memcpy dst src sz = bind_res (duff_rounds e (Suc k) (0, dst) src) (\<lambda>(_, d). Inr d)"
    using False n k by (simp add: memcpy_def e_def Let_def del: duff_rounds.simps)
  also have "\<dots> = Inr (take (unat sz) src @ drop (unat sz) dst)"
    using duff_rounds_ok [of 0 e k src dst] assms(1,2) e by (simp del: duff_rounds.simps)
  finally show ?thesis .
qed

text \<open>
  The unrolled copy loop of \<open>memcpy\<close> copies exactly the first \<open>size\<close> bytes, for every size and
  alignment of the loop's entry, and touches nothing else.
\<close>

theorem memcpy_copies:
  assumes "unat sz \<le> length src" "unat sz \<le> length dst" "unat sz + 7 < 2 ^ 32"
  shows "memcpy dst src sz = mem_write dst 0 (take (unat sz) src)"
  using memcpy_duff [OF assms] assms(1,2) by (simp add: mem_write_def min_def)

theorem memcpy_copies_witness:
  "memcpy (replicate 12 0) [1,2,3,4,5,6,7,8,9,10,11] 11 = mem_write (replicate 12 0) 0 (take 11 [1,2,3,4,5,6,7,8,9,10,11])"
  using memcpy_copies [of 11 "[1,2,3,4,5,6,7,8,9,10,11]" "replicate 12 0"] by simp

lemma memset_ok: "n \<le> length p \<Longrightarrow> memset p v n = Inr (replicate n v @ drop n p)"
  by (induction p v n rule: memset.induct) auto

section \<open>Strings\<close>

text \<open>A zero-terminated string in a buffer.\<close>

definition cstr :: "bytes \<Rightarrow> bytes \<Rightarrow> bool" where
  "cstr buf s \<longleftrightarrow> 0 \<notin> set s \<and> (\<exists>rest. buf = s @ 0 # rest)"

lemma cstr_cases:
  assumes "cstr buf s"
  obtains (empty) rest where "s = []" "buf = 0 # rest"
  | (char) c s' buf' where "s = c # s'" "buf = c # buf'" "c \<noteq> 0" "cstr buf' s'"
  using assms unfolding cstr_def by (cases s) auto

lemma cstr_induct [consumes 1, case_names empty char]:
  assumes "cstr buf s" and "\<And>rest. P (0 # rest) []"
    and "\<And>c buf s. c \<noteq> 0 \<Longrightarrow> cstr buf s \<Longrightarrow> P buf s \<Longrightarrow> P (c # buf) (c # s)"
  shows "P buf s"
  using assms(1)
proof (induction s arbitrary: buf)
  case Nil
  then show ?case using assms(2) by (auto simp: cstr_def)
next
  case (Cons c s)
  then obtain b where "buf = c # b" "c \<noteq> 0" "cstr b s" by (auto simp: cstr_def)
  then show ?case using Cons.IH assms(3) by blast
qed

lemma strlen_ok: "cstr buf s \<Longrightarrow> strlen buf = Inr (length s)"
  by (induction rule: cstr_induct) auto

lemma strlcpy_loop_ok:
  "cstr buf s \<Longrightarrow> min n (length s) < length dst \<Longrightarrow>
   strlcpy_loop dst buf n = Inr (min n (length s), take n s @ 0 # drop (Suc (min n (length s))) dst)"
proof (induction arbitrary: n dst rule: cstr_induct)
  case (empty rest)
  then show ?case by (cases dst) auto
next
  case (char c buf s)
  then obtain x d where d: "dst = x # d" by (cases dst) auto
  show ?case
  proof (cases n)
    case (Suc m)
    then show ?thesis using char.IH [of m d] char.prems char.hyps(1) d by simp
  qed (use d in simp)
qed

text \<open>
  \<open>strlcpy\<close> into a buffer of \<open>size\<close> bytes never leaves the buffer, always terminates the copy, and
  copies the whole string if it fits, else its first \<open>size - 1\<close> characters; it returns the length of
  the copy.
\<close>

theorem strlcpy_bounded:
  assumes "cstr src s" and "0 < sz" and "sz \<le> length dst"
  shows "\<exists>dst'. strlcpy dst src sz = Inr (min (sz - 1) (length s), dst') \<and> length dst' = length dst \<and>
     cstr dst' (take (sz - 1) s) \<and> drop sz dst' = drop sz dst"
proof -
  let ?d = "take (sz - 1) s @ 0 # drop (Suc (min (sz - 1) (length s))) dst"
  have "strlcpy dst src sz = Inr (min (sz - 1) (length s), ?d)"
    using strlcpy_loop_ok [OF assms(1), of "sz - 1" dst] assms(2,3) by (simp add: strlcpy_def min_def)
  moreover have "length ?d = length dst" using assms(2,3) by auto
  moreover have "cstr ?d (take (sz - 1) s)" using assms(1) by (auto simp: cstr_def dest: in_set_takeD)
  moreover have "drop sz ?d = drop sz dst"
  proof -
    have "drop sz (a @ 0 # r) = drop (sz - Suc (length a)) r" if "length a < sz" for a r :: bytes
      using that Suc_diff_Suc [OF that] by (metis append.simps drop_append drop_Suc_Cons drop_all less_imp_le)
    from this [of "take (sz - 1) s" "drop (Suc (min (sz - 1) (length s))) dst"]
    show ?thesis using assms(2) by (simp add: min.commute)
  qed
  ultimately show ?thesis by blast
qed

theorem strlcpy_bounded_witness:
  "\<exists>dst'. strlcpy [9,9,9,9] [65,66,67,68,0] 3 = Inr (min (3 - 1) (length [65,66,67,68 :: u8]), dst') \<and>
     length dst' = length [9,9,9,9 :: u8] \<and>
     cstr dst' (take (3 - 1) [65,66,67,68]) \<and> drop 3 dst' = drop 3 [9,9,9,9]"
  by (rule strlcpy_bounded) (simp_all add: cstr_def)

text \<open>\<open>strcmp\<close> is zero for equal strings only.\<close>

lemma strcmp_ok: "cstr b1 s1 \<Longrightarrow> cstr b2 s2 \<Longrightarrow> \<exists>d. strcmp b1 b2 = Inr d \<and> (d = 0 \<longleftrightarrow> s1 = s2)"
proof (induction arbitrary: b2 s2 rule: cstr_induct)
  case (empty rest)
  from empty.prems show ?case by (cases rule: cstr_cases) (auto simp: word_uint_eq_iff)
next
  case (char c b s)
  note IH = char.IH and c = char.hyps(1)
  from char.prems show ?case
  proof (cases rule: cstr_cases)
    case (char c' s' b')
    then show ?thesis using c IH [of b' s'] by (auto simp: word_uint_eq_iff)
  qed (use c in \<open>auto simp: word_uint_eq_iff\<close>)
qed

definition occurs_at :: "bytes \<Rightarrow> bytes \<Rightarrow> nat \<Rightarrow> bool" where
  "occurs_at s2 s1 k \<longleftrightarrow> take (length s2) (drop k s1) = s2"

lemma memcmp_eq:
  "cstr b2 s2 \<Longrightarrow> cstr b1 s1 \<Longrightarrow> \<exists>d. memcmp b1 b2 (length s2) = Inr d \<and> (d = 0 \<longleftrightarrow> occurs_at s2 s1 0)"
proof (induction arbitrary: b1 s1 rule: cstr_induct)
  case (empty rest)
  then show ?case by (simp add: occurs_at_def)
next
  case (char c b s)
  note IH = char.IH and c = char.hyps(1)
  from char.prems show ?case
  proof (cases rule: cstr_cases)
    case (empty rest)
    moreover have "0 < c" using c by (simp add: word_gt_0)
    ultimately show ?thesis by (auto simp: occurs_at_def)
  next
    case (char c' s' b')
    then show ?thesis using IH [of b' s'] by (auto simp: occurs_at_def)
  qed
qed

lemma find_upt_Suc:
  "find P [0..<Suc n] = (if P 0 then Some 0 else map_option Suc (find (\<lambda>k. P (Suc k)) [0..<n]))"
proof -
  have "[0..<Suc n] = 0 # map Suc [0..<n]" by (simp add: map_Suc_upt upt_conv_Cons del: upt_Suc)
  moreover have "find P (map Suc xs) = map_option Suc (find (\<lambda>k. P (Suc k)) xs)" for xs
    by (induction xs) auto
  ultimately show ?thesis by (simp del: upt_Suc)
qed

lemma strstr_loop_ok:
  assumes "cstr b2 s2"
  shows "cstr b1 s1 \<Longrightarrow>
    strstr_loop i b1 b2 (length s2) = Inr (map_option ((+) i) (find (occurs_at s2 s1) [0..<length s1]))"
proof (induction arbitrary: i rule: cstr_induct)
  case (empty rest)
  then show ?case by simp
next
  case (char c b s)
  have "cstr (c # b) (c # s)" using char.hyps by (auto simp: cstr_def)
  then obtain d where d: "memcmp (c # b) b2 (length s2) = Inr d" "d = 0 \<longleftrightarrow> occurs_at s2 (c # s) 0"
    using memcmp_eq [OF assms] by blast
  have "(\<lambda>k. occurs_at s2 (c # s) (Suc k)) = occurs_at s2 s" by (simp add: occurs_at_def fun_eq_iff)
  then have "find (occurs_at s2 (c # s)) [0..<length (c # s)] =
      (if d = 0 then Some 0 else map_option Suc (find (occurs_at s2 s) [0..<length s]))"
    using d(2) by (simp add: find_upt_Suc del: upt_Suc)
  moreover have "map_option ((+) i) (map_option Suc r) = map_option (\<lambda>a. Suc (i + a)) r" for r
    by (cases r) auto
  ultimately show ?case using char.IH [of "Suc i"] d(1) char.hyps(1) by (simp del: upt_Suc option.map_comp)
qed

text \<open>
  \<open>strstr\<close> of two strings returns the first offset in the first string at which the second one
  occurs, and null if there is none; it reads past the end of neither.
\<close>

theorem strstr_first:
  assumes "cstr b1 s1" and "cstr b2 s2"
  shows "strstr b1 b2 = Inr (find (occurs_at s2 s1) [0..<length s1])"
proof -
  have "map_option ((+) 0) r = r" for r :: "nat option" by (cases r) auto
  then show ?thesis using strstr_loop_ok [OF assms(2,1), of 0] strlen_ok [OF assms(2)] by (simp add: strstr_def)
qed

theorem strstr_first_witness:
  "strstr [97,98,97,99,0] [97,99,0] = Inr (find (occurs_at [97,99] [97,98,97,99]) [0..<length [97,98,97,99 :: u8]])"
  by (rule strstr_first) (simp_all add: cstr_def)

text \<open>
  \<open>strcistr\<close> does not find substrings: only the last character of the inner loop decides. It
  reports a match of \<open>"aXc"\<close> in \<open>"abc"\<close>.
\<close>

theorem strcistr_wrong: "strcistr [97, 98, 99, 0] [97, 88, 99, 0] = Inr (Some 0)"
  by (simp add: strcistr_def char_diff_def tolower_def)

text \<open>Other reads and uses that the code does not guard.\<close>

lemma strnlen_overread: "0 \<notin> set s \<Longrightarrow> strnlen s (length s) = Inl OutOfBounds"
  by (induction s) auto

lemma strncicmp_zero: "strncicmp a b 0 = Inl Uninit"
  by (simp add: strncicmp_def)


section \<open>A copy that returns\<close>

text \<open>A call of \<open>memcpy\<close> that returns has stayed inside both objects, and has copied the bytes.\<close>

lemma copy_bytes_Suc:
  "copy_bytes (Suc k) st src = bind_res (copy_bytes k st src) (\<lambda>(i, dst).
     if i < length src \<and> i < length dst then Inr (Suc i, dst[i := src ! i]) else Inl OutOfBounds)"
  by (simp add: copy_bytes_def)

lemma copy_bytes_Inr:
  "copy_bytes k (i, dst) src = Inr (j, dst') \<Longrightarrow> i \<le> length dst \<Longrightarrow> i \<le> length src \<Longrightarrow>
   length dst' = length dst \<and> j = i + k \<and> j \<le> length dst \<and> j \<le> length src"
proof (induction k arbitrary: j dst')
  case 0
  then show ?case by (simp add: copy_bytes_def)
next
  case (Suc k)
  obtain j' d where c: "copy_bytes k (i, dst) src = Inr (j', d)" and s: "j' < length src" "j' < length d"
      "j = Suc j'" "dst' = d[j' := src ! j']"
    using Suc.prems(1) unfolding copy_bytes_Suc bind_res_eq_Inr by (auto split: prod.splits if_splits)
  from Suc.IH [OF c Suc.prems(2,3)] s show ?case by simp
qed

lemma duff_rounds_Inr:
  "duff_rounds e n (i, dst) src = Inr (j, dst') \<Longrightarrow> i \<le> length dst \<Longrightarrow> i \<le> length src \<Longrightarrow>
   length dst' = length dst \<and> j = i + (if n = 0 then 0 else e + 8 * (n - 1)) \<and> j \<le> length dst \<and> j \<le> length src"
proof (induction n arbitrary: e i dst)
  case 0
  then show ?case by simp
next
  case (Suc n)
  then obtain i' d where c: "copy_bytes e (i, dst) src = Inr (i', d)" and r: "duff_rounds 8 n (i', d) src = Inr (j, dst')"
    by (auto simp: bind_res_eq_Inr)
  have c': "length d = length dst" "i' = i + e" "i' \<le> length dst" "i' \<le> length src"
    using copy_bytes_Inr [OF c Suc.prems(2,3)] by auto
  show ?case using Suc.IH [OF r] c' by (cases n) auto
qed

lemma memcpy_Inr:
  assumes m: "memcpy dst src sz = Inr r" and "length dst < 2 ^ 31"
  shows "unat sz \<le> length dst" "unat sz \<le> length src" "r = take (unat sz) src @ drop (unat sz) dst"
proof -
  let ?N = "if (sz + 7) div 8 = 0 then 2 ^ 32 else unat ((sz + 7) div 8)"
  let ?e = "if sz mod 8 = 0 then 8 else unat (sz mod 8)"
  have "unat sz \<le> length dst \<and> unat sz \<le> length src"
  proof (cases "sz = 0")
    case False
    then obtain j d where d: "duff_rounds ?e ?N (0, dst) src = Inr (j, d)"
      using m by (auto simp: memcpy_def Let_def bind_res_eq_Inr)
    have j: "j = (if ?N = 0 then 0 else ?e + 8 * (?N - 1))" "j \<le> length dst" "j \<le> length src"
      using duff_rounds_Inr [OF d] by auto
    have N: "?N \<noteq> 0" by (simp add: unat_gt_0)
    have small: "?N < 2 ^ 29" using j(1,2) N assms(2) by (simp del: One_nat_def)
    then have nz: "(sz + 7) div 8 \<noteq> 0" by (auto split: if_splits)
    have "unat sz + 7 < 2 ^ 32"
    proof (rule ccontr)
      assume "\<not> unat sz + 7 < 2 ^ 32"
      moreover have "unat sz < 2 ^ 32" using unsigned_less [of sz] by simp
      ultimately have "unat (sz + 7) < 8" by (simp add: unat_word_ariths mod_if) linarith
      then have "unat ((sz + 7) div 8) = 0" by (simp add: unat_div)
      with nz show False by (simp add: unat_eq_zero)
    qed
    then have n: "unat ((sz + 7) div 8) = (unat sz + 7) div 8" by (simp add: unat_div unat_u32_add)
    then obtain k where k: "(unat sz + 7) div 8 = Suc k" using nz by (cases "(unat sz + 7) div 8") (auto simp: unat_eq_zero)
    have mm: "unat (sz mod 8) = unat sz mod 8" by (simp add: unat_mod)
    have z: "sz mod 8 = 0 \<longleftrightarrow> unat sz mod 8 = 0" using mm by (metis unat_eq_zero)
    have "j = ?e + 8 * k" using j(1) N nz n k by simp
    moreover have "unat sz = ?e + 8 * k"
      using duff_count [OF k] mm by (simp only: z split: if_split) simp
    ultimately show ?thesis using j by simp
  qed simp
  then show le: "unat sz \<le> length dst" "unat sz \<le> length src" by auto
  show "r = take (unat sz) src @ drop (unat sz) dst" using m memcpy_duff [OF le(2,1)] le assms(2) by simp
qed
end
