(* ===== verification/Util_Base64.thy ===== *)
theory Util_Base64
  imports Prelude
begin

text \<open>
  Base64, \<^verbatim>\<open>util/src/base64.c\<close>. The input is the list of its bytes; the result is the returned code and
  the bytes written to the output, whose size is an argument: a write past it and a read outside of the
  input or of the decoding table are the fault \<open>OutOfBounds\<close>.
\<close>

unbundle bit_operations_syntax

section \<open>Operations\<close>

definition b64_enc :: bytes where
  "b64_enc = map of_nat ([65..<91] @ [97..<123] @ [48..<58] @ [43, 47])"

definition b64_dec :: bytes where
  "b64_dec =
    [62, 64, 64, 64, 63, 52, 53, 54, 55, 56, 57, 58, 59, 60, 61, 64,
     64, 64, 0,  64, 64, 64,  0,  1,  2,  3,  4,  5,  6,  7,  8,  9,
     10, 11, 12, 13, 14, 15, 16, 17, 18, 19, 20, 21, 22, 23, 24, 25,
     64, 64, 64, 64, 64, 64, 26, 27, 28, 29, 30, 31, 32, 33, 34, 35,
     36, 37, 38, 39, 40, 41, 42, 43, 44, 45, 46, 47, 48, 49, 50, 51]"

definition enc_char :: "u32 \<Rightarrow> nat \<Rightarrow> u8" where
  "enc_char value k = b64_enc ! unat (drop_bit k value AND 0x3f)"

text \<open>The loop over blocks of three bytes and the remainder of one or two.\<close>

fun enc_blocks :: "bytes \<Rightarrow> bytes" where
  "enc_blocks (a # b # c # inp) =
     (let value = push_bit 16 (ucast a) OR push_bit 8 (ucast b) OR ucast c
      in [enc_char value 18, enc_char value 12, enc_char value 6, enc_char value 0] @ enc_blocks inp)"
| "enc_blocks [] = []"
| "enc_blocks [a] = (let value = push_bit 16 (ucast a) in [enc_char value 18, enc_char value 12, 61, 61])"
| "enc_blocks [a, b] =
     (let value = push_bit 16 (ucast a) OR push_bit 8 (ucast b)
      in [enc_char value 18, enc_char value 12, enc_char value 6, 61])"

definition Base64_Encode :: "bytes \<Rightarrow> u32 \<Rightarrow> fault + err_t \<times> bytes" where
  "Base64_Encode inp out_size =
     (if out_size < 4 * (of_nat (length inp) + 2) div 3 then Inr (EFATAL, [])
      else let out = enc_blocks inp
           in if unat out_size < length out then Inl OutOfBounds else Inr (int (length out), out))"

definition dec_char :: "u8 \<Rightarrow> fault + u8" where
  "dec_char c = (if 43 \<le> uint c \<and> uint c - 43 < 80 then Inr (b64_dec ! nat (uint c - 43)) else Inl OutOfBounds)"

definition dec_value :: "u8 \<Rightarrow> u8 \<Rightarrow> u8 \<Rightarrow> u8 \<Rightarrow> fault + u32" where
  "dec_value a b c d =
     bind_res (dec_char a) (\<lambda>w. bind_res (dec_char b) (\<lambda>x. bind_res (dec_char c) (\<lambda>y. bind_res (dec_char d) (\<lambda>z.
       Inr (push_bit 18 (ucast w) OR push_bit 12 (ucast x) OR push_bit 6 (ucast y) OR ucast z)))))"

fun dec_blocks :: "nat \<Rightarrow> bytes \<Rightarrow> fault + bytes" where
  "dec_blocks last_block_size [] = Inr []"
| "dec_blocks last_block_size [a, b, c, d] =
     bind_res (dec_value a b c d) (\<lambda>value.
       Inr ([ucast (drop_bit 16 value)] @
            (if last_block_size > 1 then [ucast (drop_bit 8 value)] else []) @
            (if last_block_size > 2 then [ucast value] else [])))"
| "dec_blocks last_block_size (a # b # c # d # inp) =
     bind_res (dec_value a b c d) (\<lambda>value.
     bind_res (dec_blocks last_block_size inp) (\<lambda>out.
       Inr ([ucast (drop_bit 16 value), ucast (drop_bit 8 value), ucast value] @ out)))"
| "dec_blocks last_block_size _ = Inl OutOfBounds"

definition Base64_Decode :: "bytes \<Rightarrow> u32 \<Rightarrow> fault + err_t \<times> bytes" where
  "Base64_Decode inp out_size =
     (let in_size = length inp
      in if of_nat in_size AND (3 :: u32) \<noteq> 0 then Inr (EFATAL, [])
         else if in_size = 0 then Inl OutOfBounds
         else let last_block_size = 3 - (if inp ! (in_size - 1) = 61 then 1 else 0)
                                      - (if inp ! (in_size - 2) = 61 then 1 else 0)
              in if out_size < of_nat in_size * 3 div 4 - (3 - of_nat last_block_size) then Inr (EFATAL, [])
                 else bind_res (dec_blocks last_block_size inp) (\<lambda>out.
                   if unat out_size < length out then Inl OutOfBounds else Inr (int (length out), out)))"

section \<open>The tables\<close>

lemma tables_inverse:
  "list_all (\<lambda>i. dec_char (b64_enc ! i) = Inr (of_nat i) \<and> b64_enc ! i \<noteq> 61) [0..<64]"
  by code_simp

lemma enc_index: "unat (x AND 0x3f :: u32) < 64"
proof -
  have "x AND 0x3f = take_bit 6 x" by (simp add: take_bit_eq_mask mask_eq_exp_minus_1)
  then show ?thesis by (simp add: unsigned_take_bit_eq take_bit_nat_less_exp [of 6, simplified])
qed

lemma dec_enc_char: "dec_char (enc_char v k) = Inr (ucast (drop_bit k v AND 0x3f))"
  and enc_char_not_pad: "enc_char v k \<noteq> 61"
  using tables_inverse enc_index [of "drop_bit k v"] by (auto simp: enc_char_def list_all_iff)

lemma dec_pad: "dec_char 61 = Inr 0"
  by (simp add: dec_char_def b64_dec_def)

section \<open>Round trip\<close>

lemma block_bytes:
  fixes a b c :: u8
  defines "v \<equiv> push_bit 16 (ucast a) OR push_bit 8 (ucast b) OR ucast c :: u32"
  defines "w \<equiv> push_bit 18 (ucast (ucast (drop_bit 18 v AND 0x3f) :: u8)) OR
     push_bit 12 (ucast (ucast (drop_bit 12 v AND 0x3f) :: u8)) OR
     push_bit 6 (ucast (ucast (drop_bit 6 v AND 0x3f) :: u8)) OR ucast (ucast (drop_bit 0 v AND 0x3f) :: u8) :: u32"
  shows "ucast (drop_bit 16 w) = a" "ucast (drop_bit 8 w) = b" "ucast w = c"
  unfolding w_def v_def by ((simp add: word_bits bit_simps; simp add: eval_nat_numeral)+)

lemma dec_block3:
  fixes a b c :: u8
  defines "v \<equiv> push_bit 16 (ucast a) OR push_bit 8 (ucast b) OR ucast c :: u32"
  shows "\<exists>w. dec_value (enc_char v 18) (enc_char v 12) (enc_char v 6) (enc_char v 0) = Inr w \<and>
     ucast (drop_bit 16 w) = a \<and> ucast (drop_bit 8 w) = b \<and> ucast w = c"
  using block_bytes [of a b c] unfolding v_def by (simp add: dec_value_def dec_enc_char)

lemma dec_block2:
  fixes a b :: u8
  defines "v \<equiv> push_bit 16 (ucast a) OR push_bit 8 (ucast b) :: u32"
  shows "\<exists>w. dec_value (enc_char v 18) (enc_char v 12) (enc_char v 6) 61 = Inr w \<and>
     ucast (drop_bit 16 w) = a \<and> ucast (drop_bit 8 w) = b"
proof -
  let ?w = "push_bit 18 (ucast (ucast (drop_bit 18 v AND 0x3f) :: u8)) OR
     push_bit 12 (ucast (ucast (drop_bit 12 v AND 0x3f) :: u8)) OR
     push_bit 6 (ucast (ucast (drop_bit 6 v AND 0x3f) :: u8)) OR ucast (0 :: u8) :: u32"
  have "ucast (drop_bit 16 ?w) = a" "ucast (drop_bit 8 ?w) = b"
    unfolding v_def by ((simp add: word_bits bit_simps; simp add: eval_nat_numeral)+)
  then show ?thesis by (simp add: dec_value_def dec_enc_char dec_pad)
qed

lemma dec_block1:
  fixes a :: u8
  defines "v \<equiv> push_bit 16 (ucast a) :: u32"
  shows "\<exists>w. dec_value (enc_char v 18) (enc_char v 12) 61 61 = Inr w \<and> ucast (drop_bit 16 w) = a"
proof -
  let ?w = "push_bit 18 (ucast (ucast (drop_bit 18 v AND 0x3f) :: u8)) OR
     push_bit 12 (ucast (ucast (drop_bit 12 v AND 0x3f) :: u8)) OR push_bit 6 (ucast (0 :: u8)) OR ucast (0 :: u8) :: u32"
  have "ucast (drop_bit 16 ?w) = a" unfolding v_def by (simp add: word_bits bit_simps; simp add: eval_nat_numeral)
  then show ?thesis by (simp add: dec_value_def dec_enc_char dec_pad)
qed

text \<open>The number of bytes in the last block.\<close>

definition tail_size :: "bytes \<Rightarrow> nat" where
  "tail_size x = (if length x mod 3 = 0 then 3 else length x mod 3)"

lemma enc_blocks_length: "length (enc_blocks x) = 4 * ((length x + 2) div 3)"
proof (induction x rule: enc_blocks.induct)
  case (1 a b c inp)
  have "(length inp + 2 + 3) div 3 = (length inp + 2) div 3 + 1" by (rule div_add_self2) simp
  then show ?case using 1 by (simp add: Let_def)
qed (simp_all add: Let_def)

lemma enc_blocks_Nil: "enc_blocks x = [] \<longleftrightarrow> x = []"
  by (cases x rule: enc_blocks.cases) (auto simp: Let_def)

lemma dec_enc_blocks: "dec_blocks (tail_size x) (enc_blocks x) = Inr x"
proof (induction x rule: enc_blocks.induct)
  case (1 a b c inp)
  let ?v = "push_bit 16 (ucast a) OR push_bit 8 (ucast b) OR ucast c :: u32"
  obtain w where w: "dec_value (enc_char ?v 18) (enc_char ?v 12) (enc_char ?v 6) (enc_char ?v 0) = Inr w"
     "ucast (drop_bit 16 w) = a" "ucast (drop_bit 8 w) = b" "ucast w = c"
    using dec_block3 by blast
  show ?case
  proof (cases inp)
    case Nil
    then show ?thesis using w by (simp add: tail_size_def Let_def)
  next
    case (Cons d r)
    then obtain e es where e: "enc_blocks inp = e # es" by (cases "enc_blocks inp") (auto simp: enc_blocks_Nil)
    have "tail_size (a # b # c # inp) = tail_size inp" by (simp add: tail_size_def)
    then show ?thesis using 1 w e by (simp add: Let_def)
  qed
next
  case (3 a)
  then show ?case using dec_block1 [of a] by (auto simp: tail_size_def Let_def)
next
  case (4 a b)
  then show ?case using dec_block2 [of a b] by (auto simp: tail_size_def Let_def)
qed simp

lemma enc_blocks_last:
  "x \<noteq> [] \<Longrightarrow> \<exists>p y z. enc_blocks x = p @ [y, z] \<and> (z = 61 \<longleftrightarrow> tail_size x < 3) \<and> (y = 61 \<longleftrightarrow> tail_size x < 2)"
proof (induction x rule: enc_blocks.induct)
  case (1 a b c inp)
  show ?case
  proof (cases inp)
    case Nil
    then show ?thesis by (simp add: tail_size_def Let_def enc_char_not_pad)
  next
    case (Cons d r)
    have "tail_size (a # b # c # inp) = tail_size inp" by (simp add: tail_size_def)
    then show ?thesis using 1 Cons by (auto simp: Let_def)
  qed
qed (auto simp: tail_size_def Let_def enc_char_not_pad)

lemma block_count:
  fixes n :: nat
  assumes "0 < n"
  shows "0 < (n + 2) div 3 \<and> n + 3 = 3 * ((n + 2) div 3) + (if n mod 3 = 0 then 3 else n mod 3)"
  using assms by presburger

text \<open>
  C10: Round trip. For every message (of less than \<open>2 ^ 29\<close> bytes), \<open>Base64_Encode\<close> into a buffer of the size
  it asks for writes \<open>4 * ((n + 2) / 3)\<close> characters without leaving the buffer, and \<open>Base64_Decode\<close>
  of these characters, for a message that is not empty, returns the message.
\<close>

theorem Base64_roundtrip:
  assumes n: "length x < 2 ^ 29" and out: "4 * (length x + 2) div 3 \<le> unat out_size"
    and x: "x \<noteq> []" and dout: "length x \<le> unat dec_size"
  shows "\<exists>e. Base64_Encode x out_size = Inr (int (4 * ((length x + 2) div 3)), e) \<and>
     Base64_Decode e dec_size = Inr (int (length x), x)"
proof -
  let ?n = "length x" and ?e = "enc_blocks x"
  have le: "length ?e = 4 * ((?n + 2) div 3)" by (rule enc_blocks_length)
  have small: "4 * (?n + 2) < 2 ^ 32" using n by simp
  have "unat (4 * (of_nat ?n + 2) div 3 :: u32) = 4 * (?n + 2) div 3"
  proof -
    have "(4 * (of_nat ?n + 2) :: u32) = of_nat (4 * (?n + 2))" by simp
    then show ?thesis using small by (simp only: unat_div unat_of_nat) simp
  qed
  then have "\<not> out_size < 4 * (of_nat ?n + 2) div 3" using out by (simp add: word_less_nat_alt)
  moreover have "4 * ((?n + 2) div 3) \<le> 4 * (?n + 2) div 3"
    using div_times_less_eq_dividend [of "?n + 2" 3] by (simp add: less_eq_div_iff_mult_less_eq)
  ultimately have enc: "Base64_Encode x out_size = Inr (int (4 * ((?n + 2) div 3)), ?e)"
    using out le by (simp add: Base64_Encode_def Let_def)
  obtain p y z where p: "?e = p @ [y, z]" "z = 61 \<longleftrightarrow> tail_size x < 3" "y = 61 \<longleftrightarrow> tail_size x < 2"
    using enc_blocks_last [OF x] by blast
  have ts: "1 \<le> tail_size x" "tail_size x \<le> 3" by (auto simp: tail_size_def)
  have lbs: "3 - (if ?e ! (length ?e - 1) = 61 then 1 else 0) - (if ?e ! (length ?e - 2) = 61 then 1 else 0) = tail_size x"
    using p ts by (auto simp: nth_append)
  have four: "of_nat (4 * m) AND (3 :: u32) = 0" for m :: nat
  proof -
    have "(3 :: u32) = mask 2" by (simp add: mask_eq_exp_minus_1)
    moreover have "(of_nat (4 * m) :: u32) = push_bit 2 (of_nat m)" by (simp add: push_bit_eq_mult)
    moreover have "push_bit 2 (of_nat m) AND mask 2 = (0 :: u32)"
      by (auto intro!: bit_word_eqI simp: bit_simps)
    ultimately show ?thesis by (simp only:)
  qed
  define k where "k = (?n + 2) div 3"
  have k: "length ?e = 4 * k" "0 < k" "3 * k < 2 ^ 32" "?n + 3 = 3 * k + tail_size x"
    using le n block_count [of ?n] x unfolding k_def tail_size_def by auto
  have "(of_nat (4 * k) * 3 div 4 - (3 - of_nat (tail_size x)) :: u32) = of_nat ?n"
  proof -
    have "(of_nat (4 * k) * 3 :: u32) = of_nat (12 * k)" by simp
    moreover have "unat (of_nat (12 * k) div 4 :: u32) = 3 * k"
      using k(3,4) n by (simp only: unat_div unat_of_nat) simp
    ultimately have "(of_nat (4 * k) * 3 div 4 :: u32) = of_nat (3 * k)"
      by (metis of_nat_unat ucast_id)
    moreover have "(of_nat ?n :: u32) + 3 = of_nat (3 * k) + of_nat (tail_size x)"
      using k(4) by (metis of_nat_add of_nat_numeral)
    ultimately show ?thesis by (simp add: algebra_simps)
  qed
  moreover have "unat (of_nat ?n :: u32) = ?n" using n by (simp add: unat_of_nat)
  ultimately have "\<not> dec_size < of_nat (4 * k) * 3 div 4 - (3 - of_nat (tail_size x))"
    using dout by (simp add: word_less_nat_alt)
  then have "Base64_Decode ?e dec_size = Inr (int ?n, x)"
    unfolding Base64_Decode_def Let_def k(1) lbs [unfolded k(1)] four using k(2) dout by (simp add: dec_enc_blocks)
  then show ?thesis using enc by blast
qed

theorem Base64_roundtrip_witness:
  "\<exists>e. Base64_Encode [104, 105, 33, 10] 8 = Inr (int (4 * ((length [104, 105, 33, 10 :: u8] + 2) div 3)), e) \<and>
     Base64_Decode e 4 = Inr (int (length [104, 105, 33, 10 :: u8]), [104, 105, 33, 10])"
  by (rule Base64_roundtrip) simp_all

text \<open>
  \<open>Base64_Decode\<close> does not check its input: an empty one makes it read in front of the buffer, and
  a character outside of \<open>'+' .. 'z'\<close> in front of or behind the decoding table.
\<close>

theorem Base64_Decode_unchecked:
  "Base64_Decode [] out_size = Inl OutOfBounds \<and> Base64_Decode [33, 65, 65, 65] 3 = Inl OutOfBounds \<and>
   Base64_Decode [65, 126, 65, 65] 3 = Inl OutOfBounds"
  by (simp add: Base64_Decode_def dec_value_def dec_char_def b64_dec_def)

end
