(* ===== verification/Util_Sha.thy ===== *)
theory Util_Sha
  imports Util_Endian
begin

text \<open>
  SHA-1 and SHA-2, \<^verbatim>\<open>util/src/sha1.c\<close> and \<^verbatim>\<open>util/src/sha2.c\<close>. The two digest functions have the same
  buffering and padding code; it is \<open>md_loop\<close>, with the function that mixes a block of sixteen words into the
  state as an argument. The block buffer is its 64 bytes; reading it as words is little endian, and the
  code's conversion makes the words big endian.

  The lemmas show that digesting a message in any pieces gives the standard's value: the blocks of the
  padded message, mixed in one after the other.
\<close>

unbundle bit_operations_syntax

section \<open>Block functions\<close>

definition SHA1_LRot32 :: "u32 \<Rightarrow> nat \<Rightarrow> u32" where
  "SHA1_LRot32 x bits = push_bit bits x OR drop_bit (32 - bits) x"

definition SHA1_F :: "nat \<Rightarrow> u32 \<Rightarrow> u32 \<Rightarrow> u32 \<Rightarrow> fault + u32" where
  "SHA1_F round b c d =
     (if round \<le> 19 then Inr ((b AND c) OR (NOT b AND d))
      else if round \<le> 39 then Inr (b XOR c XOR d)
      else if round \<le> 59 then Inr ((b AND c) OR (b AND d) OR (c AND d))
      else if round \<le> 79 then Inr (b XOR c XOR d)
      else Inl AssertFail)"

text \<open>The message schedule: each new word is appended to the words so far.\<close>

definition SHA1_ScheduleMessage :: "u32 list \<Rightarrow> u32 list" where
  "SHA1_ScheduleMessage inw =
     fold (\<lambda>i out. out @ [SHA1_LRot32 (out ! (i - 3) XOR out ! (i - 8) XOR out ! (i - 14) XOR out ! (i - 16)) 1])
       [16..<80] (take 16 inw)"

definition SHA1_K :: "nat \<Rightarrow> u32" where
  "SHA1_K round = (if round \<le> 19 then 0x5A827999 else if round \<le> 39 then 0x6ED9EBA1
     else if round \<le> 59 then 0x8F1BBCDC else 0xCA62C1D6)"

definition sha1_round :: "u32 list \<Rightarrow> nat \<Rightarrow> u32 \<times> u32 \<times> u32 \<times> u32 \<times> u32 \<Rightarrow> fault + u32 \<times> u32 \<times> u32 \<times> u32 \<times> u32" where
  "sha1_round w round s =
     (case s of (a, b, c, d, e) \<Rightarrow>
        bind_res (SHA1_F round b c d) (\<lambda>f.
          let t = SHA1_LRot32 a 5 + f + e + SHA1_K round + w ! round
          in Inr (t, a, SHA1_LRot32 b 30, c, d)))"

definition SHA1_Rounds :: "u32 list \<Rightarrow> u32 list \<Rightarrow> fault + u32 list" where
  "SHA1_Rounds h w =
     bind_res (fold (\<lambda>round r. bind_res r (sha1_round w round)) [0..<80]
                 (Inr (h ! 0, h ! 1, h ! 2, h ! 3, h ! 4))) (\<lambda>(a, b, c, d, e).
       Inr [h ! 0 + a, h ! 1 + b, h ! 2 + c, h ! 3 + d, h ! 4 + e])"

definition sha1_block :: "u32 list \<Rightarrow> u32 list \<Rightarrow> fault + u32 list" where
  "sha1_block h words = SHA1_Rounds h (SHA1_ScheduleMessage words)"

definition sha2_k :: "u32 list" where
  "sha2_k = concat [
    [0x428a2f98, 0x71374491, 0xb5c0fbcf, 0xe9b5dba5],
    [0x3956c25b, 0x59f111f1, 0x923f82a4, 0xab1c5ed5],
    [0xd807aa98, 0x12835b01, 0x243185be, 0x550c7dc3],
    [0x72be5d74, 0x80deb1fe, 0x9bdc06a7, 0xc19bf174],
    [0xe49b69c1, 0xefbe4786, 0x0fc19dc6, 0x240ca1cc],
    [0x2de92c6f, 0x4a7484aa, 0x5cb0a9dc, 0x76f988da],
    [0x983e5152, 0xa831c66d, 0xb00327c8, 0xbf597fc7],
    [0xc6e00bf3, 0xd5a79147, 0x06ca6351, 0x14292967],
    [0x27b70a85, 0x2e1b2138, 0x4d2c6dfc, 0x53380d13],
    [0x650a7354, 0x766a0abb, 0x81c2c92e, 0x92722c85],
    [0xa2bfe8a1, 0xa81a664b, 0xc24b8b70, 0xc76c51a3],
    [0xd192e819, 0xd6990624, 0xf40e3585, 0x106aa070],
    [0x19a4c116, 0x1e376c08, 0x2748774c, 0x34b0bcb5],
    [0x391c0cb3, 0x4ed8aa4a, 0x5b9cca4f, 0x682e6ff3],
    [0x748f82ee, 0x78a5636f, 0x84c87814, 0x8cc70208],
    [0x90befffa, 0xa4506ceb, 0xbef9a3f7, 0xc67178f2]]"

definition SHA2_RRot32 :: "u32 \<Rightarrow> nat \<Rightarrow> u32" where
  "SHA2_RRot32 x bits = drop_bit bits x OR push_bit (32 - bits) x"

definition SHA2_ScheduleMessage :: "u32 list \<Rightarrow> u32 list" where
  "SHA2_ScheduleMessage inw =
     fold (\<lambda>i out.
         let o2 = out ! (i - 2); o15 = out ! (i - 15);
             s0 = SHA2_RRot32 o15 7 XOR SHA2_RRot32 o15 18 XOR drop_bit 3 o15;
             s1 = SHA2_RRot32 o2 17 XOR SHA2_RRot32 o2 19 XOR drop_bit 10 o2
         in out @ [out ! (i - 16) + s0 + out ! (i - 7) + s1])
       [16..<64] (take 16 inw)"

definition sha2_round ::
  "u32 list \<Rightarrow> nat \<Rightarrow> u32 \<times> u32 \<times> u32 \<times> u32 \<times> u32 \<times> u32 \<times> u32 \<times> u32 \<Rightarrow> u32 \<times> u32 \<times> u32 \<times> u32 \<times> u32 \<times> u32 \<times> u32 \<times> u32"
where
  "sha2_round w round s =
     (case s of (a, b, c, d, e, f, g, h) \<Rightarrow>
        let s1 = SHA2_RRot32 e 6 XOR SHA2_RRot32 e 11 XOR SHA2_RRot32 e 25;
            ch = (e AND f) XOR (NOT e AND g);
            t1 = h + s1 + ch + sha2_k ! round + w ! round;
            s0 = SHA2_RRot32 a 2 XOR SHA2_RRot32 a 13 XOR SHA2_RRot32 a 22;
            ma = (a AND b) XOR (a AND c) XOR (b AND c);
            t2 = s0 + ma
        in (t1 + t2, a, b, c, d + t1, e, f, g))"

definition SHA2_Rounds :: "u32 list \<Rightarrow> u32 list \<Rightarrow> fault + u32 list" where
  "SHA2_Rounds hs w =
     (case fold (sha2_round w) [0..<64]
             (hs ! 0, hs ! 1, hs ! 2, hs ! 3, hs ! 4, hs ! 5, hs ! 6, hs ! 7) of
        (a, b, c, d, e, f, g, h) \<Rightarrow>
          Inr [hs ! 0 + a, hs ! 1 + b, hs ! 2 + c, hs ! 3 + d, hs ! 4 + e, hs ! 5 + f, hs ! 6 + g, hs ! 7 + h])"

definition sha2_block :: "u32 list \<Rightarrow> u32 list \<Rightarrow> fault + u32 list" where
  "sha2_block h words = SHA2_Rounds h (SHA2_ScheduleMessage words)"

section \<open>Digest\<close>

record sha_state_t =
  sh_h :: "u32 list"
  sh_total_len :: u32
  sh_w_len :: nat
  sh_w :: bytes
  sh_finalized :: bool

definition words_of :: "bytes \<Rightarrow> u32 list" where
  "words_of w = map (\<lambda>i. le_word32 (drop (4 * i) w)) [0..<16]"

definition total_bits :: "u32 \<Rightarrow> u64" where
  "total_bits total_len = ucast total_len * 8"

text \<open>Storing the bit count in the last two words of the buffer.\<close>

definition put_length :: "u32 \<Rightarrow> bytes \<Rightarrow> bytes" where
  "put_length total_len w =
     take 56 w @ le_bytes32 (HTOBE32 (ucast (drop_bit 32 (total_bits total_len)))) @
     le_bytes32 (HTOBE32 (ucast (total_bits total_len)))"

text \<open>
  One round of the loop: copy into the buffer, pad, add the length, mix the block in. The result is the
  new state and whether the length was added, or none when the function returns for want of data.
\<close>

definition pad_block :: "bool \<Rightarrow> u32 \<Rightarrow> nat \<Rightarrow> nat \<Rightarrow> bytes \<Rightarrow> bytes" where
  "pad_block trailing_bit_added total_len w_len b_left w =
     (let w1 = (if b_left \<noteq> 0 then take w_len w @ replicate b_left 0 else w);
          w2 = (if b_left \<noteq> 0 \<and> \<not> trailing_bit_added then w1[w_len := 0x80] else w1)
      in if b_left > 8 then put_length total_len w2 else w2)"

function md_loop ::
  "(u32 list \<Rightarrow> u32 list \<Rightarrow> fault + u32 list) \<Rightarrow> bool \<Rightarrow> bool \<Rightarrow> bytes \<Rightarrow> sha_state_t \<Rightarrow> fault + sha_state_t"
where
  "md_loop block final trailing_bit_added p s =
     (let b_copy = min (64 - sh_w_len s) (length p);
          b_left = 64 - sh_w_len s - b_copy;
          w1 = take (sh_w_len s) (sh_w s) @ take b_copy p @ drop (sh_w_len s + b_copy) (sh_w s);
          w_len = sh_w_len s + b_copy;
          p' = drop b_copy p
      in if b_left \<noteq> 0 \<and> \<not> final then Inr (s\<lparr>sh_w := w1, sh_w_len := w_len\<rparr>)
         else let w2 = pad_block trailing_bit_added (sh_total_len s) w_len b_left w1;
                  words = map HTOBE32 (words_of w2)
              in (case block (sh_h s) words of
                    Inl e \<Rightarrow> Inl e
                  | Inr h \<Rightarrow>
                      let s' = s\<lparr>sh_h := h, sh_w := concat (map le_bytes32 words), sh_w_len := 0\<rparr>
                      in if b_left > 8 then Inr (s'\<lparr>sh_h := map HTOBE32 h\<rparr>)
                         else md_loop block final (trailing_bit_added \<or> b_left \<noteq> 0) p' s'))"
  by pat_completeness auto

termination
  by (relation "measure (\<lambda>(_, _, _, p, s). length p + sh_w_len s)") (auto simp: min_def split: if_splits)

declare md_loop.simps [simp del]

definition md_digest ::
  "(u32 list \<Rightarrow> u32 list \<Rightarrow> fault + u32 list) \<Rightarrow> sha_state_t \<Rightarrow> bool \<Rightarrow> bytes \<Rightarrow> fault + err_t \<times> sha_state_t"
where
  "md_digest block s final p =
     (if sh_finalized s then Inr (EARGVAL, s)
      else bind_res (md_loop block final False p
             (s\<lparr>sh_total_len := sh_total_len s + of_nat (length p), sh_finalized := final\<rparr>)) (\<lambda>s'. Inr (EOK, s')))"

definition SHA1_InitState :: sha_state_t where
  "SHA1_InitState = \<lparr>sh_h = [0x67452301, 0xEFCDAB89, 0x98BADCFE, 0x10325476, 0xC3D2E1F0],
     sh_total_len = 0, sh_w_len = 0, sh_w = replicate 64 0, sh_finalized = False\<rparr>"

definition SHA1_Digest :: "sha_state_t \<Rightarrow> bool \<Rightarrow> bytes \<Rightarrow> fault + err_t \<times> sha_state_t" where
  "SHA1_Digest = md_digest sha1_block"

text \<open>The hash in memory, and as hexadecimal digits.\<close>

definition hash_bytes :: "sha_state_t \<Rightarrow> bytes" where
  "hash_bytes s = concat (map le_bytes32 (sh_h s))"

definition SHA1_GetHashVal :: "sha_state_t \<Rightarrow> nat \<Rightarrow> fault + err_t \<times> bytes" where
  "SHA1_GetHashVal s sz =
     (if \<not> sh_finalized s then Inr (EARGVAL, [])
      else let n = min sz 20 in bind_res (mem_read (hash_bytes s) 0 n) (\<lambda>d. Inr (int n, d)))"

definition hex_digit :: "u8 \<Rightarrow> u8" where
  "hex_digit x = (if x < 10 then 48 + x else 97 + (x - 10))"

definition render_hex :: "bytes \<Rightarrow> nat \<Rightarrow> fault + bytes" where
  "render_hex h n =
     (if (n + 1) div 2 \<le> length h
      then Inr (map (\<lambda>i. hex_digit (if i mod 2 = 0 then drop_bit 4 (h ! (i div 2)) else h ! (i div 2) AND 0xf)) [0..<n])
      else Inl OutOfBounds)"

definition get_hash_str :: "sha_state_t \<Rightarrow> nat \<Rightarrow> nat \<Rightarrow> fault + err_t \<times> bytes" where
  "get_hash_str s char_cnt sz =
     (if \<not> sh_finalized s then Inr (EARGVAL, [])
      else if sz = 0 then Inr (0, [])
      else let n = min sz (char_cnt + 1) - 1
           in bind_res (render_hex (hash_bytes s) n) (\<lambda>str. Inr (int (n + 1), str @ [0])))"

definition SHA1_GetHashStr :: "sha_state_t \<Rightarrow> nat \<Rightarrow> fault + err_t \<times> bytes" where
  "SHA1_GetHashStr s sz = get_hash_str s (5 * 4 * 2) sz"

datatype sha2_type_t = SHA2_TYPE_224 | SHA2_TYPE_256

definition SHA2_InitState :: "sha2_type_t \<Rightarrow> sha2_type_t \<times> sha_state_t" where
  "SHA2_InitState type =
     (type, \<lparr>sh_h = (case type of
        SHA2_TYPE_256 \<Rightarrow> [0x6a09e667, 0xbb67ae85, 0x3c6ef372, 0xa54ff53a, 0x510e527f, 0x9b05688c, 0x1f83d9ab, 0x5be0cd19]
      | SHA2_TYPE_224 \<Rightarrow> [0xc1059ed8, 0x367cd507, 0x3070dd17, 0xf70e5939, 0xffc00b31, 0x68581511, 0x64f98fa7, 0xbefa4fa4]),
       sh_total_len = 0, sh_w_len = 0, sh_w = replicate 64 0, sh_finalized = False\<rparr>)"

definition SHA2_Digest :: "sha_state_t \<Rightarrow> bool \<Rightarrow> bytes \<Rightarrow> fault + err_t \<times> sha_state_t" where
  "SHA2_Digest = md_digest sha2_block"

definition SHA2_GetHashVal :: "sha2_type_t \<times> sha_state_t \<Rightarrow> nat \<Rightarrow> fault + err_t \<times> bytes" where
  "SHA2_GetHashVal ts sz =
     (case ts of (type, s) \<Rightarrow>
        if \<not> sh_finalized s then Inr (EARGVAL, [])
        else let byte_cnt = (case type of SHA2_TYPE_224 \<Rightarrow> 7 * 4 * 2 | SHA2_TYPE_256 \<Rightarrow> 8 * 4 * 2);
                 n = min sz byte_cnt
             in bind_res (mem_read (hash_bytes s) 0 n) (\<lambda>d. Inr (int n, d)))"

definition SHA2_GetHashStr :: "sha2_type_t \<times> sha_state_t \<Rightarrow> nat \<Rightarrow> fault + err_t \<times> bytes" where
  "SHA2_GetHashStr ts sz =
     (case ts of (type, s) \<Rightarrow>
        get_hash_str s (case type of SHA2_TYPE_224 \<Rightarrow> 7 * 4 * 2 | SHA2_TYPE_256 \<Rightarrow> 8 * 4 * 2) sz)"

section \<open>The specification: padding and blocks\<close>

definition be_words :: "bytes \<Rightarrow> u32 list" where
  "be_words w = map (\<lambda>i. be_word32 (drop (4 * i) w)) [0..<16]"

text \<open>The padding of a message of \<open>n\<close> bytes, with its length in bits modulo \<open>2 ^ 35\<close>.\<close>

definition md_pad :: "nat \<Rightarrow> bytes" where
  "md_pad n = 0x80 # replicate ((119 - n mod 64) mod 64) 0 @
     be_bytes32 (ucast (drop_bit 32 (total_bits (of_nat n)))) @ be_bytes32 (ucast (total_bits (of_nat n)))"

text \<open>Mixing in all whole blocks of a message: the state and the bytes left.\<close>

function absorb :: "('h \<Rightarrow> u32 list \<Rightarrow> 'h) \<Rightarrow> 'h \<Rightarrow> bytes \<Rightarrow> 'h \<times> bytes" where
  "absorb mix h m = (if 64 \<le> length m then absorb mix (mix h (be_words (take 64 m))) (drop 64 m) else (h, m))"
  by pat_completeness auto

termination by (relation "measure (\<lambda>(_, _, m). length m)") auto

declare absorb.simps [simp del]

definition mixing :: "('h \<Rightarrow> u32 list \<Rightarrow> fault + 'h) \<Rightarrow> 'h \<Rightarrow> u32 list \<Rightarrow> 'h" where
  "mixing block h w = (case block h w of Inr h' \<Rightarrow> h' | Inl _ \<Rightarrow> h)"

definition md_spec :: "('h \<Rightarrow> u32 list \<Rightarrow> 'h) \<Rightarrow> 'h \<Rightarrow> bytes \<Rightarrow> 'h" where
  "md_spec mix h0 m = fst (absorb mix h0 (m @ md_pad (length m)))"

lemma absorb_short: "length m < 64 \<Longrightarrow> absorb mix h m = (h, m)"
  by (simp add: absorb.simps)

lemma absorb_block: "length b = 64 \<Longrightarrow> absorb mix h (b @ m) = absorb mix (mix h (be_words b)) m"
  by (subst absorb.simps) simp

lemma absorb_rest: "length (snd (absorb mix h m)) = length m mod 64"
proof (induction mix h m rule: absorb.induct)
  case (1 mix h m)
  show ?case
  proof (cases "64 \<le> length m")
    case True
    then show ?thesis using 1 by (subst absorb.simps) (simp add: le_mod_geq)
  qed (simp add: absorb_short)
qed

lemma absorb_append: "absorb mix h (a @ b) = absorb mix (fst (absorb mix h a)) (snd (absorb mix h a) @ b)"
proof (induction mix h a rule: absorb.induct)
  case (1 mix h m)
  show ?case
  proof (cases "64 \<le> length m")
    case True
    then have "absorb mix h (m @ b) = absorb mix (mix h (be_words (take 64 m))) (drop 64 m @ b)"
      using absorb_block [of "take 64 m" mix h "drop 64 m @ b"]
      by (metis append.assoc append_take_drop_id length_take min.absorb2)
    moreover have "absorb mix h m = absorb mix (mix h (be_words (take 64 m))) (drop 64 m)"
      using True by (subst absorb.simps) simp
    ultimately show ?thesis using 1 True by simp
  qed (simp add: absorb_short)
qed

lemma words_be: "length w = 64 \<Longrightarrow> map HTOBE32 (words_of w) = be_words w"
proof -
  assume l: "length w = 64"
  have "HTOBE32 (le_word32 (drop (4 * i) w)) = be_word32 (drop (4 * i) w)" if "i < 16" for i
  proof -
    have "4 \<le> length (drop (4 * i) w)" using l that by simp
    then obtain a b c d r where "drop (4 * i) w = a # b # c # d # r"
      by (metis (no_types, lifting) Suc_le_length_iff eval_nat_numeral(2,3) numeral_2_eq_2 semiring_norm(26,27))
    then show ?thesis by (simp only: HTOBE32_le_word)
  qed
  then show ?thesis by (simp add: words_of_def be_words_def)
qed

section \<open>Digesting in pieces\<close>

definition sha_ok :: "sha_state_t \<Rightarrow> bool" where
  "sha_ok s \<longleftrightarrow> sh_w_len s < 64 \<and> length (sh_w s) = 64"

definition pending :: "sha_state_t \<Rightarrow> bytes" where
  "pending s = take (sh_w_len s) (sh_w s)"

lemma concat_le_bytes32: "length (concat (map le_bytes32 ws)) = 4 * length ws"
  by (induction ws) auto

lemma stored_words_length [simp]: "length (concat (map le_bytes32 (be_words w))) = 64"
  unfolding concat_le_bytes32 by (simp add: be_words_def)

lemma pending_length: "sha_ok s \<Longrightarrow> length (pending s) = sh_w_len s"
  by (simp add: sha_ok_def pending_def)

text \<open>The padded block when the message ends in it, and the block of zeros that may follow.\<close>

definition len_field :: "u32 \<Rightarrow> bytes" where
  "len_field n = be_bytes32 (ucast (drop_bit 32 (total_bits n))) @ be_bytes32 (ucast (total_bits n))"

lemma len_field_length [simp]: "length (len_field t) = 8"
  by (simp add: len_field_def)

lemma put_length_eq: "put_length t w = take 56 w @ len_field t"
  by (simp add: put_length_def len_field_def HTOBE32_bytes)

lemma pad_block_first:
  assumes "length w = 64" "n < 64"
  shows "pad_block False t n (64 - n) w =
    (if n \<le> 55 then take n w @ 0x80 # replicate (55 - n) 0 @ len_field t else take n w @ 0x80 # replicate (63 - n) 0)"
proof -
  obtain k where k: "64 - n = Suc k" "k = 63 - n" using assms(2) by (cases "64 - n") auto
  have w: "(take n w @ replicate (64 - n) 0)[n := 0x80] = take n w @ 0x80 # replicate (63 - n) 0"
    using assms k by (simp add: list_update_append)
  have e: "pad_block False t n (64 - n) w = (if 64 - n > 8 then put_length t (take n w @ 0x80 # replicate (63 - n) 0)
      else take n w @ 0x80 # replicate (63 - n) 0)"
    using w assms(2) by (simp add: pad_block_def)
  show ?thesis
  proof (cases "n \<le> 55")
    case True
    have "take 56 (take n w @ 0x80 # replicate (63 - n) 0) = take n w @ 0x80 # replicate (55 - n) 0"
      using True assms(1) by (simp add: take_Cons' Suc_diff_le)
    moreover have "8 < 64 - n" using True by simp
    ultimately show ?thesis using e True by (simp add: put_length_eq)
  qed (use e in auto)
qed

lemma pad_block_second: "length w = 64 \<Longrightarrow> pad_block True t 0 64 w = replicate 56 0 @ len_field t"
  by (simp add: pad_block_def put_length_eq)

locale md_hash =
  fixes block :: "u32 list \<Rightarrow> u32 list \<Rightarrow> fault + u32 list"
  assumes block_total: "\<exists>h'. block h w = Inr h'"
begin

lemma block_mixing: "block h w = Inr (mixing block h w)"
  using block_total [of h w] by (auto simp: mixing_def)

text \<open>Data that does not end the message.\<close>

lemma loop_more:
  "sha_ok s \<Longrightarrow> \<exists>s'. md_loop block False tba p s = Inr s' \<and> sha_ok s' \<and>
     (sh_h s', pending s') = absorb (mixing block) (sh_h s) (pending s @ p) \<and>
     sh_total_len s' = sh_total_len s \<and> sh_finalized s' = sh_finalized s"
proof (induction "length p" arbitrary: p s tba rule: less_induct)
  case less
  define wl where "wl = sh_w_len s"
  have ok: "wl < 64" "length (sh_w s) = 64" "length (pending s) = wl"
    using less.prems by (auto simp: sha_ok_def wl_def pending_length)
  show ?case
  proof (cases "wl + length p < 64")
    case True
    then have "md_loop block False tba p s =
        Inr (s\<lparr>sh_w := take wl (sh_w s) @ p @ drop (wl + length p) (sh_w s), sh_w_len := wl + length p\<rparr>)"
      by (subst md_loop.simps) (simp add: wl_def Let_def)
    moreover have "absorb (mixing block) (sh_h s) (pending s @ p) = (sh_h s, pending s @ p)"
      using True ok(3) by (simp add: absorb_short)
    ultimately show ?thesis using True ok by (simp add: sha_ok_def pending_def wl_def)
  next
    case False
    define c where "c = 64 - wl"
    have c: "min (64 - wl) (length p) = c" "c \<le> length p" "0 < c" using False ok(1) by (auto simp: c_def)
    let ?w = "take wl (sh_w s) @ take c p"
    have w: "length ?w = 64" using c ok by (simp add: c_def)
    let ?s = "s\<lparr>sh_h := mixing block (sh_h s) (be_words ?w), sh_w := concat (map le_bytes32 (be_words ?w)), sh_w_len := 0\<rparr>"
    have "md_loop block False tba p s = md_loop block False tba (drop c p) ?s"
      using c w ok(2) by (subst md_loop.simps)
        (simp add: wl_def [symmetric] Let_def pad_block_def c_def words_be block_mixing del: map_map)
    moreover have "sha_ok ?s" by (simp add: sha_ok_def)
    moreover have "absorb (mixing block) (sh_h s) (pending s @ p) = absorb (mixing block) (sh_h ?s) (pending ?s @ drop c p)"
      using absorb_block [OF w, of "mixing block" "sh_h s" "drop c p"]
      by (simp add: pending_def wl_def)
    ultimately show ?thesis using less.hyps [of "drop c p" ?s tba] c by (simp)
  qed
qed

text \<open>The end of a message whose pending part and last piece fill less than a block.\<close>

lemma loop_final_short:
  assumes ok: "sha_ok s" and n: "sh_w_len s + length p < 64"
  defines "m \<equiv> pending s @ p"
  defines "z \<equiv> (119 - length m) mod 64"
  shows "\<exists>s'. md_loop block True False p s = Inr s' \<and> sh_finalized s' = sh_finalized s \<and>
    sh_h s' = map HTOBE32 (fst (absorb (mixing block) (sh_h s)
      (m @ 0x80 # replicate z 0 @ len_field (sh_total_len s))))"
proof -
  let ?wl = "sh_w_len s" and ?w = "take (sh_w_len s) (sh_w s) @ p @ drop (sh_w_len s + length p) (sh_w s)"
  let ?t = "sh_total_len s" and ?n = "length m"
  have l: "?n = ?wl + length p" "length ?w = 64" "take ?n ?w = m" "?n < 64"
    using ok n by (auto simp: m_def pending_def sha_ok_def)
  have c: "min (64 - ?wl) (length p) = length p" "64 - ?wl - length p = 64 - ?n" using n l(1) by auto
  let ?b = "pad_block False ?t ?n (64 - ?n) ?w"
  have b: "?b = (if ?n \<le> 55 then m @ 0x80 # replicate (55 - ?n) 0 @ len_field ?t else m @ 0x80 # replicate (63 - ?n) 0)"
    using pad_block_first [OF l(2,4), of ?t] l(3) by simp
  have b64: "length ?b = 64" using b l(4) by simp
  let ?s = "s\<lparr>sh_h := mixing block (sh_h s) (be_words ?b), sh_w := concat (map le_bytes32 (be_words ?b)), sh_w_len := 0\<rparr>"
  have step: "md_loop block True False p s = (if 64 - ?n > 8 then Inr (?s\<lparr>sh_h := map HTOBE32 (sh_h ?s)\<rparr>)
      else md_loop block True True [] ?s)"
    using c b64 l(1,4) n by (subst md_loop.simps) (simp add: Let_def words_be block_mixing del: map_map)
  show ?thesis
  proof (cases "?n \<le> 55")
    case True
    then have "z = 55 - ?n" by (simp add: z_def mod_if)
    then have e: "m @ 0x80 # replicate z 0 @ len_field ?t = ?b @ []" using b True by simp
    have "8 < 64 - ?n" using True by simp
    then show ?thesis using step absorb_block [OF b64, of "mixing block" "sh_h s" "[]"]
      unfolding e by (simp add: absorb_short)
  next
    case False
    let ?q = "replicate 56 0 @ len_field ?t"
    have z: "z = 63 - ?n + 56" using False l(4) by (simp add: z_def mod_if)
    have e: "m @ 0x80 # replicate z 0 @ len_field ?t = ?b @ ?q @ []"
      using b False unfolding z by (simp add: replicate_add)
    have w: "length (sh_w ?s) = 64" by simp
    have "md_loop block True True [] ?s = Inr (?s\<lparr>sh_h := map HTOBE32 (mixing block (sh_h ?s) (be_words ?q)),
        sh_w := concat (map le_bytes32 (be_words ?q))\<rparr>)"
      using w pad_block_second [OF w, of ?t]
      by (subst md_loop.simps) (simp add: Let_def words_be block_mixing del: map_map)
    moreover have "absorb (mixing block) (sh_h s) (?b @ ?q @ []) = (mixing block (sh_h ?s) (be_words ?q), [])"
      unfolding absorb_block [OF b64] by (subst absorb_block) (simp_all add: absorb_short)
    moreover have "\<not> 64 - ?n > 8" using False by simp
    ultimately show ?thesis using step unfolding e by simp
  qed
qed

lemma loop_final:
  assumes "sha_ok s"
  shows "\<exists>s'. md_loop block True False p s = Inr s' \<and> sh_finalized s' = sh_finalized s \<and>
    sh_h s' = map HTOBE32 (fst (absorb (mixing block) (sh_h s)
      (pending s @ p @ 0x80 # replicate ((119 - length (pending s @ p) mod 64) mod 64) 0 @ len_field (sh_total_len s))))"
  using assms
proof (induction "length p" arbitrary: p s rule: less_induct)
  case less
  define wl where "wl = sh_w_len s"
  have ok: "wl < 64" "length (sh_w s) = 64" "length (pending s) = wl"
    using less.prems by (auto simp: sha_ok_def wl_def pending_length)
  show ?case
  proof (cases "wl + length p < 64")
    case True
    then show ?thesis using loop_final_short [OF less.prems, of p] ok(3) by (simp add: wl_def)
  next
    case False
    define c where "c = 64 - wl"
    have c: "min (64 - wl) (length p) = c" "c \<le> length p" "0 < c" using False ok(1) by (auto simp: c_def)
    let ?w = "take wl (sh_w s) @ take c p"
    have w: "length ?w = 64" using c ok by (simp add: c_def)
    let ?s = "s\<lparr>sh_h := mixing block (sh_h s) (be_words ?w), sh_w := concat (map le_bytes32 (be_words ?w)), sh_w_len := 0\<rparr>"
    have "md_loop block True False p s = md_loop block True False (drop c p) ?s"
      using c w ok(2) by (subst md_loop.simps)
        (simp add: wl_def [symmetric] Let_def pad_block_def c_def words_be block_mixing del: map_map)
    moreover have "sha_ok ?s" by (simp add: sha_ok_def)
    moreover have "absorb (mixing block) (sh_h s) (pending s @ p @ r) = absorb (mixing block) (sh_h ?s) (pending ?s @ drop c p @ r)" for r
    proof -
      have e: "pending s @ p @ r = ?w @ drop c p @ r" by (simp add: pending_def wl_def)
      show ?thesis unfolding e absorb_block [OF w] by (simp add: pending_def)
    qed
    moreover have "length (pending s @ p) = 64 + length (pending ?s @ drop c p)"
      using ok c by (simp add: pending_def c_def)
    then have "length (pending s @ p) mod 64 = length (pending ?s @ drop c p) mod 64" by (simp only: mod_add_self1)
    ultimately show ?thesis using less.hyps [of "drop c p" ?s] c by simp
  qed
qed

end


text \<open>Neither block function fails.\<close>

lemma sha1_rounds_total:
  "set rs \<subseteq> {..<80} \<Longrightarrow> \<exists>s'. fold (\<lambda>round r. bind_res r (sha1_round w round)) rs (Inr s) = Inr s'"
proof (induction rs arbitrary: s)
  case (Cons x xs)
  obtain a b c d e where s: "s = (a, b, c, d, e)" by (cases s)
  have "x < 80" using Cons.prems by simp
  then have "\<exists>f. SHA1_F x b c d = Inr f" by (auto simp: SHA1_F_def)
  then obtain f where "SHA1_F x b c d = Inr f" ..
  then obtain q where "sha1_round w x s = Inr q" by (simp add: sha1_round_def s Let_def)
  then show ?case using Cons by simp
next
  case Nil
  show ?case by (intro exI [of _ s]) simp
qed

interpretation sha1: md_hash sha1_block
proof
  fix h w
  have "set [0..<80] \<subseteq> {..<80 :: nat}" by auto
  from sha1_rounds_total [OF this] obtain s
    where "fold (\<lambda>round r. bind_res r (sha1_round (SHA1_ScheduleMessage w) round)) [0..<80]
      (Inr (h ! 0, h ! 1, h ! 2, h ! 3, h ! 4)) = Inr s" by blast
  then show "\<exists>h'. sha1_block h w = Inr h'"
    unfolding sha1_block_def SHA1_Rounds_def by (cases s) simp
qed

interpretation sha2: md_hash sha2_block
  by unfold_locales (simp add: sha2_block_def SHA2_Rounds_def split: prod.splits)

text \<open>Digesting a message in pieces.\<close>

fun digest_pieces ::
  "(sha_state_t \<Rightarrow> bool \<Rightarrow> bytes \<Rightarrow> fault + err_t \<times> sha_state_t) \<Rightarrow> sha_state_t \<Rightarrow> bytes list \<Rightarrow> fault + err_t \<times> sha_state_t"
where
  "digest_pieces digest s [] = Inl AssertFail"
| "digest_pieces digest s [p] = digest s True p"
| "digest_pieces digest s (p # ps) = bind_res (digest s False p) (\<lambda>(_, s'). digest_pieces digest s' ps)"

context md_hash
begin

lemma digest_pieces_correct:
  assumes "ps \<noteq> []" and "sha_ok s" and "\<not> sh_finalized s"
    and "absorb (mixing block) h0 m = (sh_h s, pending s)" and "sh_total_len s = of_nat (length m)"
  shows "\<exists>s'. digest_pieces (md_digest block) s ps = Inr (EOK, s') \<and> sh_finalized s' \<and>
    sh_h s' = map HTOBE32 (md_spec (mixing block) h0 (m @ concat ps))"
  using assms
proof (induction ps arbitrary: s m)
  case (Cons p ps)
  let ?s = "\<lambda>f. s\<lparr>sh_total_len := sh_total_len s + of_nat (length p), sh_finalized := f\<rparr>"
  have ok: "sha_ok (?s f)" "pending (?s f) = pending s" for f using Cons.prems(2) by (simp_all add: sha_ok_def pending_def)
  have len: "sh_total_len s + of_nat (length p) = (of_nat (length (m @ p)) :: u32)" using Cons.prems(5) by simp
  show ?case
  proof (cases ps)
    case Nil
    obtain s' where s': "md_loop block True False p (?s True) = Inr s'" "sh_finalized s'"
      "sh_h s' = map HTOBE32 (fst (absorb (mixing block) (sh_h s) (pending s @ p @ 0x80 #
         replicate ((119 - length (pending s @ p) mod 64) mod 64) 0 @ len_field (of_nat (length (m @ p))))))"
      using loop_final [OF ok(1) [of True], of p] ok(2) len by auto
    have "length (pending s) = length m mod 64" using Cons.prems(4) absorb_rest [of "mixing block" h0 m] by simp
    then have "length (pending s @ p) mod 64 = length (m @ p) mod 64" by (simp add: mod_add_left_eq)
    then have "0x80 # replicate ((119 - length (pending s @ p) mod 64) mod 64) 0 @ len_field (of_nat (length (m @ p))) =
        md_pad (length (m @ p))"
      by (simp add: md_pad_def len_field_def)
    then have "fst (absorb (mixing block) (sh_h s) (pending s @ p @ 0x80 #
         replicate ((119 - length (pending s @ p) mod 64) mod 64) 0 @ len_field (of_nat (length (m @ p))))) =
        md_spec (mixing block) h0 (m @ p)"
      using absorb_append [of "mixing block" h0 m "p @ md_pad (length (m @ p))"] Cons.prems(4)
      by (simp add: md_spec_def)
    then show ?thesis using s' Cons.prems(3) Nil by (simp add: md_digest_def)
  next
    case (Cons q qs)
    obtain s' where s': "md_loop block False False p (?s False) = Inr s'" "sha_ok s'" "\<not> sh_finalized s'"
      "(sh_h s', pending s') = absorb (mixing block) (sh_h s) (pending s @ p)" "sh_total_len s' = of_nat (length (m @ p))"
      using loop_more [OF ok(1) [of False], of False p] ok(2) len by auto
    have a: "absorb (mixing block) h0 (m @ p) = (sh_h s', pending s')"
      using absorb_append [of "mixing block" h0 m p] Cons.prems(4) s'(4) by simp
    show ?thesis
      using Cons.IH [OF _ s'(2,3) a s'(5)] s'(1) Cons.prems(3) Cons by (simp add: md_digest_def)
  qed
qed simp

end

text \<open>The initial states.\<close>

lemma init_ok: "sha_ok SHA1_InitState" "\<not> sh_finalized SHA1_InitState" "pending SHA1_InitState = []"
  "sh_total_len SHA1_InitState = 0"
  by (simp_all add: sha_ok_def pending_def SHA1_InitState_def)

text \<open>
  C11: SHA-1 of a message digested in any number of pieces of any sizes: the digest succeeds, and the
  hash that \<open>SHA1_GetHashVal\<close> returns is the big endian form of the state after all blocks of the
  message with the padding of the standard (a one bit, zeros, the bit length).
\<close>

theorem SHA1_pieces:
  assumes "ps \<noteq> []"
  shows "\<exists>s. digest_pieces SHA1_Digest SHA1_InitState ps = Inr (EOK, s) \<and>
     hash_bytes s = concat (map be_bytes32 (md_spec (mixing sha1_block) (sh_h SHA1_InitState) (concat ps)))"
proof -
  obtain s where s: "digest_pieces SHA1_Digest SHA1_InitState ps = Inr (EOK, s)"
      "sh_h s = map HTOBE32 (md_spec (mixing sha1_block) (sh_h SHA1_InitState) (concat ps))"
    using sha1.digest_pieces_correct [OF assms init_ok(1,2), of "sh_h SHA1_InitState" "[]"] init_ok(3,4)
    by (auto simp: SHA1_Digest_def absorb_short)
  moreover have "hash_bytes s = concat (map be_bytes32 (md_spec (mixing sha1_block) (sh_h SHA1_InitState) (concat ps)))"
    unfolding hash_bytes_def s(2) map_map by (simp add: comp_def HTOBE32_bytes)
  ultimately show ?thesis by blast
qed

theorem SHA1_pieces_witness:
  "\<exists>s. digest_pieces SHA1_Digest SHA1_InitState [[97], [98, 99]] = Inr (EOK, s) \<and>
     hash_bytes s = concat (map be_bytes32 (md_spec (mixing sha1_block) (sh_h SHA1_InitState) (concat [[97], [98, 99]])))"
  by (rule SHA1_pieces) simp

text \<open>The same for SHA-2.\<close>

lemma SHA2_pieces:
  assumes "ps \<noteq> []"
  shows "\<exists>s. digest_pieces SHA2_Digest (snd (SHA2_InitState ty)) ps = Inr (EOK, s) \<and>
     hash_bytes s = concat (map be_bytes32 (md_spec (mixing sha2_block) (sh_h (snd (SHA2_InitState ty))) (concat ps)))"
proof -
  have i: "sha_ok (snd (SHA2_InitState ty))" "\<not> sh_finalized (snd (SHA2_InitState ty))"
    "pending (snd (SHA2_InitState ty)) = []" "sh_total_len (snd (SHA2_InitState ty)) = 0"
    by (simp_all add: sha_ok_def pending_def SHA2_InitState_def)
  obtain s where s: "digest_pieces SHA2_Digest (snd (SHA2_InitState ty)) ps = Inr (EOK, s)"
      "sh_h s = map HTOBE32 (md_spec (mixing sha2_block) (sh_h (snd (SHA2_InitState ty))) (concat ps))"
    using sha2.digest_pieces_correct [OF assms i(1,2), of "sh_h (snd (SHA2_InitState ty))" "[]"] i(3,4)
    by (auto simp: SHA2_Digest_def absorb_short)
  moreover have "hash_bytes s = concat (map be_bytes32 (md_spec (mixing sha2_block) (sh_h (snd (SHA2_InitState ty))) (concat ps)))"
    unfolding hash_bytes_def s(2) map_map by (simp add: comp_def HTOBE32_bytes)
  ultimately show ?thesis by blast
qed

text \<open>
  \<open>SHA2_GetHashVal\<close> takes the number of hexadecimal digits for the number of bytes: asked for 64 bytes
  of a SHA-256 hash, which has 32, it reads past the state vector.
\<close>

theorem SHA2_GetHashVal_overreads:
  assumes "length (sh_h s) = 8" and "sh_finalized s"
  shows "SHA2_GetHashVal (SHA2_TYPE_256, s) 64 = Inl OutOfBounds"
proof -
  have "length (hash_bytes s) = 32" unfolding hash_bytes_def concat_le_bytes32 assms(1) by simp
  then show ?thesis using assms(2) by (simp add: SHA2_GetHashVal_def mem_read_def)
qed

theorem SHA2_GetHashVal_overreads_witness:
  "SHA2_GetHashVal (SHA2_TYPE_256, \<lparr>sh_h = replicate 8 0, sh_total_len = 0, sh_w_len = 0, sh_w = replicate 64 0,
     sh_finalized = True\<rparr>) 64 = Inl OutOfBounds"
  by (rule SHA2_GetHashVal_overreads) simp_all

end
