(* ===== verification/Util_Print.thy ===== *)
theory Util_Print
  imports Prelude Util_String
begin

text \<open>
  The printing half of \<^verbatim>\<open>util/src/stdio.c\<close>: character classes, the parser of format specifiers
  (\<open>fs_process\<close> and its parts), \<open>print_char\<close>, \<open>print_str\<close>, \<open>print_int\<close> and the driver
  \<open>vsnprintf\<close>.

  A C string is the list of its characters; reading at or past the end of the list reads the
  terminating zero (\<open>char_at\<close>). A parser takes the rest of the format string and returns how many
  characters it consumed, with the value it stored through its pointer argument. A printing
  routine returns the characters it wrote from \<open>dst\<close> on. The variable arguments are a list of
  tagged values; \<open>va_arg\<close> with another type, or past the last argument, is a fault.
  \<open>int\<close> arithmetic on the numbers in a format wraps (\<open>wrap32\<close>); the target's \<open>char\<close> is unsigned,
  \<open>int\<close> and \<open>long\<close> have 32 bits. \<open>print_double\<close> is not modelled: it is an argument of \<open>vsnprintf\<close>.
\<close>

section \<open>Data\<close>

definition wrap32 :: "int \<Rightarrow> int" where
  "wrap32 x = sint (word_of_int x :: u32)"

definition char_at :: "bytes \<Rightarrow> u8" where
  "char_at s = (case s of [] \<Rightarrow> 0 | c # _ \<Rightarrow> c)"

definition PARAMETER_NONE :: int where "PARAMETER_NONE = -1"

definition FLAGS_NONE :: u32 where "FLAGS_NONE = 0x00"
definition FLAGS_MINUS :: u32 where "FLAGS_MINUS = 0x01"
definition FLAGS_PLUS :: u32 where "FLAGS_PLUS = 0x02"
definition FLAGS_SPACE :: u32 where "FLAGS_SPACE = 0x04"
definition FLAGS_ZERO :: u32 where "FLAGS_ZERO = 0x08"
definition FLAGS_HASH :: u32 where "FLAGS_HASH = 0x10"

definition WIDTH_NONE :: int where "WIDTH_NONE = -1"
definition WIDTH_PARAMETER :: int where "WIDTH_PARAMETER = -2"
definition PRECISION_NONE :: int where "PRECISION_NONE = -1"
definition PRECISION_PARAMETER :: int where "PRECISION_PARAMETER = -2"

datatype fs_length =
    LENGTH_NONE | LENGTH_CHAR | LENGTH_SHORT | LENGTH_LONG | LENGTH_LONG_LONG
  | LENGTH_LONG_DOUBLE | LENGTH_SIZE_T | LENGTH_INTMAX_T | LENGTH_PTRDIFF_T

datatype fs_type =
    TYPE_NONE | TYPE_INT | TYPE_DOUBLE | TYPE_STR | TYPE_CHAR | TYPE_PTR
  | TYPE_PRINT_LENGTH | TYPE_PERCENT | TYPE_END_OF_STRING

definition TYPEMOD_NONE :: u32 where "TYPEMOD_NONE = 0x00"
definition TYPEMOD_BASE_FROM_PREFIX :: u32 where "TYPEMOD_BASE_FROM_PREFIX = 0x01"
definition TYPEMOD_UNSIGNED :: u32 where "TYPEMOD_UNSIGNED = 0x02"
definition TYPEMOD_CAPITAL :: u32 where "TYPEMOD_CAPITAL = 0x04"
definition TYPEMOD_HEX :: u32 where "TYPEMOD_HEX = 0x08"
definition TYPEMOD_OCTAL :: u32 where "TYPEMOD_OCTAL = 0x10"
definition TYPEMOD_EXP :: u32 where "TYPEMOD_EXP = 0x20"
definition TYPEMOD_TRUNC :: u32 where "TYPEMOD_TRUNC = 0x40"
definition TYPEMOD_HEXFLOAT :: u32 where "TYPEMOD_HEXFLOAT = 0x80"

lemmas flag_defs = FLAGS_NONE_def FLAGS_MINUS_def FLAGS_PLUS_def FLAGS_SPACE_def FLAGS_ZERO_def
  FLAGS_HASH_def
lemmas typemod_defs = TYPEMOD_NONE_def TYPEMOD_BASE_FROM_PREFIX_def TYPEMOD_UNSIGNED_def
  TYPEMOD_CAPITAL_def TYPEMOD_HEX_def TYPEMOD_OCTAL_def TYPEMOD_EXP_def TYPEMOD_TRUNC_def
  TYPEMOD_HEXFLOAT_def
lemmas none_defs = PARAMETER_NONE_def WIDTH_NONE_def WIDTH_PARAMETER_def PRECISION_NONE_def
  PRECISION_PARAMETER_def

record fs =
  fs_flags :: u32
  fs_parameter :: int
  fs_width :: int
  fs_precision :: int
  fs_len :: fs_length
  fs_ty :: fs_type
  fs_mods :: u32
  fs_next_char :: u8

definition digits :: bytes where
  "digits = [48, 49, 50, 51, 52, 53, 54, 55, 56, 57, 97, 98, 99, 100, 101, 102]"

section \<open>Character classes\<close>

definition isdigit :: "int \<Rightarrow> bool" where
  "isdigit c \<longleftrightarrow> c \<ge> 48 \<and> c \<le> 57"

definition isxdigit :: "int \<Rightarrow> bool" where
  "isxdigit c = (let c = tolower c in isdigit c \<or> (c \<ge> 97 \<and> c \<le> 102))"

definition isspace :: "int \<Rightarrow> bool" where
  "isspace c \<longleftrightarrow> c = 9 \<or> c = 10 \<or> c = 11 \<or> c = 12 \<or> c = 13 \<or> c = 32"

definition toupper :: "int \<Rightarrow> int" where
  "toupper c = (if c \<ge> 97 \<and> c \<le> 122 then c - (97 - 65) else c)"

section \<open>The parts of a format specifier\<close>

fun scan_num :: "int \<Rightarrow> bytes \<Rightarrow> int \<times> nat" where
  "scan_num p [] = (p, 0)"
| "scan_num p (c # cs) =
     (if isdigit (uint c)
      then let (v, n) = scan_num (wrap32 (p * 10 + uint c - 48)) cs in (v, Suc n)
      else (p, 0))"

definition fs_process_parameter :: "bytes \<Rightarrow> nat \<times> int" where
  "fs_process_parameter format =
     (if char_at format \<ge> 49 \<or> char_at format \<le> 57
      then let (p, n) = scan_num 0 format in
           if char_at (drop n format) \<noteq> 36 then (0, PARAMETER_NONE) else (n + 1, p)
      else (0, PARAMETER_NONE))"

fun flags_loop :: "u32 \<Rightarrow> bytes \<Rightarrow> nat \<times> u32" where
  "flags_loop f [] = (0, f)"
| "flags_loop f (c # cs) =
     (if c = 45 then let (n, r) = flags_loop (f OR FLAGS_MINUS) cs in (Suc n, r)
      else if c = 43 then
        let (n, r) = flags_loop ((f OR FLAGS_PLUS) AND NOT FLAGS_SPACE) cs in (Suc n, r)
      else if c = 32 then
        let (n, r) = flags_loop (if f AND FLAGS_PLUS = 0 then f OR FLAGS_SPACE else f) cs
        in (Suc n, r)
      else if c = 48 then let (n, r) = flags_loop (f OR FLAGS_ZERO) cs in (Suc n, r)
      else if c = 35 then let (n, r) = flags_loop (f OR FLAGS_HASH) cs in (Suc n, r)
      else (0, f))"

definition fs_process_flags :: "bytes \<Rightarrow> nat \<times> u32" where
  "fs_process_flags format = flags_loop FLAGS_NONE format"

definition fs_process_width :: "bytes \<Rightarrow> nat \<times> int" where
  "fs_process_width format =
     (if isdigit (uint (char_at format)) then let (w, n) = scan_num 0 format in (n, w)
      else if char_at format = 42 then (1, WIDTH_PARAMETER)
      else (0, WIDTH_NONE))"

definition fs_process_precision :: "bytes \<Rightarrow> nat \<times> int" where
  "fs_process_precision format =
     (if char_at format = 46
      then let c = drop 1 format in
           if isdigit (uint (char_at c)) then let (p, n) = scan_num 0 c in (n + 1, p)
           else if char_at c = 42 then (2, PRECISION_PARAMETER)
           else (1, PRECISION_NONE)
      else (0, PRECISION_NONE))"

text \<open>\<open>length_step l c\<close> is one round of the loop: the new length, whether the character is
  consumed, and whether the loop is done.\<close>

definition length_step :: "fs_length \<Rightarrow> u8 \<Rightarrow> fs_length \<times> bool \<times> bool" where
  "length_step l c =
     (if c = 104 then
        (if l = LENGTH_NONE then (LENGTH_SHORT, True, False)
         else if l = LENGTH_SHORT then (LENGTH_CHAR, True, True)
         else (l, False, True))
      else if c = 108 then
        (if l = LENGTH_NONE then (LENGTH_LONG, True, False)
         else if l = LENGTH_LONG then (LENGTH_LONG_LONG, True, True)
         else (l, False, True))
      else if c = 76 then
        (if l = LENGTH_NONE then (LENGTH_LONG_DOUBLE, True, True) else (l, False, True))
      else if c = 122 then
        (if l = LENGTH_NONE then (LENGTH_SIZE_T, True, True) else (l, False, True))
      else if c = 106 then
        (if l = LENGTH_NONE then (LENGTH_INTMAX_T, True, True) else (l, False, True))
      else if c = 116 then
        (if l = LENGTH_NONE then (LENGTH_PTRDIFF_T, True, True) else (l, False, True))
      else (l, False, True))"

fun length_loop :: "fs_length \<Rightarrow> bytes \<Rightarrow> nat \<times> fs_length" where
  "length_loop l [] = (0, l)"
| "length_loop l (c # cs) =
     (case length_step l c of (l', eat, done) \<Rightarrow>
        if done then (if eat then 1 else 0, l')
        else let (n, r) = length_loop l' cs in (Suc n, r))"

definition fs_process_length :: "bytes \<Rightarrow> nat \<times> fs_length" where
  "fs_process_length format = length_loop LENGTH_NONE format"

definition fs_process_type :: "bytes \<Rightarrow> nat \<times> fs_type \<times> u32" where
  "fs_process_type format =
     (let c = char_at format in
      if c = 100 then (1, TYPE_INT, TYPEMOD_NONE)
      else if c = 105 then (1, TYPE_INT, TYPEMOD_BASE_FROM_PREFIX)
      else if c = 117 then (1, TYPE_INT, TYPEMOD_UNSIGNED)
      else if c = 120 then (1, TYPE_INT, TYPEMOD_UNSIGNED OR TYPEMOD_HEX)
      else if c = 88 then (1, TYPE_INT, TYPEMOD_UNSIGNED OR TYPEMOD_HEX OR TYPEMOD_CAPITAL)
      else if c = 111 then (1, TYPE_INT, TYPEMOD_UNSIGNED OR TYPEMOD_OCTAL)
      else if c = 102 then (1, TYPE_DOUBLE, TYPEMOD_NONE)
      else if c = 70 then (1, TYPE_DOUBLE, TYPEMOD_CAPITAL)
      else if c = 101 then (1, TYPE_DOUBLE, TYPEMOD_EXP)
      else if c = 69 then (1, TYPE_DOUBLE, TYPEMOD_EXP OR TYPEMOD_CAPITAL)
      else if c = 103 then (1, TYPE_DOUBLE, TYPEMOD_TRUNC)
      else if c = 71 then (1, TYPE_DOUBLE, TYPEMOD_TRUNC OR TYPEMOD_CAPITAL)
      else if c = 65 then (1, TYPE_DOUBLE, TYPEMOD_HEXFLOAT OR TYPEMOD_CAPITAL)
      else if c = 97 then (1, TYPE_DOUBLE, TYPEMOD_HEXFLOAT)
      else if c = 115 then (1, TYPE_STR, TYPEMOD_NONE)
      else if c = 99 then (1, TYPE_CHAR, TYPEMOD_NONE)
      else if c = 112 then (1, TYPE_PTR, TYPEMOD_NONE)
      else if c = 110 then (1, TYPE_PRINT_LENGTH, TYPEMOD_NONE)
      else if c = 37 then (1, TYPE_PERCENT, TYPEMOD_NONE)
      else if c = 0 then (0, TYPE_END_OF_STRING, TYPEMOD_NONE)
      else (0, TYPE_NONE, TYPEMOD_NONE))"

definition fs_process_next_char :: "bytes \<Rightarrow> nat \<times> u8" where
  "fs_process_next_char format = (0, char_at format)"

definition fs_process :: "bytes \<Rightarrow> nat \<times> fs" where
  "fs_process format =
     (let c = format;
          (n1, par) = fs_process_parameter c; c = drop n1 c;
          (n2, fl) = fs_process_flags c; c = drop n2 c;
          (n3, w) = fs_process_width c; c = drop n3 c;
          (n4, p) = fs_process_precision c; c = drop n4 c;
          (n5, l) = fs_process_length c; c = drop n5 c;
          (n6, t, tm) = fs_process_type c; c = drop n6 c;
          (n7, nc) = fs_process_next_char c
      in (n1 + n2 + n3 + n4 + n5 + n6 + n7,
          \<lparr>fs_flags = fl, fs_parameter = par, fs_width = w, fs_precision = p, fs_len = l,
           fs_ty = t, fs_mods = tm, fs_next_char = nc\<rparr>))"

section \<open>Printing one argument\<close>

text \<open>\<open>size\<close> arguments are the free characters at \<open>dst\<close>; a negative precision converts to a large
  \<open>size_t\<close>.\<close>

definition print_char :: "u32 \<Rightarrow> u8 \<Rightarrow> fs \<Rightarrow> bytes" where
  "print_char sz c f =
     (let char_num = (if fs_precision f \<noteq> PRECISION_NONE then word_of_int (fs_precision f) else 1 :: u32)
      in replicate (min (unat sz) (unat char_num)) c)"

fun str_loop :: "nat \<Rightarrow> bytes \<Rightarrow> bytes" where
  "str_loop len [] = []"
| "str_loop len (c # cs) = (if c = 0 \<or> len = 0 then [] else c # str_loop (len - 1) cs)"

definition print_str :: "u32 \<Rightarrow> bytes \<Rightarrow> fs \<Rightarrow> bytes" where
  "print_str sz s f =
     (let len = (if fs_precision f \<noteq> PRECISION_NONE then word_of_int (fs_precision f) else sz :: u32);
          len = (if len > sz then sz else len)
      in str_loop (unat len) s)"

text \<open>The digits from the last one on, in front of those already written.\<close>

function num_loop :: "nat \<Rightarrow> nat \<Rightarrow> bytes \<Rightarrow> bytes" where
  "num_loop b v n =
     (let n = digits ! (v mod b) # n; v' = v div b
      in if v' \<noteq> 0 \<and> 1 < b then num_loop b v' n else n)"
  by pat_completeness auto
termination by (relation "measure (\<lambda>(b, v, n). v)") (auto intro!: div_less_dividend gr0I)

declare num_loop.simps [simp del]

definition num_base :: "fs \<Rightarrow> nat" where
  "num_base f = (if fs_mods f AND TYPEMOD_HEX \<noteq> 0 then 16 else 10)"

text \<open>\<open>u\<close> is the union's memory; its members are its low bytes.\<close>

definition num_negative :: "u64 \<Rightarrow> fs \<Rightarrow> bool" where
  "num_negative u f =
     (if fs_mods f AND TYPEMOD_UNSIGNED = 0
      then (case fs_len f of
              LENGTH_LONG_LONG \<Rightarrow> sint u < 0
            | LENGTH_LONG \<Rightarrow> sint (ucast u :: u32) < 0
            | LENGTH_SHORT \<Rightarrow> sint (ucast u :: u16) < 0
            | LENGTH_CHAR \<Rightarrow> sint (ucast u :: u8) < 0
            | _ \<Rightarrow> sint (ucast u :: u32) < 0)
      else False)"

definition num_value :: "u64 \<Rightarrow> fs \<Rightarrow> nat" where
  "num_value u f =
     (let negative = num_negative u f in
      case fs_len f of
        LENGTH_LONG_LONG \<Rightarrow> unat (if negative then - u else u)
      | LENGTH_LONG \<Rightarrow> unat (if negative then - (ucast u :: u32) else ucast u)
      | LENGTH_SHORT \<Rightarrow> unat (if negative then - (scast (ucast u :: u16) :: u32) else ucast (ucast u :: u16))
      | LENGTH_CHAR \<Rightarrow> unat (if negative then - (ucast (ucast u :: u8) :: u32) else ucast (ucast u :: u8))
      | _ \<Rightarrow> unat (if negative then - (ucast u :: u32) else ucast u))"

definition num_prefix :: "u64 \<Rightarrow> fs \<Rightarrow> bytes" where
  "num_prefix u f =
     (if num_negative u f then [45]
      else if fs_mods f AND TYPEMOD_UNSIGNED = 0 then
        (if fs_flags f AND FLAGS_PLUS \<noteq> 0 then [43]
         else if fs_flags f AND FLAGS_SPACE \<noteq> 0 then [32] else [])
      else if fs_flags f AND FLAGS_HASH \<noteq> 0 \<and> num_base f = 16 then [48, 120]
      else [])"

text \<open>The lengths of the leading spaces and the leading zeros.\<close>

definition num_pad :: "int \<Rightarrow> int \<Rightarrow> fs \<Rightarrow> int \<times> int" where
  "num_pad n_len p_len f =
     (let lz = (if fs_precision f \<noteq> PRECISION_NONE then max (fs_precision f - n_len) 0 else 0)
      in if fs_width f \<noteq> WIDTH_NONE then
           (if fs_flags f AND FLAGS_ZERO \<noteq> 0 \<and> fs_precision f = PRECISION_NONE
            then (0, max (fs_width f - (n_len + p_len)) 0)
            else (max (fs_width f - (n_len + p_len + lz)) 0, lz))
         else (0, lz))"

text \<open>What does not fit is taken off the parts, the last part first.\<close>

definition num_cut :: "int \<Rightarrow> int \<times> int \<times> int \<times> int \<Rightarrow> int \<times> int \<times> int \<times> int" where
  "num_cut sz = (\<lambda>(ls, p, lz, n).
     let print_len = ls + p + lz + n in
     if print_len > sz then
       let n = n - (print_len - sz);
           (lz, n) = (if n < 0 then (lz + n, 0) else (lz, n));
           (p, lz) = (if lz < 0 then (p + lz, 0) else (p, lz));
           (ls, lz) = (if p < 0 then (ls + p, 0) else (ls, lz))
       in (ls, p, lz, n)
     else (ls, p, lz, n))"

definition print_int :: "u32 \<Rightarrow> u64 \<Rightarrow> fs \<Rightarrow> fault + bytes" where
  "print_int sz u f =
     (let n = num_loop (num_base f) (num_value u f) [];
          prefix = num_prefix u f
      in if 25 < length n then Inl OutOfBounds
         else
           let (ls, lz) = num_pad (int (length n)) (int (length prefix)) f;
               (ls, p_len, lz, n_len) =
                 num_cut (uint sz) (ls, int (length prefix), lz, int (length n))
           in Inr (replicate (nat ls) 32 @ take (nat p_len) prefix @ replicate (nat lz) 48
                   @ take (nat n_len) n))"

section \<open>The driver\<close>

datatype 'd va = VInt u32 | VLong u32 | VLongLong u64 | VStr bytes | VDouble 'd

definition va_int :: "'d va list \<Rightarrow> fault + u32 \<times> 'd va list" where
  "va_int args = (case args of VInt i # rest \<Rightarrow> Inr (i, rest) | _ \<Rightarrow> Inl Uninit)"

text \<open>The fetched width and precision.\<close>

definition fetch_width :: "fs \<Rightarrow> 'd va list \<Rightarrow> fault + fs \<times> 'd va list" where
  "fetch_width f args =
     (if fs_width f = WIDTH_PARAMETER
      then bind_res (va_int args) (\<lambda>(i, rest).
             Inr (if sint i < 0
                  then f\<lparr>fs_width := wrap32 (- sint i), fs_flags := fs_flags f OR FLAGS_MINUS\<rparr>
                  else f\<lparr>fs_width := sint i\<rparr>, rest))
      else Inr (f, args))"

definition fetch_precision :: "fs \<Rightarrow> 'd va list \<Rightarrow> fault + fs \<times> 'd va list" where
  "fetch_precision f args =
     (if fs_precision f = PRECISION_PARAMETER
      then bind_res (va_int args) (\<lambda>(i, rest). Inr (f\<lparr>fs_precision := sint i\<rparr>, rest))
      else Inr (f, args))"

text \<open>
  The \<open>switch\<close> on the type: the characters written at \<open>s\<close>, the number by which \<open>s\<close> and \<open>_size\<close>
  move, and the remaining arguments.
\<close>

definition print_arg ::
  "(u32 \<Rightarrow> 'd \<Rightarrow> fs \<Rightarrow> bytes) \<Rightarrow> u32 \<Rightarrow> fs \<Rightarrow> 'd va list \<Rightarrow> fault + bytes \<times> nat \<times> 'd va list"
where
  "print_arg print_double sz f args =
     (case fs_ty f of
        TYPE_CHAR \<Rightarrow> bind_res (va_int args) (\<lambda>(i, rest).
          let out = print_char sz (ucast i) f in Inr (out, length out, rest))
      | TYPE_STR \<Rightarrow> (case args of
          VStr s # rest \<Rightarrow> let out = print_str sz s f in Inr (out, length out, rest)
        | _ \<Rightarrow> Inl Uninit)
      | TYPE_INT \<Rightarrow>
          bind_res
            (case (fs_len f, args) of
               (LENGTH_LONG_LONG, VLongLong ll # rest) \<Rightarrow> Inr (ll, rest)
             | (LENGTH_LONG_LONG, _) \<Rightarrow> Inl Uninit
             | (LENGTH_LONG, VLong l # rest) \<Rightarrow> Inr (ucast l, rest)
             | (LENGTH_LONG, _) \<Rightarrow> Inl Uninit
             | (_, VInt i # rest) \<Rightarrow> Inr (ucast i, rest)
             | _ \<Rightarrow> Inl Uninit)
            (\<lambda>(u, rest). bind_res (print_int sz u f) (\<lambda>out. Inr (out, length out, rest)))
      | TYPE_DOUBLE \<Rightarrow> (case args of
          VDouble d # rest \<Rightarrow> let out = print_double sz d f in Inr (out, length out, rest)
        | _ \<Rightarrow> Inl Uninit)
      | TYPE_PERCENT \<Rightarrow> Inr (if sz \<noteq> 0 then [37] else [], 1, args)
      | _ \<Rightarrow> Inr ([], 0, args))"

text \<open>
  The loop over the format: \<open>buf\<close> is the object that \<open>str\<close> points to, \<open>s\<close> the write offset and
  \<open>sz\<close> the variable \<open>_size\<close>.
\<close>

function vsn_loop ::
  "(u32 \<Rightarrow> 'd \<Rightarrow> fs \<Rightarrow> bytes) \<Rightarrow> bytes \<Rightarrow> nat \<Rightarrow> u32 \<Rightarrow> bytes \<Rightarrow> 'd va list \<Rightarrow> fault + bytes \<times> nat"
where
  "vsn_loop print_double buf s sz fmt args =
     (if char_at fmt = 0 then Inr (buf, s)
      else if char_at fmt \<noteq> 37 then
        (if sz \<noteq> 0
         then (case mem_write buf s [char_at fmt] of
                 Inl e \<Rightarrow> Inl e
               | Inr buf' \<Rightarrow> vsn_loop print_double buf' (s + 1) (sz - 1) (drop 1 fmt) args)
         else vsn_loop print_double buf s sz (drop 1 fmt) args)
      else
        (case fs_process (drop 1 fmt) of (n, f0) \<Rightarrow>
         case fetch_width f0 args of
           Inl e \<Rightarrow> Inl e
         | Inr (f1, args1) \<Rightarrow>
         (case fetch_precision f1 args1 of
            Inl e \<Rightarrow> Inl e
          | Inr (f2, args2) \<Rightarrow>
          (case print_arg print_double sz f2 args2 of
             Inl e \<Rightarrow> Inl e
           | Inr (out, k, args3) \<Rightarrow>
           (case mem_write buf s out of
              Inl e \<Rightarrow> Inl e
            | Inr buf' \<Rightarrow>
                vsn_loop print_double buf' (s + k) (sz - of_nat k) (drop n (drop 1 fmt)) args3)))))"
  by pat_completeness auto
termination
proof (relation "measure (\<lambda>(pd, buf, s, sz, fmt, args). length fmt)", goal_cases)
  case 1 then show ?case by simp
qed (auto simp: char_at_def split: list.splits if_splits)

declare vsn_loop.simps [simp del]

definition vsnprintf ::
  "(u32 \<Rightarrow> 'd \<Rightarrow> fs \<Rightarrow> bytes) \<Rightarrow> bytes \<Rightarrow> u32 \<Rightarrow> bytes \<Rightarrow> 'd va list \<Rightarrow> fault + bytes \<times> nat"
where
  "vsnprintf print_double buf sz format args =
     bind_res (vsn_loop print_double buf 0 (if sz > 0 then sz - 1 else 0) format args)
       (\<lambda>(buf, s). if sz > 0
          then bind_res (mem_write buf s [0]) (\<lambda>buf. Inr (buf, s)) else Inr (buf, s))"

definition snprintf ::
  "(u32 \<Rightarrow> 'd \<Rightarrow> fs \<Rightarrow> bytes) \<Rightarrow> bytes \<Rightarrow> u32 \<Rightarrow> bytes \<Rightarrow> 'd va list \<Rightarrow> fault + bytes \<times> nat"
where
  "snprintf print_double out sz fmt args = vsnprintf print_double out sz fmt args"

definition sprintf ::
  "(u32 \<Rightarrow> 'd \<Rightarrow> fs \<Rightarrow> bytes) \<Rightarrow> bytes \<Rightarrow> bytes \<Rightarrow> 'd va list \<Rightarrow> fault + bytes \<times> nat"
where
  "sprintf print_double out fmt args = vsnprintf print_double out (- 1) fmt args"


section \<open>The digits of a number\<close>

text \<open>The value of a digit character and of a string of digits in base \<open>b\<close>.\<close>

definition digit_val :: "u8 \<Rightarrow> nat" where
  "digit_val c = (if 48 \<le> unat c \<and> unat c \<le> 57 then unat c - 48 else unat c - 87)"

definition num_of :: "nat \<Rightarrow> bytes \<Rightarrow> nat" where
  "num_of b ds = foldl (\<lambda>v c. v * b + digit_val c) 0 ds"

definition is_digit_in :: "nat \<Rightarrow> u8 \<Rightarrow> bool" where
  "is_digit_in b c \<longleftrightarrow> (48 \<le> unat c \<and> unat c \<le> 57 \<or> 97 \<le> unat c \<and> unat c \<le> 102) \<and> digit_val c < b"

lemma below_16:
  assumes "k < 16"
  shows "k \<in> set [0, 1, 2, 3, 4, 5, 6, 7, 8, 9, 10, 11, 12, 13, 14, 15 :: nat]"
proof -
  have "[0, 1, 2, 3, 4, 5, 6, 7, 8, 9, 10, 11, 12, 13, 14, 15] = [0..<16]"
    by (simp add: upt_rec)
  then show ?thesis using assms by simp
qed

lemma digits_nth:
  assumes "k < 16"
  shows "digit_val (digits ! k) = k" and "k < b \<Longrightarrow> is_digit_in b (digits ! k)"
  using below_16 [OF assms]
  by (auto simp: digit_val_def is_digit_in_def digits_def)

lemma num_of_snoc [simp]: "num_of b (ds @ [c]) = num_of b ds * b + digit_val c"
  by (simp add: num_of_def)

lemma num_of_Nil [simp]: "num_of b [] = 0"
  by (simp add: num_of_def)

text \<open>The loop as a recursion on the number.\<close>

lemma num_loop_last:
  assumes "1 < b"
  shows "num_loop b v n = (if v div b = 0 then [] else num_loop b (v div b) []) @ digits ! (v mod b) # n"
  using assms
proof (induction v arbitrary: n rule: less_induct)
  case (less v)
  show ?case
  proof (cases "v div b = 0")
    case True
    then show ?thesis by (subst num_loop.simps) (simp add: Let_def)
  next
    case False
    then have lt: "v div b < v" using less.prems by (intro div_less_dividend) (auto intro: gr0I)
    have "num_loop b v n = num_loop b (v div b) (digits ! (v mod b) # n)"
      by (subst num_loop.simps) (use False less.prems in \<open>simp add: Let_def\<close>)
    also have "\<dots> = num_loop b (v div b) [] @ digits ! (v mod b) # n"
      using less.IH [OF lt less.prems] by simp
    finally show ?thesis using False by simp
  qed
qed

lemma num_loop_digits:
  assumes "1 < b" "b \<le> 16"
  shows "num_of b (num_loop b v []) = v \<and> (\<forall>c \<in> set (num_loop b v []). is_digit_in b c) \<and>
    num_loop b v [] \<noteq> []"
proof (induction v rule: less_induct)
  case (less v)
  have d: "v mod b < b" "v mod b < 16"
    using assms mod_less_divisor [of b v] by linarith+
  have lt: "v div b \<noteq> 0 \<Longrightarrow> v div b < v" using assms by (auto intro!: div_less_dividend gr0I)
  show ?case
    using less.IH [OF lt] num_loop_last [OF assms(1), of v "[]"] digits_nth [OF d(2)] d(1)
    by (cases "v div b = 0") (auto simp: num_of_def dest: div_eq_0_iff [THEN iffD1])
qed

lemma num_loop_length:
  assumes "1 < b"
  shows "v < b ^ Suc k \<Longrightarrow> length (num_loop b v []) \<le> Suc k"
proof (induction k arbitrary: v)
  case 0
  then show ?case using num_loop_last [OF assms, of v "[]"] by simp
next
  case (Suc k)
  have "v div b < b ^ Suc k" using Suc.prems by (simp add: less_mult_imp_div_less mult.commute)
  then show ?case using Suc.IH num_loop_last [OF assms, of v "[]"] by (auto split: if_splits)
qed

text \<open>No digit of a number in range is lost: its length, and the digit buffer is large enough.\<close>

lemma num_base_cases: "num_base f = 10 \<or> num_base f = 16"
  by (simp add: num_base_def)

lemma num_value_bound: "num_value u f < 2 ^ 64"
proof -
  have u: "unat w < 2 ^ 64" for w :: u64 using unsigned_less [of w] by simp
  have v: "unat w < 2 ^ 64" for w :: u32 using unat_u32_less [of w] by simp
  show ?thesis by (cases "fs_len f") (simp_all only: num_value_def fs_length.case Let_def u v)
qed

lemma num_length: "length (num_loop (num_base f) (num_value u f) []) \<le> 20"
proof -
  have "num_value u f < num_base f ^ Suc 19"
    using num_value_bound [of u f] num_base_cases [of f] by auto
  then show ?thesis using num_loop_length [of "num_base f"] num_base_cases [of f] by fastforce
qed

section \<open>Integers\<close>

text \<open>The complete text of an integer, of which \<open>print_int\<close> writes what fits.\<close>

definition int_text :: "u64 \<Rightarrow> fs \<Rightarrow> bytes" where
  "int_text u f =
     (let n = num_loop (num_base f) (num_value u f) []; prefix = num_prefix u f;
          (ls, lz) = num_pad (int (length n)) (int (length prefix)) f
      in replicate (nat ls) 32 @ prefix @ replicate (nat lz) 48 @ n)"

lemma num_pad_nonneg: "num_pad n p f = (ls, lz) \<Longrightarrow> 0 \<le> ls \<and> 0 \<le> lz"
  by (auto simp: num_pad_def Let_def split: if_splits)

lemma take_parts:
  assumes "num_cut (int m) (int ls, int (length p), int lz, int (length n)) = (ls', p', lz', n')"
  shows "replicate (nat ls') a @ take (nat p') p @ replicate (nat lz') b @ take (nat n') n =
    take m (replicate ls a @ p @ replicate lz b @ n)"
  using assms
  by (auto simp: num_cut_def Let_def nat_diff_distrib' diff_diff_eq split: if_splits prod.splits
      intro!: arg_cong2 [where f = take])

lemma print_int_text: "print_int sz u f = Inr (take (unat sz) (int_text u f))"
proof -
  define n where "n = num_loop (num_base f) (num_value u f) []"
  define p where "p = num_prefix u f"
  obtain ls lz where pad: "num_pad (int (length n)) (int (length p)) f = (ls, lz)" by fastforce
  then have nn: "ls = int (nat ls)" "lz = int (nat lz)" using num_pad_nonneg by auto
  obtain ls' p' lz' n' where cut:
    "num_cut (int (unat sz)) (int (nat ls), int (length p), int (nat lz), int (length n)) = (ls', p', lz', n')"
    by (metis prod_cases4)
  have "length n \<le> 25" using num_length [of f u] by (simp add: n_def)
  then show ?thesis
    using pad cut nn take_parts [OF cut]
    by (simp add: print_int_def int_text_def n_def [symmetric] p_def [symmetric] del: take_append)
qed

text \<open>The number that the argument of a conversion denotes.\<close>

definition int_arg :: "u64 \<Rightarrow> fs \<Rightarrow> int" where
  "int_arg u f =
     (if fs_mods f AND TYPEMOD_UNSIGNED = 0
      then (case fs_len f of
              LENGTH_LONG_LONG \<Rightarrow> sint u
            | LENGTH_SHORT \<Rightarrow> sint (ucast u :: u16)
            | LENGTH_CHAR \<Rightarrow> sint (ucast u :: u8)
            | _ \<Rightarrow> sint (ucast u :: u32))
      else (case fs_len f of
              LENGTH_LONG_LONG \<Rightarrow> uint u
            | LENGTH_SHORT \<Rightarrow> uint (ucast u :: u16)
            | LENGTH_CHAR \<Rightarrow> uint (ucast u :: u8)
            | _ \<Rightarrow> uint (ucast u :: u32)))"

lemma num_sign: "num_negative u f \<longleftrightarrow> int_arg u f < 0"
  by (cases "fs_len f") (simp_all add: num_negative_def int_arg_def)

lemma num_magnitude:
  assumes "\<not> (fs_len f = LENGTH_CHAR \<and> int_arg u f < 0)"
  shows "int (num_value u f) = \<bar>int_arg u f\<bar>"
proof (cases "int_arg u f < 0")
  case True
  have s: "sint (ucast u :: u16) < 0 \<Longrightarrow> uint (- (scast (ucast u :: u16) :: u32)) = - sint (ucast u :: u16)"
    using uint_minus_of_int [of "sint (ucast u :: u16)", where 'a = 32] sint_ge [of "ucast u :: u16"]
    by (simp add: signed_def)
  from True have "fs_mods f AND TYPEMOD_UNSIGNED = 0"
    by (cases "fs_len f") (simp_all add: int_arg_def split: if_splits)
  then show ?thesis using True assms s
    by (cases "fs_len f")
      (simp_all add: num_value_def num_sign int_arg_def uint_minus_neg of_nat_unat)
next
  case False
  have "uint (ucast w :: u32) = uint w" for w :: u16
    using uint_bounded [of w] by (simp add: unsigned_ucast_eq take_bit_int_eq_self)
  moreover have "uint (ucast w :: u32) = uint w" for w :: u8
    using uint_bounded [of w] by (simp add: unsigned_ucast_eq take_bit_int_eq_self)
  ultimately show ?thesis using False
    by (cases "fs_len f"; cases "fs_mods f AND TYPEMOD_UNSIGNED = 0")
      (simp_all add: num_value_def num_sign int_arg_def uint_nonneg_sint of_nat_unat)
qed

text \<open>
  \<open>print_int\<close> writes as much of the complete text as the buffer takes; the complete text is
  padding, sign or prefix, zeros and the digits of the magnitude of the argument, at least as wide
  as the width and with at least as many digits as the precision ask for. The digit buffer of 25
  characters never overflows. Negative \<open>%hhd\<close> arguments are excluded (see
  \<open>print_int_hhd_wrong\<close>).
\<close>

theorem print_int_correct:
  assumes "\<not> (fs_len f = LENGTH_CHAR \<and> int_arg u f < 0)"
  shows "\<exists>ls lz ds. print_int sz u f =
      Inr (take (unat sz) (replicate ls 32 @ num_prefix u f @ replicate lz 48 @ ds)) \<and>
    int (num_of (num_base f) ds) = \<bar>int_arg u f\<bar> \<and>
    (num_prefix u f = [45] \<longleftrightarrow> int_arg u f < 0) \<and>
    list_all (is_digit_in (num_base f)) ds \<and>
    fs_width f \<le> int (ls + length (num_prefix u f) + lz + length ds) \<and>
    fs_precision f \<le> int (lz + length ds)"
proof -
  define n where "n = num_loop (num_base f) (num_value u f) []"
  have b: "1 < num_base f" "num_base f \<le> 16" using num_base_cases [of f] by auto
  obtain ls lz where pad: "num_pad (int (length n)) (int (length (num_prefix u f))) f = (ls, lz)"
    by fastforce
  have t: "int_text u f = replicate (nat ls) 32 @ num_prefix u f @ replicate (nat lz) 48 @ n"
    using pad by (simp add: int_text_def n_def [symmetric])
  have w: "fs_width f \<le> int (nat ls + length (num_prefix u f) + nat lz + length n)"
    "fs_precision f \<le> int (nat lz + length n)"
    using pad by (auto simp: num_pad_def none_defs Let_def split: if_splits)
  have sgn: "num_prefix u f = [45] \<longleftrightarrow> int_arg u f < 0"
    by (simp add: num_prefix_def num_sign)
  have "int (num_of (num_base f) n) = \<bar>int_arg u f\<bar>" "list_all (is_digit_in (num_base f)) n"
    using num_loop_digits [OF b, of "num_value u f"] num_magnitude [OF assms]
    by (simp_all add: n_def list_all_iff)
  then show ?thesis using print_int_text [of sz u f] t w sgn by metis
qed

definition fs_d :: fs where
  "fs_d = snd (fs_process [100])"

lemma fs_d_simps [simp]: "fs_d = \<lparr>fs_flags = 0, fs_parameter = -1, fs_width = -1, fs_precision = -1,
    fs_len = LENGTH_NONE, fs_ty = TYPE_INT, fs_mods = 0, fs_next_char = 0\<rparr>"
  by code_simp

lemmas print_int_eval = print_int_def num_cut_def num_pad_def num_prefix_def num_value_def
  num_negative_def num_base_def num_loop.simps digits_def none_defs typemod_defs flag_defs

theorem print_int_correct_witness:
  "\<not> (fs_len fs_d = LENGTH_CHAR \<and> int_arg 0xFFFFFFFB fs_d < 0) \<and>
   print_int 2 0xFFFFFFFB fs_d = Inr [45, 53] \<and>
   (\<exists>ls lz ds. print_int 2 0xFFFFFFFB fs_d =
      Inr (take (unat (2 :: u32)) (replicate ls 32 @ num_prefix 0xFFFFFFFB fs_d @ replicate lz 48 @ ds)) \<and>
    int (num_of (num_base fs_d) ds) = \<bar>int_arg 0xFFFFFFFB fs_d\<bar>)"
proof -
  have 1: "\<not> (fs_len fs_d = LENGTH_CHAR \<and> int_arg 0xFFFFFFFB fs_d < 0)"
    by simp
  have 2: "print_int 2 0xFFFFFFFB fs_d = Inr [45, 53]"
    by (simp add: print_int_eval)
  show ?thesis using 1 2 print_int_correct [OF 1, of 2] by blast
qed

text \<open>
  A negative \<open>%hhd\<close> argument is negated as an unsigned character: -1 prints as -4294967041. Octal
  conversions print in base ten.
\<close>

lemma print_int_hhd_wrong:
  "print_int 20 0xFF (snd (fs_process [104, 104, 100])) = Inr [45, 52, 50, 57, 52, 57, 54, 55, 48, 52, 49]"
proof -
  have f: "snd (fs_process [104, 104, 100]) = fs_d\<lparr>fs_len := LENGTH_CHAR\<rparr>" by code_simp
  show ?thesis by (simp add: f print_int_eval)
qed

lemma print_int_octal_wrong:
  "print_int 20 8 (snd (fs_process [111])) = Inr [56]"
proof -
  have f: "snd (fs_process [111]) = fs_d\<lparr>fs_mods := 18\<rparr>" by code_simp
  show ?thesis by (simp add: f print_int_eval)
qed

section \<open>The driver stays inside its buffer\<close>

text \<open>The types of the conversions of a format string, in the order in which they are met.\<close>

function conversions :: "bytes \<Rightarrow> fs_type list" where
  "conversions fmt =
     (if char_at fmt = 0 then []
      else if char_at fmt \<noteq> 37 then conversions (drop 1 fmt)
      else (case fs_process (drop 1 fmt) of (n, f) \<Rightarrow> fs_ty f # conversions (drop n (drop 1 fmt))))"
  by pat_completeness auto
termination
  by (relation "measure length") (auto simp: char_at_def split: list.splits if_splits)

declare conversions.simps [simp del]

lemma str_loop_length: "length (str_loop len s) \<le> len"
  by (induction len s rule: str_loop.induct) auto

lemma print_arg_fits:
  assumes "print_arg pd sz f args = Inr (out, k, rest)" "fs_ty f \<noteq> TYPE_PERCENT" "fs_ty f \<noteq> TYPE_DOUBLE"
  shows "length out \<le> unat sz \<and> k = length out"
proof (cases "fs_ty f")
  case TYPE_STR
  have "length (print_str sz s f) \<le> unat sz" for s
  proof -
    have "length (print_str sz s f) \<le>
        unat (min sz (if fs_precision f \<noteq> PRECISION_NONE then word_of_int (fs_precision f) else sz))"
      unfolding print_str_def Let_def by (rule order_trans [OF str_loop_length]) (auto simp: min_def)
    also have "\<dots> \<le> unat sz" by (simp add: word_le_nat_alt [symmetric])
    finally show ?thesis .
  qed
  then show ?thesis using assms TYPE_STR
    by (auto simp: print_arg_def Let_def split: list.splits va.splits)
next
  case TYPE_INT
  then show ?thesis using assms
    by (auto simp: print_arg_def bind_res_eq_Inr print_int_text)
qed (use assms in \<open>auto simp: print_arg_def bind_res_eq_Inr print_char_def Let_def\<close>)

lemma fetch_type:
  "fetch_width f args = Inr (f', args') \<Longrightarrow> fs_ty f' = fs_ty f"
  "fetch_precision f args = Inr (f', args') \<Longrightarrow> fs_ty f' = fs_ty f"
  by (auto simp: fetch_width_def fetch_precision_def bind_res_eq_Inr split: if_splits)

lemma va_int_fault: "va_int args = Inl e \<Longrightarrow> e = Uninit"
  by (auto simp: va_int_def split: list.splits va.splits)

lemma fetch_fault:
  "fetch_width f args = Inl e \<Longrightarrow> e = Uninit"
  "fetch_precision f args = Inl e \<Longrightarrow> e = Uninit"
  using va_int_fault [of args e]
  by (cases "va_int args"; auto simp: fetch_width_def fetch_precision_def split: if_splits)+

lemma print_arg_fault: "print_arg pd sz f args = Inl e \<Longrightarrow> e = Uninit"
  using va_int_fault [of args e]
  by (cases "va_int args")
    (auto simp: print_arg_def bind_res_def print_int_text Let_def
      split: fs_type.splits fs_length.splits list.splits va.splits)

text \<open>
  \<open>in_room s cap buf r\<close>: the outcome \<open>r\<close> of the loop is a missing argument, or nothing changed from
  offset \<open>cap\<close> on and the write offset is between \<open>s\<close> and \<open>cap\<close>.
\<close>

definition in_room :: "nat \<Rightarrow> nat \<Rightarrow> bytes \<Rightarrow> fault + bytes \<times> nat \<Rightarrow> bool" where
  "in_room s cap buf r \<longleftrightarrow>
     (case r of Inl e \<Rightarrow> e = Uninit
      | Inr (buf', s') \<Rightarrow> s \<le> s' \<and> s' \<le> cap \<and> length buf' = length buf \<and> drop cap buf' = drop cap buf \<and>
          take s buf' = take s buf)"

lemma in_room_write:
  assumes "s + length out \<le> cap" "cap \<le> length buf"
    and "\<And>buf'. mem_write buf s out = Inr buf' \<Longrightarrow> length buf' = length buf \<Longrightarrow>
           in_room (s + length out) cap buf' (g buf')"
  shows "in_room s cap buf (case mem_write buf s out of Inl e \<Rightarrow> Inl e | Inr buf' \<Rightarrow> g buf')"
proof -
  define b where "b = take s buf @ out @ drop (s + length out) buf"
  have w: "mem_write buf s out = Inr b" using assms(1,2) by (simp add: b_def mem_write_def)
  have l: "length b = length buf" using assms(1,2) by (simp add: b_def)
  have d: "drop cap b = drop cap buf" using assms(1,2) by (simp add: b_def)
  have t: "take s b = take s buf" using assms(1,2) by (simp add: b_def)
  have tt: "take (s + length out) x = take (s + length out) b \<Longrightarrow> take s x = take s buf" for x
    using t by (metis min.absorb1 le_add1 take_take)
  show ?thesis using assms(3) [OF w l] w l d tt
    by (auto simp: in_room_def split: sum.splits)
qed

lemma vsn_loop_in_room:
  assumes "s + unat sz \<le> length buf"
    and "set (conversions fmt) \<inter> {TYPE_PERCENT, TYPE_DOUBLE} = {}"
  shows "in_room s (s + unat sz) buf (vsn_loop pd buf s sz fmt args)"
  using assms
proof (induction pd buf s sz fmt args rule: vsn_loop.induct)
  case (1 pd buf s sz fmt args)
  show ?case
  proof (cases "char_at fmt = 0 \<or> char_at fmt \<noteq> 37")
    case plain: True
    have c: "char_at fmt \<noteq> 0 \<Longrightarrow> set (conversions (drop 1 fmt)) \<inter> {TYPE_PERCENT, TYPE_DOUBLE} = {}"
      using "1.prems"(2) plain by (subst (asm) conversions.simps) auto
    consider "char_at fmt = 0" | "char_at fmt \<noteq> 0" "sz = 0" | "char_at fmt \<noteq> 0" "sz \<noteq> 0" by blast
    then show ?thesis
    proof cases
      case 1
      then show ?thesis by (simp add: vsn_loop.simps in_room_def)
    next
      case 2
      then show ?thesis using plain "1.IH"(2) c "1.prems"(1) by (subst vsn_loop.simps) simp
    next
      case 3
      then have u: "unat sz = Suc (unat (sz - 1))"
        by (simp add: unat_minus_one unat_gt_0)
      show ?thesis
        using 3 plain u "1.prems"(1) "1.IH"(1) c
        by (subst vsn_loop.simps) (auto intro!: in_room_write)
    qed
  next
    case False
    obtain n f0 where fs: "fs_process (drop 1 fmt) = (n, f0)" by fastforce
    have ty: "fs_ty f0 \<noteq> TYPE_PERCENT" "fs_ty f0 \<noteq> TYPE_DOUBLE"
      and c: "set (conversions (drop n (drop 1 fmt))) \<inter> {TYPE_PERCENT, TYPE_DOUBLE} = {}"
      using "1.prems"(2) False fs by (subst (asm) conversions.simps; force)+
    show ?thesis
    proof (cases "fetch_width f0 args")
      case (Inl e)
      then show ?thesis using False fs fetch_fault(1) [OF Inl]
        by (subst vsn_loop.simps) (simp add: in_room_def)
    next
      case w: (Inr p1)
      obtain f1 args1 where p1: "p1 = (f1, args1)" by fastforce
      show ?thesis
      proof (cases "fetch_precision f1 args1")
        case (Inl e)
        then show ?thesis using False fs w p1 fetch_fault(2) [OF Inl]
          by (subst vsn_loop.simps) (simp add: in_room_def)
      next
        case p: (Inr p2)
        obtain f2 args2 where p2: "p2 = (f2, args2)" by fastforce
        show ?thesis
        proof (cases "print_arg pd sz f2 args2")
          case (Inl e)
          then show ?thesis using False fs w p1 p p2 print_arg_fault [OF Inl]
            by (subst vsn_loop.simps) (simp add: in_room_def)
        next
          case a: (Inr p3)
          obtain out k args3 where p3: "p3 = (out, k, args3)" by (cases p3)
          have f2: "fs_ty f2 = fs_ty f0" using fetch_type w p1 p p2 by metis
          have len: "length out \<le> unat sz" "k = length out"
            using print_arg_fits a p3 f2 ty by metis+
          have u: "unat (sz - of_nat k) = unat sz - length out"
            using len unat_sub [of "of_nat k" sz] unat_u32_less [of sz]
            by (simp add: word_le_nat_alt unat_of_nat take_bit_nat_eq_self)
          have eq: "vsn_loop pd buf s sz fmt args = (case mem_write buf s out of Inl e \<Rightarrow> Inl e
              | Inr buf' \<Rightarrow> vsn_loop pd buf' (s + k) (sz - of_nat k) (drop n (drop 1 fmt)) args3)"
            using False fs w p1 p p2 a p3 by (subst vsn_loop.simps) simp
          have "in_room (s + length out) (s + unat sz) buf'
              (vsn_loop pd buf' (s + k) (sz - of_nat k) (drop n (drop 1 fmt)) args3)"
            if "mem_write buf s out = Inr buf'" "length buf' = length buf" for buf'
          proof -
            have "in_room (s + k) (s + k + unat (sz - of_nat k)) buf'
                (vsn_loop pd buf' (s + k) (sz - of_nat k) (drop n (drop 1 fmt)) args3)"
              by (rule "1.IH"(3)) (use False fs w p1 p p2 a p3 that u c len "1.prems"(1) in auto)
            then show ?thesis using u len by simp
          qed
          then show ?thesis unfolding eq using len "1.prems"(1) by (intro in_room_write) auto
        qed
      qed
    qed
  qed
qed



text \<open>
  A \<open>%%\<close> that no longer fits makes \<open>_size\<close> wrap around: in a buffer declared two bytes large the
  format \<open>a%%bcd\<close> writes six.
\<close>

theorem vsnprintf_percent_overflows:
  "vsnprintf (\<lambda>_ (_ :: unit) _. []) [1, 2, 3, 4, 5, 6, 7, 8] 2 [97, 37, 37, 98, 99, 100] []
     = Inr ([97, 2, 98, 99, 100, 0, 7, 8], 5)"
  by code_simp
end
