(* ===== verification/Util_Scan.thy ===== *)
theory Util_Scan
  imports Util_Print
begin

text \<open>
  The scanning half of \<^verbatim>\<open>util/src/stdio.c\<close>: \<open>scan_eos\<close>, \<open>scan_char\<close>, \<open>scan_str\<close>, \<open>scan_int\<close> and the
  driver \<open>vsnscanf\<close>. The scanned text is a C string as in \<^verbatim>\<open>Util_Print\<close>. A scanner returns the
  number of characters it consumed, or -1, and what it stored through its destination pointer
  (nothing for a null pointer). \<open>scan_double\<close> is not modelled: it is an argument of the driver.
\<close>

section \<open>Scanning one value\<close>

datatype 'd scan_val =
    SChars bytes
  | SShort u16
  | SInt u32
  | SLongLong u64
  | SDouble 'd

fun skip_space :: "bytes \<Rightarrow> nat" where
  "skip_space [] = 0"
| "skip_space (c # cs) = (if isspace (uint c) then Suc (skip_space cs) else 0)"

text \<open>The skipping of initial white space is bounded by \<open>size\<close>, too.\<close>

definition skip_lead :: "bytes \<Rightarrow> u32 \<Rightarrow> nat" where
  "skip_lead s sz = min (skip_space s) (unat sz)"

definition scan_eos :: "bytes \<Rightarrow> u32 \<Rightarrow> fs \<Rightarrow> int" where
  "scan_eos str sz f =
     (let char_num = (if fs_precision f \<noteq> PRECISION_NONE then word_of_int (fs_precision f) else 1 :: u32);
          char_num = (if sz < char_num then sz else char_num);
          n = (if char_num \<noteq> 0 then skip_space str else 0)
      in if char_at (drop n str) = 0 then int n else -1)"

text \<open>The string's object ends with its terminator; \<open>scan_char\<close> does not look for it.\<close>

definition scan_char :: "bytes \<Rightarrow> u32 \<Rightarrow> bool \<Rightarrow> fs \<Rightarrow> fault + int \<times> 'd scan_val option" where
  "scan_char str sz val f =
     (let char_num = (if fs_precision f \<noteq> PRECISION_NONE then word_of_int (fs_precision f) else 1 :: u32);
          n = min (unat sz) (unat char_num);
          r = (if n = unat char_num then int n else -1)
      in if val then bind_res (mem_read (str @ [0]) 0 n) (\<lambda>cs. Inr (r, Some (SChars cs)))
         else Inr (r, None))"

text \<open>
  One round of the loop of \<open>scan_str\<close>: leave the loop, or go on with new flags and perhaps a
  character to store. \<open>StopAfter\<close> is the closing quotation mark, which is consumed
  before the loop is left.
\<close>

datatype str_step = Stop | StopAfter | Go (in_quotes: bool) (esc_backslash: bool) (store: "u8 option")

definition str_round :: "u8 \<Rightarrow> bool \<Rightarrow> bool \<Rightarrow> nat \<Rightarrow> u8 \<Rightarrow> str_step" where
  "str_round next_char quoted esc len c =
     (if esc then
        (if c = next_char \<and> \<not> quoted then Stop else Go quoted False (Some c))
      else if c = 92 then Go quoted True None
      else if c = 34 then
        (if quoted then StopAfter
         else if len = 0 then Go True esc None
         else if c = next_char then Stop
         else Go quoted esc (Some c))
      else if isspace (uint c) \<or> c = next_char then
        (if \<not> quoted then Stop else Go quoted esc (Some c))
      else Go quoted esc (Some c))"

fun scan_str_loop :: "u8 \<Rightarrow> bool \<Rightarrow> bool \<Rightarrow> nat \<Rightarrow> nat \<Rightarrow> bytes \<Rightarrow> nat \<times> bytes" where
  "scan_str_loop nc quoted esc len max_len [] = (0, [])"
| "scan_str_loop nc quoted esc len max_len (c # s) =
     (if c = 0 then (0, [])
      else case str_round nc quoted esc len c of
        Stop \<Rightarrow> (0, [])
      | StopAfter \<Rightarrow> (1, [])
      | Go q e st \<Rightarrow>
          (case st of
             Some x \<Rightarrow>
               if max_len \<noteq> 0
               then let (n, out) = scan_str_loop nc q e (Suc len) (max_len - 1) s in (Suc n, x # out)
               else let (n, out) = scan_str_loop nc q e (Suc len) max_len s in (Suc n, out)
           | None \<Rightarrow> let (n, out) = scan_str_loop nc q e (Suc len) max_len s in (Suc n, out)))"

definition scan_str :: "bytes \<Rightarrow> u32 \<Rightarrow> bool \<Rightarrow> fs \<Rightarrow> int \<times> 'd scan_val option" where
  "scan_str str sz val f =
     (let k = skip_lead str sz; sz = sz - of_nat k;
          max_len = (if fs_precision f \<noteq> PRECISION_NONE
                     then min (nat (max (fs_precision f - 1) 0)) (unat sz) else unat sz);
          (n, out) = scan_str_loop (fs_next_char f) False False 0 max_len (drop k str)
      in (int (k + n), if val then Some (SChars (out @ [0])) else None))"

datatype scan_state = ST_SIGN | ST_PREFIX | ST_INT | ST_END | ST_ERR

text \<open>The digit value of a character: letters follow the digits, and nothing checks that it is one.\<close>

definition digit_value :: "u8 \<Rightarrow> int" where
  "digit_value c = (if isdigit (uint c) then uint c - 48 else uint c - 97 + 10)"

definition prefix_base :: "bytes \<Rightarrow> int" where
  "prefix_base buf = (if buf = [48, 120] then 16 else if buf = [48, 98] then 2 else 0)"

lemma char_at_drop_nonzero: "char_at (drop i str) \<noteq> 0 \<Longrightarrow> i < length str"
  by (rule ccontr) (simp add: char_at_def)

lemma tolower_zero: "word_of_int (tolower (uint c)) \<noteq> (0 :: u8) \<Longrightarrow> c \<noteq> 0"
  by (auto simp: tolower_def)

text \<open>
  The state machine: \<open>i\<close> is the offset of \<open>s\<close>, which some steps move back. The result is the last
  state with the base, the sign, the buffered digits and the offset.
\<close>

function int_fsm ::
  "u32 \<Rightarrow> bytes \<Rightarrow> scan_state \<Rightarrow> int \<Rightarrow> int \<Rightarrow> nat \<Rightarrow> bytes \<Rightarrow> nat \<Rightarrow> u32 \<Rightarrow>
   scan_state \<times> int \<times> int \<times> bytes \<times> nat"
where
  "int_fsm tm str state base sign digit_num buf i sz =
     (let c = word_of_int (tolower (uint (char_at (drop i str)))) :: u8;
          v = digit_value c;
          eos = (c = 0 \<or> sz = 0)
      in case state of
        ST_SIGN \<Rightarrow>
          (if eos then (ST_ERR, base, sign, buf, i)
           else
             let (i, sz, sign) = (if c = 43 \<or> c = 45 then (i + 1, sz - 1, if c = 43 then 1 else -1)
                                  else (i, sz, sign))
             in int_fsm tm str (if tm AND (TYPEMOD_HEX OR TYPEMOD_BASE_FROM_PREFIX) \<noteq> 0 then ST_PREFIX else ST_INT)
                  base sign digit_num buf i sz)
      | ST_PREFIX \<Rightarrow>
          (if eos then
             int_fsm tm str ST_INT (if base = 0 then 10 else base) sign digit_num []
               (i - length buf) (sz + of_nat (length buf))
           else
             let buf = buf @ [c] in
             if length buf = 2 then
               let pb = prefix_base buf;
                   back = (pb = 0 \<or> base \<noteq> 0 \<and> pb \<noteq> base)
               in int_fsm tm str ST_INT (if base = 0 then (if pb \<noteq> 0 then pb else 10) else base) sign
                    digit_num [] (if back then i + 1 - 2 else i + 1) (if back then sz + 1 else sz - 1)
             else int_fsm tm str ST_PREFIX base sign digit_num buf (i + 1) (sz - 1))
      | ST_INT \<Rightarrow>
          (if eos then (if digit_num \<noteq> 0 then ST_END else ST_ERR, base, sign, buf, i)
           else if (word_of_int base :: u32) > word_of_int v then
             int_fsm tm str ST_INT base sign (digit_num + 1)
               (if (v \<noteq> 0 \<or> buf \<noteq> []) \<and> length buf < 30 then buf @ [word_of_int v] else buf)
               (i + 1) (sz - 1)
           else if digit_num \<noteq> 0 then (ST_END, base, sign, buf, i)
           else (ST_ERR, base, sign, buf, i))
      | _ \<Rightarrow> (state, base, sign, buf, i))"
  by pat_completeness auto

termination
proof (relation "measures [\<lambda>(tm, str, state, _). case state of ST_SIGN \<Rightarrow> 3 | ST_PREFIX \<Rightarrow> 2 | ST_INT \<Rightarrow> 1 | _ \<Rightarrow> 0,
    \<lambda>(tm, str, state, base, sign, dn, buf, i, sz). length str - i]", goal_cases)
qed (auto dest!: tolower_zero char_at_drop_nonzero)

declare int_fsm.simps [simp del]

definition scan_base :: "u32 \<Rightarrow> int" where
  "scan_base tm =
     (let m = tm AND (TYPEMOD_HEX OR TYPEMOD_OCTAL OR TYPEMOD_BASE_FROM_PREFIX) in
      if m = TYPEMOD_HEX then 16 else if m = TYPEMOD_OCTAL then 8
      else if m = TYPEMOD_BASE_FROM_PREFIX then 0 else 10)"

definition digits_value :: "int \<Rightarrow> bytes \<Rightarrow> u64" where
  "digits_value base buf = foldl (\<lambda>ull d. ull * word_of_int base + ucast d) 0 buf"

definition scan_int :: "bytes \<Rightarrow> u32 \<Rightarrow> bool \<Rightarrow> fs \<Rightarrow> int \<times> 'd scan_val option" where
  "scan_int str sz val f =
     (let k = skip_lead str sz; sz = sz - of_nat k;
          sz = (if fs_precision f \<noteq> PRECISION_NONE then min (word_of_int (fs_precision f)) sz else sz);
          (state, base, sign, buf, i) = int_fsm (fs_mods f) str ST_SIGN (scan_base (fs_mods f)) 0 0 [] k sz;
          ull = digits_value base buf;
          ull = (if sign = -1 then - ull else ull)
      in (if state = ST_ERR then -1 else int i,
          if \<not> val \<or> state = ST_ERR then None
          else Some (case fs_len f of
                 LENGTH_LONG_LONG \<Rightarrow> SLongLong ull
               | LENGTH_LONG \<Rightarrow> SInt (ucast ull)
               | LENGTH_SHORT \<Rightarrow> SShort (ucast ull)
               | LENGTH_CHAR \<Rightarrow> SInt (ucast ull)
               | _ \<Rightarrow> SInt (ucast ull))))"

section \<open>The driver\<close>

text \<open>
  The variable arguments are pointers, numbered by the caller (\<open>None\<close> is the null pointer), and the
  integers for \<open>*\<close>. The driver returns the number of matches and the stores it made, in order.
\<close>

datatype sva = SvaInt u32 | SvaPtr "nat option"

definition store_at :: "nat option \<Rightarrow> 'd scan_val option \<Rightarrow> (nat \<times> 'd scan_val) list" where
  "store_at ptr v = (case (ptr, v) of (Some p, Some x) \<Rightarrow> [(p, x)] | _ \<Rightarrow> [])"

text \<open>The \<open>switch\<close> on the type: characters consumed and stores made.\<close>

definition scan_arg ::
  "(bytes \<Rightarrow> u32 \<Rightarrow> bool \<Rightarrow> fs \<Rightarrow> int \<times> 'd scan_val option) \<Rightarrow> bytes \<Rightarrow> u32 \<Rightarrow> nat option \<Rightarrow> fs \<Rightarrow>
   fault + int \<times> (nat \<times> 'd scan_val) list"
where
  "scan_arg scan_double str sz ptr f =
     (case fs_ty f of
        TYPE_CHAR \<Rightarrow> bind_res (scan_char str sz (ptr \<noteq> None) f) (\<lambda>(n, v). Inr (n, store_at ptr v))
      | TYPE_STR \<Rightarrow> (let (n, v) = scan_str str sz (ptr \<noteq> None) f in Inr (n, store_at ptr v))
      | TYPE_INT \<Rightarrow> (let (n, v) = scan_int str sz (ptr \<noteq> None) f in Inr (n, store_at ptr v))
      | TYPE_DOUBLE \<Rightarrow> (let (n, v) = scan_double str sz (ptr \<noteq> None) f in Inr (n, store_at ptr v))
      | TYPE_PERCENT \<Rightarrow> Inr (if char_at str \<noteq> 37 then -1 else 1, [])
      | TYPE_END_OF_STRING \<Rightarrow> Inr (scan_eos str sz f, [])
      | _ \<Rightarrow> Inr (0, []))"

definition fetch_scan_precision :: "fs \<Rightarrow> sva list \<Rightarrow> fault + fs \<times> sva list" where
  "fetch_scan_precision f args =
     (if fs_precision f = PRECISION_PARAMETER
      then (case args of SvaInt i # rest \<Rightarrow> Inr (f\<lparr>fs_precision := sint i\<rparr>, rest) | _ \<Rightarrow> Inl Uninit)
      else Inr (f, args))"

definition fetch_ptr :: "fs \<Rightarrow> sva list \<Rightarrow> fault + nat option \<times> sva list" where
  "fetch_ptr f args =
     (if fs_ty f \<noteq> TYPE_PERCENT \<and> fs_ty f \<noteq> TYPE_END_OF_STRING \<and> fs_width f \<noteq> WIDTH_PARAMETER
      then (case args of SvaPtr p # rest \<Rightarrow> Inr (p, rest) | _ \<Rightarrow> Inl Uninit)
      else Inr (None, args))"

function scanf_loop ::
  "(bytes \<Rightarrow> u32 \<Rightarrow> bool \<Rightarrow> fs \<Rightarrow> int \<times> 'd scan_val option) \<Rightarrow> bytes \<Rightarrow> u32 \<Rightarrow> bytes \<Rightarrow> sva list \<Rightarrow> nat \<Rightarrow>
   (nat \<times> 'd scan_val) list \<Rightarrow> fault + nat \<times> (nat \<times> 'd scan_val) list"
where
  "scanf_loop scan_double str sz fmt args matches out =
     (if char_at fmt = 0 then Inr (matches, out)
      else if char_at fmt \<noteq> 37 then
        (if isspace (uint (char_at fmt)) then
           let k = skip_lead str sz
           in scanf_loop scan_double (drop k str) (sz - of_nat k) (drop 1 fmt) args matches out
         else if sz \<noteq> 0 \<and> char_at fmt = char_at str then
           scanf_loop scan_double (drop 1 str) (sz - 1) (drop 1 fmt) args matches out
         else Inr (matches, out))
      else
        (case fs_process (drop 1 fmt) of (n, f0) \<Rightarrow>
         case fetch_scan_precision f0 args of
           Inl e \<Rightarrow> Inl e
         | Inr (f, args1) \<Rightarrow>
         (case fetch_ptr f args1 of
            Inl e \<Rightarrow> Inl e
          | Inr (ptr, args2) \<Rightarrow>
          (case scan_arg scan_double str sz ptr f of
             Inl e \<Rightarrow> Inl e
           | Inr (k, st) \<Rightarrow>
               if k \<ge> 0
               then scanf_loop scan_double (drop (nat k) str) (sz - of_nat (nat k))
                      (drop n (drop 1 fmt)) args2
                      (if fs_ty f \<noteq> TYPE_PERCENT then matches + 1 else matches) (out @ st)
               else Inr (matches, out @ st)))))"
  by pat_completeness auto
termination
proof (relation "measure (\<lambda>(sd, str, sz, fmt, args, m, out). length fmt)", goal_cases)
qed (auto simp: char_at_def split: list.splits if_splits)

declare scanf_loop.simps [simp del]

definition vsnscanf ::
  "(bytes \<Rightarrow> u32 \<Rightarrow> bool \<Rightarrow> fs \<Rightarrow> int \<times> 'd scan_val option) \<Rightarrow> bytes \<Rightarrow> u32 \<Rightarrow> bytes \<Rightarrow> sva list \<Rightarrow>
   fault + nat \<times> (nat \<times> 'd scan_val) list"
where
  "vsnscanf scan_double str sz format args = scanf_loop scan_double str sz format args 0 []"

definition snscanf ::
  "(bytes \<Rightarrow> u32 \<Rightarrow> bool \<Rightarrow> fs \<Rightarrow> int \<times> 'd scan_val option) \<Rightarrow> bytes \<Rightarrow> u32 \<Rightarrow> bytes \<Rightarrow> sva list \<Rightarrow>
   fault + nat \<times> (nat \<times> 'd scan_val) list"
where
  "snscanf scan_double str sz format args = vsnscanf scan_double str sz format args"

definition sscanf ::
  "(bytes \<Rightarrow> u32 \<Rightarrow> bool \<Rightarrow> fs \<Rightarrow> int \<times> 'd scan_val option) \<Rightarrow> bytes \<Rightarrow> bytes \<Rightarrow> sva list \<Rightarrow>
   fault + nat \<times> (nat \<times> 'd scan_val) list"
where
  "sscanf scan_double str format args = vsnscanf scan_double str (- 1) format args"


section \<open>Scanning back what was printed\<close>

lemma digit_char:
  assumes "is_digit_in b c" "b \<le> 16"
  shows "word_of_int (tolower (uint c)) = c" and "c \<noteq> 0"
    and "digit_value c = int (digit_val c)" and "digit_val c < b"
proof -
  obtain n where u: "unat c = n" "uint c = int n" by (metis uint_nat)
  have r: "48 \<le> n \<and> n \<le> 57 \<or> 97 \<le> n \<and> n \<le> 102"
    using assms u by (simp add: is_digit_in_def)
  then have "tolower (uint c) = uint c" by (auto simp: tolower_def u)
  then show "word_of_int (tolower (uint c)) = c" by simp
  show "c \<noteq> 0" using r u(1) by auto
  show "digit_value c = int (digit_val c)" "digit_val c < b"
    using r assms by (auto simp: digit_value_def isdigit_def u digit_val_def is_digit_in_def)
qed

lemma int_fsm_digits:
  assumes "drop i str = ds" "list_all (is_digit_in b) ds" "1 < b" "b \<le> 16"
    and "length ds \<le> unat sz" "length buf + length ds \<le> 30" "ds \<noteq> [] \<or> dn \<noteq> 0"
  shows "\<exists>buf'. int_fsm tm str ST_INT (int b) sign dn buf i sz = (ST_END, int b, sign, buf', i + length ds) \<and>
    digits_value (int b) buf' =
      foldl (\<lambda>v c. v * of_nat b + of_nat (digit_val c)) (digits_value (int b) buf) ds"
  using assms
proof (induction ds arbitrary: i sz buf dn)
  case Nil
  then show ?case by (subst int_fsm.simps) (auto simp: char_at_def tolower_def)
next
  case (Cons d ds)
  have d: "is_digit_in b d" using Cons.prems(2) by simp
  note dc = digit_char [OF d Cons.prems(4)]
  have dr: "drop (i + 1) str = ds" using Cons.prems(1) by (metis drop_drop drop_Suc_Cons drop0 add.commute One_nat_def)
  have sz: "sz \<noteq> 0" using Cons.prems(5) by auto
  then have sz1: "unat (sz - 1) = unat sz - 1" by (rule unat_minus_one)
  have lt: "(word_of_int (int (digit_val d)) :: u32) < word_of_int (int b)"
    using dc(4) Cons.prems(4) by (simp add: word_less_nat_alt unat_of_nat take_bit_nat_eq_self)
  define buf2 where "buf2 = (if (int (digit_val d) \<noteq> 0 \<or> buf \<noteq> []) \<and> length buf < 30
    then buf @ [word_of_int (int (digit_val d))] else buf)"
  have step: "int_fsm tm str ST_INT (int b) sign dn buf i sz =
      int_fsm tm str ST_INT (int b) sign (dn + 1) buf2 (i + 1) (sz - 1)"
    by (subst int_fsm.simps) (use Cons.prems(1) dc sz lt in \<open>simp add: char_at_def buf2_def\<close>)
  have val: "digits_value (int b) buf2 = digits_value (int b) buf * of_nat b + of_nat (digit_val d)"
  proof -
    have "digit_val d < 256" using dc(4) Cons.prems(4) by simp
    then have "ucast (of_nat (digit_val d) :: u8) = (of_nat (digit_val d) :: u64)"
      by (simp add: unsigned_of_nat take_bit_nat_eq_self)
    then show ?thesis using Cons.prems(6) by (auto simp: buf2_def digits_value_def)
  qed
  have len: "length buf2 + length ds \<le> 30" "length ds \<le> unat (sz - 1)" "list_all (is_digit_in b) ds"
    using Cons.prems sz1 by (auto simp: buf2_def)
  obtain buf' where
    "int_fsm tm str ST_INT (int b) sign (dn + 1) buf2 (i + 1) (sz - 1) = (ST_END, int b, sign, buf', i + 1 + length ds)"
    "digits_value (int b) buf' =
      foldl (\<lambda>v c. v * of_nat b + of_nat (digit_val c)) (digits_value (int b) buf2) ds"
    using Cons.IH [OF dr len(3) Cons.prems(3,4) len(2,1), of "dn + 1"] by auto
  then show ?case using step val by auto
qed

lemma of_nat_num_of:
  "foldl (\<lambda>v c. v * of_nat b + of_nat (digit_val c)) (of_nat a :: u64) ds =
   of_nat (foldl (\<lambda>v c. v * b + digit_val c) a ds)"
  by (induction ds arbitrary: a) (simp_all flip: of_nat_mult of_nat_add)

text \<open>From the first character of a number: an optional minus sign, then digits.\<close>

lemma int_fsm_number:
  assumes "list_all (is_digit_in 10) ds" "ds \<noteq> []" "length ds \<le> 30"
    and "str = (if neg then 45 # ds else ds)" "length str \<le> unat sz"
    and "tm AND (TYPEMOD_HEX OR TYPEMOD_BASE_FROM_PREFIX) = 0"
  shows "\<exists>buf'. int_fsm tm str ST_SIGN 10 0 0 [] 0 sz =
      (ST_END, 10, if neg then -1 else 0, buf', length str) \<and>
    digits_value 10 buf' = of_nat (num_of 10 ds)"
proof -
  have sz: "sz \<noteq> 0" using assms(2,4,5) by (cases neg) auto
  then have sz1: "unat (sz - 1) = unat sz - 1" by (rule unat_minus_one)
  obtain d ds' where ds: "ds = d # ds'" using assms(2) by (cases ds) auto
  have dd: "is_digit_in 10 d" using assms(1) ds by simp
  note dc = digit_char [OF dd, simplified]
  have nsign: "d \<noteq> 43" "d \<noteq> 45" using dd by (auto simp: is_digit_in_def)
  have step: "int_fsm tm str ST_SIGN 10 0 0 [] 0 sz =
      int_fsm tm str ST_INT (int 10) (if neg then -1 else 0) 0 [] (if neg then 1 else 0)
        (if neg then sz - 1 else sz)"
    by (subst int_fsm.simps)
      (use assms(4,6) sz dc nsign in \<open>auto simp: char_at_def ds tolower_def\<close>)
  have dr: "drop (if neg then 1 else 0) str = ds" using assms(4) by simp
  show ?thesis
    using int_fsm_digits [OF dr assms(1), of "if neg then sz - 1 else sz" "[]" 0 tm "if neg then -1 else 0"]
      assms(2-5) sz sz1 step of_nat_num_of [of 10 0 ds]
    by (auto simp: digits_value_def num_of_def)
qed

text \<open>The complete out of a plain decimal conversion.\<close>

definition plain_decimal :: "fs \<Rightarrow> bool" where
  "plain_decimal f \<longleftrightarrow> fs_flags f = FLAGS_NONE \<and> fs_width f = WIDTH_NONE \<and>
     fs_precision f = PRECISION_NONE \<and> (fs_mods f = TYPEMOD_NONE \<or> fs_mods f = TYPEMOD_UNSIGNED) \<and>
     fs_len f \<noteq> LENGTH_CHAR"

lemma plain_text:
  assumes "plain_decimal f"
  shows "int_text u f = (if int_arg u f < 0 then 45 # num_loop 10 (num_value u f) []
    else num_loop 10 (num_value u f) [])"
  using assms
  by (auto simp: plain_decimal_def int_text_def num_pad_def num_prefix_def num_base_def num_sign Let_def
      none_defs flag_defs typemod_defs)

text \<open>The stored value of type \<open>fs_len f\<close> whose bits are those of the printed argument.\<close>

definition stored :: "u64 \<Rightarrow> fs \<Rightarrow> 'd scan_val" where
  "stored u f = (case fs_len f of LENGTH_LONG_LONG \<Rightarrow> SLongLong u | LENGTH_SHORT \<Rightarrow> SShort (ucast u)
     | _ \<Rightarrow> SInt (ucast u))"

lemma narrow_wide:
  "(ucast (scast (a :: u32) :: u64) :: u32) = a" "(ucast (ucast (a :: u32) :: u64) :: u32) = a"
  "(ucast (scast (b :: u16) :: u64) :: u16) = b" "(ucast (ucast (b :: u16) :: u64) :: u16) = b"
  by (rule bit_word_eqI; auto simp: bit_simps)+

lemma stored_int_arg:
  assumes "fs_len f \<noteq> LENGTH_CHAR" "ull = word_of_int (int_arg u f)"
  shows "(case fs_len f of
      LENGTH_LONG_LONG \<Rightarrow> SLongLong ull | LENGTH_LONG \<Rightarrow> SInt (ucast ull)
    | LENGTH_SHORT \<Rightarrow> SShort (ucast ull) | LENGTH_CHAR \<Rightarrow> SInt (ucast ull)
    | _ \<Rightarrow> SInt (ucast ull)) = stored u f"
  using assms
  by (cases "fs_len f"; cases "fs_mods f AND TYPEMOD_UNSIGNED = 0")
    (simp_all add: stored_def int_arg_def narrow_wide)

text \<open>
  C12: scanning the out that \<open>print_int\<close> produced for a decimal conversion consumes all of it
  and stores the printed value, for every value of every integer type but \<open>char\<close>.
\<close>

theorem print_scan_roundtrip:
  assumes "plain_decimal f" "21 \<le> unat sz"
  shows "\<exists>out. print_int sz u f = Inr out \<and>
    scan_int out sz True f = (int (length out), Some (stored u f))"
proof -
  define ds where "ds = num_loop 10 (num_value u f) []"
  define neg where "neg = (int_arg u f < 0)"
  define out where "out = (if neg then 45 # ds else ds)"
  have b: "num_base f = 10" using assms(1) by (auto simp: plain_decimal_def num_base_def typemod_defs)
  have ds: "num_of 10 ds = num_value u f" "list_all (is_digit_in 10) ds" "ds \<noteq> []"
    using num_loop_digits [of 10 "num_value u f"] by (simp_all add: ds_def list_all_iff)
  have l: "length ds \<le> 20" using num_length [of f u] b by (simp add: ds_def)
  then have lt: "length out \<le> unat sz" using assms(2) by (simp add: out_def)
  have t: "print_int sz u f = Inr out"
    using lt by (simp add: print_int_text plain_text [OF assms(1)] out_def neg_def ds_def
        split: if_splits)
  have mods: "fs_mods f AND (TYPEMOD_HEX OR TYPEMOD_BASE_FROM_PREFIX) = 0" "scan_base (fs_mods f) = 10"
    "fs_precision f = PRECISION_NONE"
    using assms(1) by (auto simp: plain_decimal_def scan_base_def typemod_defs)
  obtain buf where fsm: "int_fsm (fs_mods f) out ST_SIGN 10 0 0 [] 0 sz =
      (ST_END, 10, if neg then -1 else 0, buf, length out)"
    and v: "digits_value 10 buf = of_nat (num_of 10 ds)"
    using int_fsm_number [OF ds(2,3) _ out_def lt mods(1)] l by auto
  have sp: "skip_lead out sz = 0"
  proof -
    obtain d ds' where "ds = d # ds'" using ds(3) by (cases ds) auto
    moreover have "\<not> isspace (uint d)" if "is_digit_in 10 d" for d
    proof -
      obtain n where "unat d = n" "uint d = int n" by (metis uint_nat)
      then show ?thesis using that by (auto simp: is_digit_in_def isspace_def)
    qed
    ultimately show ?thesis using ds(2) by (auto simp: skip_lead_def out_def isspace_def)
  qed
  have mag: "int (num_value u f) = \<bar>int_arg u f\<bar>"
    using num_magnitude assms(1) by (simp add: plain_decimal_def)
  have ull: "(if neg then - digits_value 10 buf else digits_value 10 buf) = word_of_int (int_arg u f)"
  proof -
    have "of_nat (num_of 10 ds) = (word_of_int \<bar>int_arg u f\<bar> :: u64)"
      using mag ds(1) by (metis of_int_of_nat_eq)
    then show ?thesis using v by (simp add: neg_def)
  qed
  have "scan_int out sz True f = (int (length out), Some (stored u f))"
  proof (cases neg)
    case True
    then have "- digits_value 10 buf = word_of_int (int_arg u f)" using ull by simp
    from stored_int_arg [OF _ this] True assms(1) fsm sp mods show ?thesis
      by (simp add: scan_int_def plain_decimal_def Let_def)
  next
    case False
    then have "digits_value 10 buf = word_of_int (int_arg u f)" using ull by simp
    from stored_int_arg [OF _ this] False assms(1) fsm sp mods show ?thesis
      by (simp add: scan_int_def plain_decimal_def Let_def)
  qed
  then show ?thesis using t by blast
qed

theorem print_scan_roundtrip_witness:
  "plain_decimal fs_d \<and> 21 \<le> unat (64 :: u32) \<and>
   (\<exists>out. print_int 64 0xFFFFFFFB fs_d = Inr out \<and>
     scan_int out 64 True fs_d = (int (length out), Some (stored 0xFFFFFFFB fs_d :: unit scan_val)))"
  using print_scan_roundtrip [where f = fs_d and sz = 64 and u = "0xFFFFFFFB"]
  by (simp add: plain_decimal_def none_defs flag_defs typemod_defs)

lemma scan_str_loop_length: "length (snd (scan_str_loop nc q e len m s)) \<le> m"
proof (induction nc q e len m s rule: scan_str_loop.induct)
  case (2 nc q e len m c s)
  then show ?case
    by (cases "str_round nc q e len c"; cases "store (str_round nc q e len c)")
      (auto simp: Let_def split_beta)
qed simp

text \<open>
  \<open>scan_str\<close> with a precision \<open>p\<close> stores at most \<open>p\<close> bytes, the terminating zero included.
\<close>

theorem scan_str_bounded:
  assumes "1 \<le> fs_precision f" "scan_str str sz True f = (n, v)"
  shows "\<exists>cs. v = Some (SChars (cs @ [0])) \<and> int (length (cs @ [0])) \<le> fs_precision f"
proof -
  obtain k m where v: "v = Some (SChars (snd (scan_str_loop (fs_next_char f) False False 0
      (min (nat (max (fs_precision f - 1) 0)) m) (drop k str)) @ [0]))"
    using assms by (auto simp: scan_str_def none_defs Let_def split_beta)
  then show ?thesis
    using assms(1) scan_str_loop_length [of "fs_next_char f" False False 0
        "min (nat (max (fs_precision f - 1) 0)) m" "drop k str"]
    by auto
qed

theorem scan_str_bounded_witness:
  "1 \<le> fs_precision (fs_d\<lparr>fs_precision := 3\<rparr>) \<and>
   scan_str [97, 98, 99, 100] 9 True (fs_d\<lparr>fs_precision := 3\<rparr>) = (4, Some (SChars [97, 98, 0] :: unit scan_val)) \<and>
   (\<exists>cs. Some (SChars [97, 98, 0] :: unit scan_val) = Some (SChars (cs @ [0])) \<and>
     int (length (cs @ [0])) \<le> fs_precision (fs_d\<lparr>fs_precision := 3\<rparr>))"
proof -
  have s: "scan_str [97, 98, 99, 100] 9 True (fs_d\<lparr>fs_precision := 3\<rparr>)
      = (4, Some (SChars [97, 98, 0] :: unit scan_val))"
    by (simp add: scan_str_def skip_lead_def isspace_def none_defs str_round_def)
  show ?thesis using scan_str_bounded [OF _ s] s by simp
qed

text \<open>
  The characters between the upper and the lower case letters pass for the digits 4 to 9: \<open>%d\<close>
  reads \<open>12]\<close> as 126 and consumes the bracket.
\<close>

theorem scan_int_accepts_brackets:
  "scan_int [49, 50, 93] 64 True fs_d = (3, Some (SInt 126 :: unit scan_val))"
  by (simp add: scan_int_def skip_lead_def isspace_def scan_base_def typemod_defs none_defs
      int_fsm.simps [of 0] char_at_def tolower_def digit_value_def isdigit_def digits_value_def)
end
