(* ===== verification/Net_Frame.thy ===== *)
theory Net_Frame
  imports Prelude Util_Endian
begin

text \<open>
  Addresses and frame headers of the TCP/IP stack: \<^verbatim>\<open>util/bit.h\<close>, \<^verbatim>\<open>util/msblsb.h\<close>, the headers
  \<^verbatim>\<open>eth_frame.h\<close>, \<^verbatim>\<open>arp_frame.h\<close>, \<^verbatim>\<open>ip_frame.h\<close>, \<^verbatim>\<open>icmp_frame.h\<close>, \<^verbatim>\<open>udp_frame.h\<close>, \<^verbatim>\<open>tcp_frame.h\<close>
  of \<^verbatim>\<open>net/tcpip\<close> and the address modules \<^verbatim>\<open>ip_addr.c\<close> and \<^verbatim>\<open>eth_addr.c\<close>.

  A packed header is the list of bytes that starts at its address; a field is read and written at
  the offset that the structure gives it, in the memory order of the processor (little endian), so
  the conversions of \<^verbatim>\<open>util/endian.h\<close> appear where the source has them. An accessor is applied to
  a list that is long enough for the header: the layers that follow a pointer check this.
\<close>

section \<open>Bit fields\<close>

definition LSB0 :: "u32 \<Rightarrow> int" where "LSB0 x = (if x \<noteq> 0 then 0 else -32)"
definition LSB1 :: "u32 \<Rightarrow> int" where
  "LSB1 x = (if x AND 0x0001 \<noteq> 0 then LSB0 x else 1 + LSB0 (drop_bit 1 x))"
definition LSB2 :: "u32 \<Rightarrow> int" where
  "LSB2 x = (if x AND 0x0003 \<noteq> 0 then LSB1 x else 2 + LSB1 (drop_bit 2 x))"
definition LSB3 :: "u32 \<Rightarrow> int" where
  "LSB3 x = (if x AND 0x000f \<noteq> 0 then LSB2 x else 4 + LSB2 (drop_bit 4 x))"
definition LSB4 :: "u32 \<Rightarrow> int" where
  "LSB4 x = (if x AND 0x00ff \<noteq> 0 then LSB3 x else 8 + LSB3 (drop_bit 8 x))"
definition LSB :: "u32 \<Rightarrow> int" where
  "LSB x = (if x AND 0xffff \<noteq> 0 then LSB4 x else 16 + LSB4 (drop_bit 16 x))"

definition BITS_WR :: "u32 \<Rightarrow> u32 \<Rightarrow> u32 \<Rightarrow> u32" where
  "BITS_WR x pos_mask v = (x AND NOT pos_mask) OR (push_bit (nat (LSB pos_mask)) v AND pos_mask)"

definition BITS_RD :: "u32 \<Rightarrow> u32 \<Rightarrow> u32" where
  "BITS_RD x pos_mask = drop_bit (nat (LSB pos_mask)) (x AND pos_mask)"

section \<open>Fields in memory\<close>

definition rd16 :: "bytes \<Rightarrow> nat \<Rightarrow> u16" where
  "rd16 f i = le_word16 [f ! i, f ! (i + 1)]"

definition wr16 :: "bytes \<Rightarrow> nat \<Rightarrow> u16 \<Rightarrow> bytes" where
  "wr16 f i v = f[i := le_bytes16 v ! 0, i + 1 := le_bytes16 v ! 1]"

definition rd32 :: "bytes \<Rightarrow> nat \<Rightarrow> u32" where
  "rd32 f i = le_word32 [f ! i, f ! (i + 1), f ! (i + 2), f ! (i + 3)]"

definition wr32 :: "bytes \<Rightarrow> nat \<Rightarrow> u32 \<Rightarrow> bytes" where
  "wr32 f i v = f[i := le_bytes32 v ! 0, i + 1 := le_bytes32 v ! 1, i + 2 := le_bytes32 v ! 2,
                  i + 3 := le_bytes32 v ! 3]"

definition rd_mac :: "bytes \<Rightarrow> nat \<Rightarrow> bytes" where
  "rd_mac f i = [f ! i, f ! (i + 1), f ! (i + 2), f ! (i + 3), f ! (i + 4), f ! (i + 5)]"

definition wr_mac :: "bytes \<Rightarrow> nat \<Rightarrow> bytes \<Rightarrow> bytes" where
  "wr_mac f i mac = f[i := mac ! 0, i + 1 := mac ! 1, i + 2 := mac ! 2, i + 3 := mac ! 3,
                      i + 4 := mac ! 4, i + 5 := mac ! 5]"

named_theorems frame_defs \<open>the accessors of the frame headers\<close>

section \<open>Ethernet\<close>

definition TCPIP_ETH_ETHTYPE_IP :: u16 where "TCPIP_ETH_ETHTYPE_IP = 0x0800"
definition TCPIP_ETH_ETHTYPE_ARP :: u16 where "TCPIP_ETH_ETHTYPE_ARP = 0x0806"

definition TCPIPEthFrame_SetDA :: "bytes \<Rightarrow> bytes \<Rightarrow> bytes" where [frame_defs]:
  "TCPIPEthFrame_SetDA eth da = wr_mac eth 0 da"
definition TCPIPEthFrame_GetDA :: "bytes \<Rightarrow> bytes" where [frame_defs]:
  "TCPIPEthFrame_GetDA eth = rd_mac eth 0"
definition TCPIPEthFrame_SetSA :: "bytes \<Rightarrow> bytes \<Rightarrow> bytes" where [frame_defs]:
  "TCPIPEthFrame_SetSA eth sa = wr_mac eth 6 sa"
definition TCPIPEthFrame_GetSA :: "bytes \<Rightarrow> bytes" where [frame_defs]:
  "TCPIPEthFrame_GetSA eth = rd_mac eth 6"
definition TCPIPEthFrame_SetEthType :: "bytes \<Rightarrow> u16 \<Rightarrow> bytes" where [frame_defs]:
  "TCPIPEthFrame_SetEthType eth t = wr16 eth 12 (HTOBE16 t)"
definition TCPIPEthFrame_GetEthType :: "bytes \<Rightarrow> u16" where [frame_defs]:
  "TCPIPEthFrame_GetEthType eth = HTOBE16 (rd16 eth 12)"

section \<open>Address resolution\<close>

definition TCPIP_ARP_HTYPE_ETHERNET :: u16 where "TCPIP_ARP_HTYPE_ETHERNET = 1"
definition TCPIP_ARP_PTYPE_IP :: u16 where "TCPIP_ARP_PTYPE_IP = TCPIP_ETH_ETHTYPE_IP"
definition TCPIP_ARP_OPER_REQUEST :: u16 where "TCPIP_ARP_OPER_REQUEST = 1"
definition TCPIP_ARP_OPER_REPLY :: u16 where "TCPIP_ARP_OPER_REPLY = 2"

definition TCPIPArpFrame_SetHType :: "bytes \<Rightarrow> u16 \<Rightarrow> bytes" where [frame_defs]:
  "TCPIPArpFrame_SetHType arp v = wr16 arp 0 (HTOBE16 v)"
definition TCPIPArpFrame_GetHType :: "bytes \<Rightarrow> u16" where [frame_defs]:
  "TCPIPArpFrame_GetHType arp = HTOBE16 (rd16 arp 0)"
definition TCPIPArpFrame_SetPType :: "bytes \<Rightarrow> u16 \<Rightarrow> bytes" where [frame_defs]:
  "TCPIPArpFrame_SetPType arp v = wr16 arp 2 (HTOBE16 v)"
definition TCPIPArpFrame_GetPType :: "bytes \<Rightarrow> u16" where [frame_defs]:
  "TCPIPArpFrame_GetPType arp = HTOBE16 (rd16 arp 2)"
definition TCPIPArpFrame_SetHLen :: "bytes \<Rightarrow> u32 \<Rightarrow> bytes" where [frame_defs]:
  "TCPIPArpFrame_SetHLen arp hlen = arp[4 := ucast hlen]"
definition TCPIPArpFrame_GetHLen :: "bytes \<Rightarrow> u32" where [frame_defs]:
  "TCPIPArpFrame_GetHLen arp = ucast (arp ! 4)"
definition TCPIPArpFrame_SetPLen :: "bytes \<Rightarrow> u32 \<Rightarrow> bytes" where [frame_defs]:
  "TCPIPArpFrame_SetPLen arp plen = arp[5 := ucast plen]"
definition TCPIPArpFrame_GetPLen :: "bytes \<Rightarrow> u32" where [frame_defs]:
  "TCPIPArpFrame_GetPLen arp = ucast (arp ! 5)"
definition TCPIPArpFrame_SetOper :: "bytes \<Rightarrow> u16 \<Rightarrow> bytes" where [frame_defs]:
  "TCPIPArpFrame_SetOper arp oper = wr16 arp 6 (HTOBE16 oper)"
definition TCPIPArpFrame_GetOper :: "bytes \<Rightarrow> u16" where [frame_defs]:
  "TCPIPArpFrame_GetOper arp = HTOBE16 (rd16 arp 6)"

text \<open>The payload for IP over Ethernet starts at byte 8 of the ARP frame; its accessors take the
  payload.\<close>

definition TCPIPArpFrameETHIP_SetSHA :: "bytes \<Rightarrow> bytes \<Rightarrow> bytes" where [frame_defs]:
  "TCPIPArpFrameETHIP_SetSHA p sha = wr_mac p 0 sha"
definition TCPIPArpFrameETHIP_GetSHA :: "bytes \<Rightarrow> bytes" where [frame_defs]:
  "TCPIPArpFrameETHIP_GetSHA p = rd_mac p 0"
definition TCPIPArpFrameETHIP_SetSPA :: "bytes \<Rightarrow> u32 \<Rightarrow> bytes" where [frame_defs]:
  "TCPIPArpFrameETHIP_SetSPA p spa = wr32 p 6 (HTOBE32 spa)"
definition TCPIPArpFrameETHIP_GetSPA :: "bytes \<Rightarrow> u32" where [frame_defs]:
  "TCPIPArpFrameETHIP_GetSPA p = HTOBE32 (rd32 p 6)"
definition TCPIPArpFrameETHIP_SetTHA :: "bytes \<Rightarrow> bytes \<Rightarrow> bytes" where [frame_defs]:
  "TCPIPArpFrameETHIP_SetTHA p tha = wr_mac p 10 tha"
definition TCPIPArpFrameETHIP_GetTHA :: "bytes \<Rightarrow> bytes" where [frame_defs]:
  "TCPIPArpFrameETHIP_GetTHA p = rd_mac p 10"
definition TCPIPArpFrameETHIP_SetTPA :: "bytes \<Rightarrow> u32 \<Rightarrow> bytes" where [frame_defs]:
  "TCPIPArpFrameETHIP_SetTPA p tpa = wr32 p 16 (HTOBE32 tpa)"
definition TCPIPArpFrameETHIP_GetTPA :: "bytes \<Rightarrow> u32" where [frame_defs]:
  "TCPIPArpFrameETHIP_GetTPA p = HTOBE32 (rd32 p 16)"

section \<open>Internet protocol\<close>

definition TCPIP_IP_HDR_LEN_VER_VER :: u32 where "TCPIP_IP_HDR_LEN_VER_VER = 0xF0"
definition TCPIP_IP_HDR_LEN_VER_HDRLEN :: u32 where "TCPIP_IP_HDR_LEN_VER_HDRLEN = 0x0F"
definition TCPIP_IP_FLAGS_DF :: u16 where "TCPIP_IP_FLAGS_DF = 0x4000"
definition TCPIP_IP_FLAGS_MF :: u16 where "TCPIP_IP_FLAGS_MF = 0x8000"
definition TCPIP_IP_FLAGS_FOFFS :: u16 where "TCPIP_IP_FLAGS_FOFFS = 0x03FF"
definition TCPIP_IP_FLAGS_ALL :: u16 where "TCPIP_IP_FLAGS_ALL = TCPIP_IP_FLAGS_DF OR TCPIP_IP_FLAGS_MF"
definition TCPIP_IP_PROTOCOL_ICMP :: u8 where "TCPIP_IP_PROTOCOL_ICMP = 1"
definition TCPIP_IP_PROTOCOL_TCP :: u8 where "TCPIP_IP_PROTOCOL_TCP = 6"
definition TCPIP_IP_PROTOCOL_UDP :: u8 where "TCPIP_IP_PROTOCOL_UDP = 17"

definition TCPIPIpFrame_GetHdrLen :: "bytes \<Rightarrow> u32" where [frame_defs]:
  "TCPIPIpFrame_GetHdrLen ip = BITS_RD (ucast (ip ! 0)) TCPIP_IP_HDR_LEN_VER_HDRLEN * 4"
definition TCPIPIpFrame_SetHdrLen :: "bytes \<Rightarrow> u32 \<Rightarrow> bytes" where [frame_defs]:
  "TCPIPIpFrame_SetHdrLen ip hdr_len =
     ip[0 := ucast (BITS_WR (ucast (ip ! 0)) TCPIP_IP_HDR_LEN_VER_HDRLEN (hdr_len div 4))]"
definition TCPIPIpFrame_GetVersion :: "bytes \<Rightarrow> u32" where [frame_defs]:
  "TCPIPIpFrame_GetVersion ip = BITS_RD (ucast (ip ! 0)) TCPIP_IP_HDR_LEN_VER_VER"
definition TCPIPIpFrame_SetVersion :: "bytes \<Rightarrow> u32 \<Rightarrow> bytes" where [frame_defs]:
  "TCPIPIpFrame_SetVersion ip version =
     ip[0 := ucast (BITS_WR (ucast (ip ! 0)) TCPIP_IP_HDR_LEN_VER_VER version)]"
definition TCPIPIpFrame_GetTos :: "bytes \<Rightarrow> u8" where [frame_defs]:
  "TCPIPIpFrame_GetTos ip = ip ! 1"
definition TCPIPIpFrame_SetTos :: "bytes \<Rightarrow> u8 \<Rightarrow> bytes" where [frame_defs]:
  "TCPIPIpFrame_SetTos ip tos = ip[1 := tos]"
definition TCPIPIpFrame_GetLength :: "bytes \<Rightarrow> u16" where [frame_defs]:
  "TCPIPIpFrame_GetLength ip = HTOBE16 (rd16 ip 2)"
definition TCPIPIpFrame_SetLength :: "bytes \<Rightarrow> u16 \<Rightarrow> bytes" where [frame_defs]:
  "TCPIPIpFrame_SetLength ip len = wr16 ip 2 (HTOBE16 len)"
definition TCPIPIpFrame_GetIdentification :: "bytes \<Rightarrow> u8" where [frame_defs]:
  "TCPIPIpFrame_GetIdentification ip = ucast (HTOBE16 (rd16 ip 4))"
definition TCPIPIpFrame_SetIdentification :: "bytes \<Rightarrow> u16 \<Rightarrow> bytes" where [frame_defs]:
  "TCPIPIpFrame_SetIdentification ip v = wr16 ip 4 (HTOBE16 v)"
definition TCPIPIpFrame_GetFlags :: "bytes \<Rightarrow> u16" where [frame_defs]:
  "TCPIPIpFrame_GetFlags ip = HTOBE16 (rd16 ip 6) AND TCPIP_IP_FLAGS_ALL"
definition TCPIPIpFrame_SetFlags :: "bytes \<Rightarrow> u16 \<Rightarrow> bytes" where [frame_defs]:
  "TCPIPIpFrame_SetFlags ip flags =
     wr16 ip 6 (HTOBE16 (HTOBE16 (rd16 ip 6) AND NOT TCPIP_IP_FLAGS_ALL OR flags))"
definition TCPIPIpFrame_GetFragmentOffset :: "bytes \<Rightarrow> u16" where [frame_defs]:
  "TCPIPIpFrame_GetFragmentOffset ip = HTOBE16 (rd16 ip 6) AND TCPIP_IP_FLAGS_FOFFS"
definition TCPIPIpFrame_SetFragmentOffset :: "bytes \<Rightarrow> u16 \<Rightarrow> bytes" where [frame_defs]:
  "TCPIPIpFrame_SetFragmentOffset ip offset =
     wr16 ip 6 (HTOBE16 (HTOBE16 (rd16 ip 6) AND NOT TCPIP_IP_FLAGS_FOFFS OR offset))"
definition TCPIPIpFrame_GetTTL :: "bytes \<Rightarrow> u8" where [frame_defs]:
  "TCPIPIpFrame_GetTTL ip = ip ! 8"
definition TCPIPIpFrame_SetTTL :: "bytes \<Rightarrow> u8 \<Rightarrow> bytes" where [frame_defs]:
  "TCPIPIpFrame_SetTTL ip ttl = ip[8 := ttl]"
definition TCPIPIpFrame_GetProtocol :: "bytes \<Rightarrow> u8" where [frame_defs]:
  "TCPIPIpFrame_GetProtocol ip = ip ! 9"
definition TCPIPIpFrame_SetProtocol :: "bytes \<Rightarrow> u8 \<Rightarrow> bytes" where [frame_defs]:
  "TCPIPIpFrame_SetProtocol ip protocol = ip[9 := protocol]"
definition TCPIPIpFrame_GetChecksum :: "bytes \<Rightarrow> u8" where [frame_defs]:
  "TCPIPIpFrame_GetChecksum ip = ucast (HTOBE16 (rd16 ip 10))"
definition TCPIPIpFrame_SetChecksum :: "bytes \<Rightarrow> u16 \<Rightarrow> bytes" where [frame_defs]:
  "TCPIPIpFrame_SetChecksum ip checksum = wr16 ip 10 (HTOBE16 checksum)"
definition TCPIPIpFrame_GetSrcAddr :: "bytes \<Rightarrow> u32" where [frame_defs]:
  "TCPIPIpFrame_GetSrcAddr ip = HTOBE32 (rd32 ip 12)"
definition TCPIPIpFrame_SetSrcAddr :: "bytes \<Rightarrow> u32 \<Rightarrow> bytes" where [frame_defs]:
  "TCPIPIpFrame_SetSrcAddr ip a = wr32 ip 12 (HTOBE32 a)"
definition TCPIPIpFrame_GetDstAddr :: "bytes \<Rightarrow> u32" where [frame_defs]:
  "TCPIPIpFrame_GetDstAddr ip = HTOBE32 (rd32 ip 16)"
definition TCPIPIpFrame_SetDstAddr :: "bytes \<Rightarrow> u32 \<Rightarrow> bytes" where [frame_defs]:
  "TCPIPIpFrame_SetDstAddr ip a = wr32 ip 16 (HTOBE32 a)"

text \<open>The bytes of the pseudo header structure.\<close>

definition TCPIPIpFrame_GetPseudoHdr :: "bytes \<Rightarrow> bytes" where [frame_defs]:
  "TCPIPIpFrame_GetPseudoHdr ip =
     (let pld_len = TCPIPIpFrame_GetLength ip - ucast (TCPIPIpFrame_GetHdrLen ip) in
      le_bytes32 (rd32 ip 12) @ le_bytes32 (rd32 ip 16) @ [0, ip ! 9] @ le_bytes16 (HTOBE16 pld_len))"

section \<open>Control messages\<close>

definition TCPIP_ICMP_TYPE_ECHO_REPLY :: u8 where "TCPIP_ICMP_TYPE_ECHO_REPLY = 0"
definition TCPIP_ICMP_TYPE_ECHO_REQUEST :: u8 where "TCPIP_ICMP_TYPE_ECHO_REQUEST = 8"

definition TCPIPIcmpFrame_GetType :: "bytes \<Rightarrow> u8" where [frame_defs]:
  "TCPIPIcmpFrame_GetType icmp = icmp ! 0"
definition TCPIPIcmpFrame_SetType :: "bytes \<Rightarrow> u8 \<Rightarrow> bytes" where [frame_defs]:
  "TCPIPIcmpFrame_SetType icmp t = icmp[0 := t]"
definition TCPIPIcmpFrame_GetCode :: "bytes \<Rightarrow> u8" where [frame_defs]:
  "TCPIPIcmpFrame_GetCode icmp = icmp ! 1"
definition TCPIPIcmpFrame_SetCode :: "bytes \<Rightarrow> u8 \<Rightarrow> bytes" where [frame_defs]:
  "TCPIPIcmpFrame_SetCode icmp c = icmp[1 := c]"
definition TCPIPIcmpFrame_GetChecksum :: "bytes \<Rightarrow> u16" where [frame_defs]:
  "TCPIPIcmpFrame_GetChecksum icmp = HTOBE16 (rd16 icmp 2)"
definition TCPIPIcmpFrame_SetChecksum :: "bytes \<Rightarrow> u16 \<Rightarrow> bytes" where [frame_defs]:
  "TCPIPIcmpFrame_SetChecksum icmp c = wr16 icmp 2 (HTOBE16 c)"

text \<open>The echo payload starts at byte 4 of the message.\<close>

definition TCPIPIcmpFrameEcho_SetID :: "bytes \<Rightarrow> u16 \<Rightarrow> bytes" where [frame_defs]:
  "TCPIPIcmpFrameEcho_SetID echo v = wr16 echo 0 (HTOBE16 v)"
definition TCPIPIcmpFrameEcho_GetID :: "bytes \<Rightarrow> u16" where [frame_defs]:
  "TCPIPIcmpFrameEcho_GetID echo = HTOBE16 (rd16 echo 0)"
definition TCPIPIcmpFrameEcho_SetSeqNo :: "bytes \<Rightarrow> u16 \<Rightarrow> bytes" where [frame_defs]:
  "TCPIPIcmpFrameEcho_SetSeqNo echo v = wr16 echo 2 (HTOBE16 v)"
definition TCPIPIcmpFrameEcho_GetSeqNo :: "bytes \<Rightarrow> u16" where [frame_defs]:
  "TCPIPIcmpFrameEcho_GetSeqNo echo = HTOBE16 (rd16 echo 2)"

section \<open>User datagrams\<close>

definition TCPIPUdpFrame_GetSrcPort :: "bytes \<Rightarrow> u16" where [frame_defs]:
  "TCPIPUdpFrame_GetSrcPort udp = HTOBE16 (rd16 udp 0)"
definition TCPIPUdpFrame_SetSrcPort :: "bytes \<Rightarrow> u16 \<Rightarrow> bytes" where [frame_defs]:
  "TCPIPUdpFrame_SetSrcPort udp v = wr16 udp 0 (HTOBE16 v)"
definition TCPIPUdpFrame_GetDstPort :: "bytes \<Rightarrow> u16" where [frame_defs]:
  "TCPIPUdpFrame_GetDstPort udp = HTOBE16 (rd16 udp 2)"
definition TCPIPUdpFrame_SetDstPort :: "bytes \<Rightarrow> u16 \<Rightarrow> bytes" where [frame_defs]:
  "TCPIPUdpFrame_SetDstPort udp v = wr16 udp 2 (HTOBE16 v)"
definition TCPIPUdpFrame_GetLength :: "bytes \<Rightarrow> u16" where [frame_defs]:
  "TCPIPUdpFrame_GetLength udp = HTOBE16 (rd16 udp 4)"
definition TCPIPUdpFrame_SetLength :: "bytes \<Rightarrow> u16 \<Rightarrow> bytes" where [frame_defs]:
  "TCPIPUdpFrame_SetLength udp v = wr16 udp 4 (HTOBE16 v)"
definition TCPIPUdpFrame_GetChecksum :: "bytes \<Rightarrow> u16" where [frame_defs]:
  "TCPIPUdpFrame_GetChecksum udp = HTOBE16 (rd16 udp 6)"
definition TCPIPUdpFrame_SetChecksum :: "bytes \<Rightarrow> u16 \<Rightarrow> bytes" where [frame_defs]:
  "TCPIPUdpFrame_SetChecksum udp v = wr16 udp 6 (HTOBE16 v)"

section \<open>Transmission control\<close>

definition TCPIP_TCP_FLAGS_DOFFS_FLAGS :: u32 where "TCPIP_TCP_FLAGS_DOFFS_FLAGS = 0x03FF"
definition TCPIP_TCP_FLAGS_DOFFS :: u32 where "TCPIP_TCP_FLAGS_DOFFS = 0xF000"
definition TCPIP_TCP_FLAGS_FIN :: u32 where "TCPIP_TCP_FLAGS_FIN = 0x0001"
definition TCPIP_TCP_FLAGS_SYN :: u32 where "TCPIP_TCP_FLAGS_SYN = 0x0002"
definition TCPIP_TCP_FLAGS_RST :: u32 where "TCPIP_TCP_FLAGS_RST = 0x0004"
definition TCPIP_TCP_FLAGS_PSH :: u32 where "TCPIP_TCP_FLAGS_PSH = 0x0008"
definition TCPIP_TCP_FLAGS_ACK :: u32 where "TCPIP_TCP_FLAGS_ACK = 0x0010"

definition TCPIPTcpFrame_GetSrcPort :: "bytes \<Rightarrow> u16" where [frame_defs]:
  "TCPIPTcpFrame_GetSrcPort tcp = HTOBE16 (rd16 tcp 0)"
definition TCPIPTcpFrame_SetSrcPort :: "bytes \<Rightarrow> u16 \<Rightarrow> bytes" where [frame_defs]:
  "TCPIPTcpFrame_SetSrcPort tcp v = wr16 tcp 0 (HTOBE16 v)"
definition TCPIPTcpFrame_GetDstPort :: "bytes \<Rightarrow> u16" where [frame_defs]:
  "TCPIPTcpFrame_GetDstPort tcp = HTOBE16 (rd16 tcp 2)"
definition TCPIPTcpFrame_SetDstPort :: "bytes \<Rightarrow> u16 \<Rightarrow> bytes" where [frame_defs]:
  "TCPIPTcpFrame_SetDstPort tcp v = wr16 tcp 2 (HTOBE16 v)"
definition TCPIPTcpFrame_GetSeq :: "bytes \<Rightarrow> u32" where [frame_defs]:
  "TCPIPTcpFrame_GetSeq tcp = HTOBE32 (rd32 tcp 4)"
definition TCPIPTcpFrame_SetSeq :: "bytes \<Rightarrow> u32 \<Rightarrow> bytes" where [frame_defs]:
  "TCPIPTcpFrame_SetSeq tcp v = wr32 tcp 4 (HTOBE32 v)"
definition TCPIPTcpFrame_GetAck :: "bytes \<Rightarrow> u32" where [frame_defs]:
  "TCPIPTcpFrame_GetAck tcp = HTOBE32 (rd32 tcp 8)"
definition TCPIPTcpFrame_SetAck :: "bytes \<Rightarrow> u32 \<Rightarrow> bytes" where [frame_defs]:
  "TCPIPTcpFrame_SetAck tcp v = wr32 tcp 8 (HTOBE32 v)"
definition TCPIPTcpFrame_GetDataOffs :: "bytes \<Rightarrow> u32" where [frame_defs]:
  "TCPIPTcpFrame_GetDataOffs tcp = BITS_RD (ucast (HTOBE16 (rd16 tcp 12))) TCPIP_TCP_FLAGS_DOFFS * 4"
definition TCPIPTcpFrame_SetDataOffs :: "bytes \<Rightarrow> u32 \<Rightarrow> bytes" where [frame_defs]:
  "TCPIPTcpFrame_SetDataOffs tcp doffs =
     wr16 tcp 12 (HTOBE16 (ucast (BITS_WR (ucast (HTOBE16 (rd16 tcp 12))) TCPIP_TCP_FLAGS_DOFFS (doffs div 4))))"
definition TCPIPTcpFrame_GetFlags :: "bytes \<Rightarrow> u32" where [frame_defs]:
  "TCPIPTcpFrame_GetFlags tcp = BITS_RD (ucast (HTOBE16 (rd16 tcp 12))) TCPIP_TCP_FLAGS_DOFFS_FLAGS"
definition TCPIPTcpFrame_SetFlags :: "bytes \<Rightarrow> u32 \<Rightarrow> bytes" where [frame_defs]:
  "TCPIPTcpFrame_SetFlags tcp flags =
     wr16 tcp 12 (HTOBE16 (ucast (BITS_WR (ucast (HTOBE16 (rd16 tcp 12))) TCPIP_TCP_FLAGS_DOFFS_FLAGS flags)))"
definition TCPIPTcpFrame_GetWindow :: "bytes \<Rightarrow> u32" where [frame_defs]:
  "TCPIPTcpFrame_GetWindow tcp = ucast (HTOBE16 (rd16 tcp 14))"
definition TCPIPTcpFrame_SetWindow :: "bytes \<Rightarrow> u32 \<Rightarrow> bytes" where [frame_defs]:
  "TCPIPTcpFrame_SetWindow tcp win = wr16 tcp 14 (HTOBE16 (ucast win))"
definition TCPIPTcpFrame_GetChecksum :: "bytes \<Rightarrow> u16" where [frame_defs]:
  "TCPIPTcpFrame_GetChecksum tcp = HTOBE16 (rd16 tcp 16)"
definition TCPIPTcpFrame_SetChecksum :: "bytes \<Rightarrow> u16 \<Rightarrow> bytes" where [frame_defs]:
  "TCPIPTcpFrame_SetChecksum tcp v = wr16 tcp 16 (HTOBE16 v)"
definition TCPIPTcpFrame_GetUrgentPtr :: "bytes \<Rightarrow> u16" where [frame_defs]:
  "TCPIPTcpFrame_GetUrgentPtr tcp = HTOBE16 (rd16 tcp 18)"
definition TCPIPTcpFrame_SetUrgentPtr :: "bytes \<Rightarrow> u16 \<Rightarrow> bytes" where [frame_defs]:
  "TCPIPTcpFrame_SetUrgentPtr tcp v = wr16 tcp 18 (HTOBE16 v)"


section \<open>Laws of the fields\<close>

lemma wr_length [simp]:
  "length (wr16 f i v) = length f" "length (wr32 f i w) = length f" "length (wr_mac f i m) = length f"
  by (simp_all add: wr16_def wr32_def wr_mac_def)

lemma nth_wr16:
  "i + 1 < length f \<Longrightarrow> wr16 f i v ! j =
     (if j = i then le_bytes16 v ! 0 else if j = i + 1 then le_bytes16 v ! 1 else f ! j)"
  by (auto simp: wr16_def nth_list_update)

lemma nth_wr32:
  "i + 3 < length f \<Longrightarrow> wr32 f i v ! j =
     (if j = i then le_bytes32 v ! 0 else if j = i + 1 then le_bytes32 v ! 1
      else if j = i + 2 then le_bytes32 v ! 2 else if j = i + 3 then le_bytes32 v ! 3 else f ! j)"
  by (auto simp: wr32_def nth_list_update)

lemma nth_wr_mac:
  "i + 5 < length f \<Longrightarrow> wr_mac f i m ! j =
     (if j = i then m ! 0 else if j = i + 1 then m ! 1 else if j = i + 2 then m ! 2
      else if j = i + 3 then m ! 3 else if j = i + 4 then m ! 4 else if j = i + 5 then m ! 5 else f ! j)"
  by (auto simp: wr_mac_def nth_list_update)

lemma le_bytes_list:
  "[le_bytes16 v ! 0, le_bytes16 v ! 1] = le_bytes16 v"
  "[le_bytes32 w ! 0, le_bytes32 w ! 1, le_bytes32 w ! 2, le_bytes32 w ! 3] = le_bytes32 w"
  by (simp_all add: le_bytes16_def le_bytes32_def numeral_2_eq_2 numeral_3_eq_3)

lemma rd_wr_same [simp]:
  "i + 1 < length f \<Longrightarrow> rd16 (wr16 f i v) i = v"
  "i + 3 < length f \<Longrightarrow> rd32 (wr32 f i w) i = w"
  using le_word16_bytes [of v "[]"] le_word32_bytes [of w "[]"] le_bytes_list(1) [of v] le_bytes_list(2) [of w]
  by (simp_all add: rd16_def rd32_def nth_wr16 nth_wr32)

lemma mac_cases: "length m = 6 \<Longrightarrow> m = [m ! 0, m ! 1, m ! 2, m ! 3, m ! 4, m ! 5]"
  by (rule nth_equalityI) (auto simp: less_Suc_eq numeral_eq_Suc)

lemma rd_wr_mac [simp]:
  "i + 5 < length f \<Longrightarrow> length m = 6 \<Longrightarrow> rd_mac (wr_mac f i m) i = m"
  using mac_cases [of m] by (simp add: rd_mac_def nth_wr_mac)

lemmas field_rw = rd16_def rd32_def rd_mac_def nth_wr16 nth_wr32 nth_wr_mac nth_list_update le_bytes_list

lemma wr_drop:
  "i + 2 \<le> n \<Longrightarrow> drop n (wr16 f i v) = drop n f" "i + 4 \<le> n \<Longrightarrow> drop n (wr32 f i w) = drop n f"
  "i + 6 \<le> n \<Longrightarrow> drop n (wr_mac f i m) = drop n f"
  by (simp_all add: wr16_def wr32_def wr_mac_def drop_update_cancel)

text \<open>Reading a field is not affected by writing another one.\<close>

lemma rd_wr_other:
  "j + 2 \<le> i \<or> i + 2 \<le> j \<Longrightarrow> rd16 (wr16 f i v) j = rd16 f j"
  "j + 2 \<le> i \<or> i + 4 \<le> j \<Longrightarrow> rd16 (wr32 f i w) j = rd16 f j"
  "j + 2 \<le> i \<or> i + 6 \<le> j \<Longrightarrow> rd16 (wr_mac f i m) j = rd16 f j"
  "i \<noteq> j \<Longrightarrow> i \<noteq> Suc j \<Longrightarrow> rd16 (f[i := b]) j = rd16 f j"
  "j + 4 \<le> i \<or> i + 2 \<le> j \<Longrightarrow> rd32 (wr16 f i v) j = rd32 f j"
  "j + 4 \<le> i \<or> i + 4 \<le> j \<Longrightarrow> rd32 (wr32 f i w) j = rd32 f j"
  "j + 4 \<le> i \<or> i + 6 \<le> j \<Longrightarrow> rd32 (wr_mac f i m) j = rd32 f j"
  "i < j \<or> j + 4 \<le> i \<Longrightarrow> rd32 (f[i := b]) j = rd32 f j"
  "j < i \<or> i + 2 \<le> j \<Longrightarrow> wr16 f i v ! j = f ! j"
  "j < i \<or> i + 4 \<le> j \<Longrightarrow> wr32 f i w ! j = f ! j"
  "j < i \<or> i + 6 \<le> j \<Longrightarrow> wr_mac f i m ! j = f ! j"
  "j + 6 \<le> i \<or> i + 6 \<le> j \<Longrightarrow> rd_mac (wr_mac f i m) j = rd_mac f j"
  "j + 6 \<le> i \<or> i + 2 \<le> j \<Longrightarrow> rd_mac (wr16 f i v) j = rd_mac f j"
  "j + 6 \<le> i \<or> i + 4 \<le> j \<Longrightarrow> rd_mac (wr32 f i w) j = rd_mac f j"
  by (auto simp: rd16_def rd32_def rd_mac_def wr16_def wr32_def wr_mac_def)

text \<open>The bit fields of the headers.\<close>

lemma LSB_masks [simp]: "LSB 0xF0 = 4" "LSB 0x0F = 0" "LSB 0xF000 = 12" "LSB 0x03FF = 0"
  by (simp_all add: LSB_def LSB4_def LSB3_def LSB2_def LSB1_def LSB0_def)

lemma ip_first_byte:
  "ucast (BITS_WR (ucast (ucast (BITS_WR (ucast (b :: u8)) 0x0F 5) :: u8)) 0xF0 4) = (0x45 :: u8)"
  by (simp add: BITS_WR_def word_bits bit_simps)

section \<open>Addresses\<close>

text \<open>An IP address is its 32 bit member; \<open>TCPIP_IP_ADDR\<close> stores \<open>d\<close> in the lowest byte.\<close>

definition TCPIP_IP_ADDR :: "u8 \<Rightarrow> u8 \<Rightarrow> u8 \<Rightarrow> u8 \<Rightarrow> u32" where
  "TCPIP_IP_ADDR a b c d = le_word32 [d, c, b, a]"

definition TCPIP_IP_ADDR_BCAST :: u32 where "TCPIP_IP_ADDR_BCAST = TCPIP_IP_ADDR 255 255 255 255"
definition TCPIP_IP_ADDR_ANY :: u32 where "TCPIP_IP_ADDR_ANY = TCPIP_IP_ADDR 0 0 0 0"
definition TCPIP_ETH_ADDR_BCAST :: bytes where "TCPIP_ETH_ADDR_BCAST = [255, 255, 255, 255, 255, 255]"
definition TCPIP_ETH_ADDRESS :: bytes where "TCPIP_ETH_ADDRESS = [0, 1, 2, 3, 4, 100]"

record ip_conf =
  tcpip_ip_addr :: u32
  tcpip_ip_mask :: u32
  tcpip_ip_gway :: u32

definition ip_conf_init :: ip_conf where
  "ip_conf_init = \<lparr>tcpip_ip_addr = TCPIP_IP_ADDR 192 168 50 124,
     tcpip_ip_mask = TCPIP_IP_ADDR 255 255 255 0, tcpip_ip_gway = TCPIP_IP_ADDR 192 168 50 124\<rparr>"

definition TCPIPIpAddr_GetIP :: "ip_conf \<Rightarrow> u32" where
  "TCPIPIpAddr_GetIP c = tcpip_ip_addr c"
definition TCPIPIpAddr_SetIP :: "ip_conf \<Rightarrow> u32 \<Rightarrow> u32 \<times> ip_conf" where
  "TCPIPIpAddr_SetIP c ip = (ip, c\<lparr>tcpip_ip_addr := ip\<rparr>)"
definition TCPIPIpAddr_GetSubnetMask :: "ip_conf \<Rightarrow> u32" where
  "TCPIPIpAddr_GetSubnetMask c = tcpip_ip_mask c"
definition TCPIPIpAddr_SetSubnetMask :: "ip_conf \<Rightarrow> u32 \<Rightarrow> u32 \<times> ip_conf" where
  "TCPIPIpAddr_SetSubnetMask c ip = (ip, c\<lparr>tcpip_ip_mask := ip\<rparr>)"
definition TCPIPIpAddr_GetGatewayIP :: "ip_conf \<Rightarrow> u32" where
  "TCPIPIpAddr_GetGatewayIP c = tcpip_ip_gway c"
definition TCPIPIpAddr_SetGatewayIP :: "ip_conf \<Rightarrow> u32 \<Rightarrow> u32 \<times> ip_conf" where
  "TCPIPIpAddr_SetGatewayIP c ip = (ip, c\<lparr>tcpip_ip_gway := ip\<rparr>)"
definition TCPIPIpAddr_AddressMatch :: "u32 \<Rightarrow> u32 \<Rightarrow> bool" where
  "TCPIPIpAddr_AddressMatch a b \<longleftrightarrow> a = b"
definition TCPIPIpAddr_Next :: "u32 \<Rightarrow> u32" where
  "TCPIPIpAddr_Next ip = ip + 1"
definition TCPIPIpAddr_IsMatchingUnicast :: "ip_conf \<Rightarrow> u32 \<Rightarrow> bool" where
  "TCPIPIpAddr_IsMatchingUnicast c a \<longleftrightarrow> a = tcpip_ip_addr c"
definition TCPIPIpAddr_IsMatchingBroadcast :: "ip_conf \<Rightarrow> u32 \<Rightarrow> bool" where
  "TCPIPIpAddr_IsMatchingBroadcast c a \<longleftrightarrow>
     a = TCPIP_IP_ADDR_BCAST \<or>
     (a AND tcpip_ip_mask c = tcpip_ip_addr c) \<and>
     (a AND NOT (tcpip_ip_mask c) = NOT (tcpip_ip_mask c))"
definition TCPIPIpAddr_IsMatchingMulticast :: "u32 \<Rightarrow> bool" where
  "TCPIPIpAddr_IsMatchingMulticast a \<longleftrightarrow>
     a \<ge> TCPIP_IP_ADDR 224 0 0 0 \<and> a \<le> TCPIP_IP_ADDR 239 255 255 255"
definition TCPIPIpAddr_IsMatchingAny :: "u32 \<Rightarrow> bool" where
  "TCPIPIpAddr_IsMatchingAny a \<longleftrightarrow> a = TCPIP_IP_ADDR_ANY"
definition TCPIPIpAddr_IsWithinSubnet :: "ip_conf \<Rightarrow> u32 \<Rightarrow> bool" where
  "TCPIPIpAddr_IsWithinSubnet c a \<longleftrightarrow> a AND tcpip_ip_mask c = tcpip_ip_addr c AND tcpip_ip_mask c"

definition TCPIPEthAddr_GetMAC :: bytes where
  "TCPIPEthAddr_GetMAC = TCPIP_ETH_ADDRESS"
definition TCPIPEthAddr_AddressMatch :: "bytes \<Rightarrow> bytes \<Rightarrow> bool" where
  "TCPIPEthAddr_AddressMatch a b \<longleftrightarrow> rd16 a 0 = rd16 b 0 \<and> rd16 a 2 = rd16 b 2 \<and> rd16 a 4 = rd16 b 4"
definition TCPIPEthAddr_IsMatchingUnicast :: "bytes \<Rightarrow> bool" where
  "TCPIPEthAddr_IsMatchingUnicast a \<longleftrightarrow> TCPIPEthAddr_AddressMatch a TCPIPEthAddr_GetMAC"

lemma le_word16_inj: "le_word16 [a, b] = le_word16 [c, d] \<longleftrightarrow> a = c \<and> b = d"
  by (auto simp: word_bits bit_simps)

lemma AddressMatch_eq:
  "length a = 6 \<Longrightarrow> length b = 6 \<Longrightarrow> TCPIPEthAddr_AddressMatch a b \<longleftrightarrow> a = b"
  using mac_cases [of a] mac_cases [of b]
  by (simp add: TCPIPEthAddr_AddressMatch_def rd16_def le_word16_inj del: le_word16.simps) metis

text \<open>
  The directed broadcast of the sub-network is never recognised while the host part of the own
  address is not zero, since the masked address is compared with the unmasked own address.
\<close>

lemma IsMatchingBroadcast_directed:
  assumes "tcpip_ip_addr c AND NOT (tcpip_ip_mask c) \<noteq> 0"
  shows "TCPIPIpAddr_IsMatchingBroadcast c a \<longleftrightarrow> a = TCPIP_IP_ADDR_BCAST"
proof -
  have "a AND tcpip_ip_mask c \<noteq> tcpip_ip_addr c"
  proof
    assume e: "a AND tcpip_ip_mask c = tcpip_ip_addr c"
    have "tcpip_ip_addr c AND NOT (tcpip_ip_mask c) = 0"
      unfolding e [symmetric] by (rule bit_word_eqI) (simp add: bit_simps)
    then show False using assms by simp
  qed
  then show ?thesis by (simp add: TCPIPIpAddr_IsMatchingBroadcast_def)
qed
end
