(* ===== verification/Net_Checksum.thy ===== *)
theory Net_Checksum
  imports Net_Frame
begin

text \<open>
  The Internet checksum: \<^verbatim>\<open>net/tcpip/src/checksum.c\<close> and the checksums of the layers in
  \<^verbatim>\<open>ip_checksum.c\<close>, \<^verbatim>\<open>icmp_checksum.c\<close>, \<^verbatim>\<open>icmp_frame.c\<close>, \<^verbatim>\<open>udp_checksum.c\<close> and \<^verbatim>\<open>tcp_checksum.c\<close>.
  A frame pointer is the list of bytes from the frame to the end of its buffer; reading past the
  end of the buffer is a fault.
\<close>

section \<open>The sum\<close>

definition oc_add :: "u16 \<Rightarrow> u16 \<Rightarrow> u16" where
  "oc_add s val = (let s = s + val in if s < val then s + 1 else s)"

fun TCPIPChecksum_Checksum :: "u16 \<Rightarrow> bytes \<Rightarrow> u16" where
  "TCPIPChecksum_Checksum s [] = s"
| "TCPIPChecksum_Checksum s [a] = oc_add s (HTOBE16 (ucast a))"
| "TCPIPChecksum_Checksum s (a # b # p) =
     TCPIPChecksum_Checksum (oc_add s (HTOBE16 (le_word16 [a, b]))) p"

section \<open>The checksums of the layers\<close>

definition TCPIPIpChecksum_Compute :: "bytes \<Rightarrow> fault + u16" where
  "TCPIPIpChecksum_Compute ip =
     bind_res (mem_read ip 0 (unat (TCPIPIpFrame_GetHdrLen ip)))
       (\<lambda>h. Inr (NOT (TCPIPChecksum_Checksum 0 h)))"

definition TCPIPIpChecksum_Set :: "bytes \<Rightarrow> fault + bytes" where
  "TCPIPIpChecksum_Set ip =
     (let ip = TCPIPIpFrame_SetChecksum ip 0
      in bind_res (TCPIPIpChecksum_Compute ip) (\<lambda>c. Inr (TCPIPIpFrame_SetChecksum ip c)))"

definition TCPIPIpChecksum_IsValid :: "bytes \<Rightarrow> fault + bool" where
  "TCPIPIpChecksum_IsValid ip = bind_res (TCPIPIpChecksum_Compute ip) (\<lambda>c. Inr (c = 0))"

definition TCPIPIcmpChecksum_Compute :: "bytes \<Rightarrow> u32 \<Rightarrow> fault + u16" where
  "TCPIPIcmpChecksum_Compute icmp sz =
     bind_res (mem_read icmp 0 (unat sz)) (\<lambda>h. Inr (NOT (TCPIPChecksum_Checksum 0 h)))"

definition TCPIPIcmpFrame_Checksum :: "bytes \<Rightarrow> u32 \<Rightarrow> fault + u16" where
  "TCPIPIcmpFrame_Checksum icmp sz =
     bind_res (mem_read icmp 0 (unat sz)) (\<lambda>h. Inr (NOT (TCPIPChecksum_Checksum 0 h)))"

definition TCPIPIcmpChecksum_Set :: "bytes \<Rightarrow> u32 \<Rightarrow> fault + bytes" where
  "TCPIPIcmpChecksum_Set icmp sz =
     (let icmp = TCPIPIcmpFrame_SetChecksum icmp 0
      in bind_res (TCPIPIcmpChecksum_Compute icmp sz) (\<lambda>c. Inr (TCPIPIcmpFrame_SetChecksum icmp c)))"

definition TCPIPIcmpChecksum_IsValid :: "bytes \<Rightarrow> u32 \<Rightarrow> fault + bool" where
  "TCPIPIcmpChecksum_IsValid icmp sz = bind_res (TCPIPIcmpChecksum_Compute icmp sz) (\<lambda>c. Inr (c = 0))"

text \<open>The length of the transport frame, as the source computes it from the IP header.\<close>

definition ip_pld_len :: "bytes \<Rightarrow> u32" where
  "ip_pld_len ip = ucast (TCPIPIpFrame_GetLength ip) - TCPIPIpFrame_GetHdrLen ip"

definition TCPIPUdpChecksum_Compute :: "bytes \<Rightarrow> bytes \<Rightarrow> fault + u16" where
  "TCPIPUdpChecksum_Compute ip udp =
     (let s = TCPIPChecksum_Checksum 0 (TCPIPIpFrame_GetPseudoHdr ip)
      in bind_res (mem_read udp 0 (unat (ip_pld_len ip)))
           (\<lambda>h. Inr (NOT (TCPIPChecksum_Checksum s h))))"

definition TCPIPUdpChecksum_Set :: "bytes \<Rightarrow> bytes \<Rightarrow> fault + bytes" where
  "TCPIPUdpChecksum_Set ip udp =
     (let udp = TCPIPUdpFrame_SetChecksum udp 0
      in bind_res (TCPIPUdpChecksum_Compute ip udp) (\<lambda>c. Inr (TCPIPUdpFrame_SetChecksum udp c)))"

definition TCPIPUdpChecksum_IsValid :: "bytes \<Rightarrow> bytes \<Rightarrow> fault + bool" where
  "TCPIPUdpChecksum_IsValid ip udp = bind_res (TCPIPUdpChecksum_Compute ip udp) (\<lambda>c. Inr (c = 0))"

definition TCPIPTcpChecksum_Compute :: "bytes \<Rightarrow> bytes \<Rightarrow> fault + u16" where
  "TCPIPTcpChecksum_Compute ip tcp =
     (let s = TCPIPChecksum_Checksum 0 (TCPIPIpFrame_GetPseudoHdr ip)
      in bind_res (mem_read tcp 0 (unat (ip_pld_len ip)))
           (\<lambda>h. Inr (NOT (TCPIPChecksum_Checksum s h))))"

definition TCPIPTcpChecksum_Set :: "bytes \<Rightarrow> bytes \<Rightarrow> fault + bytes" where
  "TCPIPTcpChecksum_Set ip tcp =
     (let tcp = TCPIPTcpFrame_SetChecksum tcp 0
      in bind_res (TCPIPTcpChecksum_Compute ip tcp) (\<lambda>c. Inr (TCPIPTcpFrame_SetChecksum tcp c)))"

definition TCPIPTcpChecksum_IsValid :: "bytes \<Rightarrow> bytes \<Rightarrow> fault + bool" where
  "TCPIPTcpChecksum_IsValid ip tcp = bind_res (TCPIPTcpChecksum_Compute ip tcp) (\<lambda>c. Inr (c = 0))"

section \<open>The sum is a sum modulo \<open>2 ^ 16 - 1\<close>\<close>

lemma oc_add_unat:
  "unat (oc_add s v) = (if unat s + unat v < 65536 then unat s + unat v else unat s + unat v - 65535)"
proof -
  have b: "unat s < 65536" "unat v < 65536" using unsigned_less [of s] unsigned_less [of v] by simp_all
  show ?thesis
  proof (cases "unat s + unat v < 65536")
    case True
    then have "unat (s + v) = unat s + unat v" by (simp add: unat_word_ariths)
    then show ?thesis using True by (simp add: oc_add_def word_less_nat_alt)
  next
    case False
    then have u: "unat (s + v) = unat s + unat v - 65536" using b by (simp add: unat_word_ariths mod_if)
    then have "s + v < v" using b False unfolding word_less_nat_alt by linarith
    moreover have "unat (s + v + 1) = unat s + unat v - 65535"
      using u b False by (simp add: unat_word_ariths(1) [of "s + v" 1])
    ultimately show ?thesis using False by (simp add: oc_add_def)
  qed
qed

lemma oc_add_mod: "unat (oc_add s v) mod 65535 = (unat s + unat v) mod 65535"
  by (simp add: oc_add_unat le_mod_geq [of 65535])

lemma oc_add_0: "oc_add s v = 0 \<longleftrightarrow> s = 0 \<and> v = 0"
proof -
  have b: "unat s < 65536" "unat v < 65536" using unsigned_less [of s] unsigned_less [of v] by simp_all
  show ?thesis unfolding unat_eq_0 [symmetric] oc_add_unat using b by auto
qed

text \<open>The 16 bit words of a frame in network order, the last one padded with a zero byte.\<close>

fun be16s :: "bytes \<Rightarrow> u16 list" where
  "be16s [] = []"
| "be16s [a] = [be_word16 [a, 0]]"
| "be16s (a # b # p) = be_word16 [a, b] # be16s p"

definition word_sum :: "bytes \<Rightarrow> nat" where
  "word_sum bs = sum_list (map unat (be16s bs))"

lemma pad_word: "HTOBE16 (ucast (a :: u8)) = be_word16 [a, 0]"
  by (simp add: word_bits HTOBE16_def bit_simps)

lemma Checksum_fold: "TCPIPChecksum_Checksum s bs = foldl oc_add s (be16s bs)"
  by (induction s bs rule: TCPIPChecksum_Checksum.induct)
    (simp_all add: pad_word HTOBE16_le_word del: be_word16.simps le_word16.simps)

lemma foldl_oc_add:
  "unat (foldl oc_add s ws) mod 65535 = (unat s + sum_list (map unat ws)) mod 65535"
  "foldl oc_add s ws = 0 \<longleftrightarrow> s = 0 \<and> (\<forall>w \<in> set ws. w = 0)"
proof (induction ws arbitrary: s)
  case (Cons w ws)
  { case 1
    have "(unat (oc_add s w) + sum_list (map unat ws)) mod 65535 = (unat s + unat w + sum_list (map unat ws)) mod 65535"
      using oc_add_mod [of s w] by (metis mod_add_cong)
    then show ?case using Cons.IH(1) [of "oc_add s w"] by (simp add: add.assoc) }
  { case 2 show ?case using Cons.IH(2) [of "oc_add s w"] by (auto simp: oc_add_0) }
qed simp_all

lemma unat_not16: "unat (NOT t) = 65535 - unat (t :: u16)"
proof -
  have "NOT t = - 1 - t" by (simp add: not_eq_complement)
  moreover have "unat (- 1 :: u16) = 65535" by (simp add: unsigned_minus_1_eq_mask mask_eq_exp_minus_1)
  ultimately show ?thesis using unat_sub [of t "- 1"] by simp
qed

text \<open>The complement of a sum, added to a frame with that sum, makes the sum all ones.\<close>

lemma oc_complement:
  assumes "sum_list (map unat ws') + unat s' = sum_list (map unat ws) + unat s + unat (NOT (foldl oc_add s ws))"
  shows "NOT (foldl oc_add s' ws') = 0"
proof -
  define t where "t = foldl oc_add s ws"
  define t' where "t' = foldl oc_add s' ws'"
  have nt: "unat (NOT t) = 65535 - unat t"
    by (rule unat_not16)
  have bt: "unat t < 65536" "unat t' < 65536" using unsigned_less [of t] unsigned_less [of t'] by simp_all
  have "unat t' mod 65535 = (sum_list (map unat ws) + unat s + unat (NOT t)) mod 65535"
    using foldl_oc_add(1) [of s' ws'] assms by (simp add: t_def t'_def add.commute)
  also have "\<dots> = (unat t + unat (NOT t)) mod 65535"
  proof -
    have "(sum_list (map unat ws) + unat s) mod 65535 = unat t mod 65535"
      using foldl_oc_add(1) [of s ws] by (simp add: t_def add.commute)
    then show ?thesis by (rule mod_add_cong) (rule refl)
  qed
  finally have z: "unat t' mod 65535 = 0" using nt bt by simp
  have "t' \<noteq> 0"
  proof
    assume "t' = 0"
    then have "s' = 0" "\<forall>w \<in> set ws'. w = 0" using foldl_oc_add(2) [of s' ws'] by (simp_all add: t'_def)
    then have "sum_list (map unat ws') + unat s' = 0" by (auto simp: sum_list_eq_0_iff)
    then have n: "unat (NOT t) = 0" "unat s = 0" "sum_list (map unat ws) = 0"
      using assms by (auto simp: t_def)
    then have "\<forall>w \<in> set ws. w = 0" by (auto simp: sum_list_eq_0_iff unat_eq_0)
    then have "t = 0" using foldl_oc_add(2) [of s ws] n(2) by (simp add: t_def unat_eq_0)
    then show False using nt n by simp
  qed
  then have "unat t' \<noteq> 0" by (simp add: unat_eq_0)
  moreover obtain k where k: "unat t' = 65535 * k" using z by (auto simp: mod_eq_0_iff_dvd dvd_def)
  ultimately have "k = 1" using bt(2) by (cases k) auto
  then have "unat t' = 65535" using k by simp
  moreover have "of_nat (unat t') = t'" by simp
  ultimately have "t' = - 1" by (simp add: word_eq_iff_unsigned)
  then show ?thesis by (simp add: t'_def)
qed


section \<open>Checksum fields\<close>

lemma wr16_Cons: "wr16 (a # b # p) (2 * Suc k) v = a # b # wr16 p (2 * k) v"
  by (simp add: wr16_def)

lemma be16s_wr16:
  assumes "2 * k + 1 < length f"
  shows "be16s (wr16 f (2 * k) (HTOBE16 v)) = (be16s f)[k := v]" and "k < length (be16s f)"
  using assms
proof (induction f arbitrary: k rule: be16s.induct)
  case (3 a b p)
  { case 1
    show ?case
    proof (cases k)
      case 0
      have "be_word16 (le_bytes16 (HTOBE16 v)) = v"
        using be_word16_bytes [of v "[]"] by (simp add: HTOBE16_bytes del: be_word16.simps)
      moreover obtain x y where "le_bytes16 (HTOBE16 v) = [x, y]" by (simp add: le_bytes16_def)
      ultimately show ?thesis using 0 by (simp add: wr16_def del: be_word16.simps)
    next
      case (Suc j)
      then show ?thesis using 3(1) [of j] 1 by (simp add: wr16_Cons [simplified])
    qed }
  { case 2 then show ?case using 3(2) [of "k - 1"] by (cases k) auto }
qed auto

lemma take_wr16: "take n (wr16 f i v) = wr16 (take n f) i v"
  by (simp add: wr16_def take_update_swap)

lemma word_sum_wr16:
  assumes "2 * k + 1 < length f"
  shows "word_sum (wr16 f (2 * k) (HTOBE16 v)) + unat (be16s f ! k) = word_sum f + unat v"
proof -
  have k: "k < length (map unat (be16s f))" using be16s_wr16(2) [OF assms] by simp
  have "be16s f ! k \<in> set (be16s f)" using k by simp
  then have "unat (be16s f ! k) \<le> sum_list (map unat (be16s f))" by (intro member_le_sum_list) auto
  then show ?thesis
    using sum_list_update [OF k, of "unat v"] be16s_wr16(1) [OF assms, of v] k
    by (simp add: word_sum_def map_update)
qed

text \<open>
  The contract of a checksum field: \<open>pos\<close> is the index of its 16 bit word; the checksum of a frame
  sums the first \<open>len c f\<close> bytes on top of \<open>base c\<close>, where \<open>c\<close> is what the layer takes from outside
  the frame (its size or its IP header).
\<close>

locale checksum_field =
  fixes compute :: "'c \<Rightarrow> bytes \<Rightarrow> fault + u16"
    and set_field :: "bytes \<Rightarrow> u16 \<Rightarrow> bytes"
    and base :: "'c \<Rightarrow> u16"
    and len :: "'c \<Rightarrow> bytes \<Rightarrow> nat"
    and pos :: nat
  assumes set_field: "set_field f v = wr16 f (2 * pos) (HTOBE16 v)"
    and compute: "len c f \<le> length f \<Longrightarrow>
      compute c f = Inr (NOT (TCPIPChecksum_Checksum (base c) (take (len c f) f)))"
    and len_set: "2 * pos + 1 < length f \<Longrightarrow> len c (set_field f v) = len c f"
begin

lemma set_length: "length (set_field f v) = length f"
  by (simp add: set_field)

lemma set_then_valid:
  assumes "2 * pos + 1 < len c f" "len c f \<le> length f"
  shows "\<exists>k. compute c (set_field f 0) = Inr k \<and> compute c (set_field (set_field f 0) k) = Inr 0"
proof -
  define n where "n = len c f"
  define f0 where "f0 = set_field f 0"
  define k where "k = NOT (TCPIPChecksum_Checksum (base c) (take n f0))"
  have l0: "length f0 = length f" by (simp add: f0_def set_length)
  have p: "2 * pos + 1 < length f" using assms by simp
  have n0: "len c f0 = n" using len_set [OF p] by (simp add: f0_def n_def)
  have n1: "len c (set_field f0 k) = n" using len_set [of f0 c k] p l0 n0 by simp
  have c0: "compute c f0 = Inr k" using compute [of c f0] n0 l0 assms(2) by (simp add: k_def n_def)
  have pt: "2 * pos + 1 < length (take n f)" using assms by (simp add: n_def)
  have t0: "take n f0 = wr16 (take n f) (2 * pos) (HTOBE16 0)"
    by (simp add: f0_def set_field take_wr16)
  have t1: "take n (set_field f0 k) = wr16 (take n f0) (2 * pos) (HTOBE16 k)"
    by (simp add: set_field take_wr16)
  have z: "be16s (take n f0) ! pos = 0"
    using be16s_wr16(1) [OF pt, of 0] be16s_wr16(2) [OF pt] by (simp add: t0)
  have "word_sum (take n (set_field f0 k)) + unat (be16s (take n f0) ! pos) = word_sum (take n f0) + unat k"
    unfolding t1 by (rule word_sum_wr16) (use pt l0 in simp)
  then have "sum_list (map unat (be16s (take n (set_field f0 k)))) + unat (base c) =
      sum_list (map unat (be16s (take n f0))) + unat (base c) + unat k"
    using z by (simp add: word_sum_def)
  then have "NOT (foldl oc_add (base c) (be16s (take n (set_field f0 k)))) = 0"
    by (intro oc_complement [where s = "base c" and ws = "be16s (take n f0)"])
      (simp add: k_def Checksum_fold)
  then have "compute c (set_field f0 k) = Inr 0"
    using compute [of c "set_field f0 k"] n1 set_length l0 assms(2)
    by (simp add: Checksum_fold n_def)
  then show ?thesis using c0 by (auto simp: f0_def)
qed

text \<open>A frame that differs from a valid one in one word is not valid.\<close>

lemma one_word_detected:
  assumes "compute c f = Inr 0" "len c f \<le> length f" "2 * k + 1 < len c f"
    and "f' = wr16 f (2 * k) (HTOBE16 w)" "len c f' = len c f" "compute c f' = Inr 0"
  shows "w = be16s (take (len c f) f) ! k \<or>
    {w, be16s (take (len c f) f) ! k} = {0, 0xFFFF}"
proof -
  define n where "n = len c f"
  define v where "v = be16s (take n f) ! k"
  have all1: "NOT x = 0 \<Longrightarrow> unat x mod 65535 = 0" for x :: u16
  proof -
    assume "NOT x = 0"
    then have "NOT (NOT x) = NOT 0" by (rule arg_cong)
    then have "x = - 1" by simp
    then show "unat x mod 65535 = 0" by (simp add: unsigned_minus_1_eq_mask mask_eq_exp_minus_1)
  qed
  have m: "(unat (base c) + word_sum (take n g)) mod 65535 = 0"
    if "compute c g = Inr 0" "len c g = n" "n \<le> length g" for g
  proof -
    have "NOT (foldl oc_add (base c) (be16s (take n g))) = 0"
      using compute [of c g] that by (simp add: Checksum_fold)
    from all1 [OF this] show ?thesis by (simp add: foldl_oc_add(1) word_sum_def)
  qed
  have m1: "(unat (base c) + word_sum (take n f)) mod 65535 = 0"
    using m [of f] assms by (simp add: n_def)
  have m2: "(unat (base c) + word_sum (take n f')) mod 65535 = 0"
    using m [of f'] assms by (simp add: n_def)
  have "word_sum (take n f') + unat v = word_sum (take n f) + unat w"
    unfolding assms(4) take_wr16 v_def by (rule word_sum_wr16) (use assms n_def in simp)
  then have "unat (base c) + word_sum (take n f') + unat v = unat (base c) + word_sum (take n f) + unat w"
    by simp
  then have e: "unat v mod 65535 = unat w mod 65535"
    using m1 m2 by (metis add_0 mod_add_left_eq)
  have b: "unat v < 65536" "unat w < 65536" using unsigned_less [of v] unsigned_less [of w] by simp_all
  then consider "unat v = unat w" | "unat v = 0" "unat w = 65535" | "unat v = 65535" "unat w = 0"
    using e by (cases "unat v = 65535"; cases "unat w = 65535") auto
  then show ?thesis
  proof cases
    case 1
    then show ?thesis by (simp add: v_def n_def word_unat_eq_iff)
  next
    case 2
    then have "v = 0" "w = 0xFFFF" by (simp_all add: word_unat_eq_iff)
    then show ?thesis by (auto simp: v_def n_def)
  next
    case 3
    then have "v = 0xFFFF" "w = 0" by (simp_all add: word_unat_eq_iff)
    then show ?thesis by (auto simp: v_def n_def)
  qed
qed

end

definition ip_hdr_bytes :: "unit \<Rightarrow> bytes \<Rightarrow> nat" where
  "ip_hdr_bytes c ip = unat (TCPIPIpFrame_GetHdrLen ip)"

interpretation ip_sum: checksum_field "\<lambda>_. TCPIPIpChecksum_Compute" TCPIPIpFrame_SetChecksum
  "\<lambda>_. 0" ip_hdr_bytes 5
  by unfold_locales (simp_all add: TCPIPIpChecksum_Compute_def ip_hdr_bytes_def mem_read_def frame_defs
      nth_wr16)

interpretation icmp_sum: checksum_field "\<lambda>sz f. TCPIPIcmpChecksum_Compute f sz" TCPIPIcmpFrame_SetChecksum
  "\<lambda>_. 0" "\<lambda>sz _. unat sz" 1
  by unfold_locales (simp_all add: TCPIPIcmpChecksum_Compute_def mem_read_def frame_defs)

interpretation udp_sum: checksum_field TCPIPUdpChecksum_Compute TCPIPUdpFrame_SetChecksum
  "\<lambda>ip. TCPIPChecksum_Checksum 0 (TCPIPIpFrame_GetPseudoHdr ip)" "\<lambda>ip _. unat (ip_pld_len ip)" 3
  by unfold_locales (simp_all add: TCPIPUdpChecksum_Compute_def mem_read_def TCPIPUdpFrame_SetChecksum_def)

interpretation tcp_sum: checksum_field TCPIPTcpChecksum_Compute TCPIPTcpFrame_SetChecksum
  "\<lambda>ip. TCPIPChecksum_Checksum 0 (TCPIPIpFrame_GetPseudoHdr ip)" "\<lambda>ip _. unat (ip_pld_len ip)" 8
  by unfold_locales (simp_all add: TCPIPTcpChecksum_Compute_def mem_read_def TCPIPTcpFrame_SetChecksum_def)

lemma Ip_Set_valid:
  assumes "12 \<le> unat (TCPIPIpFrame_GetHdrLen ip)" "unat (TCPIPIpFrame_GetHdrLen ip) \<le> length ip"
  shows "\<exists>ip'. TCPIPIpChecksum_Set ip = Inr ip' \<and> TCPIPIpChecksum_IsValid ip' = Inr True \<and>
    (\<exists>k. ip' = wr16 ip 10 (HTOBE16 k))"
  using ip_sum.set_then_valid [of "()" ip] assms
  by (auto simp: TCPIPIpChecksum_Set_def TCPIPIpChecksum_IsValid_def ip_hdr_bytes_def bind_res_def
      TCPIPIpFrame_SetChecksum_def wr16_def list_update_swap)

lemma Icmp_Set_valid:
  assumes "4 \<le> unat sz" "unat sz \<le> length icmp"
  shows "\<exists>icmp'. TCPIPIcmpChecksum_Set icmp sz = Inr icmp' \<and>
    TCPIPIcmpChecksum_IsValid icmp' sz = Inr True \<and> (\<exists>k. icmp' = wr16 icmp 2 (HTOBE16 k))"
  using icmp_sum.set_then_valid [of sz icmp] assms
  by (auto simp: TCPIPIcmpChecksum_Set_def TCPIPIcmpChecksum_IsValid_def bind_res_def
      TCPIPIcmpFrame_SetChecksum_def wr16_def list_update_swap numeral_2_eq_2 numeral_3_eq_3)

text \<open>
  C14: the checksum that the stack writes into an outgoing segment makes the segment valid, for
  every segment of at least 18 bytes that its buffer holds.
\<close>

theorem Tcp_checksum_valid:
  assumes "18 \<le> unat (ip_pld_len ip)" "unat (ip_pld_len ip) \<le> length tcp"
  shows "\<exists>tcp'. TCPIPTcpChecksum_Set ip tcp = Inr tcp' \<and> TCPIPTcpChecksum_IsValid ip tcp' = Inr True"
  using tcp_sum.set_then_valid [of ip tcp] assms
  by (auto simp: TCPIPTcpChecksum_Set_def TCPIPTcpChecksum_IsValid_def)

lemma Udp_checksum_valid:
  assumes "8 \<le> unat (ip_pld_len ip)" "unat (ip_pld_len ip) \<le> length udp"
  shows "\<exists>udp'. TCPIPUdpChecksum_Set ip udp = Inr udp' \<and> TCPIPUdpChecksum_IsValid ip udp' = Inr True"
  using udp_sum.set_then_valid [of ip udp] assms
  by (auto simp: TCPIPUdpChecksum_Set_def TCPIPUdpChecksum_IsValid_def)

theorem Tcp_checksum_valid_witness:
  "18 \<le> unat (ip_pld_len ((replicate 40 0)[0 := 0x45, 3 := 40])) \<and>
   (\<exists>tcp'. TCPIPTcpChecksum_Set ((replicate 40 0)[0 := 0x45, 3 := 40]) (replicate 20 1) = Inr tcp' \<and>
     TCPIPTcpChecksum_IsValid ((replicate 40 0)[0 := 0x45, 3 := 40]) tcp' = Inr True)"
proof -
  have l: "unat (ip_pld_len ((replicate 40 0)[0 := 0x45, 3 := 40])) = 20" by code_simp
  show ?thesis using Tcp_checksum_valid [of "(replicate 40 0)[0 := 0x45, 3 := 40]" "replicate 20 1"] l
    by simp
qed

text \<open>
  A change of one 16 bit word of a valid control message is detected, unless it turns a word of
  all zeros into one of all ones or back.
\<close>

theorem Icmp_checksum_detects:
  assumes "TCPIPIcmpChecksum_IsValid icmp sz = Inr True" "2 * k + 1 < unat sz"
    and "w \<noteq> be16s (take (unat sz) icmp) ! k" "{w, be16s (take (unat sz) icmp) ! k} \<noteq> {0, 0xFFFF}"
  shows "TCPIPIcmpChecksum_IsValid (wr16 icmp (2 * k) (HTOBE16 w)) sz = Inr False"
proof -
  have l: "unat sz \<le> length icmp" and v: "TCPIPIcmpChecksum_Compute icmp sz = Inr 0"
    using assms(1)
    by (auto simp: TCPIPIcmpChecksum_IsValid_def TCPIPIcmpChecksum_Compute_def mem_read_def split: if_splits)
  obtain c where c: "TCPIPIcmpChecksum_Compute (wr16 icmp (2 * k) (HTOBE16 w)) sz = Inr c"
    using l by (simp add: TCPIPIcmpChecksum_Compute_def mem_read_def)
  have "c \<noteq> 0" using icmp_sum.one_word_detected [OF v l assms(2) refl refl] c assms(3,4) by blast
  then show ?thesis using c by (simp add: TCPIPIcmpChecksum_IsValid_def)
qed

theorem Icmp_checksum_detects_witness:
  "TCPIPIcmpChecksum_IsValid [0xFF, 0xFF, 0, 0] 4 = Inr True \<and> 2 * 0 + 1 < unat (4 :: u32) \<and>
   7 \<noteq> be16s (take (unat (4 :: u32)) [0xFF, 0xFF, 0, 0]) ! 0 \<and>
   TCPIPIcmpChecksum_IsValid (wr16 [0xFF, 0xFF, 0, 0] (2 * 0) (HTOBE16 7)) 4 = Inr False"
proof -
  have v: "TCPIPIcmpChecksum_IsValid [0xFF, 0xFF, 0, 0] 4 = Inr True" by code_simp
  have b: "be16s (take (unat (4 :: u32)) [0xFF, 0xFF, 0, 0]) ! 0 = 0xFFFF" by code_simp
  show ?thesis using Icmp_checksum_detects [OF v, of 0 7] v b by (auto simp: doubleton_eq_iff)
qed
end
