(* ===== verification/Net_Arp_Table.thy ===== *)
theory Net_Arp_Table
  imports Net_Frame
begin

text \<open>
  The table of hardware addresses, \<^verbatim>\<open>net/tcpip/src/arp_table.c\<close>. The clock does not change during one
  of these operations, which do not yield; \<open>now\<close> is its value. Writing to the table with the index -1
  is a fault.
\<close>

section \<open>State and operations\<close>

record arp_entry =
  ae_ha :: bytes
  ae_pa :: u32
  ae_ts :: u32

definition TCPIP_ARP_TABLE_SIZE :: nat where "TCPIP_ARP_TABLE_SIZE = 5"

definition zero_entry :: arp_entry where
  "zero_entry = \<lparr>ae_ha = [0, 0, 0, 0, 0, 0], ae_pa = 0, ae_ts = 0\<rparr>"

definition TCPIPArpTable_ResetTable :: "arp_entry list \<Rightarrow> err_t \<times> arp_entry list" where
  "TCPIPArpTable_ResetTable tbl = (EOK, map (\<lambda>e. zero_entry) tbl)"

text \<open>One pass over the table: the last entry with the hardware address, and the oldest entry with
  its age; \<open>i\<close> is the index of the head of the list.\<close>

fun update_scan :: "bytes \<Rightarrow> u32 \<Rightarrow> nat \<Rightarrow> arp_entry list \<Rightarrow> int \<times> int \<times> int \<Rightarrow> int \<times> int" where
  "update_scan ha now i [] (oldest_id, ha_id, oldest_dtime) = (oldest_id, ha_id)"
| "update_scan ha now i (e # es) (oldest_id, ha_id, oldest_dtime) =
     (let ha_id = (if TCPIPEthAddr_AddressMatch ha (ae_ha e) then int i else ha_id);
          (oldest_id, oldest_dtime) =
            (if oldest_dtime < dtime now (ae_ts e) then (int i, dtime now (ae_ts e))
             else (oldest_id, oldest_dtime))
      in update_scan ha now (Suc i) es (oldest_id, ha_id, oldest_dtime))"

definition TCPIPArpTable_UpdateTable ::
  "bytes \<Rightarrow> u32 \<Rightarrow> u32 \<Rightarrow> arp_entry list \<Rightarrow> fault + err_t \<times> arp_entry list" where
  "TCPIPArpTable_UpdateTable ha pa now tbl =
     (case update_scan ha now 0 tbl (-1, -1, 0) of (oldest_id, ha_id) \<Rightarrow>
        let i = (if ha_id \<ge> 0 then ha_id else oldest_id) in
        if i < 0 then Inl OutOfBounds
        else Inr (EOK, tbl[nat i := \<lparr>ae_ha = ha, ae_pa = pa, ae_ts = now\<rparr>]))"

fun TCPIPArpTable_GetHWAddr ::
  "u32 \<Rightarrow> u32 \<Rightarrow> arp_entry list \<Rightarrow> err_t \<times> bytes option \<times> arp_entry list" where
  "TCPIPArpTable_GetHWAddr pa now [] = (EUNKADDR, None, [])"
| "TCPIPArpTable_GetHWAddr pa now (e # es) =
     (if TCPIPIpAddr_AddressMatch (ae_pa e) pa then (EOK, Some (ae_ha e), e\<lparr>ae_ts := now\<rparr> # es)
      else let (rc, ha, es') = TCPIPArpTable_GetHWAddr pa now es in (rc, ha, e # es'))"

section \<open>Which entry an update replaces\<close>

text \<open>
  What a scan of the entries before index \<open>i\<close> has found: \<open>h\<close> is the last entry with the address (or
  -1), \<open>k\<close> an entry of the greatest age, which is \<open>d\<close> (or -1 and 0 when none is older than now).
\<close>

definition ha_found :: "bytes \<Rightarrow> arp_entry list \<Rightarrow> nat \<Rightarrow> int \<Rightarrow> bool" where
  "ha_found ha tbl i h \<longleftrightarrow>
     h = -1 \<and> (\<forall>j < i. \<not> TCPIPEthAddr_AddressMatch ha (ae_ha (tbl ! j))) \<or>
     (\<exists>j < i. h = int j \<and> TCPIPEthAddr_AddressMatch ha (ae_ha (tbl ! j)))"

definition oldest_found :: "u32 \<Rightarrow> arp_entry list \<Rightarrow> nat \<Rightarrow> int \<Rightarrow> int \<Rightarrow> bool" where
  "oldest_found now tbl i k d \<longleftrightarrow>
     0 \<le> d \<and> (\<forall>m < i. dtime now (ae_ts (tbl ! m)) \<le> d) \<and>
     (k = -1 \<and> d = 0 \<or> (\<exists>j < i. k = int j \<and> d = dtime now (ae_ts (tbl ! j)) \<and> 0 < d))"

definition scan_ok :: "bytes \<Rightarrow> u32 \<Rightarrow> arp_entry list \<Rightarrow> nat \<Rightarrow> int \<times> int \<times> int \<Rightarrow> bool" where
  "scan_ok ha now tbl i = (\<lambda>(k, h, d). ha_found ha tbl i h \<and> oldest_found now tbl i k d)"

lemma ha_found_step:
  "ha_found ha tbl i h \<Longrightarrow>
   ha_found ha tbl (Suc i) (if TCPIPEthAddr_AddressMatch ha (ae_ha (tbl ! i)) then int i else h)"
  by (auto simp: ha_found_def less_Suc_eq)

lemma oldest_found_step:
  assumes "oldest_found now tbl i k d"
  shows "oldest_found now tbl (Suc i)
    (if d < dtime now (ae_ts (tbl ! i)) then int i else k)
    (if d < dtime now (ae_ts (tbl ! i)) then dtime now (ae_ts (tbl ! i)) else d)"
proof (cases "d < dtime now (ae_ts (tbl ! i))")
  case True
  then show ?thesis using assms by (force simp: oldest_found_def less_Suc_eq)
next
  case False
  then show ?thesis using assms unfolding oldest_found_def less_Suc_eq by auto
qed

lemma scan_ok_step:
  assumes "scan_ok ha now tbl i (k, h, d)"
  shows "scan_ok ha now tbl (Suc i)
    (if d < dtime now (ae_ts (tbl ! i)) then int i else k,
     if TCPIPEthAddr_AddressMatch ha (ae_ha (tbl ! i)) then int i else h,
     if d < dtime now (ae_ts (tbl ! i)) then dtime now (ae_ts (tbl ! i)) else d)"
  using assms ha_found_step oldest_found_step by (simp add: scan_ok_def)

lemma update_scan_ok:
  assumes "scan_ok ha now tbl i (k, h, d)" "update_scan ha now i (drop i tbl) (k, h, d) = (k', h')"
  shows "\<exists>d'. scan_ok ha now tbl (max i (length tbl)) (k', h', d')"
  using assms
proof (induction "length tbl - i" arbitrary: i k h d)
  case 0
  then show ?case by (auto simp: max_def)
next
  case (Suc n)
  then have "i < length tbl" by simp
  then have d: "drop i tbl = tbl ! i # drop (Suc i) tbl" by (simp add: Cons_nth_drop_Suc)
  show ?case
    using Suc.hyps(1) [OF _ scan_ok_step [OF Suc.prems(1)]] Suc.hyps(2) Suc.prems(2) \<open>i < length tbl\<close>
    by (auto simp: d Let_def max_def split: if_splits)
qed

lemma update_scan_spec:
  "update_scan ha now 0 tbl (-1, -1, 0) = (k, h) \<Longrightarrow> \<exists>d. scan_ok ha now tbl (length tbl) (k, h, d)"
  using update_scan_ok [of ha now tbl 0 "-1" "-1" 0 k h] by (auto simp: scan_ok_def ha_found_def oldest_found_def)


section \<open>Correctness\<close>

lemma GetHWAddr_hit:
  assumes "\<exists>e \<in> set tbl. ae_pa e = pa" "\<forall>e \<in> set tbl. ae_pa e = pa \<longrightarrow> ae_ha e = ha"
  shows "\<exists>tbl'. TCPIPArpTable_GetHWAddr pa now tbl = (EOK, Some ha, tbl') \<and> length tbl' = length tbl \<and>
    (\<forall>j < length tbl. ae_ha (tbl' ! j) = ae_ha (tbl ! j) \<and> ae_pa (tbl' ! j) = ae_pa (tbl ! j))"
  using assms
proof (induction tbl)
  case (Cons e es)
  show ?case
  proof (cases "ae_pa e = pa")
    case True
    then show ?thesis using Cons.prems by (auto simp: TCPIPIpAddr_AddressMatch_def nth_Cons split: nat.splits)
  next
    case False
    then obtain es' where es': "TCPIPArpTable_GetHWAddr pa now es = (EOK, Some ha, es')"
        "length es' = length es"
        "\<forall>j < length es. ae_ha (es' ! j) = ae_ha (es ! j) \<and> ae_pa (es' ! j) = ae_pa (es ! j)"
      using Cons by auto
    have "\<forall>j < length (e # es). ae_ha ((e # es') ! j) = ae_ha ((e # es) ! j) \<and>
        ae_pa ((e # es') ! j) = ae_pa ((e # es) ! j)"
      using es'(3) by (auto simp: nth_Cons split: nat.splits)
    then show ?thesis using False es'(1,2)
      by (auto simp: TCPIPIpAddr_AddressMatch_def)
  qed
qed simp

lemma GetHWAddr_miss:
  "\<forall>e \<in> set tbl. ae_pa e \<noteq> pa \<Longrightarrow> TCPIPArpTable_GetHWAddr pa now tbl = (EUNKADDR, None, tbl)"
  by (induction tbl) (auto simp: TCPIPIpAddr_AddressMatch_def)

lemma UpdateTable_cases:
  assumes "length ha = 6" "\<forall>e \<in> set tbl. length (ae_ha e) = 6"
    and "\<exists>e \<in> set tbl. 0 < dtime now (ae_ts e)"
  obtains i where "i < length tbl"
    "TCPIPArpTable_UpdateTable ha pa now tbl = Inr (EOK, tbl[i := \<lparr>ae_ha = ha, ae_pa = pa, ae_ts = now\<rparr>])"
    "ae_ha (tbl ! i) = ha \<or> (\<forall>e \<in> set tbl. ae_ha e \<noteq> ha \<and> dtime now (ae_ts e) \<le> dtime now (ae_ts (tbl ! i)))"
proof -
  obtain k h where s: "update_scan ha now 0 tbl (-1, -1, 0) = (k, h)" by fastforce
  from update_scan_spec [OF this] obtain d
    where hf: "ha_found ha tbl (length tbl) h" and old: "oldest_found now tbl (length tbl) k d"
    by (auto simp: scan_ok_def)
  have eq: "TCPIPEthAddr_AddressMatch ha (ae_ha (tbl ! j)) \<longleftrightarrow> ae_ha (tbl ! j) = ha" if "j < length tbl" for j
    using AddressMatch_eq [of ha "ae_ha (tbl ! j)"] assms(1,2) that by auto
  from hf consider (hit) j where "j < length tbl" "h = int j" "ae_ha (tbl ! j) = ha"
    | (miss) "h = -1" "\<forall>j < length tbl. ae_ha (tbl ! j) \<noteq> ha"
    using eq by (auto simp: ha_found_def)
  then show thesis
  proof cases
    case hit
    show thesis by (rule that [of j]) (use hit s in \<open>auto simp: TCPIPArpTable_UpdateTable_def\<close>)
  next
    case miss
    have "k \<noteq> -1"
      using assms(3) old by (force simp: oldest_found_def in_set_conv_nth)
    then obtain j where j: "j < length tbl" "k = int j" "d = dtime now (ae_ts (tbl ! j))"
      using old by (auto simp: oldest_found_def)
    show thesis
    proof (rule that [OF j(1)])
      show "TCPIPArpTable_UpdateTable ha pa now tbl = Inr (EOK, tbl[j := \<lparr>ae_ha = ha, ae_pa = pa, ae_ts = now\<rparr>])"
        using s j miss by (simp add: TCPIPArpTable_UpdateTable_def)
      show "ae_ha (tbl ! j) = ha \<or>
        (\<forall>e \<in> set tbl. ae_ha e \<noteq> ha \<and> dtime now (ae_ts e) \<le> dtime now (ae_ts (tbl ! j)))"
        using old j miss by (auto simp: oldest_found_def in_set_conv_nth)
    qed
  qed
qed

text \<open>
  C15: an update replaces the entry of the hardware address or, when it has none, an oldest entry, and
  nothing else; when no other entry claims the protocol address, the look-up finds the new hardware
  address.
\<close>

theorem ArpTable_update_lookup:
  assumes "length ha = 6" "\<forall>e \<in> set tbl. length (ae_ha e) = 6"
    and "\<exists>e \<in> set tbl. 0 < dtime now (ae_ts e)"
    and "\<forall>e \<in> set tbl. ae_pa e = pa \<longrightarrow> ae_ha e = ha"
  shows "\<exists>i tbl' tbl''. i < length tbl \<and>
    TCPIPArpTable_UpdateTable ha pa now tbl = Inr (EOK, tbl') \<and>
    tbl' = tbl[i := \<lparr>ae_ha = ha, ae_pa = pa, ae_ts = now\<rparr>] \<and>
    (ae_ha (tbl ! i) = ha \<or>
     (\<forall>e \<in> set tbl. ae_ha e \<noteq> ha \<and> dtime now (ae_ts e) \<le> dtime now (ae_ts (tbl ! i)))) \<and>
    TCPIPArpTable_GetHWAddr pa now' tbl' = (EOK, Some ha, tbl'')"
proof -
  obtain i where i: "i < length tbl"
    "TCPIPArpTable_UpdateTable ha pa now tbl = Inr (EOK, tbl[i := \<lparr>ae_ha = ha, ae_pa = pa, ae_ts = now\<rparr>])"
    "ae_ha (tbl ! i) = ha \<or> (\<forall>e \<in> set tbl. ae_ha e \<noteq> ha \<and> dtime now (ae_ts e) \<le> dtime now (ae_ts (tbl ! i)))"
    using UpdateTable_cases [OF assms(1-3)] by blast
  define tbl' where "tbl' = tbl[i := \<lparr>ae_ha = ha, ae_pa = pa, ae_ts = now\<rparr>]"
  have sub: "set tbl' \<subseteq> insert \<lparr>ae_ha = ha, ae_pa = pa, ae_ts = now\<rparr> (set tbl)"
    unfolding tbl'_def by (rule set_update_subset_insert)
  have "\<lparr>ae_ha = ha, ae_pa = pa, ae_ts = now\<rparr> \<in> set tbl'"
    unfolding tbl'_def by (rule set_update_memI) (rule i(1))
  then have "\<exists>e \<in> set tbl'. ae_pa e = pa" by force
  moreover have "\<forall>e \<in> set tbl'. ae_pa e = pa \<longrightarrow> ae_ha e = ha"
  proof (intro ballI impI)
    fix e assume "e \<in> set tbl'" "ae_pa e = pa"
    then consider "e = \<lparr>ae_ha = ha, ae_pa = pa, ae_ts = now\<rparr>" | "e \<in> set tbl" using sub by blast
    then show "ae_ha e = ha" using \<open>ae_pa e = pa\<close> assms(4) by cases simp_all
  qed
  ultimately obtain tbl'' where "TCPIPArpTable_GetHWAddr pa now' tbl' = (EOK, Some ha, tbl'')"
    using GetHWAddr_hit by blast
  then show ?thesis using i tbl'_def by blast
qed

theorem ArpTable_update_lookup_witness:
  "\<exists>tbl' tbl''. TCPIPArpTable_UpdateTable [1, 2, 3, 4, 5, 6] 77 9 (replicate 5 zero_entry) = Inr (EOK, tbl') \<and>
    TCPIPArpTable_GetHWAddr 77 20 tbl' = (EOK, Some [1, 2, 3, 4, 5, 6], tbl'')"
proof -
  have "\<exists>e \<in> set (replicate 5 zero_entry). 0 < dtime 9 (ae_ts e)"
    by (simp add: zero_entry_def dtime_def)
  then show ?thesis
    using ArpTable_update_lookup [of "[1, 2, 3, 4, 5, 6]" "replicate 5 zero_entry" 9 77 20]
    by (simp add: zero_entry_def) metis
qed

text \<open>
  C16: in the half of the clock's range in which time stamps of zero lie in the future, an update of
  a table that was just reset writes in front of the table.
\<close>

theorem ArpTable_reset_then_update_faults:
  assumes "2 ^ 31 \<le> unat now" "length ha = 6" "ha \<noteq> [0, 0, 0, 0, 0, 0]"
  shows "TCPIPArpTable_UpdateTable ha pa now (snd (TCPIPArpTable_ResetTable tbl)) = Inl OutOfBounds"
proof -
  have neg: "dtime now 0 < 0"
  proof -
    have "\<not> 0 \<le> sint now"
    proof
      assume "0 \<le> sint now"
      then have "uint now = sint now" by (intro uint_nonneg_sint) simp
      then show False using assms(1) sint_lt [of now] by (simp add: nat_le_iff unat_eq_nat_uint)
    qed
    then show ?thesis by (simp add: dtime_def)
  qed
  have nm: "\<not> TCPIPEthAddr_AddressMatch ha [0, 0, 0, 0, 0, 0]"
    using AddressMatch_eq [of ha "[0, 0, 0, 0, 0, 0]"] assms(2,3) by simp
  have "update_scan ha now i (map (\<lambda>e. zero_entry) tbl) (-1, -1, 0) = (-1, -1)" for i
    by (induction tbl arbitrary: i) (use neg nm in \<open>simp_all add: zero_entry_def\<close>)
  then show ?thesis by (simp add: TCPIPArpTable_UpdateTable_def TCPIPArpTable_ResetTable_def)
qed

theorem ArpTable_reset_then_update_faults_witness:
  "(2 :: nat) ^ 31 \<le> unat (0x80000000 :: u32) \<and> length [1, 2, 3, 4, 5, 6 :: u8] = 6 \<and>
   [1, 2, 3, 4, 5, 6] \<noteq> [0, 0, 0, 0, 0, 0 :: u8] \<and>
   TCPIPArpTable_UpdateTable [1, 2, 3, 4, 5, 6] 77 0x80000000
     (snd (TCPIPArpTable_ResetTable (replicate 5 zero_entry))) = Inl OutOfBounds"
  using ArpTable_reset_then_update_faults [of "0x80000000" "[1, 2, 3, 4, 5, 6]" 77 "replicate 5 zero_entry"]
  by simp
end
