(* ===== verification/Sys_Byte_Queue.thy ===== *)
theory Sys_Byte_Queue
  imports Sys_Queue
begin

text \<open>
  Queues whose elements are single bytes, as the sockets use them: the effect of each operation of
  \<^verbatim>\<open>sys/src/queue.c\<close> on the list of the bytes held.
\<close>

section \<open>Queues of single bytes\<close>

definition byte_q :: "queue_t \<Rightarrow> bool" where
  "byte_q q \<longleftrightarrow> q_ok q \<and> sz q = 1"

lemma byte_queue_length: "q_ok q \<Longrightarrow> sz q = 1 \<Longrightarrow> length (q_bytes q) = used q"
  using q_bytes_length [of q] by (simp add: q_ok_def)

lemma byte_q_length: "byte_q q \<Longrightarrow> length (q_bytes q) = used q"
  by (simp add: byte_q_def byte_queue_length)

lemma concat_singletons: "(\<And>x. x \<in> set xs \<Longrightarrow> length x = 1) \<Longrightarrow> concat xs = map hd xs"
proof (induction xs)
  case (Cons x xs)
  then have "length x = 1" by simp
  then obtain y where "x = [y]" by (auto simp: length_Suc_conv)
  then show ?case using Cons by simp
qed simp

lemma byte_q_items:
  assumes "byte_q q"
  shows "q_bytes q = map hd (q_items q)" "concat (take k (q_items q)) = take k (q_bytes q)"
    "concat (drop k (q_items q)) = drop k (q_bytes q)"
proof -
  have one: "\<And>x. x \<in> set (q_items q) \<Longrightarrow> length x = 1"
    using q_items_slots [of q] assms by (auto simp: byte_q_def q_ok_def)
  show "q_bytes q = map hd (q_items q)" using concat_singletons [OF one] by (simp add: q_bytes_def)
  moreover have "concat (take k (q_items q)) = map hd (take k (q_items q))"
    "concat (drop k (q_items q)) = map hd (drop k (q_items q))"
    by (rule concat_singletons; use one in \<open>auto dest: in_set_takeD in_set_dropD\<close>)+
  ultimately show "concat (take k (q_items q)) = take k (q_bytes q)" "concat (drop k (q_items q)) = drop k (q_bytes q)"
    by (simp_all add: take_map drop_map)
qed

lemma byte_q_drop:
  assumes "byte_q q" "unat n \<le> used q"
  shows "byte_q (snd (Queue_Drop q n)) \<and> q_bytes (snd (Queue_Drop q n)) = drop (unat n) (q_bytes q)"
proof -
  have wf: "q_wf q" "q_ok q" using assms(1) by (simp_all add: byte_q_def q_ok_def)
  have n: "c_min n (Queue_GetUsed q) = n"
    using assms(2) by (simp add: word_unat_eq_iff unat_c_min)
  note d = Queue_Drop_spec [OF wf(1), of n, unfolded n, OF q_ok_keeps [OF wf(2)]]
  show ?thesis
    using d assms(1) byte_q_items [OF assms(1)] by (simp add: byte_q_def q_ok_def q_bytes_def)
qed

lemma byte_q_drop_any: "byte_q q \<Longrightarrow> byte_q (snd (Queue_Drop q n))"
  using Queue_Drop_spec [of q n] by (auto simp: byte_q_def q_ok_def keeps_pos_def)

lemma byte_q_peek:
  assumes "byte_q q" "Queue_Peek q n = Inr (r, d)"
  shows "unat r = min (unat n) (used q) \<and> d = take (unat r) (q_bytes q)"
  using Queue_Peek_spec [of q n] byte_q_items [OF assms(1)] assms by (auto simp: byte_q_def q_ok_def)

lemma byte_q_put:
  assumes "byte_q q" "unat n \<le> length src" "Queue_Put q src n = Inr (b, q')"
  shows "byte_q q' \<and> unat b \<le> unat n \<and> q_bytes q' = q_bytes q @ take (unat b) src"
  using Queue_Put_bytes [of q 1 n src] assms by (auto simp: byte_q_def)

lemma byte_q_get:
  assumes "byte_q q" "Queue_Get q n = Inr (b, data, q')"
  shows "byte_q q' \<and> q_bytes q = data @ q_bytes q'"
  using Queue_Get_bytes [of q 1 n] assms by (auto simp: byte_q_def)

end
