(* ===== verification/Net_Udp.thy ===== *)
theory Net_Udp
  imports Net_Frame Sys_Byte_Queue
begin

text \<open>
  The sockets of the user datagram protocol, \<^verbatim>\<open>net/tcpip/src/udp_sock.c\<close>, except for
  \<open>TCPIPUdpSock_SendTo\<close>, which is with the rest of the sending path. A received datagram is a
  \<open>udp_dgram\<close>: the fields of its headers, the size of its payload and the memory from the payload to the
  end of the buffer. The specification of a socket is a mailbox, a list of datagrams.
\<close>

section \<open>Data\<close>

text \<open>\<open>us_mem\<close> are the addresses of the queue and of its buffer in the heap.\<close>

record udp_sock =
  us_loc_port :: u16
  us_rxq :: queue_t
  us_mem :: "addr \<times> addr"
  us_rx_offs :: u32
  us_rx_size :: u32
  us_rx_ip :: u32
  us_rx_port :: u16

record udp_dgram =
  dg_ip :: u32
  dg_src :: u16
  dg_dst :: u16
  dg_size :: u32
  dg_mem :: bytes

definition dgram_of :: "bytes \<Rightarrow> bytes \<Rightarrow> u32 \<Rightarrow> bytes \<Rightarrow> udp_dgram" where
  "dgram_of ip udp bsz pld =
     \<lparr>dg_ip = TCPIPIpFrame_GetSrcAddr ip, dg_src = TCPIPUdpFrame_GetSrcPort udp,
      dg_dst = TCPIPUdpFrame_GetDstPort udp, dg_size = bsz, dg_mem = pld\<rparr>"

section \<open>Incoming datagrams\<close>

definition TCPIPUdpSock_ProcessIncoming :: "udp_dgram \<Rightarrow> udp_sock \<Rightarrow> fault + err_t \<times> udp_sock" where
  "TCPIPUdpSock_ProcessIncoming g s =
     (if us_loc_port s = 0 \<or> us_loc_port s \<noteq> dg_dst g then Inr (EUNREACHABLE, s)
      else let b_to_put = 4 + 4 + 2 + dg_size g in
        if Queue_GetFree (us_rxq s) < b_to_put then Inr (EOK, s)
        else bind_res (Queue_Put (us_rxq s) (le_bytes32 (dg_size g)) 4) (\<lambda>(_, q).
             bind_res (Queue_Put q (le_bytes32 (dg_ip g)) 4) (\<lambda>(_, q).
             bind_res (Queue_Put q (le_bytes16 (dg_src g)) 2) (\<lambda>(_, q).
             bind_res (Queue_Put q (dg_mem g) (dg_size g)) (\<lambda>(_, q).
               Inr (EOK, s\<lparr>us_rxq := q\<rparr>))))))"

fun udp_input_socks :: "udp_dgram \<Rightarrow> err_t \<Rightarrow> udp_sock list \<Rightarrow> fault + err_t \<times> udp_sock list" where
  "udp_input_socks g ec [] = Inr (ec, [])"
| "udp_input_socks g ec (s # ss) =
     bind_res (TCPIPUdpSock_ProcessIncoming g s) (\<lambda>(ec, s').
       if ec = EOK then Inr (EOK, s' # ss)
       else bind_res (udp_input_socks g ec ss) (\<lambda>(ec, ss'). Inr (ec, s' # ss')))"

definition TCPIPUdpSock_Input :: "udp_dgram \<Rightarrow> udp_sock list \<Rightarrow> fault + err_t \<times> udp_sock list" where
  "TCPIPUdpSock_Input g ss = udp_input_socks g EFATAL ss"

section \<open>The interface to the tasks\<close>

fun udp_free_sock :: "udp_sock list \<Rightarrow> nat option" where
  "udp_free_sock [] = None"
| "udp_free_sock (s # ss) = (if us_loc_port s = 0 then Some 0 else map_option Suc (udp_free_sock ss))"

definition TCPIPUdpSock_CreateSocket ::
  "heap_t \<Rightarrow> (nat \<Rightarrow> u8) \<Rightarrow> u16 \<Rightarrow> u32 \<Rightarrow> udp_sock list \<Rightarrow>
   (fault + heap_t \<times> nat option \<times> udp_sock list) option" where
  "TCPIPUdpSock_CreateSocket h junk port rx_size ss =
     (case udp_free_sock ss of
        None \<Rightarrow> Some (Inr (h, None, ss))
      | Some i \<Rightarrow>
          (case Queue_Create h junk 1 rx_size of
             None \<Rightarrow> None
           | Some (Inl e) \<Rightarrow> Some (Inl e)
           | Some (Inr (h', None)) \<Rightarrow> Some (Inl AssertFail)
           | Some (Inr (h', Some (q_addr, ptr, q))) \<Rightarrow>
               Some (Inr (h', Some i,
                 ss[i := (ss ! i)\<lparr>us_rxq := q, us_mem := (q_addr, ptr), us_loc_port := port\<rparr>]))))"

definition TCPIPUdpSock_DestroySocket :: "heap_t \<Rightarrow> udp_sock \<Rightarrow> fault + heap_t \<times> udp_sock" where
  "TCPIPUdpSock_DestroySocket h s =
     bind_res (Queue_Destroy h (fst (us_mem s)) (snd (us_mem s))) (\<lambda>h. Inr (h, s\<lparr>us_loc_port := 0\<rparr>))"

text \<open>A copy of \<open>data\<close> over a variable in memory.\<close>

definition overlay32 :: "u32 \<Rightarrow> bytes \<Rightarrow> u32" where
  "overlay32 old data = le_word32 (data @ drop (length data) (le_bytes32 old))"

definition overlay16 :: "u16 \<Rightarrow> bytes \<Rightarrow> u16" where
  "overlay16 old data = le_word16 (data @ drop (length data) (le_bytes16 old))"

text \<open>
  \<open>TCPIPUdpSock_RecvFrom\<close> returns the code, and the address, the port and the data it wrote. Only the
  queue is shared with other tasks, so \<open>env\<close> acts on the queue (and the clock) as in
  \<open>Queue_GetWait\<close>.
\<close>

definition recv_header ::
  "nat \<Rightarrow> (nat \<Rightarrow> qworld \<Rightarrow> qworld) \<Rightarrow> int \<Rightarrow> u32 \<Rightarrow> bool \<Rightarrow> udp_sock \<Rightarrow> (fault + bool \<times> udp_sock) option" where
  "recv_header fuel env timeout now cancelled s =
     (if us_rx_offs s \<noteq> us_rx_size s then Some (Inr (True, s))
      else case Queue_GetWait fuel env 4 timeout
             \<lparr>qw_now = now, qw_cancelled = cancelled, qw_queue = us_rxq s\<rparr> of
        None \<Rightarrow> None
      | Some (Inl e, _) \<Rightarrow> Some (Inl e)
      | Some (Inr (rd, out), w) \<Rightarrow>
          let s = s\<lparr>us_rx_size := overlay32 (us_rx_size s) out, us_rxq := qw_queue w\<rparr> in
          if rd = 0 then Some (Inr (False, s))
          else Some
            (bind_res (Queue_Get (us_rxq s) 4) (\<lambda>(_, ip, q).
             bind_res (Queue_Get q 2) (\<lambda>(_, port, q).
             Inr (True, s\<lparr>us_rx_ip := overlay32 (us_rx_ip s) ip, us_rx_port := overlay16 (us_rx_port s) port,
                  us_rxq := q, us_rx_offs := 0\<rparr>)))))"

definition TCPIPUdpSock_RecvFrom ::
  "nat \<Rightarrow> (nat \<Rightarrow> qworld \<Rightarrow> qworld) \<Rightarrow> u32 \<Rightarrow> int \<Rightarrow> u32 \<Rightarrow> bool \<Rightarrow> udp_sock \<Rightarrow>
   (fault + (err_t \<times> (u32 \<times> u16 \<times> bytes) option) \<times> udp_sock) option" where
  "TCPIPUdpSock_RecvFrom fuel env bsz timeout now cancelled s =
     (case recv_header fuel env timeout now cancelled s of
        None \<Rightarrow> None
      | Some (Inl e) \<Rightarrow> Some (Inl e)
      | Some (Inr (False, s)) \<Rightarrow> Some (Inr ((ETIMEOUT, None), s))
      | Some (Inr (True, s)) \<Rightarrow> Some
          (bind_res (Queue_Get (us_rxq s) (c_min bsz (us_rx_size s))) (\<lambda>(n, data, q).
             Inr ((int (unat n), Some (us_rx_ip s, us_rx_port s, data)),
                  s\<lparr>us_rxq := q, us_rx_offs := us_rx_offs s + n\<rparr>))))"

section \<open>The mailbox\<close>

type_synonym mail = "u32 \<times> u16 \<times> bytes"

fun enc_mail :: "mail \<Rightarrow> bytes" where
  "enc_mail (ip, port, data) = le_bytes32 (of_nat (length data)) @ le_bytes32 ip @ le_bytes16 port @ data"

definition mailbox :: "udp_sock \<Rightarrow> mail list \<Rightarrow> bool" where
  "mailbox s ms \<longleftrightarrow> byte_q (us_rxq s) \<and> q_bytes (us_rxq s) = concat (map enc_mail ms) \<and>
     us_rx_offs s = us_rx_size s \<and> (\<forall>m \<in> set ms. length (snd (snd m)) < 2 ^ 32)"

lemma byte_q_put_all:
  assumes "byte_q q" "unat n = length src" "length src \<le> unat (Queue_GetFree q)"
  shows "\<exists>q'. Queue_Put q src n = Inr (n, q') \<and> byte_q q' \<and> q_bytes q' = q_bytes q @ src \<and>
    unat (Queue_GetFree q') = unat (Queue_GetFree q) - length src"
proof -
  obtain w q' where p: "Queue_Put q src n = Inr (w, q')" "q_ok q' \<and> sz q' = 1"
      "unat w = min (unat n) (unat (Queue_GetFree q))" "q_bytes q' = q_bytes q @ take (unat w * 1) src"
    using Queue_Put_bytes [of q 1 n src] assms by (auto simp: byte_q_def)
  have "w = n" using p(3) assms by (simp add: word_unat_eq_iff)
  have c: "q_count q' = q_count q"
    using p(1) by (auto simp: Queue_Put_def Let_def bind_res_eq_Inr split: if_splits)
  have "used q' = used q + length src"
    using byte_q_length [of q'] byte_q_length [OF assms(1)] p \<open>w = n\<close> assms by (simp add: byte_q_def)
  then have "unat (Queue_GetFree q') = unat (Queue_GetFree q) - length src"
    using unat_GetFree [of q] unat_GetFree [of q'] c assms(1) p(2) by (simp add: byte_q_def q_ok_def)
  then show ?thesis using p \<open>w = n\<close> assms by (simp add: byte_q_def)
qed

text \<open>
  A datagram for the socket is put at the end of its mailbox, whole, with its sender, if there is
  room for it; otherwise the socket is unchanged, and the datagram is lost.
\<close>

lemma Udp_stores_datagram:
  assumes "mailbox s ms" "us_loc_port s \<noteq> 0" "us_loc_port s = dg_dst g"
    and "unat (dg_size g) = length data" "dg_mem g = data @ rest" "length data + 10 < 2 ^ 32"
  shows "\<exists>s'. TCPIPUdpSock_ProcessIncoming g s = Inr (EOK, s') \<and>
    (if length data + 10 \<le> unat (Queue_GetFree (us_rxq s))
     then mailbox s' (ms @ [(dg_ip g, dg_src g, data)]) else s' = s)"
proof -
  have b: "unat (4 + 4 + 2 + dg_size g) = length data + 10"
    using assms(4,6) unat_u32_add [of 10 "dg_size g"] by simp
  show ?thesis
  proof (cases "length data + 10 \<le> unat (Queue_GetFree (us_rxq s))")
    case False
    then have "Queue_GetFree (us_rxq s) < 4 + 4 + 2 + dg_size g" using b by (simp add: word_less_nat_alt)
    then show ?thesis using False assms(2,3) by (simp add: TCPIPUdpSock_ProcessIncoming_def)
  next
    case True
    then have room: "\<not> Queue_GetFree (us_rxq s) < 4 + 4 + 2 + dg_size g" using b by (simp add: word_less_nat_alt)
    have q0: "byte_q (us_rxq s)" using assms(1) by (simp add: mailbox_def)
    obtain q1 where q1: "Queue_Put (us_rxq s) (le_bytes32 (dg_size g)) 4 = Inr (4, q1)" "byte_q q1"
      "q_bytes q1 = q_bytes (us_rxq s) @ le_bytes32 (dg_size g)"
      "unat (Queue_GetFree q1) = unat (Queue_GetFree (us_rxq s)) - 4"
      using byte_q_put_all [OF q0, of 4 "le_bytes32 (dg_size g)"] True by auto
    obtain q2 where q2: "Queue_Put q1 (le_bytes32 (dg_ip g)) 4 = Inr (4, q2)" "byte_q q2"
      "q_bytes q2 = q_bytes q1 @ le_bytes32 (dg_ip g)" "unat (Queue_GetFree q2) = unat (Queue_GetFree q1) - 4"
    proof -
      have "4 \<le> unat (Queue_GetFree q1)" using True q1(4) by linarith
      then show thesis using that byte_q_put_all [OF q1(2), of 4 "le_bytes32 (dg_ip g)"] by auto
    qed
    obtain q3 where q3: "Queue_Put q2 (le_bytes16 (dg_src g)) 2 = Inr (2, q3)" "byte_q q3"
      "q_bytes q3 = q_bytes q2 @ le_bytes16 (dg_src g)" "unat (Queue_GetFree q3) = unat (Queue_GetFree q2) - 2"
    proof -
      have "2 \<le> unat (Queue_GetFree q2)" using True q1(4) q2(4) by linarith
      then show thesis using that byte_q_put_all [OF q2(2), of 2 "le_bytes16 (dg_src g)"] by auto
    qed
    obtain w q4 where q4: "Queue_Put q3 (data @ rest) (dg_size g) = Inr (w, q4)" "byte_q q4"
      "unat w = min (unat (dg_size g)) (unat (Queue_GetFree q3))" "q_bytes q4 = q_bytes q3 @ take (unat w) (data @ rest)"
      using Queue_Put_bytes [of q3 1 "dg_size g" "data @ rest"] q3(2) assms(4) by (auto simp: byte_q_def)
    have w: "unat w = length data" using q4(3) q3(4) q2(4) q1(4) True assms(4) by simp
    have sz: "of_nat (length data) = dg_size g" using assms(4) by (metis of_nat_unat ucast_id)
    have "TCPIPUdpSock_ProcessIncoming g s = Inr (EOK, s\<lparr>us_rxq := q4\<rparr>)"
      using assms(2,3) room q1(1) q2(1) q3(1) q4(1) assms(5) by (simp add: TCPIPUdpSock_ProcessIncoming_def Let_def)
    moreover have "mailbox (s\<lparr>us_rxq := q4\<rparr>) (ms @ [(dg_ip g, dg_src g, data)])"
      using assms(1,6) q1(3) q2(3) q3(3) q4(2,4) w sz by (simp add: mailbox_def)
    ultimately show ?thesis using True by simp
  qed
qed


lemma byte_q_get_prefix:
  assumes "byte_q q" "q_bytes q = xs @ ys" "unat n = length xs"
  shows "\<exists>q'. Queue_Get q n = Inr (n, xs, q') \<and> byte_q q' \<and> q_bytes q' = ys"
proof -
  obtain r d q' where g: "Queue_Get q n = Inr (r, d, q')" "q_ok q' \<and> sz q' = 1"
      "unat r = min (unat n) (used q)" "length d = unat r * 1" "q_bytes q = d @ q_bytes q'"
    using Queue_Get_bytes [of q 1 n] assms(1) by (auto simp: byte_q_def)
  have "unat r = unat n" using g(3) byte_q_length [OF assms(1)] assms(2,3) by simp
  then have "r = n" "length d = length xs" using g(4) assms(3) by (simp_all add: word_unat_eq_iff)
  moreover from this have "d = xs" "q_bytes q' = ys" using g(5) assms(2) by (metis append_eq_append_conv)+
  ultimately show ?thesis using g(1,2) by (simp add: byte_q_def)
qed

lemma overlay_all [simp]: "overlay32 old (le_bytes32 v) = v" "overlay16 old' (le_bytes16 u) = u"
  using le_word32_bytes [of v "[]"] le_word16_bytes [of u "[]"]
  by (simp_all add: overlay32_def overlay16_def del: le_word32.simps le_word16.simps le_word32_bytes le_word16_bytes)

text \<open>
  C22: with a datagram in the mailbox, a receive call with a large enough buffer does not wait: it
  returns the first datagram, with its sender, and leaves the others.
\<close>

theorem Udp_delivers_datagram:
  assumes "mailbox s ((ip, port, data) # ms)" "length data \<le> unat bsz"
  shows "\<exists>s'. TCPIPUdpSock_RecvFrom 0 env bsz timeout now cancelled s =
      Some (Inr ((int (length data), Some (ip, port, data)), s')) \<and> mailbox s' ms \<and> us_loc_port s' = us_loc_port s"
proof -
  let ?n = "of_nat (length data) :: u32"
  have m: "byte_q (us_rxq s)" "q_bytes (us_rxq s) = le_bytes32 ?n @ le_bytes32 ip @ le_bytes16 port @ data @ concat (map enc_mail ms)"
    "us_rx_offs s = us_rx_size s" "\<forall>m \<in> set ms. length (snd (snd m)) < 2 ^ 32" "length data < 2 ^ 32"
    using assms(1) by (simp_all add: mailbox_def)
  have n: "unat ?n = length data" using m(5) by (simp add: unat_of_nat)
  have u: "uint ?n = int (length data)" using arg_cong [OF n, of int] by simp
  obtain q1 where q1: "Queue_Get (us_rxq s) 4 = Inr (4, le_bytes32 ?n, q1)" "byte_q q1"
    "q_bytes q1 = le_bytes32 ip @ le_bytes16 port @ data @ concat (map enc_mail ms)"
    using byte_q_get_prefix [OF m(1,2), of 4] by auto
  obtain q2 where q2: "Queue_Get q1 4 = Inr (4, le_bytes32 ip, q2)" "byte_q q2"
    "q_bytes q2 = le_bytes16 port @ data @ concat (map enc_mail ms)"
    using byte_q_get_prefix [OF q1(2,3), of 4] by auto
  obtain q3 where q3: "Queue_Get q2 2 = Inr (2, le_bytes16 port, q3)" "byte_q q3" "q_bytes q3 = data @ concat (map enc_mail ms)"
    using byte_q_get_prefix [OF q2(2,3), of 2] by auto
  obtain q4 where q4: "Queue_Get q3 ?n = Inr (?n, data, q4)" "byte_q q4" "q_bytes q4 = concat (map enc_mail ms)"
    using byte_q_get_prefix [OF q3(2,3) n] by auto
  let ?s = "s\<lparr>us_rx_size := ?n, us_rxq := q3, us_rx_ip := ip, us_rx_port := port, us_rx_offs := 0\<rparr>"
  have "recv_header 0 env timeout now cancelled s = Some (Inr (True, ?s))"
    using m(3) q1(1) q2(1) q3(1) by (simp add: recv_header_def Queue_GetWait_def Queue_GetWait_body_def Let_def)
  moreover have "c_min bsz ?n = ?n" using assms(2) n by (simp add: word_unat_eq_iff unat_c_min)
  ultimately have "TCPIPUdpSock_RecvFrom 0 env bsz timeout now cancelled s =
      Some (Inr ((int (length data), Some (ip, port, data)), ?s\<lparr>us_rxq := q4, us_rx_offs := ?n\<rparr>))"
    using q4(1) u by (simp add: TCPIPUdpSock_RecvFrom_def)
  moreover have "mailbox (?s\<lparr>us_rxq := q4, us_rx_offs := ?n\<rparr>) ms"
    using q4 m(4) by (simp add: mailbox_def)
  ultimately show ?thesis by fastforce
qed

section \<open>Examples\<close>

definition demo_usock :: "u32 \<Rightarrow> bytes \<Rightarrow> udp_sock" where
  "demo_usock h buf =
     \<lparr>us_loc_port = 53, us_rxq = \<lparr>q_size = 1, q_count = 16, q_ptr = buf, q_head = h, q_tail = 0\<rparr>, us_mem = (16, 48),
      us_rx_offs = 0, us_rx_size = 0, us_rx_ip = 0, us_rx_port = 0\<rparr>"

lemma demo_mailbox:
  "mailbox (demo_usock 0 (replicate 16 0)) []"
  "mailbox (demo_usock 12 [2, 0, 0, 0, 7, 0, 0, 0, 9, 0, 5, 6, 0, 0, 0, 0]) [(7, 9, [5, 6])]"
  by (auto simp: mailbox_def demo_usock_def byte_q_def q_ok_def q_wf_def Queue_GetUsed_def q_bytes_def q_items_def
      slot_def upt_rec le_bytes32_def le_bytes16_def)

lemma Udp_stores_datagram_example:
  "\<exists>s'. TCPIPUdpSock_ProcessIncoming \<lparr>dg_ip = 7, dg_src = 9, dg_dst = 53, dg_size = 2, dg_mem = [5, 6] @ [1]\<rparr>
      (demo_usock 0 (replicate 16 0)) = Inr (EOK, s') \<and> mailbox s' [(7, 9, [5, 6])]"
  using Udp_stores_datagram [OF demo_mailbox(1), of
      "\<lparr>dg_ip = 7, dg_src = 9, dg_dst = 53, dg_size = 2, dg_mem = [5, 6] @ [1]\<rparr>" "[5, 6]" "[1]"]
  by (simp add: demo_usock_def Queue_GetFree_def Queue_GetUsed_def)

theorem Udp_delivers_datagram_witness:
  "\<exists>s'. TCPIPUdpSock_RecvFrom 0 (\<lambda>_ w. w) 4 10 0 False
      (demo_usock 12 [2, 0, 0, 0, 7, 0, 0, 0, 9, 0, 5, 6, 0, 0, 0, 0]) =
      Some (Inr ((int (length [5 :: u8, 6]), Some (7, 9, [5, 6])), s')) \<and> mailbox s' []"
  using Udp_delivers_datagram [OF demo_mailbox(2), of 4 "\<lambda>_ w. w" 10 0 False] by auto

section \<open>What goes wrong\<close>

text \<open>
  A buffer that is smaller than a datagram: the next call reads up to \<open>rx_size\<close> bytes and not what is
  left of the datagram, so it returns the rest together with the header of the next one.
\<close>

lemma Udp_short_read_runs_on:
  assumes "us_rx_offs s \<noteq> us_rx_size s" "us_rx_size s \<le> bsz"
    and "byte_q (us_rxq s)" "q_bytes (us_rxq s) = xs @ ys" "length xs = unat (us_rx_size s)"
  shows "\<exists>s'. TCPIPUdpSock_RecvFrom 0 env bsz timeout now cancelled s =
    Some (Inr ((int (unat (us_rx_size s)), Some (us_rx_ip s, us_rx_port s, xs)), s'))"
proof -
  have "c_min bsz (us_rx_size s) = us_rx_size s" using assms(2) by (auto simp: c_min_def)
  then show ?thesis
    using byte_q_get_prefix [OF assms(3,4), of "us_rx_size s"] assms(1,5)
    by (auto simp: TCPIPUdpSock_RecvFrom_def recv_header_def)
qed

text \<open>
  A length field below eight makes the size wrap around and the test for room wrap with it: with ten
  bytes free, a datagram that claims to have \<open>2 ^ 32 - 4\<close> bytes is accepted, and its header announces
  bytes that are not there.
\<close>

lemma Udp_length_underflow:
  assumes "dg_size g = - 4" "unat (Queue_GetFree (us_rxq s)) = 10" "us_loc_port s \<noteq> 0" "us_loc_port s = dg_dst g"
    and "byte_q (us_rxq s)"
  shows "\<exists>s'. TCPIPUdpSock_ProcessIncoming g s = Inr (EOK, s') \<and>
    q_bytes (us_rxq s') = q_bytes (us_rxq s) @ le_bytes32 (- 4) @ le_bytes32 (dg_ip g) @ le_bytes16 (dg_src g)"
proof -
  have cut: "Queue_Put q src n = Queue_Put q src (c_min n (Queue_GetFree q))" for q src n
    by (simp add: Queue_Put_def c_min_def)
  have room: "\<not> Queue_GetFree (us_rxq s) < 4 + 4 + 2 + dg_size g"
    using assms(1,2) by (simp add: word_less_nat_alt)
  obtain q1 where q1: "Queue_Put (us_rxq s) (le_bytes32 (dg_size g)) 4 = Inr (4, q1)" "byte_q q1"
    "q_bytes q1 = q_bytes (us_rxq s) @ le_bytes32 (- 4)" "unat (Queue_GetFree q1) = 6"
    using byte_q_put_all [OF assms(5), of 4 "le_bytes32 (dg_size g)"] assms(1,2) by auto
  obtain q2 where q2: "Queue_Put q1 (le_bytes32 (dg_ip g)) 4 = Inr (4, q2)" "byte_q q2"
    "q_bytes q2 = q_bytes q1 @ le_bytes32 (dg_ip g)" "unat (Queue_GetFree q2) = 2"
    using byte_q_put_all [OF q1(2), of 4 "le_bytes32 (dg_ip g)"] q1(4) by auto
  obtain q3 where q3: "Queue_Put q2 (le_bytes16 (dg_src g)) 2 = Inr (2, q3)" "byte_q q3"
    "q_bytes q3 = q_bytes q2 @ le_bytes16 (dg_src g)" "unat (Queue_GetFree q3) = 0"
    using byte_q_put_all [OF q2(2), of 2 "le_bytes16 (dg_src g)"] q2(4) by auto
  have "Queue_GetFree q3 = 0" using q3(4) by (simp add: unat_eq_0)
  then have "Queue_Put q3 (dg_mem g) (dg_size g) = Queue_Put q3 (dg_mem g) 0"
    using cut [of q3 "dg_mem g" "dg_size g"] by (simp add: c_min_def)
  then obtain q4 where q4: "Queue_Put q3 (dg_mem g) (dg_size g) = Inr (0, q4)" "q_bytes q4 = q_bytes q3"
    using Queue_Put_bytes [of q3 1 0 "dg_mem g"] q3(2) by (auto simp: byte_q_def unat_eq_0)
  show ?thesis
    using assms(3,4) room q1(1,3) q2(1,3) q3(1,3) q4 by (simp add: TCPIPUdpSock_ProcessIncoming_def Let_def)
qed

end
