(* ===== verification/Net_Tcp.thy ===== *)
theory Net_Tcp
  imports Net_Frame Sys_Byte_Queue
begin

text \<open>
  The sockets of the transmission control protocol, \<^verbatim>\<open>net/tcpip/src/tcp_sock.c\<close>.

  A received frame is a \<open>tcp_seg\<close>: the header fields that the accessors return, the size of the
  payload and the memory from the payload to the end of the buffer. Sending a frame yields twice
  (while a buffer is allocated and while the address is resolved); \<open>TCPIPTcpSock_ProcessOutgoing\<close>
  takes what the other tasks do to the socket there as functions, and the results of the two calls.
  The payload is copied behind the three headers (54 bytes) of a transmission buffer of
  \<open>TCPIP_RXTX_BUF_SIZE\<close> bytes; leaving the buffer is a fault. The blocking calls are instances of
  \<open>yield_loop\<close> over the clock and the socket.
\<close>

section \<open>Data\<close>

datatype tcp_sock_state =
    TCPIP_TCP_SOCK_STATE_FREE
  | TCPIP_TCP_SOCK_STATE_CLOSED
  | TCPIP_TCP_SOCK_STATE_LISTEN
  | TCPIP_TCP_SOCK_STATE_CONNECT
  | TCPIP_TCP_SOCK_STATE_ESTABLISHING
  | TCPIP_TCP_SOCK_STATE_ESTABLISHED
  | TCPIP_TCP_SOCK_STATE_CLOSING

datatype tcp_link_state =
    TCPIP_TCP_LINK_STATE_CLOSED
  | TCPIP_TCP_LINK_STATE_OPEN
  | TCPIP_TCP_LINK_STATE_CLOSING

record tcp_sock =
  state :: tcp_sock_state
  loc_link :: tcp_link_state
  rem_link :: tcp_link_state
  loc_port :: u16
  rem_port :: u16
  sock_addr :: u32
  rxq :: queue_t
  txq :: queue_t
  rx_seq_init :: u32
  rx_seq_recvd :: u32
  rx_seq_acked :: u32
  rx_flags :: u32
  rx_win :: u32
  tx_seq_init :: u32
  tx_seq_start :: u32
  tx_seq_end :: u32
  tx_win :: u32
  tx_flags :: u32
  tx_retr_ts :: u32
  tx_retr_cnt :: u32
  syn_fin_ts :: u32

record tcp_seg =
  seg_ip :: u32
  seg_src_port :: u16
  seg_dst_port :: u16
  seg_seq :: u32
  seg_ack :: u32
  seg_win :: u32
  seg_flags :: u32
  seg_size :: u32
  seg_mem :: bytes

text \<open>The segment in a received frame: its IP header, its TCP header and its payload.\<close>

definition seg_of :: "bytes \<Rightarrow> bytes \<Rightarrow> u32 \<Rightarrow> bytes \<Rightarrow> tcp_seg" where
  "seg_of ip tcp bsz pld =
     \<lparr>seg_ip = TCPIPIpFrame_GetSrcAddr ip, seg_src_port = TCPIPTcpFrame_GetSrcPort tcp,
      seg_dst_port = TCPIPTcpFrame_GetDstPort tcp, seg_seq = TCPIPTcpFrame_GetSeq tcp,
      seg_ack = TCPIPTcpFrame_GetAck tcp, seg_win = TCPIPTcpFrame_GetWindow tcp,
      seg_flags = TCPIPTcpFrame_GetFlags tcp, seg_size = bsz, seg_mem = pld\<rparr>"

abbreviation has :: "u32 \<Rightarrow> u32 \<Rightarrow> bool" where "has flags f \<equiv> flags AND f \<noteq> 0"

section \<open>Incoming segments\<close>

text \<open>Is the segment addressed to the socket?\<close>

definition seg_matches :: "tcp_seg \<Rightarrow> tcp_sock \<Rightarrow> bool" where
  "seg_matches g s \<longleftrightarrow>
     \<not> (state s = TCPIP_TCP_SOCK_STATE_FREE \<or> state s = TCPIP_TCP_SOCK_STATE_CLOSED) \<and>
     loc_port s = seg_dst_port g \<and>
     \<not> (state s \<noteq> TCPIP_TCP_SOCK_STATE_LISTEN \<and>
        (rem_port s \<noteq> seg_src_port g \<or> \<not> TCPIPIpAddr_AddressMatch (seg_ip g) (sock_addr s)))"

text \<open>The parts of \<open>TCPIPTcpSock_ProcessIncoming\<close>, by flag; \<open>Inl\<close> is the jump to \<open>error\<close> with the
  socket as it is then.\<close>

definition in_rst :: "tcp_seg \<Rightarrow> tcp_sock \<Rightarrow> tcp_sock" where
  "in_rst g s = (if has (seg_flags g) TCPIP_TCP_FLAGS_RST
     then s\<lparr>state := TCPIP_TCP_SOCK_STATE_CLOSED\<rparr> else s)"

definition in_syn :: "u32 \<Rightarrow> u32 \<Rightarrow> tcp_seg \<Rightarrow> tcp_sock \<Rightarrow> tcp_sock + tcp_sock" where
  "in_syn now rnd g s =
     (if has (seg_flags g) TCPIP_TCP_FLAGS_SYN then
        if state s \<noteq> TCPIP_TCP_SOCK_STATE_LISTEN \<and>
           (state s \<noteq> TCPIP_TCP_SOCK_STATE_CONNECT \<or> \<not> has (seg_flags g) TCPIP_TCP_FLAGS_ACK)
        then Inl s
        else
          let s = s\<lparr>sock_addr := seg_ip g, rem_port := seg_src_port g, rx_seq_recvd := seg_seq g + 1,
                    rx_seq_acked := seg_seq g, rx_win := Queue_GetFree (rxq s), tx_seq_start := rnd,
                    tx_win := seg_win g, tx_retr_cnt := 0, tx_retr_ts := 0\<rparr>;
              s = (if state s = TCPIP_TCP_SOCK_STATE_LISTEN
                   then s\<lparr>state := TCPIP_TCP_SOCK_STATE_ESTABLISHING\<rparr>
                   else s\<lparr>state := TCPIP_TCP_SOCK_STATE_ESTABLISHED,
                          loc_link := TCPIP_TCP_LINK_STATE_OPEN, rem_link := TCPIP_TCP_LINK_STATE_OPEN\<rparr>)
          in Inr (s\<lparr>syn_fin_ts := now\<rparr>)
      else Inr s)"

definition in_data :: "tcp_seg \<Rightarrow> tcp_sock \<Rightarrow> fault + tcp_sock" where
  "in_data g s =
     (if seg_seq g = rx_seq_recvd s then
        let s = (if has (seg_flags g) (TCPIP_TCP_FLAGS_FIN OR TCPIP_TCP_FLAGS_SYN)
                 then s\<lparr>rx_seq_recvd := rx_seq_recvd s + 1\<rparr> else s)
        in bind_res (Queue_Put (rxq s) (seg_mem g) (seg_size g)) (\<lambda>(b_stored, q).
             Inr (s\<lparr>rxq := q, rx_seq_recvd := rx_seq_recvd s + b_stored\<rparr>))
      else Inr (s\<lparr>rx_seq_acked := seg_seq g\<rparr>))"

definition in_acked :: "tcp_seg \<Rightarrow> tcp_sock \<Rightarrow> tcp_sock" where
  "in_acked g s =
     (let b_acked = seg_ack g - tx_seq_start s;
          s = s\<lparr>txq := snd (Queue_Drop (txq s) b_acked), tx_seq_start := tx_seq_start s + b_acked\<rparr>
      in if tx_seq_start s = tx_seq_end s then s\<lparr>tx_retr_cnt := 0\<rparr> else s)"

definition in_ack :: "tcp_seg \<Rightarrow> tcp_sock \<Rightarrow> fault + (tcp_sock + tcp_sock)" where
  "in_ack g s =
     (if has (seg_flags g) TCPIP_TCP_FLAGS_ACK then
        if state s = TCPIP_TCP_SOCK_STATE_CLOSED \<or> state s = TCPIP_TCP_SOCK_STATE_LISTEN then Inr (Inl s)
        else if seg_ack g - tx_seq_start s > tx_seq_end s - tx_seq_start s then Inr (Inl s)
        else
          let s = (if state s = TCPIP_TCP_SOCK_STATE_ESTABLISHING \<and>
                      tx_flags s = TCPIP_TCP_FLAGS_SYN OR TCPIP_TCP_FLAGS_ACK
                   then s\<lparr>state := TCPIP_TCP_SOCK_STATE_ESTABLISHED,
                          loc_link := TCPIP_TCP_LINK_STATE_OPEN, rem_link := TCPIP_TCP_LINK_STATE_OPEN\<rparr>
                   else s);
              s = (if loc_link s = TCPIP_TCP_LINK_STATE_CLOSING
                   then (if rem_link s = TCPIP_TCP_LINK_STATE_CLOSED
                         then s\<lparr>loc_link := TCPIP_TCP_LINK_STATE_CLOSED, state := TCPIP_TCP_SOCK_STATE_CLOSED\<rparr>
                         else s\<lparr>loc_link := TCPIP_TCP_LINK_STATE_CLOSED\<rparr>)
                   else s)
          in bind_res (in_data g s) (\<lambda>s. Inr (Inr (in_acked g s)))
      else Inr (Inr s))"

definition in_fin :: "u32 \<Rightarrow> tcp_seg \<Rightarrow> tcp_sock \<Rightarrow> tcp_sock" where
  "in_fin now g s =
     (if has (seg_flags g) TCPIP_TCP_FLAGS_FIN then
        let s = s\<lparr>state := TCPIP_TCP_SOCK_STATE_CLOSING, rem_link := TCPIP_TCP_LINK_STATE_CLOSING\<rparr>;
            s = (if loc_link s = TCPIP_TCP_LINK_STATE_OPEN
                 then s\<lparr>loc_link := TCPIP_TCP_LINK_STATE_CLOSING\<rparr> else s)
        in s\<lparr>syn_fin_ts := now\<rparr>
      else s)"

definition TCPIPTcpSock_ProcessIncoming ::
  "u32 \<Rightarrow> u32 \<Rightarrow> tcp_seg \<Rightarrow> tcp_sock \<Rightarrow> fault + err_t \<times> tcp_sock" where
  "TCPIPTcpSock_ProcessIncoming now rnd g s =
     (if \<not> seg_matches g s then Inr (EFATAL, s)
      else
        case in_syn now rnd g (in_rst g s) of
          Inl s \<Rightarrow> Inr (EFATAL, s)
        | Inr s \<Rightarrow>
            bind_res (in_ack g s) (\<lambda>r. case r of
              Inl s \<Rightarrow> Inr (EFATAL, s)
            | Inr s \<Rightarrow> Inr (EOK, (in_fin now g s)\<lparr>rx_flags := seg_flags g\<rparr>)))"

text \<open>\<open>TCPIPTcpSock_Input\<close> offers the segment to the sockets in turn, up to the first that accepts
  it. (The semaphore around it is \<^verbatim>\<open>Sys_Sem\<close>.)\<close>

fun input_socks :: "u32 \<Rightarrow> u32 \<Rightarrow> tcp_seg \<Rightarrow> tcp_sock list \<Rightarrow> fault + err_t \<times> tcp_sock list" where
  "input_socks now rnd g [] = Inr (EFATAL, [])"
| "input_socks now rnd g (s # ss) =
     bind_res (TCPIPTcpSock_ProcessIncoming now rnd g s) (\<lambda>(ec, s').
       if ec = EOK then Inr (EOK, s' # ss)
       else bind_res (input_socks now rnd g ss) (\<lambda>(ec, ss'). Inr (ec, s' # ss')))"

definition TCPIPTcpSock_Input :: "u32 \<Rightarrow> u32 \<Rightarrow> tcp_seg \<Rightarrow> tcp_sock list \<Rightarrow> fault + err_t \<times> tcp_sock list" where
  "TCPIPTcpSock_Input now rnd g ss =
     bind_res (input_socks now rnd g ss) (\<lambda>(ec, ss'). Inr (if ec = EOK then EOK else EFATAL, ss'))"

section \<open>Outgoing segments\<close>

definition TCPIP_RXTX_BUF_SIZE :: nat where "TCPIP_RXTX_BUF_SIZE = 1528"

text \<open>The flags for the state; \<open>None\<close> for the states without outgoing activity.\<close>

definition out_flags :: "tcp_sock \<Rightarrow> u32 option" where
  "out_flags s =
     (case state s of
        TCPIP_TCP_SOCK_STATE_FREE \<Rightarrow> None
      | TCPIP_TCP_SOCK_STATE_CLOSED \<Rightarrow> None
      | TCPIP_TCP_SOCK_STATE_LISTEN \<Rightarrow> None
      | TCPIP_TCP_SOCK_STATE_CONNECT \<Rightarrow> Some TCPIP_TCP_FLAGS_SYN
      | TCPIP_TCP_SOCK_STATE_ESTABLISHING \<Rightarrow> Some (TCPIP_TCP_FLAGS_SYN OR TCPIP_TCP_FLAGS_ACK)
      | TCPIP_TCP_SOCK_STATE_ESTABLISHED \<Rightarrow> Some TCPIP_TCP_FLAGS_ACK
      | TCPIP_TCP_SOCK_STATE_CLOSING \<Rightarrow>
          Some (if loc_link s = TCPIP_TCP_LINK_STATE_CLOSING
                then TCPIP_TCP_FLAGS_ACK OR TCPIP_TCP_FLAGS_FIN else TCPIP_TCP_FLAGS_ACK))"

definition out_stalled :: "u32 \<Rightarrow> tcp_sock \<Rightarrow> bool" where
  "out_stalled now s \<longleftrightarrow>
     (state s = TCPIP_TCP_SOCK_STATE_ESTABLISHING \<or> state s = TCPIP_TCP_SOCK_STATE_CLOSING) \<and>
     dtime now (syn_fin_ts s) > 2000"

definition out_idle :: "u32 \<Rightarrow> tcp_sock \<Rightarrow> bool" where
  "out_idle flags s \<longleftrightarrow>
     flags AND (TCPIP_TCP_FLAGS_SYN OR TCPIP_TCP_FLAGS_FIN) = 0 \<and>
     rx_seq_recvd s = rx_seq_acked s \<and> Queue_GetUsed (txq s) = 0 \<and> Queue_GetFree (rxq s) = rx_win s"

text \<open>The segment that is sent, with the addresses from the socket.\<close>

record tcp_out =
  out_addr :: u32
  out_src :: u16
  out_dst :: u16
  out_seq :: u32
  out_ack :: u32
  out_win :: u16
  out_fl :: u32
  out_data :: bytes

text \<open>After the allocation: the payload, the sequence numbers and the segment.\<close>

definition out_build :: "u32 \<Rightarrow> tcp_sock \<Rightarrow> fault + u32 \<times> tcp_out \<times> tcp_sock" where
  "out_build flags s =
     bind_res (Queue_Peek (txq s) (of_nat TCPIP_RXTX_BUF_SIZE)) (\<lambda>(n, data).
     bind_res (mem_write (replicate TCPIP_RXTX_BUF_SIZE 0) 54 data) (\<lambda>_.
       let flags = (if n > 0 then flags OR TCPIP_TCP_FLAGS_PSH else flags);
           s = s\<lparr>tx_seq_end := tx_seq_start s + n\<rparr>;
           s = (if has flags (TCPIP_TCP_FLAGS_SYN OR TCPIP_TCP_FLAGS_FIN)
                then s\<lparr>tx_seq_end := tx_seq_end s + 1\<rparr> else s)
       in Inr (flags,
            \<lparr>out_addr = sock_addr s, out_src = loc_port s, out_dst = rem_port s,
             out_seq = tx_seq_start s, out_ack = rx_seq_recvd s, out_win = ucast (Queue_GetFree (rxq s)),
             out_fl = flags, out_data = data\<rparr>, s)))"

text \<open>After a successful send.\<close>

definition out_sent :: "u32 \<Rightarrow> u32 \<Rightarrow> u16 \<Rightarrow> tcp_sock \<Rightarrow> tcp_sock" where
  "out_sent now flags win s =
     (let s = s\<lparr>tx_flags := flags, rx_win := ucast win, rx_seq_acked := rx_seq_recvd s\<rparr>;
          s = (if tx_seq_end s \<noteq> tx_seq_start s
               then s\<lparr>tx_retr_cnt := tx_retr_cnt s + 1, tx_retr_ts := now\<rparr> else s)
      in if rem_link s = TCPIP_TCP_LINK_STATE_CLOSING then
           let s = s\<lparr>rem_link := TCPIP_TCP_LINK_STATE_CLOSED\<rparr>
           in if loc_link s = TCPIP_TCP_LINK_STATE_CLOSED
              then s\<lparr>state := TCPIP_TCP_SOCK_STATE_CLOSED\<rparr> else s
         else s)"

definition TCPIPTcpSock_ProcessOutgoing ::
  "(tcp_sock \<Rightarrow> tcp_sock) \<Rightarrow> (tcp_sock \<Rightarrow> tcp_sock) \<Rightarrow> err_t \<Rightarrow> err_t \<Rightarrow> u32 \<Rightarrow> u32 \<Rightarrow> tcp_sock \<Rightarrow>
   fault + tcp_out option \<times> tcp_sock" where
  "TCPIPTcpSock_ProcessOutgoing during_alloc during_send alloc_ec send_ec now now' s =
     (case out_flags s of
        None \<Rightarrow> Inr (None, s)
      | Some flags \<Rightarrow>
          if out_stalled now s then Inr (None, s\<lparr>state := TCPIP_TCP_SOCK_STATE_CLOSED\<rparr>)
          else if out_idle flags s then Inr (None, s)
          else if now - tx_retr_ts s < 300 * tx_retr_cnt s then Inr (None, s)
          else
            let s = during_alloc s in
            if alloc_ec \<noteq> EOK then Inr (None, s)
            else bind_res (out_build flags s) (\<lambda>(flags, seg, s).
              let s = during_send s in
              if send_ec < EOK then Inr (None, s)
              else Inr (Some seg, out_sent now' flags (out_win seg) s)))"

section \<open>The interface to the tasks\<close>

definition TCPIPTcpSock_Reset :: "tcp_sock list \<Rightarrow> err_t \<times> tcp_sock list" where
  "TCPIPTcpSock_Reset ss =
     (EOK, map (\<lambda>s. if state s \<noteq> TCPIP_TCP_SOCK_STATE_FREE \<and> state s \<noteq> TCPIP_TCP_SOCK_STATE_CLOSED
                    then s\<lparr>state := TCPIP_TCP_SOCK_STATE_CLOSED\<rparr> else s) ss)"

text \<open>The index of the first free socket.\<close>

fun free_sock :: "tcp_sock list \<Rightarrow> nat option" where
  "free_sock [] = None"
| "free_sock (s # ss) =
     (if state s = TCPIP_TCP_SOCK_STATE_FREE then Some 0 else map_option Suc (free_sock ss))"

definition TCPIPTcpSock_Create ::
  "heap_t \<Rightarrow> (nat \<Rightarrow> u8) \<Rightarrow> u32 \<Rightarrow> u32 \<Rightarrow> tcp_sock list \<Rightarrow>
   (fault + heap_t \<times> nat option \<times> tcp_sock list) option" where
  "TCPIPTcpSock_Create h junk rx_size tx_size ss =
     (case free_sock ss of
        None \<Rightarrow> Some (Inr (h, None, ss))
      | Some i \<Rightarrow>
          (case Queue_Create h junk 1 rx_size of
             None \<Rightarrow> None
           | Some (Inl e) \<Rightarrow> Some (Inl e)
           | Some (Inr (h1, r)) \<Rightarrow>
               (case Queue_Create h1 junk 1 tx_size of
                  None \<Rightarrow> None
                | Some (Inl e) \<Rightarrow> Some (Inl e)
                | Some (Inr (h2, t)) \<Rightarrow>
                    (case (r, t) of
                       (Some (_, _, rq), Some (_, _, tq)) \<Rightarrow>
                         Some (Inr (h2, Some i,
                           ss[i := (ss ! i)\<lparr>state := TCPIP_TCP_SOCK_STATE_CLOSED, rxq := rq, txq := tq\<rparr>]))
                     | _ \<Rightarrow> Some (Inl AssertFail)))))"

record tcp_world =
  tw_now :: u32
  tw_sock :: tcp_sock

abbreviation tw_state :: "tcp_world \<Rightarrow> tcp_sock_state" where "tw_state w \<equiv> state (tw_sock w)"

definition sock_upd :: "(tcp_sock \<Rightarrow> tcp_sock) \<Rightarrow> tcp_world \<Rightarrow> tcp_world" where
  "sock_upd f w = w\<lparr>tw_sock := f (tw_sock w)\<rparr>"

definition clear_queues :: "tcp_sock \<Rightarrow> tcp_sock" where
  "clear_queues s = s\<lparr>rxq := snd (Queue_Drop (rxq s) (Queue_GetUsed (rxq s))),
     txq := snd (Queue_Drop (txq s) (Queue_GetUsed (txq s)))\<rparr>"

definition TCPIPTcpSock_Listen_body ::
  "int \<times> u32 \<Rightarrow> unit \<Rightarrow> tcp_world \<Rightarrow> (err_t \<times> tcp_world) + (unit \<times> tcp_world)" where
  "TCPIPTcpSock_Listen_body p l w =
     (case p of (timeout, ts) \<Rightarrow>
        if tw_state w = TCPIP_TCP_SOCK_STATE_ESTABLISHED then Inl (EOK, w)
        else if tw_state w = TCPIP_TCP_SOCK_STATE_CLOSED then Inl (ENOCONNECT, w)
        else if timeout \<noteq> 0 \<and> dtime (tw_now w) ts \<ge> timeout \<and> tw_state w = TCPIP_TCP_SOCK_STATE_LISTEN
        then Inl (ETIMEOUT, sock_upd (\<lambda>s. s\<lparr>state := TCPIP_TCP_SOCK_STATE_CLOSED\<rparr>) w)
        else Inr ((), w))"

definition TCPIPTcpSock_Listen ::
  "nat \<Rightarrow> (nat \<Rightarrow> tcp_world \<Rightarrow> tcp_world) \<Rightarrow> u16 \<Rightarrow> int \<Rightarrow> tcp_world \<Rightarrow> (err_t \<times> tcp_world) option" where
  "TCPIPTcpSock_Listen fuel env port timeout w =
     (if tw_state w \<noteq> TCPIP_TCP_SOCK_STATE_CLOSED \<and> tw_state w \<noteq> TCPIP_TCP_SOCK_STATE_LISTEN
      then Some (EARGVAL, w)
      else if port = 0 then Some (EARGVAL, w)
      else yield_loop fuel env 0 (TCPIPTcpSock_Listen_body (timeout, tw_now w)) ()
             (sock_upd (\<lambda>s. clear_queues (s\<lparr>tx_flags := 0, rx_flags := 0, loc_port := port,
                state := TCPIP_TCP_SOCK_STATE_LISTEN, loc_link := TCPIP_TCP_LINK_STATE_CLOSED,
                rem_link := TCPIP_TCP_LINK_STATE_CLOSED\<rparr>)) w))"

definition TCPIPTcpSock_Connect_body ::
  "int \<times> u32 \<Rightarrow> unit \<Rightarrow> tcp_world \<Rightarrow> (err_t \<times> tcp_world) + (unit \<times> tcp_world)" where
  "TCPIPTcpSock_Connect_body p l w =
     (case p of (timeout, ts) \<Rightarrow>
        if tw_state w \<noteq> TCPIP_TCP_SOCK_STATE_ESTABLISHED then
          let w = (if timeout \<noteq> 0 \<and> dtime (tw_now w) ts \<ge> timeout
                   then sock_upd (\<lambda>s. s\<lparr>state := TCPIP_TCP_SOCK_STATE_CLOSED\<rparr>) w else w)
          in if tw_state w = TCPIP_TCP_SOCK_STATE_CLOSED then Inl (ENOCONNECT, w) else Inr ((), w)
        else Inl (EOK, w))"

definition TCPIPTcpSock_Connect ::
  "nat \<Rightarrow> (nat \<Rightarrow> tcp_world \<Rightarrow> tcp_world) \<Rightarrow> u32 \<Rightarrow> u32 \<Rightarrow> u16 \<Rightarrow> int \<Rightarrow> tcp_world \<Rightarrow>
   (err_t \<times> tcp_world) option" where
  "TCPIPTcpSock_Connect fuel env rnd ip port timeout w =
     (if tw_state w = TCPIP_TCP_SOCK_STATE_CONNECT \<and> rem_port (tw_sock w) = port \<and>
         TCPIPIpAddr_AddressMatch ip (sock_addr (tw_sock w)) then Some (EOK, w)
      else if tw_state w \<noteq> TCPIP_TCP_SOCK_STATE_CLOSED then Some (EARGVAL, w)
      else if port = 0 then Some (EARGVAL, w)
      else yield_loop fuel env 0 (TCPIPTcpSock_Connect_body (timeout, tw_now w)) ()
             (sock_upd (\<lambda>s. clear_queues (s\<lparr>tx_flags := 0, rx_flags := 0, rem_port := port,
                sock_addr := ip, loc_port := ucast (rnd mod 34567 + 10000), tx_seq_init := tw_now w,
                tx_seq_start := tw_now w, state := TCPIP_TCP_SOCK_STATE_CONNECT,
                loc_link := TCPIP_TCP_LINK_STATE_CLOSED, rem_link := TCPIP_TCP_LINK_STATE_CLOSED\<rparr>)) w))"

text \<open>\<open>TCPIPTcpSock_Recv\<close> returns the number of bytes, or a code, and the bytes.\<close>

definition TCPIPTcpSock_Recv_body ::
  "u32 \<times> int \<times> u32 \<Rightarrow> unit \<Rightarrow> tcp_world \<Rightarrow> ((fault + err_t \<times> bytes) \<times> tcp_world) + (unit \<times> tcp_world)" where
  "TCPIPTcpSock_Recv_body p l w =
     (case p of (bsz, timeout, ts) \<Rightarrow>
        case Queue_Get (rxq (tw_sock w)) bsz of
          Inl e \<Rightarrow> Inl (Inl e, w)
        | Inr (b_read, data, q) \<Rightarrow>
            let w = sock_upd (\<lambda>s. s\<lparr>rxq := q\<rparr>) w in
            if b_read \<noteq> 0 then Inl (Inr (int (unat b_read), data), w)
            else if timeout \<noteq> 0 \<and> dtime (tw_now w) ts > timeout then Inl (Inr (ETIMEOUT, []), w)
            else if tw_state w \<noteq> TCPIP_TCP_SOCK_STATE_ESTABLISHED then Inl (Inr (ENOCONNECT, []), w)
            else if bsz = 0 then Inl (Inr (0, []), w)
            else Inr ((), w))"

definition TCPIPTcpSock_Recv ::
  "nat \<Rightarrow> (nat \<Rightarrow> tcp_world \<Rightarrow> tcp_world) \<Rightarrow> u32 \<Rightarrow> int \<Rightarrow> tcp_world \<Rightarrow>
   ((fault + err_t \<times> bytes) \<times> tcp_world) option" where
  "TCPIPTcpSock_Recv fuel env bsz timeout w =
     yield_loop fuel env 0 (TCPIPTcpSock_Recv_body (bsz, timeout, tw_now w)) () w"

text \<open>The local variable of \<open>TCPIPTcpSock_Send\<close> is \<open>b_written\<close>.\<close>

definition TCPIPTcpSock_Send_body ::
  "bytes \<times> u32 \<times> int \<times> u32 \<Rightarrow> u32 \<Rightarrow> tcp_world \<Rightarrow> ((fault + err_t) \<times> tcp_world) + (u32 \<times> tcp_world)" where
  "TCPIPTcpSock_Send_body p b_written w =
     (case p of (ptr, bsz, timeout, ts) \<Rightarrow>
        if timeout \<noteq> 0 \<and> dtime (tw_now w) ts > timeout then Inl (Inr ETIMEOUT, w)
        else if tw_state w \<noteq> TCPIP_TCP_SOCK_STATE_ESTABLISHED then Inl (Inr ENOCONNECT, w)
        else case Queue_Put (txq (tw_sock w)) (drop (unat b_written) ptr) (bsz - b_written) of
            Inl e \<Rightarrow> Inl (Inl e, w)
          | Inr (b_stored, q) \<Rightarrow>
              let w = sock_upd (\<lambda>s. s\<lparr>txq := q\<rparr>) w; b_written = b_written + b_stored in
              if b_written \<noteq> bsz then Inr (b_written, w) else Inl (Inr (int (unat b_written)), w))"

definition TCPIPTcpSock_Send ::
  "nat \<Rightarrow> (nat \<Rightarrow> tcp_world \<Rightarrow> tcp_world) \<Rightarrow> bytes \<Rightarrow> u32 \<Rightarrow> int \<Rightarrow> tcp_world \<Rightarrow>
   ((fault + err_t) \<times> tcp_world) option" where
  "TCPIPTcpSock_Send fuel env ptr bsz timeout w =
     yield_loop fuel env 0 (TCPIPTcpSock_Send_body (ptr, bsz, timeout, tw_now w)) 0 w"

text \<open>\<open>TCPIPTcpSock_Close\<close>: the first loop flushes the output (\<open>False\<close>), the second one waits for the
  closure (\<open>True\<close>).\<close>

definition close_link :: "tcp_world \<Rightarrow> tcp_world" where
  "close_link w =
     (if loc_link (tw_sock w) = TCPIP_TCP_LINK_STATE_OPEN
      then sock_upd (\<lambda>s. s\<lparr>loc_link := TCPIP_TCP_LINK_STATE_CLOSING,
             state := TCPIP_TCP_SOCK_STATE_CLOSING, syn_fin_ts := tw_now w\<rparr>) w else w)"

definition TCPIPTcpSock_Close_body ::
  "int \<times> u32 \<Rightarrow> bool \<Rightarrow> tcp_world \<Rightarrow> (err_t \<times> tcp_world) + (bool \<times> tcp_world)" where
  "TCPIPTcpSock_Close_body p closing w =
     (case p of (timeout, ts) \<Rightarrow>
        let expired = (timeout \<noteq> 0 \<and> dtime (tw_now w) ts > timeout);
            give_up = (ETIMEOUT, sock_upd (\<lambda>s. s\<lparr>state := TCPIP_TCP_SOCK_STATE_CLOSED\<rparr>) w)
        in if \<not> closing \<and> tw_state w = TCPIP_TCP_SOCK_STATE_ESTABLISHED \<and> Queue_GetUsed (txq (tw_sock w)) \<noteq> 0
           then if expired then Inl give_up else Inr (False, w)
           else
             let w = (if closing then w else close_link w) in
             if tw_state w \<noteq> TCPIP_TCP_SOCK_STATE_CLOSED
             then if expired
                  then Inl (ETIMEOUT, sock_upd (\<lambda>s. s\<lparr>state := TCPIP_TCP_SOCK_STATE_CLOSED\<rparr>) w)
                  else Inr (True, w)
             else Inl (EOK, w))"

definition TCPIPTcpSock_Close ::
  "nat \<Rightarrow> (nat \<Rightarrow> tcp_world \<Rightarrow> tcp_world) \<Rightarrow> int \<Rightarrow> tcp_world \<Rightarrow> (err_t \<times> tcp_world) option" where
  "TCPIPTcpSock_Close fuel env timeout w =
     (if tw_state w = TCPIP_TCP_SOCK_STATE_FREE \<or> tw_state w = TCPIP_TCP_SOCK_STATE_LISTEN
      then Some (EARGVAL, w)
      else yield_loop fuel env 0 (TCPIPTcpSock_Close_body (timeout, tw_now w)) False w)"


section \<open>Segments of other connections\<close>

lemmas tcp_flag_defs = TCPIP_TCP_FLAGS_FIN_def TCPIP_TCP_FLAGS_SYN_def TCPIP_TCP_FLAGS_RST_def
  TCPIP_TCP_FLAGS_PSH_def TCPIP_TCP_FLAGS_ACK_def


section \<open>The state machine\<close>

lemma in_data_fields:
  "in_data g s = Inr s' \<Longrightarrow> state s' = state s \<and> loc_link s' = loc_link s \<and> rem_link s' = rem_link s \<and>
     txq s' = txq s \<and> tx_seq_start s' = tx_seq_start s \<and> tx_seq_end s' = tx_seq_end s"
  by (auto simp: in_data_def bind_res_eq_Inr Let_def split: if_splits)

lemma in_acked_fields [simp]:
  "state (in_acked g s) = state s" "rxq (in_acked g s) = rxq s" "rx_seq_recvd (in_acked g s) = rx_seq_recvd s"
  by (simp_all add: in_acked_def Let_def)

lemma in_fin_state:
  "state (in_fin now g s) = (if has (seg_flags g) TCPIP_TCP_FLAGS_FIN then TCPIP_TCP_SOCK_STATE_CLOSING else state s)"
  by (simp add: in_fin_def Let_def)


section \<open>Receiving a stream\<close>

text \<open>
  The peer's stream is the function \<open>stream\<close>; its first byte has the sequence number \<open>isn\<close>. A data
  segment \<open>g\<close> carries the bytes from position \<open>k\<close> on.
\<close>

definition carries :: "(nat \<Rightarrow> u8) \<Rightarrow> u32 \<Rightarrow> tcp_seg \<Rightarrow> nat \<Rightarrow> bool" where
  "carries stream isn g k \<longleftrightarrow> seg_seq g = isn + of_nat k \<and> unat (seg_size g) \<le> length (seg_mem g) \<and>
     (\<forall>i < unat (seg_size g). seg_mem g ! i = stream (k + i))"

definition data_seg :: "tcp_seg \<Rightarrow> bool" where
  "data_seg g \<longleftrightarrow> seg_flags g AND (TCPIP_TCP_FLAGS_SYN OR TCPIP_TCP_FLAGS_FIN OR TCPIP_TCP_FLAGS_RST) = 0"

lemma data_segD:
  assumes "data_seg g"
  shows "\<not> has (seg_flags g) TCPIP_TCP_FLAGS_RST" "\<not> has (seg_flags g) TCPIP_TCP_FLAGS_SYN"
    "\<not> has (seg_flags g) TCPIP_TCP_FLAGS_FIN"
    "\<not> has (seg_flags g) (TCPIP_TCP_FLAGS_FIN OR TCPIP_TCP_FLAGS_SYN)"
proof -
  have b: "\<not> bit (seg_flags g) 0" "\<not> bit (seg_flags g) 1" "\<not> bit (seg_flags g) 2"
  proof -
    have "bit (seg_flags g AND 7) n = False" for n
      using assms by (simp add: data_seg_def tcp_flag_defs)
    from this [of 0] this [of 1] this [of 2]
    show "\<not> bit (seg_flags g) 0" "\<not> bit (seg_flags g) 1" "\<not> bit (seg_flags g) 2"
      by (simp_all add: bit_simps)
  qed
  have z: "seg_flags g AND m = 0" if "m = 1 \<or> m = 2 \<or> m = 4 \<or> m = 3" for m
    using that b by (auto intro!: bit_word_eqI simp: bit_simps bit_numeral_rec bit_1_iff numeral_2_eq_2 less_Suc_eq)
  show "\<not> has (seg_flags g) TCPIP_TCP_FLAGS_RST" "\<not> has (seg_flags g) TCPIP_TCP_FLAGS_SYN"
    "\<not> has (seg_flags g) TCPIP_TCP_FLAGS_FIN"
    "\<not> has (seg_flags g) (TCPIP_TCP_FLAGS_FIN OR TCPIP_TCP_FLAGS_SYN)"
    using z by (simp_all add: tcp_flag_defs)
qed

lemma ProcessIncoming_data:
  assumes "data_seg g" "TCPIPTcpSock_ProcessIncoming now rnd g s = Inr (ec, s')"
  shows "rxq s' = rxq s \<and> rx_seq_recvd s' = rx_seq_recvd s \<or>
    seg_seq g = rx_seq_recvd s \<and> (\<exists>n. Queue_Put (rxq s) (seg_mem g) (seg_size g) = Inr (n, rxq s') \<and>
      rx_seq_recvd s' = rx_seq_recvd s + n)"
proof (cases "seg_matches g s")
  case True
  note d = data_segD [OF assms(1)]
  have s: "in_syn now rnd g (in_rst g s) = Inr s" using d by (simp add: in_rst_def in_syn_def)
  obtain r where r: "in_ack g s = Inr r"
    using assms(2) True s by (auto simp: TCPIPTcpSock_ProcessIncoming_def bind_res_eq_Inr)
  have s': "rxq s' = rxq (case r of Inl x \<Rightarrow> x | Inr x \<Rightarrow> x) \<and>
      rx_seq_recvd s' = rx_seq_recvd (case r of Inl x \<Rightarrow> x | Inr x \<Rightarrow> x)"
    using assms(2) True s d r by (auto simp: TCPIPTcpSock_ProcessIncoming_def in_fin_def split: sum.splits)
  show ?thesis using r d(4) s'
    by (auto simp: in_ack_def in_data_def bind_res_eq_Inr Let_def split: if_splits)
next
  case False
  then show ?thesis using assms(2) by (simp add: TCPIPTcpSock_ProcessIncoming_def)
qed

text \<open>
  What may happen to the receiving side: data segments of the stream arrive, in any order, repeated
  or not at all, but none that is \<open>2 ^ 32\<close> bytes off; the application reads; anything else leaves the
  receiving queue and its sequence number alone. The second component is what was read so far.
\<close>

inductive rx_step :: "(nat \<Rightarrow> u8) \<Rightarrow> u32 \<Rightarrow> tcp_sock \<times> bytes \<Rightarrow> tcp_sock \<times> bytes \<Rightarrow> bool"
  for stream isn where
  rx_segment:
    "data_seg g \<Longrightarrow> carries stream isn g k \<Longrightarrow>
     length out + used (rxq s) < k + 2 ^ 32 \<Longrightarrow> k < length out + used (rxq s) + 2 ^ 32 \<Longrightarrow>
     TCPIPTcpSock_ProcessIncoming now rnd g s = Inr (ec, s') \<Longrightarrow> rx_step stream isn (s, out) (s', out)"
| rx_read:
    "Queue_Get (rxq s) n = Inr (b_read, data, q) \<Longrightarrow>
     rx_step stream isn (s, out) (s\<lparr>rxq := q\<rparr>, out @ data)"
| rx_other:
    "rxq s' = rxq s \<Longrightarrow> rx_seq_recvd s' = rx_seq_recvd s \<Longrightarrow> rx_step stream isn (s, out) (s', out)"

definition rx_inv :: "(nat \<Rightarrow> u8) \<Rightarrow> u32 \<Rightarrow> tcp_sock \<times> bytes \<Rightarrow> bool" where
  "rx_inv stream isn = (\<lambda>(s, out). q_ok (rxq s) \<and> sz (rxq s) = 1 \<and>
     rx_seq_recvd s = isn + of_nat (length out + used (rxq s)) \<and>
     out @ q_bytes (rxq s) = map stream [0..<length out + used (rxq s)])"

lemma of_nat_u32_inj:
  assumes "isn + of_nat a = isn + (of_nat b :: u32)" "a < b + 2 ^ 32" "b < a + 2 ^ 32"
  shows "a = b"
proof -
  have "unat (of_nat a :: u32) = unat (of_nat b :: u32)" using assms(1) by simp
  then have m: "a mod 2 ^ 32 = b mod 2 ^ 32" by (simp add: unat_of_nat)
  have "a = b" if "x mod (2 ^ 32) = y mod 2 ^ 32" "y \<le> x" "x < y + 2 ^ 32" "{x, y} = {a, b}" for x y :: nat
  proof -
    have "x - y < 2 ^ 32" "(x - y) mod 2 ^ 32 = 0" using that by (auto simp: mod_eq_dvd_iff_nat)
    then show ?thesis using that by (auto simp: doubleton_eq_iff)
  qed
  from this [of a b] this [of b a] m assms(2,3) show ?thesis by fastforce
qed

lemma unat_add_word:
  assumes "unat a = unat b + unat c"
  shows "(a :: u32) = b + c"
proof -
  have "a = of_nat (unat a)" by simp
  also have "\<dots> = of_nat (unat b + unat c)" using assms by (rule arg_cong)
  finally show ?thesis by simp
qed

lemma rx_inv_segment:
  assumes "rx_inv stream isn (s, out)" "data_seg g" "carries stream isn g k"
    and near: "length out + used (rxq s) < k + 2 ^ 32" "k < length out + used (rxq s) + 2 ^ 32"
    and p: "TCPIPTcpSock_ProcessIncoming now rnd g s = Inr (ec, s')"
  shows "rx_inv stream isn (s', out)"
  using ProcessIncoming_data [OF assms(2) p]
proof (elim disjE conjE exE)
  fix n
  assume seq: "seg_seq g = rx_seq_recvd s" and put: "Queue_Put (rxq s) (seg_mem g) (seg_size g) = Inr (n, rxq s')"
    and rcv: "rx_seq_recvd s' = rx_seq_recvd s + n"
  let ?p = "length out + used (rxq s)"
  have inv: "q_ok (rxq s)" "sz (rxq s) = 1" "rx_seq_recvd s = isn + of_nat ?p"
    "out @ q_bytes (rxq s) = map stream [0..<?p]" using assms(1) by (simp_all add: rx_inv_def)
  have c: "seg_seq g = isn + of_nat k" "unat (seg_size g) \<le> length (seg_mem g)"
    "\<And>i. i < unat (seg_size g) \<Longrightarrow> seg_mem g ! i = stream (k + i)" using assms(3) by (simp_all add: carries_def)
  have k: "k = ?p" by (rule of_nat_u32_inj [of isn]) (use seq c(1) inv(3) near in simp_all)
  have q: "q_ok (rxq s')" "sz (rxq s') = 1" "unat n = min (unat (seg_size g)) (unat (Queue_GetFree (rxq s)))"
    "q_bytes (rxq s') = q_bytes (rxq s) @ take (unat n) (seg_mem g)"
    using Queue_Put_bytes [of "rxq s" 1 "seg_size g" "seg_mem g"] inv c(2) put by auto
  have u: "used (rxq s') = used (rxq s) + unat n"
    using byte_queue_length [OF q(1,2)] byte_queue_length [OF inv(1,2)] q(3,4) c(2) by simp
  have t: "take (unat n) (seg_mem g) = map stream [?p..<?p + unat n]"
    by (rule nth_equalityI) (use q(3) c(2,3) k in auto)
  have "map stream [0..<?p] @ map stream [?p..<?p + unat n] = map stream [0..<?p + unat n]"
    by (simp flip: map_append upt_add_eq_append)
  then have "out @ q_bytes (rxq s') = map stream [0..<length out + used (rxq s')]"
    using q(4) t inv(4) u by (simp add: add.assoc flip: append_assoc)
  then show ?thesis using q(1,2) rcv inv(3) unat_add_word [OF u] by (simp add: rx_inv_def add.assoc)
qed (use assms(1) in \<open>simp add: rx_inv_def\<close>)

lemma rx_inv_read:
  assumes "rx_inv stream isn (s, out)" "Queue_Get (rxq s) n = Inr (b_read, data, q)"
  shows "rx_inv stream isn (s\<lparr>rxq := q\<rparr>, out @ data)"
proof -
  have inv: "q_ok (rxq s)" "sz (rxq s) = 1" using assms(1) by (simp_all add: rx_inv_def)
  have q: "q_ok q" "sz q = 1" "length data = unat b_read" "q_bytes (rxq s) = data @ q_bytes q"
    using Queue_Get_bytes [of "rxq s" 1 n] inv assms(2) by auto
  have u: "used (rxq s) = unat b_read + used q"
    using byte_queue_length [OF q(1,2)] byte_queue_length [OF inv] q(3,4) by simp
  then show ?thesis using assms(1) q unat_add_word [OF u] by (simp add: rx_inv_def add.assoc)
qed

lemma rx_step_inv: "rx_step stream isn x y \<Longrightarrow> rx_inv stream isn x \<Longrightarrow> rx_inv stream isn y"
proof (induction rule: rx_step.induct)
  case rx_segment
  then show ?case by (metis rx_inv_segment)
next
  case rx_read
  then show ?case by (metis rx_inv_read)
next
  case rx_other
  then show ?case by (simp add: rx_inv_def)
qed

text \<open>
  Whatever segments of the peer's stream arrive, in whatever order and how often, and whenever the
  application reads, what it has read is a prefix of the stream: no byte is lost, repeated or
  reordered. (The receive queue starts empty and its capacity divides \<open>2 ^ 32\<close>; the segments carry
  no SYN, FIN or RST.)
\<close>

theorem Tcp_receives_prefix:
  assumes "(rx_step stream isn)\<^sup>*\<^sup>* (s, []) (s', out)" "rx_inv stream isn (s, [])"
  shows "out = map stream [0..<length out]"
proof -
  have "rx_inv stream isn y" if "(rx_step stream isn)\<^sup>*\<^sup>* (s, []) y" for y
    using that by induction (use assms(2) rx_step_inv in blast)+
  then have "out @ q_bytes (rxq s') = map stream [0..<length out + used (rxq s')]"
    using assms(1) by (fastforce simp: rx_inv_def)
  then have "take (length out) (out @ q_bytes (rxq s')) = take (length out) (map stream [0..<length out + used (rxq s')])"
    by simp
  then show ?thesis by (simp add: take_map)
qed

section \<open>Examples\<close>

text \<open>Sockets and segments that satisfy the hypotheses of the theorems above.\<close>

definition demo_sock :: "queue_t \<Rightarrow> queue_t \<Rightarrow> u32 \<Rightarrow> u32 \<Rightarrow> u32 \<Rightarrow> tcp_sock" where
  "demo_sock rq tq recvd tstart tend =
     \<lparr>state = TCPIP_TCP_SOCK_STATE_ESTABLISHED, loc_link = TCPIP_TCP_LINK_STATE_OPEN,
      rem_link = TCPIP_TCP_LINK_STATE_OPEN, loc_port = 80, rem_port = 80, sock_addr = 1, rxq = rq, txq = tq,
      rx_seq_init = 0, rx_seq_recvd = recvd, rx_seq_acked = recvd, rx_flags = 16, rx_win = 4, tx_seq_init = 0,
      tx_seq_start = tstart, tx_seq_end = tend, tx_win = 4, tx_flags = 16, tx_retr_ts = 0, tx_retr_cnt = 0,
      syn_fin_ts = 0\<rparr>"

definition demo_q :: "bytes \<Rightarrow> u32 \<Rightarrow> u32 \<Rightarrow> queue_t" where
  "demo_q buf h t = \<lparr>q_size = 1, q_count = 4, q_ptr = buf, q_head = h, q_tail = t\<rparr>"

definition demo_in :: "u16 \<Rightarrow> u32 \<Rightarrow> bytes \<Rightarrow> tcp_seg" where
  "demo_in port flags data =
     \<lparr>seg_ip = 1, seg_src_port = 80, seg_dst_port = port, seg_seq = 7, seg_ack = 50, seg_win = 4, seg_flags = flags,
      seg_size = of_nat (length data), seg_mem = data\<rparr>"

lemmas demo_defs = demo_sock_def demo_q_def demo_in_def Queue_Put_def Queue_Get_def Queue_Peek_def Queue_GetFree_def
  Queue_GetUsed_def Queue_Drop_def c_min_def mem_read_def mem_write_def Let_def bind_res_def
  TCPIPTcpSock_ProcessIncoming_def seg_matches_def TCPIPIpAddr_AddressMatch_def in_rst_def in_syn_def in_ack_def
  in_data_def in_acked_def in_fin_def tcp_flag_defs



theorem Tcp_receives_prefix_witness:
  "[1, 2] = map (\<lambda>i. if i = 0 then 1 else 2 :: u8) [0..<length [1 :: u8, 2]]"
proof -
  let ?f = "\<lambda>i :: nat. if i = 0 then 1 else 2 :: u8"
  let ?s = "\<lambda>buf h t n fl. demo_sock (demo_q buf h t) (demo_q [0, 0, 0, 0] 0 0) n 50 50\<lparr>rx_seq_acked := 7, rx_flags := fl\<rparr>"
  have q: "used (demo_q [0, 0, 0, 0] 0 0) = 0" by (simp add: demo_q_def Queue_GetUsed_def)
  have "rx_step ?f 7 (?s [0, 0, 0, 0] 0 0 7 16, []) (?s [1, 2, 0, 0] 2 0 9 24, [])"
  proof (rule rx_segment [of "demo_in 80 24 [1, 2]" _ _ 0])
    show "data_seg (demo_in 80 24 [1, 2])" by (simp add: data_seg_def demo_in_def tcp_flag_defs)
    show "carries ?f 7 (demo_in 80 24 [1, 2]) 0" by (auto simp: carries_def demo_in_def less_2_cases_iff)
    show "TCPIPTcpSock_ProcessIncoming 0 0 (demo_in 80 24 [1, 2]) (?s [0, 0, 0, 0] 0 0 7 16) =
        Inr (EOK, ?s [1, 2, 0, 0] 2 0 9 24)" by (simp add: demo_defs)
  qed (simp_all add: demo_sock_def q)
  moreover have "rx_step ?f 7 (?s [1, 2, 0, 0] 2 0 9 24, []) (?s [1, 2, 0, 0] 2 2 9 24, [1, 2])"
    using rx_read [of "?s [1, 2, 0, 0] 2 0 9 24" 4 2 "[1, 2]" "demo_q [1, 2, 0, 0] 2 2" ?f 7 "[]"] by (simp add: demo_defs)
  ultimately have "(rx_step ?f 7)\<^sup>*\<^sup>* (?s [0, 0, 0, 0] 0 0 7 16, []) (?s [1, 2, 0, 0] 2 2 9 24, [1, 2])"
    by (meson rtranclp.rtrancl_into_rtrancl rtranclp.rtrancl_refl)
  from Tcp_receives_prefix [OF this] show ?thesis
    by (simp add: rx_inv_def q_ok_def q_wf_def demo_sock_def demo_q_def Queue_GetUsed_def q_bytes_def q_items_def)
qed

section \<open>The calls with a timeout return\<close>

lemma sock_upd_simps [simp]: "tw_now (sock_upd f w) = tw_now w" "tw_sock (sock_upd f w) = f (tw_sock w)"
  by (simp_all add: sock_upd_def)

lemma close_link_now [simp]: "tw_now (close_link w) = tw_now w"
  by (simp add: close_link_def)

interpretation tcp_connect: timed_wait tw_now TCPIPTcpSock_Connect_body snd fst
  by unfold_locales (auto simp: TCPIPTcpSock_Connect_body_def Let_def split: if_splits)

interpretation tcp_recv: timed_wait tw_now TCPIPTcpSock_Recv_body "\<lambda>p. snd (snd p)" "\<lambda>p. fst (snd p)"
  by unfold_locales (auto simp: TCPIPTcpSock_Recv_body_def Let_def split: sum.splits if_splits)

interpretation tcp_send: timed_wait tw_now TCPIPTcpSock_Send_body "\<lambda>p. snd (snd (snd p))" "\<lambda>p. fst (snd (snd p))"
  by unfold_locales (auto simp: TCPIPTcpSock_Send_body_def Let_def split: sum.splits if_splits)

interpretation tcp_close: timed_wait tw_now TCPIPTcpSock_Close_body snd fst
  by unfold_locales (auto simp: TCPIPTcpSock_Close_body_def Let_def split: if_splits)

lemma Tcp_Recv_returns:
  assumes "ticking tw_now d env" "0 < timeout" "nat timeout + d < 2 ^ 31"
  shows "\<exists>r. TCPIPTcpSock_Recv (Suc (nat timeout)) env bsz timeout w = Some r"
  using tcp_recv.returns_in_time [OF assms(1), of "(bsz, timeout, tw_now w)" w 0 "()"] assms(2,3)
  by (simp add: TCPIPTcpSock_Recv_def del: yield_loop.simps)

lemma Tcp_Send_returns:
  assumes "ticking tw_now d env" "0 < timeout" "nat timeout + d < 2 ^ 31"
  shows "\<exists>r. TCPIPTcpSock_Send (Suc (nat timeout)) env ptr bsz timeout w = Some r"
  using tcp_send.returns_in_time [OF assms(1), of "(ptr, bsz, timeout, tw_now w)" w 0 0] assms(2,3)
  by (simp add: TCPIPTcpSock_Send_def del: yield_loop.simps)



section \<open>What the peer can do\<close>

text \<open>
  A reset segment is accepted whatever its sequence number, and by a listening socket too: one
  segment from anybody closes it, although nobody is connected.
\<close>

lemma Tcp_rst_closes_listener:
  assumes "state s = TCPIP_TCP_SOCK_STATE_LISTEN" "loc_port s = seg_dst_port g"
    and "seg_flags g = TCPIP_TCP_FLAGS_RST"
  shows "TCPIPTcpSock_ProcessIncoming now rnd g s =
    Inr (EOK, s\<lparr>state := TCPIP_TCP_SOCK_STATE_CLOSED, rx_flags := TCPIP_TCP_FLAGS_RST\<rparr>)"
  using assms by (simp add: TCPIPTcpSock_ProcessIncoming_def seg_matches_def in_rst_def in_syn_def in_ack_def in_fin_def
      tcp_flag_defs)

text \<open>
  A FIN is counted as received although the data in front of it was not stored for want of room: the
  socket then acknowledges one byte of data that it does not have.
\<close>

lemma Tcp_fin_acknowledges_lost_byte:
  "TCPIPTcpSock_ProcessIncoming 0 0 (demo_in 80 17 [1, 2])
     (demo_sock (demo_q [3, 4, 5, 6] 4 0) (demo_q [0, 0, 0, 0] 0 0) 7 50 50) =
   Inr (EOK, demo_sock (demo_q [3, 4, 5, 6] 4 0) (demo_q [0, 0, 0, 0] 0 0) 8 50 50
     \<lparr>rx_seq_acked := 7, state := TCPIP_TCP_SOCK_STATE_CLOSING, loc_link := TCPIP_TCP_LINK_STATE_CLOSING,
      rem_link := TCPIP_TCP_LINK_STATE_CLOSING, rx_flags := 17\<rparr>)"
  by (simp add: demo_defs)

text \<open>
  The answer to a request to connect is believed before its acknowledgement number is checked: with a
  wrong number the segment is refused, but the connection counts as established.
\<close>

lemma Tcp_bad_synack_establishes:
  assumes "state s = TCPIP_TCP_SOCK_STATE_CONNECT" "seg_matches g s"
    and "seg_flags g = TCPIP_TCP_FLAGS_SYN OR TCPIP_TCP_FLAGS_ACK" "seg_ack g - rnd > tx_seq_end s - rnd"
  shows "\<exists>s'. TCPIPTcpSock_ProcessIncoming now rnd g s = Inr (EFATAL, s') \<and>
    state s' = TCPIP_TCP_SOCK_STATE_ESTABLISHED"
  using assms by (simp add: TCPIPTcpSock_ProcessIncoming_def in_rst_def in_syn_def in_ack_def tcp_flag_defs Let_def)
end
