(* ===== verification/Net_Stack.thy ===== *)
theory Net_Stack
  imports Net_Checksum Net_Arp_Table Net_Udp Net_Tcp
begin

text \<open>
  The layers of the stack between the network interface and the sockets: \<^verbatim>\<open>rxtx.c\<close>, \<^verbatim>\<open>eth.c\<close>,
  \<^verbatim>\<open>arp.c\<close>, \<^verbatim>\<open>ip.c\<close>, \<^verbatim>\<open>icmp.c\<close>, \<^verbatim>\<open>udp.c\<close>, \<^verbatim>\<open>tcp.c\<close> and \<^verbatim>\<open>tcpip.c\<close> of \<^verbatim>\<open>net/tcpip/src\<close>, and
  \<open>TCPIPUdpSock_SendTo\<close>.

  Frames are bytes in buffers: a frame descriptor holds offsets into the receive buffer (for incoming
  frames) or into a transmission buffer (for outgoing ones); every header field is read and written at
  its place in the buffer. The calls that yield run the other tasks, a function \<open>env\<close> on the whole state of the
  stack; \<open>n_yields\<close> counts the calls of \<open>Yield\<close> so far, and \<open>fuel\<close> bounds them in each waiting loop: \<open>None\<close>
  means still waiting.
\<close>

section \<open>State\<close>

record tx_buf =
  tb_size :: u32
  tb_allocated :: bool
  tb_buf :: bytes

record net_st =
  n_now :: u32
  n_cancelled :: bool
  n_yields :: nat
  n_tx :: "tx_buf list"
  n_arp :: "arp_entry list"
  n_conf :: ip_conf
  n_udp :: "udp_sock list"
  n_tcp :: "tcp_sock list"
  echo_seqno :: u16
  echo_id :: u16
  echo_ackno :: u16

text \<open>The frame descriptor; \<open>fr_net\<close> and \<open>fr_trn\<close> are the unions of the network and the transport
  layer. A pointer that was never set is null, \<open>None\<close>.\<close>

record frame =
  fr_flags :: u32
  fr_ptr :: nat
  fr_size :: u32
  fr_bufid :: nat
  fr_eth :: "nat option"
  fr_net :: "nat option"
  fr_trn :: "nat option"

definition TCPIP_FRAME_FLAGS_ETH :: u32 where "TCPIP_FRAME_FLAGS_ETH = 1"
definition TCPIP_FRAME_FLAGS_IP :: u32 where "TCPIP_FRAME_FLAGS_IP = 2"
definition TCPIP_FRAME_FLAGS_ARP :: u32 where "TCPIP_FRAME_FLAGS_ARP = 4"
definition TCPIP_FRAME_FLAGS_ICMP :: u32 where "TCPIP_FRAME_FLAGS_ICMP = 4"
definition TCPIP_FRAME_FLAGS_TCP :: u32 where "TCPIP_FRAME_FLAGS_TCP = 8"
definition TCPIP_FRAME_FLAGS_UDP :: u32 where "TCPIP_FRAME_FLAGS_UDP = 16"

definition TCPIP_ARP_ATTEMPTS :: nat where "TCPIP_ARP_ATTEMPTS = 5"

section \<open>Computations that may yield\<close>

type_synonym 'a net_m = "net_st \<Rightarrow> (fault + 'a \<times> net_st) option"

definition nret :: "'a \<Rightarrow> 'a net_m" where
  "nret x = (\<lambda>s. Some (Inr (x, s)))"

definition nfail :: "fault \<Rightarrow> 'a net_m" where
  "nfail e = (\<lambda>s. Some (Inl e))"

definition nbind :: "'a net_m \<Rightarrow> ('a \<Rightarrow> 'b net_m) \<Rightarrow> 'b net_m" where
  "nbind m f = (\<lambda>s. case m s of
     None \<Rightarrow> None | Some (Inl e) \<Rightarrow> Some (Inl e) | Some (Inr (x, s')) \<Rightarrow> f x s')"

definition nread :: "(net_st \<Rightarrow> 'a) \<Rightarrow> 'a net_m" where
  "nread f = (\<lambda>s. Some (Inr (f s, s)))"

definition nupd :: "(net_st \<Rightarrow> net_st) \<Rightarrow> unit net_m" where
  "nupd f = (\<lambda>s. Some (Inr ((), f s)))"

text \<open>A pure operation that may fail, with a result and a new state.\<close>

definition ntry :: "(net_st \<Rightarrow> fault + 'a \<times> net_st) \<Rightarrow> 'a net_m" where
  "ntry f = (\<lambda>s. Some (f s))"

definition do_yield :: "(nat \<Rightarrow> net_st \<Rightarrow> net_st) \<Rightarrow> net_st \<Rightarrow> net_st" where
  "do_yield env s = (env (n_yields s) s)\<lparr>n_yields := Suc (n_yields s)\<rparr>"

text \<open>A change of the bytes from offset \<open>off\<close> on in transmission buffer \<open>i\<close>.\<close>

definition tx_bytes :: "nat \<Rightarrow> nat \<Rightarrow> net_st \<Rightarrow> bytes" where
  "tx_bytes i off s = drop off (tb_buf (n_tx s ! i))"

definition tx_set :: "nat \<Rightarrow> nat \<Rightarrow> bytes \<Rightarrow> net_st \<Rightarrow> net_st" where
  "tx_set i off bs s =
     s\<lparr>n_tx := (n_tx s)[i := (n_tx s ! i)\<lparr>tb_buf := take off (tb_buf (n_tx s ! i)) @ bs\<rparr>]\<rparr>"

definition tx_edit :: "nat \<Rightarrow> nat \<Rightarrow> (bytes \<Rightarrow> fault + bytes) \<Rightarrow> unit net_m" where
  "tx_edit i off f = ntry (\<lambda>s. bind_res (f (tx_bytes i off s)) (\<lambda>bs. Inr ((), tx_set i off bs s)))"

text \<open>\<open>Sleep\<close> on the state of the stack.\<close>

fun net_sleep :: "nat \<Rightarrow> (nat \<Rightarrow> net_st \<Rightarrow> net_st) \<Rightarrow> u32 \<Rightarrow> u32 \<Rightarrow> err_t net_m" where
  "net_sleep 0 env period ts s =
     (if word_of_int (dtime (n_now s) ts) < period
      then if n_cancelled s then Some (Inr (ECANCEL, s)) else None
      else Some (Inr (EOK, s)))"
| "net_sleep (Suc fuel) env period ts s =
     (if word_of_int (dtime (n_now s) ts) < period
      then if n_cancelled s then Some (Inr (ECANCEL, s)) else net_sleep fuel env period ts (do_yield env s)
      else Some (Inr (EOK, s)))"

section \<open>Buffers\<close>

text \<open>The index of the first buffer that is not allocated, or the number of buffers.\<close>

fun free_buf :: "tx_buf list \<Rightarrow> nat" where
  "free_buf [] = 0"
| "free_buf (t # ts) = (if tb_allocated t then Suc (free_buf ts) else 0)"

text \<open>The loop yields after every search, also after the one that finds a buffer.\<close>

fun alloc_loop :: "nat \<Rightarrow> (nat \<Rightarrow> net_st \<Rightarrow> net_st) \<Rightarrow> nat net_m" where
  "alloc_loop 0 env s = None"
| "alloc_loop (Suc fuel) env s =
     (let t = free_buf (n_tx s); s' = do_yield env s in
      if t = length (n_tx s) then alloc_loop fuel env s' else Some (Inr (t, s')))"

definition TCPIPRxTx_Alloc :: "nat \<Rightarrow> (nat \<Rightarrow> net_st \<Rightarrow> net_st) \<Rightarrow> (err_t \<times> frame) net_m" where
  "TCPIPRxTx_Alloc fuel env =
     nbind (alloc_loop fuel env) (\<lambda>t.
     nbind (nupd (\<lambda>s. s\<lparr>n_tx := (n_tx s)[t := (n_tx s ! t)\<lparr>tb_allocated := True\<rparr>]\<rparr>)) (\<lambda>_.
     nret (EOK, \<lparr>fr_flags = 0, fr_ptr = 0, fr_size = of_nat TCPIP_RXTX_BUF_SIZE, fr_bufid = t,
                 fr_eth = None, fr_net = None, fr_trn = None\<rparr>)))"

definition TCPIPRxTx_Drop :: "frame \<Rightarrow> err_t net_m" where
  "TCPIPRxTx_Drop fr =
     nbind (nupd (\<lambda>s. s\<lparr>n_tx := (n_tx s)[fr_bufid fr :=
       (n_tx s ! fr_bufid fr)\<lparr>tb_size := 0, tb_allocated := False\<rparr>]\<rparr>)) (\<lambda>_. nret EOK)"

definition TCPIPRxTx_Send :: "frame \<Rightarrow> err_t net_m" where
  "TCPIPRxTx_Send fr =
     nbind (nupd (\<lambda>s. s\<lparr>n_tx := (n_tx s)[fr_bufid fr :=
       (n_tx s ! fr_bufid fr)\<lparr>tb_size := fr_size fr\<rparr>]\<rparr>)) (\<lambda>_. nret EOK)"

text \<open>
  One pass of the transmission task over the buffers: the frames handed to the interface.
  \<open>during i\<close> is what the other tasks do while the interface sends buffer \<open>i\<close>.
\<close>

fun TCPIPRxTx_TxTask_pass ::
  "(nat \<Rightarrow> net_st \<Rightarrow> net_st) \<Rightarrow> nat list \<Rightarrow> net_st \<Rightarrow> bytes list \<times> net_st" where
  "TCPIPRxTx_TxTask_pass during [] s = ([], s)"
| "TCPIPRxTx_TxTask_pass during (i # is) s =
     (let t = n_tx s ! i in
      if \<not> tb_allocated t \<or> tb_size t = 0 then TCPIPRxTx_TxTask_pass during is s
      else
        let s = during i s;
            s = s\<lparr>n_tx := (n_tx s)[i := (n_tx s ! i)\<lparr>tb_size := 0, tb_allocated := False\<rparr>]\<rparr>;
            (out, s) = TCPIPRxTx_TxTask_pass during is s
        in (take (unat (tb_size t)) (tb_buf t) # out, s))"

section \<open>Ethernet\<close>

definition opt :: "'a option \<Rightarrow> 'a net_m" where
  "opt p = (case p of None \<Rightarrow> nfail NullDeref | Some x \<Rightarrow> nret x)"

definition TCPIPEth_Alloc :: "nat \<Rightarrow> (nat \<Rightarrow> net_st \<Rightarrow> net_st) \<Rightarrow> (err_t \<times> frame) net_m" where
  "TCPIPEth_Alloc fuel env =
     nbind (TCPIPRxTx_Alloc fuel env) (\<lambda>(ec, fr).
       if ec \<noteq> EOK then nret (ec, fr)
       else nret (EOK, fr\<lparr>fr_flags := fr_flags fr OR TCPIP_FRAME_FLAGS_ETH, fr_eth := Some (fr_ptr fr),
                          fr_ptr := fr_ptr fr + 14\<rparr>))"

definition TCPIPEth_Drop :: "frame \<Rightarrow> err_t net_m" where
  "TCPIPEth_Drop fr = TCPIPRxTx_Drop fr"

definition eth_header :: "bytes \<Rightarrow> u16 \<Rightarrow> bytes \<Rightarrow> bytes" where
  "eth_header da ethtype eth =
     TCPIPEthFrame_SetEthType (TCPIPEthFrame_SetSA (TCPIPEthFrame_SetDA eth da) TCPIPEthAddr_GetMAC) ethtype"

definition TCPIPEth_Send :: "frame \<Rightarrow> bytes \<Rightarrow> u16 \<Rightarrow> err_t net_m" where
  "TCPIPEth_Send fr da ethtype =
     nbind (opt (fr_eth fr)) (\<lambda>eth.
     nbind (tx_edit (fr_bufid fr) eth (\<lambda>b. Inr (eth_header da ethtype b))) (\<lambda>_.
     TCPIPRxTx_Send (fr\<lparr>fr_flags := fr_flags fr OR TCPIP_FRAME_FLAGS_ETH, fr_ptr := eth,
                        fr_size := fr_size fr + 14\<rparr>)))"

section \<open>Address resolution\<close>

definition arp_header :: "u16 \<Rightarrow> bytes \<Rightarrow> u32 \<Rightarrow> bytes \<Rightarrow> u32 \<Rightarrow> bytes \<Rightarrow> bytes" where
  "arp_header oper sha spa tha tpa arp =
     (let arp = TCPIPArpFrame_SetOper arp oper;
          arp = TCPIPArpFrame_SetHLen arp 6;
          arp = TCPIPArpFrame_SetPLen arp 4;
          arp = TCPIPArpFrame_SetHType arp TCPIP_ARP_HTYPE_ETHERNET;
          arp = TCPIPArpFrame_SetPType arp TCPIP_ARP_PTYPE_IP;
          p = drop 8 arp;
          p = TCPIPArpFrameETHIP_SetSHA p sha;
          p = TCPIPArpFrameETHIP_SetTHA p tha;
          p = TCPIPArpFrameETHIP_SetSPA p spa;
          p = TCPIPArpFrameETHIP_SetTPA p tpa
      in take 8 arp @ p)"

definition TCPIPArp_SendFrame ::
  "nat \<Rightarrow> (nat \<Rightarrow> net_st \<Rightarrow> net_st) \<Rightarrow> bytes \<Rightarrow> u16 \<Rightarrow> bytes \<Rightarrow> u32 \<Rightarrow> bytes \<Rightarrow> u32 \<Rightarrow> err_t net_m" where
  "TCPIPArp_SendFrame fuel env eth_da oper sha spa tha tpa =
     nbind (TCPIPEth_Alloc fuel env) (\<lambda>(ec, fr).
       if ec \<noteq> EOK then nret ec
       else
         let fr = fr\<lparr>fr_flags := fr_flags fr OR TCPIP_FRAME_FLAGS_ARP, fr_net := Some (fr_ptr fr)\<rparr> in
         nbind (tx_edit (fr_bufid fr) (fr_ptr fr) (\<lambda>b. Inr (arp_header oper sha spa tha tpa b))) (\<lambda>_.
         TCPIPEth_Send (fr\<lparr>fr_size := 8 + 20\<rparr>) eth_da TCPIP_ETH_ETHTYPE_ARP))"

definition arp_usable :: "bytes \<Rightarrow> bool" where
  "arp_usable arp \<longleftrightarrow>
     \<not> (TCPIPArpFrame_GetHType arp \<noteq> TCPIP_ARP_HTYPE_ETHERNET \<or> TCPIPArpFrame_GetPType arp \<noteq> TCPIP_ARP_PTYPE_IP) \<and>
     \<not> (TCPIPArpFrame_GetHLen arp \<noteq> 6 \<or> TCPIPArpFrame_GetPLen arp \<noteq> 4)"

definition arp_update :: "bytes \<Rightarrow> u32 \<Rightarrow> err_t net_m" where
  "arp_update ha pa = ntry (\<lambda>s. bind_res (TCPIPArpTable_UpdateTable ha pa (n_now s) (n_arp s))
     (\<lambda>(ec, tbl). Inr (ec, s\<lparr>n_arp := tbl\<rparr>)))"

definition TCPIPArp_ProcessRequest ::
  "nat \<Rightarrow> (nat \<Rightarrow> net_st \<Rightarrow> net_st) \<Rightarrow> bytes \<Rightarrow> bytes \<Rightarrow> err_t net_m" where
  "TCPIPArp_ProcessRequest fuel env eth arp =
     (if \<not> arp_usable arp then nret EUNKPROT
      else
        let p = drop 8 arp; spa = TCPIPArpFrameETHIP_GetSPA p; tpa = TCPIPArpFrameETHIP_GetTPA p in
        nbind (nread (\<lambda>s. TCPIPIpAddr_GetIP (n_conf s))) (\<lambda>ip.
        if \<not> TCPIPIpAddr_AddressMatch tpa ip then nret EOK
        else
          let sha = TCPIPArpFrameETHIP_GetSHA p; sa = TCPIPEthFrame_GetSA eth in
          nbind (arp_update sha spa) (\<lambda>_.
          nbind (nread (\<lambda>s. TCPIPIpAddr_GetIP (n_conf s))) (\<lambda>ip.
          nbind (TCPIPArp_SendFrame fuel env sa TCPIP_ARP_OPER_REPLY TCPIPEthAddr_GetMAC ip sha spa) (\<lambda>_.
          nret EOK)))))"

definition TCPIPArp_ProcessReply :: "bytes \<Rightarrow> err_t net_m" where
  "TCPIPArp_ProcessReply arp =
     (if \<not> arp_usable arp then nret EUNKPROT
      else
        let p = drop 8 arp; spa = TCPIPArpFrameETHIP_GetSPA p; tpa = TCPIPArpFrameETHIP_GetTPA p;
            sha = TCPIPArpFrameETHIP_GetSHA p; tha = TCPIPArpFrameETHIP_GetTHA p in
        nbind (nread n_conf) (\<lambda>conf.
        if \<not> TCPIPIpAddr_IsMatchingUnicast conf tpa \<or> \<not> TCPIPEthAddr_IsMatchingUnicast tha then nret EOK
        else nbind (arp_update sha spa) (\<lambda>_. nret EOK)))"

definition TCPIPArp_Reset :: "err_t net_m" where
  "TCPIPArp_Reset = ntry (\<lambda>s. let (ec, tbl) = TCPIPArpTable_ResetTable (n_arp s) in Inr (ec, s\<lparr>n_arp := tbl\<rparr>))"

text \<open>The input routines of the layers take the receive buffer \<open>rx\<close> and the frame descriptor.\<close>

definition TCPIPArp_Input ::
  "nat \<Rightarrow> (nat \<Rightarrow> net_st \<Rightarrow> net_st) \<Rightarrow> bytes \<Rightarrow> frame \<Rightarrow> (err_t \<times> frame) net_m" where
  "TCPIPArp_Input fuel env rx fr =
     (let fr = fr\<lparr>fr_net := Some (fr_ptr fr), fr_flags := fr_flags fr OR TCPIP_FRAME_FLAGS_ARP\<rparr>;
          arp = drop (fr_ptr fr) rx; oper = TCPIPArpFrame_GetOper arp in
      nbind (opt (fr_eth fr)) (\<lambda>eth.
      nbind (if oper = TCPIP_ARP_OPER_REQUEST then TCPIPArp_ProcessRequest fuel env (drop eth rx) arp
             else if oper = TCPIP_ARP_OPER_REPLY then TCPIPArp_ProcessReply arp
             else nret EUNKREQ) (\<lambda>rc. nret (rc, fr))))"

definition arp_lookup :: "u32 \<Rightarrow> (err_t \<times> bytes option) net_m" where
  "arp_lookup pa = ntry (\<lambda>s. case TCPIPArpTable_GetHWAddr pa (n_now s) (n_arp s) of
     (ec, ha, tbl) \<Rightarrow> Inr ((ec, ha), s\<lparr>n_arp := tbl\<rparr>))"

fun arp_attempts ::
  "nat \<Rightarrow> nat \<Rightarrow> (nat \<Rightarrow> net_st \<Rightarrow> net_st) \<Rightarrow> u32 \<Rightarrow> (err_t \<times> bytes option) net_m" where
  "arp_attempts 0 fuel env pa = nret (EUNKADDR, None)"
| "arp_attempts (Suc i) fuel env pa =
     nbind (arp_lookup pa) (\<lambda>(ec, ha).
       if ec = EOK then nret (EOK, ha)
       else
         nbind (nread (\<lambda>s. TCPIPIpAddr_GetIP (n_conf s))) (\<lambda>ip.
         nbind (TCPIPArp_SendFrame fuel env TCPIP_ETH_ADDR_BCAST TCPIP_ARP_OPER_REQUEST TCPIPEthAddr_GetMAC ip
                  TCPIP_ETH_ADDR_BCAST pa) (\<lambda>_.
         nbind (nread n_now) (\<lambda>ts.
         nbind (net_sleep fuel env 300 ts) (\<lambda>_.
         arp_attempts i fuel env pa)))))"

definition TCPIPArp_GetHWAddr ::
  "nat \<Rightarrow> (nat \<Rightarrow> net_st \<Rightarrow> net_st) \<Rightarrow> u32 \<Rightarrow> (err_t \<times> bytes option) net_m" where
  "TCPIPArp_GetHWAddr fuel env pa =
     nbind (nread n_conf) (\<lambda>conf.
       if TCPIPIpAddr_IsMatchingAny pa \<or> TCPIPIpAddr_IsMatchingBroadcast conf pa
       then nret (EOK, Some TCPIP_ETH_ADDR_BCAST)
       else arp_attempts TCPIP_ARP_ATTEMPTS fuel env pa)"


section \<open>Internet protocol: sending\<close>

definition TCPIPIp_Alloc :: "nat \<Rightarrow> (nat \<Rightarrow> net_st \<Rightarrow> net_st) \<Rightarrow> (err_t \<times> frame) net_m" where
  "TCPIPIp_Alloc fuel env =
     nbind (TCPIPEth_Alloc fuel env) (\<lambda>(ec, fr).
       if ec \<noteq> EOK then nret (ec, fr)
       else nret (EOK, fr\<lparr>fr_flags := fr_flags fr OR TCPIP_FRAME_FLAGS_IP, fr_net := Some (fr_ptr fr),
                          fr_ptr := fr_ptr fr + 20\<rparr>))"

definition TCPIPIp_Drop :: "frame \<Rightarrow> err_t net_m" where
  "TCPIPIp_Drop fr = TCPIPEth_Drop fr"

definition ip_header :: "u32 \<Rightarrow> u32 \<Rightarrow> u8 \<Rightarrow> u32 \<Rightarrow> bytes \<Rightarrow> bytes" where
  "ip_header src_addr dst_addr proto bsz ip =
     (let ip = TCPIPIpFrame_SetHdrLen ip 20;
          ip = TCPIPIpFrame_SetVersion ip 4;
          ip = TCPIPIpFrame_SetSrcAddr ip src_addr;
          ip = TCPIPIpFrame_SetDstAddr ip dst_addr;
          ip = TCPIPIpFrame_SetProtocol ip proto;
          ip = TCPIPIpFrame_SetTTL ip 255;
          ip = TCPIPIpFrame_SetLength ip (ucast (bsz + 20));
          ip = TCPIPIpFrame_SetTos ip 0;
          ip = TCPIPIpFrame_SetIdentification ip 0;
          ip = TCPIPIpFrame_SetFlags ip 0
      in TCPIPIpFrame_SetFragmentOffset ip 0)"

definition mcast_eth :: "u32 \<Rightarrow> bytes" where
  "mcast_eth a = [0x01, 0x00, 0x5E, le_bytes32 a ! 2, le_bytes32 a ! 1, le_bytes32 a ! 0]"

text \<open>The transport checksum, which needs the finished IP header.\<close>

definition trn_checksum :: "u8 \<Rightarrow> nat \<Rightarrow> nat \<Rightarrow> nat option \<Rightarrow> unit net_m" where
  "trn_checksum proto i ipo trn =
     (if proto = TCPIP_IP_PROTOCOL_TCP then
        nbind (opt trn) (\<lambda>o_tcp. nbind (nread (tx_bytes i ipo)) (\<lambda>ip.
          tx_edit i o_tcp (TCPIPTcpChecksum_Set ip)))
      else if proto = TCPIP_IP_PROTOCOL_UDP then
        nbind (opt trn) (\<lambda>o_udp. nbind (nread (tx_bytes i ipo)) (\<lambda>ip.
          tx_edit i o_udp (TCPIPUdpChecksum_Set ip)))
      else nret ())"

definition TCPIPIp_Send ::
  "nat \<Rightarrow> (nat \<Rightarrow> net_st \<Rightarrow> net_st) \<Rightarrow> frame \<Rightarrow> u32 \<Rightarrow> u8 \<Rightarrow> err_t net_m" where
  "TCPIPIp_Send fuel env fr dst_addr proto =
     nbind (opt (fr_eth fr)) (\<lambda>eth.
     let ipo = eth + 14; i = fr_bufid fr;
         out = (\<lambda>eth_da. TCPIPEth_Send (fr\<lparr>fr_ptr := ipo, fr_size := fr_size fr + 20\<rparr>) eth_da TCPIP_ETH_ETHTYPE_IP)
     in
     nbind (nread (\<lambda>s. TCPIPIpAddr_GetIP (n_conf s))) (\<lambda>src_addr.
     nbind (tx_edit i ipo (\<lambda>b. TCPIPIpChecksum_Set (ip_header src_addr dst_addr proto (fr_size fr) b))) (\<lambda>_.
     nbind (trn_checksum proto i ipo (fr_trn fr)) (\<lambda>_.
     nbind (nread n_conf) (\<lambda>conf.
     if TCPIPIpAddr_IsMatchingBroadcast conf dst_addr then out TCPIP_ETH_ADDR_BCAST
     else if TCPIPIpAddr_IsMatchingMulticast dst_addr then out (mcast_eth dst_addr)
     else
       nbind (TCPIPArp_GetHWAddr fuel env
           (if TCPIPIpAddr_IsWithinSubnet conf dst_addr then dst_addr else TCPIPIpAddr_GetGatewayIP conf)) (\<lambda>(ec, ha).
       if ec \<noteq> EOK then nbind (TCPIPIp_Drop fr) (\<lambda>_. nret ec)
       else nbind (opt ha) out))))))"

section \<open>Control messages: sending\<close>

definition icmp_echo_header :: "u8 \<Rightarrow> u16 \<Rightarrow> u16 \<Rightarrow> bytes \<Rightarrow> bytes" where
  "icmp_echo_header ty ident seqno icmp =
     (let icmp = TCPIPIcmpFrame_SetType icmp ty;
          icmp = TCPIPIcmpFrame_SetCode icmp 0;
          echo = drop 4 icmp;
          echo = TCPIPIcmpFrameEcho_SetID echo ident;
          echo = TCPIPIcmpFrameEcho_SetSeqNo echo seqno
      in take 4 icmp @ echo)"

definition TCPIPIcmp_SendEcho ::
  "nat \<Rightarrow> (nat \<Rightarrow> net_st \<Rightarrow> net_st) \<Rightarrow> u32 \<Rightarrow> u8 \<Rightarrow> u16 \<Rightarrow> u16 \<Rightarrow> bytes \<Rightarrow> u32 \<Rightarrow> err_t net_m" where
  "TCPIPIcmp_SendEcho fuel env da ty ident seqno data data_size =
     nbind (TCPIPIp_Alloc fuel env) (\<lambda>(ec, fr).
       if ec \<noteq> EOK then nret ec
       else
         let i = fr_bufid fr; icmp = fr_ptr fr; tot_size = data_size + 4 + 4;
             fr = fr\<lparr>fr_flags := fr_flags fr OR TCPIP_FRAME_FLAGS_ICMP, fr_trn := Some icmp\<rparr> in
         nbind (tx_edit i icmp (\<lambda>b. Inr (icmp_echo_header ty ident seqno b))) (\<lambda>_.
         nbind (tx_edit i icmp (\<lambda>b. bind_res (mem_read data 0 (unat data_size)) (\<lambda>d. mem_write b 8 d))) (\<lambda>_.
         nbind (tx_edit i icmp (\<lambda>b. TCPIPIcmpChecksum_Set b tot_size)) (\<lambda>_.
         TCPIPIp_Send fuel env (fr\<lparr>fr_size := tot_size\<rparr>) da TCPIP_IP_PROTOCOL_ICMP))))"

section \<open>Control messages: receiving\<close>

definition TCPIPIcmp_ProcessEchoRequest ::
  "nat \<Rightarrow> (nat \<Rightarrow> net_st \<Rightarrow> net_st) \<Rightarrow> bytes \<Rightarrow> frame \<Rightarrow> err_t net_m" where
  "TCPIPIcmp_ProcessEchoRequest fuel env rx fr =
     nbind (opt (fr_trn fr)) (\<lambda>icmp.
     nbind (opt (fr_net fr)) (\<lambda>ip.
     let echo = drop (icmp + 4) rx;
         ident = TCPIPIcmpFrameEcho_GetID echo; seqno = TCPIPIcmpFrameEcho_GetSeqNo echo;
         sa = TCPIPIpFrame_GetSrcAddr (drop ip rx); data_size = fr_size fr - 4 - 4
     in TCPIPIcmp_SendEcho fuel env sa TCPIP_ICMP_TYPE_ECHO_REPLY ident seqno (drop (icmp + 8) rx) data_size))"

definition TCPIPIcmp_ProcessEchoResponse :: "bytes \<Rightarrow> frame \<Rightarrow> err_t net_m" where
  "TCPIPIcmp_ProcessEchoResponse rx fr =
     nbind (opt (fr_trn fr)) (\<lambda>icmp.
     nbind (opt (fr_net fr)) (\<lambda>ip.
     let echo = drop (icmp + 4) rx; da = TCPIPIpFrame_GetSrcAddr (drop ip rx);
         ident = TCPIPIcmpFrameEcho_GetID echo; seqno = TCPIPIcmpFrameEcho_GetSeqNo echo in
     nbind (nupd (\<lambda>s. if TCPIPIpAddr_IsMatchingUnicast (n_conf s) da \<and> echo_id s = ident \<and> echo_ackno s \<noteq> 0
                      then s\<lparr>echo_ackno := seqno\<rparr> else s)) (\<lambda>_. nret EOK)))"

text \<open>The header pointer is read from the descriptor before it is set: the checksum and the type are
  those at the transport header of the frame before.\<close>

definition TCPIPIcmp_Input ::
  "nat \<Rightarrow> (nat \<Rightarrow> net_st \<Rightarrow> net_st) \<Rightarrow> bytes \<Rightarrow> frame \<Rightarrow> (err_t \<times> frame) net_m" where
  "TCPIPIcmp_Input fuel env rx fr =
     (let fr' = fr\<lparr>fr_trn := Some (fr_ptr fr)\<rparr> in
      nbind (opt (fr_trn fr)) (\<lambda>icmp.
      nbind (ntry (\<lambda>s. bind_res (TCPIPIcmpChecksum_IsValid (drop icmp rx) (fr_size fr)) (\<lambda>v. Inr (v, s)))) (\<lambda>valid.
      if \<not> valid then nret (EFATAL, fr')
      else
        let fr' = fr'\<lparr>fr_flags := fr_flags fr' OR TCPIP_FRAME_FLAGS_ICMP\<rparr>;
            t = TCPIPIcmpFrame_GetType (drop icmp rx) in
        nbind (if t = TCPIP_ICMP_TYPE_ECHO_REQUEST then TCPIPIcmp_ProcessEchoRequest fuel env rx fr'
               else if t = TCPIP_ICMP_TYPE_ECHO_REPLY then TCPIPIcmp_ProcessEchoResponse rx fr'
               else nret 0) (\<lambda>ec. nret (ec, fr')))))"

text \<open>\<open>TCPIPIcmp_Ping\<close>: the lock on the echo mechanism, and the wait for the answer.\<close>

fun ping_lock :: "nat \<Rightarrow> (nat \<Rightarrow> net_st \<Rightarrow> net_st) \<Rightarrow> unit net_m" where
  "ping_lock 0 env s = (if echo_ackno s \<noteq> 0 then None else Some (Inr ((), s)))"
| "ping_lock (Suc fuel) env s =
     (if echo_ackno s \<noteq> 0 then ping_lock fuel env (do_yield env s) else Some (Inr ((), s)))"

fun ping_wait :: "nat \<Rightarrow> (nat \<Rightarrow> net_st \<Rightarrow> net_st) \<Rightarrow> int \<Rightarrow> u32 \<Rightarrow> err_t \<Rightarrow> err_t net_m" where
  "ping_wait 0 env timeout ts ec s =
     (if echo_ackno s \<noteq> echo_seqno s
      then if timeout \<noteq> 0 \<and> dtime (n_now s) ts \<ge> timeout then Some (Inr (EUNREACHABLE, s)) else None
      else Some (Inr (ec, s)))"
| "ping_wait (Suc fuel) env timeout ts ec s =
     (if echo_ackno s \<noteq> echo_seqno s
      then if timeout \<noteq> 0 \<and> dtime (n_now s) ts \<ge> timeout then Some (Inr (EUNREACHABLE, s))
           else ping_wait fuel env timeout ts ec (do_yield env s)
      else Some (Inr (ec, s)))"

definition TCPIPIcmp_Ping ::
  "nat \<Rightarrow> (nat \<Rightarrow> net_st \<Rightarrow> net_st) \<Rightarrow> u32 \<Rightarrow> int \<Rightarrow> err_t net_m" where
  "TCPIPIcmp_Ping fuel env da timeout =
     nbind (nread n_now) (\<lambda>ts.
     nbind (ping_lock fuel env) (\<lambda>_.
     nbind (nupd (\<lambda>s. s\<lparr>echo_ackno := 0xffff,
              echo_seqno := (if echo_seqno s + 1 = 0 then 1 else echo_seqno s + 1), echo_id := 1\<rparr>)) (\<lambda>_.
     nbind (nread echo_seqno) (\<lambda>seqno.
     nbind (TCPIPIcmp_SendEcho fuel env da TCPIP_ICMP_TYPE_ECHO_REQUEST 1 seqno [] 0) (\<lambda>ec.
     let ec = (if ec > EOK then EOK else ec) in
     nbind (if ec < EOK then nret ec else ping_wait fuel env timeout ts ec) (\<lambda>ec.
     nbind (nupd (\<lambda>s. s\<lparr>echo_ackno := 0\<rparr>)) (\<lambda>_. nret ec)))))))"

section \<open>User datagrams\<close>

definition TCPIPUdp_Input :: "bytes \<Rightarrow> frame \<Rightarrow> (err_t \<times> frame) net_m" where
  "TCPIPUdp_Input rx fr =
     (let udp = fr_ptr fr;
          fr' = fr\<lparr>fr_trn := Some udp, fr_ptr := udp + 8,
                   fr_size := ucast (TCPIPUdpFrame_GetLength (drop udp rx)) - 8,
                   fr_flags := fr_flags fr OR TCPIP_FRAME_FLAGS_UDP\<rparr> in
      nbind (opt (fr_net fr)) (\<lambda>ip.
      nbind (ntry (\<lambda>s. bind_res
               (TCPIPUdpSock_Input (dgram_of (drop ip rx) (drop udp rx) (fr_size fr') (drop (fr_ptr fr') rx)) (n_udp s))
               (\<lambda>(ec, ss). Inr (ec, s\<lparr>n_udp := ss\<rparr>)))) (\<lambda>ec. nret (ec, fr'))))"

definition TCPIPUdp_Alloc :: "nat \<Rightarrow> (nat \<Rightarrow> net_st \<Rightarrow> net_st) \<Rightarrow> (err_t \<times> frame) net_m" where
  "TCPIPUdp_Alloc fuel env =
     nbind (TCPIPIp_Alloc fuel env) (\<lambda>(ec, fr).
       if ec \<noteq> EOK then nret (ec, fr)
       else nret (EOK, fr\<lparr>fr_flags := fr_flags fr OR TCPIP_FRAME_FLAGS_UDP, fr_trn := Some (fr_ptr fr),
                          fr_ptr := fr_ptr fr + 8\<rparr>))"

definition TCPIPUdp_Drop :: "frame \<Rightarrow> err_t net_m" where
  "TCPIPUdp_Drop fr = TCPIPIp_Drop fr"

definition udp_header :: "u16 \<Rightarrow> u16 \<Rightarrow> u32 \<Rightarrow> bytes \<Rightarrow> bytes" where
  "udp_header src_port dst_port bsz udp =
     TCPIPUdpFrame_SetLength (TCPIPUdpFrame_SetDstPort (TCPIPUdpFrame_SetSrcPort udp src_port) dst_port)
       (ucast (bsz + 8))"

definition TCPIPUdp_Send ::
  "nat \<Rightarrow> (nat \<Rightarrow> net_st \<Rightarrow> net_st) \<Rightarrow> frame \<Rightarrow> u32 \<Rightarrow> u16 \<Rightarrow> u16 \<Rightarrow> err_t net_m" where
  "TCPIPUdp_Send fuel env fr dst_addr src_port dst_port =
     nbind (opt (fr_trn fr)) (\<lambda>udp.
     nbind (tx_edit (fr_bufid fr) udp (\<lambda>b. Inr (udp_header src_port dst_port (fr_size fr) b))) (\<lambda>_.
     TCPIPIp_Send fuel env (fr\<lparr>fr_ptr := udp, fr_size := fr_size fr + 8\<rparr>) dst_addr TCPIP_IP_PROTOCOL_UDP))"

definition TCPIPUdpSock_SendTo ::
  "nat \<Rightarrow> (nat \<Rightarrow> net_st \<Rightarrow> net_st) \<Rightarrow> u16 \<Rightarrow> u32 \<Rightarrow> u16 \<Rightarrow> bytes \<Rightarrow> u32 \<Rightarrow> err_t net_m" where
  "TCPIPUdpSock_SendTo fuel env lport addr port ptr bsz =
     nbind (TCPIPUdp_Alloc fuel env) (\<lambda>(ec, fr).
       if ec \<noteq> EOK then nret ec
       else
         nbind (tx_edit (fr_bufid fr) (fr_ptr fr)
                  (\<lambda>b. bind_res (mem_read ptr 0 (unat bsz)) (\<lambda>d. mem_write b 0 d))) (\<lambda>_.
         TCPIPUdp_Send fuel env (fr\<lparr>fr_size := bsz\<rparr>) addr lport port))"

section \<open>Transmission control\<close>

definition TCPIPTcp_Input :: "u32 \<Rightarrow> bytes \<Rightarrow> frame \<Rightarrow> (err_t \<times> frame) net_m" where
  "TCPIPTcp_Input rnd rx fr =
     (let tcp = fr_ptr fr; doffs = TCPIPTcpFrame_GetDataOffs (drop tcp rx);
          fr' = fr\<lparr>fr_trn := Some tcp, fr_ptr := tcp + unat doffs, fr_size := fr_size fr - doffs,
                   fr_flags := fr_flags fr OR TCPIP_FRAME_FLAGS_TCP\<rparr> in
      nbind (opt (fr_net fr)) (\<lambda>ip.
      nbind (ntry (\<lambda>s. bind_res
               (TCPIPTcpSock_Input (n_now s) rnd
                  (seg_of (drop ip rx) (drop tcp rx) (fr_size fr') (drop (fr_ptr fr') rx)) (n_tcp s))
               (\<lambda>(ec, ss). Inr (ec, s\<lparr>n_tcp := ss\<rparr>)))) (\<lambda>ec. nret (ec, fr'))))"

definition TCPIPTcp_Alloc :: "nat \<Rightarrow> (nat \<Rightarrow> net_st \<Rightarrow> net_st) \<Rightarrow> (err_t \<times> frame) net_m" where
  "TCPIPTcp_Alloc fuel env =
     nbind (TCPIPIp_Alloc fuel env) (\<lambda>(ec, fr).
       if ec \<noteq> EOK then nret (ec, fr)
       else nret (EOK, fr\<lparr>fr_flags := fr_flags fr OR TCPIP_FRAME_FLAGS_TCP, fr_trn := Some (fr_ptr fr),
                          fr_ptr := fr_ptr fr + 20\<rparr>))"

definition TCPIPTcp_Drop :: "frame \<Rightarrow> err_t net_m" where
  "TCPIPTcp_Drop fr = TCPIPIp_Drop fr"

definition tcp_header :: "u16 \<Rightarrow> u16 \<Rightarrow> u32 \<Rightarrow> u32 \<Rightarrow> u16 \<Rightarrow> u32 \<Rightarrow> bytes \<Rightarrow> bytes" where
  "tcp_header src_port dst_port seq ack win flags tcp =
     (let tcp = TCPIPTcpFrame_SetFlags tcp flags;
          tcp = TCPIPTcpFrame_SetDataOffs tcp 20;
          tcp = TCPIPTcpFrame_SetDstPort tcp dst_port;
          tcp = TCPIPTcpFrame_SetSrcPort tcp src_port;
          tcp = TCPIPTcpFrame_SetSeq tcp seq;
          tcp = TCPIPTcpFrame_SetAck tcp ack;
          tcp = TCPIPTcpFrame_SetWindow tcp (ucast win)
      in TCPIPTcpFrame_SetUrgentPtr tcp 0)"

definition TCPIPTcp_Send ::
  "nat \<Rightarrow> (nat \<Rightarrow> net_st \<Rightarrow> net_st) \<Rightarrow> frame \<Rightarrow> u32 \<Rightarrow> u16 \<Rightarrow> u16 \<Rightarrow> u32 \<Rightarrow> u32 \<Rightarrow> u16 \<Rightarrow> u32 \<Rightarrow> err_t net_m" where
  "TCPIPTcp_Send fuel env fr dst_addr src_port dst_port seq ack win flags =
     nbind (opt (fr_trn fr)) (\<lambda>tcp.
     nbind (tx_edit (fr_bufid fr) tcp (\<lambda>b. Inr (tcp_header src_port dst_port seq ack win flags b))) (\<lambda>_.
     TCPIPIp_Send fuel env (fr\<lparr>fr_ptr := tcp, fr_size := fr_size fr + 20\<rparr>) dst_addr TCPIP_IP_PROTOCOL_TCP))"

section \<open>Receiving\<close>

text \<open>What the IP layer accepts, and the descriptor it passes on.\<close>

definition ip_accepts :: "ip_conf \<Rightarrow> bytes \<Rightarrow> bool" where
  "ip_accepts conf ip \<longleftrightarrow>
     (let da = TCPIPIpFrame_GetDstAddr ip in
      TCPIPIpAddr_IsMatchingUnicast conf da \<or> TCPIPIpAddr_IsMatchingBroadcast conf da \<or>
      TCPIPIpAddr_IsMatchingMulticast da) \<and>
     \<not> (TCPIPIpFrame_GetFlags ip AND TCPIP_IP_FLAGS_MF \<noteq> 0 \<or> TCPIPIpFrame_GetFragmentOffset ip \<noteq> 0)"

definition TCPIPIp_Input ::
  "nat \<Rightarrow> (nat \<Rightarrow> net_st \<Rightarrow> net_st) \<Rightarrow> u32 \<Rightarrow> bytes \<Rightarrow> frame \<Rightarrow> (err_t \<times> frame) net_m" where
  "TCPIPIp_Input fuel env rnd rx fr =
     (let fr = fr\<lparr>fr_net := Some (fr_ptr fr)\<rparr>; ip = drop (fr_ptr fr) rx in
      nbind (ntry (\<lambda>s. bind_res (TCPIPIpChecksum_IsValid ip) (\<lambda>v. Inr (v, s)))) (\<lambda>valid.
      if \<not> valid then nret (EFATAL, fr)
      else
        let hdr_len = TCPIPIpFrame_GetHdrLen ip; pld_len = ucast (TCPIPIpFrame_GetLength ip) - hdr_len in
        nbind (nread n_conf) (\<lambda>conf.
        if \<not> ip_accepts conf ip then nret (EOK, fr)
        else
          let fr = fr\<lparr>fr_flags := fr_flags fr OR TCPIP_FRAME_FLAGS_IP, fr_size := pld_len,
                      fr_ptr := fr_ptr fr + unat hdr_len\<rparr>;
              proto = TCPIPIpFrame_GetProtocol ip in
          if proto = TCPIP_IP_PROTOCOL_ICMP then TCPIPIcmp_Input fuel env rx fr
          else if proto = TCPIP_IP_PROTOCOL_TCP then TCPIPTcp_Input rnd rx fr
          else if proto = TCPIP_IP_PROTOCOL_UDP then TCPIPUdp_Input rx fr
          else nret (EUNKPROT, fr))))"

definition TCPIPEth_Input ::
  "nat \<Rightarrow> (nat \<Rightarrow> net_st \<Rightarrow> net_st) \<Rightarrow> u32 \<Rightarrow> bytes \<Rightarrow> frame \<Rightarrow> (err_t \<times> frame) net_m" where
  "TCPIPEth_Input fuel env rnd rx fr =
     (let eth = fr_ptr fr;
          fr = fr\<lparr>fr_eth := Some eth, fr_flags := fr_flags fr OR TCPIP_FRAME_FLAGS_ETH,
                  fr_size := fr_size fr - 14, fr_ptr := eth + 14\<rparr>;
          ethtype = TCPIPEthFrame_GetEthType (drop eth rx) in
      if ethtype = TCPIP_ETH_ETHTYPE_IP then TCPIPIp_Input fuel env rnd rx fr
      else if ethtype = TCPIP_ETH_ETHTYPE_ARP then TCPIPArp_Input fuel env rx fr
      else nret (EUNKPROT, fr))"

text \<open>\<open>TCPIP_Reset\<close>; \<open>notify\<close> is the effect of \<open>Ev_Notify\<close> on the state.\<close>

definition TCPIP_Reset :: "(net_st \<Rightarrow> net_st) \<Rightarrow> err_t net_m" where
  "TCPIP_Reset notify =
     nbind TCPIPArp_Reset (\<lambda>_.
     nbind (nupd (\<lambda>s. notify (s\<lparr>n_tcp := snd (TCPIPTcpSock_Reset (n_tcp s))\<rparr>))) (\<lambda>_. nret EOK))"

text \<open>One round of the reception task after \<open>USBEEM_Recv\<close> returned \<open>rx_size\<close> with the buffer \<open>rx\<close>; the
  frame descriptor is a static variable of the task.\<close>

definition TCPIPRxTx_RxTask_round ::
  "nat \<Rightarrow> (nat \<Rightarrow> net_st \<Rightarrow> net_st) \<Rightarrow> u32 \<Rightarrow> (net_st \<Rightarrow> net_st) \<Rightarrow> int \<Rightarrow> bytes \<Rightarrow> frame \<Rightarrow> frame net_m" where
  "TCPIPRxTx_RxTask_round fuel env rnd notify rx_size rx fr =
     (if rx_size > 0 then
        nbind (TCPIPEth_Input fuel env rnd rx
                 (fr\<lparr>fr_flags := 0, fr_bufid := 0, fr_ptr := 0, fr_size := word_of_int rx_size\<rparr>)) (\<lambda>(_, fr). nret fr)
      else if rx_size < 0 then nbind (TCPIP_Reset notify) (\<lambda>_. nret fr)
      else nret fr)"
end
