(* ===== verification/Net_Tcp_Stream.thy ===== *)
theory Net_Tcp_Stream
  imports Net_Tcp
begin

text \<open>
  Two connected sockets of \<^verbatim>\<open>tcp_sock.c\<close> and the network between them: what the application at one
  end writes is what the application at the other end reads, whatever the network loses, repeats or
  reorders, as long as neither side has sent a FIN.
\<close>

section \<open>The effect of a segment on either side\<close>

lemma ProcessIncoming_rx:
  assumes "data_seg g" "TCPIPTcpSock_ProcessIncoming now rnd g r = Inr (ec, r')"
    and "byte_q (rxq r)" "unat (seg_size g) \<le> length (seg_mem g)"
  shows "rxq r' = rxq r \<and> rx_seq_recvd r' = rx_seq_recvd r \<or>
    seg_seq g = rx_seq_recvd r \<and> byte_q (rxq r') \<and>
    (\<exists>n \<le> unat (seg_size g). q_bytes (rxq r') = q_bytes (rxq r) @ take n (seg_mem g) \<and>
      rx_seq_recvd r' = rx_seq_recvd r + of_nat n)"
  using ProcessIncoming_data [OF assms(1,2)]
proof (elim disjE conjE exE)
  fix n
  assume a: "seg_seq g = rx_seq_recvd r" "Queue_Put (rxq r) (seg_mem g) (seg_size g) = Inr (n, rxq r')"
    "rx_seq_recvd r' = rx_seq_recvd r + n"
  then show ?thesis using byte_q_put [OF assms(3,4) a(2)] by (intro disjI2 conjI) (auto intro: exI [of _ "unat n"])
qed simp

lemma ProcessIncoming_tx:
  assumes "data_seg g" "TCPIPTcpSock_ProcessIncoming now rnd g s = Inr (ec, s')"
  shows "tx_seq_end s' = tx_seq_end s \<and>
    (txq s' = txq s \<and> tx_seq_start s' = tx_seq_start s \<or>
     seg_ack g - tx_seq_start s \<le> tx_seq_end s - tx_seq_start s \<and> tx_seq_start s' = seg_ack g \<and>
       txq s' = snd (Queue_Drop (txq s) (seg_ack g - tx_seq_start s)))"
proof (cases "seg_matches g s")
  case True
  note d = data_segD [OF assms(1)]
  have s: "in_syn now rnd g (in_rst g s) = Inr s" using d by (simp add: in_rst_def in_syn_def)
  obtain r where r: "in_ack g s = Inr r"
    using assms(2) True s by (auto simp: TCPIPTcpSock_ProcessIncoming_def bind_res_eq_Inr)
  define x where "x = (case r of Inl x \<Rightarrow> x | Inr x \<Rightarrow> x)"
  have s': "txq s' = txq x \<and> tx_seq_start s' = tx_seq_start x \<and> tx_seq_end s' = tx_seq_end x"
    using assms(2) True s d r by (auto simp: TCPIPTcpSock_ProcessIncoming_def in_fin_def x_def split: sum.splits)
  have "tx_seq_end x = tx_seq_end s \<and>
    (txq x = txq s \<and> tx_seq_start x = tx_seq_start s \<or>
     seg_ack g - tx_seq_start s \<le> tx_seq_end s - tx_seq_start s \<and> tx_seq_start x = seg_ack g \<and>
       txq x = snd (Queue_Drop (txq s) (seg_ack g - tx_seq_start s)))"
    using r unfolding x_def
    by (auto simp: in_ack_def bind_res_eq_Inr in_acked_def Let_def dest!: in_data_fields split: if_splits)
  then show ?thesis using s' by simp
next
  case False
  then show ?thesis using assms(2) by (simp add: TCPIPTcpSock_ProcessIncoming_def)
qed

lemma out_build_spec:
  assumes "out_build TCPIP_TCP_FLAGS_ACK s = Inr (flags', seg, s')" "byte_q (txq s)"
  shows "txq s' = txq s" "rxq s' = rxq s" "rx_seq_recvd s' = rx_seq_recvd s" "tx_seq_start s' = tx_seq_start s"
    and "out_seq seg = tx_seq_start s" "out_ack seg = rx_seq_recvd s"
    and "out_fl seg AND (TCPIP_TCP_FLAGS_SYN OR TCPIP_TCP_FLAGS_FIN OR TCPIP_TCP_FLAGS_RST) = 0"
    and "\<exists>n \<le> used (txq s). out_data seg = take n (q_bytes (txq s)) \<and> tx_seq_end s' = tx_seq_start s + of_nat n"
proof -
  obtain n d where p: "Queue_Peek (txq s) (of_nat TCPIP_RXTX_BUF_SIZE) = Inr (n, d)"
    using assms(1) by (auto simp: out_build_def bind_res_eq_Inr)
  obtain m where m: "mem_write (replicate TCPIP_RXTX_BUF_SIZE 0) 54 d = Inr m"
    using assms(1) p by (auto simp: out_build_def bind_res_eq_Inr)
  have fl: "TCPIP_TCP_FLAGS_ACK AND (TCPIP_TCP_FLAGS_SYN OR TCPIP_TCP_FLAGS_FIN) = 0"
    "(TCPIP_TCP_FLAGS_ACK OR TCPIP_TCP_FLAGS_PSH) AND (TCPIP_TCP_FLAGS_SYN OR TCPIP_TCP_FLAGS_FIN) = 0"
    by (simp_all add: tcp_flag_defs)
  have s': "s' = s\<lparr>tx_seq_end := tx_seq_start s + n\<rparr>" and seg: "seg = \<lparr>out_addr = sock_addr s, out_src = loc_port s,
      out_dst = rem_port s, out_seq = tx_seq_start s, out_ack = rx_seq_recvd s, out_win = ucast (Queue_GetFree (rxq s)),
      out_fl = (if n > 0 then TCPIP_TCP_FLAGS_ACK OR TCPIP_TCP_FLAGS_PSH else TCPIP_TCP_FLAGS_ACK), out_data = d\<rparr>"
    using assms(1) by (auto simp: out_build_def p m Let_def fl split: if_splits)
  show "txq s' = txq s" "rxq s' = rxq s" "rx_seq_recvd s' = rx_seq_recvd s" "tx_seq_start s' = tx_seq_start s"
    "out_seq seg = tx_seq_start s" "out_ack seg = rx_seq_recvd s"
    "out_fl seg AND (TCPIP_TCP_FLAGS_SYN OR TCPIP_TCP_FLAGS_FIN OR TCPIP_TCP_FLAGS_RST) = 0"
    by (simp_all add: s' seg tcp_flag_defs)
  show "\<exists>n \<le> used (txq s). out_data seg = take n (q_bytes (txq s)) \<and> tx_seq_end s' = tx_seq_start s + of_nat n"
  proof (intro exI conjI)
    show "unat n \<le> used (txq s)" "out_data seg = take (unat n) (q_bytes (txq s))"
      using byte_q_peek [OF assms(2) p] by (auto simp: seg)
    show "tx_seq_end s' = tx_seq_start s + of_nat (unat n)" by (simp add: s')
  qed
qed

lemma out_sent_keeps:
  "txq (out_sent now flags win s) = txq s" "rxq (out_sent now flags win s) = rxq s"
  "rx_seq_recvd (out_sent now flags win s) = rx_seq_recvd s"
  "tx_seq_start (out_sent now flags win s) = tx_seq_start s" "tx_seq_end (out_sent now flags win s) = tx_seq_end s"
  by (simp_all add: out_sent_def Let_def)

section \<open>A connection\<close>

text \<open>
  One direction of a connection: the sending socket and what its application wrote, the receiving
  socket and what its application read, and all the segments that either side ever emitted.
\<close>

record conn =
  snd_sock :: tcp_sock
  written :: bytes
  rcv_sock :: tcp_sock
  got_bytes :: bytes
  data_net :: "tcp_out set"
  ack_net :: "tcp_out set"

text \<open>An emitted segment as the other side sees it: with the address of its sender and whatever
  follows the payload in the receive buffer.\<close>

definition seg_at :: "u32 \<Rightarrow> bytes \<Rightarrow> tcp_out \<Rightarrow> tcp_seg" where
  "seg_at ip rest out =
     \<lparr>seg_ip = ip, seg_src_port = out_src out, seg_dst_port = out_dst out, seg_seq = out_seq out,
      seg_ack = out_ack out, seg_win = ucast (out_win out), seg_flags = out_fl out,
      seg_size = of_nat (length (out_data out)), seg_mem = out_data out @ rest\<rparr>"

text \<open>
  The atomic steps. A socket in the state \<open>ESTABLISHED\<close> emits a segment as
  \<open>TCPIPTcpSock_ProcessOutgoing\<close> does between its two calls that yield, \<open>out_build\<close>, and does its
  bookkeeping after the second one, \<open>out_sent\<close>; a segment that is never delivered is a lost one or one
  that \<open>TCPIPTcp_Send\<close> did not send. The receiving side may also write: its output is another
  direction of the connection.
\<close>

inductive conn_step :: "conn \<Rightarrow> conn \<Rightarrow> bool" where
  c_write:
    "Queue_Put (txq (snd_sock c)) ptr n = Inr (b, q) \<Longrightarrow> unat n \<le> length ptr \<Longrightarrow>
     conn_step c (c\<lparr>snd_sock := (snd_sock c)\<lparr>txq := q\<rparr>, written := written c @ take (unat b) ptr\<rparr>)"
| c_read:
    "Queue_Get (rxq (rcv_sock c)) n = Inr (b, data, q) \<Longrightarrow>
     conn_step c (c\<lparr>rcv_sock := (rcv_sock c)\<lparr>rxq := q\<rparr>, got_bytes := got_bytes c @ data\<rparr>)"
| c_emit:
    "state (snd_sock c) = TCPIP_TCP_SOCK_STATE_ESTABLISHED \<Longrightarrow> out_flags (snd_sock c) = Some flags \<Longrightarrow>
     out_build flags (snd_sock c) = Inr (flags', seg, s) \<Longrightarrow>
     conn_step c (c\<lparr>snd_sock := s, data_net := insert seg (data_net c)\<rparr>)"
| c_emit_ack:
    "state (rcv_sock c) = TCPIP_TCP_SOCK_STATE_ESTABLISHED \<Longrightarrow> out_flags (rcv_sock c) = Some flags \<Longrightarrow>
     out_build flags (rcv_sock c) = Inr (flags', seg, r) \<Longrightarrow>
     conn_step c (c\<lparr>rcv_sock := r, ack_net := insert seg (ack_net c)\<rparr>)"
| c_deliver:
    "seg \<in> data_net c \<Longrightarrow>
     TCPIPTcpSock_ProcessIncoming now rnd (seg_at ip rest seg) (rcv_sock c) = Inr (ec, r) \<Longrightarrow>
     conn_step c (c\<lparr>rcv_sock := r\<rparr>)"
| c_deliver_ack:
    "seg \<in> ack_net c \<Longrightarrow>
     TCPIPTcpSock_ProcessIncoming now rnd (seg_at ip rest seg) (snd_sock c) = Inr (ec, s) \<Longrightarrow>
     conn_step c (c\<lparr>snd_sock := s\<rparr>)"
| c_sent: "conn_step c (c\<lparr>snd_sock := out_sent now flags win (snd_sock c)\<rparr>)"
| c_sent_ack: "conn_step c (c\<lparr>rcv_sock := out_sent now flags win (rcv_sock c)\<rparr>)"
| c_write_back:
    "Queue_Put (txq (rcv_sock c)) ptr n = Inr (b, q) \<Longrightarrow> unat n \<le> length ptr \<Longrightarrow>
     conn_step c (c\<lparr>rcv_sock := (rcv_sock c)\<lparr>txq := q\<rparr>\<rparr>)"

text \<open>
  The invariant, with the sequence number \<open>isn\<close> of the first byte: \<open>a\<close> bytes are acknowledged and gone
  from the sending queue, \<open>m\<close> bytes have been received.
\<close>

definition snd_inv :: "u32 \<Rightarrow> nat \<Rightarrow> bytes \<Rightarrow> tcp_sock \<Rightarrow> bool" where
  "snd_inv isn a w s \<longleftrightarrow> byte_q (txq s) \<and> a \<le> length w \<and> q_bytes (txq s) = drop a w \<and>
     tx_seq_start s = isn + of_nat a \<and> unat (tx_seq_end s - tx_seq_start s) \<le> length w - a"

definition rcv_inv :: "u32 \<Rightarrow> nat \<Rightarrow> bytes \<Rightarrow> bytes \<Rightarrow> tcp_sock \<Rightarrow> bool" where
  "rcv_inv isn m w out r \<longleftrightarrow> byte_q (rxq r) \<and> byte_q (txq r) \<and> m \<le> length w \<and>
     out @ q_bytes (rxq r) = take m w \<and> rx_seq_recvd r = isn + of_nat m"

definition plain_seg :: "tcp_out \<Rightarrow> bool" where
  "plain_seg seg \<longleftrightarrow> out_fl seg AND (TCPIP_TCP_FLAGS_SYN OR TCPIP_TCP_FLAGS_FIN OR TCPIP_TCP_FLAGS_RST) = 0"

definition data_of :: "u32 \<Rightarrow> bytes \<Rightarrow> tcp_out \<Rightarrow> bool" where
  "data_of isn w seg \<longleftrightarrow> plain_seg seg \<and> (\<exists>k n. out_seq seg = isn + of_nat k \<and> k + n \<le> length w \<and>
     out_data seg = take n (drop k w))"

definition conn_inv :: "u32 \<Rightarrow> conn \<Rightarrow> bool" where
  "conn_inv isn c \<longleftrightarrow> (\<exists>a m. a \<le> m \<and> snd_inv isn a (written c) (snd_sock c) \<and>
     rcv_inv isn m (written c) (got_bytes c) (rcv_sock c) \<and>
     (\<forall>seg \<in> data_net c. data_of isn (written c) seg) \<and>
     (\<forall>seg \<in> ack_net c. plain_seg seg \<and> (\<exists>j \<le> m. out_ack seg = isn + of_nat j)))"

lemma data_of_append:
  assumes "data_of isn w seg"
  shows "data_of isn (w @ x) seg"
proof -
  obtain k n where "plain_seg seg" "out_seq seg = isn + of_nat k" "k + n \<le> length w" "out_data seg = take n (drop k w)"
    using assms by (auto simp: data_of_def)
  then show ?thesis unfolding data_of_def by (intro conjI exI [of _ k] exI [of _ n]) simp_all
qed

lemma seg_at_data: "plain_seg seg \<Longrightarrow> data_seg (seg_at ip rest seg)"
  by (simp add: plain_seg_def data_seg_def seg_at_def)

lemma established_flags:
  "state s = TCPIP_TCP_SOCK_STATE_ESTABLISHED \<Longrightarrow> out_flags s = Some flags \<Longrightarrow> flags = TCPIP_TCP_FLAGS_ACK"
  by (simp add: out_flags_def)


section \<open>The invariant is kept\<close>

lemma snd_inv_write:
  assumes "snd_inv isn a w s" "Queue_Put (txq s) ptr n = Inr (b, q)" "unat n \<le> length ptr"
  shows "snd_inv isn a (w @ take (unat b) ptr) (s\<lparr>txq := q\<rparr>)"
  using assms byte_q_put [OF _ assms(3,2)] by (auto simp: snd_inv_def)

lemma snd_inv_ack:
  assumes i: "snd_inv isn a w s" and len: "length w < 2 ^ 32" and g: "data_seg g" "seg_ack g = isn + of_nat j"
    and j: "j \<le> length w" and p: "TCPIPTcpSock_ProcessIncoming now rnd g s = Inr (ec, s')"
  shows "snd_inv isn a w s' \<or> snd_inv isn j w s'"
proof -
  let ?d = "seg_ack g - tx_seq_start s"
  note tx = ProcessIncoming_tx [OF g(1) p]
  have inv: "byte_q (txq s)" "a \<le> length w" "q_bytes (txq s) = drop a w" "tx_seq_start s = isn + of_nat a"
    "unat (tx_seq_end s - tx_seq_start s) \<le> length w - a" using i by (auto simp: snd_inv_def)
  show ?thesis
  proof (cases "txq s' = txq s \<and> tx_seq_start s' = tx_seq_start s")
    case True
    then show ?thesis using i tx by (intro disjI1) (auto simp: snd_inv_def)
  next
    case False
    then have le: "?d \<le> tx_seq_end s - tx_seq_start s" "tx_seq_start s' = seg_ack g" "tx_seq_end s' = tx_seq_end s"
      "txq s' = snd (Queue_Drop (txq s) ?d)" using tx by auto
    have d: "unat ?d \<le> length w - a" using le(1) inv(5) by (simp add: word_le_nat_alt)
    have "isn + of_nat j = isn + of_nat (a + unat ?d)" using g(2) inv(4) by simp
    then have ja: "j = a + unat ?d" by (rule of_nat_u32_inj) (use d inv(2) len j in auto)
    have u: "unat ?d \<le> used (txq s)" using d byte_q_length [OF inv(1)] inv(3) by simp
    have "tx_seq_end s' - tx_seq_start s' = (tx_seq_end s - tx_seq_start s) - ?d" using le by simp
    then have "unat (tx_seq_end s' - tx_seq_start s') \<le> length w - j"
      using unat_u32_sub [OF le(1)] inv(5) ja by simp
    moreover have "byte_q (txq s') \<and> q_bytes (txq s') = drop j w"
      using byte_q_drop [OF inv(1) u] le(4) inv(3) ja by (simp add: add.commute)
    ultimately show ?thesis using j le(2) g(2) by (simp add: snd_inv_def)
  qed
qed

lemma snd_inv_emit:
  assumes i: "snd_inv isn a w s" and "out_build TCPIP_TCP_FLAGS_ACK s = Inr (flags', seg, s')" "length w < 2 ^ 32"
  shows "snd_inv isn a w s' \<and> data_of isn w seg"
proof -
  have inv: "byte_q (txq s)" "a \<le> length w" "q_bytes (txq s) = drop a w" "tx_seq_start s = isn + of_nat a"
    using i by (simp_all add: snd_inv_def)
  note b = out_build_spec [OF assms(2) inv(1)]
  obtain n where n: "n \<le> used (txq s)" "out_data seg = take n (q_bytes (txq s))"
    "tx_seq_end s' = tx_seq_start s + of_nat n" using b(8) by blast
  have "used (txq s) = length w - a" using byte_q_length [OF inv(1)] inv(3) by simp
  moreover have "unat (of_nat n :: u32) \<le> n" by (simp add: unat_of_nat)
  ultimately have "snd_inv isn a w s'" using n inv b by (simp add: snd_inv_def)
  moreover have "data_of isn w seg" unfolding data_of_def plain_seg_def
    using b n inv \<open>used (txq s) = length w - a\<close> by (intro conjI exI [of _ a] exI [of _ n]) simp_all
  ultimately show ?thesis by simp
qed

lemma rcv_inv_grow: "rcv_inv isn m w out r \<Longrightarrow> rcv_inv isn m (w @ x) out r"
  by (simp add: rcv_inv_def)

lemma rcv_inv_data:
  assumes i: "rcv_inv isn m w out r" and len: "length w < 2 ^ 32" and seg: "data_of isn w seg"
    and p: "TCPIPTcpSock_ProcessIncoming now rnd (seg_at ip rest seg) r = Inr (ec, r')"
  shows "\<exists>m' \<ge> m. rcv_inv isn m' w out r'"
proof -
  let ?g = "seg_at ip rest seg"
  obtain k n where kn: "plain_seg seg" "out_seq seg = isn + of_nat k" "k + n \<le> length w" "out_data seg = take n (drop k w)"
    using seg by (auto simp: data_of_def)
  have g: "data_seg ?g" "seg_seq ?g = isn + of_nat k" using kn by (simp_all add: seg_at_data) (simp add: seg_at_def)
  have m: "unat (seg_size ?g) = n" "take j (seg_mem ?g) = take j (drop k w)" if "j \<le> n" for j
    using that kn(3,4) len by (simp_all add: seg_at_def unat_of_nat)
  have inv: "byte_q (rxq r)" "byte_q (txq r)" "m \<le> length w" "out @ q_bytes (rxq r) = take m w"
    "rx_seq_recvd r = isn + of_nat m" using i by (simp_all add: rcv_inv_def)
  have t: "byte_q (txq r')"
    using ProcessIncoming_tx [OF g(1) p] inv(2) byte_q_drop_any by auto
  have "unat (seg_size ?g) \<le> length (seg_mem ?g)" using m [of n] kn(3,4) by (simp add: seg_at_def)
  from ProcessIncoming_rx [OF g(1) p inv(1) this] show ?thesis
  proof (elim disjE conjE exE)
    assume "rxq r' = rxq r" "rx_seq_recvd r' = rx_seq_recvd r"
    then have "rcv_inv isn m w out r'" using i t by (simp add: rcv_inv_def)
    then show ?thesis by blast
  next
    fix j
    assume a: "seg_seq ?g = rx_seq_recvd r" "byte_q (rxq r')" "j \<le> unat (seg_size ?g)"
      "q_bytes (rxq r') = q_bytes (rxq r) @ take j (seg_mem ?g)" "rx_seq_recvd r' = rx_seq_recvd r + of_nat j"
    have km: "k = m" by (rule of_nat_u32_inj [of isn]) (use a(1) g(2) inv(3,5) kn(3) len in simp_all)
    have "j \<le> n" using a(3) m(1) [of n] by simp
    then have "out @ q_bytes (rxq r') = take m w @ take j (drop m w)"
      using a(4) m(2) [of j] inv(4) km by (simp flip: append_assoc)
    then have "rcv_inv isn (m + j) w out r'"
      using a m [of n] kn(3) km inv t by (simp add: rcv_inv_def take_add)
    then show ?thesis by (intro exI [of _ "m + j"]) simp
  qed
qed

lemma rcv_inv_read:
  assumes "rcv_inv isn m w out r" "Queue_Get (rxq r) n = Inr (b, data, q)"
  shows "rcv_inv isn m w (out @ data) (r\<lparr>rxq := q\<rparr>)"
  using assms byte_q_get [OF _ assms(2)] by (auto simp: rcv_inv_def)

lemma rcv_inv_emit:
  assumes i: "rcv_inv isn m w out r" and b: "out_build TCPIP_TCP_FLAGS_ACK r = Inr (flags', seg, r')"
  shows "rcv_inv isn m w out r' \<and> plain_seg seg \<and> out_ack seg = isn + of_nat m"
  using out_build_spec [OF b] i by (simp add: rcv_inv_def plain_seg_def)


lemma conn_step_written: "conn_step c c' \<Longrightarrow> length (written c) \<le> length (written c')"
  by (induction rule: conn_step.induct) auto

lemma conn_step_inv:
  assumes "conn_step c c'" "conn_inv isn c" "length (written c') < 2 ^ 32"
  shows "conn_inv isn c'"
proof -
  obtain a m where am: "a \<le> m" and s: "snd_inv isn a (written c) (snd_sock c)"
    and r: "rcv_inv isn m (written c) (got_bytes c) (rcv_sock c)"
    and dn: "\<And>seg. seg \<in> data_net c \<Longrightarrow> data_of isn (written c) seg"
    and an: "\<And>seg. seg \<in> ack_net c \<Longrightarrow> plain_seg seg \<and> (\<exists>j \<le> m. out_ack seg = isn + of_nat j)"
    using assms(2) unfolding conn_inv_def by blast
  have ml: "m \<le> length (written c)" using r by (simp add: rcv_inv_def)
  note intro = conn_inv_def [THEN iffD2]
  from assms(1) show ?thesis
  proof cases
    case (c_write ptr n b q)
    have "rcv_inv isn m (written c @ take (unat b) ptr) (got_bytes c) (rcv_sock c)" by (rule rcv_inv_grow [OF r])
    then show ?thesis using snd_inv_write [OF s c_write(2,3)] am dn an data_of_append
      unfolding c_write by (intro intro exI [of _ a] exI [of _ m]) auto
  next
    case (c_read n b data q)
    show ?thesis unfolding c_read using rcv_inv_read [OF r c_read(2)] am s dn an
      by (intro intro exI [of _ a] exI [of _ m]) auto
  next
    case (c_emit flags flags' seg t)
    have b: "out_build TCPIP_TCP_FLAGS_ACK (snd_sock c) = Inr (flags', seg, t)"
      using c_emit established_flags by metis
    show ?thesis unfolding c_emit using snd_inv_emit [OF s b] assms(3) c_emit(1) am r dn an
      by (intro intro exI [of _ a] exI [of _ m]) auto
  next
    case (c_emit_ack flags flags' seg t)
    have b: "out_build TCPIP_TCP_FLAGS_ACK (rcv_sock c) = Inr (flags', seg, t)"
      using c_emit_ack established_flags by metis
    show ?thesis unfolding c_emit_ack using rcv_inv_emit [OF r b] am s dn an
      by (intro intro exI [of _ a] exI [of _ m]) auto
  next
    case (c_deliver seg now rnd ip rest ec t)
    obtain m' where "m' \<ge> m" "rcv_inv isn m' (written c) (got_bytes c) t"
      using rcv_inv_data [OF r _ dn [OF c_deliver(2)] c_deliver(3)] assms(3) c_deliver(1) by auto
    moreover have "plain_seg seg \<and> (\<exists>j \<le> m'. out_ack seg = isn + of_nat j)" if "seg \<in> ack_net c" for seg
      using an [OF that] \<open>m' \<ge> m\<close> by (meson order_trans)
    ultimately show ?thesis unfolding c_deliver using am s dn
      by (intro intro exI [of _ a] exI [of _ m']) auto
  next
    case (c_deliver_ack seg now rnd ip rest ec t)
    obtain j where j: "j \<le> m" "out_ack seg = isn + of_nat j" "plain_seg seg" using an [OF c_deliver_ack(2)] by blast
    have "snd_inv isn a (written c) t \<or> snd_inv isn j (written c) t"
      by (rule snd_inv_ack [OF s _ seg_at_data [OF j(3)] _ _ c_deliver_ack(3)])
        (use assms(3) c_deliver_ack(1) j ml in \<open>auto simp: seg_at_def\<close>)
    then obtain a' where "a' \<le> m" "snd_inv isn a' (written c) t" using am j(1) by blast
    then show ?thesis unfolding c_deliver_ack using r dn an
      by (intro intro exI [of _ a'] exI [of _ m]) auto
  next
    case c_sent
    show ?thesis unfolding c_sent using am s r dn an
      by (intro intro exI [of _ a] exI [of _ m]) (auto simp: snd_inv_def out_sent_keeps)
  next
    case c_sent_ack
    show ?thesis unfolding c_sent_ack using am s r dn an
      by (intro intro exI [of _ a] exI [of _ m]) (auto simp: rcv_inv_def out_sent_keeps)
  next
    case (c_write_back ptr n b q)
    have "byte_q q" using byte_q_put [OF _ c_write_back(3,2)] r by (simp add: rcv_inv_def)
    then show ?thesis unfolding c_write_back using am s r dn an
      by (intro intro exI [of _ a] exI [of _ m]) (auto simp: rcv_inv_def)
  qed
qed

lemma conn_run_inv:
  assumes "conn_step\<^sup>*\<^sup>* c c'" "conn_inv isn c" "length (written c') < 2 ^ 32"
  shows "conn_inv isn c'"
  using assms(1,3)
proof induction
  case (step y z)
  then show ?case using conn_step_inv conn_step_written by (meson le_less_trans)
qed (use assms(2) in simp)

section \<open>The stream arrives\<close>

text \<open>A connection that was just established, with empty queues.\<close>

definition conn_fresh :: "u32 \<Rightarrow> conn \<Rightarrow> bool" where
  "conn_fresh isn c \<longleftrightarrow> written c = [] \<and> got_bytes c = [] \<and> data_net c = {} \<and> ack_net c = {} \<and>
     byte_q (txq (snd_sock c)) \<and> used (txq (snd_sock c)) = 0 \<and>
     tx_seq_start (snd_sock c) = isn \<and> tx_seq_end (snd_sock c) = isn \<and>
     byte_q (txq (rcv_sock c)) \<and> byte_q (rxq (rcv_sock c)) \<and> used (rxq (rcv_sock c)) = 0 \<and>
     rx_seq_recvd (rcv_sock c) = isn"

lemma conn_fresh_inv: "conn_fresh isn c \<Longrightarrow> conn_inv isn c"
  unfolding conn_inv_def conn_fresh_def snd_inv_def rcv_inv_def
  using byte_q_length [of "txq (snd_sock c)"] byte_q_length [of "rxq (rcv_sock c)"]
  by (intro exI [of _ 0]) auto

text \<open>
  C23: over a network that loses, repeats and reorders segments at will, what the receiving
  application has read, followed by what waits in the receive queue, is a prefix of what the sending
  application wrote; and the sender still holds every byte that has not been received, so that it can
  be sent again. (Up to \<open>2 ^ 32\<close> bytes, before either side closes; the queues hold bytes and their
  capacities divide \<open>2 ^ 32\<close>.)
\<close>

theorem Tcp_stream_integrity:
  assumes "conn_fresh isn c" "conn_step\<^sup>*\<^sup>* c c'" "length (written c') < 2 ^ 32"
  shows "\<exists>a m. a \<le> m \<and> m \<le> length (written c') \<and>
    got_bytes c' @ q_bytes (rxq (rcv_sock c')) = take m (written c') \<and>
    q_bytes (txq (snd_sock c')) = drop a (written c')"
  using conn_run_inv [OF assms(2) conn_fresh_inv [OF assms(1)] assms(3)]
  by (auto simp: conn_inv_def snd_inv_def rcv_inv_def)


text \<open>A run of a connection, used below: two bytes are written, sent, delivered and read.\<close>

definition demo_seg :: tcp_out where
  "demo_seg = \<lparr>out_addr = 1, out_src = 80, out_dst = 80, out_seq = 7, out_ack = 50, out_win = 4, out_fl = 24,
     out_data = [1, 2]\<rparr>"

definition demo_conn :: "nat \<Rightarrow> conn" where
  "demo_conn k =
     \<lparr>snd_sock = demo_sock (demo_q [0, 0, 0, 0] 0 0)
        (if k = 0 then demo_q [0, 0, 0, 0] 0 0 else demo_q [1, 2, 0, 0] 2 0) 50 7 (if k < 2 then 7 else 9),
      written = (if k = 0 then [] else [1, 2]),
      rcv_sock = demo_sock (if k < 3 then demo_q [0, 0, 0, 0] 0 0 else if k = 3 then demo_q [1, 2, 0, 0] 2 0
        else demo_q [1, 2, 0, 0] 2 2) (demo_q [0, 0, 0, 0] 0 0) (if k < 3 then 7 else 9) 50 50
        \<lparr>rx_seq_acked := 7, rx_flags := (if k < 3 then 16 else 24)\<rparr>,
      got_bytes = (if k < 4 then [] else [1, 2]),
      data_net = (if k < 2 then {} else {demo_seg}), ack_net = {}\<rparr>"

lemma demo_run: "conn_step\<^sup>*\<^sup>* (demo_conn 0) (demo_conn 4)"
proof -
  have "conn_step (demo_conn 0) (demo_conn 1)"
    using c_write [of "demo_conn 0" "[1, 2]" 2 2 "demo_q [1, 2, 0, 0] 2 0"]
    by (simp add: demo_conn_def demo_sock_def demo_q_def Queue_Put_def Queue_GetFree_def c_min_def
        mem_read_def mem_write_def Let_def bind_res_def Queue_GetUsed_def)
  moreover have "conn_step (demo_conn 1) (demo_conn 2)"
    using c_emit [of "demo_conn 1" "TCPIP_TCP_FLAGS_ACK" 24 demo_seg "snd_sock (demo_conn 2)"]
    by (simp add: demo_conn_def demo_sock_def demo_q_def demo_seg_def Queue_GetUsed_def Queue_GetFree_def c_min_def
        mem_read_def mem_write_def Let_def bind_res_def out_build_def out_flags_def Queue_Peek_def
        TCPIP_RXTX_BUF_SIZE_def tcp_flag_defs)
  moreover have "conn_step (demo_conn 2) (demo_conn 3)"
    using c_deliver [of demo_seg "demo_conn 2" 0 0 1 "[]" EOK "rcv_sock (demo_conn 3)"]
    by (simp add: demo_conn_def demo_sock_def demo_q_def demo_seg_def seg_at_def Queue_Put_def Queue_GetFree_def
        Queue_GetUsed_def Queue_Drop_def c_min_def
        mem_read_def mem_write_def Let_def bind_res_def TCPIPTcpSock_ProcessIncoming_def seg_matches_def
        TCPIPIpAddr_AddressMatch_def in_rst_def in_syn_def in_ack_def in_data_def in_acked_def in_fin_def tcp_flag_defs)
  moreover have "conn_step (demo_conn 3) (demo_conn 4)"
    using c_read [of "demo_conn 3" 4 2 "[1, 2]" "demo_q [1, 2, 0, 0] 2 2"]
    by (simp add: demo_conn_def demo_sock_def demo_q_def Queue_Get_def Queue_Peek_def Queue_Drop_def Queue_GetUsed_def
        c_min_def mem_read_def Let_def bind_res_def)
  ultimately show ?thesis by (meson rtranclp.rtrancl_into_rtrancl rtranclp.rtrancl_refl)
qed

theorem Tcp_stream_integrity_witness:
  "\<exists>a m. a \<le> m \<and> m \<le> length (written (demo_conn 4)) \<and>
    got_bytes (demo_conn 4) @ q_bytes (rxq (rcv_sock (demo_conn 4))) = take m (written (demo_conn 4)) \<and>
    q_bytes (txq (snd_sock (demo_conn 4))) = drop a (written (demo_conn 4))"
proof (rule Tcp_stream_integrity [OF _ demo_run, of 7])
  show "conn_fresh 7 (demo_conn 0)"
    by (simp add: conn_fresh_def demo_conn_def demo_sock_def demo_q_def byte_q_def q_ok_def q_wf_def Queue_GetUsed_def)
  show "length (written (demo_conn 4)) < 2 ^ 32" by (simp add: demo_conn_def)
qed

section \<open>The transmission buffer\<close>

text \<open>
  A segment fits the transmission buffer exactly if the queue holds at most 1474 bytes: the space
  that \<open>TCPIPTcp_Alloc\<close> reports is that of the whole buffer, although the payload starts behind 54 bytes
  of headers. A send queue of at most that capacity, like those of all sockets in the tree, is safe.
\<close>

theorem Tcp_tx_buffer_bound:
  assumes "byte_q (txq s)"
  shows "(\<exists>x. out_build flags s = Inr x) \<longleftrightarrow> used (txq s) \<le> 1474"
proof -
  obtain n d where p: "Queue_Peek (txq s) (of_nat TCPIP_RXTX_BUF_SIZE) = Inr (n, d)"
    using Queue_Peek_spec(1) [of "txq s"] assms by (auto simp: byte_q_def q_ok_def)
  have d: "length d = min 1528 (used (txq s))"
    using byte_q_peek [OF assms p] byte_q_length [OF assms] by (simp add: TCPIP_RXTX_BUF_SIZE_def)
  have w: "mem_write (replicate TCPIP_RXTX_BUF_SIZE 0) 54 d =
      (if used (txq s) \<le> 1474 then Inr (take 54 (replicate 1528 0) @ d @ drop (54 + length d) (replicate 1528 0))
       else Inl OutOfBounds)"
    using d by (auto simp: mem_write_def TCPIP_RXTX_BUF_SIZE_def min_def split: if_splits)
  show ?thesis unfolding out_build_def p
    by (cases "used (txq s) \<le> 1474") (simp_all add: Let_def w)
qed

theorem Tcp_tx_buffer_bound_witness:
  "\<exists>x. out_build TCPIP_TCP_FLAGS_ACK (snd_sock (demo_conn 1)) = Inr x"
  using Tcp_tx_buffer_bound [of "snd_sock (demo_conn 1)" TCPIP_TCP_FLAGS_ACK]
  by (simp add: demo_conn_def demo_sock_def demo_q_def byte_q_def q_ok_def q_wf_def Queue_GetUsed_def)
end
