(* ===== verification/Net_Path.thy ===== *)
theory Net_Path
  imports Net_Stack Net_Tcp_Stream
begin

text \<open>
  What the layers of the stack do together: a frame that one host sends is what the other host
  receives. The sending side is characterised by the fields of the frame in the transmission buffer,
  the receiving side by what these fields make it do.
\<close>

section \<open>Running the layers\<close>

lemma nbind_simps [simp]:
  "nbind (nret x) f s = f x s"
  "nbind (nread g) f s = f (g s) s"
  "nbind (nupd h) k s = k () (h s)"
  "nbind (opt (Some y)) e s = e y s"
  "nret z s = Some (Inr (z, s))"
  by (simp_all add: nbind_def nret_def nread_def nupd_def opt_def)

lemma nbind_Some: "m s = Some (Inr (x, s')) \<Longrightarrow> nbind m f s = f x s'"
  by (simp add: nbind_def)

lemma nbind_ntry: "h s = Inr (x, s') \<Longrightarrow> nbind (ntry h) f s = f x s'"
  by (simp add: nbind_def ntry_def)

lemma nbind_edit: "f (tx_bytes i off s) = Inr bs \<Longrightarrow> nbind (tx_edit i off f) k s = k () (tx_set i off bs s)"
  by (simp add: tx_edit_def nbind_ntry)

section \<open>Fields of the internet header\<close>

lemma nth_of_take: "take n a = take n b \<Longrightarrow> i < n \<Longrightarrow> a ! i = b ! i"
  by (metis nth_take)

lemma ip_fields_take:
  assumes "take 20 a = take 20 b"
  shows "TCPIPIpFrame_GetHdrLen a = TCPIPIpFrame_GetHdrLen b" "TCPIPIpFrame_GetLength a = TCPIPIpFrame_GetLength b"
    "TCPIPIpFrame_GetProtocol a = TCPIPIpFrame_GetProtocol b" "TCPIPIpFrame_GetFlags a = TCPIPIpFrame_GetFlags b"
    "TCPIPIpFrame_GetFragmentOffset a = TCPIPIpFrame_GetFragmentOffset b"
    "TCPIPIpFrame_GetSrcAddr a = TCPIPIpFrame_GetSrcAddr b" "TCPIPIpFrame_GetDstAddr a = TCPIPIpFrame_GetDstAddr b"
  using nth_of_take [OF assms] by (simp_all add: frame_defs rd16_def rd32_def)

lemma udp_fields_take:
  assumes "take 8 a = take 8 b"
  shows "TCPIPUdpFrame_GetSrcPort a = TCPIPUdpFrame_GetSrcPort b" "TCPIPUdpFrame_GetDstPort a = TCPIPUdpFrame_GetDstPort b"
    "TCPIPUdpFrame_GetLength a = TCPIPUdpFrame_GetLength b"
  using nth_of_take [OF assms] by (simp_all add: frame_defs rd16_def)

lemma tcp_fields_take:
  assumes "take 20 a = take 20 b"
  shows "TCPIPTcpFrame_GetSrcPort a = TCPIPTcpFrame_GetSrcPort b" "TCPIPTcpFrame_GetDstPort a = TCPIPTcpFrame_GetDstPort b"
    "TCPIPTcpFrame_GetSeq a = TCPIPTcpFrame_GetSeq b" "TCPIPTcpFrame_GetAck a = TCPIPTcpFrame_GetAck b"
    "TCPIPTcpFrame_GetDataOffs a = TCPIPTcpFrame_GetDataOffs b" "TCPIPTcpFrame_GetFlags a = TCPIPTcpFrame_GetFlags b"
    "TCPIPTcpFrame_GetWindow a = TCPIPTcpFrame_GetWindow b"
  using nth_of_take [OF assms] by (simp_all add: frame_defs rd16_def rd32_def)

text \<open>A header of 20 bytes with the given fields and a valid checksum.\<close>

definition ip_like :: "u32 \<Rightarrow> u32 \<Rightarrow> u8 \<Rightarrow> u16 \<Rightarrow> bytes \<Rightarrow> bool" where
  "ip_like src_addr dst_addr proto len ip \<longleftrightarrow> 20 \<le> length ip \<and> TCPIPIpFrame_GetHdrLen ip = 20 \<and>
     TCPIPIpFrame_GetLength ip = len \<and> TCPIPIpFrame_GetProtocol ip = proto \<and>
     TCPIPIpFrame_GetFlags ip AND TCPIP_IP_FLAGS_MF = 0 \<and> TCPIPIpFrame_GetFragmentOffset ip = 0 \<and>
     TCPIPIpFrame_GetSrcAddr ip = src_addr \<and> TCPIPIpFrame_GetDstAddr ip = dst_addr \<and>
     TCPIPIpChecksum_IsValid ip = Inr True"

lemma ip_like_take:
  assumes "ip_like a d p l x" "take 20 y = take 20 x" "20 \<le> length y"
  shows "ip_like a d p l y"
proof -
  have h: "TCPIPIpFrame_GetHdrLen y = 20" using assms ip_fields_take(1) [OF assms(2)] by (simp add: ip_like_def)
  have "TCPIPIpChecksum_IsValid y = TCPIPIpChecksum_IsValid x"
    using assms h by (simp add: TCPIPIpChecksum_IsValid_def TCPIPIpChecksum_Compute_def mem_read_def ip_like_def)
  then show ?thesis using assms ip_fields_take [OF assms(2)] by (simp add: ip_like_def)
qed

lemma ip_header_length [simp]: "length (ip_header a d p n ip) = length ip"
  by (simp add: ip_header_def frame_defs Let_def)

lemma ip_header_drop: "drop 20 (ip_header a d p n ip) = drop 20 ip"
  by (simp add: ip_header_def frame_defs Let_def wr_drop drop_update_cancel)

lemma ip_hdr_fields:
  assumes "20 \<le> length ip"
  shows "TCPIPIpFrame_GetHdrLen (ip_header a d p n ip) = 20"
    "TCPIPIpFrame_GetLength (ip_header a d p n ip) = ucast (n + 20)"
    "TCPIPIpFrame_GetProtocol (ip_header a d p n ip) = p"
    "TCPIPIpFrame_GetSrcAddr (ip_header a d p n ip) = a"
    "TCPIPIpFrame_GetDstAddr (ip_header a d p n ip) = d"
proof -
  have l: "k < length ip" if "k < 20" for k using assms that by simp
  have ne: "ip \<noteq> []" using assms by auto
  note sel = ip_header_def frame_defs Let_def rd_wr_other l
  show "TCPIPIpFrame_GetProtocol (ip_header a d p n ip) = p" by (simp add: sel)
  show "TCPIPIpFrame_GetSrcAddr (ip_header a d p n ip) = a" by (simp add: sel)
  show "TCPIPIpFrame_GetDstAddr (ip_header a d p n ip) = d" by (simp add: sel)
  show "TCPIPIpFrame_GetLength (ip_header a d p n ip) = ucast (n + 20)" by (simp add: sel)
  have "ip_header a d p n ip ! 0 = 0x45"
    using ip_first_byte [of "ip ! 0"] ne by (simp add: sel TCPIP_IP_HDR_LEN_VER_VER_def TCPIP_IP_HDR_LEN_VER_HDRLEN_def)
  then show "TCPIPIpFrame_GetHdrLen (ip_header a d p n ip) = 20"
    by (simp add: TCPIPIpFrame_GetHdrLen_def TCPIP_IP_HDR_LEN_VER_HDRLEN_def BITS_RD_def)
qed

lemma ip_hdr_flags:
  assumes "20 \<le> length ip"
  shows "TCPIPIpFrame_GetFlags (ip_header a d p n ip) AND TCPIP_IP_FLAGS_MF = 0"
    "TCPIPIpFrame_GetFragmentOffset (ip_header a d p n ip) = 0"
proof -
  have l: "k < length ip" if "k < 20" for k using assms that by simp
  have f: "HTOBE16 (rd16 (ip_header a d p n ip) 6) = HTOBE16 (rd16 ip 6) AND NOT TCPIP_IP_FLAGS_ALL AND NOT TCPIP_IP_FLAGS_FOFFS"
    by (simp add: ip_header_def frame_defs Let_def rd_wr_other l and.assoc)
  show "TCPIPIpFrame_GetFlags (ip_header a d p n ip) AND TCPIP_IP_FLAGS_MF = 0"
    unfolding TCPIPIpFrame_GetFlags_def f
    by (rule bit_word_eqI) (auto simp: bit_simps TCPIP_IP_FLAGS_ALL_def)
  show "TCPIPIpFrame_GetFragmentOffset (ip_header a d p n ip) = 0"
    unfolding TCPIPIpFrame_GetFragmentOffset_def f by (rule bit_word_eqI) (auto simp: bit_simps)
qed

lemma ip_sent_like:
  assumes "20 \<le> length ip"
  obtains ip' where "TCPIPIpChecksum_Set (ip_header a d p n ip) = Inr ip'" "ip_like a d p (ucast (n + 20)) ip'"
    "length ip' = length ip" "drop 20 ip' = drop 20 ip"
proof -
  let ?h = "ip_header a d p n ip"
  have h: "unat (TCPIPIpFrame_GetHdrLen ?h) = 20" using ip_hdr_fields(1) [OF assms] by simp
  obtain ip' k where s: "TCPIPIpChecksum_Set ?h = Inr ip'" "TCPIPIpChecksum_IsValid ip' = Inr True"
    "ip' = wr16 ?h 10 (HTOBE16 k)"
    using Ip_Set_valid [of ?h] h assms by auto
  note keep = frame_defs rd_wr_other
  have "ip_like a d p (ucast (n + 20)) ip'"
    using s(2) ip_hdr_fields [OF assms, of a d p n] ip_hdr_flags [OF assms, of a d p n] assms
    unfolding ip_like_def s(3) by (simp add: keep)
  then show thesis using that s ip_header_drop [of a d p n ip] by (simp add: wr_drop)
qed

section \<open>Receiving an internet packet\<close>

definition ip_for_us :: "ip_conf \<Rightarrow> u32 \<Rightarrow> bool" where
  "ip_for_us conf a \<longleftrightarrow> TCPIPIpAddr_IsMatchingUnicast conf a \<or> TCPIPIpAddr_IsMatchingBroadcast conf a \<or>
     TCPIPIpAddr_IsMatchingMulticast a"

text \<open>The descriptor that the transport layer gets.\<close>

definition ip_frame :: "u16 \<Rightarrow> frame \<Rightarrow> frame" where
  "ip_frame len fr = fr\<lparr>fr_eth := Some 0, fr_net := Some 14, fr_flags := 3, fr_size := ucast len - 20,
     fr_ptr := 34\<rparr>"

lemma Eth_Input_ip:
  assumes "TCPIPEthFrame_GetEthType rx = TCPIP_ETH_ETHTYPE_IP" "ip_like a d p len (drop 14 rx)"
    and "ip_for_us (n_conf s) d" "fr_ptr fr = 0" "fr_flags fr = 0"
  shows "TCPIPEth_Input fuel env rnd rx fr s =
    (if p = TCPIP_IP_PROTOCOL_ICMP then TCPIPIcmp_Input fuel env rx (ip_frame len fr)
     else if p = TCPIP_IP_PROTOCOL_TCP then TCPIPTcp_Input rnd rx (ip_frame len fr)
     else if p = TCPIP_IP_PROTOCOL_UDP then TCPIPUdp_Input rx (ip_frame len fr)
     else nret (EUNKPROT, ip_frame len fr)) s"
proof -
  have acc: "ip_accepts (n_conf s) (drop 14 rx)"
    using assms(2,3) by (simp add: ip_accepts_def ip_like_def ip_for_us_def)
  have v: "TCPIPIpChecksum_IsValid (drop 14 rx) = Inr True" and h: "TCPIPIpFrame_GetHdrLen (drop 14 rx) = 20"
    "TCPIPIpFrame_GetLength (drop 14 rx) = len" "TCPIPIpFrame_GetProtocol (drop 14 rx) = p"
    using assms(2) by (simp_all add: ip_like_def)
  let ?f = "fr\<lparr>fr_eth := Some 0, fr_flags := 1, fr_size := fr_size fr - 14, fr_ptr := 14\<rparr>"
  have "TCPIPEth_Input fuel env rnd rx fr s = TCPIPIp_Input fuel env rnd rx ?f s"
    using assms by (simp add: TCPIPEth_Input_def Let_def TCPIP_FRAME_FLAGS_ETH_def)
  also have "\<dots> = nbind (ntry (\<lambda>s. Inr (True, s))) (\<lambda>valid.
      if p = TCPIP_IP_PROTOCOL_ICMP then TCPIPIcmp_Input fuel env rx (ip_frame len fr)
      else if p = TCPIP_IP_PROTOCOL_TCP then TCPIPTcp_Input rnd rx (ip_frame len fr)
      else if p = TCPIP_IP_PROTOCOL_UDP then TCPIPUdp_Input rx (ip_frame len fr)
      else nret (EUNKPROT, ip_frame len fr)) s"
    using acc by (simp add: TCPIPIp_Input_def Let_def v h nbind_ntry ip_frame_def TCPIP_FRAME_FLAGS_IP_def)
  also have "\<dots> = (if p = TCPIP_IP_PROTOCOL_ICMP then TCPIPIcmp_Input fuel env rx (ip_frame len fr)
     else if p = TCPIP_IP_PROTOCOL_TCP then TCPIPTcp_Input rnd rx (ip_frame len fr)
     else if p = TCPIP_IP_PROTOCOL_UDP then TCPIPUdp_Input rx (ip_frame len fr)
     else nret (EUNKPROT, ip_frame len fr)) s"
    by (simp add: nbind_ntry)
  finally show ?thesis .
qed


section \<open>Sending an internet packet\<close>

text \<open>Other tasks that neither send nor change the configuration or the table of addresses.\<close>

definition calm :: "(nat \<Rightarrow> net_st \<Rightarrow> net_st) \<Rightarrow> bool" where
  "calm env \<longleftrightarrow> (\<forall>k s. n_tx (env k s) = n_tx s \<and> n_conf (env k s) = n_conf s \<and> n_arp (env k s) = n_arp s)"

text \<open>The contents and the size of a buffer.\<close>

definition put_buf :: "nat \<Rightarrow> u32 \<Rightarrow> bytes \<Rightarrow> net_st \<Rightarrow> net_st" where
  "put_buf i n b s = s\<lparr>n_tx := (n_tx s)[i := \<lparr>tb_size = n, tb_allocated = tb_allocated (n_tx s ! i), tb_buf = b\<rparr>]\<rparr>"

abbreviation buf_of :: "nat \<Rightarrow> net_st \<Rightarrow> bytes" where "buf_of i s \<equiv> tb_buf (n_tx s ! i)"

lemma tx_set_simps [simp]:
  "n_conf (tx_set i off bs s) = n_conf s" "n_arp (tx_set i off bs s) = n_arp s" "n_now (tx_set i off bs s) = n_now s"
  "n_yields (tx_set i off bs s) = n_yields s" "length (n_tx (tx_set i off bs s)) = length (n_tx s)"
  "i < length (n_tx s) \<Longrightarrow> buf_of i (tx_set i off bs s) = take off (buf_of i s) @ bs"
  "i < length (n_tx s) \<Longrightarrow> tb_allocated (n_tx (tx_set i off bs s) ! i) = tb_allocated (n_tx s ! i)"
  "i < length (n_tx s) \<Longrightarrow> tb_size (n_tx (tx_set i off bs s) ! i) = tb_size (n_tx s ! i)"
  by (simp_all add: tx_set_def)

lemma tx_set_twice:
  "i < length (n_tx s) \<Longrightarrow> n_tx (tx_set i off bs s) = (n_tx s)[i := (n_tx s ! i)\<lparr>tb_buf := take off (buf_of i s) @ bs\<rparr>]"
  by (simp add: tx_set_def)

definition eth_da_of :: "ip_conf \<Rightarrow> arp_entry list \<Rightarrow> u32 \<Rightarrow> bytes option" where
  "eth_da_of conf tbl dst =
     (if TCPIPIpAddr_IsMatchingBroadcast conf dst then Some TCPIP_ETH_ADDR_BCAST
      else if TCPIPIpAddr_IsMatchingMulticast dst then Some (mcast_eth dst)
      else let hop = (if TCPIPIpAddr_IsWithinSubnet conf dst then dst else TCPIPIpAddr_GetGatewayIP conf) in
        if TCPIPIpAddr_IsMatchingAny hop \<or> TCPIPIpAddr_IsMatchingBroadcast conf hop then Some TCPIP_ETH_ADDR_BCAST
        else map_option ae_ha (find (\<lambda>e. ae_pa e = hop) tbl))"

lemma GetHWAddr_find:
  "find (\<lambda>e. ae_pa e = pa) tbl = Some e \<Longrightarrow> \<exists>tbl'. TCPIPArpTable_GetHWAddr pa now tbl = (EOK, Some (ae_ha e), tbl')"
  by (induction tbl) (auto simp: TCPIPIpAddr_AddressMatch_def)

text \<open>The packet in the buffer: the header, its checksum and the checksum of the transport layer.\<close>

definition ip_built :: "u32 \<Rightarrow> u32 \<Rightarrow> u8 \<Rightarrow> u32 \<Rightarrow> nat option \<Rightarrow> bytes \<Rightarrow> fault + bytes" where
  "ip_built a d p n trn buf =
     bind_res (TCPIPIpChecksum_Set (ip_header a d p n (drop 14 buf))) (\<lambda>ip.
       let b = take 14 buf @ ip in
       if p = TCPIP_IP_PROTOCOL_TCP then
         case trn of None \<Rightarrow> Inl NullDeref
         | Some t \<Rightarrow> bind_res (TCPIPTcpChecksum_Set (drop 14 b) (drop t b)) (\<lambda>x. Inr (take t b @ x))
       else if p = TCPIP_IP_PROTOCOL_UDP then
         case trn of None \<Rightarrow> Inl NullDeref
         | Some t \<Rightarrow> bind_res (TCPIPUdpChecksum_Set (drop 14 b) (drop t b)) (\<lambda>x. Inr (take t b @ x))
       else Inr b)"

lemma tx_buf_upd: "t\<lparr>tb_buf := x, tb_size := n\<rparr> = \<lparr>tb_size = n, tb_allocated = tb_allocated t, tb_buf = x\<rparr>"
  by (cases t) simp

lemma Ip_Send_built:
  assumes "fr_eth fr = Some 0" "fr_bufid fr = i" "i < length (n_tx s)"
    and "eth_da_of (n_conf s) (n_arp s) dst = Some ha"
    and b: "ip_built (tcpip_ip_addr (n_conf s)) dst p (fr_size fr) (fr_trn fr) (buf_of i s) = Inr b"
  shows "\<exists>s'. TCPIPIp_Send fuel env fr dst p s = Some (Inr (EOK, s')) \<and>
    n_tx s' = n_tx (put_buf i (fr_size fr + 34) (eth_header ha TCPIP_ETH_ETHTYPE_IP b) s)"
proof -
  let ?a = "tcpip_ip_addr (n_conf s)"
  obtain ip where ip: "TCPIPIpChecksum_Set (ip_header ?a dst p (fr_size fr) (drop 14 (buf_of i s))) = Inr ip"
    using b by (auto simp: ip_built_def bind_res_eq_Inr)
  define s1 where "s1 = tx_set i 14 ip s"
  define b1 where "b1 = take 14 (buf_of i s) @ ip"
  have s1: "n_tx s1 = (n_tx s)[i := (n_tx s ! i)\<lparr>tb_buf := b1\<rparr>]" "n_conf s1 = n_conf s" "n_arp s1 = n_arp s"
    "tx_bytes i off s1 = drop off b1" for off
    using assms(3) by (simp_all add: s1_def b1_def tx_set_def tx_bytes_def)
  have edit: "\<exists>s2. tx_edit i t f s1 = Some (Inr ((), s2)) \<and> n_tx s2 = (n_tx s)[i := (n_tx s ! i)\<lparr>tb_buf := take t b1 @ x\<rparr>] \<and>
      n_conf s2 = n_conf s \<and> n_arp s2 = n_arp s"
    if "f (drop t b1) = Inr x" for t f x
    using that assms(3) s1 by (simp add: tx_edit_def ntry_def tx_set_def)
  have "\<exists>s2. trn_checksum p i 14 (fr_trn fr) s1 = Some (Inr ((), s2)) \<and>
    n_tx s2 = (n_tx s)[i := (n_tx s ! i)\<lparr>tb_buf := b\<rparr>] \<and> n_conf s2 = n_conf s \<and> n_arp s2 = n_arp s"
  proof (cases "p = TCPIP_IP_PROTOCOL_TCP")
    case True
    then obtain t x where t: "fr_trn fr = Some t" "TCPIPTcpChecksum_Set (drop 14 b1) (drop t b1) = Inr x" "b = take t b1 @ x"
      using b ip by (auto simp: ip_built_def Let_def bind_res_eq_Inr simp flip: b1_def split: option.splits)
    then show ?thesis using True edit [of "TCPIPTcpChecksum_Set (drop 14 b1)" t x] by (simp add: trn_checksum_def s1)
  next
    case False
    show ?thesis
    proof (cases "p = TCPIP_IP_PROTOCOL_UDP")
      case True
      then obtain t x where t: "fr_trn fr = Some t" "TCPIPUdpChecksum_Set (drop 14 b1) (drop t b1) = Inr x" "b = take t b1 @ x"
        using b ip False by (auto simp: ip_built_def Let_def bind_res_eq_Inr simp flip: b1_def split: option.splits)
      then show ?thesis using True False edit [of "TCPIPUdpChecksum_Set (drop 14 b1)" t x] by (simp add: trn_checksum_def s1)
    next
      case False
      then show ?thesis using \<open>p \<noteq> TCPIP_IP_PROTOCOL_TCP\<close> b ip s1 by (simp add: trn_checksum_def ip_built_def flip: b1_def)
    qed
  qed
  then obtain s2 where s2: "trn_checksum p i 14 (fr_trn fr) s1 = Some (Inr ((), s2))"
    "n_tx s2 = (n_tx s)[i := (n_tx s ! i)\<lparr>tb_buf := b\<rparr>]" "n_conf s2 = n_conf s" "n_arp s2 = n_arp s" by blast
  have out: "\<exists>s'. TCPIPEth_Send (fr\<lparr>fr_ptr := 14, fr_size := fr_size fr + 20\<rparr>) ha TCPIP_ETH_ETHTYPE_IP s3 = Some (Inr (EOK, s')) \<and>
      n_tx s' = n_tx (put_buf i (fr_size fr + 34) (eth_header ha TCPIP_ETH_ETHTYPE_IP b) s)"
    if "n_tx s3 = n_tx s2" for s3
    using that assms(1-3) s2(2)
    by (simp add: TCPIPEth_Send_def nbind_edit TCPIPRxTx_Send_def tx_bytes_def tx_set_def put_buf_def tx_buf_upd add.commute)
  have "\<exists>s3. n_tx s3 = n_tx s2 \<and> TCPIPIp_Send fuel env fr dst p s =
      TCPIPEth_Send (fr\<lparr>fr_ptr := 14, fr_size := fr_size fr + 20\<rparr>) ha TCPIP_ETH_ETHTYPE_IP s3"
  proof -
    let ?f = "fr\<lparr>fr_ptr := 0 + 14, fr_size := fr_size fr + 20\<rparr>"
    have pre: "TCPIPIp_Send fuel env fr dst p s =
      (if TCPIPIpAddr_IsMatchingBroadcast (n_conf s) dst then TCPIPEth_Send ?f TCPIP_ETH_ADDR_BCAST TCPIP_ETH_ETHTYPE_IP
       else if TCPIPIpAddr_IsMatchingMulticast dst then TCPIPEth_Send ?f (mcast_eth dst) TCPIP_ETH_ETHTYPE_IP
       else nbind (TCPIPArp_GetHWAddr fuel env (if TCPIPIpAddr_IsWithinSubnet (n_conf s) dst then dst
           else TCPIPIpAddr_GetGatewayIP (n_conf s))) (\<lambda>(ec, ha).
         if ec \<noteq> EOK then nbind (TCPIPIp_Drop fr) (\<lambda>_. nret ec)
         else nbind (opt ha) (\<lambda>ha. TCPIPEth_Send ?f ha TCPIP_ETH_ETHTYPE_IP))) s2"
      using ip assms(1-3)
      by (simp add: TCPIPIp_Send_def Let_def TCPIPIpAddr_GetIP_def nbind_edit tx_bytes_def nbind_Some s2(1,3) flip: s1_def)
    show ?thesis
    proof (cases "TCPIPIpAddr_IsMatchingBroadcast (n_conf s) dst \<or> TCPIPIpAddr_IsMatchingMulticast dst")
      case True
      then show ?thesis using pre assms(4) by (intro exI [of _ s2]) (auto simp: eth_da_of_def)
    next
      case False
      define hop where "hop = (if TCPIPIpAddr_IsWithinSubnet (n_conf s) dst then dst else TCPIPIpAddr_GetGatewayIP (n_conf s))"
      have "\<exists>s3. n_tx s3 = n_tx s2 \<and> TCPIPArp_GetHWAddr fuel env hop s2 = Some (Inr ((EOK, Some ha), s3))"
      proof (cases "TCPIPIpAddr_IsMatchingAny hop \<or> TCPIPIpAddr_IsMatchingBroadcast (n_conf s) hop")
        case True
        then show ?thesis using assms(4) False s2(3)
          by (intro exI [of _ s2]) (auto simp: eth_da_of_def TCPIPArp_GetHWAddr_def Let_def simp flip: hop_def)
      next
        case hop: False
        then obtain e where "find (\<lambda>e. ae_pa e = hop) (n_arp s) = Some e" "ae_ha e = ha"
          using assms(4) False by (auto simp: eth_da_of_def Let_def simp flip: hop_def)
        then obtain tbl where g: "TCPIPArpTable_GetHWAddr hop (n_now s2) (n_arp s2) = (EOK, Some ha, tbl)"
          using GetHWAddr_find s2(4) by metis
        then show ?thesis using hop s2(3)
          by (simp add: TCPIPArp_GetHWAddr_def TCPIP_ARP_ATTEMPTS_def numeral_eq_Suc arp_lookup_def nbind_ntry)
      qed
      then obtain s3 where "n_tx s3 = n_tx s2" "TCPIPArp_GetHWAddr fuel env hop s2 = Some (Inr ((EOK, Some ha), s3))" by blast
      then show ?thesis using pre False by (intro exI [of _ s3]) (simp add: nbind_Some flip: hop_def)
    qed
  qed
  then show ?thesis using out by metis
qed

text \<open>A calm allocation takes the first free buffer.\<close>

definition alloc_buf :: "(nat \<Rightarrow> net_st \<Rightarrow> net_st) \<Rightarrow> nat \<Rightarrow> net_st \<Rightarrow> net_st" where
  "alloc_buf env i s = (let s = do_yield env s in s\<lparr>n_tx := (n_tx s)[i := (n_tx s ! i)\<lparr>tb_allocated := True\<rparr>]\<rparr>)"

lemma alloc_buf_simps:
  assumes "calm env"
  shows "n_tx (alloc_buf env i s) = (n_tx s)[i := (n_tx s ! i)\<lparr>tb_allocated := True\<rparr>]"
    "n_conf (alloc_buf env i s) = n_conf s" "n_arp (alloc_buf env i s) = n_arp s"
  using assms by (simp_all add: alloc_buf_def do_yield_def calm_def Let_def)

lemma RxTx_Alloc_calm:
  assumes "calm env" "free_buf (n_tx s) = i" "i < length (n_tx s)"
  shows "TCPIPRxTx_Alloc (Suc fuel) env s = Some (Inr ((EOK, \<lparr>fr_flags = 0, fr_ptr = 0, fr_size = 1528, fr_bufid = i,
     fr_eth = None, fr_net = None, fr_trn = None\<rparr>), alloc_buf env i s))"
proof -
  have "alloc_loop (Suc fuel) env s = Some (Inr (i, do_yield env s))" using assms by (simp add: Let_def)
  then show ?thesis
    by (simp add: TCPIPRxTx_Alloc_def nbind_Some alloc_buf_def Let_def TCPIP_RXTX_BUF_SIZE_def)
qed

lemma Ip_Alloc_calm:
  assumes "calm env" "free_buf (n_tx s) = i" "i < length (n_tx s)"
  shows "TCPIPIp_Alloc (Suc fuel) env s = Some (Inr ((EOK, \<lparr>fr_flags = 3, fr_ptr = 34, fr_size = 1528, fr_bufid = i,
     fr_eth = Some 0, fr_net = Some 14, fr_trn = None\<rparr>), alloc_buf env i s))"
  using RxTx_Alloc_calm [OF assms, of fuel]
  by (simp add: TCPIPIp_Alloc_def TCPIPEth_Alloc_def TCPIP_FRAME_FLAGS_ETH_def TCPIP_FRAME_FLAGS_IP_def nbind_def EOK_def)

lemma wr16_twice: "wr16 (wr16 f i v) i w = wr16 f i w"
  by (simp add: wr16_def list_update_swap)

lemma checksum_set_shape:
  assumes "unat (ip_pld_len ip) \<le> length t"
  shows "\<exists>k. TCPIPUdpChecksum_Set ip t = Inr (wr16 t 6 (HTOBE16 k))"
    "\<exists>k. TCPIPTcpChecksum_Set ip t = Inr (wr16 t 16 (HTOBE16 k))"
  using assms
  by (simp_all add: TCPIPUdpChecksum_Set_def TCPIPTcpChecksum_Set_def TCPIPUdpChecksum_Compute_def
      TCPIPTcpChecksum_Compute_def mem_read_def frame_defs wr16_twice) auto

definition trn_patch :: "u8 \<Rightarrow> u16 \<Rightarrow> bytes \<Rightarrow> bytes" where
  "trn_patch p k t = (if p = TCPIP_IP_PROTOCOL_TCP then wr16 t 16 (HTOBE16 k)
     else if p = TCPIP_IP_PROTOCOL_UDP then wr16 t 6 (HTOBE16 k) else t)"

lemma trn_patch_length [simp]: "length (trn_patch p k t) = length t"
  by (simp add: trn_patch_def)

lemma unat_len16:
  assumes "unat n + 20 < 65536"
  shows "ucast (ucast (n + 20 :: u32) :: u16) - 20 = n"
proof -
  have u: "unat (n + 20) = unat n + 20" using assms by (intro unat_u32_add [of n 20, simplified]) simp
  have "unat (ucast (ucast (n + 20) :: u16) :: u32) = unat (n + 20)"
    using u assms by (simp add: unsigned_ucast_eq take_bit_eq_mod unat_mod)
  then have "ucast (ucast (n + 20) :: u16) = n + 20" by (simp add: word_unat_eq_iff)
  then show ?thesis by simp
qed

text \<open>The packet in the buffer has the header, and its payload is untouched but for the checksum.\<close>

lemma ip_built_spec:
  assumes "34 \<le> length buf" "unat n + 34 \<le> length buf" "unat n + 20 < 65536"
  obtains b k where "ip_built a d p n (Some 34) buf = Inr b" "length b = length buf"
    "ip_like a d p (ucast (n + 20)) (drop 14 b)" "drop 34 b = trn_patch p k (drop 34 buf)"
proof -
  obtain ip where ip: "TCPIPIpChecksum_Set (ip_header a d p n (drop 14 buf)) = Inr ip"
    "ip_like a d p (ucast (n + 20)) ip" "length ip = length (drop 14 buf)" "drop 20 ip = drop 20 (drop 14 buf)"
    by (rule ip_sent_like [of "drop 14 buf" a d p n]) (use assms in auto)
  define b1 where "b1 = take 14 buf @ ip"
  have b1: "drop 14 b1 = ip" "drop 34 b1 = drop 34 buf" "length b1 = length buf"
    using ip(3,4) assms by (simp_all add: b1_def)
  have built: "ip_built a d p n (Some 34) buf =
      (if p = TCPIP_IP_PROTOCOL_TCP then bind_res (TCPIPTcpChecksum_Set (drop 14 b1) (drop 34 b1)) (\<lambda>x. Inr (take 34 b1 @ x))
       else if p = TCPIP_IP_PROTOCOL_UDP then bind_res (TCPIPUdpChecksum_Set (drop 14 b1) (drop 34 b1)) (\<lambda>x. Inr (take 34 b1 @ x))
       else Inr b1)"
    by (simp only: ip_built_def ip(1) bind_res_simps Let_def b1_def option.case)
  have len: "unat (ip_pld_len ip) \<le> length (drop 34 b1)"
    using ip(2) assms unat_len16 [OF assms(3)] b1(3) by (simp add: ip_pld_len_def ip_like_def)
  have fin: "ip_like a d p (ucast (n + 20)) (drop 14 (take 34 b1 @ x))"
    "drop 34 (take 34 b1 @ x) = x" "length (take 34 b1 @ x) = length buf" if "length x = length (drop 34 b1)" for x
  proof -
    have "take 20 (drop 14 (take 34 b1 @ x)) = take 20 ip"
      using that assms b1 ip(3) by (simp add: drop_take)
    then show "ip_like a d p (ucast (n + 20)) (drop 14 (take 34 b1 @ x))"
      using that assms b1 ip(3) by (intro ip_like_take [OF ip(2)]) simp_all
  qed (use that assms b1 in simp_all)
  show thesis
  proof (cases "p = TCPIP_IP_PROTOCOL_TCP")
    case True
    obtain k where "TCPIPTcpChecksum_Set ip (drop 34 b1) = Inr (wr16 (drop 34 b1) 16 (HTOBE16 k))"
      using checksum_set_shape(2) [OF len] by blast
    then show thesis using True fin [of "wr16 (drop 34 b1) 16 (HTOBE16 k)"] built b1
      by (intro that [of "take 34 b1 @ wr16 (drop 34 b1) 16 (HTOBE16 k)" k])
        (simp_all add: trn_patch_def)
  next
    case ntcp: False
    show thesis
    proof (cases "p = TCPIP_IP_PROTOCOL_UDP")
      case True
      obtain k where "TCPIPUdpChecksum_Set ip (drop 34 b1) = Inr (wr16 (drop 34 b1) 6 (HTOBE16 k))"
        using checksum_set_shape(1) [OF len] by blast
      then show thesis using True ntcp fin [of "wr16 (drop 34 b1) 6 (HTOBE16 k)"] built b1
        by (intro that [of "take 34 b1 @ wr16 (drop 34 b1) 6 (HTOBE16 k)" k])
          (simp_all add: trn_patch_def)
    next
      case False
      then show thesis using ntcp ip(2) built b1
        by (intro that [of b1 0]) (simp_all add: trn_patch_def)
    qed
  qed
qed

lemma eth_header_spec:
  assumes "14 \<le> length b" "length ha = 6"
  shows "TCPIPEthFrame_GetEthType (eth_header ha t b) = t" "TCPIPEthFrame_GetDA (eth_header ha t b) = ha"
    "drop 14 (eth_header ha t b) = drop 14 b" "length (eth_header ha t b) = length b"
  using assms by (simp_all add: eth_header_def frame_defs rd_wr_other wr_drop)

text \<open>A frame as the receiver sees it: the bytes that were sent, and then whatever its buffer holds.\<close>

lemma rx_of_sent:
  fixes rest :: bytes
  assumes "34 \<le> m" "m \<le> length b" "length ha = 6" "ip_like a d p len (drop 14 b)"
  defines "rx \<equiv> take m (eth_header ha TCPIP_ETH_ETHTYPE_IP b) @ rest"
  shows "TCPIPEthFrame_GetEthType rx = TCPIP_ETH_ETHTYPE_IP" "ip_like a d p len (drop 14 rx)"
    "drop 34 rx = take (m - 34) (drop 34 b) @ rest"
proof -
  let ?e = "eth_header ha TCPIP_ETH_ETHTYPE_IP b"
  have e: "TCPIPEthFrame_GetEthType ?e = TCPIP_ETH_ETHTYPE_IP" "drop 14 ?e = drop 14 b" "length ?e = length b"
    using eth_header_spec [of b ha TCPIP_ETH_ETHTYPE_IP] assms by simp_all
  have "rx ! 12 = ?e ! 12" "rx ! 13 = ?e ! 13" using assms(1,2) e(3) by (simp_all add: rx_def nth_append)
  then show "TCPIPEthFrame_GetEthType rx = TCPIP_ETH_ETHTYPE_IP"
    using e(1) by (simp add: TCPIPEthFrame_GetEthType_def rd16_def)
  have d: "drop 14 rx = take (m - 14) (drop 14 b) @ rest"
    using assms(1,2) e by (simp add: rx_def drop_take)
  show "ip_like a d p len (drop 14 rx)"
    by (rule ip_like_take [OF assms(4)]) (use assms(1,2) d in \<open>auto simp: min_def\<close>)
  have "drop 34 rx = drop 20 (drop 14 rx)" by simp
  also have "\<dots> = take (m - 34) (drop 34 b) @ rest" unfolding d using assms(1,2) by (simp add: drop_take)
  finally show "drop 34 rx = take (m - 34) (drop 34 b) @ rest" .
qed

section \<open>Datagrams from socket to socket\<close>

lemma udp_header_spec:
  assumes "8 \<le> length udp"
  shows "TCPIPUdpFrame_GetSrcPort (udp_header sp dp n udp) = sp" "TCPIPUdpFrame_GetDstPort (udp_header sp dp n udp) = dp"
    "TCPIPUdpFrame_GetLength (udp_header sp dp n udp) = ucast (n + 8)"
    "drop 8 (udp_header sp dp n udp) = drop 8 udp" "length (udp_header sp dp n udp) = length udp"
  using assms by (simp_all add: udp_header_def frame_defs rd_wr_other wr_drop)

lemma udp_patch_fields:
  assumes "t' = trn_patch TCPIP_IP_PROTOCOL_UDP k t"
  shows "TCPIPUdpFrame_GetSrcPort t' = TCPIPUdpFrame_GetSrcPort t" "TCPIPUdpFrame_GetDstPort t' = TCPIPUdpFrame_GetDstPort t"
    "TCPIPUdpFrame_GetLength t' = TCPIPUdpFrame_GetLength t" "drop 8 t' = drop 8 t"
  using assms by (simp_all add: trn_patch_def TCPIP_IP_PROTOCOL_UDP_def TCPIP_IP_PROTOCOL_TCP_def frame_defs rd_wr_other wr_drop)

lemma ucast16_of_nat: "ucast (of_nat m :: u32) = (of_nat m :: u16)"
proof -
  have "unat (ucast (of_nat m :: u32) :: u16) = m mod 2 ^ 32 mod 2 ^ 16"
    by (simp add: unsigned_ucast_eq take_bit_eq_mod unat_mod unat_of_nat)
  also have "\<dots> = unat (of_nat m :: u16)" by (simp add: unat_of_nat mod_mod_cancel)
  finally show ?thesis by (simp add: word_unat_eq_iff)
qed

lemma ucast32_of_nat: "k < 65536 \<Longrightarrow> ucast (of_nat k :: u16) = (of_nat k :: u32)"
  by (simp add: word_unat_eq_iff unsigned_ucast_eq take_bit_eq_mod unat_mod unat_of_nat)

lemma tx_buf_upd2: "t\<lparr>tb_allocated := c, tb_buf := x\<rparr> = \<lparr>tb_size = tb_size t, tb_allocated = c, tb_buf = x\<rparr>"
  by (cases t) simp

text \<open>What \<open>TCPIPUdpSock_SendTo\<close> leaves in the buffer.\<close>

lemma SendTo_buffer:
  assumes "calm env" "free_buf (n_tx s) = i" "i < length (n_tx s)" "length (buf_of i s) = TCPIP_RXTX_BUF_SIZE"
    and "eth_da_of (n_conf s) (n_arp s) dst = Some ha" "length data + 42 \<le> TCPIP_RXTX_BUF_SIZE"
  obtains s' b where "TCPIPUdpSock_SendTo (Suc fuel) env sp dst dp data (of_nat (length data)) s = Some (Inr (EOK, s'))"
    "n_tx s' ! i = \<lparr>tb_size = of_nat (length data + 42), tb_allocated = True, tb_buf = eth_header ha TCPIP_ETH_ETHTYPE_IP b\<rparr>"
    "length b = TCPIP_RXTX_BUF_SIZE"
    "ip_like (tcpip_ip_addr (n_conf s)) dst TCPIP_IP_PROTOCOL_UDP (of_nat (length data + 28)) (drop 14 b)"
    "TCPIPUdpFrame_GetSrcPort (drop 34 b) = sp" "TCPIPUdpFrame_GetDstPort (drop 34 b) = dp"
    "TCPIPUdpFrame_GetLength (drop 34 b) = of_nat (length data + 8)" "take (length data) (drop 42 b) = data"
proof -
  let ?n = "of_nat (length data) :: u32" and ?a = "tcpip_ip_addr (n_conf s)"
  have L: "length (buf_of i s) = 1528" "length data + 42 \<le> 1528" using assms by (simp_all add: TCPIP_RXTX_BUF_SIZE_def)
  have n: "unat ?n = length data" using L by (simp add: unat_of_nat)
  define s1 where "s1 = alloc_buf env i s"
  have s1: "n_tx s1 = (n_tx s)[i := (n_tx s ! i)\<lparr>tb_allocated := True\<rparr>]" "n_conf s1 = n_conf s" "n_arp s1 = n_arp s"
    using alloc_buf_simps [OF assms(1)] by (simp_all add: s1_def)
  define fr where "fr = \<lparr>fr_flags = 19, fr_ptr = 42, fr_size = 1528, fr_bufid = i, fr_eth = Some 0, fr_net = Some 14, fr_trn = Some 34\<rparr>"
  have al: "TCPIPUdp_Alloc (Suc fuel) env s = Some (Inr ((EOK, fr), s1))"
    using Ip_Alloc_calm [OF assms(1-3), of fuel]
    by (simp add: TCPIPUdp_Alloc_def TCPIP_FRAME_FLAGS_UDP_def nbind_def EOK_def fr_def s1_def)
  define u1 where "u1 = data @ drop (length data) (drop 42 (buf_of i s))"
  define s2 where "s2 = tx_set i 42 u1 s1"
  define b2 where "b2 = take 42 (buf_of i s) @ u1"
  have u1: "bind_res (mem_read data 0 (unat ?n)) (\<lambda>d. mem_write (tx_bytes i 42 s1) 0 d) = Inr u1"
    using assms(3) L s1(1) n by (simp add: mem_read_def mem_write_def tx_bytes_def u1_def)
  have s2: "n_tx s2 = (n_tx s)[i := \<lparr>tb_size = tb_size (n_tx s ! i), tb_allocated = True, tb_buf = b2\<rparr>]"
    "n_conf s2 = n_conf s" "n_arp s2 = n_arp s" "length b2 = 1528" "drop 42 b2 = u1"
    using assms(3) s1 L by (simp_all add: s2_def tx_set_def b2_def u1_def tx_buf_upd2)
  define s3 where "s3 = tx_set i 34 (udp_header sp dp ?n (drop 34 b2)) s2"
  define b3 where "b3 = take 34 b2 @ udp_header sp dp ?n (drop 34 b2)"
  have uh: "length (udp_header sp dp ?n (drop 34 b2)) = length (drop 34 b2)" "drop 8 (udp_header sp dp ?n (drop 34 b2)) = drop 8 (drop 34 b2)"
    using udp_header_spec(4,5) [of "drop 34 b2" sp dp ?n] s2(4) by simp_all
  have s3: "n_tx s3 = (n_tx s)[i := \<lparr>tb_size = tb_size (n_tx s ! i), tb_allocated = True, tb_buf = b3\<rparr>]"
    "n_conf s3 = n_conf s" "n_arp s3 = n_arp s" "length b3 = 1528" "drop 34 b3 = udp_header sp dp ?n (drop 34 b2)"
    using assms(3) s2 uh(1) by (simp_all add: s3_def tx_set_def b3_def)
  have n8: "unat (?n + 8) = length data + 8" using n L by (simp add: unat_u32_add)
  obtain b k where b: "ip_built ?a dst TCPIP_IP_PROTOCOL_UDP (?n + 8) (Some 34) b3 = Inr b" "length b = length b3"
    "ip_like ?a dst TCPIP_IP_PROTOCOL_UDP (ucast (?n + 8 + 20)) (drop 14 b)"
    "drop 34 b = trn_patch TCPIP_IP_PROTOCOL_UDP k (drop 34 b3)"
    by (rule ip_built_spec [of b3 "?n + 8" ?a dst TCPIP_IP_PROTOCOL_UDP]) (use s3(4) n8 L in auto)
  obtain s' where s': "TCPIPIp_Send (Suc fuel) env (fr\<lparr>fr_size := ?n + 8, fr_ptr := 34\<rparr>) dst TCPIP_IP_PROTOCOL_UDP s3 = Some (Inr (EOK, s'))"
    "n_tx s' = n_tx (put_buf i (?n + 8 + 34) (eth_header ha TCPIP_ETH_ETHTYPE_IP b) s3)"
    using Ip_Send_built [of "fr\<lparr>fr_size := ?n + 8, fr_ptr := 34\<rparr>" i s3 dst ha TCPIP_IP_PROTOCOL_UDP b "Suc fuel" env]
      assms(3,5) s3 b(1) by (auto simp: fr_def)
  have "TCPIPUdpSock_SendTo (Suc fuel) env sp dst dp data ?n s = TCPIPUdp_Send (Suc fuel) env (fr\<lparr>fr_size := ?n\<rparr>) dst sp dp s2"
    using nbind_edit [of "\<lambda>b. bind_res (mem_read data 0 (unat ?n)) (\<lambda>d. mem_write b 0 d)" i 42 s1 u1] u1 al
    unfolding TCPIPUdpSock_SendTo_def s2_def by (simp add: nbind_Some) (simp add: fr_def)
  also have "\<dots> = TCPIPIp_Send (Suc fuel) env (fr\<lparr>fr_size := ?n + 8, fr_ptr := 34\<rparr>) dst TCPIP_IP_PROTOCOL_UDP s3"
    using assms(3) s2(1) by (simp add: TCPIPUdp_Send_def fr_def nbind_edit tx_bytes_def s3_def)
  finally have send: "TCPIPUdpSock_SendTo (Suc fuel) env sp dst dp data ?n s = Some (Inr (EOK, s'))" using s'(1) by simp
  have buf: "n_tx s' ! i = \<lparr>tb_size = of_nat (length data + 42), tb_allocated = True, tb_buf = eth_header ha TCPIP_ETH_ETHTYPE_IP b\<rparr>"
    using s'(2) s3(1) assms(3) by (simp add: put_buf_def add.commute)
  have len16: "ucast (?n + 8 + 20) = (of_nat (length data + 28) :: u16)" "ucast (?n + 8) = (of_nat (length data + 8) :: u16)"
    using ucast16_of_nat [of "length data + 28"] ucast16_of_nat [of "length data + 8"] by (simp_all add: add.commute)
  have d42: "drop 42 b = u1"
  proof -
    have "drop 42 b = drop 8 (drop 34 b)" by simp
    also have "\<dots> = drop 8 (drop 34 b3)" using udp_patch_fields(4) [OF b(4)] .
    also have "\<dots> = drop 42 b2" using s3(5) uh(2) by simp
    finally show ?thesis using s2(5) by simp
  qed
  have pl: "take (length data) (drop 42 b) = data" using d42 by (simp add: u1_def)
  show thesis
    by (rule that [OF send buf _ _ _ _ _ pl])
      (use b(2,3) s3(4,5) len16 udp_patch_fields [OF b(4)] udp_header_spec [of "drop 34 b2" sp dp ?n] s2(4)
        in \<open>simp_all add: TCPIP_RXTX_BUF_SIZE_def\<close>)
qed

lemma udp_input_pick:
  assumes "\<forall>x \<in> set pre. us_loc_port x \<noteq> dg_dst g" "TCPIPUdpSock_ProcessIncoming g u = Inr (EOK, u')"
  shows "udp_input_socks g ec (pre @ u # post) = Inr (EOK, pre @ u' # post)"
  using assms(1)
proof (induction pre arbitrary: ec)
  case (Cons x pre)
  have "TCPIPUdpSock_ProcessIncoming g x = Inr (EUNREACHABLE, x)"
    using Cons.prems by (simp add: TCPIPUdpSock_ProcessIncoming_def)
  then show ?case using Cons by (simp add: EOK_def EUNREACHABLE_def)
qed (use assms(2) in simp)

text \<open>
  C17: a datagram that a task of one host sends with \<open>TCPIPUdpSock_SendTo\<close> goes into a transmission
  buffer from which the other host, when it receives these bytes, puts the data with the address and the
  port of the sender at the end of the mailbox of the socket that is bound to the port. (The
  hardware address is known, the other tasks of the sender do not send meanwhile, the datagram fits
  the buffer, and the receiving socket has room.)
\<close>

theorem Udp_end_to_end:
  assumes "calm env" "free_buf (n_tx s) = i" "i < length (n_tx s)" "length (tb_buf (n_tx s ! i)) = TCPIP_RXTX_BUF_SIZE"
    and "eth_da_of (n_conf s) (n_arp s) dst = Some ha" "length ha = 6" "length data + 42 \<le> TCPIP_RXTX_BUF_SIZE"
    and "ip_for_us (n_conf t) dst" "n_udp t = pre @ u # post" "\<forall>x \<in> set pre. us_loc_port x \<noteq> dp"
    and "us_loc_port u = dp" "dp \<noteq> 0" "mailbox u ms" "length data + 10 \<le> unat (Queue_GetFree (us_rxq u))"
    and "fr_ptr fr = 0" "fr_flags fr = 0"
  shows "\<exists>s' buf fr' t' u'.
    TCPIPUdpSock_SendTo (Suc fuel) env sp dst dp data (of_nat (length data)) s = Some (Inr (EOK, s')) \<and>
    n_tx s' ! i = \<lparr>tb_size = of_nat (length data + 42), tb_allocated = True, tb_buf = buf\<rparr> \<and>
    TCPIPEth_Input fuel' env' rnd (take (length data + 42) buf @ rest) fr t = Some (Inr ((EOK, fr'), t')) \<and>
    n_udp t' = pre @ u' # post \<and> mailbox u' (ms @ [(tcpip_ip_addr (n_conf s), sp, data)])"
proof -
  let ?a = "tcpip_ip_addr (n_conf s)"
  obtain s' b where snt: "TCPIPUdpSock_SendTo (Suc fuel) env sp dst dp data (of_nat (length data)) s = Some (Inr (EOK, s'))"
    "n_tx s' ! i = \<lparr>tb_size = of_nat (length data + 42), tb_allocated = True, tb_buf = eth_header ha TCPIP_ETH_ETHTYPE_IP b\<rparr>"
    and b: "length b = TCPIP_RXTX_BUF_SIZE" "ip_like ?a dst TCPIP_IP_PROTOCOL_UDP (of_nat (length data + 28)) (drop 14 b)"
    "TCPIPUdpFrame_GetSrcPort (drop 34 b) = sp" "TCPIPUdpFrame_GetDstPort (drop 34 b) = dp"
    "TCPIPUdpFrame_GetLength (drop 34 b) = of_nat (length data + 8)" "take (length data) (drop 42 b) = data"
    using SendTo_buffer [OF assms(1-5,7)] by metis
  define rx where "rx = take (length data + 42) (eth_header ha TCPIP_ETH_ETHTYPE_IP b) @ rest"
  note len = b(1) assms(7) TCPIP_RXTX_BUF_SIZE_def
  have r: "TCPIPEthFrame_GetEthType rx = TCPIP_ETH_ETHTYPE_IP" "ip_like ?a dst TCPIP_IP_PROTOCOL_UDP (of_nat (length data + 28)) (drop 14 rx)"
    "drop 34 rx = take (length data + 8) (drop 34 b) @ rest"
    using rx_of_sent [of "length data + 42" b ha ?a dst TCPIP_IP_PROTOCOL_UDP "of_nat (length data + 28)" rest]
      assms(6) b(2) len by (simp_all add: rx_def add.commute)
  let ?fr = "ip_frame (of_nat (length data + 28)) fr"
  have u: "TCPIPUdpFrame_GetSrcPort (drop 34 rx) = sp" "TCPIPUdpFrame_GetDstPort (drop 34 rx) = dp"
    "TCPIPUdpFrame_GetLength (drop 34 rx) = of_nat (length data + 8)"
    using udp_fields_take [of "drop 34 rx" "drop 34 b"] r(3) b(3-5) len by auto
  have pl: "drop 42 rx = data @ rest"
  proof -
    have "drop 42 rx = drop 8 (drop 34 rx)" by simp
    also have "\<dots> = take (length data) (drop 42 b) @ rest" unfolding r(3) using len by (simp add: drop_take)
    finally show ?thesis using b(6) by simp
  qed
  define g where "g = \<lparr>dg_ip = ?a, dg_src = sp, dg_dst = dp, dg_size = of_nat (length data), dg_mem = data @ rest\<rparr>"
  have sz: "ucast (of_nat (length data) + 8 :: u16) - 8 = (of_nat (length data) :: u32)"
    using ucast32_of_nat [of "length data + 8"] len by simp
  have g: "dgram_of (drop 14 rx) (drop 34 rx) (of_nat (length data)) (drop 42 rx) = g"
    using r(2) u pl by (simp add: dgram_of_def g_def ip_like_def)
  obtain u' where u': "TCPIPUdpSock_ProcessIncoming g u = Inr (EOK, u')" "mailbox u' (ms @ [(?a, sp, data)])"
    using Udp_stores_datagram [of u ms g data rest] assms(11-14) len by (auto simp: g_def unat_of_nat)
  have "TCPIPEth_Input fuel' env' rnd rx fr t = TCPIPUdp_Input rx ?fr t"
    using Eth_Input_ip [OF r(1,2) assms(8,15,16), of fuel' env' rnd]
    by (simp add: TCPIP_IP_PROTOCOL_UDP_def TCPIP_IP_PROTOCOL_TCP_def TCPIP_IP_PROTOCOL_ICMP_def)
  also have "\<exists>fr'. \<dots> = Some (Inr ((EOK, fr'), t\<lparr>n_udp := pre @ u' # post\<rparr>))"
    using udp_input_pick [of pre g u u' EFATAL post] u'(1) assms(9,10) g
    by (simp add: TCPIPUdp_Input_def ip_frame_def Let_def u sz TCPIPUdpSock_Input_def nbind_ntry g_def)
  finally show ?thesis using snt u'(2) by (fastforce simp: rx_def)
qed

section \<open>Segments on the wire\<close>

lemma BITS_doffs:
  assumes "fl AND 0x3FF = fl"
  shows "BITS_RD (ucast (ucast (BITS_WR (ucast (ucast (BITS_WR (ucast (v :: u16)) 0x3FF fl) :: u16)) 0xF000 5) :: u16)) 0x3FF = fl"
    "BITS_RD (ucast (ucast (BITS_WR (ucast (ucast (BITS_WR (ucast (v :: u16)) 0x3FF fl) :: u16)) 0xF000 5) :: u16)) 0xF000 = 5"
proof -
  have m: "0x3FF = (mask 10 :: u32)" by (simp add: mask_eq_exp_minus_1)
  have f: "10 \<le> n \<Longrightarrow> \<not> bit fl n" for n
    using arg_cong [OF assms [unfolded m], of "\<lambda>x. bit x n"] by (auto simp: bit_simps)
  show "BITS_RD (ucast (ucast (BITS_WR (ucast (ucast (BITS_WR (ucast (v :: u16)) 0x3FF fl) :: u16)) 0xF000 5) :: u16)) 0x3FF = fl"
    by (simp add: BITS_RD_def BITS_WR_def word_bits bit_simps f)
  show "BITS_RD (ucast (ucast (BITS_WR (ucast (ucast (BITS_WR (ucast (v :: u16)) 0x3FF fl) :: u16)) 0xF000 5) :: u16)) 0xF000 = 5"
    by (simp add: BITS_RD_def BITS_WR_def word_bits bit_simps)
qed

lemma tcp_header_spec:
  fixes sp dp win :: u16 and seq ack :: u32
  assumes "20 \<le> length tcp" "fl AND 0x3FF = fl"
  defines "t \<equiv> tcp_header sp dp seq ack win fl tcp"
  shows "TCPIPTcpFrame_GetSrcPort t = sp" "TCPIPTcpFrame_GetDstPort t = dp" "TCPIPTcpFrame_GetSeq t = seq"
    "TCPIPTcpFrame_GetAck t = ack" "TCPIPTcpFrame_GetWindow t = ucast win" "TCPIPTcpFrame_GetFlags t = fl"
    "TCPIPTcpFrame_GetDataOffs t = 20" "drop 20 t = drop 20 tcp" "length t = length tcp"
proof -
  have l: "k < length tcp" if "k < 20" for k using assms(1) that by simp
  note sel = t_def tcp_header_def frame_defs Let_def rd_wr_other l wr_drop
  show "TCPIPTcpFrame_GetSrcPort t = sp" "TCPIPTcpFrame_GetDstPort t = dp" "TCPIPTcpFrame_GetSeq t = seq"
    "TCPIPTcpFrame_GetAck t = ack" "drop 20 t = drop 20 tcp" "length t = length tcp"
    by (simp_all add: sel)
  have "ucast (ucast win :: u32) = win" by (rule bit_word_eqI) (auto simp: bit_simps)
  then show "TCPIPTcpFrame_GetWindow t = ucast win" by (simp add: sel)
  show "TCPIPTcpFrame_GetFlags t = fl" "TCPIPTcpFrame_GetDataOffs t = 20"
    using BITS_doffs [OF assms(2)] by (simp_all add: sel TCPIP_TCP_FLAGS_DOFFS_FLAGS_def TCPIP_TCP_FLAGS_DOFFS_def)
qed

lemma nbind_ntry_case: "nbind (ntry h) f s = (case h s of Inl e \<Rightarrow> Some (Inl e) | Inr (x, s') \<Rightarrow> f x s')"
  by (simp add: nbind_def ntry_def split: sum.splits)

lemma tcp_patch_fields:
  assumes "t' = trn_patch TCPIP_IP_PROTOCOL_TCP k t"
  shows "TCPIPTcpFrame_GetSrcPort t' = TCPIPTcpFrame_GetSrcPort t" "TCPIPTcpFrame_GetDstPort t' = TCPIPTcpFrame_GetDstPort t"
    "TCPIPTcpFrame_GetSeq t' = TCPIPTcpFrame_GetSeq t" "TCPIPTcpFrame_GetAck t' = TCPIPTcpFrame_GetAck t"
    "TCPIPTcpFrame_GetDataOffs t' = TCPIPTcpFrame_GetDataOffs t" "TCPIPTcpFrame_GetFlags t' = TCPIPTcpFrame_GetFlags t"
    "TCPIPTcpFrame_GetWindow t' = TCPIPTcpFrame_GetWindow t" "drop 20 t' = drop 20 t"
  using assms by (simp_all add: trn_patch_def frame_defs rd_wr_other wr_drop)

text \<open>
  C18: the segment that \<open>TCPIPTcp_Send\<close> puts on the wire is, for the sockets of the host that receives
  it, the segment that the sending socket built: same ports, sequence numbers, window, flags and data,
  with the address of the sender. (This is \<open>seg_at\<close>, by which the segments of a connection travel in
  the theorem on streams.)
\<close>

theorem Tcp_segment_roundtrip:
  assumes "fr_eth fr = Some 0" "fr_trn fr = Some 34" "fr_bufid fr = i" "fr_size fr = of_nat (length (out_data seg))"
    and "i < length (n_tx s)" "length (tb_buf (n_tx s ! i)) = TCPIP_RXTX_BUF_SIZE"
    and "take (length (out_data seg)) (drop 54 (tb_buf (n_tx s ! i))) = out_data seg"
    and "length (out_data seg) + 54 \<le> TCPIP_RXTX_BUF_SIZE" "out_fl seg AND 0x3FF = out_fl seg"
    and "eth_da_of (n_conf s) (n_arp s) (out_addr seg) = Some ha" "length ha = 6"
    and "ip_for_us (n_conf t) (out_addr seg)" "fr_ptr rfr = 0" "fr_flags rfr = 0"
  shows "\<exists>s' buf fr'.
    TCPIPTcp_Send fuel env fr (out_addr seg) (out_src seg) (out_dst seg) (out_seq seg) (out_ack seg) (out_win seg)
      (out_fl seg) s = Some (Inr (EOK, s')) \<and>
    tb_size (n_tx s' ! i) = of_nat (length (out_data seg) + 54) \<and> tb_buf (n_tx s' ! i) = buf \<and>
    TCPIPEth_Input fuel' env' rnd (take (length (out_data seg) + 54) buf @ rest) rfr t =
      (case TCPIPTcpSock_Input (n_now t) rnd (seg_at (tcpip_ip_addr (n_conf s)) rest seg) (n_tcp t) of
         Inl e \<Rightarrow> Some (Inl e) | Inr (ec, ss) \<Rightarrow> Some (Inr ((ec, fr'), t\<lparr>n_tcp := ss\<rparr>)))"
proof -
  let ?m = "length (out_data seg)" and ?a = "tcpip_ip_addr (n_conf s)" and ?d = "out_addr seg"
  let ?hd = "tcp_header (out_src seg) (out_dst seg) (out_seq seg) (out_ack seg) (out_win seg) (out_fl seg)"
  define b0 where "b0 = tb_buf (n_tx s ! i)"
  have L: "length b0 = 1528" "?m + 54 \<le> 1528" "take ?m (drop 54 b0) = out_data seg"
    using assms(6-8) by (simp_all add: TCPIP_RXTX_BUF_SIZE_def b0_def)
  define h where "h = ?hd (drop 34 b0)"
  have h: "TCPIPTcpFrame_GetSrcPort h = out_src seg" "TCPIPTcpFrame_GetDstPort h = out_dst seg" "TCPIPTcpFrame_GetSeq h = out_seq seg"
    "TCPIPTcpFrame_GetAck h = out_ack seg" "TCPIPTcpFrame_GetWindow h = ucast (out_win seg)" "TCPIPTcpFrame_GetFlags h = out_fl seg"
    "TCPIPTcpFrame_GetDataOffs h = 20" "drop 20 h = drop 20 (drop 34 b0)" "length h = length (drop 34 b0)"
    unfolding h_def using tcp_header_spec [of "drop 34 b0" "out_fl seg"] L(1) assms(9) by simp_all
  define b1 where "b1 = take 34 b0 @ h"
  define s1 where "s1 = tx_set i 34 h s"
  have s1: "n_tx s1 = (n_tx s)[i := (n_tx s ! i)\<lparr>tb_buf := b1\<rparr>]" "n_conf s1 = n_conf s" "n_arp s1 = n_arp s"
    "length b1 = 1528" "drop 34 b1 = h"
    using assms(5) L(1) h(9) by (simp_all add: s1_def tx_set_def b1_def b0_def)
  let ?n = "of_nat ?m + 20 :: u32"
  have n: "unat ?n = ?m + 20" using L by (simp add: unat_u32_add unat_of_nat)
  obtain b k where b: "ip_built ?a ?d TCPIP_IP_PROTOCOL_TCP ?n (Some 34) b1 = Inr b" "length b = length b1"
    "ip_like ?a ?d TCPIP_IP_PROTOCOL_TCP (ucast (?n + 20)) (drop 14 b)" "drop 34 b = trn_patch TCPIP_IP_PROTOCOL_TCP k (drop 34 b1)"
    by (rule ip_built_spec [of b1 ?n ?a ?d TCPIP_IP_PROTOCOL_TCP]) (use s1(4) n L in auto)
  let ?f = "fr\<lparr>fr_ptr := 34, fr_size := ?n\<rparr>"
  obtain s' where s': "TCPIPIp_Send fuel env ?f ?d TCPIP_IP_PROTOCOL_TCP s1 = Some (Inr (EOK, s'))"
    "n_tx s' = n_tx (put_buf i (?n + 34) (eth_header ha TCPIP_ETH_ETHTYPE_IP b) s1)"
    using Ip_Send_built [of ?f i s1 ?d ha TCPIP_IP_PROTOCOL_TCP b fuel env] assms s1 b(1) by auto
  have send: "TCPIPTcp_Send fuel env fr ?d (out_src seg) (out_dst seg) (out_seq seg) (out_ack seg) (out_win seg) (out_fl seg) s
      = Some (Inr (EOK, s'))"
    using s'(1) assms(2-5) by (simp add: TCPIPTcp_Send_def nbind_edit tx_bytes_def s1_def h_def b0_def)
  have buf: "tb_size (n_tx s' ! i) = of_nat (?m + 54)" "tb_buf (n_tx s' ! i) = eth_header ha TCPIP_ETH_ETHTYPE_IP b"
    using s'(2) s1(1) assms(5) by (simp_all add: put_buf_def)
  define rx where "rx = take (?m + 54) (eth_header ha TCPIP_ETH_ETHTYPE_IP b) @ rest"
  have len16: "ucast (?n + 20) = (of_nat (?m + 40) :: u16)"
    using ucast16_of_nat [of "?m + 40"] by (simp add: add.commute)
  have r: "TCPIPEthFrame_GetEthType rx = TCPIP_ETH_ETHTYPE_IP" "ip_like ?a ?d TCPIP_IP_PROTOCOL_TCP (of_nat (?m + 40)) (drop 14 rx)"
    "drop 34 rx = take (?m + 20) (drop 34 b) @ rest"
    using rx_of_sent [of "?m + 54" b ha ?a ?d TCPIP_IP_PROTOCOL_TCP "of_nat (?m + 40)" rest]
      assms(11) b(2,3) s1(4) L(2) len16 by (simp_all add: rx_def add.commute)
  note p = tcp_patch_fields [OF b(4)]
  have tk: "take 20 (drop 34 rx) = take 20 (drop 34 b)" unfolding r(3) using b(2) s1(4) by simp
  note f = tcp_fields_take [OF tk]
  have pl: "drop 54 rx = out_data seg @ rest"
  proof -
    have "drop 54 rx = drop 20 (drop 34 rx)" by simp
    also have "\<dots> = take ?m (drop 20 (drop 34 b)) @ rest" unfolding r(3) using b(2) s1(4) L(2) by (simp add: drop_take)
    also have "drop 20 (drop 34 b) = drop 54 b0" using p(8) s1(5) h(8) by simp
    finally show ?thesis using L(3) by simp
  qed
  have sz: "ucast (of_nat ?m + 40 :: u16) - 20 - 20 = (of_nat ?m :: u32)"
    using ucast32_of_nat [of "?m + 40"] L(2) by simp
  have g: "seg_of (drop 14 rx) (drop 34 rx) (of_nat ?m) (drop 54 rx) = seg_at ?a rest seg"
    using r(2) f p s1(5) h pl by (simp add: seg_of_def seg_at_def ip_like_def)
  have "TCPIPEth_Input fuel' env' rnd rx rfr t = TCPIPTcp_Input rnd rx (ip_frame (of_nat (?m + 40)) rfr) t"
    using Eth_Input_ip [OF r(1,2) assms(12-14), of fuel' env' rnd]
    by (simp add: TCPIP_IP_PROTOCOL_TCP_def TCPIP_IP_PROTOCOL_ICMP_def)
  also have "\<exists>fr'. \<dots> = (case TCPIPTcpSock_Input (n_now t) rnd (seg_at ?a rest seg) (n_tcp t) of
         Inl e \<Rightarrow> Some (Inl e) | Inr (ec, ss) \<Rightarrow> Some (Inr ((ec, fr'), t\<lparr>n_tcp := ss\<rparr>)))"
  proof -
    have off: "TCPIPTcpFrame_GetDataOffs (drop 34 rx) = 20" using f(5) p(5) s1(5) h(7) by simp
    show ?thesis
      by (cases "TCPIPTcpSock_Input (n_now t) rnd (seg_at ?a rest seg) (n_tcp t)")
        (auto simp: TCPIPTcp_Input_def ip_frame_def Let_def off sz g nbind_ntry_case)
  qed
  finally show ?thesis using send buf by (auto simp: rx_def)
qed

section \<open>Examples\<close>

text \<open>A host with one free buffer and a socket, as an instance of the hypotheses above.\<close>

definition demo_net :: "udp_sock list \<Rightarrow> net_st" where
  "demo_net us = \<lparr>n_now = 5, n_cancelled = False, n_yields = 0,
     n_tx = [\<lparr>tb_size = 0, tb_allocated = False, tb_buf = replicate 1528 0\<rparr>], n_arp = [zero_entry], n_conf = ip_conf_init,
     n_udp = us, n_tcp = [], echo_seqno = 0, echo_id = 0, echo_ackno = 0\<rparr>"

definition demo_frame :: frame where
  "demo_frame = \<lparr>fr_flags = 0, fr_ptr = 0, fr_size = 1528, fr_bufid = 0, fr_eth = Some 0, fr_net = Some 14, fr_trn = Some 34\<rparr>"

lemma demo_net_simps:
  "calm (\<lambda>k s. s)" "free_buf (n_tx (demo_net us)) = 0" "0 < length (n_tx (demo_net us))"
  "length (tb_buf (n_tx (demo_net us) ! 0)) = TCPIP_RXTX_BUF_SIZE"
  "eth_da_of (n_conf (demo_net us)) (n_arp (demo_net us)) TCPIP_IP_ADDR_BCAST = Some TCPIP_ETH_ADDR_BCAST"
  "length TCPIP_ETH_ADDR_BCAST = 6" "ip_for_us (n_conf (demo_net us)) TCPIP_IP_ADDR_BCAST"
  "fr_ptr demo_frame = 0" "fr_flags demo_frame = 0" "fr_trn demo_frame = Some 34" "n_udp (demo_net us) = us"
  by (simp_all add: calm_def demo_net_def demo_frame_def TCPIP_RXTX_BUF_SIZE_def eth_da_of_def ip_for_us_def
      TCPIPIpAddr_IsMatchingBroadcast_def TCPIP_ETH_ADDR_BCAST_def)

theorem Udp_end_to_end_witness:
  "\<exists>s' buf fr' t' u'.
    TCPIPUdpSock_SendTo (Suc 0) (\<lambda>k s. s) 99 TCPIP_IP_ADDR_BCAST 53 [5, 6] (of_nat (length [5 :: u8, 6])) (demo_net []) =
      Some (Inr (EOK, s')) \<and>
    n_tx s' ! 0 = \<lparr>tb_size = of_nat (length [5 :: u8, 6] + 42), tb_allocated = True, tb_buf = buf\<rparr> \<and>
    TCPIPEth_Input 0 (\<lambda>k s. s) 0 (take (length [5 :: u8, 6] + 42) buf @ []) demo_frame
      (demo_net ([] @ demo_usock 0 (replicate 16 0) # [])) = Some (Inr ((EOK, fr'), t')) \<and>
    n_udp t' = [] @ u' # [] \<and> mailbox u' ([] @ [(tcpip_ip_addr (n_conf (demo_net [])), 99, [5, 6])])"
  by (rule Udp_end_to_end [OF demo_net_simps(1-6) _ demo_net_simps(7) demo_net_simps(11) _ _ _ demo_mailbox(1) _ demo_net_simps(8,9)])
    (simp_all add: TCPIP_RXTX_BUF_SIZE_def demo_usock_def Queue_GetFree_def Queue_GetUsed_def)

definition demo_out :: tcp_out where
  "demo_out = \<lparr>out_addr = TCPIP_IP_ADDR_BCAST, out_src = 80, out_dst = 80, out_seq = 7, out_ack = 50, out_win = 4, out_fl = 24,
     out_data = [0, 0]\<rparr>"

theorem Tcp_segment_roundtrip_witness:
  "\<exists>s' buf fr'.
    TCPIPTcp_Send 0 (\<lambda>k s. s) (demo_frame\<lparr>fr_size := 2\<rparr>) (out_addr demo_out) (out_src demo_out) (out_dst demo_out)
      (out_seq demo_out) (out_ack demo_out) (out_win demo_out) (out_fl demo_out) (demo_net []) = Some (Inr (EOK, s')) \<and>
    tb_size (n_tx s' ! 0) = of_nat (length (out_data demo_out) + 54) \<and> tb_buf (n_tx s' ! 0) = buf \<and>
    TCPIPEth_Input 0 (\<lambda>k s. s) 0 (take (length (out_data demo_out) + 54) buf @ []) demo_frame (demo_net []) =
      (case TCPIPTcpSock_Input (n_now (demo_net [])) 0 (seg_at (tcpip_ip_addr (n_conf (demo_net []))) [] demo_out)
         (n_tcp (demo_net [])) of
         Inl e \<Rightarrow> Some (Inl e) | Inr (ec, ss) \<Rightarrow> Some (Inr ((ec, fr'), (demo_net [])\<lparr>n_tcp := ss\<rparr>)))"
  by (rule Tcp_segment_roundtrip [where ha = TCPIP_ETH_ADDR_BCAST])
    (simp_all add: demo_net_simps demo_net_simps(4) [simplified] demo_out_def, simp_all add: demo_frame_def demo_net_def TCPIP_RXTX_BUF_SIZE_def)

end
