(* ===== verification/Net_Reply.thy ===== *)
theory Net_Reply
  imports Net_Path
begin

text \<open>The answers that the stack gives by itself: to echo requests and to address requests.\<close>

section \<open>Echo\<close>

lemma echo_size:
  "of_nat m + 4 + 4 = (of_nat (m + 8) :: u32)"
  "m < 1000000 \<Longrightarrow> unat (of_nat m + 4 + 4 :: u32) = m + 8"
proof -
  show e: "of_nat m + 4 + 4 = (of_nat (m + 8) :: u32)" by simp
  show "unat (of_nat m + 4 + 4 :: u32) = m + 8" if "m < 1000000"
    unfolding e unat_of_nat using that by simp
qed

lemma echo_header_spec:
  assumes "8 \<le> length icmp"
  shows "TCPIPIcmpFrame_GetType (icmp_echo_header ty ident seqno icmp) = ty"
    "TCPIPIcmpFrame_GetCode (icmp_echo_header ty ident seqno icmp) = 0"
    "TCPIPIcmpFrameEcho_GetID (drop 4 (icmp_echo_header ty ident seqno icmp)) = ident"
    "TCPIPIcmpFrameEcho_GetSeqNo (drop 4 (icmp_echo_header ty ident seqno icmp)) = seqno"
    "drop 8 (icmp_echo_header ty ident seqno icmp) = drop 8 icmp"
    "length (icmp_echo_header ty ident seqno icmp) = length icmp"
proof -
  have ne: "0 < length icmp" "Suc 0 < length icmp" "5 < length icmp" "7 < length icmp" "4 < length icmp" "6 < length icmp"
    using assms by auto
  show "TCPIPIcmpFrame_GetType (icmp_echo_header ty ident seqno icmp) = ty"
    "TCPIPIcmpFrame_GetCode (icmp_echo_header ty ident seqno icmp) = 0"
    using assms ne by (simp_all add: icmp_echo_header_def frame_defs Let_def nth_append)
  show "TCPIPIcmpFrameEcho_GetID (drop 4 (icmp_echo_header ty ident seqno icmp)) = ident"
    "TCPIPIcmpFrameEcho_GetSeqNo (drop 4 (icmp_echo_header ty ident seqno icmp)) = seqno"
    "drop 8 (icmp_echo_header ty ident seqno icmp) = drop 8 icmp"
    "length (icmp_echo_header ty ident seqno icmp) = length icmp"
    using assms by (simp_all add: icmp_echo_header_def frame_defs Let_def rd_wr_other wr_drop)
qed

lemma icmp_fields_take:
  assumes "take 2 a = take 2 b" "take 4 (drop 4 a) = take 4 (drop 4 b)"
  shows "TCPIPIcmpFrame_GetType a = TCPIPIcmpFrame_GetType b" "TCPIPIcmpFrame_GetCode a = TCPIPIcmpFrame_GetCode b"
    "TCPIPIcmpFrameEcho_GetID (drop 4 a) = TCPIPIcmpFrameEcho_GetID (drop 4 b)"
    "TCPIPIcmpFrameEcho_GetSeqNo (drop 4 a) = TCPIPIcmpFrameEcho_GetSeqNo (drop 4 b)"
  using nth_of_take [OF assms(1)] nth_of_take [OF assms(2)]
  by (simp_all add: TCPIPIcmpFrame_GetType_def TCPIPIcmpFrame_GetCode_def TCPIPIcmpFrameEcho_GetID_def
      TCPIPIcmpFrameEcho_GetSeqNo_def rd16_def del: nth_drop)

text \<open>What \<open>TCPIPIcmp_SendEcho\<close> leaves in the buffer.\<close>

definition echo_msg :: "u8 \<Rightarrow> u16 \<Rightarrow> u16 \<Rightarrow> bytes \<Rightarrow> bytes \<Rightarrow> bool" where
  "echo_msg ty ident seqno data icmp \<longleftrightarrow> TCPIPIcmpFrame_GetType icmp = ty \<and> TCPIPIcmpFrame_GetCode icmp = 0 \<and>
     TCPIPIcmpFrameEcho_GetID (drop 4 icmp) = ident \<and> TCPIPIcmpFrameEcho_GetSeqNo (drop 4 icmp) = seqno \<and>
     take (length data) (drop 8 icmp) = data \<and> TCPIPIcmpChecksum_IsValid icmp (of_nat (length data + 8)) = Inr True"

lemma echo_built:
  assumes "length data + 8 \<le> length icmp" "length data < 1000000"
  obtains x y where "mem_write (icmp_echo_header ty ident seqno icmp) 8 data = Inr x"
    "TCPIPIcmpChecksum_Set x (of_nat (length data) + 4 + 4) = Inr y" "length y = length icmp" "echo_msg ty ident seqno data y"
proof -
  let ?h = "icmp_echo_header ty ident seqno icmp"
  have l8: "8 \<le> length icmp" using assms by simp
  note h = echo_header_spec [OF l8, of ty ident seqno]
  define x where "x = take 8 ?h @ data @ drop (8 + length data) ?h"
  have x: "mem_write ?h 8 data = Inr x" "length x = length icmp"
    using assms h(6) by (simp_all add: mem_write_def x_def)
  have n: "unat (of_nat (length data) + 4 + 4 :: u32) = length data + 8" "of_nat (length data + 8) = (of_nat (length data) + 4 + 4 :: u32)"
    using echo_size(2) [OF assms(2)] by simp_all
  obtain y k where y: "TCPIPIcmpChecksum_Set x (of_nat (length data) + 4 + 4) = Inr y"
    "TCPIPIcmpChecksum_IsValid y (of_nat (length data) + 4 + 4) = Inr True" "y = wr16 x 2 (HTOBE16 k)"
    using Icmp_Set_valid [of "of_nat (length data) + 4 + 4" x] n x(2) assms(1) by auto
  have t8: "take 8 x = take 8 ?h" using h(6) l8 by (simp add: x_def)
  have "take 2 y = take 2 (take 8 x)" by (simp add: y(3) wr16_def)
  then have "take 2 y = take 2 ?h" unfolding t8 by simp
  moreover have "take 4 (drop 4 y) = take 4 (drop 4 ?h)"
    using t8 by (simp add: y(3) wr_drop take_drop)
  moreover have "take (length data) (drop 8 y) = data"
    using h(6) l8 by (simp add: y(3) wr_drop x_def)
  ultimately have "echo_msg ty ident seqno data y"
    using icmp_fields_take [of y ?h] h y(2) n(2) by (simp add: echo_msg_def add.commute)
  then show thesis using that x y by simp
qed


lemma SendEcho_buffer:
  assumes "calm env" "free_buf (n_tx s) = i" "i < length (n_tx s)" "length (buf_of i s) = TCPIP_RXTX_BUF_SIZE"
    and "eth_da_of (n_conf s) (n_arp s) dst = Some ha" "length ha = 6" "length data + 42 \<le> TCPIP_RXTX_BUF_SIZE"
  obtains s' buf where "TCPIPIcmp_SendEcho (Suc fuel) env dst ty ident seqno (data @ rest) (of_nat (length data)) s = Some (Inr (EOK, s'))"
    "n_tx s' ! i = \<lparr>tb_size = of_nat (length data + 42), tb_allocated = True, tb_buf = buf\<rparr>"
    "TCPIPEthFrame_GetEthType buf = TCPIP_ETH_ETHTYPE_IP" "TCPIPEthFrame_GetDA buf = ha"
    "ip_like (tcpip_ip_addr (n_conf s)) dst TCPIP_IP_PROTOCOL_ICMP (of_nat (length data + 28)) (drop 14 buf)"
    "echo_msg ty ident seqno data (drop 34 buf)"
proof -
  let ?n = "of_nat (length data) :: u32" and ?a = "tcpip_ip_addr (n_conf s)" and ?b0 = "buf_of i s"
  have L: "length ?b0 = 1528" "length data + 42 \<le> 1528" using assms by (simp_all add: TCPIP_RXTX_BUF_SIZE_def)
  have n: "unat ?n = length data" using L by (simp add: unat_of_nat)
  define s1 where "s1 = alloc_buf env i s"
  have s1: "n_tx s1 = (n_tx s)[i := (n_tx s ! i)\<lparr>tb_allocated := True\<rparr>]" "n_conf s1 = n_conf s" "n_arp s1 = n_arp s"
    using alloc_buf_simps [OF assms(1)] by (simp_all add: s1_def)
  define fr where "fr = \<lparr>fr_flags = 3, fr_ptr = 34, fr_size = 1528, fr_bufid = i, fr_eth = Some 0, fr_net = Some 14, fr_trn = None\<rparr>"
  have al: "TCPIPIp_Alloc (Suc fuel) env s = Some (Inr ((EOK, fr), s1))"
    using Ip_Alloc_calm [OF assms(1-3), of fuel] by (simp add: fr_def s1_def)
  obtain x y where xy: "mem_write (icmp_echo_header ty ident seqno (drop 34 ?b0)) 8 data = Inr x"
    "TCPIPIcmpChecksum_Set x (?n + 4 + 4) = Inr y" "length y = length (drop 34 ?b0)" "echo_msg ty ident seqno data y"
    by (rule echo_built [of data "drop 34 ?b0" ty ident seqno]) (use L in auto)
  have xl: "length x = length (drop 34 ?b0)"
    using mem_write_length [OF xy(1)] echo_header_spec(6) [of "drop 34 ?b0"] L by simp
  define s2 where "s2 = tx_set i 34 (icmp_echo_header ty ident seqno (drop 34 ?b0)) s1"
  define s3 where "s3 = tx_set i 34 x s2"
  define s4 where "s4 = tx_set i 34 y s3"
  define b4 where "b4 = take 34 ?b0 @ y"
  have tb: "tx_bytes i 34 s1 = drop 34 ?b0" "tx_bytes i 34 s2 = icmp_echo_header ty ident seqno (drop 34 ?b0)" "tx_bytes i 34 s3 = x"
    using assms(3) s1 L by (simp_all add: tx_bytes_def s2_def s3_def tx_set_def)
  have s4: "n_tx s4 = (n_tx s)[i := \<lparr>tb_size = tb_size (n_tx s ! i), tb_allocated = True, tb_buf = b4\<rparr>]"
    "n_conf s4 = n_conf s" "n_arp s4 = n_arp s" "length b4 = 1528" "drop 34 b4 = y"
    using assms(3) s1 L xy(3) by (simp_all add: s4_def s3_def s2_def tx_set_def b4_def tx_buf_upd2)
  let ?f = "fr\<lparr>fr_flags := 7, fr_trn := Some 34, fr_size := ?n + 4 + 4\<rparr>"
  have n8: "unat (?n + 4 + 4) = length data + 8" using L by (intro echo_size(2)) simp
  obtain b k where b: "ip_built ?a dst TCPIP_IP_PROTOCOL_ICMP (?n + 4 + 4) (Some 34) b4 = Inr b" "length b = length b4"
    "ip_like ?a dst TCPIP_IP_PROTOCOL_ICMP (ucast (?n + 4 + 4 + 20)) (drop 14 b)"
    "drop 34 b = trn_patch TCPIP_IP_PROTOCOL_ICMP k (drop 34 b4)"
    by (rule ip_built_spec [of b4 "?n + 4 + 4" ?a dst TCPIP_IP_PROTOCOL_ICMP]) (use s4(4) n8 L in auto)
  have b34: "drop 34 b = y"
    using b(4) s4(5) by (simp add: trn_patch_def TCPIP_IP_PROTOCOL_ICMP_def TCPIP_IP_PROTOCOL_UDP_def TCPIP_IP_PROTOCOL_TCP_def)
  obtain s' where s': "TCPIPIp_Send (Suc fuel) env ?f dst TCPIP_IP_PROTOCOL_ICMP s4 = Some (Inr (EOK, s'))"
    "n_tx s' = n_tx (put_buf i (?n + 4 + 4 + 34) (eth_header ha TCPIP_ETH_ETHTYPE_IP b) s4)"
    using Ip_Send_built [of ?f i s4 dst ha TCPIP_IP_PROTOCOL_ICMP b "Suc fuel" env] assms(3,5) s4 b(1) by (auto simp: fr_def)
  have send: "TCPIPIcmp_SendEcho (Suc fuel) env dst ty ident seqno (data @ rest) ?n s = Some (Inr (EOK, s'))"
  proof -
    have cp: "bind_res (mem_read (data @ rest) 0 (unat ?n)) (\<lambda>d. mem_write (tx_bytes i 34 s2) 8 d) = Inr x"
      using xy(1) tb(2) n by (simp add: mem_read_def)
    have "TCPIPIcmp_SendEcho (Suc fuel) env dst ty ident seqno (data @ rest) ?n s =
        nbind (tx_edit i 34 (\<lambda>b. Inr (icmp_echo_header ty ident seqno b))) (\<lambda>_.
        nbind (tx_edit i 34 (\<lambda>b. bind_res (mem_read (data @ rest) 0 (unat ?n)) (\<lambda>d. mem_write b 8 d))) (\<lambda>_.
        nbind (tx_edit i 34 (\<lambda>b. TCPIPIcmpChecksum_Set b (?n + 4 + 4))) (\<lambda>_.
        TCPIPIp_Send (Suc fuel) env ?f dst TCPIP_IP_PROTOCOL_ICMP))) s1"
      using al unfolding TCPIPIcmp_SendEcho_def
      by (simp add: nbind_Some Let_def) (simp add: fr_def TCPIP_FRAME_FLAGS_ICMP_def)
    moreover have "nbind (tx_edit i 34 (\<lambda>b. Inr (icmp_echo_header ty ident seqno b))) K s1 = K () s2" for K :: "unit \<Rightarrow> err_t net_m"
      unfolding s2_def by (rule nbind_edit) (simp add: tb)
    moreover have "nbind (tx_edit i 34 (\<lambda>b. bind_res (mem_read (data @ rest) 0 (unat ?n)) (\<lambda>d. mem_write b 8 d))) K s2 = K () s3"
      for K :: "unit \<Rightarrow> err_t net_m"
      unfolding s3_def by (rule nbind_edit) (rule cp)
    moreover have "nbind (tx_edit i 34 (\<lambda>b. TCPIPIcmpChecksum_Set b (?n + 4 + 4))) K s3 = K () s4" for K :: "unit \<Rightarrow> err_t net_m"
      unfolding s4_def by (rule nbind_edit) (simp only: tb xy(2))
    ultimately show ?thesis using s'(1) by (simp only:)
  qed
  let ?e = "eth_header ha TCPIP_ETH_ETHTYPE_IP b"
  have e: "TCPIPEthFrame_GetEthType ?e = TCPIP_ETH_ETHTYPE_IP" "TCPIPEthFrame_GetDA ?e = ha" "drop 14 ?e = drop 14 b"
    using eth_header_spec [of b ha TCPIP_ETH_ETHTYPE_IP] b(2) s4(4) assms(6) by simp_all
  have d34: "drop 34 ?e = y" using arg_cong [OF e(3), of "drop 20"] b34 by simp
  have buf: "n_tx s' ! i = \<lparr>tb_size = of_nat (length data + 42), tb_allocated = True, tb_buf = ?e\<rparr>"
    using s'(2) s4(1) assms(3) by (simp add: put_buf_def add.commute)
  have "ucast (?n + 4 + 4 + 20) = (of_nat (length data + 28) :: u16)"
    using ucast16_of_nat [of "length data + 28"] by (simp add: add.commute)
  then have "ip_like ?a dst TCPIP_IP_PROTOCOL_ICMP (of_nat (length data + 28)) (drop 14 ?e)" using b(3) e(3) by simp
  then show thesis using that [OF send buf e(1,2)] d34 xy(4) by simp
qed



section \<open>Address requests\<close>

definition arp_msg :: "u16 \<Rightarrow> bytes \<Rightarrow> u32 \<Rightarrow> bytes \<Rightarrow> u32 \<Rightarrow> bytes \<Rightarrow> bool" where
  "arp_msg oper sha spa tha tpa arp \<longleftrightarrow> arp_usable arp \<and> TCPIPArpFrame_GetOper arp = oper \<and>
     TCPIPArpFrameETHIP_GetSHA (drop 8 arp) = sha \<and> TCPIPArpFrameETHIP_GetSPA (drop 8 arp) = spa \<and>
     TCPIPArpFrameETHIP_GetTHA (drop 8 arp) = tha \<and> TCPIPArpFrameETHIP_GetTPA (drop 8 arp) = tpa"

lemma arp_header_spec:
  assumes "28 \<le> length arp" "length sha = 6" "length tha = 6"
  shows "arp_msg oper sha spa tha tpa (arp_header oper sha spa tha tpa arp)"
    "length (arp_header oper sha spa tha tpa arp) = length arp"
proof -
  define a where "a = wr16 (wr16 ((wr16 arp 6 (HTOBE16 oper))[4 := 6, 5 := 4]) 0 (HTOBE16 TCPIP_ARP_HTYPE_ETHERNET)) 2 (HTOBE16 TCPIP_ARP_PTYPE_IP)"
  define p where "p = wr32 (wr32 (wr_mac (wr_mac (drop 8 a) 0 sha) 10 tha) 6 (HTOBE32 spa)) 16 (HTOBE32 tpa)"
  have h: "arp_header oper sha spa tha tpa arp = take 8 a @ p"
    by (simp add: arp_header_def frame_defs Let_def a_def p_def)
  have la: "length a = length arp" by (simp add: a_def)
  have t: "take 8 (take 8 a @ p) = take 8 a" using assms(1) la by simp
  have d: "drop 8 (take 8 a @ p) = p" using assms(1) la by simp
  have n: "(take 8 a @ p) ! k = a ! k" if "k < 8" for k using that assms(1) la by (simp add: nth_append)
  have l: "k < length arp" if "k < 28" for k using assms(1) that by simp
  note sel = frame_defs rd_wr_other l
  have "rd16 a 0 = HTOBE16 TCPIP_ARP_HTYPE_ETHERNET" "rd16 a 2 = HTOBE16 TCPIP_ARP_PTYPE_IP" "rd16 a 6 = HTOBE16 oper"
    "a ! 4 = 6" "a ! 5 = 4"
    using assms(1) by (simp_all add: a_def sel)
  then have "arp_usable (take 8 a @ p) \<and> TCPIPArpFrame_GetOper (take 8 a @ p) = oper"
    by (simp add: arp_usable_def frame_defs rd16_def n)
  moreover have "rd_mac p 0 = sha" "rd_mac p 10 = tha" "rd32 p 6 = HTOBE32 spa" "rd32 p 16 = HTOBE32 tpa"
    using assms la by (simp_all add: p_def rd_wr_other)
  ultimately show "arp_msg oper sha spa tha tpa (arp_header oper sha spa tha tpa arp)"
    unfolding arp_msg_def h d by (simp add: frame_defs)
  show "length (arp_header oper sha spa tha tpa arp) = length arp"
    unfolding h using assms(1) la by (simp add: p_def)
qed

lemma rd_mac_length [simp]: "length (rd_mac f i) = 6"
  by (simp add: rd_mac_def)

lemma Eth_Alloc_calm:
  assumes "calm env" "free_buf (n_tx s) = i" "i < length (n_tx s)"
  shows "TCPIPEth_Alloc (Suc fuel) env s = Some (Inr ((EOK, \<lparr>fr_flags = 1, fr_ptr = 14, fr_size = 1528, fr_bufid = i,
     fr_eth = Some 0, fr_net = None, fr_trn = None\<rparr>), alloc_buf env i s))"
  using RxTx_Alloc_calm [OF assms, of fuel]
  by (simp add: TCPIPEth_Alloc_def TCPIP_FRAME_FLAGS_ETH_def nbind_def EOK_def)

lemma Arp_SendFrame_buffer:
  assumes "calm env" "free_buf (n_tx s) = i" "i < length (n_tx s)" "length (buf_of i s) = TCPIP_RXTX_BUF_SIZE"
    and "length da = 6" "length sha = 6" "length tha = 6"
  obtains s' buf where "TCPIPArp_SendFrame (Suc fuel) env da oper sha spa tha tpa s = Some (Inr (EOK, s'))"
    "n_arp s' = n_arp s" "n_tx s' ! i = \<lparr>tb_size = 42, tb_allocated = True, tb_buf = buf\<rparr>"
    "TCPIPEthFrame_GetEthType buf = TCPIP_ETH_ETHTYPE_ARP" "TCPIPEthFrame_GetDA buf = da"
    "arp_msg oper sha spa tha tpa (drop 14 buf)"
proof -
  define fr where "fr = \<lparr>fr_flags = 1, fr_ptr = 14, fr_size = 1528, fr_bufid = i, fr_eth = Some 0, fr_net = None, fr_trn = None\<rparr>"
  define s1 where "s1 = alloc_buf env i s"
  have s1: "n_tx s1 = (n_tx s)[i := (n_tx s ! i)\<lparr>tb_allocated := True\<rparr>]" "n_arp s1 = n_arp s"
    using alloc_buf_simps [OF assms(1)] by (simp_all add: s1_def)
  have al: "TCPIPEth_Alloc (Suc fuel) env s = Some (Inr ((EOK, fr), s1))"
    using Eth_Alloc_calm [OF assms(1-3), of fuel] by (simp add: fr_def s1_def)
  have L: "length (buf_of i s) = 1528" using assms(4) by (simp add: TCPIP_RXTX_BUF_SIZE_def)
  define h where "h = arp_header oper sha spa tha tpa (drop 14 (buf_of i s))"
  have h: "arp_msg oper sha spa tha tpa h" "length h = 1514"
    using arp_header_spec [of "drop 14 (buf_of i s)" sha tha oper spa tpa] L assms(6,7) by (simp_all add: h_def)
  define s2 where "s2 = tx_set i 14 h s1"
  define b2 where "b2 = take 14 (buf_of i s) @ h"
  have s2: "tb_buf (n_tx s2 ! i) = b2" "i < length (n_tx s2)" "n_arp s2 = n_arp s" "tb_allocated (n_tx s2 ! i)" "length b2 = 1528" "drop 14 b2 = h"
    using assms(3) s1 L h(2) by (simp_all add: s2_def b2_def tx_set_def)
  let ?e = "eth_header da TCPIP_ETH_ETHTYPE_ARP b2"
  have e: "TCPIPEthFrame_GetEthType ?e = TCPIP_ETH_ETHTYPE_ARP" "TCPIPEthFrame_GetDA ?e = da" "drop 14 ?e = h"
    using eth_header_spec [of b2 da TCPIP_ETH_ETHTYPE_ARP] s2(5,6) assms(5) by simp_all
  have "TCPIPArp_SendFrame (Suc fuel) env da oper sha spa tha tpa s =
      TCPIPEth_Send (fr\<lparr>fr_flags := 1 OR TCPIP_FRAME_FLAGS_ARP, fr_net := Some 14, fr_size := 8 + 20\<rparr>) da TCPIP_ETH_ETHTYPE_ARP s2"
  proof -
    have "nbind (tx_edit i 14 (\<lambda>b. Inr (arp_header oper sha spa tha tpa b))) K s1 = K () s2" for K :: "unit \<Rightarrow> err_t net_m"
      unfolding s2_def by (rule nbind_edit) (use s1 assms(3) in \<open>simp add: tx_bytes_def h_def\<close>)
    then show ?thesis using al by (simp add: TCPIPArp_SendFrame_def nbind_Some Let_def) (simp add: fr_def)
  qed
  also have "\<exists>s'. \<dots> = Some (Inr (EOK, s')) \<and> n_arp s' = n_arp s \<and> n_tx s' ! i = \<lparr>tb_size = 42, tb_allocated = True, tb_buf = ?e\<rparr>"
    using s2 by (simp add: TCPIPEth_Send_def fr_def nbind_edit TCPIPRxTx_Send_def tx_bytes_def tx_set_def tx_buf_upd)
  finally show thesis using that e h(1) by metis
qed

text \<open>
  C20: a request for the hardware address of the host is answered to the sender of the frame, with the
  host's addresses, and the sender's addresses go into the table.
\<close>

theorem Arp_request_answered:
  assumes "calm env" "free_buf (n_tx s) = i" "i < length (n_tx s)" "length (tb_buf (n_tx s ! i)) = TCPIP_RXTX_BUF_SIZE"
    and "TCPIPEthFrame_GetEthType rx = TCPIP_ETH_ETHTYPE_ARP"
    and "arp_msg TCPIP_ARP_OPER_REQUEST sha spa tha (tcpip_ip_addr (n_conf s)) (drop 14 rx)"
    and "TCPIPArpTable_UpdateTable sha spa (n_now s) (n_arp s) = Inr (ec, tbl)" "fr_ptr fr = 0"
  shows "\<exists>s' buf fr'. TCPIPEth_Input (Suc fuel) env rnd rx fr s = Some (Inr ((EOK, fr'), s')) \<and> n_arp s' = tbl \<and>
    n_tx s' ! i = \<lparr>tb_size = 42, tb_allocated = True, tb_buf = buf\<rparr> \<and>
    TCPIPEthFrame_GetEthType buf = TCPIP_ETH_ETHTYPE_ARP \<and> TCPIPEthFrame_GetDA buf = TCPIPEthFrame_GetSA rx \<and>
    arp_msg TCPIP_ARP_OPER_REPLY TCPIP_ETH_ADDRESS (tcpip_ip_addr (n_conf s)) sha spa (drop 14 buf)"
proof -
  let ?ip = "tcpip_ip_addr (n_conf s)" and ?s1 = "s\<lparr>n_arp := tbl\<rparr>" and ?sa = "TCPIPEthFrame_GetSA rx"
  have m: "arp_usable (drop 14 rx)" "TCPIPArpFrame_GetOper (drop 14 rx) = TCPIP_ARP_OPER_REQUEST"
    "TCPIPArpFrameETHIP_GetSHA (drop 22 rx) = sha" "TCPIPArpFrameETHIP_GetSPA (drop 22 rx) = spa"
    "TCPIPArpFrameETHIP_GetTPA (drop 22 rx) = ?ip"
    using assms(6) by (simp_all add: arp_msg_def)
  have l6: "length ?sa = 6" "length sha = 6" "length TCPIP_ETH_ADDRESS = 6"
    using m(3) rd_mac_length by (auto simp: frame_defs TCPIP_ETH_ADDRESS_def simp del: rd_mac_length)
  obtain s' buf where sent: "TCPIPArp_SendFrame (Suc fuel) env ?sa TCPIP_ARP_OPER_REPLY TCPIP_ETH_ADDRESS ?ip sha spa ?s1 = Some (Inr (EOK, s'))"
    "n_arp s' = n_arp ?s1" "n_tx s' ! i = \<lparr>tb_size = 42, tb_allocated = True, tb_buf = buf\<rparr>"
    "TCPIPEthFrame_GetEthType buf = TCPIP_ETH_ETHTYPE_ARP" "TCPIPEthFrame_GetDA buf = ?sa"
    "arp_msg TCPIP_ARP_OPER_REPLY TCPIP_ETH_ADDRESS ?ip sha spa (drop 14 buf)"
    using Arp_SendFrame_buffer [of env ?s1 i ?sa TCPIP_ETH_ADDRESS sha fuel TCPIP_ARP_OPER_REPLY ?ip spa] assms(1-4) l6
    by (metis (no_types, lifting) net_st.select_convs(4) net_st.surjective net_st.update_convs(5))
  have req: "TCPIPArp_ProcessRequest (Suc fuel) env rx (drop 14 rx) s = Some (Inr (EOK, s'))"
    using m assms(7) sent(1)
    by (simp add: TCPIPArp_ProcessRequest_def Let_def TCPIPIpAddr_GetIP_def TCPIPIpAddr_AddressMatch_def arp_update_def
        nbind_ntry nbind_Some TCPIPEthAddr_GetMAC_def)
  have "\<exists>fr'. TCPIPEth_Input (Suc fuel) env rnd rx fr s = Some (Inr ((EOK, fr'), s'))"
    using assms(5,8) m(2) req
    by (simp add: TCPIPEth_Input_def Let_def TCPIP_ETH_ETHTYPE_ARP_def TCPIP_ETH_ETHTYPE_IP_def TCPIPArp_Input_def nbind_Some)
  then show ?thesis using sent(2-6) by fastforce
qed

section \<open>Examples\<close>


theorem Arp_request_answered_witness:
  "\<exists>rx s' buf fr' tbl. arp_msg TCPIP_ARP_OPER_REQUEST [1, 2, 3, 4, 5, 6] 77 TCPIP_ETH_ADDR_BCAST
      (tcpip_ip_addr (n_conf (demo_net []))) (drop 14 rx) \<and>
    TCPIPEth_Input (Suc 0) (\<lambda>k s. s) 0 rx demo_frame (demo_net []) = Some (Inr ((EOK, fr'), s')) \<and> n_arp s' = tbl \<and>
    arp_msg TCPIP_ARP_OPER_REPLY TCPIP_ETH_ADDRESS (tcpip_ip_addr (n_conf (demo_net []))) [1, 2, 3, 4, 5, 6] 77 (drop 14 buf)"
proof -
  let ?us = "tcpip_ip_addr (n_conf (demo_net []))" and ?h = "[1, 2, 3, 4, 5, 6] :: bytes"
  let ?rx = "replicate 12 0 @ [8, 6] @ arp_header TCPIP_ARP_OPER_REQUEST ?h 77 TCPIP_ETH_ADDR_BCAST ?us (replicate 28 0)"
  have m: "arp_msg TCPIP_ARP_OPER_REQUEST ?h 77 TCPIP_ETH_ADDR_BCAST ?us (drop 14 ?rx)"
    using arp_header_spec(1) [of "replicate 28 0" ?h TCPIP_ETH_ADDR_BCAST TCPIP_ARP_OPER_REQUEST 77 ?us]
    by (simp add: TCPIP_ETH_ADDR_BCAST_def)
  have t: "TCPIPEthFrame_GetEthType ?rx = TCPIP_ETH_ETHTYPE_ARP"
    by (simp add: frame_defs rd16_def nth_append HTOBE16_le_word TCPIP_ETH_ETHTYPE_ARP_def del: le_word16.simps)
  obtain tbl where u: "TCPIPArpTable_UpdateTable ?h 77 (n_now (demo_net [])) (n_arp (demo_net [])) = Inr (EOK, tbl)"
    by (auto simp: TCPIPArpTable_UpdateTable_def demo_net_def zero_entry_def dtime_def Let_def split: if_splits)
  show ?thesis
    using Arp_request_answered [OF demo_net_simps(1-4) t m u demo_net_simps(8), of 0 0] m by blast
qed
end
