(* ===== verification/Net_Dns_Name.thy ===== *)
theory Net_Dns_Name
  imports Util_String
begin

text \<open>
  The coding of domain names of the multicast name service, \<^verbatim>\<open>net/mdns/src/frame.c\<close>.

  A frame is a list of bytes and pointers into it are offsets. Pointers inside names make
  \<open>MDNSFrame_DecodeName\<close> a loop that need not end, so it is a partial function: \<open>None\<close> is a loop that runs
  forever. The lemmas show that it ends when every pointer leads backwards, that it never leaves its buffers,
  and that it undoes \<open>MDNSFrame_EncodeName\<close>; and that a pointer to itself keeps it running.
\<close>

unbundle bit_operations_syntax

section \<open>Names\<close>

text \<open>
  The loop that copies one label: the rest of the name, the buffer, the place after the last character
  written and the space that is left. It stops at the end of the label and when one byte of space is left.
\<close>

fun enc_copy :: "bytes \<Rightarrow> bytes \<Rightarrow> nat \<Rightarrow> u32 \<Rightarrow> fault + bytes \<times> bytes \<times> nat \<times> u32" where
  "enc_copy [] dst dl dsz = Inl OutOfBounds"
| "enc_copy (c # s) dst dl dsz =
     (if c \<noteq> 0 \<and> c \<noteq> 46 \<and> dsz - 1 \<noteq> 0
      then (case mem_write dst dl [c] of
              Inl e \<Rightarrow> Inl e
            | Inr dst' \<Rightarrow> enc_copy s dst' (dl + 1) (dsz - 1))
      else Inr (c # s, dst, dl, dsz))"

lemma enc_copy_suffix:
  "enc_copy s dst dl dsz = Inr (s', dst', dl', dsz') \<Longrightarrow>
   length s' \<le> length s \<and> (s' \<noteq> s \<longrightarrow> length s' < length s)"
proof (induction s dst dl dsz rule: enc_copy.induct)
  case (2 c s dst dl dsz)
  show ?case
  proof (cases "c \<noteq> 0 \<and> c \<noteq> 46 \<and> dsz - 1 \<noteq> 0")
    case True
    with "2.prems" obtain d where "mem_write dst dl [c] = Inr d"
      "enc_copy s d (dl + 1) (dsz - 1) = Inr (s', dst', dl', dsz')"
      by (auto split: sum.splits)
    with "2.IH" True have "length s' \<le> length s" by fastforce
    then show ?thesis by auto
  next
    case False
    with "2.prems" show ?thesis by auto
  qed
qed simp

function enc_labels :: "bytes \<Rightarrow> bytes \<Rightarrow> nat \<Rightarrow> u32 \<Rightarrow> fault + err_t \<times> bytes" where
  "enc_labels s dst d dsz =
     (case s of
        [] \<Rightarrow> Inl OutOfBounds
      | c # _ \<Rightarrow>
          if c = 0 then
            (if dsz = 0 then Inr (EFATAL, dst)
             else bind_res (mem_write dst d [0]) (\<lambda>dst. Inr (int (d + 1), dst)))
          else if dsz < 1 then Inr (EFATAL, dst)
          else
            (case enc_copy s dst (d + 1) dsz of
               Inl e \<Rightarrow> Inl e
             | Inr (s', dst', dl, dsz') \<Rightarrow>
                 (case s' of
                    [] \<Rightarrow> Inl OutOfBounds
                  | c' # r \<Rightarrow>
                      if (c' \<noteq> 0 \<and> c' \<noteq> 46) \<or> dl - d > 0x40 \<or> (c' \<noteq> 0 \<and> dl - d = 1)
                      then Inr (EFATAL, dst')
                      else
                        (case mem_write dst' d [of_nat (dl - d - 1)] of
                           Inl e \<Rightarrow> Inl e
                         | Inr dst'' \<Rightarrow> enc_labels (if c' \<noteq> 0 then r else s') dst'' dl dsz'))))"
  by pat_completeness auto
termination
  by (relation "measure (\<lambda>(s, _). length s)")
    (auto dest!: enc_copy_suffix simp del: enc_copy.simps)

definition MDNSFrame_EncodeName :: "bytes \<Rightarrow> bytes \<Rightarrow> u32 \<Rightarrow> fault + err_t \<times> bytes" where
  "MDNSFrame_EncodeName name dst dst_size = enc_labels name dst 0 dst_size"

text \<open>
  The loop of \<open>MDNSFrame_DecodeName\<close>: \<open>s\<close> and \<open>d\<close> are the offsets of the pointers into the frame and
  into the destination, \<open>se\<close> and \<open>de\<close> the offsets of their ends.
\<close>

partial_function (option) dec_loop ::
  "bytes \<Rightarrow> nat \<Rightarrow> nat \<Rightarrow> nat \<Rightarrow> bytes \<Rightarrow> nat \<Rightarrow> bool \<Rightarrow> nat \<Rightarrow> (fault + err_t \<times> bytes) option"
where
  "dec_loop frame se de s dst d pointer_was_used bconsumed =
     (let bleft = (if se > s then se - s else 0) in
      if bleft \<ge> 1 \<and> length frame \<le> s then Some (Inl OutOfBounds)
      else if bleft \<ge> 1 \<and> frame ! s < 0x40 then
        (let l_size = unat (frame ! s) in
         if l_size > bleft - 1 \<or> de - d < l_size + 1 then Some (Inr (EARGVAL, dst))
         else
           let bconsumed = (if pointer_was_used then bconsumed else bconsumed + l_size + 1) in
           if l_size = 0 then
             Some (bind_res (if d \<noteq> 0 then mem_write dst (d - 1) [0] else mem_write dst d [0])
                     (\<lambda>dst. Inr (int bconsumed, dst)))
           else
             (case bind_res (mem_read frame (s + 1) l_size) (\<lambda>l. mem_write dst d (l @ [46])) of
                Inl e \<Rightarrow> Some (Inl e)
              | Inr dst \<Rightarrow>
                  dec_loop frame se de (s + 1 + l_size) dst (d + l_size + 1) pointer_was_used bconsumed))
      else if bleft \<ge> 2 \<and> length frame \<le> s + 1 then Some (Inl OutOfBounds)
      else if bleft \<ge> 2 \<and> frame ! s \<ge> 0xc0 then
        (let l_offs = unat (push_bit 8 (ucast (frame ! s AND 0x3f)) OR ucast (frame ! (s + 1)) :: u32);
             bconsumed = (if pointer_was_used then bconsumed else bconsumed + 2) in
         dec_loop frame se de l_offs dst d True bconsumed)
      else Some (Inr (EFATAL, dst)))"

definition MDNSFrame_DecodeName ::
  "nat \<Rightarrow> bytes \<Rightarrow> u32 \<Rightarrow> bytes \<Rightarrow> u32 \<Rightarrow> (fault + err_t \<times> bytes) option" where
  "MDNSFrame_DecodeName src frame frame_size dst dst_size =
     dec_loop frame (unat frame_size) (unat dst_size) src dst 0 False 0"


section \<open>What the coding means\<close>

text \<open>A domain name is a list of labels: with dots in the text, with length bytes on the wire.\<close>

fun dotted :: "bytes list \<Rightarrow> bytes" where
  "dotted [] = []"
| "dotted [l] = l"
| "dotted (l # m # ls) = l @ 46 # dotted (m # ls)"

fun wire :: "bytes list \<Rightarrow> bytes" where
  "wire [] = [0]"
| "wire (l # ls) = of_nat (length l) # l @ wire ls"

definition label_ok :: "bytes \<Rightarrow> bool" where
  "label_ok l \<longleftrightarrow> 1 \<le> length l \<and> length l \<le> 63 \<and> 0 \<notin> set l \<and> 46 \<notin> set l"

definition dots :: "bytes list \<Rightarrow> bytes" where
  "dots ls = concat (map (\<lambda>l. l @ [46]) ls)"

lemma dots_simps [simp]: "dots [] = []" "dots (l # ls) = l @ 46 # dots ls"
  by (simp_all add: dots_def)

lemma dots_dotted: "ls \<noteq> [] \<Longrightarrow> dots ls = dotted ls @ [46]"
  by (induction ls rule: dotted.induct) simp_all

lemma wire_length: "length (wire ls) = Suc (length (dots ls))"
  by (induction ls) simp_all

lemma wire_nonempty [simp]: "0 < length (wire ls)"
  by (simp add: wire_length)

lemma unat_u8_small: "n < 256 \<Longrightarrow> unat (of_nat n :: u8) = n"
  by (simp add: unat_of_nat)

section \<open>Encoding\<close>

lemma enc_copy_label:
  "0 \<notin> set l \<Longrightarrow> 46 \<notin> set l \<Longrightarrow> c = 0 \<or> c = 46 \<Longrightarrow> length l < unat dsz \<Longrightarrow>
   dl + length l \<le> length dst \<Longrightarrow>
   enc_copy (l @ c # r) dst dl dsz =
     Inr (c # r, take dl dst @ l @ drop (dl + length l) dst, dl + length l, dsz - of_nat (length l))"
proof (induction l arbitrary: dst dl dsz)
  case Nil
  then show ?case by auto
next
  case (Cons x l)
  have d1: "dsz - 1 \<noteq> 0" using Cons.prems(4) by auto
  have u: "unat (dsz - 1) = unat dsz - 1"
    using Cons.prems(4) by (intro unat_minus_one) auto
  let ?dst = "take dl dst @ x # drop (Suc dl) dst"
  have w: "mem_write dst dl [x] = Inr ?dst" using Cons.prems(5) by (simp add: mem_write_def)
  have "enc_copy (l @ c # r) ?dst (dl + 1) (dsz - 1) =
      Inr (c # r, take (dl + 1) ?dst @ l @ drop (dl + 1 + length l) ?dst, dl + 1 + length l,
           dsz - 1 - of_nat (length l))"
    by (rule Cons.IH) (use Cons.prems u in auto)
  moreover have "take (dl + 1) ?dst = take dl dst @ [x]" "drop (dl + 1 + length l) ?dst = drop (Suc (dl + length l)) dst"
    using Cons.prems(5) by (auto simp: min_def add_ac)
  ultimately show ?case using Cons.prems w d1 by (auto simp: algebra_simps)
qed

declare enc_labels.simps [simp del]

lemma enc_labels_step:
  assumes "s = x # t" "x \<noteq> 0" "dsz \<noteq> 0" "enc_copy s dst (d + 1) dsz = Inr (c' # r, dst', dl, dsz')"
    and "c' = 0 \<or> c' = 46" "dl - d \<le> 0x40" "dl - d \<noteq> 1" "mem_write dst' d [of_nat (dl - d - 1)] = Inr dst''"
  shows "enc_labels s dst d dsz = enc_labels (if c' \<noteq> 0 then r else c' # r) dst'' dl dsz'"
  using assms by (subst enc_labels.simps) (auto simp: simp del: enc_copy.simps)

lemma enc_labels_wire:
  "list_all label_ok ls \<Longrightarrow> d + length (wire ls) \<le> length dst \<Longrightarrow> length (wire ls) \<le> unat dsz \<Longrightarrow>
   enc_labels (dotted ls @ 0 # r) dst d dsz =
     Inr (int (d + length (wire ls)), take d dst @ wire ls @ drop (d + length (wire ls)) dst)"
proof (induction ls arbitrary: dst d dsz)
  case Nil
  then have "dsz \<noteq> 0" by auto
  then show ?case using Nil by (simp add: mem_write_def enc_labels.simps)
next
  case (Cons l ls)
  define c where "c = (if ls = [] then 0 else 46 :: u8)"
  define q where "q = (if ls = [] then r else dotted ls @ 0 # r)"
  have name: "dotted (l # ls) @ 0 # r = l @ c # q" by (cases ls) (simp_all add: c_def q_def)
  have next_s: "(if c \<noteq> 0 then q else c # q) = dotted ls @ 0 # r" by (cases ls) (simp_all add: c_def q_def)
  have l: "1 \<le> length l" "length l \<le> 63" "0 \<notin> set l" "46 \<notin> set l"
    using Cons.prems(1) by (auto simp: label_ok_def)
  then obtain x l' where xl: "l = x # l'" "x \<noteq> 0" by (cases l) auto
  have c: "c = 0 \<or> c = 46" by (simp add: c_def)
  have fit: "length l < unat dsz" using Cons.prems(3) by simp
  let ?d1 = "take (d + 1) dst @ l @ drop (d + 1 + length l) dst"
  have copy: "enc_copy (l @ c # q) dst (d + 1) dsz = Inr (c # q, ?d1, d + 1 + length l, dsz - of_nat (length l))"
    by (rule enc_copy_label) (use l c fit Cons.prems(2) in auto)
  let ?n = "of_nat (length l) :: u8"
  let ?d2 = "take d dst @ ?n # l @ drop (d + 1 + length l) dst"
  have w: "mem_write ?d1 d [of_nat (d + 1 + length l - d - 1)] = Inr ?d2"
    using Cons.prems(2) wire_nonempty [of ls] by (auto simp: mem_write_def min_def)
  have u: "unat (dsz - of_nat (length l)) = unat dsz - length l"
    using fit l(2) by (subst unat_sub) (auto simp: unat_of_nat word_le_nat_alt)
  have "enc_labels (dotted ls @ 0 # r) ?d2 (d + 1 + length l) (dsz - of_nat (length l)) =
      Inr (int (d + 1 + length l + length (wire ls)),
           take (d + 1 + length l) ?d2 @ wire ls @ drop (d + 1 + length l + length (wire ls)) ?d2)"
    by (rule Cons.IH) (use Cons.prems u in auto)
  moreover have "take (d + 1 + length l) ?d2 = take d dst @ ?n # l"
    "drop (d + 1 + length l + length (wire ls)) ?d2 = drop (d + 1 + length l + length (wire ls)) dst"
    using Cons.prems(2) by (auto simp: min_def add_ac)
  moreover have "dsz \<noteq> 0" using fit by auto
  moreover have "enc_labels (l @ c # q) dst d dsz =
      enc_labels (if c \<noteq> 0 then q else c # q) ?d2 (d + 1 + length l) (dsz - of_nat (length l))"
    by (rule enc_labels_step [OF _ xl(2) _ copy c _ _ w]) (use xl l fit in auto)
  ultimately show ?case unfolding name next_s by (simp add: add_ac)
qed

section \<open>Decoding\<close>

text \<open>One round of the loop at a label, at the end of the name and at a pointer.\<close>

definition ptr_target :: "bytes \<Rightarrow> nat \<Rightarrow> nat" where
  "ptr_target frame p = unat (push_bit 8 (ucast (frame ! p AND 0x3f)) OR ucast (frame ! (p + 1)) :: u32)"

lemma dec_label:
  assumes "s < se" "se \<le> length frame" "frame ! s = of_nat n" "1 \<le> n" "n \<le> 63" "s + n < se"
    and "n + 1 \<le> de - d" "de \<le> length dst"
  shows "dec_loop frame se de s dst d u bc =
    dec_loop frame se de (s + 1 + n)
      (take d dst @ take n (drop (s + 1) frame) @ 46 # drop (d + n + 1) dst) (d + n + 1) u
      (if u then bc else bc + n + 1)"
proof -
  have n: "unat (frame ! s) = n" "frame ! s < 0x40"
    using assms(3-5) by (simp_all add: unat_u8_small word_less_nat_alt)
  have "bind_res (mem_read frame (s + 1) n) (\<lambda>l. mem_write dst d (l @ [46])) =
      Inr (take d dst @ take n (drop (s + 1) frame) @ 46 # drop (d + n + 1) dst)"
  proof -
    have "s + 1 + n \<le> length frame" "d + n + 1 \<le> length dst" using assms by auto
    then show ?thesis by (simp add: mem_read_def mem_write_def)
  qed
  moreover have "1 \<le> se - s" "\<not> length frame \<le> s" "\<not> se - s - 1 < n" "\<not> de - d < n + 1" "n \<noteq> 0"
    using assms by auto
  ultimately show ?thesis using assms(1) n by (subst dec_loop.simps) (auto simp: Let_def)
qed

lemma dec_end:
  assumes "s < se" "se \<le> length frame" "frame ! s = 0" "1 \<le> de - d" "de \<le> length dst"
  shows "dec_loop frame se de s dst d u bc =
    Some (Inr (int (if u then bc else bc + 1), if d \<noteq> 0 then dst[d - 1 := 0] else dst[d := 0]))"
proof -
  have "mem_write dst i [0] = Inr (dst[i := 0])" if "i < length dst" for i
    using that by (simp add: mem_write_def upd_conv_take_nth_drop)
  moreover have "d < length dst" "d - 1 < length dst" "\<not> de \<le> d" "Suc 0 \<le> se - s" "s < length frame"
    using assms by auto
  ultimately show ?thesis using assms(1,3) by (subst dec_loop.simps) (auto simp: Let_def)
qed

lemma dec_pointer:
  assumes "s + 2 \<le> se" "se \<le> length frame" "0xc0 \<le> frame ! s"
  shows "dec_loop frame se de s dst d u bc =
    dec_loop frame se de (ptr_target frame s) dst d True (if u then bc else bc + 2)"
proof -
  have "\<not> frame ! s < 0x40" using assms(3) by (auto simp: word_le_nat_alt word_less_nat_alt)
  moreover have "2 \<le> se - s" "s + 1 < length frame" using assms by auto
  ultimately show ?thesis using assms by (subst dec_loop.simps) (simp add: Let_def ptr_target_def)
qed

lemma dec_loop_wire:
  "list_all label_ok ls \<Longrightarrow> take (length (wire ls)) (drop s frame) = wire ls \<Longrightarrow>
   s + length (wire ls) \<le> se \<Longrightarrow> se \<le> length frame \<Longrightarrow> length (wire ls) \<le> de - d \<Longrightarrow> de \<le> length dst \<Longrightarrow>
   dec_loop frame se de s dst d False bc =
     Some (Inr (int (bc + length (wire ls)),
       if d + length (dots ls) \<noteq> 0
       then (take d dst @ dots ls @ drop (d + length (dots ls)) dst) [d + length (dots ls) - 1 := 0]
       else dst[0 := 0]))"
proof (induction ls arbitrary: s dst d bc)
  case Nil
  then have "drop s frame ! 0 = 0" by (cases "drop s frame") auto
  then have "frame ! s = 0" using Nil.prems by simp
  then show ?case using Nil.prems by (simp add: dec_end)
next
  case (Cons l ls)
  have l: "1 \<le> length l" "length l \<le> 63" using Cons.prems(1) by (auto simp: label_ok_def)
  let ?n = "length l"
  have len: "length (wire (l # ls)) = ?n + 1 + length (wire ls)" by simp
  obtain post where fr: "drop s frame = wire (l # ls) @ post"
    using Cons.prems(2) by (metis append_take_drop_id)
  then have hd: "frame ! s = of_nat ?n" and tl: "drop (s + 1) frame = l @ wire ls @ post"
    using Cons.prems(3,4) by (auto simp: hd_drop_conv_nth [symmetric] drop_Suc tl_drop [symmetric])
  then have tl2: "drop (s + 1 + ?n) frame = wire ls @ post"
    by (metis append_eq_conv_conj drop_drop add.commute)
  let ?dst = "take d dst @ l @ 46 # drop (d + ?n + 1) dst"
  have step: "dec_loop frame se de s dst d False bc =
      dec_loop frame se de (s + 1 + ?n) ?dst (d + ?n + 1) False (bc + ?n + 1)"
    using dec_label [of s se frame ?n de d dst False bc] Cons.prems l hd tl by simp
  have d: "d + ?n + 1 \<le> length dst" using Cons.prems(5,6) by simp
  have "take (d + ?n + 1) ?dst = take d dst @ l @ [46]"
    "drop (d + ?n + 1 + length (dots ls)) ?dst = drop (d + ?n + 1 + length (dots ls)) dst"
    using d by (auto simp: min_def add_ac)
  then show ?case
    unfolding step using Cons.prems d tl2
    by (subst Cons.IH) (auto simp: add_ac)
qed

text \<open>Whatever the frame holds, a decoding that returns has stayed inside its buffers.\<close>

lemma mem_write_one: "i < length dst \<Longrightarrow> mem_write dst i [x] = Inr (dst[i := x])"
  by (simp add: mem_write_def upd_conv_take_nth_drop)

lemma dec_loop_safe:
  assumes "dec_loop frame se de s dst d u bc = Some r" "se \<le> length frame" "de \<le> length dst"
    and "if u then src + bc \<le> se else s = src + bc"
  shows "\<exists>ec dst'. r = Inr (ec, dst') \<and> length dst' = length dst \<and>
           (0 \<le> ec \<longrightarrow> src + nat ec \<le> se \<and> 0 \<in> set (take de dst'))"
  using assms
proof (induction frame se de s dst d u bc r rule: dec_loop.raw_induct [rotated, consumes 1, case_names step])
  case (step loop frame se de s dst d u bc r)
  note IH = step.IH and body = step.hyps
  let ?n = "unat (frame ! s)"
  have fin: "0 \<in> set (take de (dst[i := 0]))" if "i < de" for i
    using that step.prems(2) by (auto simp: in_set_conv_nth intro!: exI [of _ i])
  have w1: "mem_write dst i [0] = Inr (dst[i := 0])" if "i < de" for i
    using that step.prems(2) by (intro mem_write_one) simp
  consider (out) "se \<le> s"
    | (label) "s < se" "frame ! s < 0x40"
    | (pointer) "s < se" "\<not> frame ! s < 0x40" "s + 2 \<le> se" "0xc0 \<le> frame ! s"
    | (other) "s < se" "\<not> frame ! s < 0x40" "\<not> (s + 2 \<le> se \<and> 0xc0 \<le> frame ! s)"
    by fastforce
  then show ?case
  proof cases
    case out
    then show ?thesis using body by (auto simp: err_defs)
  next
    case other
    then show ?thesis using body step.prems(1) by (auto simp: Let_def err_defs split: if_splits)
  next
    case pointer
    then have "2 \<le> se - s" "s + 1 < length frame" using step.prems(1) by auto
    with pointer body have "loop frame se de (ptr_target frame s) dst d True (if u then bc else bc + 2) = Some r"
      by (simp add: Let_def ptr_target_def)
    then show ?thesis using IH step.prems pointer by (fastforce split: if_splits)
  next
    case label
    then have l: "1 \<le> se - s" "s < length frame" using step.prems(1) by auto
    let ?bad = "?n > se - s - 1 \<or> de - d < ?n + 1" and ?bc = "if u then bc else bc + ?n + 1"
    show ?thesis
    proof (cases ?bad)
      case True
      then show ?thesis using body label l by (auto simp: Let_def err_defs split: if_splits)
    next
      case fits: False
      show ?thesis
      proof (cases "?n = 0")
        case True
        then show ?thesis using body label l fits step.prems fin [of "d - 1"] fin [of d]
            w1 [of "d - 1"] w1 [of d]
          by (auto simp: Let_def split: if_splits)
      next
        case False
        let ?dst = "take d dst @ take ?n (drop (s + 1) frame) @ 46 # drop (d + ?n + 1) dst"
        have "s + 1 + ?n \<le> length frame" "d + ?n + 1 \<le> length dst" using fits step.prems l by auto
        then have w: "bind_res (mem_read frame (s + 1) ?n) (\<lambda>l. mem_write dst d (l @ [46])) = Inr ?dst"
          and len: "length ?dst = length dst"
          by (simp_all add: mem_read_def mem_write_def)
        have "loop frame se de (s + 1 + ?n) ?dst (d + ?n + 1) u ?bc = Some r"
          using body label l fits False w by (auto simp: Let_def split: if_splits)
        from IH [OF this] show ?thesis using step.prems len fits by (auto split: if_splits)
      qed
    qed
  qed
qed

text \<open>Pointers that lead backwards cannot keep the loop running: every label uses up space of the destination.\<close>

definition ptrs_backward :: "bytes \<Rightarrow> nat \<Rightarrow> bool" where
  "ptrs_backward frame se \<longleftrightarrow>
     list_all (\<lambda>p. 0xc0 \<le> frame ! p \<and> p + 2 \<le> se \<longrightarrow> ptr_target frame p < p) [0..<se]"

lemma dec_loop_ends:
  assumes "ptrs_backward frame se" "se \<le> length frame" "de \<le> length dst"
  shows "\<exists>r. dec_loop frame se de s dst d u bc = Some r"
  using assms(3)
proof (induction "de - d" arbitrary: s dst d u bc rule: less_induct)
  case outer: less
  then show ?case
  proof (induction s arbitrary: u bc rule: less_induct)
    case inner: (less s)
    let ?n = "unat (frame ! s)"
    have "\<not> (frame ! s < 0x40 \<and> 0xc0 \<le> frame ! s)" by (auto simp: word_less_nat_alt word_le_nat_alt)
    then consider (pointer) "\<not> frame ! s < 0x40" "s + 2 \<le> se" "0xc0 \<le> frame ! s"
      | (label) "s < se" "frame ! s < 0x40" "1 \<le> ?n" "s + ?n < se" "?n + 1 \<le> de - d"
      | (other) "\<not> (s + 2 \<le> se \<and> 0xc0 \<le> frame ! s)"
          "\<not> (s < se \<and> frame ! s < 0x40 \<and> 1 \<le> ?n \<and> s + ?n < se \<and> ?n + 1 \<le> de - d)"
      by fastforce
    then show ?case
    proof cases
      case pointer
      then have "ptr_target frame s < s" using assms(1) by (auto simp: ptrs_backward_def list_all_iff)
      then show ?thesis using inner.IH inner.prems pointer assms(2) by (simp add: dec_pointer)
    next
      case label
      then have n: "?n \<le> 63" by (simp add: word_less_nat_alt)
      let ?dst = "take d dst @ take ?n (drop (s + 1) frame) @ 46 # drop (d + ?n + 1) dst"
      have "d + ?n + 1 \<le> length dst" "s + 1 + ?n \<le> length frame" using label inner.prems(2) assms(2) by auto
      then have len: "length ?dst = length dst" by simp
      have "de - (d + ?n + 1) < de - d" "de \<le> length ?dst" using label inner.prems(2) len by auto
      then show ?thesis
        using inner.prems(1) dec_label [of s se frame ?n de d dst u bc] label n assms(2) inner.prems(2) by simp
    next
      case other
      then show ?thesis using assms(2) by (subst dec_loop.simps) (auto simp: Let_def)
    qed
  qed
qed

lemma Mdns_self_pointer_hangs:
  assumes "p + 2 \<le> se" "se \<le> length frame" "0xc0 \<le> frame ! p" "ptr_target frame p = p"
  shows "dec_loop frame se de p dst d u bc = None"
proof -
  have "p + 2 \<le> se \<longrightarrow> se \<le> length frame \<longrightarrow> 0xc0 \<le> frame ! p \<longrightarrow> ptr_target frame p = p \<longrightarrow> False"
    if "dec_loop frame se de p dst d u bc = Some r" for r
    using that
  proof (induction frame se de p dst d u bc r rule: dec_loop.raw_induct [rotated, consumes 1, case_names step])
    case (step loop frame se de s dst d u bc r)
    show ?case
    proof (intro impI)
      assume a: "s + 2 \<le> se" "se \<le> length frame" "0xc0 \<le> frame ! s" "ptr_target frame s = s"
      then have "2 \<le> se - s" "s + 1 < length frame" "\<not> frame ! s < 0x40"
        by (auto simp: word_le_nat_alt word_less_nat_alt)
      with a step.hyps have "loop frame se de s dst d True (if u then bc else bc + 2) = Some r"
        by (simp add: Let_def ptr_target_def)
      from step.IH [OF this] a show False by blast
    qed
  qed
  then show ?thesis using assms by (cases "dec_loop frame se de p dst d u bc") auto
qed

lemma Mdns_EncodeName_overruns:
  "MDNSFrame_EncodeName [97, 46, 98, 0] [0, 0, 0, 0] 4 = Inl OutOfBounds"
  by (simp add: MDNSFrame_EncodeName_def enc_labels.simps mem_write_def)

section \<open>Properties\<close>

text \<open>
  C30: decoding a name returns when every pointer of the frame leads backwards; it reads only
  the frame and writes only the destination, ends the name inside the destination, and what it reports as consumed is
  inside the frame.
\<close>

theorem Mdns_DecodeName_returns:
  assumes "ptrs_backward frame (unat frame_size)" "unat frame_size \<le> length frame" "unat dst_size \<le> length dst"
  shows "\<exists>ec dst'. MDNSFrame_DecodeName src frame frame_size dst dst_size = Some (Inr (ec, dst')) \<and>
           length dst' = length dst \<and>
           (0 \<le> ec \<longrightarrow> src + nat ec \<le> unat frame_size \<and> 0 \<in> set (take (unat dst_size) dst'))"
proof -
  obtain r where r: "dec_loop frame (unat frame_size) (unat dst_size) src dst 0 False 0 = Some r"
    using dec_loop_ends [OF assms] by blast
  from dec_loop_safe [OF this assms(2,3), of src] show ?thesis
    using r by (auto simp: MDNSFrame_DecodeName_def)
qed

theorem Mdns_DecodeName_returns_witness:
  "\<exists>ec dst'. MDNSFrame_DecodeName 4 [1, 97, 0, 0x50, 0xc0, 0, 0, 1] 8 (replicate 8 7) 8 = Some (Inr (ec, dst')) \<and>
     length dst' = 8"
proof -
  have "ptrs_backward [1, 97, 0, 0x50, 0xc0, 0, 0, 1] (unat (8 :: u32))"
    by (simp add: ptrs_backward_def ptr_target_def upt_rec word_le_nat_alt)
  from Mdns_DecodeName_returns [OF this, of 8 "replicate 8 7" 4] show ?thesis by auto
qed

text \<open>
  C31: a name of labels of 1 to 63 characters that is encoded into a buffer with room for it and decoded
  at any place of a frame is the same name, and decoding consumes what encoding wrote.
\<close>

theorem Mdns_name_roundtrip:
  assumes "list_all label_ok ls" "ls \<noteq> []"
    and "length (wire ls) \<le> unat dst_size" "unat dst_size \<le> length dst"
    and "length pre + length (wire ls) \<le> unat frame_size" "unat frame_size \<le> length pre + length (wire ls) + length post"
    and "length (wire ls) \<le> unat out_size" "unat out_size \<le> length out"
  shows "\<exists>n dst'. MDNSFrame_EncodeName (dotted ls @ 0 # r) dst dst_size = Inr (int n, dst') \<and>
     MDNSFrame_DecodeName (length pre) (pre @ take n dst' @ post) frame_size out out_size =
       Some (Inr (int n, dotted ls @ 0 # drop (length (dotted ls) + 1) out))"
proof -
  let ?n = "length (wire ls)"
  let ?dst = "wire ls @ drop ?n dst"
  have enc: "MDNSFrame_EncodeName (dotted ls @ 0 # r) dst dst_size = Inr (int ?n, ?dst)"
    using enc_labels_wire [of ls 0 dst dst_size r] assms by (simp add: MDNSFrame_EncodeName_def)
  have dots: "dots ls = dotted ls @ [46]" using assms(2) by (rule dots_dotted)
  have "dec_loop (pre @ wire ls @ post) (unat frame_size) (unat out_size) (length pre) out 0 False 0 =
      Some (Inr (int ?n, (dots ls @ drop (length (dots ls)) out) [length (dots ls) - 1 := 0]))"
    using dec_loop_wire [of ls "length pre" "pre @ wire ls @ post" "unat frame_size" "unat out_size" 0 out 0]
      assms dots by simp
  moreover have "(dots ls @ drop (length (dots ls)) out) [length (dots ls) - 1 := 0] =
      dotted ls @ 0 # drop (length (dotted ls) + 1) out"
    by (simp add: dots list_update_append)
  ultimately show ?thesis using enc by (intro exI [of _ ?n] exI [of _ ?dst]) (simp add: MDNSFrame_DecodeName_def)
qed

theorem Mdns_name_roundtrip_witness:
  "\<exists>n dst'. MDNSFrame_EncodeName [97, 98, 46, 99, 0] (replicate 10 0) 10 = Inr (int n, dst') \<and>
     MDNSFrame_DecodeName 1 ([2] @ take n dst' @ [3]) 8 (replicate 9 0) 9 =
       Some (Inr (int n, [97, 98, 46, 99, 0] @ replicate 4 0))"
  using Mdns_name_roundtrip [of "[[97, 98], [99]]" 10 "replicate 10 0" "[2]" 8 "[3]" 9 "replicate 9 0" "[]"]
  by (simp add: label_ok_def)
end
