(* ===== verification/Net_Mdns.thy ===== *)
theory Net_Mdns
  imports Net_Stack Net_Dns_Name
begin

text \<open>
  The multicast name service, \<^verbatim>\<open>net/mdns\<close>: the accessors of \<^verbatim>\<open>frame.h\<close>, and the server of
  \<^verbatim>\<open>src/server.c\<close>. A frame is the receive buffer of the server, a list of bytes; pointers into it are offsets.
\<close>

section \<open>Frames\<close>

definition MDNS_FRAME_HDR_FLAGS_QR :: u16 where "MDNS_FRAME_HDR_FLAGS_QR = 0x8000"
definition MDNS_FRAME_HDR_FLAGS_QR_QUERY :: u16 where "MDNS_FRAME_HDR_FLAGS_QR_QUERY = 0x0000"
definition MDNS_FRAME_HDR_FLAGS_QR_RESP :: u16 where "MDNS_FRAME_HDR_FLAGS_QR_RESP = 0x8000"
definition MDNS_FRAME_HDR_FLAGS_OPCODE :: u16 where "MDNS_FRAME_HDR_FLAGS_OPCODE = 0x7800"
definition MDNS_FRAME_HDR_FLAGS_OPCODE_STD_QUERY :: u16 where "MDNS_FRAME_HDR_FLAGS_OPCODE_STD_QUERY = 0"
definition MDNS_FRAME_HDR_FLAGS_RCODE_OK :: u16 where "MDNS_FRAME_HDR_FLAGS_RCODE_OK = 0"
definition MDNS_RECORD_TYPE_A :: u16 where "MDNS_RECORD_TYPE_A = 1"
definition MDNS_RECORD_CLASS_IA :: u16 where "MDNS_RECORD_CLASS_IA = 1"

lemmas mdns_consts =
  MDNS_FRAME_HDR_FLAGS_QR_def MDNS_FRAME_HDR_FLAGS_QR_QUERY_def MDNS_FRAME_HDR_FLAGS_QR_RESP_def
  MDNS_FRAME_HDR_FLAGS_OPCODE_def MDNS_FRAME_HDR_FLAGS_OPCODE_STD_QUERY_def
  MDNS_FRAME_HDR_FLAGS_RCODE_OK_def MDNS_RECORD_TYPE_A_def MDNS_RECORD_CLASS_IA_def

named_theorems mdns_frame_defs \<open>the accessors of the name service frames\<close>

definition MDNSFrame_GetTransactionID :: "bytes \<Rightarrow> u16" where [mdns_frame_defs]:
  "MDNSFrame_GetTransactionID mdns = HTOBE16 (rd16 mdns 0)"
definition MDNSFrame_GetFlags :: "bytes \<Rightarrow> u16" where [mdns_frame_defs]:
  "MDNSFrame_GetFlags mdns = HTOBE16 (rd16 mdns 2)"
definition MDNSFrame_GetQuestionsCount :: "bytes \<Rightarrow> u16" where [mdns_frame_defs]:
  "MDNSFrame_GetQuestionsCount mdns = HTOBE16 (rd16 mdns 4)"
definition MDNSFrame_GetAnswersCount :: "bytes \<Rightarrow> u16" where [mdns_frame_defs]:
  "MDNSFrame_GetAnswersCount mdns = HTOBE16 (rd16 mdns 6)"
definition MDNSFrame_GetAuthorityRRCount :: "bytes \<Rightarrow> u16" where [mdns_frame_defs]:
  "MDNSFrame_GetAuthorityRRCount mdns = HTOBE16 (rd16 mdns 8)"
definition MDNSFrame_GetAdditionalRRCount :: "bytes \<Rightarrow> u16" where [mdns_frame_defs]:
  "MDNSFrame_GetAdditionalRRCount mdns = HTOBE16 (rd16 mdns 10)"
definition MDNSFrame_SetTransactionID :: "bytes \<Rightarrow> u16 \<Rightarrow> bytes" where [mdns_frame_defs]:
  "MDNSFrame_SetTransactionID mdns v = wr16 mdns 0 (HTOBE16 v)"
definition MDNSFrame_SetFlags :: "bytes \<Rightarrow> u16 \<Rightarrow> bytes" where [mdns_frame_defs]:
  "MDNSFrame_SetFlags mdns v = wr16 mdns 2 (HTOBE16 v)"
definition MDNSFrame_SetQuestionsCount :: "bytes \<Rightarrow> u16 \<Rightarrow> bytes" where [mdns_frame_defs]:
  "MDNSFrame_SetQuestionsCount mdns v = wr16 mdns 4 (HTOBE16 v)"
definition MDNSFrame_SetAnswersCount :: "bytes \<Rightarrow> u16 \<Rightarrow> bytes" where [mdns_frame_defs]:
  "MDNSFrame_SetAnswersCount mdns v = wr16 mdns 6 (HTOBE16 v)"
definition MDNSFrame_SetAuthorityRRCount :: "bytes \<Rightarrow> u16 \<Rightarrow> bytes" where [mdns_frame_defs]:
  "MDNSFrame_SetAuthorityRRCount mdns v = wr16 mdns 8 (HTOBE16 v)"
definition MDNSFrame_SetAdditionalRRCount :: "bytes \<Rightarrow> u16 \<Rightarrow> bytes" where [mdns_frame_defs]:
  "MDNSFrame_SetAdditionalRRCount mdns v = wr16 mdns 10 (HTOBE16 v)"

text \<open>The fields that follow a name in a question, and in an answer.\<close>

definition MDNSFrameQuestion_GetType :: "bytes \<Rightarrow> u16" where [mdns_frame_defs]:
  "MDNSFrameQuestion_GetType q = HTOBE16 (rd16 q 0)"
definition MDNSFrameQuestion_GetClass :: "bytes \<Rightarrow> u16" where [mdns_frame_defs]:
  "MDNSFrameQuestion_GetClass q = HTOBE16 (rd16 q 2)"
definition MDNSFrameQuestion_SetType :: "bytes \<Rightarrow> u16 \<Rightarrow> bytes" where [mdns_frame_defs]:
  "MDNSFrameQuestion_SetType q v = wr16 q 0 (HTOBE16 v)"
definition MDNSFrameQuestion_SetClass :: "bytes \<Rightarrow> u16 \<Rightarrow> bytes" where [mdns_frame_defs]:
  "MDNSFrameQuestion_SetClass q v = wr16 q 2 (HTOBE16 v)"
definition MDNSFrameAnswer_GetType :: "bytes \<Rightarrow> u16" where [mdns_frame_defs]:
  "MDNSFrameAnswer_GetType a = HTOBE16 (rd16 a 0)"
definition MDNSFrameAnswer_GetClass :: "bytes \<Rightarrow> u16" where [mdns_frame_defs]:
  "MDNSFrameAnswer_GetClass a = HTOBE16 (rd16 a 2)"
definition MDNSFrameAnswer_GetTTL :: "bytes \<Rightarrow> u32" where [mdns_frame_defs]:
  "MDNSFrameAnswer_GetTTL a = HTOBE32 (rd32 a 4)"
definition MDNSFrameAnswer_GetRDLength :: "bytes \<Rightarrow> u16" where [mdns_frame_defs]:
  "MDNSFrameAnswer_GetRDLength a = HTOBE16 (rd16 a 8)"
definition MDNSFrameAnswer_SetType :: "bytes \<Rightarrow> u16 \<Rightarrow> bytes" where [mdns_frame_defs]:
  "MDNSFrameAnswer_SetType a v = wr16 a 0 (HTOBE16 v)"
definition MDNSFrameAnswer_SetClass :: "bytes \<Rightarrow> u16 \<Rightarrow> bytes" where [mdns_frame_defs]:
  "MDNSFrameAnswer_SetClass a v = wr16 a 2 (HTOBE16 v)"
definition MDNSFrameAnswer_SetTTL :: "bytes \<Rightarrow> u32 \<Rightarrow> bytes" where [mdns_frame_defs]:
  "MDNSFrameAnswer_SetTTL a v = wr32 a 4 (HTOBE32 v)"
definition MDNSFrameAnswer_SetRDLength :: "bytes \<Rightarrow> u16 \<Rightarrow> bytes" where [mdns_frame_defs]:
  "MDNSFrameAnswer_SetRDLength a v = wr16 a 8 (HTOBE16 v)"
definition MDNSFrameRDataA_SetIP :: "bytes \<Rightarrow> u32 \<Rightarrow> bytes" where [mdns_frame_defs]:
  "MDNSFrameRDataA_SetIP a ip = wr32 a 0 (HTOBE32 ip)"
definition MDNSFrameRDataA_GetIP :: "bytes \<Rightarrow> u32" where [mdns_frame_defs]:
  "MDNSFrameRDataA_GetIP a = HTOBE32 (rd32 a 0)"


section \<open>Records\<close>

record mdns_record =
  mr_type :: u16
  mr_ip :: u32
  mr_name :: bytes

text \<open>\<open>MDNS_SRV_DEVICE_NAME\<close>, the string \<^verbatim>\<open>stm32.local\<close>, and the table of records.\<close>

definition MDNS_SRV_DEVICE_NAME :: bytes where
  "MDNS_SRV_DEVICE_NAME = [115, 116, 109, 51, 50, 46, 108, 111, 99, 97, 108, 0]"

definition MDNS_SRV_MCAST_IP :: u32 where
  "MDNS_SRV_MCAST_IP = TCPIP_IP_ADDR 224 0 0 251"

definition mdns_records :: "mdns_record list" where
  "mdns_records = [\<lparr>mr_type = MDNS_RECORD_TYPE_A, mr_ip = 0, mr_name = MDNS_SRV_DEVICE_NAME\<rparr>]"

fun find_record :: "u16 \<Rightarrow> bytes \<Rightarrow> mdns_record list \<Rightarrow> fault + mdns_record option" where
  "find_record ty name [] = Inr None"
| "find_record ty name (r # rs) =
     (if mr_type r = ty
      then bind_res (strcmp name (mr_name r)) (\<lambda>c. if c = 0 then Inr (Some r) else find_record ty name rs)
      else find_record ty name rs)"

definition MDNSSrv_FindRecord :: "u16 \<Rightarrow> bytes \<Rightarrow> fault + mdns_record option" where
  "MDNSSrv_FindRecord ty name = find_record ty name mdns_records"

section \<open>Server\<close>

text \<open>The work buffer of the response is a local array of 512 bytes, all of whose bytes that are sent are written.\<close>

definition mdns_header :: "bytes \<Rightarrow> u16 \<Rightarrow> u16 \<Rightarrow> u16 \<Rightarrow> bytes" where
  "mdns_header f transaction_id rcode answers_cnt =
     MDNSFrame_SetAdditionalRRCount (MDNSFrame_SetAuthorityRRCount (MDNSFrame_SetAnswersCount
       (MDNSFrame_SetQuestionsCount (MDNSFrame_SetFlags (MDNSFrame_SetTransactionID f transaction_id)
         (MDNS_FRAME_HDR_FLAGS_QR_RESP OR MDNS_FRAME_HDR_FLAGS_OPCODE_STD_QUERY OR rcode)) 0)
       answers_cnt) 0) 0"

definition MDNSSrv_SendResponse ::
  "nat \<Rightarrow> (nat \<Rightarrow> net_st \<Rightarrow> net_st) \<Rightarrow> u16 \<Rightarrow> u32 \<Rightarrow> u16 \<Rightarrow> u16 \<Rightarrow> u16 \<Rightarrow> u16 \<Rightarrow> bytes \<Rightarrow> u32 \<Rightarrow> err_t net_m" where
  "MDNSSrv_SendResponse fuel env lport ip port transaction_id rcode answers_cnt rsps rsps_size =
     (if rsps_size + 12 > 512 then nret EFATAL
      else nbind (ntry (\<lambda>s. bind_res
             (bind_res (mem_read rsps 0 (unat rsps_size)) (\<lambda>d.
                mem_write (mdns_header (replicate 512 0) transaction_id rcode answers_cnt) 12 d))
             (\<lambda>f. Inr (f, s)))) (\<lambda>frame.
           TCPIPUdpSock_SendTo fuel env lport ip port frame (12 + rsps_size)))"

text \<open>The answer is rendered at offset \<open>r\<close> of the buffer of responses; the result is the offset after it, or null.\<close>

definition MDNSSrv_RenderAnswerA ::
  "ip_conf \<Rightarrow> bytes \<Rightarrow> nat \<Rightarrow> u32 \<Rightarrow> mdns_record \<Rightarrow> fault + nat option \<times> bytes" where
  "MDNSSrv_RenderAnswerA conf rsps r bsz rec =
     bind_res (MDNSFrame_EncodeName (mr_name rec) (drop r rsps) bsz) (\<lambda>(ec, dst).
       let rsps = take r rsps @ dst in
       if ec < EOK then Inr (None, rsps)
       else
         let p = r + nat ec in
         if bsz < of_nat (p - r) + 10 + 4 then Inr (None, rsps)
         else if length rsps < p + 14 then Inl OutOfBounds
         else
           let fields = drop p rsps;
               fields = MDNSFrameAnswer_SetRDLength (MDNSFrameAnswer_SetTTL (MDNSFrameAnswer_SetClass
                          (MDNSFrameAnswer_SetType fields MDNS_RECORD_TYPE_A) MDNS_RECORD_CLASS_IA) 60) 4;
               ip = (if TCPIPIpAddr_AddressMatch (mr_ip rec) 0 then TCPIPIpAddr_GetIP conf else mr_ip rec);
               fields = take 10 fields @ MDNSFrameRDataA_SetIP (drop 10 fields) ip
           in Inr (Some (p + 10 + 4), take p rsps @ fields))"

text \<open>
  One question: the offset of the next one, or null, the buffer of responses and the offset in it, and the
  number of answers. The name is decoded into a local array of 256 bytes.
\<close>

definition MDNSSrv_ProcessQuestion ::
  "ip_conf \<Rightarrow> nat \<Rightarrow> bytes \<Rightarrow> u32 \<Rightarrow> bytes \<Rightarrow> nat \<Rightarrow> u32 \<Rightarrow>
   (fault + nat option \<times> bytes \<times> nat option \<times> u32) option" where
  "MDNSSrv_ProcessQuestion conf p frame frame_size rsps r rsp_size =
     (case MDNSFrame_DecodeName p frame frame_size (replicate 256 0) 255 of
        None \<Rightarrow> None
      | Some (Inl e) \<Rightarrow> Some (Inl e)
      | Some (Inr (ec, qname)) \<Rightarrow> Some
          (if ec < EOK then Inr (None, rsps, Some r, 0)
           else
             let p = p + nat ec; fields = drop p frame in
             if length fields < 4 then Inl OutOfBounds
             else if MDNSFrameQuestion_GetClass fields \<noteq> MDNS_RECORD_CLASS_IA then Inr (None, rsps, Some r, 0)
             else
               let p = p + 4; qtype = MDNSFrameQuestion_GetType fields in
               bind_res (MDNSSrv_FindRecord qtype qname) (\<lambda>rec.
                 case rec of
                   None \<Rightarrow> Inr (Some p, rsps, Some r, 0)
                 | Some rec \<Rightarrow>
                     if qtype = MDNS_RECORD_TYPE_A then
                       bind_res (MDNSSrv_RenderAnswerA conf rsps r rsp_size rec) (\<lambda>(r, rsps).
                         Inr (Some p, rsps, r, if r \<noteq> None then 1 else 0))
                     else Inl AssertFail)))"

text \<open>The loop over the questions: the answers and the place after them, or an error.\<close>

fun question_loop ::
  "ip_conf \<Rightarrow> bytes \<Rightarrow> u32 \<Rightarrow> nat \<Rightarrow> nat \<Rightarrow> bytes \<Rightarrow> nat \<Rightarrow> u32 \<Rightarrow>
   (fault + err_t + bytes \<times> nat \<times> u32) option" where
  "question_loop conf frame frame_size 0 p rsps r rtotal = Some (Inr (Inr (rsps, r, rtotal)))"
| "question_loop conf frame frame_size (Suc q) p rsps r rtotal =
     (case MDNSSrv_ProcessQuestion conf p frame frame_size rsps r (256 - of_nat r) of
        None \<Rightarrow> None
      | Some (Inl e) \<Rightarrow> Some (Inl e)
      | Some (Inr (Some p', rsps', Some r', rnum)) \<Rightarrow>
          question_loop conf frame frame_size q p' rsps' r' (rtotal + rnum)
      | Some (Inr _) \<Rightarrow> Some (Inr (Inl EFATAL)))"

definition MDNSSrv_Input ::
  "nat \<Rightarrow> (nat \<Rightarrow> net_st \<Rightarrow> net_st) \<Rightarrow> u16 \<Rightarrow> u32 \<Rightarrow> u16 \<Rightarrow> bytes \<Rightarrow> u32 \<Rightarrow> err_t net_m" where
  "MDNSSrv_Input fuel env lport ip port frame bsz =
     (let transaction_id = MDNSFrame_GetTransactionID frame; flags = MDNSFrame_GetFlags frame in
      if length frame < 12 then nfail OutOfBounds
      else if flags AND MDNS_FRAME_HDR_FLAGS_QR \<noteq> MDNS_FRAME_HDR_FLAGS_QR_QUERY then nret EFATAL
      else if flags AND MDNS_FRAME_HDR_FLAGS_OPCODE \<noteq> MDNS_FRAME_HDR_FLAGS_OPCODE_STD_QUERY then nret EFATAL
      else
        let qnum = unat (MDNSFrame_GetQuestionsCount frame) in
        nbind (\<lambda>s. case question_loop (n_conf s) frame bsz qnum 12 (replicate 256 0) 0 0 of
                 None \<Rightarrow> None | Some (Inl e) \<Rightarrow> Some (Inl e) | Some (Inr x) \<Rightarrow> Some (Inr (x, s))) (\<lambda>x.
          case x of
            Inl ec \<Rightarrow> nret ec
          | Inr (rsps, r, rtotal) \<Rightarrow>
              if rtotal = 0 then nret EFATAL
              else MDNSSrv_SendResponse fuel env lport MDNS_SRV_MCAST_IP port transaction_id
                     MDNS_FRAME_HDR_FLAGS_RCODE_OK (ucast rtotal) rsps (of_nat r)))"

section \<open>A query for the name of the device\<close>

definition stm32_local :: "bytes list" where
  "stm32_local = [[115, 116, 109, 51, 50], [108, 111, 99, 97, 108]]"

lemma stm32_local_simps:
  "wire stm32_local = [5, 115, 116, 109, 51, 50, 5, 108, 111, 99, 97, 108, 0]"
  "dotted stm32_local @ 0 # r = [115, 116, 109, 51, 50, 46, 108, 111, 99, 97, 108, 0] @ r"
  "list_all label_ok stm32_local" "stm32_local \<noteq> []" "length (dots stm32_local) = 12"
  "length (wire stm32_local) = 13"
  by (simp_all add: stm32_local_def label_ok_def)

lemma decode_stm32:
  assumes "take 13 (drop 12 frame) = wire stm32_local" "25 \<le> unat bsz" "unat bsz \<le> length frame"
  shows "MDNSFrame_DecodeName 12 frame bsz (replicate 256 0) 255 =
    Some (Inr (13, dotted stm32_local @ 0 # replicate 244 0))"
proof -
  have d: "dots stm32_local = dotted stm32_local @ [46]" by (simp add: dots_dotted stm32_local_simps)
  then have l: "length (dotted stm32_local) = 11" using stm32_local_simps(5) by simp
  have "(dots stm32_local @ replicate 244 0) [11 := 0] = dotted stm32_local @ 0 # replicate 244 0"
    using l by (simp add: d list_update_append)
  then show ?thesis
    using dec_loop_wire [of stm32_local 12 frame "unat bsz" 255 0 "replicate 256 0" 0] assms
    by (simp add: MDNSFrame_DecodeName_def stm32_local_simps(3,5,6))
qed

lemma find_stm32: "MDNSSrv_FindRecord 1 (dotted stm32_local @ 0 # r) = Inr (Some (mdns_records ! 0))"
  by (simp add: MDNSSrv_FindRecord_def mdns_records_def stm32_local_simps MDNS_SRV_DEVICE_NAME_def mdns_consts)

lemma render_stm32:
  "MDNSSrv_RenderAnswerA conf (replicate 256 0) 0 256 (mdns_records ! 0) =
     Inr (Some 27, wire stm32_local @ [0, 1, 0, 1, 0, 0, 0, 60, 0, 4] @ be_bytes32 (tcpip_ip_addr conf) @ replicate 229 0)"
proof -
  have name: "mr_name (mdns_records ! 0) = dotted stm32_local @ 0 # []"
    by (simp add: mdns_records_def MDNS_SRV_DEVICE_NAME_def stm32_local_def)
  have enc: "MDNSFrame_EncodeName (mr_name (mdns_records ! 0)) (drop 0 (replicate 256 0)) 256 =
      Inr (13, wire stm32_local @ replicate 243 0)"
    unfolding name MDNSFrame_EncodeName_def
    by (subst enc_labels_wire) (simp_all add: stm32_local_simps)
  have rep: "replicate 243 (0::u8) = [0,0,0,0,0,0,0,0,0,0,0,0,0,0] @ replicate 229 0"
    by (simp add: numeral_eq_Suc)
  show ?thesis
    unfolding MDNSSrv_RenderAnswerA_def enc rep
    by (simp add: stm32_local_simps(6) err_defs mdns_frame_defs mdns_records_def wr16_def wr32_def HTOBE16_bytes
        HTOBE32_bytes TCPIPIpAddr_AddressMatch_def TCPIPIpAddr_GetIP_def mdns_consts)
      (simp add: be_bytes16_def be_bytes32_def le_bytes16_def le_bytes32_def Let_def)
qed

lemma header_response:
  "mdns_header (replicate 512 0) tid 0 1 = be_bytes16 tid @ [0x80, 0, 0, 0, 0, 1, 0, 0, 0, 0] @ replicate 500 0"
proof -
  have "replicate 512 (0::u8) = [0,0,0,0,0,0,0,0,0,0,0,0] @ replicate 500 0" by (simp add: numeral_eq_Suc)
  then show ?thesis unfolding mdns_header_def
    by (simp add: mdns_frame_defs mdns_consts wr16_def HTOBE16_bytes)
      (simp add: be_bytes16_def le_bytes16_def)
qed

lemma questions_stm32:
  assumes "MDNSFrame_DecodeName 12 frame bsz (replicate 256 0) 255 =
      Some (Inr (13, dotted stm32_local @ 0 # replicate 244 0))"
    and "drop 25 frame = 0 # 1 # 0 # 1 # rest"
  shows "question_loop conf frame bsz 1 12 (replicate 256 0) 0 0 =
    Some (Inr (Inr (wire stm32_local @ [0, 1, 0, 1, 0, 0, 0, 60, 0, 4] @
      be_bytes32 (tcpip_ip_addr conf) @ replicate 229 0, 27, 1)))"
proof -
  have len: "\<not> length frame - 25 < 4"
    using arg_cong [OF assms(2), of length] by simp
  have f: "MDNSFrameQuestion_GetClass (0 # 1 # 0 # 1 # rest) = 1" "MDNSFrameQuestion_GetType (0 # 1 # 0 # 1 # rest) = 1"
    by (simp_all add: mdns_frame_defs rd16_def HTOBE16_def)
  show ?thesis
    using assms len
    by (simp add: MDNSSrv_ProcessQuestion_def Let_def f err_defs mdns_consts find_stm32 render_stm32)
qed

lemma Input_answers:
  assumes "12 \<le> length frame"
    and "MDNSFrame_GetFlags frame AND MDNS_FRAME_HDR_FLAGS_QR = 0" "MDNSFrame_GetFlags frame AND MDNS_FRAME_HDR_FLAGS_OPCODE = 0"
    and "question_loop (n_conf s) frame bsz (unat (MDNSFrame_GetQuestionsCount frame)) 12 (replicate 256 0) 0 0 =
      Some (Inr (Inr (rsps, r, rtotal)))" "rtotal \<noteq> 0"
  shows "MDNSSrv_Input fuel env lport ip port frame bsz s =
    MDNSSrv_SendResponse fuel env lport MDNS_SRV_MCAST_IP port (MDNSFrame_GetTransactionID frame) 0
      (ucast rtotal) rsps (of_nat r) s"
  using assms by (simp add: MDNSSrv_Input_def nbind_def Let_def mdns_consts)

lemma SendResponse_sends:
  assumes "unat bsz \<le> 500" "unat bsz \<le> length rsps"
  shows "MDNSSrv_SendResponse fuel env lport ip port tid 0 1 rsps bsz s =
    TCPIPUdpSock_SendTo fuel env lport ip port (be_bytes16 tid @ [0x80, 0, 0, 0, 0, 1, 0, 0, 0, 0] @
      take (unat bsz) rsps @ replicate (500 - unat bsz) 0) (12 + bsz) s"
proof -
  have "unat (bsz + 12) = unat bsz + 12" using assms(1) by (subst unat_u32_add) auto
  then have "\<not> bsz + 12 > 512" using assms(1) by (simp add: word_less_nat_alt)
  moreover have "mem_write (mdns_header (replicate 512 0) tid 0 1) 12 (take (unat bsz) rsps) =
      Inr (be_bytes16 tid @ [0x80, 0, 0, 0, 0, 1, 0, 0, 0, 0] @ take (unat bsz) rsps @ replicate (500 - unat bsz) 0)"
  proof -
    let ?h = "mdns_header (replicate 512 0) tid 0 1"
    have h: "drop 12 ?h = replicate 500 0" "take 12 ?h = be_bytes16 tid @ [0x80, 0, 0, 0, 0, 1, 0, 0, 0, 0]"
      "length ?h = 512"
      by (simp_all add: header_response)
    have "drop (12 + unat bsz) ?h = drop (unat bsz) (drop 12 ?h)" by (simp add: add.commute)
    then have "drop (12 + unat bsz) ?h = replicate (500 - unat bsz) 0" by (simp only: h drop_replicate)
    then show ?thesis using assms h by (simp add: mem_write_def)
  qed
  ultimately show ?thesis
    using assms by (simp add: MDNSSrv_SendResponse_def nbind_def ntry_def mem_read_def)
qed

text \<open>
  C32: a query for the address of \<^verbatim>\<open>stm32.local\<close> is answered to the multicast address with one answer
  record: the name, type A, class IN, 60 seconds to live and the address of the device.
\<close>

theorem Mdns_query_answered:
  assumes "flags AND MDNS_FRAME_HDR_FLAGS_QR = 0" "flags AND MDNS_FRAME_HDR_FLAGS_OPCODE = 0"
    and "length counts = 6" "25 \<le> unat bsz" "unat bsz \<le> 29 + length rest"
  shows "MDNSSrv_Input fuel env lport ip port
      (be_bytes16 tid @ be_bytes16 flags @ [0, 1] @ counts @ wire stm32_local @ [0, 1, 0, 1] @ rest) bsz s =
    TCPIPUdpSock_SendTo fuel env lport MDNS_SRV_MCAST_IP port
      (be_bytes16 tid @ [0x80, 0, 0, 0, 0, 1, 0, 0, 0, 0] @ wire stm32_local @ [0, 1, 0, 1, 0, 0, 0, 60, 0, 4] @
       be_bytes32 (tcpip_ip_addr (n_conf s)) @ replicate 473 0) 39 s"
proof -
  obtain t1 t2 f1 f2 where tf: "be_bytes16 tid = [t1, t2]" "be_bytes16 flags = [f1, f2]"
    by (simp add: be_bytes16_def le_bytes16_def)
  obtain c1 c2 c3 c4 c5 c6 where c: "counts = [c1, c2, c3, c4, c5, c6]"
    using assms(3) by (auto simp: length_Suc_conv numeral_eq_Suc)
  let ?hd = "[t1, t2, f1, f2, 0, 1, c1, c2, c3, c4, c5, c6]"
  let ?frame = "?hd @ wire stm32_local @ [0, 1, 0, 1] @ rest"
  have fr: "be_bytes16 tid @ be_bytes16 flags @ [0, 1] @ counts @ wire stm32_local @ [0, 1, 0, 1] @ rest = ?frame"
    by (simp add: tf c)
  have be: "be_word16 [t1, t2] = tid" "be_word16 [f1, f2] = flags"
    using be_word16_bytes [of tid "[]"] be_word16_bytes [of flags "[]"] by (simp_all add: tf)
  have hdr: "MDNSFrame_GetTransactionID ?frame = tid" "MDNSFrame_GetFlags ?frame = flags"
    using be by (simp_all add: mdns_frame_defs rd16_def HTOBE16_le_word del: le_word16.simps be_word16.simps)
  have cnt: "unat (MDNSFrame_GetQuestionsCount ?frame) = 1"
    by (simp add: mdns_frame_defs rd16_def HTOBE16_def)
  have dec: "MDNSFrame_DecodeName 12 ?frame bsz (replicate 256 0) 255 =
      Some (Inr (13, dotted stm32_local @ 0 # replicate 244 0))"
    by (rule decode_stm32) (use assms in \<open>simp_all add: stm32_local_simps(6)\<close>)
  have dr: "drop 25 ?frame = 0 # 1 # 0 # 1 # rest"
    by (simp add: stm32_local_simps(6))
  note q = questions_stm32 [OF dec dr, of "n_conf s"]
  have qn: "question_loop (n_conf s) ?frame bsz (unat (MDNSFrame_GetQuestionsCount ?frame)) 12 (replicate 256 0) 0 0 =
      Some (Inr (Inr (wire stm32_local @ [0, 1, 0, 1, 0, 0, 0, 60, 0, 4] @
        be_bytes32 (tcpip_ip_addr (n_conf s)) @ replicate 229 0, 27, 1)))"
    unfolding cnt by (rule q)
  show ?thesis
    unfolding fr
    by (subst Input_answers [OF _ _ _ qn])
      (use assms in \<open>simp_all add: hdr SendResponse_sends stm32_local_simps(6) del: append_Cons\<close>)
qed

theorem Mdns_query_answered_witness:
  "\<forall>fuel env ip s. MDNSSrv_Input fuel env 5353 ip 5353
      ([0, 52, 0, 0, 0, 1, 0, 0, 0, 0, 0, 0] @ wire stm32_local @ [0, 1, 0, 1]) 29 s =
    TCPIPUdpSock_SendTo fuel env 5353 MDNS_SRV_MCAST_IP 5353
      ([0, 52, 0x80, 0, 0, 0, 0, 1, 0, 0, 0, 0] @ wire stm32_local @ [0, 1, 0, 1, 0, 0, 0, 60, 0, 4] @
       be_bytes32 (tcpip_ip_addr (n_conf s)) @ replicate 473 0) 39 s"
proof (intro allI)
  fix fuel env ip s
  show "MDNSSrv_Input fuel env 5353 ip 5353
      ([0, 52, 0, 0, 0, 1, 0, 0, 0, 0, 0, 0] @ wire stm32_local @ [0, 1, 0, 1]) 29 s =
    TCPIPUdpSock_SendTo fuel env 5353 MDNS_SRV_MCAST_IP 5353
      ([0, 52, 0x80, 0, 0, 0, 0, 1, 0, 0, 0, 0] @ wire stm32_local @ [0, 1, 0, 1, 0, 0, 0, 60, 0, 4] @
       be_bytes32 (tcpip_ip_addr (n_conf s)) @ replicate 473 0) 39 s"
    using Mdns_query_answered [where flags = 0 and counts = "[0, 0, 0, 0, 0, 0]" and bsz = 29 and rest = "[]"
        and fuel = fuel and env = env and lport = 5353 and ip = ip and port = 5353 and tid = 52 and s = s]
    by (simp add: be_bytes16_def le_bytes16_def)
qed
end
