(* ===== verification/Net_Dhcp_Frame.thy ===== *)
theory Net_Dhcp_Frame
  imports Net_Frame
begin

text \<open>
  The frames of the address configuration protocol: \<^verbatim>\<open>net/dhcp/frame.h\<close> and \<^verbatim>\<open>net/dhcp/src/frame.c\<close>.

  A frame is the list of bytes that starts at its address; the option records start at byte 240. A
  function of the source that writes an option takes a pointer into a buffer and the space left and
  returns the pointer after the option, or null: here the buffer and an offset, and an optional offset. The main
  result is that parsing what was rendered gives back every address and option that was set.
\<close>

section \<open>Constants\<close>

definition DHCP_OP_REQUEST :: u8 where "DHCP_OP_REQUEST = 1"
definition DHCP_OP_RESPONSE :: u8 where "DHCP_OP_RESPONSE = 2"
definition DHCP_HTYPE_ETH :: u8 where "DHCP_HTYPE_ETH = 1"

definition DHCP_OPTION_SUBNET_MASK :: u8 where "DHCP_OPTION_SUBNET_MASK = 1"
definition DHCP_OPTION_ROUTER :: u8 where "DHCP_OPTION_ROUTER = 3"
definition DHCP_OPTION_DNS_SERVERS :: u8 where "DHCP_OPTION_DNS_SERVERS = 6"
definition DHCP_OPTION_REQUESTED_IP :: u8 where "DHCP_OPTION_REQUESTED_IP = 50"
definition DHCP_OPTION_LEASE_TIME :: u8 where "DHCP_OPTION_LEASE_TIME = 51"
definition DHCP_OPTION_MESSAGE_TYPE :: u8 where "DHCP_OPTION_MESSAGE_TYPE = 53"
definition DHCP_OPTION_DHCP_SERVER :: u8 where "DHCP_OPTION_DHCP_SERVER = 54"
definition DHCP_OPTION_PARAM_LIST :: u8 where "DHCP_OPTION_PARAM_LIST = 55"
definition DHCP_OPTION_END :: u8 where "DHCP_OPTION_END = 0xff"

lemmas dhcp_opt_codes =
  DHCP_OPTION_SUBNET_MASK_def DHCP_OPTION_ROUTER_def DHCP_OPTION_DNS_SERVERS_def DHCP_OPTION_REQUESTED_IP_def
  DHCP_OPTION_LEASE_TIME_def DHCP_OPTION_MESSAGE_TYPE_def DHCP_OPTION_DHCP_SERVER_def DHCP_OPTION_PARAM_LIST_def
  DHCP_OPTION_END_def

definition DHCP_MSG_TYPE_DISCOVER :: u8 where "DHCP_MSG_TYPE_DISCOVER = 1"
definition DHCP_MSG_TYPE_OFFER :: u8 where "DHCP_MSG_TYPE_OFFER = 2"
definition DHCP_MSG_TYPE_REQUEST :: u8 where "DHCP_MSG_TYPE_REQUEST = 3"
definition DHCP_MSG_TYPE_ACK :: u8 where "DHCP_MSG_TYPE_ACK = 5"
definition DHCP_MSG_TYPE_NAK :: u8 where "DHCP_MSG_TYPE_NAK = 6"
definition DHCP_MSG_TYPE_RELEASE :: u8 where "DHCP_MSG_TYPE_RELEASE = 7"

definition DHCP_OPTFLAGS_MSGTYPE :: u32 where "DHCP_OPTFLAGS_MSGTYPE = 1"
definition DHCP_OPTFLAGS_SUBNET :: u32 where "DHCP_OPTFLAGS_SUBNET = 2"
definition DHCP_OPTFLAGS_ROUTER :: u32 where "DHCP_OPTFLAGS_ROUTER = 4"
definition DHCP_OPTFLAGS_DNS_SERVERS :: u32 where "DHCP_OPTFLAGS_DNS_SERVERS = 8"
definition DHCP_OPTFLAGS_REQUESTED_IP :: u32 where "DHCP_OPTFLAGS_REQUESTED_IP = 16"
definition DHCP_OPTFLAGS_LEASE_TIME :: u32 where "DHCP_OPTFLAGS_LEASE_TIME = 32"
definition DHCP_OPTFLAGS_DHCP_SERVER :: u32 where "DHCP_OPTFLAGS_DHCP_SERVER = 64"
definition DHCP_OPTFLAGS_REQ_PARAM_LIST :: u32 where "DHCP_OPTFLAGS_REQ_PARAM_LIST = 128"
definition DHCP_OPTFLAGS_END :: u32 where "DHCP_OPTFLAGS_END = 256"

definition DHCP_ADDRFLAGS_CIADDR :: u32 where "DHCP_ADDRFLAGS_CIADDR = 1"
definition DHCP_ADDRFLAGS_YIADDR :: u32 where "DHCP_ADDRFLAGS_YIADDR = 2"
definition DHCP_ADDRFLAGS_SIADDR :: u32 where "DHCP_ADDRFLAGS_SIADDR = 4"
definition DHCP_ADDRFLAGS_GIADDR :: u32 where "DHCP_ADDRFLAGS_GIADDR = 8"
definition DHCP_ADDRFLAGS_CHADDR :: u32 where "DHCP_ADDRFLAGS_CHADDR = 16"

lemmas dhcp_flags =
  DHCP_OPTFLAGS_MSGTYPE_def DHCP_OPTFLAGS_SUBNET_def DHCP_OPTFLAGS_ROUTER_def DHCP_OPTFLAGS_DNS_SERVERS_def
  DHCP_OPTFLAGS_REQUESTED_IP_def DHCP_OPTFLAGS_LEASE_TIME_def DHCP_OPTFLAGS_DHCP_SERVER_def
  DHCP_OPTFLAGS_REQ_PARAM_LIST_def DHCP_OPTFLAGS_END_def DHCP_ADDRFLAGS_CIADDR_def DHCP_ADDRFLAGS_YIADDR_def
  DHCP_ADDRFLAGS_SIADDR_def DHCP_ADDRFLAGS_GIADDR_def DHCP_ADDRFLAGS_CHADDR_def

text \<open>The options and the addresses of a frame; \<open>o_dns\<close> has 3 and \<open>o_req_list\<close> has 32 entries.\<close>

record dhcp_optset =
  o_flags :: u32
  o_msg_type :: u8
  o_subnet :: u32
  o_router :: u32
  o_server :: u32
  o_dns :: "u32 list"
  o_dns_cnt :: nat
  o_lease_time :: u32
  o_req_list :: bytes
  o_req_list_cnt :: nat
  o_req_ip :: u32

record dhcp_addrset =
  a_flags :: u32
  a_ci :: u32
  a_yi :: u32
  a_si :: u32
  a_gi :: u32
  a_ch :: bytes

definition optset_zero :: dhcp_optset where
  "optset_zero = \<lparr>o_flags = 0, o_msg_type = 0, o_subnet = 0, o_router = 0, o_server = 0, o_dns = replicate 3 0,
     o_dns_cnt = 0, o_lease_time = 0, o_req_list = replicate 32 0, o_req_list_cnt = 0, o_req_ip = 0\<rparr>"

definition addrset_zero :: dhcp_addrset where
  "addrset_zero = \<lparr>a_flags = 0, a_ci = 0, a_yi = 0, a_si = 0, a_gi = 0, a_ch = replicate 6 0\<rparr>"

section \<open>Fields\<close>

named_theorems dhcp_frame_defs \<open>the accessors of the fixed part of the frame\<close>

definition DHCPFrame_Init :: "bytes \<Rightarrow> bytes" where
  "DHCPFrame_Init dhcp = wr32 (replicate 240 0 @ drop 240 dhcp) 236 (HTOBE32 0x63825363)"
definition DHCPFrame_SetOP :: "bytes \<Rightarrow> u8 \<Rightarrow> bytes" where [dhcp_frame_defs]:
  "DHCPFrame_SetOP dhcp op = dhcp[0 := op]"
definition DHCPFrame_SetHType :: "bytes \<Rightarrow> u8 \<Rightarrow> bytes" where [dhcp_frame_defs]:
  "DHCPFrame_SetHType dhcp htype = dhcp[1 := htype]"
definition DHCPFrame_SetHLen :: "bytes \<Rightarrow> u8 \<Rightarrow> bytes" where [dhcp_frame_defs]:
  "DHCPFrame_SetHLen dhcp hlen = dhcp[2 := hlen]"
definition DHCPFrame_SetHops :: "bytes \<Rightarrow> u8 \<Rightarrow> bytes" where [dhcp_frame_defs]:
  "DHCPFrame_SetHops dhcp hops = dhcp[3 := hops]"
definition DHCPFrame_SetXID :: "bytes \<Rightarrow> u32 \<Rightarrow> bytes" where [dhcp_frame_defs]:
  "DHCPFrame_SetXID dhcp xid = wr32 dhcp 4 (HTOBE32 xid)"
definition DHCPFrame_SetFlags :: "bytes \<Rightarrow> u16 \<Rightarrow> bytes" where [dhcp_frame_defs]:
  "DHCPFrame_SetFlags dhcp flags = wr16 dhcp 10 (HTOBE16 flags)"
definition DHCPFrame_SetCIAddr :: "bytes \<Rightarrow> u32 \<Rightarrow> bytes" where [dhcp_frame_defs]:
  "DHCPFrame_SetCIAddr dhcp a = wr32 dhcp 12 (HTOBE32 a)"
definition DHCPFrame_SetYIAddr :: "bytes \<Rightarrow> u32 \<Rightarrow> bytes" where [dhcp_frame_defs]:
  "DHCPFrame_SetYIAddr dhcp a = wr32 dhcp 16 (HTOBE32 a)"
definition DHCPFrame_SetSIAddr :: "bytes \<Rightarrow> u32 \<Rightarrow> bytes" where [dhcp_frame_defs]:
  "DHCPFrame_SetSIAddr dhcp a = wr32 dhcp 20 (HTOBE32 a)"
definition DHCPFrame_SetGIAddr :: "bytes \<Rightarrow> u32 \<Rightarrow> bytes" where [dhcp_frame_defs]:
  "DHCPFrame_SetGIAddr dhcp a = wr32 dhcp 24 (HTOBE32 a)"
definition DHCPFrame_SetCHAddr :: "bytes \<Rightarrow> bytes \<Rightarrow> bytes" where [dhcp_frame_defs]:
  "DHCPFrame_SetCHAddr dhcp mac = wr_mac dhcp 28 mac"

definition DHCPFrame_GetOP :: "bytes \<Rightarrow> u8" where [dhcp_frame_defs]: "DHCPFrame_GetOP dhcp = dhcp ! 0"
definition DHCPFrame_GetHType :: "bytes \<Rightarrow> u8" where [dhcp_frame_defs]: "DHCPFrame_GetHType dhcp = dhcp ! 1"
definition DHCPFrame_GetHLen :: "bytes \<Rightarrow> u8" where [dhcp_frame_defs]: "DHCPFrame_GetHLen dhcp = dhcp ! 2"
definition DHCPFrame_GetHops :: "bytes \<Rightarrow> u8" where [dhcp_frame_defs]: "DHCPFrame_GetHops dhcp = dhcp ! 3"
definition DHCPFrame_GetXID :: "bytes \<Rightarrow> u32" where [dhcp_frame_defs]:
  "DHCPFrame_GetXID dhcp = HTOBE32 (rd32 dhcp 4)"
definition DHCPFrame_GetCIAddr :: "bytes \<Rightarrow> u32" where [dhcp_frame_defs]:
  "DHCPFrame_GetCIAddr dhcp = HTOBE32 (rd32 dhcp 12)"
definition DHCPFrame_GetYIAddr :: "bytes \<Rightarrow> u32" where [dhcp_frame_defs]:
  "DHCPFrame_GetYIAddr dhcp = HTOBE32 (rd32 dhcp 16)"
definition DHCPFrame_GetSIAddr :: "bytes \<Rightarrow> u32" where [dhcp_frame_defs]:
  "DHCPFrame_GetSIAddr dhcp = HTOBE32 (rd32 dhcp 20)"
definition DHCPFrame_GetGIAddr :: "bytes \<Rightarrow> u32" where [dhcp_frame_defs]:
  "DHCPFrame_GetGIAddr dhcp = HTOBE32 (rd32 dhcp 24)"
definition DHCPFrame_GetCHAddr :: "bytes \<Rightarrow> bytes" where [dhcp_frame_defs]:
  "DHCPFrame_GetCHAddr dhcp = rd_mac dhcp 28"

section \<open>Writing options\<close>

text \<open>Writing a record at offset \<open>p\<close> of a buffer; the result is the offset after it.\<close>

definition opt_put :: "bytes \<Rightarrow> nat \<Rightarrow> bytes \<Rightarrow> fault + nat option \<times> bytes" where
  "opt_put buf p bs = bind_res (mem_write buf p bs) (\<lambda>buf. Inr (Some (p + length bs), buf))"

definition ip_bytes :: "u32 \<Rightarrow> bytes" where
  "ip_bytes ip = le_bytes32 (HTOBE32 ip)"

definition DHCPFrameOpt_SetOptionsEnd :: "bytes \<Rightarrow> nat \<Rightarrow> u32 \<Rightarrow> fault + nat option \<times> bytes" where
  "DHCPFrameOpt_SetOptionsEnd buf p bsz = (if bsz < 1 then Inr (None, buf) else opt_put buf p [DHCP_OPTION_END])"
definition DHCPFrameOpt_SetMessageType :: "bytes \<Rightarrow> nat \<Rightarrow> u32 \<Rightarrow> u8 \<Rightarrow> fault + nat option \<times> bytes" where
  "DHCPFrameOpt_SetMessageType buf p bsz msg_type =
     (if bsz < 3 then Inr (None, buf) else opt_put buf p [DHCP_OPTION_MESSAGE_TYPE, 1, msg_type])"
definition DHCPFrameOpt_SetRequestedIP :: "bytes \<Rightarrow> nat \<Rightarrow> u32 \<Rightarrow> u32 \<Rightarrow> fault + nat option \<times> bytes" where
  "DHCPFrameOpt_SetRequestedIP buf p bsz ip =
     (if bsz < 6 then Inr (None, buf) else opt_put buf p (DHCP_OPTION_REQUESTED_IP # 4 # ip_bytes ip))"
definition DHCPFrameOpt_SetParameterRequestList ::
  "bytes \<Rightarrow> nat \<Rightarrow> u32 \<Rightarrow> bytes \<Rightarrow> nat \<Rightarrow> fault + nat option \<times> bytes" where
  "DHCPFrameOpt_SetParameterRequestList buf p bsz req_list req_list_size =
     (if bsz < 2 + of_nat req_list_size then Inr (None, buf)
      else bind_res (mem_read req_list 0 req_list_size) (\<lambda>l.
             opt_put buf p (DHCP_OPTION_PARAM_LIST # of_nat req_list_size # l)))"
definition DHCPFrameOpt_SetSubnetMask :: "bytes \<Rightarrow> nat \<Rightarrow> u32 \<Rightarrow> u32 \<Rightarrow> fault + nat option \<times> bytes" where
  "DHCPFrameOpt_SetSubnetMask buf p bsz m =
     (if bsz < 6 then Inr (None, buf) else opt_put buf p (DHCP_OPTION_SUBNET_MASK # 4 # ip_bytes m))"
definition DHCPFrameOpt_SetRouterIP :: "bytes \<Rightarrow> nat \<Rightarrow> u32 \<Rightarrow> u32 \<Rightarrow> fault + nat option \<times> bytes" where
  "DHCPFrameOpt_SetRouterIP buf p bsz ip =
     (if bsz < 6 then Inr (None, buf) else opt_put buf p (DHCP_OPTION_ROUTER # 4 # ip_bytes ip))"
definition DHCPFrameOpt_SetLeaseTime :: "bytes \<Rightarrow> nat \<Rightarrow> u32 \<Rightarrow> u32 \<Rightarrow> fault + nat option \<times> bytes" where
  "DHCPFrameOpt_SetLeaseTime buf p bsz seconds =
     (if bsz < 6 then Inr (None, buf) else opt_put buf p (DHCP_OPTION_LEASE_TIME # 4 # ip_bytes seconds))"

text \<open>Only the space for the record header is checked here; the next option starts after \<open>hdr.size\<close> bytes, a byte.\<close>

definition DHCPFrameOpt_SetDNSServerIP ::
  "bytes \<Rightarrow> nat \<Rightarrow> u32 \<Rightarrow> u32 list \<Rightarrow> nat \<Rightarrow> fault + nat option \<times> bytes" where
  "DHCPFrameOpt_SetDNSServerIP buf p bsz ips count =
     (if bsz < 2 then Inr (None, buf)
      else
        let hsize = of_nat (count * 4) :: u8 in
        bind_res (mem_read ips 0 count) (\<lambda>l.
        bind_res (mem_write buf p (DHCP_OPTION_DNS_SERVERS # hsize # concat (map ip_bytes l))) (\<lambda>buf.
          Inr (Some (p + 2 + unat hsize), buf))))"
definition DHCPFrameOpt_SetDHCPServerIP :: "bytes \<Rightarrow> nat \<Rightarrow> u32 \<Rightarrow> u32 \<Rightarrow> fault + nat option \<times> bytes" where
  "DHCPFrameOpt_SetDHCPServerIP buf p bsz ip =
     (if bsz < 6 then Inr (None, buf) else opt_put buf p (DHCP_OPTION_DHCP_SERVER # 4 # ip_bytes ip))"

section \<open>Reading options\<close>

text \<open>The argument \<open>ptr\<close> is the memory from the record on.\<close>

definition DHCPFrameOpt_GetOptionHdr :: "bytes \<Rightarrow> u32 \<Rightarrow> fault + (u8 \<times> nat) option" where
  "DHCPFrameOpt_GetOptionHdr ptr bsz =
     (if bsz < 2 then Inr None
      else if length ptr < 2 then Inl OutOfBounds
      else if bsz < 2 + ucast (ptr ! 1) then Inr None
      else if ptr ! 0 = DHCP_OPTION_END then Inr None
      else Inr (Some (ptr ! 0, 2 + unat (ptr ! 1))))"

definition opt_get1 :: "u8 \<Rightarrow> bytes \<Rightarrow> fault + u8 option" where
  "opt_get1 code ptr =
     (if length ptr < 2 then Inl OutOfBounds
      else if ptr ! 0 \<noteq> code \<or> ptr ! 1 \<noteq> 1 then Inr None
      else if length ptr < 3 then Inl OutOfBounds else Inr (Some (ptr ! 2)))"

definition opt_get4 :: "u8 \<Rightarrow> bytes \<Rightarrow> fault + u32 option" where
  "opt_get4 code ptr =
     (if length ptr < 2 then Inl OutOfBounds
      else if ptr ! 0 \<noteq> code \<or> ptr ! 1 \<noteq> 4 then Inr None
      else if length ptr < 6 then Inl OutOfBounds else Inr (Some (HTOBE32 (rd32 ptr 2))))"

definition DHCPFrameOpt_GetMessageType :: "bytes \<Rightarrow> fault + u8 option" where
  "DHCPFrameOpt_GetMessageType ptr = opt_get1 DHCP_OPTION_MESSAGE_TYPE ptr"
definition DHCPFrameOpt_GetRequestedIP :: "bytes \<Rightarrow> fault + u32 option" where
  "DHCPFrameOpt_GetRequestedIP ptr = opt_get4 DHCP_OPTION_REQUESTED_IP ptr"
definition DHCPFrameOpt_GetSubnetMask :: "bytes \<Rightarrow> fault + u32 option" where
  "DHCPFrameOpt_GetSubnetMask ptr = opt_get4 DHCP_OPTION_SUBNET_MASK ptr"
definition DHCPFrameOpt_GetRouterIP :: "bytes \<Rightarrow> fault + u32 option" where
  "DHCPFrameOpt_GetRouterIP ptr = opt_get4 DHCP_OPTION_ROUTER ptr"
definition DHCPFrameOpt_GetLeaseTime :: "bytes \<Rightarrow> fault + u32 option" where
  "DHCPFrameOpt_GetLeaseTime ptr = opt_get4 DHCP_OPTION_LEASE_TIME ptr"
definition DHCPFrameOpt_GetDHCPServerIP :: "bytes \<Rightarrow> fault + u32 option" where
  "DHCPFrameOpt_GetDHCPServerIP ptr = opt_get4 DHCP_OPTION_DHCP_SERVER ptr"

definition DHCPFrameOpt_GetParameterRequestList :: "bytes \<Rightarrow> nat \<Rightarrow> fault + u8 option" where
  "DHCPFrameOpt_GetParameterRequestList ptr index =
     (if length ptr < 2 then Inl OutOfBounds
      else if ptr ! 0 \<noteq> DHCP_OPTION_PARAM_LIST \<or> index \<ge> unat (ptr ! 1) then Inr None
      else if length ptr \<le> 2 + index then Inl OutOfBounds else Inr (Some (ptr ! (2 + index))))"

definition DHCPFrameOpt_GetDNSServerIP :: "bytes \<Rightarrow> nat \<Rightarrow> fault + u32 option" where
  "DHCPFrameOpt_GetDNSServerIP ptr index =
     (if length ptr < 2 then Inl OutOfBounds
      else if ptr ! 0 \<noteq> DHCP_OPTION_DNS_SERVERS \<or> unat (ptr ! 1) mod 4 \<noteq> 0 then Inr None
      else if unat (ptr ! 1) \<le> index * 4 then Inr None
      else if length ptr < 6 + index * 4 then Inl OutOfBounds
      else Inr (Some (HTOBE32 (rd32 ptr (2 + index * 4)))))"


section \<open>Addresses\<close>

definition has_flag :: "u32 \<Rightarrow> u32 \<Rightarrow> bool" where
  "has_flag w f \<longleftrightarrow> w AND f \<noteq> 0"

definition DHCPFrame_RenderAddresses :: "bytes \<Rightarrow> u32 \<Rightarrow> dhcp_addrset \<Rightarrow> fault + err_t \<times> bytes" where
  "DHCPFrame_RenderAddresses frame bsz adrs =
     (if bsz < 240 then Inr (EFATAL, frame)
      else if length frame < 240 then Inl OutOfBounds
      else
        let frame = DHCPFrame_SetCIAddr frame (if has_flag (a_flags adrs) DHCP_ADDRFLAGS_CIADDR then a_ci adrs else 0);
            frame = DHCPFrame_SetYIAddr frame (if has_flag (a_flags adrs) DHCP_ADDRFLAGS_YIADDR then a_yi adrs else 0);
            frame = DHCPFrame_SetSIAddr frame (if has_flag (a_flags adrs) DHCP_ADDRFLAGS_SIADDR then a_si adrs else 0);
            frame = DHCPFrame_SetGIAddr frame (if has_flag (a_flags adrs) DHCP_ADDRFLAGS_GIADDR then a_gi adrs else 0);
            frame = DHCPFrame_SetCHAddr frame
                      (if has_flag (a_flags adrs) DHCP_ADDRFLAGS_CHADDR then a_ch adrs else replicate 6 0)
        in Inr (EOK, frame))"

definition DHCPFrame_ParseAddresses :: "bytes \<Rightarrow> u32 \<Rightarrow> dhcp_addrset \<Rightarrow> fault + err_t \<times> dhcp_addrset" where
  "DHCPFrame_ParseAddresses frame bsz adrs =
     (if bsz < 240 then Inr (EFATAL, adrs)
      else if length frame < 240 then Inl OutOfBounds
      else
        let set = (\<lambda>a present f. if present then a\<lparr>a_flags := a_flags a OR f\<rparr> else a);
            a = adrs\<lparr>a_ci := DHCPFrame_GetCIAddr frame\<rparr>;
            a = set a (\<not> TCPIPIpAddr_AddressMatch (a_ci a) 0) DHCP_ADDRFLAGS_CIADDR;
            a = a\<lparr>a_yi := DHCPFrame_GetYIAddr frame\<rparr>;
            a = set a (\<not> TCPIPIpAddr_AddressMatch (a_yi a) 0) DHCP_ADDRFLAGS_YIADDR;
            a = a\<lparr>a_si := DHCPFrame_GetSIAddr frame\<rparr>;
            a = set a (\<not> TCPIPIpAddr_AddressMatch (a_si a) 0) DHCP_ADDRFLAGS_SIADDR;
            a = a\<lparr>a_gi := DHCPFrame_GetGIAddr frame\<rparr>;
            a = set a (\<not> TCPIPIpAddr_AddressMatch (a_gi a) 0) DHCP_ADDRFLAGS_GIADDR;
            a = a\<lparr>a_ch := DHCPFrame_GetCHAddr frame\<rparr>;
            a = set a (\<not> TCPIPEthAddr_AddressMatch (a_ch a) (replicate 6 0)) DHCP_ADDRFLAGS_CHADDR
        in Inr (EOK, a))"

section \<open>Option records\<close>

text \<open>
  One line of \<open>DHCPFrame_RenderOptions\<close>: the option is written when no earlier one failed and its flag
  is set. \<open>start\<close> is the offset of the first option, so \<open>p - start\<close> is what has been used.
\<close>

definition render_opt ::
  "nat \<Rightarrow> u32 \<Rightarrow> bool \<Rightarrow> (bytes \<Rightarrow> nat \<Rightarrow> u32 \<Rightarrow> fault + nat option \<times> bytes) \<Rightarrow> nat option \<times> bytes \<Rightarrow>
   fault + nat option \<times> bytes" where
  "render_opt start bsz present setter st =
     (case st of (pcurr, buf) \<Rightarrow>
        (case pcurr of
           None \<Rightarrow> Inr st
         | Some p \<Rightarrow> if present then setter buf p (bsz - of_nat (p - start)) else Inr st))"

definition DHCPFrame_RenderOptions ::
  "bytes \<Rightarrow> nat \<Rightarrow> u32 \<Rightarrow> dhcp_optset \<Rightarrow> fault + nat option \<times> bytes" where
  "DHCPFrame_RenderOptions buf ptr bsz opts =
     (let opt = (\<lambda>f. render_opt ptr bsz (has_flag (o_flags opts) f)) in
      bind_res (opt DHCP_OPTFLAGS_MSGTYPE (\<lambda>b p n. DHCPFrameOpt_SetMessageType b p n (o_msg_type opts)) (Some ptr, buf)) (\<lambda>st.
      bind_res (opt DHCP_OPTFLAGS_SUBNET (\<lambda>b p n. DHCPFrameOpt_SetSubnetMask b p n (o_subnet opts)) st) (\<lambda>st.
      bind_res (opt DHCP_OPTFLAGS_ROUTER (\<lambda>b p n. DHCPFrameOpt_SetRouterIP b p n (o_router opts)) st) (\<lambda>st.
      bind_res (opt DHCP_OPTFLAGS_DNS_SERVERS
                  (\<lambda>b p n. DHCPFrameOpt_SetDNSServerIP b p n (o_dns opts) (o_dns_cnt opts)) st) (\<lambda>st.
      bind_res (opt DHCP_OPTFLAGS_REQUESTED_IP (\<lambda>b p n. DHCPFrameOpt_SetRequestedIP b p n (o_req_ip opts)) st) (\<lambda>st.
      bind_res (opt DHCP_OPTFLAGS_LEASE_TIME (\<lambda>b p n. DHCPFrameOpt_SetLeaseTime b p n (o_lease_time opts)) st) (\<lambda>st.
      bind_res (opt DHCP_OPTFLAGS_DHCP_SERVER (\<lambda>b p n. DHCPFrameOpt_SetDHCPServerIP b p n (o_server opts)) st) (\<lambda>st.
      bind_res (opt DHCP_OPTFLAGS_REQ_PARAM_LIST
                  (\<lambda>b p n. DHCPFrameOpt_SetParameterRequestList b p n (o_req_list opts) (o_req_list_cnt opts)) st) (\<lambda>st.
      opt DHCP_OPTFLAGS_END DHCPFrameOpt_SetOptionsEnd st)))))))))"

text \<open>The loops that read the entries of a list option, and one option record.\<close>

definition set_opt :: "u32 \<Rightarrow> dhcp_optset \<Rightarrow> dhcp_optset" where
  "set_opt f o' = o'\<lparr>o_flags := o_flags o' OR f\<rparr>"

fun dns_loop :: "bytes \<Rightarrow> nat list \<Rightarrow> dhcp_optset \<Rightarrow> fault + dhcp_optset" where
  "dns_loop ptr [] opts = Inr opts"
| "dns_loop ptr (i # is) opts =
     bind_res (DHCPFrameOpt_GetDNSServerIP ptr i) (\<lambda>r.
       dns_loop ptr is (case r of None \<Rightarrow> opts
         | Some ip \<Rightarrow> opts\<lparr>o_dns := (o_dns opts)[i := ip], o_dns_cnt := o_dns_cnt opts + 1\<rparr>))"

fun req_loop :: "bytes \<Rightarrow> nat list \<Rightarrow> dhcp_optset \<Rightarrow> fault + dhcp_optset" where
  "req_loop ptr [] opts = Inr opts"
| "req_loop ptr (i # is) opts =
     bind_res (DHCPFrameOpt_GetParameterRequestList ptr i) (\<lambda>r.
       req_loop ptr is (case r of None \<Rightarrow> opts
         | Some x \<Rightarrow> opts\<lparr>o_req_list := (o_req_list opts)[i := x], o_req_list_cnt := o_req_list_cnt opts + 1\<rparr>))"

definition parse_opt :: "u8 \<Rightarrow> bytes \<Rightarrow> dhcp_optset \<Rightarrow> fault + dhcp_optset" where
  "parse_opt code ptr opts =
     (let store = (\<lambda>r upd f. case r of None \<Rightarrow> Inr opts | Some x \<Rightarrow> Inr (set_opt f (upd x))) in
      if code = DHCP_OPTION_MESSAGE_TYPE then
        bind_res (DHCPFrameOpt_GetMessageType ptr) (\<lambda>r.
          case r of None \<Rightarrow> Inr opts | Some x \<Rightarrow> Inr (set_opt DHCP_OPTFLAGS_MSGTYPE (opts\<lparr>o_msg_type := x\<rparr>)))
      else if code = DHCP_OPTION_REQUESTED_IP then
        bind_res (DHCPFrameOpt_GetRequestedIP ptr) (\<lambda>r. store r (\<lambda>x. opts\<lparr>o_req_ip := x\<rparr>) DHCP_OPTFLAGS_REQUESTED_IP)
      else if code = DHCP_OPTION_SUBNET_MASK then
        bind_res (DHCPFrameOpt_GetSubnetMask ptr) (\<lambda>r. store r (\<lambda>x. opts\<lparr>o_subnet := x\<rparr>) DHCP_OPTFLAGS_SUBNET)
      else if code = DHCP_OPTION_ROUTER then
        bind_res (DHCPFrameOpt_GetRouterIP ptr) (\<lambda>r. store r (\<lambda>x. opts\<lparr>o_router := x\<rparr>) DHCP_OPTFLAGS_ROUTER)
      else if code = DHCP_OPTION_LEASE_TIME then
        bind_res (DHCPFrameOpt_GetLeaseTime ptr) (\<lambda>r. store r (\<lambda>x. opts\<lparr>o_lease_time := x\<rparr>) DHCP_OPTFLAGS_LEASE_TIME)
      else if code = DHCP_OPTION_DNS_SERVERS then
        bind_res (dns_loop ptr [0..<3] (opts\<lparr>o_dns_cnt := 0\<rparr>)) (\<lambda>o'.
          Inr (if o_dns_cnt o' \<noteq> 0 then set_opt DHCP_OPTFLAGS_DNS_SERVERS o' else o'))
      else if code = DHCP_OPTION_DHCP_SERVER then
        bind_res (DHCPFrameOpt_GetDHCPServerIP ptr) (\<lambda>r. store r (\<lambda>x. opts\<lparr>o_server := x\<rparr>) DHCP_OPTFLAGS_DHCP_SERVER)
      else if code = DHCP_OPTION_PARAM_LIST then
        bind_res (req_loop ptr [0..<32] (opts\<lparr>o_req_list_cnt := 0\<rparr>)) (\<lambda>o'.
          Inr (if o_req_list_cnt o' \<noteq> 0 then set_opt DHCP_OPTFLAGS_REQ_PARAM_LIST o' else o'))
      else Inr opts)"

text \<open>The loop over the records: \<open>mem\<close> is the memory from the first record on, \<open>pos\<close> the offset of \<open>pcurr\<close>.\<close>

function parse_loop :: "bytes \<Rightarrow> u32 \<Rightarrow> nat \<Rightarrow> dhcp_optset \<Rightarrow> fault + nat option \<times> dhcp_optset" where
  "parse_loop mem bsz pos opts =
     (if bsz = 0 then Inr (None, opts)
      else if length mem \<le> pos then Inl OutOfBounds
      else if mem ! pos = DHCP_OPTION_END then Inr (Some (pos + 1), set_opt DHCP_OPTFLAGS_END opts)
      else
        (case DHCPFrameOpt_GetOptionHdr (drop pos mem) (bsz - of_nat pos) of
           Inl e \<Rightarrow> Inl e
         | Inr None \<Rightarrow> Inr (None, opts)
         | Inr (Some (opt_code, step)) \<Rightarrow>
             (case parse_opt opt_code (drop pos mem) opts of
                Inl e \<Rightarrow> Inl e
              | Inr opts' \<Rightarrow> parse_loop mem bsz (pos + step) opts')))"
  by pat_completeness auto
termination
  by (relation "measure (\<lambda>(mem, _, pos, _). length mem - pos)")
    (auto simp: DHCPFrameOpt_GetOptionHdr_def split: if_splits)

definition DHCPFrame_ParseOptions :: "bytes \<Rightarrow> u32 \<Rightarrow> dhcp_optset \<Rightarrow> fault + nat option \<times> dhcp_optset" where
  "DHCPFrame_ParseOptions mem bsz opts = parse_loop mem bsz 0 (opts\<lparr>o_flags := 0\<rparr>)"

declare parse_loop.simps [simp del]

section \<open>What rendering writes\<close>

text \<open>The option records of a set of options, in the order of the renderer: whether it is present, and its bytes.\<close>

definition opt_recs :: "dhcp_optset \<Rightarrow> (bool \<times> bytes) list" where
  "opt_recs opts =
     [(has_flag (o_flags opts) DHCP_OPTFLAGS_MSGTYPE, [DHCP_OPTION_MESSAGE_TYPE, 1, o_msg_type opts]),
      (has_flag (o_flags opts) DHCP_OPTFLAGS_SUBNET, DHCP_OPTION_SUBNET_MASK # 4 # ip_bytes (o_subnet opts)),
      (has_flag (o_flags opts) DHCP_OPTFLAGS_ROUTER, DHCP_OPTION_ROUTER # 4 # ip_bytes (o_router opts)),
      (has_flag (o_flags opts) DHCP_OPTFLAGS_DNS_SERVERS,
         DHCP_OPTION_DNS_SERVERS # of_nat (o_dns_cnt opts * 4) # concat (map ip_bytes (take (o_dns_cnt opts) (o_dns opts)))),
      (has_flag (o_flags opts) DHCP_OPTFLAGS_REQUESTED_IP, DHCP_OPTION_REQUESTED_IP # 4 # ip_bytes (o_req_ip opts)),
      (has_flag (o_flags opts) DHCP_OPTFLAGS_LEASE_TIME, DHCP_OPTION_LEASE_TIME # 4 # ip_bytes (o_lease_time opts)),
      (has_flag (o_flags opts) DHCP_OPTFLAGS_DHCP_SERVER, DHCP_OPTION_DHCP_SERVER # 4 # ip_bytes (o_server opts)),
      (has_flag (o_flags opts) DHCP_OPTFLAGS_REQ_PARAM_LIST,
         DHCP_OPTION_PARAM_LIST # of_nat (o_req_list_cnt opts) # take (o_req_list_cnt opts) (o_req_list opts)),
      (has_flag (o_flags opts) DHCP_OPTFLAGS_END, [DHCP_OPTION_END])]"

definition recs_bytes :: "(bool \<times> bytes) list \<Rightarrow> bytes" where
  "recs_bytes rs = concat (map (\<lambda>(present, bs). if present then bs else []) rs)"

lemma recs_bytes_simps [simp]:
  "recs_bytes [] = []" "recs_bytes ((c, bs) # rs) = (if c then bs else []) @ recs_bytes rs"
  by (simp_all add: recs_bytes_def)

text \<open>The tables of the set have their sizes, and a list option that is present has entries.\<close>

definition optset_wf :: "dhcp_optset \<Rightarrow> bool" where
  "optset_wf opts \<longleftrightarrow> length (o_dns opts) = 3 \<and> length (o_req_list opts) = 32 \<and>
     o_dns_cnt opts \<le> 3 \<and> o_req_list_cnt opts \<le> 32 \<and>
     (has_flag (o_flags opts) DHCP_OPTFLAGS_DNS_SERVERS \<longrightarrow> 1 \<le> o_dns_cnt opts) \<and>
     (has_flag (o_flags opts) DHCP_OPTFLAGS_REQ_PARAM_LIST \<longrightarrow> 1 \<le> o_req_list_cnt opts)"

lemma ip_bytes_length [simp]: "length (ip_bytes ip) = 4"
  by (simp add: ip_bytes_def)

lemma concat_ip_bytes_length [simp]: "length (concat (map ip_bytes l)) = 4 * length l"
  by (induction l) simp_all

definition writes :: "(bytes \<Rightarrow> nat \<Rightarrow> u32 \<Rightarrow> fault + nat option \<times> bytes) \<Rightarrow> bytes \<Rightarrow> bool" where
  "writes setter bs \<longleftrightarrow>
     (\<forall>buf p n. length bs \<le> unat n \<longrightarrow> p + length bs \<le> length buf \<longrightarrow>
        setter buf p n = Inr (Some (p + length bs), take p buf @ bs @ drop (p + length bs) buf))"

lemma opt_put_ok: "p + length bs \<le> length buf \<Longrightarrow>
   opt_put buf p bs = Inr (Some (p + length bs), take p buf @ bs @ drop (p + length bs) buf)"
  by (simp add: opt_put_def mem_write_def)

lemma writes_put:
  assumes "\<And>buf p n. length bs \<le> unat n \<Longrightarrow> setter buf p n = opt_put buf p bs"
  shows "writes setter bs"
  using assms by (simp add: writes_def opt_put_ok)

lemma writes_simple:
  "writes (\<lambda>b p n. DHCPFrameOpt_SetMessageType b p n mt) [DHCP_OPTION_MESSAGE_TYPE, 1, mt]"
  "writes (\<lambda>b p n. DHCPFrameOpt_SetSubnetMask b p n ip) (DHCP_OPTION_SUBNET_MASK # 4 # ip_bytes ip)"
  "writes (\<lambda>b p n. DHCPFrameOpt_SetRouterIP b p n ip) (DHCP_OPTION_ROUTER # 4 # ip_bytes ip)"
  "writes (\<lambda>b p n. DHCPFrameOpt_SetRequestedIP b p n ip) (DHCP_OPTION_REQUESTED_IP # 4 # ip_bytes ip)"
  "writes (\<lambda>b p n. DHCPFrameOpt_SetLeaseTime b p n ip) (DHCP_OPTION_LEASE_TIME # 4 # ip_bytes ip)"
  "writes (\<lambda>b p n. DHCPFrameOpt_SetDHCPServerIP b p n ip) (DHCP_OPTION_DHCP_SERVER # 4 # ip_bytes ip)"
  "writes DHCPFrameOpt_SetOptionsEnd [DHCP_OPTION_END]"
  by (auto intro!: writes_put simp: DHCPFrameOpt_SetMessageType_def DHCPFrameOpt_SetSubnetMask_def
      DHCPFrameOpt_SetRouterIP_def DHCPFrameOpt_SetRequestedIP_def DHCPFrameOpt_SetLeaseTime_def
      DHCPFrameOpt_SetDHCPServerIP_def DHCPFrameOpt_SetOptionsEnd_def word_less_nat_alt)

lemma writes_dns:
  assumes "count \<le> length ips" "count \<le> 3"
  shows "writes (\<lambda>b p n. DHCPFrameOpt_SetDNSServerIP b p n ips count)
    (DHCP_OPTION_DNS_SERVERS # of_nat (count * 4) # concat (map ip_bytes (take count ips)))"
proof -
  have "unat (of_nat (count * 4) :: u8) = count * 4" using assms(2) by (simp add: unat_of_nat del: of_nat_mult)
  then show ?thesis
    unfolding writes_def using assms
    by (auto simp: DHCPFrameOpt_SetDNSServerIP_def word_less_nat_alt mem_read_def mem_write_def Let_def simp del: of_nat_mult)
qed

lemma writes_req:
  assumes "count \<le> length l" "count \<le> 32"
  shows "writes (\<lambda>b p n. DHCPFrameOpt_SetParameterRequestList b p n l count)
    (DHCP_OPTION_PARAM_LIST # of_nat count # take count l)"
proof (rule writes_put)
  fix buf p and n :: u32
  assume "length (DHCP_OPTION_PARAM_LIST # of_nat count # take count l) \<le> unat n"
  moreover have "unat (2 + of_nat count :: u32) = 2 + count"
    using assms(2) by (subst unat_u32_add) (auto simp: unat_of_nat)
  ultimately have "\<not> n < 2 + of_nat count" using assms by (simp add: word_less_nat_alt)
  then show "DHCPFrameOpt_SetParameterRequestList buf p n l count =
      opt_put buf p (DHCP_OPTION_PARAM_LIST # of_nat count # take count l)"
    using assms by (simp add: DHCPFrameOpt_SetParameterRequestList_def mem_read_def)
qed

text \<open>The state of the renderer after it has written \<open>acc\<close>.\<close>

definition rendered :: "bytes \<Rightarrow> nat \<Rightarrow> bytes \<Rightarrow> nat option \<times> bytes" where
  "rendered buf ptr acc = (Some (ptr + length acc), take ptr buf @ acc @ drop (ptr + length acc) buf)"

lemma render_opt_ok:
  assumes "writes setter bs" "b = (if present then bs else [])" "length (acc @ b) \<le> unat bsz"
    and "ptr + unat bsz \<le> length buf"
  shows "render_opt ptr bsz present setter (rendered buf ptr acc) = Inr (rendered buf ptr (acc @ b))"
proof (cases present)
  case True
  let ?b = "take ptr buf @ acc @ drop (ptr + length acc) buf"
  have "length acc < 2 ^ 32" using assms(3) unat_u32_less [of bsz] by simp
  then have "unat (of_nat (length acc) :: u32) = length acc" by (simp add: unat_of_nat)
  then have u: "unat (bsz - of_nat (length acc)) = unat bsz - length acc"
    using assms(3) by (subst unat_sub) (auto simp: word_le_nat_alt)
  have "setter ?b (ptr + length acc) (bsz - of_nat (length acc)) =
      Inr (Some (ptr + length acc + length bs),
           take (ptr + length acc) ?b @ bs @ drop (ptr + length acc + length bs) ?b)"
    using assms u True unfolding writes_def by auto
  then show ?thesis using assms True by (simp add: render_opt_def rendered_def add_ac)
qed (use assms(2) in \<open>simp add: render_opt_def rendered_def\<close>)

lemma RenderOptions_ok:
  assumes "optset_wf opts" "length (recs_bytes (opt_recs opts)) \<le> unat bsz" "ptr + unat bsz \<le> length buf"
  shows "DHCPFrame_RenderOptions buf ptr bsz opts = Inr (rendered buf ptr (recs_bytes (opt_recs opts)))"
proof -
  have wf: "o_dns_cnt opts \<le> length (o_dns opts)" "o_dns_cnt opts \<le> 3"
    "o_req_list_cnt opts \<le> length (o_req_list opts)" "o_req_list_cnt opts \<le> 32"
    using assms(1) by (auto simp: optset_wf_def)
  define b where "b = (\<lambda>i. if fst (opt_recs opts ! i) then snd (opt_recs opts ! i) else [])"
  have bi: "b i = (if fst (opt_recs opts ! i) then snd (opt_recs opts ! i) else [])" for i by (simp add: b_def)
  have all: "recs_bytes (opt_recs opts) = b 0 @ b 1 @ b 2 @ b 3 @ b 4 @ b 5 @ b 6 @ b 7 @ b 8"
    by (simp add: b_def opt_recs_def cong: if_cong split del: if_split)
  have start: "(Some ptr, buf) = rendered buf ptr []" by (simp add: rendered_def)
  note step = render_opt_ok [OF _ _ _ assms(3)]
  have b: "b 0 = (if has_flag (o_flags opts) DHCP_OPTFLAGS_MSGTYPE then [DHCP_OPTION_MESSAGE_TYPE, 1, o_msg_type opts] else [])"
    "b 1 = (if has_flag (o_flags opts) DHCP_OPTFLAGS_SUBNET then DHCP_OPTION_SUBNET_MASK # 4 # ip_bytes (o_subnet opts) else [])"
    "b 2 = (if has_flag (o_flags opts) DHCP_OPTFLAGS_ROUTER then DHCP_OPTION_ROUTER # 4 # ip_bytes (o_router opts) else [])"
    "b 3 = (if has_flag (o_flags opts) DHCP_OPTFLAGS_DNS_SERVERS then DHCP_OPTION_DNS_SERVERS # of_nat (o_dns_cnt opts * 4) #
       concat (map ip_bytes (take (o_dns_cnt opts) (o_dns opts))) else [])"
    "b 4 = (if has_flag (o_flags opts) DHCP_OPTFLAGS_REQUESTED_IP then DHCP_OPTION_REQUESTED_IP # 4 # ip_bytes (o_req_ip opts) else [])"
    "b 5 = (if has_flag (o_flags opts) DHCP_OPTFLAGS_LEASE_TIME then DHCP_OPTION_LEASE_TIME # 4 # ip_bytes (o_lease_time opts) else [])"
    "b 6 = (if has_flag (o_flags opts) DHCP_OPTFLAGS_DHCP_SERVER then DHCP_OPTION_DHCP_SERVER # 4 # ip_bytes (o_server opts) else [])"
    "b 7 = (if has_flag (o_flags opts) DHCP_OPTFLAGS_REQ_PARAM_LIST then DHCP_OPTION_PARAM_LIST # of_nat (o_req_list_cnt opts) #
       take (o_req_list_cnt opts) (o_req_list opts) else [])"
    "b 8 = (if has_flag (o_flags opts) DHCP_OPTFLAGS_END then [DHCP_OPTION_END] else [])"
    by (simp_all add: bi opt_recs_def cong: if_cong split del: if_split)
  show ?thesis
    using assms(2) unfolding DHCPFrame_RenderOptions_def Let_def start all
    by (simp add: step [OF writes_simple(1) b(1)] step [OF writes_simple(2) b(2)]
        step [OF writes_simple(3) b(3)] step [OF writes_dns [OF wf(1,2)] b(4)]
        step [OF writes_simple(4) b(5)] step [OF writes_simple(5) b(6)] step [OF writes_simple(6) b(7)]
        step [OF writes_req [OF wf(3,4)] b(8)] step [OF writes_simple(7) b(9)])
qed

section \<open>What parsing finds\<close>

lemma rd32_ip_bytes: "HTOBE32 (rd32 (a # b # ip_bytes x @ r) 2) = x"
proof -
  have "rd32 (a # b # ip_bytes x @ r) 2 = le_word32 (le_bytes32 (HTOBE32 x) @ [])"
    by (simp add: rd32_def ip_bytes_def le_bytes32_def)
  then show ?thesis by (simp only: le_word32_bytes HTOBE32_twice)
qed

lemma parse_opt_simple:
  "parse_opt DHCP_OPTION_MESSAGE_TYPE (DHCP_OPTION_MESSAGE_TYPE # 1 # x # r) opts =
     Inr (set_opt DHCP_OPTFLAGS_MSGTYPE (opts\<lparr>o_msg_type := x\<rparr>))"
  "parse_opt DHCP_OPTION_SUBNET_MASK (DHCP_OPTION_SUBNET_MASK # 4 # ip_bytes ip @ r) opts =
     Inr (set_opt DHCP_OPTFLAGS_SUBNET (opts\<lparr>o_subnet := ip\<rparr>))"
  "parse_opt DHCP_OPTION_ROUTER (DHCP_OPTION_ROUTER # 4 # ip_bytes ip @ r) opts =
     Inr (set_opt DHCP_OPTFLAGS_ROUTER (opts\<lparr>o_router := ip\<rparr>))"
  "parse_opt DHCP_OPTION_REQUESTED_IP (DHCP_OPTION_REQUESTED_IP # 4 # ip_bytes ip @ r) opts =
     Inr (set_opt DHCP_OPTFLAGS_REQUESTED_IP (opts\<lparr>o_req_ip := ip\<rparr>))"
  "parse_opt DHCP_OPTION_LEASE_TIME (DHCP_OPTION_LEASE_TIME # 4 # ip_bytes ip @ r) opts =
     Inr (set_opt DHCP_OPTFLAGS_LEASE_TIME (opts\<lparr>o_lease_time := ip\<rparr>))"
  "parse_opt DHCP_OPTION_DHCP_SERVER (DHCP_OPTION_DHCP_SERVER # 4 # ip_bytes ip @ r) opts =
     Inr (set_opt DHCP_OPTFLAGS_DHCP_SERVER (opts\<lparr>o_server := ip\<rparr>))"
  by (simp_all add: parse_opt_def Let_def dhcp_opt_codes DHCPFrameOpt_GetMessageType_def DHCPFrameOpt_GetSubnetMask_def
      DHCPFrameOpt_GetRouterIP_def DHCPFrameOpt_GetRequestedIP_def DHCPFrameOpt_GetLeaseTime_def
      DHCPFrameOpt_GetDHCPServerIP_def opt_get1_def opt_get4_def rd32_ip_bytes)

lemma rd32_nth_ip:
  "i < length l \<Longrightarrow> HTOBE32 (rd32 (a # b # concat (map ip_bytes l) @ r) (2 + i * 4)) = l ! i"
proof (induction l arbitrary: i a b)
  case (Cons x l)
  show ?case
  proof (cases i)
    case 0
    then show ?thesis using rd32_ip_bytes [of a b x "concat (map ip_bytes l) @ r"] by simp
  next
    case (Suc j)
    obtain p q c d where pq: "ip_bytes x = [p, q, c, d]" by (simp add: ip_bytes_def le_bytes32_def)
    have "rd32 (a # b # concat (map ip_bytes (x # l)) @ r) (2 + i * 4) =
        rd32 (c # d # concat (map ip_bytes l) @ r) (2 + j * 4)"
      by (simp add: rd32_def pq Suc)
    then show ?thesis using Cons Suc by simp
  qed
qed simp

lemma dns_get:
  assumes "length l \<le> 3"
  shows "DHCPFrameOpt_GetDNSServerIP (DHCP_OPTION_DNS_SERVERS # of_nat (length l * 4) # concat (map ip_bytes l) @ r) i =
    Inr (if i < length l then Some (l ! i) else None)"
proof -
  have u: "unat (of_nat (length l * 4) :: u8) = length l * 4" using assms by (simp add: unat_of_nat del: of_nat_mult)
  then show ?thesis
    using assms rd32_nth_ip [of i l DHCP_OPTION_DNS_SERVERS "of_nat (length l * 4)" r]
    by (simp add: DHCPFrameOpt_GetDNSServerIP_def u del: of_nat_mult)
qed

lemma parse_opt_dns:
  assumes "1 \<le> length l" "length l \<le> 3" "length (o_dns opts) = 3"
  shows "parse_opt DHCP_OPTION_DNS_SERVERS
      (DHCP_OPTION_DNS_SERVERS # of_nat (length l * 4) # concat (map ip_bytes l) @ r) opts =
    Inr (set_opt DHCP_OPTFLAGS_DNS_SERVERS
      (opts\<lparr>o_dns := l @ drop (length l) (o_dns opts), o_dns_cnt := length l\<rparr>))"
proof -
  obtain x y z where xyz: "o_dns opts = [x, y, z]" using assms(3) by (auto simp: length_Suc_conv numeral_eq_Suc)
  have "[0..<3] = [0, 1, 2]" by (simp add: upt_rec)
  note parse = this parse_opt_def Let_def dhcp_opt_codes set_opt_def xyz
  note get = dns_get [OF assms(2), of r]
  from assms(1,2) consider a where "l = [a]" | a b where "l = [a, b]" | a b c where "l = [a, b, c]"
    by (cases l; cases "tl l"; cases "tl (tl l)") auto
  then show ?thesis
  proof cases
    case 1
    then show ?thesis using get [unfolded 1] by (simp add: parse 1)
  next
    case 2
    then show ?thesis using get [unfolded 2] by (simp add: parse 2)
  next
    case 3
    then show ?thesis using get [unfolded 3] by (simp add: parse 3)
  qed
qed

lemma req_loop_append: "req_loop ptr (xs @ ys) opts = bind_res (req_loop ptr xs opts) (req_loop ptr ys)"
proof (induction xs arbitrary: opts)
  case (Cons x xs)
  then show ?case by (cases "DHCPFrameOpt_GetParameterRequestList ptr x") simp_all
qed simp

lemma req_loop_ok:
  assumes "length l \<le> 32" "ptr = DHCP_OPTION_PARAM_LIST # of_nat (length l) # l @ r" "length (o_req_list opts) = 32"
  shows "m \<le> 32 \<Longrightarrow> req_loop ptr [0..<m] opts =
    Inr (opts\<lparr>o_req_list := take m l @ drop (min m (length l)) (o_req_list opts),
             o_req_list_cnt := o_req_list_cnt opts + min m (length l)\<rparr>)"
proof (induction m)
  case 0
  then show ?case by simp
next
  case (Suc m)
  have u: "unat (of_nat (length l) :: u8) = length l" using assms(1) by (simp add: unat_of_nat)
  have get: "DHCPFrameOpt_GetParameterRequestList ptr m = Inr (if m < length l then Some (l ! m) else None)"
    using u by (simp add: DHCPFrameOpt_GetParameterRequestList_def assms(2) nth_append)
  show ?case
  proof (cases "m < length l")
    case True
    have "drop m (o_req_list opts) = o_req_list opts ! m # drop (Suc m) (o_req_list opts)"
      using Suc.prems assms(3) by (intro Cons_nth_drop_Suc [symmetric]) simp
    then have "(take m l @ drop m (o_req_list opts))[m := l ! m] = take (Suc m) l @ drop (Suc m) (o_req_list opts)"
      using True by (simp add: list_update_append take_Suc_conv_app_nth)
    then show ?thesis using Suc get True by (simp add: req_loop_append)
  qed (use Suc get in \<open>simp add: req_loop_append\<close>)
qed

lemma parse_opt_req:
  assumes "1 \<le> length l" "length l \<le> 32" "length (o_req_list opts) = 32"
  shows "parse_opt DHCP_OPTION_PARAM_LIST (DHCP_OPTION_PARAM_LIST # of_nat (length l) # l @ r) opts =
    Inr (set_opt DHCP_OPTFLAGS_REQ_PARAM_LIST
      (opts\<lparr>o_req_list := l @ drop (length l) (o_req_list opts), o_req_list_cnt := length l\<rparr>))"
proof -
  have "req_loop (DHCP_OPTION_PARAM_LIST # of_nat (length l) # l @ r) [0..<32] (opts\<lparr>o_req_list_cnt := 0\<rparr>) =
      Inr (opts\<lparr>o_req_list := l @ drop (length l) (o_req_list opts), o_req_list_cnt := length l\<rparr>)"
    using req_loop_ok [OF assms(2) refl, of "opts\<lparr>o_req_list_cnt := 0\<rparr>" 32 r] assms by (simp add: min_def)
  moreover have "l \<noteq> []" using assms(1) by auto
  ultimately show ?thesis by (simp add: parse_opt_def Let_def dhcp_opt_codes)
qed

text \<open>One record of the loop.\<close>

lemma parse_loop_step:
  assumes "drop pos mem = code # of_nat (length v) # v @ rest" "length v < 256" "code \<noteq> DHCP_OPTION_END"
    and "pos + 2 + length v \<le> unat bsz" "parse_opt code (code # of_nat (length v) # v @ rest) opts = Inr opts'"
  shows "parse_loop mem bsz pos opts = parse_loop mem bsz (pos + 2 + length v) opts'"
proof -
  have pos: "pos < length mem" "mem ! pos = code"
    using assms(1) by (metis drop_eq_Nil linorder_not_less list.distinct(1)) (metis assms(1) hd_drop_conv_nth list.sel(1) drop_eq_Nil linorder_not_less list.distinct(1))
  have "pos < 2 ^ 32" using assms(4) unat_u32_less [of bsz] by simp
  then have "unat (of_nat pos :: u32) = pos" by (simp add: unat_of_nat)
  then have u: "unat (bsz - of_nat pos) = unat bsz - pos" using assms(4) by (subst unat_sub) (auto simp: word_le_nat_alt)
  have v: "unat (of_nat (length v) :: u8) = length v" using assms(2) by (simp add: unat_of_nat)
  have c: "unat (2 + ucast (of_nat (length v) :: u8) :: u32) = 2 + length v"
    using assms(2) v by (subst unat_u32_add) (auto simp: unsigned_ucast_eq take_bit_eq_mod)
  have "DHCPFrameOpt_GetOptionHdr (drop pos mem) (bsz - of_nat pos) = Inr (Some (code, 2 + length v))"
    using assms(1,3,4) u v c by (simp add: DHCPFrameOpt_GetOptionHdr_def word_less_nat_alt)
  moreover have "bsz \<noteq> 0" using assms(4) by auto
  ultimately show ?thesis
    using pos assms(1,3,5) by (subst parse_loop.simps) (simp add: add.assoc)
qed

definition cond :: "bool \<Rightarrow> ('a \<Rightarrow> 'a) \<Rightarrow> 'a \<Rightarrow> 'a" where
  "cond c f x = (if c then f x else x)"

lemma cond_keeps: "(\<And>x. g (f x) = g x) \<Longrightarrow> g (cond c f x) = g x"
  by (simp add: cond_def)

lemma parse_loop_cond:
  assumes "b = (if c then code # of_nat (length v) # v else [])" "mem = pre @ b @ rest" "length (pre @ b) \<le> unat bsz"
    and "length v < 256" "code \<noteq> DHCP_OPTION_END"
    and "\<And>r. c \<Longrightarrow> parse_opt code (code # of_nat (length v) # v @ r) x = Inr (f x)"
  shows "parse_loop mem bsz (length pre) x = parse_loop mem bsz (length (pre @ b)) (cond c f x)"
proof (cases c)
  case True
  then show ?thesis
    using parse_loop_step [of "length pre" mem code v rest bsz x "f x"] assms by (simp add: cond_def add.assoc)
qed (use assms(1) in \<open>simp add: cond_def\<close>)

text \<open>The set of options that parsing the records of \<open>opts\<close> makes of \<open>x\<close>.\<close>

definition absorbed :: "dhcp_optset \<Rightarrow> dhcp_optset \<Rightarrow> dhcp_optset" where
  "absorbed opts x =
     (let has = has_flag (o_flags opts);
          x = cond (has DHCP_OPTFLAGS_MSGTYPE) (\<lambda>x. set_opt DHCP_OPTFLAGS_MSGTYPE (x\<lparr>o_msg_type := o_msg_type opts\<rparr>)) x;
          x = cond (has DHCP_OPTFLAGS_SUBNET) (\<lambda>x. set_opt DHCP_OPTFLAGS_SUBNET (x\<lparr>o_subnet := o_subnet opts\<rparr>)) x;
          x = cond (has DHCP_OPTFLAGS_ROUTER) (\<lambda>x. set_opt DHCP_OPTFLAGS_ROUTER (x\<lparr>o_router := o_router opts\<rparr>)) x;
          x = cond (has DHCP_OPTFLAGS_DNS_SERVERS) (\<lambda>x. set_opt DHCP_OPTFLAGS_DNS_SERVERS
                (x\<lparr>o_dns := take (o_dns_cnt opts) (o_dns opts) @ drop (o_dns_cnt opts) (o_dns x),
                   o_dns_cnt := o_dns_cnt opts\<rparr>)) x;
          x = cond (has DHCP_OPTFLAGS_REQUESTED_IP)
                (\<lambda>x. set_opt DHCP_OPTFLAGS_REQUESTED_IP (x\<lparr>o_req_ip := o_req_ip opts\<rparr>)) x;
          x = cond (has DHCP_OPTFLAGS_LEASE_TIME)
                (\<lambda>x. set_opt DHCP_OPTFLAGS_LEASE_TIME (x\<lparr>o_lease_time := o_lease_time opts\<rparr>)) x;
          x = cond (has DHCP_OPTFLAGS_DHCP_SERVER) (\<lambda>x. set_opt DHCP_OPTFLAGS_DHCP_SERVER (x\<lparr>o_server := o_server opts\<rparr>)) x;
          x = cond (has DHCP_OPTFLAGS_REQ_PARAM_LIST) (\<lambda>x. set_opt DHCP_OPTFLAGS_REQ_PARAM_LIST
                (x\<lparr>o_req_list := take (o_req_list_cnt opts) (o_req_list opts) @ drop (o_req_list_cnt opts) (o_req_list x),
                   o_req_list_cnt := o_req_list_cnt opts\<rparr>)) x
      in set_opt DHCP_OPTFLAGS_END x)"

lemma parse_recs:
  assumes "optset_wf opts" "has_flag (o_flags opts) DHCP_OPTFLAGS_END"
    and "mem = recs_bytes (opt_recs opts) @ rest" "length (recs_bytes (opt_recs opts)) \<le> unat bsz"
    and "length (o_dns x) = 3" "length (o_req_list x) = 32"
  shows "parse_loop mem bsz 0 x = Inr (Some (length (recs_bytes (opt_recs opts))), absorbed opts x)"
proof -
  let ?has = "has_flag (o_flags opts)"
  define dns where "dns = take (o_dns_cnt opts) (o_dns opts)"
  define req where "req = take (o_req_list_cnt opts) (o_req_list opts)"
  have dl: "length dns = o_dns_cnt opts" "?has DHCP_OPTFLAGS_DNS_SERVERS \<Longrightarrow> 1 \<le> length dns" "length dns \<le> 3"
    and rl: "length req = o_req_list_cnt opts" "?has DHCP_OPTFLAGS_REQ_PARAM_LIST \<Longrightarrow> 1 \<le> length req" "length req \<le> 32"
    using assms(1) by (auto simp: optset_wf_def dns_def req_def)
  define b where "b = (\<lambda>i. if fst (opt_recs opts ! i) then snd (opt_recs opts ! i) else [])"
  have all: "recs_bytes (opt_recs opts) = b 0 @ b 1 @ b 2 @ b 3 @ b 4 @ b 5 @ b 6 @ b 7 @ b 8"
    by (simp add: b_def opt_recs_def cong: if_cong split del: if_split)
  have b: "b 0 = (if ?has DHCP_OPTFLAGS_MSGTYPE then DHCP_OPTION_MESSAGE_TYPE # of_nat (length [o_msg_type opts]) # [o_msg_type opts] else [])"
    "b 1 = (if ?has DHCP_OPTFLAGS_SUBNET then DHCP_OPTION_SUBNET_MASK # of_nat (length (ip_bytes (o_subnet opts))) # ip_bytes (o_subnet opts) else [])"
    "b 2 = (if ?has DHCP_OPTFLAGS_ROUTER then DHCP_OPTION_ROUTER # of_nat (length (ip_bytes (o_router opts))) # ip_bytes (o_router opts) else [])"
    "b 3 = (if ?has DHCP_OPTFLAGS_DNS_SERVERS then DHCP_OPTION_DNS_SERVERS # of_nat (length (concat (map ip_bytes dns))) # concat (map ip_bytes dns) else [])"
    "b 4 = (if ?has DHCP_OPTFLAGS_REQUESTED_IP then DHCP_OPTION_REQUESTED_IP # of_nat (length (ip_bytes (o_req_ip opts))) # ip_bytes (o_req_ip opts) else [])"
    "b 5 = (if ?has DHCP_OPTFLAGS_LEASE_TIME then DHCP_OPTION_LEASE_TIME # of_nat (length (ip_bytes (o_lease_time opts))) # ip_bytes (o_lease_time opts) else [])"
    "b 6 = (if ?has DHCP_OPTFLAGS_DHCP_SERVER then DHCP_OPTION_DHCP_SERVER # of_nat (length (ip_bytes (o_server opts))) # ip_bytes (o_server opts) else [])"
    "b 7 = (if ?has DHCP_OPTFLAGS_REQ_PARAM_LIST then DHCP_OPTION_PARAM_LIST # of_nat (length req) # req else [])"
    "b 8 = [DHCP_OPTION_END]"
    using assms(2) dl(1) rl(1)
    by (simp_all add: b_def opt_recs_def dns_def [symmetric] req_def [symmetric] mult.commute cong: if_cong split del: if_split)
  have mem: "mem = b 0 @ b 1 @ b 2 @ b 3 @ b 4 @ b 5 @ b 6 @ b 7 @ b 8 @ rest" using assms(3) all by simp
  have len: "length (b 0) + length (b 1) + length (b 2) + length (b 3) + length (b 4) + length (b 5) + length (b 6) +
      length (b 7) + length (b 8) \<le> unat bsz" using assms(4) all by simp
  have p: "\<And>r x. parse_opt DHCP_OPTION_MESSAGE_TYPE (DHCP_OPTION_MESSAGE_TYPE # of_nat (length [o_msg_type opts]) # [o_msg_type opts] @ r) x =
      Inr (set_opt DHCP_OPTFLAGS_MSGTYPE (x\<lparr>o_msg_type := o_msg_type opts\<rparr>))"
    "\<And>r x. length (o_dns x) = 3 \<Longrightarrow> ?has DHCP_OPTFLAGS_DNS_SERVERS \<Longrightarrow>
      parse_opt DHCP_OPTION_DNS_SERVERS (DHCP_OPTION_DNS_SERVERS # of_nat (length (concat (map ip_bytes dns))) # concat (map ip_bytes dns) @ r) x =
      Inr (set_opt DHCP_OPTFLAGS_DNS_SERVERS (x\<lparr>o_dns := dns @ drop (o_dns_cnt opts) (o_dns x), o_dns_cnt := o_dns_cnt opts\<rparr>))"
    "\<And>r x. length (o_req_list x) = 32 \<Longrightarrow> ?has DHCP_OPTFLAGS_REQ_PARAM_LIST \<Longrightarrow>
      parse_opt DHCP_OPTION_PARAM_LIST (DHCP_OPTION_PARAM_LIST # of_nat (length req) # req @ r) x =
      Inr (set_opt DHCP_OPTFLAGS_REQ_PARAM_LIST (x\<lparr>o_req_list := req @ drop (o_req_list_cnt opts) (o_req_list x), o_req_list_cnt := o_req_list_cnt opts\<rparr>))"
    using dl rl parse_opt_dns [of dns] parse_opt_req [of req] by (simp_all add: parse_opt_simple mult.commute)
  define P where "P = (\<lambda>k. concat (map b [0..<k]))"
  have P: "P 0 = []" "P 1 = b 0" "P 2 = b 0 @ b 1" "P 3 = b 0 @ b 1 @ b 2" "P 4 = b 0 @ b 1 @ b 2 @ b 3"
    "P 5 = b 0 @ b 1 @ b 2 @ b 3 @ b 4" "P 6 = b 0 @ b 1 @ b 2 @ b 3 @ b 4 @ b 5"
    "P 7 = b 0 @ b 1 @ b 2 @ b 3 @ b 4 @ b 5 @ b 6" "P 8 = b 0 @ b 1 @ b 2 @ b 3 @ b 4 @ b 5 @ b 6 @ b 7"
    by (simp_all add: P_def upt_rec numeral_eq_Suc)
  have PS: "P 1 = P 0 @ b 0" "P 2 = P 1 @ b 1" "P 3 = P 2 @ b 2" "P 4 = P 3 @ b 3" "P 5 = P 4 @ b 4" "P 6 = P 5 @ b 5"
    "P 7 = P 6 @ b 6" "P 8 = P 7 @ b 7" by (simp_all only: P append_assoc append_Nil)
  define f0 where "f0 = cond (?has DHCP_OPTFLAGS_MSGTYPE) (\<lambda>x. set_opt DHCP_OPTFLAGS_MSGTYPE (x\<lparr>o_msg_type := o_msg_type opts\<rparr>))"
  define f1 where "f1 = cond (?has DHCP_OPTFLAGS_SUBNET) (\<lambda>x. set_opt DHCP_OPTFLAGS_SUBNET (x\<lparr>o_subnet := o_subnet opts\<rparr>))"
  define f2 where "f2 = cond (?has DHCP_OPTFLAGS_ROUTER) (\<lambda>x. set_opt DHCP_OPTFLAGS_ROUTER (x\<lparr>o_router := o_router opts\<rparr>))"
  define f3 where "f3 = cond (?has DHCP_OPTFLAGS_DNS_SERVERS) (\<lambda>x. set_opt DHCP_OPTFLAGS_DNS_SERVERS (x\<lparr>o_dns := dns @ drop (o_dns_cnt opts) (o_dns x), o_dns_cnt := o_dns_cnt opts\<rparr>))"
  define f4 where "f4 = cond (?has DHCP_OPTFLAGS_REQUESTED_IP) (\<lambda>x. set_opt DHCP_OPTFLAGS_REQUESTED_IP (x\<lparr>o_req_ip := o_req_ip opts\<rparr>))"
  define f5 where "f5 = cond (?has DHCP_OPTFLAGS_LEASE_TIME) (\<lambda>x. set_opt DHCP_OPTFLAGS_LEASE_TIME (x\<lparr>o_lease_time := o_lease_time opts\<rparr>))"
  define f6 where "f6 = cond (?has DHCP_OPTFLAGS_DHCP_SERVER) (\<lambda>x. set_opt DHCP_OPTFLAGS_DHCP_SERVER (x\<lparr>o_server := o_server opts\<rparr>))"
  define f7 where "f7 = cond (?has DHCP_OPTFLAGS_REQ_PARAM_LIST) (\<lambda>x. set_opt DHCP_OPTFLAGS_REQ_PARAM_LIST (x\<lparr>o_req_list := req @ drop (o_req_list_cnt opts) (o_req_list x), o_req_list_cnt := o_req_list_cnt opts\<rparr>))"
  note step = parse_loop_cond [where mem = mem and bsz = bsz]
  have t0: "parse_loop mem bsz (length (P 0)) x = parse_loop mem bsz (length (P 1)) (f0 x)" for x
    unfolding f0_def PS(1)
    by (rule step [OF b(1), of _ "b 1 @ b 2 @ b 3 @ b 4 @ b 5 @ b 6 @ b 7 @ b 8 @ rest"]) (use mem len P p(1) in \<open>simp_all add: dhcp_opt_codes\<close>)
  have t1: "parse_loop mem bsz (length (P 1)) x = parse_loop mem bsz (length (P 2)) (f1 x)" for x
    unfolding f1_def PS(2)
    by (rule step [OF b(2), of _ "b 2 @ b 3 @ b 4 @ b 5 @ b 6 @ b 7 @ b 8 @ rest"]) (use mem len P parse_opt_simple in \<open>simp_all add: dhcp_opt_codes\<close>)
  have t2: "parse_loop mem bsz (length (P 2)) x = parse_loop mem bsz (length (P 3)) (f2 x)" for x
    unfolding f2_def PS(3)
    by (rule step [OF b(3), of _ "b 3 @ b 4 @ b 5 @ b 6 @ b 7 @ b 8 @ rest"]) (use mem len P parse_opt_simple in \<open>simp_all add: dhcp_opt_codes\<close>)
  have t3: "parse_loop mem bsz (length (P 3)) x = parse_loop mem bsz (length (P 4)) (f3 x)" if "length (o_dns x) = 3" for x
    unfolding f3_def PS(4)
    by (rule step [OF b(4), of _ "b 4 @ b 5 @ b 6 @ b 7 @ b 8 @ rest"]) (use mem len P p(2) [OF that] dl in \<open>simp_all add: dhcp_opt_codes\<close>)
  have t4: "parse_loop mem bsz (length (P 4)) x = parse_loop mem bsz (length (P 5)) (f4 x)" for x
    unfolding f4_def PS(5)
    by (rule step [OF b(5), of _ "b 5 @ b 6 @ b 7 @ b 8 @ rest"]) (use mem len P parse_opt_simple in \<open>simp_all add: dhcp_opt_codes\<close>)
  have t5: "parse_loop mem bsz (length (P 5)) x = parse_loop mem bsz (length (P 6)) (f5 x)" for x
    unfolding f5_def PS(6)
    by (rule step [OF b(6), of _ "b 6 @ b 7 @ b 8 @ rest"]) (use mem len P parse_opt_simple in \<open>simp_all add: dhcp_opt_codes\<close>)
  have t6: "parse_loop mem bsz (length (P 6)) x = parse_loop mem bsz (length (P 7)) (f6 x)" for x
    unfolding f6_def PS(7)
    by (rule step [OF b(7), of _ "b 7 @ b 8 @ rest"]) (use mem len P parse_opt_simple in \<open>simp_all add: dhcp_opt_codes\<close>)
  have t7: "parse_loop mem bsz (length (P 7)) x = parse_loop mem bsz (length (P 8)) (f7 x)" if "length (o_req_list x) = 32" for x
    unfolding f7_def PS(8)
    by (rule step [OF b(8), of _ "b 8 @ rest"]) (use mem len P p(3) [OF that] rl in \<open>simp_all add: dhcp_opt_codes\<close>)
  have e: "parse_loop mem bsz (length (P 8)) y =
      Inr (Some (length (recs_bytes (opt_recs opts))), set_opt DHCP_OPTFLAGS_END y)" for y
  proof -
    have "mem ! length (P 8) = DHCP_OPTION_END" "length (P 8) < length mem"
      unfolding mem P by (simp_all add: b(9) nth_append)
    moreover have "bsz \<noteq> 0" using len b(9) by auto
    ultimately show ?thesis by (subst parse_loop.simps) (simp add: all P b(9))
  qed
  have keeps: "length (o_dns (f2 (f1 (f0 x)))) = 3"
    "length (o_req_list (f6 (f5 (f4 (f3 (f2 (f1 (f0 x)))))))) = 32"
    using assms(5,6) by (simp_all add: f0_def f1_def f2_def f3_def f4_def f5_def f6_def cond_def set_opt_def)
  have "absorbed opts x = set_opt DHCP_OPTFLAGS_END (f7 (f6 (f5 (f4 (f3 (f2 (f1 (f0 x))))))))"
    by (simp add: absorbed_def Let_def f0_def f1_def f2_def f3_def f4_def f5_def f6_def f7_def dns_def req_def)
  moreover have "parse_loop mem bsz (length (P 0)) x =
      parse_loop mem bsz (length (P 8)) (f7 (f6 (f5 (f4 (f3 (f2 (f1 (f0 x))))))))"
    by (simp only: t0 t1 t2 t3 [OF keeps(1)] t4 t5 t6 t7 [OF keeps(2)])
  ultimately show ?thesis using P(1) by (simp add: e)
qed

text \<open>Two sets of options say the same: the same options are present, with the same values.\<close>

definition same_options :: "dhcp_optset \<Rightarrow> dhcp_optset \<Rightarrow> bool" where
  "same_options a b \<longleftrightarrow> o_flags b = o_flags a AND 0x1ff \<and>
     (has_flag (o_flags a) DHCP_OPTFLAGS_MSGTYPE \<longrightarrow> o_msg_type b = o_msg_type a) \<and>
     (has_flag (o_flags a) DHCP_OPTFLAGS_SUBNET \<longrightarrow> o_subnet b = o_subnet a) \<and>
     (has_flag (o_flags a) DHCP_OPTFLAGS_ROUTER \<longrightarrow> o_router b = o_router a) \<and>
     (has_flag (o_flags a) DHCP_OPTFLAGS_DNS_SERVERS \<longrightarrow>
        o_dns_cnt b = o_dns_cnt a \<and> take (o_dns_cnt a) (o_dns b) = take (o_dns_cnt a) (o_dns a)) \<and>
     (has_flag (o_flags a) DHCP_OPTFLAGS_REQUESTED_IP \<longrightarrow> o_req_ip b = o_req_ip a) \<and>
     (has_flag (o_flags a) DHCP_OPTFLAGS_LEASE_TIME \<longrightarrow> o_lease_time b = o_lease_time a) \<and>
     (has_flag (o_flags a) DHCP_OPTFLAGS_DHCP_SERVER \<longrightarrow> o_server b = o_server a) \<and>
     (has_flag (o_flags a) DHCP_OPTFLAGS_REQ_PARAM_LIST \<longrightarrow>
        o_req_list_cnt b = o_req_list_cnt a \<and> take (o_req_list_cnt a) (o_req_list b) = take (o_req_list_cnt a) (o_req_list a))"

lemma set_opt_fields [simp]:
  "o_flags (set_opt f x) = o_flags x OR f" "o_msg_type (set_opt f x) = o_msg_type x" "o_subnet (set_opt f x) = o_subnet x"
  "o_router (set_opt f x) = o_router x" "o_server (set_opt f x) = o_server x" "o_dns (set_opt f x) = o_dns x"
  "o_dns_cnt (set_opt f x) = o_dns_cnt x" "o_lease_time (set_opt f x) = o_lease_time x"
  "o_req_list (set_opt f x) = o_req_list x" "o_req_list_cnt (set_opt f x) = o_req_list_cnt x"
  "o_req_ip (set_opt f x) = o_req_ip x"
  by (simp_all add: set_opt_def)

lemma has_flag_bit: "has_flag w (2 ^ n) \<longleftrightarrow> bit w n"
  unfolding has_flag_def by (metis and_exp_eq_0_iff_not_bit)

lemma has_flag_bits:
  "has_flag w DHCP_OPTFLAGS_MSGTYPE = bit w 0" "has_flag w DHCP_OPTFLAGS_SUBNET = bit w 1"
  "has_flag w DHCP_OPTFLAGS_ROUTER = bit w 2" "has_flag w DHCP_OPTFLAGS_DNS_SERVERS = bit w 3"
  "has_flag w DHCP_OPTFLAGS_REQUESTED_IP = bit w 4" "has_flag w DHCP_OPTFLAGS_LEASE_TIME = bit w 5"
  "has_flag w DHCP_OPTFLAGS_DHCP_SERVER = bit w 6" "has_flag w DHCP_OPTFLAGS_REQ_PARAM_LIST = bit w 7"
  "has_flag w DHCP_OPTFLAGS_END = bit w 8"
  using has_flag_bit [of w 0] has_flag_bit [of w 1] has_flag_bit [of w 2] has_flag_bit [of w 3] has_flag_bit [of w 4]
    has_flag_bit [of w 5] has_flag_bit [of w 6] has_flag_bit [of w 7] has_flag_bit [of w 8]
  by (simp_all add: dhcp_flags)

lemma flag_cond: "o_flags (cond c f x) = o_flags x OR (if c then k else 0)"
  if "\<And>x. o_flags (f x) = o_flags x OR k" for k
  using that by (simp add: cond_def)

lemma and_single: "w AND 2 ^ n = (if bit w n then 2 ^ n else 0)" for w :: u32
  by (rule bit_word_eqI) (auto simp: bit_simps)

lemma absorbed_flags:
  assumes "has_flag (o_flags opts) DHCP_OPTFLAGS_END" "o_flags x = 0"
  shows "o_flags (absorbed opts x) = o_flags opts AND 0x1ff"
proof -
  let ?w = "o_flags opts"
  have one: "(if bit ?w 0 then 1 else 0) = ?w AND 1" "(if bit ?w 1 then 2 else 0) = ?w AND 2"
    "(if bit ?w 2 then 4 else 0) = ?w AND 4" "(if bit ?w 3 then 8 else 0) = ?w AND 8"
    "(if bit ?w 4 then 16 else 0) = ?w AND 16" "(if bit ?w 5 then 32 else 0) = ?w AND 32"
    "(if bit ?w 6 then 64 else 0) = ?w AND 64" "(if bit ?w 7 then 128 else 0) = ?w AND 128"
    using and_single [of ?w 0] and_single [of ?w 1] and_single [of ?w 2] and_single [of ?w 3] and_single [of ?w 4]
      and_single [of ?w 5] and_single [of ?w 6] and_single [of ?w 7] by simp_all
  have nine: "(256 :: u32) = ?w AND 256" using assms(1) and_single [of ?w 8] unfolding has_flag_bits by simp
  have "o_flags (absorbed opts x) = (if bit ?w 0 then 1 else 0) OR (if bit ?w 1 then 2 else 0) OR
      (if bit ?w 2 then 4 else 0) OR (if bit ?w 3 then 8 else 0) OR (if bit ?w 4 then 16 else 0) OR
      (if bit ?w 5 then 32 else 0) OR (if bit ?w 6 then 64 else 0) OR (if bit ?w 7 then 128 else 0) OR 256"
    unfolding absorbed_def Let_def has_flag_bits
    by (simp add: assms(2) flag_cond [where k = "_ :: u32"] dhcp_flags or.assoc)
  also have "\<dots> = (?w AND 1) OR (?w AND 2) OR (?w AND 4) OR (?w AND 8) OR (?w AND 16) OR (?w AND 32) OR (?w AND 64) OR
      (?w AND 128) OR (?w AND 256)"
    by (simp only: one nine [symmetric])
  also have "\<dots> = ?w AND (1 OR 2 OR 4 OR 8 OR 16 OR 32 OR 64 OR 128 OR 256)"
    by (simp only: bit.conj_disj_distrib)
  finally show ?thesis by simp
qed

lemma absorbed_same:
  assumes "optset_wf opts" "has_flag (o_flags opts) DHCP_OPTFLAGS_END" "o_flags x = 0"
  shows "same_options opts (absorbed opts x)"
proof -
  note keep = cond_keeps [where g = o_msg_type] cond_keeps [where g = o_subnet] cond_keeps [where g = o_router]
    cond_keeps [where g = o_server] cond_keeps [where g = o_dns] cond_keeps [where g = o_dns_cnt]
    cond_keeps [where g = o_lease_time] cond_keeps [where g = o_req_list] cond_keeps [where g = o_req_list_cnt]
    cond_keeps [where g = o_req_ip]
  show ?thesis
    using assms absorbed_flags [OF assms(2,3)]
    by (simp add: same_options_def absorbed_def Let_def keep) (simp add: cond_def optset_wf_def)
qed

section \<open>Properties\<close>

text \<open>
  C27: options that are rendered into a buffer with room for them and parsed from it are the same
  options, and parsing stops after the last byte that was rendered.
\<close>

theorem Dhcp_options_roundtrip:
  assumes "optset_wf opts" "has_flag (o_flags opts) DHCP_OPTFLAGS_END"
    and "length (recs_bytes (opt_recs opts)) \<le> unat bsz" "ptr + unat bsz \<le> length buf"
    and "length (o_dns x) = 3" "length (o_req_list x) = 32"
  shows "\<exists>n buf' opts'. DHCPFrame_RenderOptions buf ptr bsz opts = Inr (Some (ptr + n), buf') \<and>
           DHCPFrame_ParseOptions (drop ptr buf') bsz x = Inr (Some n, opts') \<and> same_options opts opts'"
proof -
  let ?r = "recs_bytes (opt_recs opts)"
  let ?x = "x\<lparr>o_flags := 0\<rparr>"
  have "DHCPFrame_ParseOptions (?r @ drop (ptr + length ?r) buf) bsz x = Inr (Some (length ?r), absorbed opts ?x)"
    unfolding DHCPFrame_ParseOptions_def by (rule parse_recs [OF assms(1,2) refl assms(3)]) (use assms(5,6) in simp_all)
  moreover have "drop ptr (take ptr buf @ ?r @ drop (ptr + length ?r) buf) = ?r @ drop (ptr + length ?r) buf"
    using assms(4) by simp
  ultimately show ?thesis
    using RenderOptions_ok [OF assms(1,3,4)] absorbed_same [OF assms(1,2), of ?x]
    by (intro exI [of _ "length ?r"] exI [of _ "take ptr buf @ ?r @ drop (ptr + length ?r) buf"] exI [of _ "absorbed opts ?x"])
      (simp add: rendered_def)
qed

definition demo_opts :: dhcp_optset where
  "demo_opts = \<lparr>o_flags = 0x189, o_msg_type = 5, o_subnet = 0, o_router = 0, o_server = 0, o_dns = [0x08080808, 7, 0],
     o_dns_cnt = 2, o_lease_time = 0, o_req_list = replicate 32 3, o_req_list_cnt = 4, o_req_ip = 0\<rparr>"

theorem Dhcp_options_roundtrip_witness:
  "\<exists>n buf' opts'. DHCPFrame_RenderOptions (replicate 40 0) 2 30 demo_opts = Inr (Some (2 + n), buf') \<and>
     DHCPFrame_ParseOptions (drop 2 buf') 30 optset_zero = Inr (Some n, opts') \<and> same_options demo_opts opts'"
proof (rule Dhcp_options_roundtrip)
  show "length (recs_bytes (opt_recs demo_opts)) \<le> unat (30 :: u32)"
    by (simp add: opt_recs_def demo_opts_def has_flag_def dhcp_flags)
qed (simp_all add: optset_wf_def demo_opts_def has_flag_def dhcp_flags optset_zero_def)

text \<open>Rendered addresses are parsed back; an address that is not present is zero.\<close>

lemma addresses_roundtrip:
  assumes "240 \<le> unat bsz" "240 \<le> length frame" "length (a_ch adrs) = 6"
  shows "\<exists>f a. DHCPFrame_RenderAddresses frame bsz adrs = Inr (EOK, f) \<and> length f = length frame \<and>
     drop 240 f = drop 240 frame \<and> (\<forall>i < 12. f ! i = frame ! i) \<and>
     DHCPFrame_ParseAddresses f bsz addrset_zero = Inr (EOK, a) \<and>
     a_ci a = (if has_flag (a_flags adrs) DHCP_ADDRFLAGS_CIADDR then a_ci adrs else 0) \<and>
     a_yi a = (if has_flag (a_flags adrs) DHCP_ADDRFLAGS_YIADDR then a_yi adrs else 0) \<and>
     a_si a = (if has_flag (a_flags adrs) DHCP_ADDRFLAGS_SIADDR then a_si adrs else 0) \<and>
     a_gi a = (if has_flag (a_flags adrs) DHCP_ADDRFLAGS_GIADDR then a_gi adrs else 0) \<and>
     a_ch a = (if has_flag (a_flags adrs) DHCP_ADDRFLAGS_CHADDR then a_ch adrs else replicate 6 0)"
proof -
  let ?pick = "\<lambda>f v. if has_flag (a_flags adrs) f then v else 0"
  define f where "f = DHCPFrame_SetCHAddr (DHCPFrame_SetGIAddr (DHCPFrame_SetSIAddr (DHCPFrame_SetYIAddr
    (DHCPFrame_SetCIAddr frame (?pick DHCP_ADDRFLAGS_CIADDR (a_ci adrs))) (?pick DHCP_ADDRFLAGS_YIADDR (a_yi adrs)))
    (?pick DHCP_ADDRFLAGS_SIADDR (a_si adrs))) (?pick DHCP_ADDRFLAGS_GIADDR (a_gi adrs)))
    (if has_flag (a_flags adrs) DHCP_ADDRFLAGS_CHADDR then a_ch adrs else replicate 6 0)"
  have sz: "\<not> bsz < 240" "\<not> length frame < 240" using assms by (simp_all add: word_less_nat_alt)
  then have r: "DHCPFrame_RenderAddresses frame bsz adrs = Inr (EOK, f)"
    by (simp add: DHCPFrame_RenderAddresses_def f_def Let_def)
  have len: "length f = length frame" by (simp add: f_def dhcp_frame_defs)
  have rest: "drop 240 f = drop 240 frame" "\<And>i. i < 12 \<Longrightarrow> f ! i = frame ! i"
    by (simp_all add: f_def dhcp_frame_defs wr_drop rd_wr_other)
  have get: "DHCPFrame_GetCIAddr f = ?pick DHCP_ADDRFLAGS_CIADDR (a_ci adrs)"
    "DHCPFrame_GetYIAddr f = ?pick DHCP_ADDRFLAGS_YIADDR (a_yi adrs)"
    "DHCPFrame_GetSIAddr f = ?pick DHCP_ADDRFLAGS_SIADDR (a_si adrs)"
    "DHCPFrame_GetGIAddr f = ?pick DHCP_ADDRFLAGS_GIADDR (a_gi adrs)"
    "DHCPFrame_GetCHAddr f = (if has_flag (a_flags adrs) DHCP_ADDRFLAGS_CHADDR then a_ch adrs else replicate 6 0)"
    using assms(2,3) by (simp_all add: f_def dhcp_frame_defs rd_wr_other)
  show ?thesis
    using r len rest sz
    by (simp add: DHCPFrame_ParseAddresses_def Let_def get split del: if_split)
      (simp add: addrset_zero_def)
qed

text \<open>Two places where the bounds are not checked.\<close>

lemma Dhcp_dns_option_overruns:
  "DHCPFrameOpt_SetDNSServerIP [0, 0] 0 2 [0x08080808] 1 = Inl OutOfBounds"
  by (simp add: DHCPFrameOpt_SetDNSServerIP_def mem_read_def mem_write_def)

lemma Dhcp_options_without_end_overread:
  "DHCPFrame_ParseOptions [53, 1, 1] 3 optset_zero = Inl OutOfBounds"
  by (simp add: DHCPFrame_ParseOptions_def parse_loop.simps parse_opt_def DHCPFrameOpt_GetOptionHdr_def
      DHCPFrameOpt_GetMessageType_def opt_get1_def dhcp_opt_codes Let_def)
end
