(* ===== verification/Net_Dhcp_Book.thy ===== *)
theory Net_Dhcp_Book
  imports Net_Frame
begin

text \<open>
  The record book of the address configuration server, the first part of \<^verbatim>\<open>net/dhcp/src/server.c\<close>: a list of
  records, in which a pointer to a record is its index. The lemmas show what the searches find, that every client
  has at most one record and keeps its address, and which addresses a reservation can give: the loop over the address
  range steps past the free address that it has found, so two new clients are given the same address.
\<close>

section \<open>Record book\<close>

datatype dhcp_state = STATE_FREE | STATE_OFFER | STATE_ASSIGNED

record dhcp_record =
  dr_state :: dhcp_state
  dr_ts :: u32
  dr_mac :: bytes
  dr_ip :: u32

definition DHCP_SRV_IP_RANGE_START :: u32 where "DHCP_SRV_IP_RANGE_START = TCPIP_IP_ADDR 192 168 50 100"
definition DHCP_SRV_IP_RANGE_END :: u32 where "DHCP_SRV_IP_RANGE_END = TCPIP_IP_ADDR 192 168 50 110"
definition DHCP_SRV_RECORDBOOK_CAPACITY :: nat where "DHCP_SRV_RECORDBOOK_CAPACITY = 4"

definition record_zero :: dhcp_record where
  "record_zero = \<lparr>dr_state = STATE_FREE, dr_ts = 0, dr_mac = replicate 6 0, dr_ip = 0\<rparr>"

definition DHCPSrv_Reset :: "dhcp_record list \<Rightarrow> dhcp_record list" where
  "DHCPSrv_Reset records = map (\<lambda>_. record_zero) records"

text \<open>An absent address is a null pointer of the source; a search for a free record drops old ones on its way.\<close>

definition expire :: "u32 \<Rightarrow> dhcp_record \<Rightarrow> dhcp_record" where
  "expire now r = (if dr_state r \<noteq> STATE_FREE \<and> dtime now (dr_ts r) > 15 * 60 * 1000
                   then r\<lparr>dr_state := STATE_FREE\<rparr> else r)"

fun DHCPSrv_FindRecord ::
  "u32 \<Rightarrow> bytes option \<Rightarrow> u32 option \<Rightarrow> dhcp_record list \<Rightarrow> nat option \<times> dhcp_record list" where
  "DHCPSrv_FindRecord now ha ip [] = (None, [])"
| "DHCPSrv_FindRecord now ha ip (r # rs) =
     (if ha = None \<and> ip = None then
        let r = expire now r in
        if dr_state r = STATE_FREE then (Some 0, r # rs)
        else case DHCPSrv_FindRecord now ha ip rs of (i, rs) \<Rightarrow> (map_option Suc i, r # rs)
      else if (case ha of None \<Rightarrow> True | Some a \<Rightarrow> TCPIPEthAddr_AddressMatch (dr_mac r) a) \<and>
              (case ip of None \<Rightarrow> True | Some a \<Rightarrow> TCPIPIpAddr_AddressMatch (dr_ip r) a)
      then (Some 0, r # rs)
      else case DHCPSrv_FindRecord now ha ip rs of (i, rs) \<Rightarrow> (map_option Suc i, r # rs))"

text \<open>The scan over the address range: whether an address was found, and the address where the loop stops.\<close>

function scan_range :: "u32 \<Rightarrow> dhcp_record list \<Rightarrow> u32 \<Rightarrow> bool \<times> u32" where
  "scan_range now records ip =
     (if TCPIPIpAddr_AddressMatch ip DHCP_SRV_IP_RANGE_END then (False, ip)
      else if fst (DHCPSrv_FindRecord now None (Some ip) records) = None then (True, TCPIPIpAddr_Next ip)
      else scan_range now records (TCPIPIpAddr_Next ip))"
  by pat_completeness auto
termination
proof (relation "measure (\<lambda>(_, _, ip). unat (DHCP_SRV_IP_RANGE_END - ip))", goal_cases)
  case (2 now records ip)
  then have "DHCP_SRV_IP_RANGE_END - ip \<noteq> 0" by (simp add: TCPIPIpAddr_AddressMatch_def)
  then have "unat (DHCP_SRV_IP_RANGE_END - ip - 1) < unat (DHCP_SRV_IP_RANGE_END - ip)"
    using unat_minus_one [of "DHCP_SRV_IP_RANGE_END - ip"] unat_gt_0 [of "DHCP_SRV_IP_RANGE_END - ip"] by linarith
  then show ?case by (simp add: TCPIPIpAddr_Next_def diff_diff_eq)
qed simp

text \<open>The index of the record and the reserved address, or null.\<close>

definition DHCPSrv_ReserveAddress ::
  "u32 \<Rightarrow> bytes \<Rightarrow> dhcp_record list \<Rightarrow> (nat \<times> u32) option \<times> dhcp_record list" where
  "DHCPSrv_ReserveAddress now hw records =
     (case DHCPSrv_FindRecord now (Some hw) None records of (rec, records) \<Rightarrow>
      if rec \<noteq> None \<and> dr_ip (records ! the rec) \<noteq> 0 then (Some (the rec, dr_ip (records ! the rec)), records)
      else
        (case (if rec = None then DHCPSrv_FindRecord now None None records else (rec, records)) of
           (None, records) \<Rightarrow> (None, records)
         | (Some i, records) \<Rightarrow>
             (case scan_range now records DHCP_SRV_IP_RANGE_START of (found, ip) \<Rightarrow>
                if \<not> found then (None, records)
                else (Some (i, ip), records[i := (records ! i)\<lparr>dr_ip := ip, dr_mac := hw\<rparr>]))))"


declare scan_range.simps [simp del]

section \<open>Searches\<close>

definition book_wf :: "dhcp_record list \<Rightarrow> bool" where
  "book_wf records \<longleftrightarrow> list_all (\<lambda>r. length (dr_mac r) = 6) records"

definition matches :: "bytes option \<Rightarrow> u32 option \<Rightarrow> dhcp_record \<Rightarrow> bool" where
  "matches ha ip r \<longleftrightarrow> (case ha of None \<Rightarrow> True | Some a \<Rightarrow> dr_mac r = a) \<and> (case ip of None \<Rightarrow> True | Some a \<Rightarrow> dr_ip r = a)"

text \<open>A search for an address is the search of a list for the first match and leaves the book alone.\<close>

lemma FindRecord_find:
  assumes "book_wf records" "ha \<noteq> None \<or> ip \<noteq> None" "\<And>a. ha = Some a \<Longrightarrow> length a = 6"
  shows "snd (DHCPSrv_FindRecord now ha ip records) = records"
    and "fst (DHCPSrv_FindRecord now ha ip records) = Some i \<Longrightarrow> i < length records \<and> matches ha ip (records ! i)"
    and "fst (DHCPSrv_FindRecord now ha ip records) = None \<longleftrightarrow> \<not> list_ex (matches ha ip) records"
  using assms
proof (induction records arbitrary: i)
  case (Cons r rs)
  have m: "(case ha of None \<Rightarrow> True | Some a \<Rightarrow> TCPIPEthAddr_AddressMatch (dr_mac r) a) \<and>
      (case ip of None \<Rightarrow> True | Some a \<Rightarrow> TCPIPIpAddr_AddressMatch (dr_ip r) a) \<longleftrightarrow> matches ha ip r"
    if "book_wf (r # rs)" "\<And>a. ha = Some a \<Longrightarrow> length a = 6"
    using that by (auto simp: matches_def book_wf_def AddressMatch_eq TCPIPIpAddr_AddressMatch_def split: option.splits)
  have IH: "snd (DHCPSrv_FindRecord now ha ip rs) = rs"
    "\<And>i. fst (DHCPSrv_FindRecord now ha ip rs) = Some i \<Longrightarrow> i < length rs \<and> matches ha ip (rs ! i)"
    "fst (DHCPSrv_FindRecord now ha ip rs) = None \<longleftrightarrow> \<not> list_ex (matches ha ip) rs"
    if "book_wf (r # rs)" "ha \<noteq> None \<or> ip \<noteq> None" "\<And>a. ha = Some a \<Longrightarrow> length a = 6"
    using Cons.IH that by (auto simp: book_wf_def)
  { case 1
    then show ?case using IH(1) m by (auto split: prod.splits)
  next
    case 2
    then show ?case using IH(2) m by (auto split: prod.splits if_splits)
  next
    case 3
    then show ?case using IH(3) m by (auto split: prod.splits)
  }
qed (simp_all add: book_wf_def)

text \<open>A search for a free record keeps all addresses; the record it finds is free.\<close>

lemma FindRecord_free:
  "map dr_mac (snd (DHCPSrv_FindRecord now None None records)) = map dr_mac records"
  "map dr_ip (snd (DHCPSrv_FindRecord now None None records)) = map dr_ip records"
  "fst (DHCPSrv_FindRecord now None None records) = Some i \<Longrightarrow>
     i < length records \<and> dr_state (snd (DHCPSrv_FindRecord now None None records) ! i) = STATE_FREE"
proof (induction records arbitrary: i)
  case (Cons r rs)
  have e: "dr_mac (expire now r) = dr_mac r" "dr_ip (expire now r) = dr_ip r" by (simp_all add: expire_def)
  { case 1 then show ?case using Cons.IH(1) e by (auto simp: Let_def split: prod.splits) }
  { case 2 then show ?case using Cons.IH(2) e by (auto simp: Let_def split: prod.splits) }
  { case 3 then show ?case using Cons.IH(3) e by (auto simp: Let_def split: prod.splits if_splits) }
qed simp_all

section \<open>Reservations\<close>

text \<open>The loop stops one past a free address of the range.\<close>

lemma scan_range_found:
  assumes "book_wf records" "scan_range now records a = (True, ip)" "a \<le> DHCP_SRV_IP_RANGE_END"
  shows "\<exists>x. a \<le> x \<and> x < DHCP_SRV_IP_RANGE_END \<and> ip = x + 1 \<and> \<not> list_ex (\<lambda>r. dr_ip r = x) records"
  using assms
proof (induction now records a rule: scan_range.induct)
  case (1 now records a)
  show ?case
  proof (cases "a = DHCP_SRV_IP_RANGE_END")
    case True
    then show ?thesis using "1.prems" by (simp add: scan_range.simps TCPIPIpAddr_AddressMatch_def)
  next
    case False
    then have lt: "a < DHCP_SRV_IP_RANGE_END" using "1.prems"(3) by simp
    then have "unat (a + 1) = unat a + 1"
      using unat_u32_less [of DHCP_SRV_IP_RANGE_END] by (subst unat_u32_add) (auto simp: word_less_nat_alt)
    then have le: "a + 1 \<le> DHCP_SRV_IP_RANGE_END" "a < a + 1"
      using lt by (auto simp: word_less_nat_alt word_le_nat_alt)
    have free: "fst (DHCPSrv_FindRecord now None (Some a) records) = None \<longleftrightarrow> \<not> list_ex (\<lambda>r. dr_ip r = a) records"
      using FindRecord_find(3) [OF "1.prems"(1), of None "Some a" now] by (simp add: matches_def list_ex_iff)
    show ?thesis
    proof (cases "list_ex (\<lambda>r. dr_ip r = a) records")
      case True
      then have "scan_range now records (a + 1) = (True, ip)"
        using "1.prems"(2) False free by (simp add: scan_range.simps [of now records a] TCPIPIpAddr_AddressMatch_def TCPIPIpAddr_Next_def)
      then show ?thesis using "1.IH" "1.prems"(1) False True free le
        by (auto simp: TCPIPIpAddr_AddressMatch_def TCPIPIpAddr_Next_def intro: less_imp_le dest: order_trans less_le_trans)
    next
      case nobody: False
      then have "ip = a + 1"
        using "1.prems"(2) False free by (simp add: scan_range.simps [of now records a] TCPIPIpAddr_AddressMatch_def TCPIPIpAddr_Next_def)
      then show ?thesis using lt nobody by blast
    qed
  qed
qed

text \<open>What a reservation gives, in the three ways it can end.\<close>

lemma ReserveAddress_known:
  assumes "book_wf records" "length hw = 6" "fst (DHCPSrv_FindRecord now (Some hw) None records) = Some i"
    and "dr_ip (records ! i) \<noteq> 0"
  shows "DHCPSrv_ReserveAddress now hw records = (Some (i, dr_ip (records ! i)), records)"
  using assms FindRecord_find(1) [OF assms(1), of "Some hw" None now]
  by (auto simp: DHCPSrv_ReserveAddress_def split: prod.splits)

text \<open>Every client has at most one record; records that were never used have the address zero.\<close>

definition one_per_client :: "dhcp_record list \<Rightarrow> bool" where
  "one_per_client records \<longleftrightarrow> distinct (filter (\<lambda>m. m \<noteq> replicate 6 0) (map dr_mac records))"

lemma distinct_filter_update:
  assumes "distinct (filter P xs)" "x \<notin> set (take i xs)" "x \<notin> set (drop (Suc i) xs)"
  shows "distinct (filter P (xs[i := x]))"
proof (cases "i < length xs")
  case True
  have "distinct (filter P (take i xs @ xs ! i # drop (Suc i) xs))"
    using assms(1) True by (simp only: id_take_nth_drop [symmetric])
  then have "distinct (filter P (take i xs) @ filter P (drop (Suc i) xs))" by (auto split: if_splits)
  then show ?thesis
    using assms(2,3) True by (auto simp: upd_conv_take_nth_drop)
qed (use assms(1) in \<open>simp add: list_update_beyond\<close>)

lemma one_per_client_macs: "map dr_mac a = map dr_mac b \<Longrightarrow> one_per_client a = one_per_client b"
  by (simp add: one_per_client_def)

lemma book_wf_macs: "book_wf records \<longleftrightarrow> (\<forall>m \<in> set (map dr_mac records). length m = 6)"
  by (auto simp: book_wf_def list_all_iff)

lemma ReserveAddress_one_per_client:
  assumes "book_wf records" "one_per_client records" "length hw = 6"
    and "DHCPSrv_ReserveAddress now hw records = (r, records')"
  shows "book_wf records' \<and> one_per_client records' \<and> (\<forall>i ip. r = Some (i, ip) \<longrightarrow> i < length records')"
proof -
  let ?f = "fst (DHCPSrv_FindRecord now (Some hw) None records)"
  note find = FindRecord_find [OF assms(1), of "Some hw" None now, simplified, OF assms(3)]
  have keep: "book_wf rs \<and> one_per_client rs" if "map dr_mac rs = map dr_mac records" for rs
    using that assms(1,2) one_per_client_macs [OF that] by (simp add: book_wf_macs)
  let ?set = "\<lambda>rs i ip. rs[i := (rs ! i)\<lparr>dr_ip := ip, dr_mac := hw\<rparr>]"
  show ?thesis
  proof (cases ?f)
    case None
    let ?g = "DHCPSrv_FindRecord now None None records"
    have none: "hw \<notin> set (map dr_mac records)"
      using find(3) None by (auto simp: list_ex_iff matches_def)
    have macs: "map dr_mac (snd ?g) = map dr_mac records" by (rule FindRecord_free)
    then have len: "length (snd ?g) = length records" by (metis length_map)
    have upd: "book_wf (?set (snd ?g) i ip) \<and> one_per_client (?set (snd ?g) i ip)" for i ip
    proof -
      have "map dr_mac (?set (snd ?g) i ip) = (map dr_mac records)[i := hw]" by (simp add: map_update macs)
      moreover have "distinct (filter (\<lambda>m. m \<noteq> replicate 6 0) ((map dr_mac records)[i := hw]))"
        using assms(2) none unfolding one_per_client_def
        by (intro distinct_filter_update) (auto dest: in_set_takeD in_set_dropD)
      ultimately show ?thesis
        using assms(1,3) by (auto simp: one_per_client_def book_wf_macs simp del: set_map dest!: set_update_subset_insert [THEN subsetD])
    qed
    show ?thesis
      using assms(4) None find(1) keep [OF macs] upd FindRecord_free(3) [of now records] len
      by (auto simp: DHCPSrv_ReserveAddress_def split: prod.splits option.splits if_splits)
  next
    case (Some i)
    have i: "i < length records" "dr_mac (records ! i) = hw" using find(2) [OF Some] by (simp_all add: matches_def)
    have "map dr_mac (?set records i ip) = map dr_mac records" for ip
      using i by (simp add: map_update list_update_same_conv)
    then show ?thesis
      using assms(4) Some find(1) keep [of records] keep [of "?set records i _"] i
      by (auto simp: DHCPSrv_ReserveAddress_def split: prod.splits if_splits)
  qed
qed

section \<open>Properties of the book\<close>

text \<open>
  A reservation for a client that already has an address gives it that address again and does
  not change the book.
\<close>

theorem Dhcp_lease_is_stable:
  assumes "book_wf records" "length hw = 6" "list_ex (\<lambda>r. dr_mac r = hw) records"
    and "list_all (\<lambda>r. dr_mac r = hw \<longrightarrow> dr_ip r \<noteq> 0) records"
  shows "\<exists>i. i < length records \<and> dr_mac (records ! i) = hw \<and>
           DHCPSrv_ReserveAddress now hw records = (Some (i, dr_ip (records ! i)), records)"
proof -
  note find = FindRecord_find [OF assms(1), of "Some hw" None now, simplified, OF assms(2)]
  obtain i where i: "fst (DHCPSrv_FindRecord now (Some hw) None records) = Some i"
    using find(3) assms(3) by (fastforce simp: list_ex_iff matches_def)
  with find(2) have "i < length records" "dr_mac (records ! i) = hw" by (auto simp: matches_def)
  moreover from this have "dr_ip (records ! i) \<noteq> 0" using assms(4) by (auto simp: list_all_length)
  ultimately show ?thesis using ReserveAddress_known [OF assms(1,2) i] by blast
qed

lemma zero_mac: "replicate 6 (0 :: u8) = [0, 0, 0, 0, 0, 0]"
  by (simp add: numeral_eq_Suc)

definition demo_book :: "dhcp_record list" where
  "demo_book = [\<lparr>dr_state = STATE_ASSIGNED, dr_ts = 5, dr_mac = [1, 2, 3, 4, 5, 6], dr_ip = 0xC0A83265\<rparr>, record_zero]"

theorem Dhcp_lease_is_stable_witness:
  "\<exists>i. i < length demo_book \<and> dr_mac (demo_book ! i) = [1, 2, 3, 4, 5, 6] \<and>
     DHCPSrv_ReserveAddress 9 [1, 2, 3, 4, 5, 6] demo_book = (Some (i, dr_ip (demo_book ! i)), demo_book)"
  by (rule Dhcp_lease_is_stable) (simp_all add: demo_book_def book_wf_def record_zero_def zero_mac)

text \<open>A reservation for a new client in a book that does not hold the first address of the range.\<close>

lemma ReserveAddress_new:
  assumes "book_wf records" "length hw = 6" "\<not> list_ex (\<lambda>r. dr_mac r = hw) records"
    and "fst (DHCPSrv_FindRecord now None None records) = Some i"
    and "\<not> list_ex (\<lambda>r. dr_ip r = DHCP_SRV_IP_RANGE_START) records"
  shows "\<exists>records'. DHCPSrv_ReserveAddress now hw records = (Some (i, DHCP_SRV_IP_RANGE_START + 1), records') \<and>
           map dr_ip records' = (map dr_ip records)[i := DHCP_SRV_IP_RANGE_START + 1] \<and>
           map dr_mac records' = (map dr_mac records)[i := hw]"
proof -
  note find = FindRecord_find [OF assms(1), of "Some hw" None now, simplified, OF assms(2)]
  have none: "fst (DHCPSrv_FindRecord now (Some hw) None records) = None"
    using find(3) assms(3) by (simp add: list_ex_iff matches_def)
  let ?g = "snd (DHCPSrv_FindRecord now None None records)"
  have g: "map dr_mac ?g = map dr_mac records" "map dr_ip ?g = map dr_ip records" by (rule FindRecord_free)+
  have wf: "book_wf ?g" using assms(1) by (simp add: book_wf_macs g del: set_map)
  have ips: "set (map dr_ip ?g) = set (map dr_ip records)" by (simp only: g)
  have "\<not> list_ex (\<lambda>r. dr_ip r = DHCP_SRV_IP_RANGE_START) ?g"
    using assms(5) ips unfolding list_ex_iff set_map by (metis image_iff)
  then have "fst (DHCPSrv_FindRecord now None (Some DHCP_SRV_IP_RANGE_START) ?g) = None"
    using FindRecord_find(3) [OF wf, of None "Some DHCP_SRV_IP_RANGE_START" now] by (simp add: list_ex_iff matches_def)
  then have "scan_range now ?g DHCP_SRV_IP_RANGE_START = (True, DHCP_SRV_IP_RANGE_START + 1)"
    by (simp add: scan_range.simps TCPIPIpAddr_AddressMatch_def TCPIPIpAddr_Next_def DHCP_SRV_IP_RANGE_START_def
        DHCP_SRV_IP_RANGE_END_def TCPIP_IP_ADDR_def)
  then show ?thesis
    using none find(1) assms(4) g
    by (auto simp: DHCPSrv_ReserveAddress_def map_update split: prod.splits)
qed

definition offered :: "u32 \<Rightarrow> nat \<Rightarrow> dhcp_record list \<Rightarrow> dhcp_record list" where
  "offered now i records = records[i := (records ! i)\<lparr>dr_ts := now, dr_state := STATE_OFFER\<rparr>]"

lemma offered_addresses:
  "map dr_mac (offered now i records) = map dr_mac records" "map dr_ip (offered now i records) = map dr_ip records"
  by (simp_all add: offered_def map_update) (metis list_update_id map_update)+

text \<open>
  Two clients that are new to the server are offered the same address, the second one of the
  range: the search stops one past the first free address, which therefore stays free.
\<close>

theorem Dhcp_two_clients_one_address:
  assumes "book_wf records" "length a = 6" "length b = 6" "a \<noteq> b"
    and "\<not> list_ex (\<lambda>r. dr_mac r = a \<or> dr_mac r = b \<or> dr_ip r = DHCP_SRV_IP_RANGE_START) records"
    and "DHCPSrv_ReserveAddress now a records = (Some (i, ip), records1)"
    and "fst (DHCPSrv_FindRecord now' None None (offered now i records1)) = Some j"
  shows "\<exists>records2. DHCPSrv_ReserveAddress now' b (offered now i records1) = (Some (j, ip), records2)"
proof -
  have fresh: "\<not> list_ex (\<lambda>r. dr_mac r = a) records" "\<not> list_ex (\<lambda>r. dr_ip r = DHCP_SRV_IP_RANGE_START) records"
    using assms(5) by (auto simp: list_ex_iff)
  have "fst (DHCPSrv_FindRecord now None None records) \<noteq> None"
    using assms(6) fresh(1) FindRecord_find [OF assms(1), of "Some a" None now, simplified, OF assms(2)]
    by (auto simp: DHCPSrv_ReserveAddress_def list_ex_iff matches_def split: prod.splits option.splits if_splits)
  then obtain k where k: "fst (DHCPSrv_FindRecord now None None records) = Some k" by blast
  let ?r = "offered now i records1"
  have r1: "ip = DHCP_SRV_IP_RANGE_START + 1" "map dr_mac ?r = (map dr_mac records)[k := a]"
    "map dr_ip ?r = (map dr_ip records)[k := DHCP_SRV_IP_RANGE_START + 1]"
    using ReserveAddress_new [OF assms(1,2) fresh(1) k fresh(2)] assms(6) by (auto simp: offered_addresses)
  have macs: "set (map dr_mac ?r) \<subseteq> insert a (set (map dr_mac records))"
    and ips: "set (map dr_ip ?r) \<subseteq> insert (DHCP_SRV_IP_RANGE_START + 1) (set (map dr_ip records))"
    unfolding r1 by (rule set_update_subset_insert)+
  have m: "dr_mac r \<in> insert a (set (map dr_mac records))" "dr_ip r \<in> insert (DHCP_SRV_IP_RANGE_START + 1) (set (map dr_ip records))"
    if "r \<in> set ?r" for r using that macs ips by auto
  have "book_wf ?r" using macs assms(1,2) unfolding book_wf_macs by blast
  moreover have "\<not> list_ex (\<lambda>r. dr_mac r = b) ?r" using m(1) assms(4,5) by (force simp: list_ex_iff)
  moreover have "\<not> list_ex (\<lambda>r. dr_ip r = DHCP_SRV_IP_RANGE_START) ?r"
    using m(2) assms(5) by (force simp: list_ex_iff)
  ultimately show ?thesis using ReserveAddress_new [OF _ assms(3) _ assms(7)] r1(1) by blast
qed

theorem Dhcp_two_clients_one_address_witness:
  "\<exists>i j ip records1 records2.
     DHCPSrv_ReserveAddress 0 [0, 0, 0, 0, 0, 1] [record_zero, record_zero] = (Some (i, ip), records1) \<and>
     DHCPSrv_ReserveAddress 0 [0, 0, 0, 0, 0, 2] (offered 0 i records1) = (Some (j, ip), records2)"
proof -
  let ?z = "[record_zero, record_zero]" and ?a = "[0, 0, 0, 0, 0, 1] :: bytes" and ?b = "[0, 0, 0, 0, 0, 2] :: bytes"
  have z: "book_wf ?z" "\<not> list_ex (\<lambda>r. dr_mac r = ?a \<or> dr_mac r = ?b \<or> dr_ip r = DHCP_SRV_IP_RANGE_START) ?z"
    by (simp_all add: book_wf_def record_zero_def DHCP_SRV_IP_RANGE_START_def TCPIP_IP_ADDR_def zero_mac)
  have r: "DHCPSrv_ReserveAddress 0 ?a ?z = (Some (0, DHCP_SRV_IP_RANGE_START + 1),
      [record_zero\<lparr>dr_ip := DHCP_SRV_IP_RANGE_START + 1, dr_mac := ?a\<rparr>, record_zero])"
    by (simp add: DHCPSrv_ReserveAddress_def record_zero_def zero_mac AddressMatch_eq scan_range.simps expire_def Let_def
        TCPIPIpAddr_AddressMatch_def TCPIPIpAddr_Next_def DHCP_SRV_IP_RANGE_START_def DHCP_SRV_IP_RANGE_END_def TCPIP_IP_ADDR_def)
  have g: "fst (DHCPSrv_FindRecord 0 None None (offered 0 0
      [record_zero\<lparr>dr_ip := DHCP_SRV_IP_RANGE_START + 1, dr_mac := ?a\<rparr>, record_zero])) = Some 1"
    by (simp add: offered_def expire_def record_zero_def)
  show ?thesis using Dhcp_two_clients_one_address [OF z(1) _ _ _ z(2) r g] r by auto
qed
end
