(* ===== verification/Net_Dhcp.thy ===== *)
theory Net_Dhcp
  imports Net_Dhcp_Frame Net_Dhcp_Book Net_Stack
begin

text \<open>
  The address configuration server, \<^verbatim>\<open>net/dhcp/src/server.c\<close>, on top of its record book. The server sends its replies
  through \<open>TCPIPUdpSock_SendTo\<close>, which lets other tasks run; the only other writer of the record book is the reset
  callback, so what happens to the book while a reply is being sent is a function \<open>other\<close> on books.
\<close>

section \<open>Replies\<close>

definition dhcp_header :: "u32 \<Rightarrow> bytes \<Rightarrow> bytes" where
  "dhcp_header xid buf =
     DHCPFrame_SetXID (DHCPFrame_SetFlags (DHCPFrame_SetHops (DHCPFrame_SetHLen (DHCPFrame_SetHType
       (DHCPFrame_SetOP (DHCPFrame_Init buf) DHCP_OP_RESPONSE) DHCP_HTYPE_ETH) 6) 0) 0) xid"

text \<open>The frame in the work buffer of 512 bytes and its length, or an error.\<close>

definition response_frame :: "u32 \<Rightarrow> dhcp_addrset \<Rightarrow> dhcp_optset \<Rightarrow> fault + (nat \<times> bytes) option" where
  "response_frame xid adrs opts =
     bind_res (DHCPFrame_RenderAddresses (dhcp_header xid (replicate 512 0)) 512 adrs) (\<lambda>(ec, frame).
       if ec < EOK then Inr None
       else bind_res (DHCPFrame_RenderOptions frame 240 (512 - 240) opts) (\<lambda>(p, buf).
              Inr (map_option (\<lambda>p. (p, buf)) p)))"

definition DHCPSrv_SendResponse ::
  "nat \<Rightarrow> (nat \<Rightarrow> net_st \<Rightarrow> net_st) \<Rightarrow> u16 \<Rightarrow> u32 \<Rightarrow> u16 \<Rightarrow> u32 \<Rightarrow> dhcp_addrset \<Rightarrow> dhcp_optset \<Rightarrow> err_t net_m" where
  "DHCPSrv_SendResponse fuel env lport ip port xid adrs opts =
     nbind (ntry (\<lambda>s. bind_res (response_frame xid adrs opts) (\<lambda>r. Inr (r, s)))) (\<lambda>r.
       case r of
         None \<Rightarrow> nret EFATAL
       | Some (n, buf) \<Rightarrow> TCPIPUdpSock_SendTo fuel env lport ip port buf (of_nat n))"

definition nak_addrs :: "ip_conf \<Rightarrow> bytes \<Rightarrow> dhcp_addrset" where
  "nak_addrs conf ch = addrset_zero\<lparr>a_flags := DHCP_ADDRFLAGS_SIADDR OR DHCP_ADDRFLAGS_CHADDR,
     a_si := TCPIPIpAddr_GetIP conf, a_ch := ch\<rparr>"

definition nak_opts :: dhcp_optset where
  "nak_opts = optset_zero\<lparr>o_flags := DHCP_OPTFLAGS_MSGTYPE OR DHCP_OPTFLAGS_END, o_msg_type := DHCP_MSG_TYPE_NAK\<rparr>"

definition DHCPSrv_SendResponseNAK ::
  "nat \<Rightarrow> (nat \<Rightarrow> net_st \<Rightarrow> net_st) \<Rightarrow> u16 \<Rightarrow> u32 \<Rightarrow> u16 \<Rightarrow> u32 \<Rightarrow> bytes \<Rightarrow> err_t net_m" where
  "DHCPSrv_SendResponseNAK fuel env lport ip port xid ch =
     (let ip = (if TCPIPIpAddr_IsMatchingAny ip then TCPIP_IP_ADDR_BCAST else ip) in
      nbind (nread n_conf) (\<lambda>conf.
        DHCPSrv_SendResponse fuel env lport ip port xid (nak_addrs conf ch) nak_opts))"

text \<open>The addresses and options of an offer and of an acknowledgement.\<close>

definition lease_addrs :: "ip_conf \<Rightarrow> u32 \<Rightarrow> bytes \<Rightarrow> dhcp_addrset" where
  "lease_addrs conf ip ch = addrset_zero\<lparr>a_flags := DHCP_ADDRFLAGS_YIADDR OR DHCP_ADDRFLAGS_SIADDR OR
       DHCP_ADDRFLAGS_CHADDR OR DHCP_ADDRFLAGS_GIADDR,
     a_yi := ip, a_si := TCPIPIpAddr_GetIP conf, a_gi := TCPIPIpAddr_GetGatewayIP conf, a_ch := ch\<rparr>"

definition lease_opts :: "ip_conf \<Rightarrow> u8 \<Rightarrow> u32 \<Rightarrow> dhcp_optset" where
  "lease_opts conf msg_type lease_time = optset_zero\<lparr>o_flags := DHCP_OPTFLAGS_MSGTYPE OR DHCP_OPTFLAGS_SUBNET OR
       DHCP_OPTFLAGS_ROUTER OR DHCP_OPTFLAGS_LEASE_TIME OR DHCP_OPTFLAGS_DHCP_SERVER OR DHCP_OPTFLAGS_END,
     o_msg_type := msg_type, o_subnet := TCPIPIpAddr_GetSubnetMask conf, o_router := TCPIPIpAddr_GetGatewayIP conf,
     o_lease_time := lease_time, o_server := TCPIPIpAddr_GetIP conf\<rparr>"

section \<open>Requests\<close>

text \<open>A handler works on the record book and the stack.\<close>

type_synonym dhcp_res = "(fault + err_t \<times> dhcp_record list \<times> net_st) option"

definition with_book :: "dhcp_record list \<Rightarrow> (fault + err_t \<times> net_st) option \<Rightarrow> dhcp_res" where
  "with_book records r =
     (case r of None \<Rightarrow> None | Some (Inl e) \<Rightarrow> Some (Inl e) | Some (Inr (ec, s)) \<Rightarrow> Some (Inr (ec, records, s)))"

definition DHCPSrv_ProcessDiscover ::
  "nat \<Rightarrow> (nat \<Rightarrow> net_st \<Rightarrow> net_st) \<Rightarrow> (dhcp_record list \<Rightarrow> dhcp_record list) \<Rightarrow> u16 \<Rightarrow> u16 \<Rightarrow> bytes \<Rightarrow>
   dhcp_addrset \<Rightarrow> dhcp_record list \<Rightarrow> net_st \<Rightarrow> dhcp_res" where
  "DHCPSrv_ProcessDiscover fuel env other lport port frame adrs records s =
     (let xid = DHCPFrame_GetXID frame in
      if xid = 0 \<or> \<not> has_flag (a_flags adrs) DHCP_ADDRFLAGS_CHADDR then Some (Inr (EFATAL, records, s))
      else
        (case DHCPSrv_ReserveAddress (n_now s) (a_ch adrs) records of
           (None, records) \<Rightarrow> Some (Inr (EFATAL, records, s))
         | (Some (i, ip), records) \<Rightarrow>
             let records = records[i := (records ! i)\<lparr>dr_ts := n_now s, dr_state := STATE_OFFER\<rparr>] in
             with_book (other records)
               (DHCPSrv_SendResponse fuel env lport TCPIP_IP_ADDR_BCAST port xid
                  (lease_addrs (n_conf s) ip (a_ch adrs)) (lease_opts (n_conf s) DHCP_MSG_TYPE_OFFER (1 * 60)) s)))"

definition DHCPSrv_ProcessRequest ::
  "nat \<Rightarrow> (nat \<Rightarrow> net_st \<Rightarrow> net_st) \<Rightarrow> (dhcp_record list \<Rightarrow> dhcp_record list) \<Rightarrow> u16 \<Rightarrow> u32 \<Rightarrow> u16 \<Rightarrow> bytes \<Rightarrow>
   dhcp_addrset \<Rightarrow> dhcp_optset \<Rightarrow> dhcp_record list \<Rightarrow> net_st \<Rightarrow> dhcp_res" where
  "DHCPSrv_ProcessRequest fuel env other lport ip port frame adrs opts records s =
     (let xid = DHCPFrame_GetXID frame in
      if xid = 0 \<or> \<not> has_flag (a_flags adrs) DHCP_ADDRFLAGS_CHADDR then Some (Inr (EFATAL, records, s))
      else if \<not> has_flag (a_flags adrs) DHCP_ADDRFLAGS_CIADDR \<and> \<not> has_flag (o_flags opts) DHCP_OPTFLAGS_REQUESTED_IP
      then Some (Inr (EFATAL, records, s))
      else
        let req_addr = (if has_flag (a_flags adrs) DHCP_ADDRFLAGS_CIADDR then a_ci adrs else o_req_ip opts) in
        (case DHCPSrv_FindRecord (n_now s) (Some (a_ch adrs)) (Some req_addr) records of (rec, records) \<Rightarrow>
         if rec = None \<or> \<not> (dr_state (records ! the rec) = STATE_OFFER \<or> dr_state (records ! the rec) = STATE_ASSIGNED)
         then with_book (other records) (DHCPSrv_SendResponseNAK fuel env lport ip port xid (a_ch adrs) s)
         else
           (case DHCPSrv_SendResponse fuel env lport TCPIP_IP_ADDR_BCAST port xid
                   (lease_addrs (n_conf s) (dr_ip (records ! the rec)) (a_ch adrs))
                   (lease_opts (n_conf s) DHCP_MSG_TYPE_ACK (15 * 60)) s of
              None \<Rightarrow> None
            | Some (Inl e) \<Rightarrow> Some (Inl e)
            | Some (Inr (ec, s')) \<Rightarrow>
                let records = other records in
                if ec < EOK then Some (Inr (EFATAL, records, s'))
                else Some (Inr (ec, records[the rec := (records ! the rec)\<lparr>dr_state := STATE_ASSIGNED, dr_ts := n_now s'\<rparr>], s')))))"

text \<open>A release returns the error code that nothing has set.\<close>

definition DHCPSrv_Process ::
  "nat \<Rightarrow> (nat \<Rightarrow> net_st \<Rightarrow> net_st) \<Rightarrow> (dhcp_record list \<Rightarrow> dhcp_record list) \<Rightarrow> u16 \<Rightarrow> u32 \<Rightarrow> u16 \<Rightarrow> bytes \<Rightarrow>
   dhcp_addrset \<Rightarrow> dhcp_optset \<Rightarrow> dhcp_record list \<Rightarrow> net_st \<Rightarrow> dhcp_res" where
  "DHCPSrv_Process fuel env other lport ip port frame adrs opts records s =
     (if o_msg_type opts = DHCP_MSG_TYPE_DISCOVER then
        DHCPSrv_ProcessDiscover fuel env other lport port frame adrs records s
      else if o_msg_type opts = DHCP_MSG_TYPE_REQUEST then
        DHCPSrv_ProcessRequest fuel env other lport ip port frame adrs opts records s
      else if o_msg_type opts = DHCP_MSG_TYPE_RELEASE then Some (Inl Uninit)
      else Some (Inr (EFATAL, records, s)))"

definition DHCPSrv_Input ::
  "nat \<Rightarrow> (nat \<Rightarrow> net_st \<Rightarrow> net_st) \<Rightarrow> (dhcp_record list \<Rightarrow> dhcp_record list) \<Rightarrow> u16 \<Rightarrow> u32 \<Rightarrow> u16 \<Rightarrow> bytes \<Rightarrow> u32 \<Rightarrow>
   dhcp_record list \<Rightarrow> net_st \<Rightarrow> dhcp_res" where
  "DHCPSrv_Input fuel env other lport ip port frame bsz records s =
     (if length frame < 8 then Some (Inl OutOfBounds)
      else if DHCPFrame_GetHType frame \<noteq> DHCP_HTYPE_ETH \<or> DHCPFrame_GetHLen frame \<noteq> 6
      then Some (Inr (EFATAL, records, s))
      else
        (case DHCPFrame_ParseAddresses frame bsz addrset_zero of
           Inl e \<Rightarrow> Some (Inl e)
         | Inr (ec, adrs) \<Rightarrow>
             if ec < EOK then Some (Inr (EFATAL, records, s))
             else
               (case DHCPFrame_ParseOptions (drop 240 frame) (bsz - 240) optset_zero of
                  Inl e \<Rightarrow> Some (Inl e)
                | Inr (None, opts) \<Rightarrow> Some (Inr (EFATAL, records, s))
                | Inr (Some _, opts) \<Rightarrow>
                    if \<not> has_flag (o_flags opts) DHCP_OPTFLAGS_MSGTYPE then Some (Inr (EFATAL, records, s))
                    else if DHCPFrame_GetOP frame = DHCP_OP_REQUEST then
                      DHCPSrv_Process fuel env other lport ip port frame adrs opts records s
                    else Some (Inr (EFATAL, records, s)))))"


section \<open>The content of a reply\<close>

lemma dhcp_header_fields:
  "length (dhcp_header xid (replicate 512 0)) = 512" "DHCPFrame_GetXID (dhcp_header xid (replicate 512 0)) = xid"
  "DHCPFrame_GetOP (dhcp_header xid (replicate 512 0)) = DHCP_OP_RESPONSE"
  by (simp_all add: dhcp_header_def DHCPFrame_Init_def dhcp_frame_defs rd_wr_other)

lemma lease_opts_wf: "optset_wf (lease_opts conf mt lt)" "has_flag (o_flags (lease_opts conf mt lt)) DHCP_OPTFLAGS_END"
  "length (recs_bytes (opt_recs (lease_opts conf mt lt))) = 28"
  by (simp_all add: lease_opts_def optset_wf_def optset_zero_def has_flag_def dhcp_flags opt_recs_def)

lemma ParseAddresses_cong:
  assumes "\<And>i. i < 240 \<Longrightarrow> b ! i = f ! i" "240 \<le> length b" "240 \<le> length f" "240 \<le> m" "240 \<le> n"
  shows "DHCPFrame_ParseAddresses b m x = DHCPFrame_ParseAddresses f n x"
proof -
  have "\<not> m < 240" "\<not> n < 240" using assms(4,5) by auto
  then show ?thesis using assms(1-3) by (simp add: DHCPFrame_ParseAddresses_def dhcp_frame_defs rd32_def rd_mac_def)
qed

lemma lease_parsed:
  assumes "mem = recs_bytes (opt_recs (lease_opts conf mt lt)) @ rest"
  shows "\<exists>opts. DHCPFrame_ParseOptions mem 28 optset_zero = Inr (Some 28, opts) \<and>
     o_msg_type opts = mt \<and> o_lease_time opts = lt \<and> o_subnet opts = tcpip_ip_mask conf \<and>
     o_router opts = tcpip_ip_gway conf \<and> o_server opts = tcpip_ip_addr conf"
proof -
  let ?o = "lease_opts conf mt lt" and ?z = "optset_zero\<lparr>o_flags := 0\<rparr>"
  have "DHCPFrame_ParseOptions mem 28 optset_zero = Inr (Some 28, absorbed ?o ?z)"
    using parse_recs [OF lease_opts_wf(1,2) assms, of 28 ?z]
    by (simp add: DHCPFrame_ParseOptions_def lease_opts_wf(3) optset_zero_def)
  moreover have "same_options ?o (absorbed ?o ?z)" by (rule absorbed_same [OF lease_opts_wf(1,2)]) simp
  ultimately show ?thesis
    by (simp add: same_options_def lease_opts_def has_flag_def dhcp_flags TCPIPIpAddr_GetIP_def
        TCPIPIpAddr_GetGatewayIP_def TCPIPIpAddr_GetSubnetMask_def)
qed

text \<open>
  C29: the frame of an offer or an acknowledgement, read with the functions that parse frames, has
  the transaction number, the leased address and the hardware address of the client, the type of the message, the
  lease time, and the mask, the gateway and the address of the server.
\<close>

theorem Dhcp_reply_content:
  assumes "length ch = 6"
  shows "\<exists>n buf a opts. response_frame xid (lease_addrs conf ip ch) (lease_opts conf mt lt) = Inr (Some (240 + n, buf)) \<and>
     240 + n \<le> length buf \<and> DHCPFrame_GetXID buf = xid \<and> DHCPFrame_GetOP buf = DHCP_OP_RESPONSE \<and>
     DHCPFrame_ParseAddresses buf (of_nat (240 + n)) addrset_zero = Inr (EOK, a) \<and> a_yi a = ip \<and> a_ch a = ch \<and>
     DHCPFrame_ParseOptions (drop 240 buf) (of_nat n) optset_zero = Inr (Some n, opts) \<and>
     o_msg_type opts = mt \<and> o_lease_time opts = lt \<and> o_subnet opts = tcpip_ip_mask conf \<and>
     o_router opts = tcpip_ip_gway conf \<and> o_server opts = tcpip_ip_addr conf"
proof -
  let ?h = "dhcp_header xid (replicate 512 0)" and ?adrs = "lease_addrs conf ip ch" and ?opts = "lease_opts conf mt lt"
  let ?r = "recs_bytes (opt_recs ?opts)"
  have ch: "length (a_ch ?adrs) = 6" using assms by (simp add: lease_addrs_def)
  obtain f a where f: "DHCPFrame_RenderAddresses ?h 512 ?adrs = Inr (EOK, f)" "length f = 512" "\<forall>i < 12. f ! i = ?h ! i"
    and a: "DHCPFrame_ParseAddresses f 512 addrset_zero = Inr (EOK, a)" "a_yi a = ip" "a_ch a = ch"
    using addresses_roundtrip [of 512 ?h ?adrs] ch dhcp_header_fields(1)
    by (auto simp: lease_addrs_def has_flag_def dhcp_flags)
  let ?buf = "take 240 f @ ?r @ drop 268 f"
  have o: "DHCPFrame_RenderOptions f 240 (512 - 240) ?opts = Inr (Some 268, ?buf)"
    using RenderOptions_ok [OF lease_opts_wf(1), of conf mt lt "512 - 240" 240 f] f(2) by (simp add: lease_opts_wf(3) rendered_def)
  have len: "length ?buf = 512" using f(2) by (simp add: lease_opts_wf(3))
  have same: "?buf ! i = f ! i" if "i < 240" for i using that f(2) by (simp add: nth_append)
  have x: "DHCPFrame_GetXID ?buf = xid" "DHCPFrame_GetOP ?buf = DHCP_OP_RESPONSE"
    using same f(3) dhcp_header_fields(2,3) [of xid] by (simp_all add: dhcp_frame_defs rd32_def)
  have "DHCPFrame_ParseAddresses ?buf (of_nat (240 + 28)) addrset_zero = Inr (EOK, a)"
    using ParseAddresses_cong [OF same, of 268 512 addrset_zero] a(1) len f(2) by simp
  moreover obtain opts where "DHCPFrame_ParseOptions (drop 240 ?buf) (of_nat 28) optset_zero = Inr (Some 28, opts)"
     "o_msg_type opts = mt" "o_lease_time opts = lt" "o_subnet opts = tcpip_ip_mask conf"
     "o_router opts = tcpip_ip_gway conf" "o_server opts = tcpip_ip_addr conf"
    using lease_parsed [of "drop 240 ?buf" conf mt lt "drop 268 f"] f(2) by auto
  moreover have "response_frame xid ?adrs ?opts = Inr (Some (240 + 28, ?buf))"
    using f(1) o by (simp add: response_frame_def EOK_def)
  ultimately show ?thesis using x len a(2,3) by (intro exI [of _ 28] exI [of _ ?buf] exI [of _ a] exI [of _ opts]) simp
qed

theorem Dhcp_reply_content_witness:
  "\<exists>n buf a opts. response_frame 7 (lease_addrs ip_conf_init 0xC0A83265 [1, 2, 3, 4, 5, 6])
       (lease_opts ip_conf_init DHCP_MSG_TYPE_OFFER 60) = Inr (Some (240 + n, buf)) \<and>
     DHCPFrame_ParseAddresses buf (of_nat (240 + n)) addrset_zero = Inr (EOK, a) \<and> a_yi a = 0xC0A83265 \<and>
     DHCPFrame_ParseOptions (drop 240 buf) (of_nat n) optset_zero = Inr (Some n, opts) \<and> o_msg_type opts = DHCP_MSG_TYPE_OFFER"
  using Dhcp_reply_content [of "[1, 2, 3, 4, 5, 6]" 7 ip_conf_init "0xC0A83265" DHCP_MSG_TYPE_OFFER 60] by fastforce


section \<open>The server keeps one record per client\<close>

lemma ParseAddresses_ch: "DHCPFrame_ParseAddresses frame bsz addrset_zero = Inr (ec, a) \<Longrightarrow> length (a_ch a) = 6"
  by (auto simp: DHCPFrame_ParseAddresses_def Let_def addrset_zero_def dhcp_frame_defs rd_mac_def split: if_splits)

definition book_inv :: "dhcp_record list \<Rightarrow> bool" where
  "book_inv records \<longleftrightarrow> book_wf records \<and> one_per_client records"

lemma book_inv_macs: "map dr_mac a = map dr_mac b \<Longrightarrow> book_inv a = book_inv b"
  using one_per_client_macs [of a b] by (simp add: book_inv_def book_wf_macs del: set_map)

lemma book_inv_update [simp]:
  "book_inv (records[i := (records ! i)\<lparr>dr_ts := t, dr_state := st\<rparr>]) = book_inv records"
  "book_inv (records[i := (records ! i)\<lparr>dr_state := st, dr_ts := t\<rparr>]) = book_inv records"
  by (rule book_inv_macs, simp add: map_update, metis list_update_id map_update)+

lemma book_inv_Reset: "book_inv records \<Longrightarrow> book_inv (DHCPSrv_Reset records)"
  by (auto simp: book_inv_def book_wf_def one_per_client_def DHCPSrv_Reset_def record_zero_def list_all_iff comp_def)

lemma with_book_Some: "with_book b r = Some (Inr (ec, b', s')) \<Longrightarrow> b' = b"
  by (auto simp: with_book_def split: option.splits sum.splits)

lemma ProcessDiscover_inv:
  assumes "book_inv records" "length (a_ch adrs) = 6" "\<And>b. book_inv b \<Longrightarrow> book_inv (other b)"
    and "DHCPSrv_ProcessDiscover fuel env other lport port frame adrs records s = Some (Inr (ec, records', s'))"
  shows "book_inv records'"
proof -
  obtain r b where rb: "DHCPSrv_ReserveAddress (n_now s) (a_ch adrs) records = (r, b)" by fastforce
  have "book_inv b" using ReserveAddress_one_per_client [OF _ _ assms(2) rb] assms(1) by (simp add: book_inv_def)
  then show ?thesis
    using assms(1,3,4) rb
    by (auto simp: DHCPSrv_ProcessDiscover_def Let_def dest!: with_book_Some split: if_splits option.splits)
qed

lemma FindRecord_keeps:
  assumes "book_inv records" "length ch = 6"
  shows "DHCPSrv_FindRecord now (Some ch) ip records = (fst (DHCPSrv_FindRecord now (Some ch) ip records), records)"
  using FindRecord_find(1) [of records "Some ch" ip now] assms by (simp add: book_inv_def prod_eq_iff)

lemma ProcessRequest_inv:
  assumes "book_inv records" "length (a_ch adrs) = 6" "\<And>b. book_inv b \<Longrightarrow> book_inv (other b)"
    and "DHCPSrv_ProcessRequest fuel env other lport ip port frame adrs opts records s = Some (Inr (ec, records', s'))"
  shows "book_inv records'"
proof -
  let ?q = "if has_flag (a_flags adrs) DHCP_ADDRFLAGS_CIADDR then a_ci adrs else o_req_ip opts"
  obtain r where f: "DHCPSrv_FindRecord (n_now s) (Some (a_ch adrs)) (Some ?q) records = (r, records)"
    using FindRecord_keeps [OF assms(1,2)] by blast
  show ?thesis
    using assms(1,3) assms(4) [unfolded DHCPSrv_ProcessRequest_def Let_def f prod.case]
    by (auto simp: Let_def dest!: with_book_Some split: if_splits option.splits sum.splits)
qed

lemma Process_inv:
  assumes "book_inv records" "length (a_ch adrs) = 6" "\<And>b. book_inv b \<Longrightarrow> book_inv (other b)"
    and "DHCPSrv_Process fuel env other lport ip port frame adrs opts records s = Some (Inr (ec, records', s'))"
  shows "book_inv records'"
  using assms(4) ProcessDiscover_inv [where other = other, OF assms(1-3)]
    ProcessRequest_inv [where other = other, OF assms(1-3)] assms(1)
  unfolding DHCPSrv_Process_def by (simp split: if_splits)

lemma Input_inv:
  assumes "book_inv records" "\<And>b. book_inv b \<Longrightarrow> book_inv (other b)"
    and run: "DHCPSrv_Input fuel env other lport ip port frame bsz records s = Some (Inr (ec, records', s'))"
  shows "book_inv records'"
proof (cases "DHCPFrame_ParseAddresses frame bsz addrset_zero")
  case (Inl e) with run assms(1) show ?thesis unfolding DHCPSrv_Input_def by (simp split: if_splits)
next
  case (Inr r)
  obtain e adrs where r: "r = (e, adrs)" by fastforce
  have ch: "length (a_ch adrs) = 6" using Inr r ParseAddresses_ch by simp
  show ?thesis
  proof (cases "DHCPFrame_ParseOptions (drop 240 frame) (bsz - 240) optset_zero")
    case (Inl e) with run Inr r assms(1) show ?thesis unfolding DHCPSrv_Input_def by (simp split: if_splits)
  next
    case o: (Inr q)
    obtain n opts where q: "q = (n, opts)" by fastforce
    have "DHCPSrv_Process fuel env other lport ip port frame adrs opts records s = Some (Inr (ec, records', s')) \<or> records' = records"
      using run Inr r o q unfolding DHCPSrv_Input_def by (cases n) (simp_all split: if_splits)
    then show ?thesis using Process_inv [where other = other, OF assms(1) ch assms(2)] assms(1) by blast
  qed
qed

text \<open>
  C28: in a record book that the server keeps, every client has at most one record, whatever
  frame arrives and also when the stack is reset while the reply is being sent.
\<close>

theorem Dhcp_one_record_per_client:
  assumes "book_inv records" "other = id \<or> other = DHCPSrv_Reset"
    and "DHCPSrv_Input fuel env other lport ip port frame bsz records s = Some (Inr (ec, records', s'))"
  shows "book_inv records'"
  using Input_inv [OF assms(1) _ assms(3)] assms(2) book_inv_Reset by auto

theorem Dhcp_one_record_per_client_witness:
  "\<forall>s. book_inv demo_book \<and>
     (\<exists>ec records'. DHCPSrv_Input 0 (\<lambda>_ s. s) DHCPSrv_Reset 67 0 68 (replicate 300 0) 300 demo_book s =
        Some (Inr (ec, records', s)) \<and> book_inv records')"
proof
  fix s
  have b: "book_inv demo_book"
    by (simp add: book_inv_def book_wf_def one_per_client_def demo_book_def record_zero_def)
  have "DHCPSrv_Input 0 (\<lambda>_ s. s) DHCPSrv_Reset 67 0 68 (replicate 300 0) 300 demo_book s = Some (Inr (EFATAL, demo_book, s))"
    by (simp add: DHCPSrv_Input_def dhcp_frame_defs DHCP_HTYPE_ETH_def)
  then show "book_inv demo_book \<and>
     (\<exists>ec records'. DHCPSrv_Input 0 (\<lambda>_ s. s) DHCPSrv_Reset 67 0 68 (replicate 300 0) 300 demo_book s =
        Some (Inr (ec, records', s)) \<and> book_inv records')"
    using Dhcp_one_record_per_client [OF b disjI2 [OF refl]] b by blast
qed

text \<open>
  A request for an address that was not offered to the client is refused, and does not
  change the record book.
\<close>

theorem Dhcp_request_refused:
  assumes "book_inv records" "length (a_ch adrs) = 6" "DHCPFrame_GetXID frame \<noteq> 0"
    and "has_flag (a_flags adrs) DHCP_ADDRFLAGS_CHADDR" "has_flag (a_flags adrs) DHCP_ADDRFLAGS_CIADDR"
    and "\<not> list_ex (\<lambda>r. dr_mac r = a_ch adrs \<and> dr_ip r = a_ci adrs \<and> dr_state r \<noteq> STATE_FREE) records"
  shows "DHCPSrv_ProcessRequest fuel env other lport ip port frame adrs opts records s =
    with_book (other records) (DHCPSrv_SendResponseNAK fuel env lport ip port (DHCPFrame_GetXID frame) (a_ch adrs) s)"
proof -
  obtain r where f: "DHCPSrv_FindRecord (n_now s) (Some (a_ch adrs)) (Some (a_ci adrs)) records = (r, records)"
    using FindRecord_keeps [OF assms(1,2)] by blast
  have "i < length records \<and> dr_mac (records ! i) = a_ch adrs \<and> dr_ip (records ! i) = a_ci adrs" if "r = Some i" for i
    using FindRecord_find(2) [of records "Some (a_ch adrs)" "Some (a_ci adrs)" "n_now s" i] assms(1,2) f that
    by (auto simp: book_inv_def matches_def)
  then have "r = None \<or> dr_state (records ! the r) = STATE_FREE" using assms(6) by (cases r) (auto simp: list_ex_length)
  then show ?thesis using assms(3-5) f by (auto simp: DHCPSrv_ProcessRequest_def Let_def)
qed

theorem Dhcp_request_refused_witness:
  "\<forall>env s. DHCPSrv_ProcessRequest 9 env id 67 0 68 [1, 1, 6, 0, 0, 0, 0, 5]
      (addrset_zero\<lparr>a_flags := 17, a_ci := 0xC0A83265, a_ch := [9, 9, 9, 9, 9, 9]\<rparr>) optset_zero demo_book s =
    with_book demo_book (DHCPSrv_SendResponseNAK 9 env 67 0 68 5 [9, 9, 9, 9, 9, 9] s)"
proof (intro allI)
  fix env s
  have "book_inv demo_book"
    by (simp add: book_inv_def book_wf_def one_per_client_def demo_book_def record_zero_def)
  moreover have "DHCPFrame_GetXID [1, 1, 6, 0, 0, 0, 0, 5] = 5" by (simp add: dhcp_frame_defs rd32_def HTOBE32_def)
  ultimately show "DHCPSrv_ProcessRequest 9 env id 67 0 68 [1, 1, 6, 0, 0, 0, 0, 5]
      (addrset_zero\<lparr>a_flags := 17, a_ci := 0xC0A83265, a_ch := [9, 9, 9, 9, 9, 9]\<rparr>) optset_zero demo_book s =
    with_book demo_book (DHCPSrv_SendResponseNAK 9 env 67 0 68 5 [9, 9, 9, 9, 9, 9] s)"
    using Dhcp_request_refused [of demo_book "addrset_zero\<lparr>a_flags := 17, a_ci := 0xC0A83265, a_ch := [9, 9, 9, 9, 9, 9]\<rparr>"
        "[1, 1, 6, 0, 0, 0, 0, 5]" 9 env id 67 0 68 optset_zero s]
    by (simp add: has_flag_def dhcp_flags demo_book_def record_zero_def)
qed
end
