(* ===== verification/Net_Sock.thy ===== *)
theory Net_Sock
  imports Net_Tcp
begin

text \<open>
  The interface between the TCP sockets and the servers on top of them. A server reaches its socket through the functions
  \<open>recv\<close>, \<open>send\<close>, \<open>listen\<close> and \<open>close\<close> of \<^verbatim>\<open>struct uhttp_instance_sock_funcs\<close>; the defaults are the functions of
  \<^verbatim>\<open>net/tcpip/src/tcp_sock.c\<close>. A function works on the state \<open>'w\<close> of the connection and of what runs beside it: it
  does not return within the bound on its yields (\<open>None\<close>), faults, or returns a value.

  The locale \<open>stream_sock\<close> has what the servers rely on: how the number that is returned and the bytes belong together.
  In \<open>wire_sock\<close> the connection also has the bytes that wait to be read and the bytes that were sent. Both are
  interpreted on the TCP socket.
\<close>

section \<open>Functions on a connection\<close>

type_synonym ('w, 'a) act = "'w \<Rightarrow> ((fault + 'a) \<times> 'w) option"

definition aret :: "'a \<Rightarrow> ('w, 'a) act" where
  "aret x w = Some (Inr x, w)"

definition afail :: "fault \<Rightarrow> ('w, 'a) act" where
  "afail e w = Some (Inl e, w)"

definition abind :: "('w, 'a) act \<Rightarrow> ('a \<Rightarrow> ('w, 'b) act) \<Rightarrow> ('w, 'b) act" where
  "abind m f w = (case m w of None \<Rightarrow> None | Some (Inl e, w') \<Rightarrow> Some (Inl e, w') | Some (Inr x, w') \<Rightarrow> f x w')"

definition alift :: "fault + 'a \<Rightarrow> ('w, 'a) act" where
  "alift r = (case r of Inl e \<Rightarrow> afail e | Inr x \<Rightarrow> aret x)"

definition aget :: "('w \<Rightarrow> 'a) \<Rightarrow> ('w, 'a) act" where
  "aget f w = Some (Inr (f w), w)"

lemma abind_aget [simp]: "abind (aget f) g w = g (f w) w"
  by (simp add: abind_def aget_def)

lemma abind_simps [simp]:
  "abind (aret x) f = f x" "abind (afail e) f = afail e" "abind (alift (Inl e)) f = afail e" "abind (alift (Inr x)) f = f x"
  "alift (Inr x) = aret x" "alift (Inl e) = afail e"
  by (simp_all add: abind_def aret_def afail_def alift_def fun_eq_iff)

lemma abind_Some:
  "abind m f w = Some (Inr y, w') \<longleftrightarrow> (\<exists>x v. m w = Some (Inr x, v) \<and> f x v = Some (Inr y, w'))"
  by (auto simp: abind_def split: option.splits sum.splits prod.splits)

lemma aret_Some [simp]: "aret x w = Some (Inr y, w') \<longleftrightarrow> x = y \<and> w = w'" "aret x w \<noteq> Some (Inl e, w')"
  by (auto simp: aret_def)

lemma afail_Some [simp]: "afail e w \<noteq> Some (Inr y, w')" "afail e w = Some (Inl e', w') \<longleftrightarrow> e = e' \<and> w = w'"
  by (auto simp: afail_def)

record 'w sock_funcs =
  sf_recv :: "u32 \<Rightarrow> int \<Rightarrow> ('w, err_t \<times> bytes) act"
  sf_send :: "bytes \<Rightarrow> u32 \<Rightarrow> int \<Rightarrow> ('w, err_t) act"
  sf_listen :: "u16 \<Rightarrow> ('w, err_t) act"
  sf_close :: "('w, err_t) act"

text \<open>\<open>UHTTPSrv_Recv\<close>, \<open>UHTTPSrv_Send\<close>, \<open>UHTTPSrv_Listen\<close> and \<open>UHTTPSrv_Close\<close> of \<^verbatim>\<open>net/uhttpsrv/src/uhttpsrv.c\<close>.\<close>

definition UHTTPSrv_Recv :: "nat \<Rightarrow> (nat \<Rightarrow> tcp_world \<Rightarrow> tcp_world) \<Rightarrow> u32 \<Rightarrow> int \<Rightarrow> (tcp_world, err_t \<times> bytes) act" where
  "UHTTPSrv_Recv fuel env bsz timeout = TCPIPTcpSock_Recv fuel env bsz timeout"

definition UHTTPSrv_Send :: "nat \<Rightarrow> (nat \<Rightarrow> tcp_world \<Rightarrow> tcp_world) \<Rightarrow> bytes \<Rightarrow> u32 \<Rightarrow> int \<Rightarrow> (tcp_world, err_t) act" where
  "UHTTPSrv_Send fuel env ptr bsz timeout = TCPIPTcpSock_Send fuel env ptr bsz timeout"

definition UHTTPSrv_Listen :: "nat \<Rightarrow> (nat \<Rightarrow> tcp_world \<Rightarrow> tcp_world) \<Rightarrow> u16 \<Rightarrow> (tcp_world, err_t) act" where
  "UHTTPSrv_Listen fuel env port w = map_option (apfst Inr) (TCPIPTcpSock_Listen fuel env port 0 w)"

definition UHTTPSrv_Close :: "nat \<Rightarrow> (nat \<Rightarrow> tcp_world \<Rightarrow> tcp_world) \<Rightarrow> (tcp_world, err_t) act" where
  "UHTTPSrv_Close fuel env w = map_option (apfst Inr) (TCPIPTcpSock_Close fuel env 0 w)"

definition tcp_funcs :: "nat \<Rightarrow> (nat \<Rightarrow> tcp_world \<Rightarrow> tcp_world) \<Rightarrow> tcp_world sock_funcs" where
  "tcp_funcs fuel env = \<lparr>sf_recv = UHTTPSrv_Recv fuel env, sf_send = UHTTPSrv_Send fuel env,
     sf_listen = UHTTPSrv_Listen fuel env, sf_close = UHTTPSrv_Close fuel env\<rparr>"

section \<open>Contracts\<close>

locale stream_sock =
  fixes sf :: "'w sock_funcs"
    and ok :: "'w \<Rightarrow> bool"
  assumes recv_ok: "ok w \<Longrightarrow> sf_recv sf n t w = Some (Inr (ec, d), w') \<Longrightarrow> ok w'"
    and recv_data: "ok w \<Longrightarrow> sf_recv sf n t w = Some (Inr (ec, d), w') \<Longrightarrow> 0 \<le> ec \<Longrightarrow>
      ec = int (length d) \<and> length d \<le> unat n \<and> (0 < n \<longrightarrow> d \<noteq> [])"
    and recv_none: "ok w \<Longrightarrow> sf_recv sf n t w = Some (Inr (ec, d), w') \<Longrightarrow> ec < 0 \<Longrightarrow> d = []"
    and recv_safe: "ok w \<Longrightarrow> sf_recv sf n t w \<noteq> Some (Inl e, w')"
    and send_safe: "ok w \<Longrightarrow> unat n \<le> length p \<Longrightarrow> sf_send sf p n t w \<noteq> Some (Inl e, w')"
    and send_ok: "ok w \<Longrightarrow> unat n \<le> length p \<Longrightarrow> sf_send sf p n t w = Some (Inr ec, w') \<Longrightarrow> ok w'"
    and send_all: "ok w \<Longrightarrow> unat n \<le> length p \<Longrightarrow> sf_send sf p n t w = Some (Inr ec, w') \<Longrightarrow> 0 \<le> ec \<Longrightarrow> ec = int (unat n)"

text \<open>
  A connection with the bytes \<open>inp\<close> that have arrived, the bytes \<open>outp\<close> that were accepted for sending, and room for at
  least \<open>room\<close> more. What has arrived is delivered at once.
\<close>

locale wire_sock = stream_sock sf ok
  for sf :: "'w sock_funcs" and ok :: "'w \<Rightarrow> bool" +
  fixes inp outp :: "'w \<Rightarrow> bytes"
    and room :: "'w \<Rightarrow> nat"
  assumes recv_inp: "ok w \<Longrightarrow> sf_recv sf n t w = Some (Inr (ec, d), w') \<Longrightarrow>
      inp w = d @ inp w' \<and> outp w' = outp w \<and> room w' = room w"
    and recv_now: "ok w \<Longrightarrow> inp w \<noteq> [] \<Longrightarrow> 0 < n \<Longrightarrow>
      \<exists>w'. sf_recv sf n t w = Some (Inr (int (min (unat n) (length (inp w))), take (unat n) (inp w)), w')"
    and recv_empty: "ok w \<Longrightarrow> \<exists>w'. sf_recv sf 0 0 w = Some (Inr (0, []), w')"
    and send_outp: "ok w \<Longrightarrow> unat n \<le> length p \<Longrightarrow> sf_send sf p n t w = Some (Inr ec, w') \<Longrightarrow> 0 \<le> ec \<Longrightarrow>
      outp w' = outp w @ take (unat n) p \<and> inp w' = inp w \<and> room w \<le> room w' + unat n"
    and send_err: "ok w \<Longrightarrow> unat n \<le> length p \<Longrightarrow> sf_send sf p n t w = Some (Inr ec, w') \<Longrightarrow> ec < 0 \<Longrightarrow> outp w' = outp w"
    and send_now: "ok w \<Longrightarrow> unat n \<le> length p \<Longrightarrow> unat n \<le> room w \<Longrightarrow> 0 \<le> t \<Longrightarrow>
      \<exists>w'. sf_send sf p n t w = Some (Inr (int (unat n)), w')"


section \<open>Runs without faults\<close>

text \<open>\<open>runs m w Q\<close>: the function does not fault, and what it returns has the property \<open>Q\<close>.\<close>

definition runs :: "('w, 'a) act \<Rightarrow> 'w \<Rightarrow> ('a \<Rightarrow> 'w \<Rightarrow> bool) \<Rightarrow> bool" where
  "runs m w Q \<longleftrightarrow> (\<forall>r w'. m w = Some (r, w') \<longrightarrow> (\<exists>x. r = Inr x \<and> Q x w'))"

named_theorems runs_intros \<open>rules by which a function runs\<close>

lemma runs_ret [runs_intros]: "Q x w \<Longrightarrow> runs (aret x) w Q"
  by (simp add: runs_def aret_def)

lemma runs_get [runs_intros]: "Q (f w) w \<Longrightarrow> runs (aget f) w Q"
  by (simp add: runs_def aget_def)

lemma runs_bind [runs_intros]: "runs m w (\<lambda>x w'. runs (f x) w' Q) \<Longrightarrow> runs (abind m f) w Q"
  by (fastforce simp: runs_def abind_def split: option.splits sum.splits prod.splits)

lemma runs_alift: "r = Inr x \<Longrightarrow> Q x w \<Longrightarrow> runs (alift r) w Q"
  by (simp add: runs_ret)

lemma runs_none [runs_intros]: "runs (\<lambda>w. None) w Q"
  by (simp add: runs_def)

lemma runs_mono: "runs m w P \<Longrightarrow> (\<And>x w'. P x w' \<Longrightarrow> Q x w') \<Longrightarrow> runs m w Q"
  by (fastforce simp: runs_def)

lemma runs_if [runs_intros]: "(b \<Longrightarrow> runs m w Q) \<Longrightarrow> (\<not> b \<Longrightarrow> runs m' w Q) \<Longrightarrow> runs (if b then m else m') w Q"
  by simp

lemma runs_D: "runs m w Q \<Longrightarrow> m w = Some (r, w') \<Longrightarrow> \<exists>x. r = Inr x \<and> Q x w'"
  by (simp add: runs_def)

lemma runs_pair: "runs (case p of (a, b) \<Rightarrow> f a b) w Q \<longleftrightarrow> runs (f (fst p) (snd p)) w Q"
  by (cases p) simp

context stream_sock begin

lemma runs_recv:
  assumes "ok w"
    and "\<And>ec d w'. ok w' \<Longrightarrow> ec < 0 \<and> d = [] \<or> ec = int (length d) \<and> length d \<le> unat n \<Longrightarrow> Q (ec, d) w'"
  shows "runs (sf_recv sf n t) w Q"
proof -
  have "Q (ec, d) w'" if "sf_recv sf n t w = Some (Inr (ec, d), w')" for ec d w'
    using assms(2) recv_ok [OF assms(1) that] recv_data [OF assms(1) that] recv_none [OF assms(1) that] by (cases "0 \<le> ec") auto
  then show ?thesis using recv_safe [OF assms(1), of n t] unfolding runs_def by (metis old.sum.exhaust surj_pair)
qed

lemma runs_send:
  assumes "ok w" "unat n \<le> length p" "\<And>ec w'. ok w' \<Longrightarrow> ec < 0 \<or> ec = int (unat n) \<Longrightarrow> Q ec w'"
  shows "runs (sf_send sf p n t) w Q"
proof -
  have "Q ec w'" if "sf_send sf p n t w = Some (Inr ec, w')" for ec w'
    using assms(3) send_ok [OF assms(1,2) that] send_all [OF assms(1,2) that] by (cases "0 \<le> ec") auto
  then show ?thesis using send_safe [OF assms(1,2), of t] unfolding runs_def by (metis old.sum.exhaust)
qed

end

section \<open>The TCP socket\<close>

definition tcp_ok :: "tcp_world \<Rightarrow> bool" where
  "tcp_ok w \<longleftrightarrow> byte_q (rxq (tw_sock w)) \<and> byte_q (txq (tw_sock w))"

lemma prefix_of_min: "length d = min n (length xs) \<Longrightarrow> xs = d @ r \<Longrightarrow> d = take n xs \<and> r = drop n xs"
  by (auto simp: min_def split: if_splits)

lemma byte_q_get_ex:
  assumes "byte_q q"
  obtains r d q' where "Queue_Get q n = Inr (r, d, q')" "byte_q q'" "unat r = min (unat n) (length (q_bytes q))"
    "d = take (unat n) (q_bytes q)" "q_bytes q' = drop (unat n) (q_bytes q)" "length d = unat r"
proof -
  obtain r d q' where g: "Queue_Get q n = Inr (r, d, q')" "q_ok q'" "sz q' = 1" "unat r = min (unat n) (used q)"
    "length d = unat r" "q_bytes q = d @ q_bytes q'"
    using Queue_Get_bytes [of q 1 n] assms by (auto simp: byte_q_def)
  have "length d = min (unat n) (length (q_bytes q))" using g(4,5) byte_q_length [OF assms] by simp
  from prefix_of_min [OF this g(6)] have "d = take (unat n) (q_bytes q)" "q_bytes q' = drop (unat n) (q_bytes q)" by blast+
  moreover have "byte_q q'" using g(2,3) by (simp add: byte_q_def)
  moreover have "unat r = min (unat n) (length (q_bytes q))" using g(4) byte_q_length [OF assms] by simp
  ultimately show thesis using that [OF g(1)] g(5) by blast
qed

lemma byte_q_put_ex:
  assumes "byte_q q" "unat n \<le> length src"
  obtains b q' where "Queue_Put q src n = Inr (b, q')" "byte_q q'" "unat b = min (unat n) (cap q - used q)"
    "q_bytes q' = q_bytes q @ take (unat b) src" "cap q' = cap q"
proof -
  have wf: "q_wf q" using assms(1) by (simp add: byte_q_def q_ok_def)
  obtain b q' where p: "Queue_Put q src n = Inr (b, q')" "q_ok q'" "sz q' = 1" "unat b = min (unat n) (cap q - used q)"
    "q_bytes q' = q_bytes q @ take (unat b) src"
    using Queue_Put_bytes [of q 1 n src] assms unat_GetFree [OF wf] by (auto simp: byte_q_def)
  moreover have "cap q' = cap q" using p(1) by (auto simp: Queue_Put_def bind_res_eq_Inr Let_def split: if_splits)
  ultimately show thesis using that [of b q'] by (simp add: byte_q_def)
qed

text \<open>One round of a receive, and of a send.\<close>

lemma Recv_body_cases:
  assumes "tcp_ok w"
  obtains (data) "q_bytes (rxq (tw_sock w)) \<noteq> []" "0 < bsz"
      "\<exists>q. TCPIPTcpSock_Recv_body (bsz, t, ts) l w =
         Inl (Inr (int (min (unat bsz) (length (q_bytes (rxq (tw_sock w))))), take (unat bsz) (q_bytes (rxq (tw_sock w)))),
              sock_upd (\<lambda>s. s\<lparr>rxq := q\<rparr>) w) \<and> byte_q q \<and> q_bytes q = drop (unat bsz) (q_bytes (rxq (tw_sock w)))"
  | (none) "q_bytes (rxq (tw_sock w)) = [] \<or> bsz = 0"
      "\<exists>q. byte_q q \<and> q_bytes q = q_bytes (rxq (tw_sock w)) \<and>
         (TCPIPTcpSock_Recv_body (bsz, t, ts) l w = Inr ((), sock_upd (\<lambda>s. s\<lparr>rxq := q\<rparr>) w) \<and> bsz \<noteq> 0 \<or>
          (\<exists>ec. TCPIPTcpSock_Recv_body (bsz, t, ts) l w = Inl (Inr (ec, []), sock_upd (\<lambda>s. s\<lparr>rxq := q\<rparr>) w) \<and>
             (ec < 0 \<or> ec = 0 \<and> bsz = 0)))"
proof -
  obtain r d q where g: "Queue_Get (rxq (tw_sock w)) bsz = Inr (r, d, q)" "byte_q q"
    "unat r = min (unat bsz) (length (q_bytes (rxq (tw_sock w))))" "d = take (unat bsz) (q_bytes (rxq (tw_sock w)))"
    "q_bytes q = drop (unat bsz) (q_bytes (rxq (tw_sock w)))" "length d = unat r"
    using byte_q_get_ex [of "rxq (tw_sock w)" bsz] assms by (auto simp: tcp_ok_def)
  have r0: "r = 0 \<longleftrightarrow> q_bytes (rxq (tw_sock w)) = [] \<or> bsz = 0"
    using g(3) by (auto simp: min_def unat_eq_zero split: if_splits)
  show thesis
  proof (cases "r = 0")
    case True
    then show ?thesis using g r0
      by (intro none) (auto simp: TCPIPTcpSock_Recv_body_def Let_def ETIMEOUT_def ENOCONNECT_def intro!: exI [of _ q])
  next
    case False
    then show ?thesis using g r0
      by (intro data) (auto simp: TCPIPTcpSock_Recv_body_def Let_def word_gt_0 intro!: exI [of _ q])
  qed
qed

lemma tcp_ok_upd [simp]:
  "tcp_ok w \<Longrightarrow> byte_q q \<Longrightarrow> tcp_ok (sock_upd (\<lambda>s. s\<lparr>rxq := q\<rparr>) w)"
  "tcp_ok w \<Longrightarrow> byte_q q \<Longrightarrow> tcp_ok (sock_upd (\<lambda>s. s\<lparr>txq := q\<rparr>) w)"
  by (simp_all add: tcp_ok_def sock_upd_def)

lemma Send_body_cases:
  assumes "tcp_ok w" "unat n \<le> length p" "unat l \<le> unat n"
  obtains (err) ec where "TCPIPTcpSock_Send_body (p, n, t, ts) l w = Inl (Inr ec, w)" "ec < 0"
      "t \<noteq> 0 \<and> dtime (tw_now w) ts > t \<or> tw_state w \<noteq> TCPIP_TCP_SOCK_STATE_ESTABLISHED"
  | (stored) b q where "byte_q q" "q_bytes q = q_bytes (txq (tw_sock w)) @ take (unat b) (drop (unat l) p)"
      "unat b = min (unat n - unat l) (cap (txq (tw_sock w)) - used (txq (tw_sock w)))" "cap q = cap (txq (tw_sock w))"
      "unat (l + b) = unat l + unat b" "unat l + unat b \<le> unat n"
      "TCPIPTcpSock_Send_body (p, n, t, ts) l w =
        (if l + b \<noteq> n then Inr (l + b, sock_upd (\<lambda>s. s\<lparr>txq := q\<rparr>) w) else Inl (Inr (int (unat n)), sock_upd (\<lambda>s. s\<lparr>txq := q\<rparr>) w))"
proof (cases "t \<noteq> 0 \<and> dtime (tw_now w) ts > t \<or> tw_state w \<noteq> TCPIP_TCP_SOCK_STATE_ESTABLISHED")
  case True
  then show thesis
    by (intro err [of "if t \<noteq> 0 \<and> dtime (tw_now w) ts > t then ETIMEOUT else ENOCONNECT"])
      (auto simp: TCPIPTcpSock_Send_body_def ETIMEOUT_def ENOCONNECT_def)
next
  case False
  have u: "unat (n - l) = unat n - unat l" using assms(3) by (simp add: unat_u32_sub word_le_nat_alt)
  obtain b q where q: "Queue_Put (txq (tw_sock w)) (drop (unat l) p) (n - l) = Inr (b, q)" "byte_q q"
    "unat b = min (unat (n - l)) (cap (txq (tw_sock w)) - used (txq (tw_sock w)))"
    "q_bytes q = q_bytes (txq (tw_sock w)) @ take (unat b) (drop (unat l) p)" "cap q = cap (txq (tw_sock w))"
  proof (rule byte_q_put_ex [of "txq (tw_sock w)" "n - l" "drop (unat l) p"])
    show "byte_q (txq (tw_sock w))" using assms(1) by (simp add: tcp_ok_def)
    show "unat (n - l) \<le> length (drop (unat l) p)" using assms(2) u by simp
  qed
  have le: "unat l + unat b \<le> unat n" using q(3) u assms(3) by simp
  then have s: "unat (l + b) = unat l + unat b" using unat_u32_less [of n] by (intro unat_u32_add) linarith
  show thesis by (rule stored [OF q(2,4) q(3) [unfolded u] q(5) s le]) (use False q(1) in \<open>auto simp: TCPIPTcpSock_Send_body_def Let_def\<close>)
qed

text \<open>A connection on which whatever runs beside the task keeps the queues of the socket well formed.\<close>

locale tcp_conn =
  fixes fuel :: nat
    and env :: "nat \<Rightarrow> tcp_world \<Rightarrow> tcp_world"
  assumes env_ok: "tcp_ok w \<Longrightarrow> tcp_ok (env k w)"
begin

lemma recv_result:
  assumes "tcp_ok w" "TCPIPTcpSock_Recv fuel env bsz t w = Some (r, w')"
  shows "tcp_ok w' \<and> (\<exists>ec d. r = Inr (ec, d) \<and> (0 \<le> ec \<longrightarrow> ec = int (length d) \<and> length d \<le> unat bsz \<and> (0 < bsz \<longrightarrow> d \<noteq> [])) \<and>
    (ec < 0 \<longrightarrow> d = []))"
proof (rule yield_loop_invariant [OF assms(2) [unfolded TCPIPTcpSock_Recv_def], of "\<lambda>l w. tcp_ok w"])
  fix l v l' v' j
  assume v: "tcp_ok v" and "TCPIPTcpSock_Recv_body (bsz, t, tw_now w) l v = Inr (l', v')"
  then show "tcp_ok (env j v')" by (cases rule: Recv_body_cases [OF v, where bsz = bsz and t = t and ts = "tw_now w" and l = l]) (auto intro!: env_ok tcp_ok_upd)
next
  fix l v r v'
  assume v: "tcp_ok v" and "TCPIPTcpSock_Recv_body (bsz, t, tw_now w) l v = Inl (r, v')"
  then show "tcp_ok v' \<and> (\<exists>ec d. r = Inr (ec, d) \<and> (0 \<le> ec \<longrightarrow> ec = int (length d) \<and> length d \<le> unat bsz \<and> (0 < bsz \<longrightarrow> d \<noteq> [])) \<and>
      (ec < 0 \<longrightarrow> d = []))"
    by (cases rule: Recv_body_cases [OF v, where bsz = bsz and t = t and ts = "tw_now w" and l = l]) (auto simp: min.commute unat_eq_zero word_gt_0)
qed (rule assms(1))

lemma send_result:
  assumes "tcp_ok w" "unat n \<le> length p" "TCPIPTcpSock_Send fuel env p n t w = Some (r, w')"
  shows "tcp_ok w' \<and> (\<exists>ec. r = Inr ec \<and> (0 \<le> ec \<longrightarrow> ec = int (unat n)))"
proof (rule yield_loop_invariant [OF assms(3) [unfolded TCPIPTcpSock_Send_def], of "\<lambda>l w. tcp_ok w \<and> unat l \<le> unat n"])
  fix l v l' v' j
  assume "tcp_ok v \<and> unat l \<le> unat n" "TCPIPTcpSock_Send_body (p, n, t, tw_now w) l v = Inr (l', v')"
  moreover from this have v: "tcp_ok v" "unat l \<le> unat n" by simp_all
  ultimately show "tcp_ok (env j v') \<and> unat l' \<le> unat n"
    by (cases rule: Send_body_cases [OF v(1) assms(2) v(2), where t = t and ts = "tw_now w"]) (auto intro: env_ok split: if_splits)
next
  fix l v r v'
  assume "tcp_ok v \<and> unat l \<le> unat n" "TCPIPTcpSock_Send_body (p, n, t, tw_now w) l v = Inl (r, v')"
  moreover from this have v: "tcp_ok v" "unat l \<le> unat n" by simp_all
  ultimately show "tcp_ok v' \<and> (\<exists>ec. r = Inr ec \<and> (0 \<le> ec \<longrightarrow> ec = int (unat n)))"
    by (cases rule: Send_body_cases [OF v(1) assms(2) v(2), where t = t and ts = "tw_now w"]) (auto split: if_splits)
qed (use assms(1) in simp)

end

sublocale tcp_conn \<subseteq> stream_sock "tcp_funcs fuel env" tcp_ok
proof (unfold_locales, goal_cases)
  case (1 w n t ec d w') then show ?case using recv_result [of w n t "Inr (ec, d)" w'] by (simp add: tcp_funcs_def UHTTPSrv_Recv_def)
next
  case (2 w n t ec d w') then show ?case using recv_result [of w n t "Inr (ec, d)" w'] by (simp add: tcp_funcs_def UHTTPSrv_Recv_def)
next
  case (3 w n t ec d w') then show ?case using recv_result [of w n t "Inr (ec, d)" w'] by (simp add: tcp_funcs_def UHTTPSrv_Recv_def)
next
  case (4 w n t e w') then show ?case using recv_result [of w n t "Inl e" w'] by (auto simp: tcp_funcs_def UHTTPSrv_Recv_def)
next
  case (5 w n p t e w') then show ?case using send_result [of w n p t "Inl e" w'] by (auto simp: tcp_funcs_def UHTTPSrv_Send_def)
next
  case (6 w n p t ec w') then show ?case using send_result [of w n p t "Inr ec" w'] by (simp add: tcp_funcs_def UHTTPSrv_Send_def)
next
  case (7 w n p t ec w') then show ?case using send_result [of w n p t "Inr ec" w'] by (simp add: tcp_funcs_def UHTTPSrv_Send_def)
qed

text \<open>An established connection while the task does not yield.\<close>

definition tcp_up :: "tcp_world \<Rightarrow> bool" where
  "tcp_up w \<longleftrightarrow> tcp_ok w \<and> tw_state w = TCPIP_TCP_SOCK_STATE_ESTABLISHED"

abbreviation sock_in :: "tcp_world \<Rightarrow> bytes" where "sock_in w \<equiv> q_bytes (rxq (tw_sock w))"
abbreviation sock_out :: "tcp_world \<Rightarrow> bytes" where "sock_out w \<equiv> q_bytes (txq (tw_sock w))"
abbreviation sock_room :: "tcp_world \<Rightarrow> nat" where "sock_room w \<equiv> cap (txq (tw_sock w)) - used (txq (tw_sock w))"

lemma recv_round:
  assumes "tcp_up w" "sf_recv (tcp_funcs 0 env) n t w = Some (r, w')"
  shows "\<exists>ec d. r = Inr (ec, d) \<and> tcp_up w' \<and> sock_in w = d @ sock_in w' \<and> txq (tw_sock w') = txq (tw_sock w) \<and>
    (0 \<le> ec \<longrightarrow> ec = int (length d) \<and> length d \<le> unat n \<and> (0 < n \<longrightarrow> d \<noteq> [])) \<and> (ec < 0 \<longrightarrow> d = [])"
proof -
  have ok: "tcp_ok w" using assms(1) by (simp add: tcp_up_def)
  from assms show ?thesis
    by (cases rule: Recv_body_cases [OF ok, where bsz = n and t = t and ts = "tw_now w" and l = "()"])
      (auto simp: tcp_funcs_def UHTTPSrv_Recv_def TCPIPTcpSock_Recv_def tcp_up_def sock_upd_def tcp_ok_def word_gt_0
        unat_eq_zero split: sum.splits)
qed

lemma send_round:
  assumes "tcp_up w" "unat n \<le> length p" "sf_send (tcp_funcs 0 env) p n t w = Some (r, w')"
  shows "\<exists>ec. r = Inr ec \<and> tcp_up w' \<and> sock_in w' = sock_in w \<and> (ec < 0 \<longrightarrow> w' = w) \<and>
    (0 \<le> ec \<longrightarrow> ec = int (unat n) \<and> sock_out w' = sock_out w @ take (unat n) p \<and> sock_room w \<le> sock_room w' + unat n)"
proof -
  have ok: "tcp_ok w" using assms(1) by (simp add: tcp_up_def)
  have z: "unat (0 :: u32) \<le> unat n" by simp
  from ok assms(2) z show ?thesis
  proof (cases rule: Send_body_cases [where t = t and ts = "tw_now w"])
    case (err ec)
    then show ?thesis using assms by (intro exI [of _ ec]) (auto simp: tcp_funcs_def UHTTPSrv_Send_def TCPIPTcpSock_Send_def)
  next
    case (stored b q)
    have b: "b = n" and r: "r = Inr (int (unat n))" "w' = sock_upd (\<lambda>s. s\<lparr>txq := q\<rparr>) w"
      using stored(7) assms(3)
      by (auto simp: tcp_funcs_def UHTTPSrv_Send_def TCPIPTcpSock_Send_def split: if_splits)
    have "length (q_bytes q) = used q" "length (sock_out w) = used (txq (tw_sock w))"
      using stored(1) ok by (auto simp: tcp_ok_def byte_q_length)
    then have "cap q - used q + unat n = sock_room w"
      using stored(2-4) assms(2) b by simp
    then show ?thesis using r stored(1,2) b assms(1) by (simp add: tcp_up_def sock_upd_def tcp_ok_def)
  qed
qed

interpretation tcp_wire: wire_sock "tcp_funcs 0 env" tcp_up sock_in sock_out sock_room for env
proof (unfold_locales, goal_cases)
  case (1 w n t ec d w') then show ?case using recv_round [of w env n t] by blast
next
  case (2 w n t ec d w') then show ?case using recv_round [of w env n t] by blast
next
  case (3 w n t ec d w') then show ?case using recv_round [of w env n t] by blast
next
  case (4 w n t e w') then show ?case using recv_round [of w env n t "Inl e" w'] by blast
next
  case (5 w n p t e w') then show ?case using send_round [of w n p env t "Inl e" w'] by blast
next
  case (6 w n p t ec w') then show ?case using send_round [of w n p env t] by blast
next
  case (7 w n p t ec w') then show ?case using send_round [of w n p env t] by blast
next
  case (8 w n t ec d w') then show ?case using recv_round [of w env n t] by fastforce
next
  case (9 w n t)
  then have ok: "tcp_ok w" by (simp add: tcp_up_def)
  from 9 show ?case
    by (cases rule: Recv_body_cases [OF ok, where bsz = n and t = t and ts = "tw_now w" and l = "()"])
      (auto simp: tcp_funcs_def UHTTPSrv_Recv_def TCPIPTcpSock_Recv_def)
next
  case (10 w)
  then have ok: "tcp_ok w" by (simp add: tcp_up_def)
  from 10 show ?case
    by (cases rule: Recv_body_cases [OF ok, where bsz = 0 and t = 0 and ts = "tw_now w" and l = "()"])
      (auto simp: tcp_funcs_def UHTTPSrv_Recv_def TCPIPTcpSock_Recv_def TCPIPTcpSock_Recv_body_def Let_def tcp_up_def split: sum.splits)
next
  case (11 w n p t ec w') then show ?case using send_round [of w n p env t] by blast
next
  case (12 w n p t ec w') then show ?case using send_round [of w n p env t] by fastforce
next
  case (13 w n p t)
  then have ok: "tcp_ok w" by (simp add: tcp_up_def)
  have z: "unat (0 :: u32) \<le> unat n" by simp
  from ok 13(2) z show ?case
  proof (cases rule: Send_body_cases [where t = t and ts = "tw_now w"])
    case (err ec)
    then show ?thesis using 13 by (auto simp: tcp_up_def)
  next
    case (stored b q)
    have "b = n" using stored(3) 13(3) by (simp add: word_unat_eq_iff)
    then show ?thesis using stored(7) by (simp add: tcp_funcs_def UHTTPSrv_Send_def TCPIPTcpSock_Send_def)
  qed
qed

text \<open>The stack beside the task: segments, each with its size inside the received frame, arrive while the task yields.\<close>

definition stack_env :: "(nat \<Rightarrow> u32 \<times> u32 \<times> tcp_seg) \<Rightarrow> nat \<Rightarrow> tcp_world \<Rightarrow> tcp_world" where
  "stack_env arrive k w =
     (case arrive k of (now, rnd, g) \<Rightarrow>
        if unat (seg_size g) \<le> length (seg_mem g)
        then (case TCPIPTcpSock_ProcessIncoming now rnd g (tw_sock w) of
                Inl e \<Rightarrow> w
              | Inr (ec, s) \<Rightarrow> \<lparr>tw_now = now, tw_sock = s\<rparr>)
        else w)"

definition queues_ok :: "tcp_sock \<Rightarrow> bool" where
  "queues_ok s \<longleftrightarrow> byte_q (rxq s) \<and> byte_q (txq s)"

lemma in_data_ok: "queues_ok s \<Longrightarrow> unat (seg_size g) \<le> length (seg_mem g) \<Longrightarrow> in_data g s = Inr s' \<Longrightarrow> queues_ok s'"
  by (auto simp: queues_ok_def in_data_def Let_def bind_res_eq_Inr dest!: byte_q_put [rotated 2] split: if_splits)

lemma in_parts_ok:
  "queues_ok s \<Longrightarrow> queues_ok (in_rst g s)" "queues_ok s \<Longrightarrow> queues_ok (in_fin now g s)" "queues_ok s \<Longrightarrow> queues_ok (in_acked g s)"
  "queues_ok s \<Longrightarrow> in_syn now rnd g s = Inl s' \<Longrightarrow> queues_ok s'" "queues_ok s \<Longrightarrow> in_syn now rnd g s = Inr s' \<Longrightarrow> queues_ok s'"
  by (auto simp: queues_ok_def in_rst_def in_fin_def in_acked_def in_syn_def Let_def byte_q_drop_any split: if_splits)

lemma in_ack_ok:
  assumes "queues_ok s" "unat (seg_size g) \<le> length (seg_mem g)" "in_ack g s = Inr r"
  shows "case r of Inl s' \<Rightarrow> queues_ok s' | Inr s' \<Rightarrow> queues_ok s'"
proof -
  have q: "queues_ok (s\<lparr>state := a, loc_link := b, rem_link := c\<rparr>)" "queues_ok (s\<lparr>state := a, loc_link := b\<rparr>)"
    "queues_ok (s\<lparr>loc_link := b, state := a\<rparr>)" "queues_ok (s\<lparr>loc_link := b\<rparr>)" for a b c
    using assms(1) by (simp_all add: queues_ok_def)
  show ?thesis
    using assms q by (auto simp: in_ack_def Let_def bind_res_eq_Inr intro!: in_parts_ok(3) dest: in_data_ok [rotated 2] split: if_splits)
qed

lemma ProcessIncoming_queues:
  assumes "queues_ok s" "unat (seg_size g) \<le> length (seg_mem g)" "TCPIPTcpSock_ProcessIncoming now rnd g s = Inr (ec, s')"
  shows "queues_ok s'"
proof (cases "in_syn now rnd g (in_rst g s)")
  case (Inl s1)
  with assms show ?thesis using in_parts_ok(4) [OF in_parts_ok(1) [OF assms(1)] Inl]
    by (auto simp: TCPIPTcpSock_ProcessIncoming_def split: if_splits)
next
  case (Inr s1)
  have s1: "queues_ok s1" using in_parts_ok(5) [OF in_parts_ok(1) [OF assms(1)] Inr] .
  show ?thesis
  proof (cases "in_ack g s1")
    case (Inr r)
    with in_ack_ok [OF s1 assms(2) Inr] assms \<open>in_syn now rnd g (in_rst g s) = Inr s1\<close> show ?thesis
      using in_parts_ok(2) by (cases r) (auto simp: TCPIPTcpSock_ProcessIncoming_def queues_ok_def split: if_splits)
  qed (use assms Inr in \<open>auto simp: TCPIPTcpSock_ProcessIncoming_def split: if_splits\<close>)
qed

interpretation tcp_live: tcp_conn fuel "stack_env arrive" for fuel arrive
proof
  fix w k
  obtain now rnd g where a: "arrive k = (now, rnd, g)" by (cases "arrive k") auto
  assume "tcp_ok w"
  then show "tcp_ok (stack_env arrive k w)"
    using ProcessIncoming_queues [of "tw_sock w" g now rnd] a
    by (auto simp: stack_env_def tcp_ok_def queues_ok_def split: sum.splits prod.splits)
qed

section \<open>Example\<close>

text \<open>A connection with queues of 256 bytes, as the servers make it, in which the bytes \<open>d\<close> have arrived.\<close>

definition filled :: "bytes \<Rightarrow> queue_t" where
  "filled d = \<lparr>q_size = 1, q_count = 256, q_ptr = d @ replicate (256 - length d) 0, q_head = of_nat (length d), q_tail = 0\<rparr>"

definition demo_tcp :: "bytes \<Rightarrow> tcp_world" where
  "demo_tcp d = \<lparr>tw_now = 0, tw_sock = demo_sock (filled d) (filled []) 7 50 50\<rparr>"

lemma filled_simps:
  assumes "length d \<le> 256"
  shows "used (filled d) = length d" "byte_q (filled d)" "q_bytes (filled d) = d" "cap (filled d) = 256"
proof -
  show u: "used (filled d) = length d" using assms by (simp add: filled_def Queue_GetUsed_def unat_of_nat take_bit_nat_eq_self)
  then show "byte_q (filled d)" using assms
    by (simp add: byte_q_def q_ok_def q_wf_def) (simp add: filled_def unat_of_nat take_bit_nat_eq_self)
  show "cap (filled d) = 256" by (simp add: filled_def)
  have "q_items (filled d) = map (\<lambda>i. [d ! i]) [0..<length d]"
    using assms u by (auto simp: q_items_def slot_def) (auto simp: filled_def take_Suc nth_append hd_drop_conv_nth)
  then show "q_bytes (filled d) = d" by (simp add: q_bytes_def concat_map_singleton map_nth)
qed

lemma demo_tcp_up:
  assumes "length d \<le> 256"
  shows "tcp_up (demo_tcp d)" "sock_in (demo_tcp d) = d" "sock_out (demo_tcp d) = []" "sock_room (demo_tcp d) = 256"
  using filled_simps [OF assms] filled_simps [of "[]"] by (simp_all add: tcp_up_def tcp_ok_def demo_tcp_def demo_sock_def)
end
