(* ===== verification/Net_Http.thy ===== *)
theory Net_Http
  imports Net_Sock Util_Scan
begin

text \<open>
  The HTTP server, \<^verbatim>\<open>net/uhttpsrv/src/uhttpsrv.c\<close> and \<^verbatim>\<open>net/uhttpsrv/uhttpsrv.h\<close>: the tables of methods, versions,
  fields and status codes, the parser of the request line and of a field line, the functions with which a callback reads
  the request and sends the response, and the serving of a connection. A request is the record \<open>uhttp_request\<close>; the
  socket functions of the instance are \<open>sf\<close> and its timeout is \<open>tmo\<close>. \<open>pd\<close> and \<open>sd\<close> print and scan a floating point
  number (see \<^verbatim>\<open>Util_Print\<close> and \<^verbatim>\<open>Util_Scan\<close>).

  A request goes through its states in one direction. \<open>Http_body_complete\<close> shows that one that is done has sent as many
  bytes of body as it had announced, \<open>Http_line_read\<close> what the line reader gets from the socket.
\<close>

unbundle bit_operations_syntax

section \<open>Data\<close>

text \<open>A string literal, and the text of a string in memory.\<close>

definition ascii :: "string \<Rightarrow> bytes" where
  "ascii s = map of_char s"

definition lit :: "string \<Rightarrow> bytes" where
  "lit s = ascii s @ [0]"

definition c_text :: "bytes \<Rightarrow> fault + bytes" where
  "c_text buf = (if 0 \<in> set buf then Inr (takeWhile (\<lambda>c. c \<noteq> 0) buf) else Inl OutOfBounds)"

datatype uhttp_method =
    HTTP_METHOD_UNKNOWN | HTTP_METHOD_GET | HTTP_METHOD_HEAD | HTTP_METHOD_POST | HTTP_METHOD_PUT
  | HTTP_METHOD_DELETE | HTTP_METHOD_CONNECT | HTTP_METHOD_OPTIONS | HTTP_METHOD_TRACE | HTTP_METHOD_PATCH

datatype uhttp_version = HTTP_VER_UNKNOWN | HTTP_VER_1V0 | HTTP_VER_1V1 | HTTP_VER_2V0 | HTTP_VER_3V0

datatype uhttp_status_code =
    HTTP_STATUS_UNKNOWN | HTTP_STATUS_200_OK | HTTP_STATUS_101_SWITCHING_PROTOCOLS | HTTP_STATUS_400_BAD_REQUEST
  | HTTP_STATUS_404_NOT_FOUND | HTTP_STATUS_405_METHOD_NOT_ALLOWED | HTTP_STATUS_500_INTERNAL_SRV_ERR

datatype uhttp_field_name =
    HTTP_FIELD_NAME_UNKNOWN | HTTP_FIELD_NAME_EMPTY | HTTP_FIELD_NAME_CONTENT_LENGTH | HTTP_FIELD_NAME_SERVER
  | HTTP_FIELD_NAME_HOST | HTTP_FIELD_NAME_CONTENT_ENCODING | HTTP_FIELD_NAME_ACCEPT_ENCODING
  | HTTP_FIELD_NAME_CONNECTION | HTTP_FIELD_NAME_CONTENT_TYPE | HTTP_FIELD_NAME_ORIGIN | HTTP_FIELD_NAME_ALLOW
  | HTTP_FIELD_NAME_ACCESS_CONTROL_REQUEST_METHOD | HTTP_FIELD_NAME_ACCESS_CONTROL_REQUEST_HEADERS
  | HTTP_FIELD_NAME_ACCESS_CONTROL_ALLOW_ORIGIN | HTTP_FIELD_NAME_ACCESS_CONTROL_ALLOW_METHODS
  | HTTP_FIELD_NAME_ACCESS_CONTROL_ALLOW_HEADERS | HTTP_FIELD_NAME_UPGRADE | HTTP_FIELD_NAME_SEC_WS_KEY
  | HTTP_FIELD_NAME_SEC_WS_PROTOCOL | HTTP_FIELD_NAME_SEC_WS_VERSION | HTTP_FIELD_NAME_SEC_WS_ACCEPT

datatype uhttp_field_type = HTTP_FIELD_TYPE_INT | HTTP_FIELD_TYPE_FLOAT | HTTP_FIELD_TYPE_STR

text \<open>The bits of the fields that a request for a websocket must have, by the numbers of the fields in the enumeration.\<close>

definition HTTP_FIELD_MASK_HOST :: u32 where "HTTP_FIELD_MASK_HOST = push_bit 4 1"
definition HTTP_FIELD_MASK_CONNECTION :: u32 where "HTTP_FIELD_MASK_CONNECTION = push_bit 7 1"
definition HTTP_FIELD_MASK_UPGRADE :: u32 where "HTTP_FIELD_MASK_UPGRADE = push_bit 16 1"
definition HTTP_FIELD_MASK_SEC_WS_KEY :: u32 where "HTTP_FIELD_MASK_SEC_WS_KEY = push_bit 17 1"
definition HTTP_FIELD_MASK_SEC_WS_VERSION :: u32 where "HTTP_FIELD_MASK_SEC_WS_VERSION = push_bit 19 1"

lemmas field_masks = HTTP_FIELD_MASK_HOST_def HTTP_FIELD_MASK_CONNECTION_def HTTP_FIELD_MASK_UPGRADE_def
  HTTP_FIELD_MASK_SEC_WS_KEY_def HTTP_FIELD_MASK_SEC_WS_VERSION_def

text \<open>The value of a field: a string is a pointer into the line, here the memory from there on.\<close>

datatype 'd field_value = FV_i u32 | FV_f 'd | FV_s bytes

record 'd uhttp_field =
  uf_name :: uhttp_field_name
  uf_name_str :: bytes
  uf_name_str_len :: nat
  uf_value :: "'d field_value"

record uhttp_ws =
  ws_is_open :: bool
  ws_tx_sem :: u32
  ws_rx_sem :: u32
  ws_rx_size :: u32
  ws_rx_offs :: u32
  ws_rx_opcode :: u16
  ws_mask :: bytes

datatype uhttp_req_type = HTTP_REQ_TYPE_STANDARD | HTTP_REQ_TYPE_WEBSOCKET

datatype uhttp_state =
    HTTP_STATE_ERROR | HTTP_STATE_READ_FIELDS | HTTP_STATE_READ_BODY | HTTP_STATE_SEND_STATUS
  | HTTP_STATE_SEND_FIELDS | HTTP_STATE_SEND_BODY | HTTP_STATE_DONE

record uhttp_request =
  rq_method :: uhttp_method
  rq_url :: bytes
  rq_type :: uhttp_req_type
  rq_state :: uhttp_state
  rq_line :: bytes
  rq_line_len :: u32
  rq_body_bleft :: u32
  rq_resp_bleft :: u32
  rq_ws_fields :: u32
  rq_ws_key :: bytes
  rq_ws :: uhttp_ws

definition UHTTPSRV_MAX_LINE_LEN :: nat where "UHTTPSRV_MAX_LINE_LEN = 256"

text \<open>The functions return \<open>req->state\<close> when it is \<open>HTTP_STATE_ERROR\<close>, which is -1.\<close>

definition STATE_ERR :: err_t where "STATE_ERR = -1"

section \<open>Tables\<close>

text \<open>
  The loop over a look up table: an entry is taken by its number, or by its string. The two arguments of a look up are the
  number, with \<open>UNKNOWN\<close> for zero, and the string, or null.
\<close>

fun lut_find :: "('a \<Rightarrow> bool) \<Rightarrow> ('a \<Rightarrow> fault + bool) \<Rightarrow> 'a list \<Rightarrow> fault + 'a option" where
  "lut_find by_num by_str [] = Inr None"
| "lut_find by_num by_str (l # lut) =
     (if by_num l then Inr (Some l)
      else bind_res (by_str l) (\<lambda>hit. if hit then Inr (Some l) else lut_find by_num by_str lut))"

definition same_str :: "bytes option \<Rightarrow> bytes \<Rightarrow> fault + bool" where
  "same_str str entry = (case str of None \<Rightarrow> Inr False | Some s \<Rightarrow> bind_res (strcmp entry s) (\<lambda>c. Inr (c = 0)))"

definition prefix_str :: "bytes option \<Rightarrow> bytes \<Rightarrow> fault + bool" where
  "prefix_str str entry =
     (case str of
        None \<Rightarrow> Inr False
      | Some s \<Rightarrow> bind_res (strlen entry) (\<lambda>n. bind_res (strncicmp entry s n) (\<lambda>c. Inr (c = 0))))"

definition one_key :: "bool \<Rightarrow> bytes option \<Rightarrow> fault + 'a \<Rightarrow> fault + 'a" where
  "one_key num str r = (if num \<and> str \<noteq> None then Inl AssertFail else if \<not> num \<and> str = None then Inl AssertFail else r)"

definition method_lut :: "(uhttp_method \<times> bytes) list" where
  "method_lut = [(HTTP_METHOD_GET, lit ''GET''), (HTTP_METHOD_HEAD, lit ''HEAD''), (HTTP_METHOD_POST, lit ''POST''),
     (HTTP_METHOD_PUT, lit ''PUT''), (HTTP_METHOD_DELETE, lit ''DELETE''), (HTTP_METHOD_CONNECT, lit ''CONNECT''),
     (HTTP_METHOD_OPTIONS, lit ''OPTIONS''), (HTTP_METHOD_TRACE, lit ''TRACE''), (HTTP_METHOD_PATCH, lit ''PATCH'')]"

definition UHTTPSrv_GetMethodSpec :: "uhttp_method \<Rightarrow> bytes option \<Rightarrow> fault + (uhttp_method \<times> bytes) option" where
  "UHTTPSrv_GetMethodSpec method str =
     one_key (method \<noteq> HTTP_METHOD_UNKNOWN) str
       (lut_find (\<lambda>l. method \<noteq> HTTP_METHOD_UNKNOWN \<and> method = fst l) (\<lambda>l. same_str str (snd l)) method_lut)"

definition version_lut :: "(uhttp_version \<times> bytes) list" where
  "version_lut = [(HTTP_VER_1V0, lit ''HTTP/1.0''), (HTTP_VER_1V1, lit ''HTTP/1.1''), (HTTP_VER_2V0, lit ''HTTP/2''),
     (HTTP_VER_3V0, lit ''HTTP/3'')]"

definition UHTTPSrv_GetVersionSpec :: "uhttp_version \<Rightarrow> bytes option \<Rightarrow> fault + (uhttp_version \<times> bytes) option" where
  "UHTTPSrv_GetVersionSpec version str =
     one_key (version \<noteq> HTTP_VER_UNKNOWN) str
       (lut_find (\<lambda>l. version \<noteq> HTTP_VER_UNKNOWN \<and> version = fst l) (\<lambda>l. same_str str (snd l)) version_lut)"

definition field_lut :: "(uhttp_field_name \<times> uhttp_field_type \<times> bytes) list" where
  "field_lut =
    [(HTTP_FIELD_NAME_HOST, HTTP_FIELD_TYPE_STR, lit ''host''),
     (HTTP_FIELD_NAME_CONTENT_LENGTH, HTTP_FIELD_TYPE_INT, lit ''content-length''),
     (HTTP_FIELD_NAME_SERVER, HTTP_FIELD_TYPE_STR, lit ''server''),
     (HTTP_FIELD_NAME_ACCESS_CONTROL_ALLOW_ORIGIN, HTTP_FIELD_TYPE_STR, lit ''access-control-allow-origin''),
     (HTTP_FIELD_NAME_CONTENT_ENCODING, HTTP_FIELD_TYPE_STR, lit ''content-encoding''),
     (HTTP_FIELD_NAME_ACCEPT_ENCODING, HTTP_FIELD_TYPE_STR, lit ''accept-encoding''),
     (HTTP_FIELD_NAME_CONNECTION, HTTP_FIELD_TYPE_STR, lit ''connection''),
     (HTTP_FIELD_NAME_CONTENT_TYPE, HTTP_FIELD_TYPE_STR, lit ''content-type''),
     (HTTP_FIELD_NAME_ALLOW, HTTP_FIELD_TYPE_STR, lit ''allow''),
     (HTTP_FIELD_NAME_ORIGIN, HTTP_FIELD_TYPE_STR, lit ''origin''),
     (HTTP_FIELD_NAME_ACCESS_CONTROL_REQUEST_METHOD, HTTP_FIELD_TYPE_STR, lit ''access-control-request-method''),
     (HTTP_FIELD_NAME_ACCESS_CONTROL_REQUEST_HEADERS, HTTP_FIELD_TYPE_STR, lit ''access-control-request-headers''),
     (HTTP_FIELD_NAME_ACCESS_CONTROL_ALLOW_ORIGIN, HTTP_FIELD_TYPE_STR, lit ''access-control-allow-origin''),
     (HTTP_FIELD_NAME_ACCESS_CONTROL_ALLOW_METHODS, HTTP_FIELD_TYPE_STR, lit ''access-control-allow-methods''),
     (HTTP_FIELD_NAME_ACCESS_CONTROL_ALLOW_HEADERS, HTTP_FIELD_TYPE_STR, lit ''access-control-allow-headers''),
     (HTTP_FIELD_NAME_UPGRADE, HTTP_FIELD_TYPE_STR, lit ''Upgrade''),
     (HTTP_FIELD_NAME_SEC_WS_KEY, HTTP_FIELD_TYPE_STR, lit ''Sec-WebSocket-Key''),
     (HTTP_FIELD_NAME_SEC_WS_PROTOCOL, HTTP_FIELD_TYPE_STR, lit ''Sec-WebSocket-Protocol''),
     (HTTP_FIELD_NAME_SEC_WS_VERSION, HTTP_FIELD_TYPE_INT, lit ''Sec-WebSocket-Version''),
     (HTTP_FIELD_NAME_SEC_WS_ACCEPT, HTTP_FIELD_TYPE_STR, lit ''Sec-WebSocket-Accept'')]"

definition UHTTPSrv_GetFieldSpec ::
  "uhttp_field_name \<Rightarrow> bytes option \<Rightarrow> fault + (uhttp_field_name \<times> uhttp_field_type \<times> bytes) option" where
  "UHTTPSrv_GetFieldSpec name str =
     one_key (name \<noteq> HTTP_FIELD_NAME_UNKNOWN) str
       (lut_find (\<lambda>l. name \<noteq> HTTP_FIELD_NAME_UNKNOWN \<and> name = fst l) (\<lambda>l. prefix_str str (snd (snd l))) field_lut)"

definition status_lut :: "(uhttp_status_code \<times> u32 \<times> bytes) list" where
  "status_lut =
    [(HTTP_STATUS_200_OK, 200, lit ''OK''), (HTTP_STATUS_101_SWITCHING_PROTOCOLS, 101, lit ''Switching Protocols''),
     (HTTP_STATUS_400_BAD_REQUEST, 400, lit ''Bad Request''), (HTTP_STATUS_404_NOT_FOUND, 404, lit ''Not Found''),
     (HTTP_STATUS_405_METHOD_NOT_ALLOWED, 405, lit ''Method Not Allowed''),
     (HTTP_STATUS_500_INTERNAL_SRV_ERR, 500, lit ''Internal Server Error'')]"

definition UHTTPSrv_GetStatusCodeSpec ::
  "uhttp_status_code \<Rightarrow> bytes option \<Rightarrow> fault + (uhttp_status_code \<times> u32 \<times> bytes) option" where
  "UHTTPSrv_GetStatusCodeSpec code msg =
     one_key (code \<noteq> HTTP_STATUS_UNKNOWN) msg
       (lut_find (\<lambda>l. code \<noteq> HTTP_STATUS_UNKNOWN \<and> code = fst l) (\<lambda>l. prefix_str msg (snd (snd l))) status_lut)"


section \<open>Lines\<close>

text \<open>
  The destinations of the request line are the pointers 0, 1 and 2: the method, the URL and the version. What was stored
  is not used when the function fails.
\<close>

definition stored_str :: "nat \<Rightarrow> (nat \<times> 'd scan_val) list \<Rightarrow> fault + bytes" where
  "stored_str p st = (case map_of st p of Some (SChars cs) \<Rightarrow> Inr cs | _ \<Rightarrow> Inl Uninit)"

definition UHTTPSrv_ParseRequestLine ::
  "(bytes \<Rightarrow> u32 \<Rightarrow> bool \<Rightarrow> fs \<Rightarrow> int \<times> 'd scan_val option) \<Rightarrow> bytes \<Rightarrow> u32 \<Rightarrow> u32 \<Rightarrow>
   fault + err_t \<times> (uhttp_method \<times> bytes \<times> uhttp_version) option" where
  "UHTTPSrv_ParseRequestLine sd line line_len url_size =
     bind_res (c_text line) (\<lambda>text.
     bind_res (snscanf sd text line_len (ascii ''%.*s %.*s %.*s'')
         [SvaInt 9, SvaPtr (Some 0), SvaInt url_size, SvaPtr (Some 1), SvaInt 9, SvaPtr (Some 2)]) (\<lambda>(n, st).
     if n \<noteq> 3 then Inr (EARGVAL, None)
     else
       bind_res (stored_str 0 st) (\<lambda>method_str.
       bind_res (stored_str 1 st) (\<lambda>url.
       bind_res (stored_str 2 st) (\<lambda>version_str.
       bind_res (UHTTPSrv_GetMethodSpec HTTP_METHOD_UNKNOWN (Some method_str)) (\<lambda>m_spec.
       if m_spec = None then Inr (EFATAL, None)
       else
         bind_res (UHTTPSrv_GetVersionSpec HTTP_VER_UNKNOWN (Some version_str)) (\<lambda>v_spec.
         if m_spec = None then Inr (EFATAL, None)
         else
           case v_spec of
             None \<Rightarrow> Inl NullDeref
           | Some v \<Rightarrow> Inr (EOK, Some (fst (the m_spec), url, fst v)))))))))"

text \<open>
  The two loops over a field line, each bounded by \<open>n\<close> characters. The end \<open>line + line_len\<close> has to be inside the
  object, or one past it, for the comparisons to have a meaning.
\<close>

fun name_end :: "nat \<Rightarrow> bytes \<Rightarrow> nat" where
  "name_end 0 l = 0"
| "name_end (Suc n) [] = 0"
| "name_end (Suc n) (c # l) = (if c \<noteq> 0 \<and> c \<noteq> 58 then Suc (name_end n l) else 0)"

fun space_end :: "nat \<Rightarrow> bytes \<Rightarrow> nat" where
  "space_end 0 l = 0"
| "space_end (Suc n) [] = 0"
| "space_end (Suc n) (c # l) = (if isspace (uint c) then Suc (space_end n l) else 0)"

definition UHTTPSrv_ParseFieldLine ::
  "(bytes \<Rightarrow> u32 \<Rightarrow> bool \<Rightarrow> fs \<Rightarrow> int \<times> 'd scan_val option) \<Rightarrow> bytes \<Rightarrow> u32 \<Rightarrow> 'd uhttp_field \<Rightarrow>
   fault + err_t \<times> 'd uhttp_field" where
  "UHTTPSrv_ParseFieldLine sd line line_len field =
     (if length line < unat line_len then Inl OutOfBounds
      else
        let i = name_end (unat line_len) line in
        if length line \<le> i then Inl OutOfBounds
        else if line ! i \<noteq> 58 then Inr (EFATAL, field)
        else
          let v = Suc i + space_end (unat line_len - Suc i) (drop (Suc i) line);
              vsize = line_len - of_nat v;
              field = field\<lparr>uf_name := HTTP_FIELD_NAME_UNKNOWN, uf_name_str := line, uf_name_str_len := i\<rparr>
          in
          bind_res (UHTTPSrv_GetFieldSpec HTTP_FIELD_NAME_UNKNOWN (Some line)) (\<lambda>fs.
          case fs of
            None \<Rightarrow> Inr (EOK, field\<lparr>uf_value := FV_s (drop v line)\<rparr>)
          | Some (name, ty, str) \<Rightarrow>
              (case ty of
                 HTTP_FIELD_TYPE_STR \<Rightarrow> Inr (EOK, field\<lparr>uf_name := name, uf_value := FV_s (drop v line)\<rparr>)
               | _ \<Rightarrow>
                   bind_res (c_text (drop v line)) (\<lambda>text.
                   bind_res (snscanf sd text vsize (ascii (if ty = HTTP_FIELD_TYPE_INT then ''%i'' else ''%a'')) [SvaPtr (Some 0)])
                     (\<lambda>(n, st).
                     if n \<noteq> 1 then Inr (EFATAL, field)
                     else
                       (case map_of st 0 of
                          Some (SInt i) \<Rightarrow> Inr (EOK, field\<lparr>uf_name := name, uf_value := FV_i i\<rparr>)
                        | Some (SDouble d) \<Rightarrow> Inr (EOK, field\<lparr>uf_name := name, uf_value := FV_f d\<rparr>)
                        | _ \<Rightarrow> Inl Uninit))))))"

definition CRLF :: bytes where "CRLF = [13, 10]"

text \<open>The rest of the arguments of the caller is \<open>args\<close>.\<close>

definition UHTTPSrv_RenderFieldLine ::
  "(u32 \<Rightarrow> 'd \<Rightarrow> fs \<Rightarrow> bytes) \<Rightarrow> bytes \<Rightarrow> u32 \<Rightarrow> uhttp_field_name \<Rightarrow> 'd va list \<Rightarrow> fault + err_t \<times> bytes" where
  "UHTTPSrv_RenderFieldLine pd out bsz name args =
     bind_res (UHTTPSrv_GetFieldSpec name None) (\<lambda>fs.
     case fs of
       None \<Rightarrow> Inr (EFATAL, out)
     | Some (_, ty, str) \<Rightarrow>
         bind_res (snprintf pd out bsz
             (ascii (case ty of HTTP_FIELD_TYPE_INT \<Rightarrow> ''%s: %i'' | HTTP_FIELD_TYPE_FLOAT \<Rightarrow> ''%s: %f'' | HTTP_FIELD_TYPE_STR \<Rightarrow> ''%s: %s'') @ CRLF)
             (VStr str # args))
           (\<lambda>(out, n). Inr (int n, out)))"

section \<open>Socket input and output\<close>

text \<open>A line is received byte by byte into \<open>line\<close>, at offset \<open>c\<close>; the buffer has to have room for \<open>size\<close> bytes.\<close>

function recv_line_loop :: "'w sock_funcs \<Rightarrow> int \<Rightarrow> nat \<Rightarrow> nat \<Rightarrow> bytes \<Rightarrow> ('w, (err_t + nat) \<times> bytes) act" where
  "recv_line_loop sf tmo bsz c line =
     abind (sf_recv sf 1 tmo) (\<lambda>(ec, data).
       if ec < EOK then aret (Inl ec, line)
       else
         case mem_write line c data of
           Inl e \<Rightarrow> afail e
         | Inr line' \<Rightarrow>
             if length line' \<le> c then afail OutOfBounds
             else if line' ! c = 10 then aret (Inr c, line')
             else if Suc c = bsz then aret (Inl EFATAL, line')
             else recv_line_loop sf tmo bsz (Suc c) line')"
  by pat_completeness auto
termination
proof (relation "measure (\<lambda>(sf, tmo, bsz, c, line). length line - c)", goal_cases)
qed (auto dest: mem_write_length)

declare recv_line_loop.simps [simp del]

fun strip_end :: "bytes \<Rightarrow> nat \<Rightarrow> nat" where
  "strip_end line 0 = 0"
| "strip_end line (Suc c) = (if isspace (uint (line ! c)) then strip_end line c else Suc c)"

definition UHTTPSrv_RecvLine :: "'w sock_funcs \<Rightarrow> int \<Rightarrow> bytes \<Rightarrow> nat \<Rightarrow> ('w, err_t \<times> bytes) act" where
  "UHTTPSrv_RecvLine sf tmo line bsz =
     abind (recv_line_loop sf tmo bsz 0 line) (\<lambda>(r, line).
       case r of
         Inl ec \<Rightarrow> aret (ec, line)
       | Inr c \<Rightarrow> let c = strip_end line c in aret (int c, line[c := 0]))"

definition UHTTPSrv_SendStatusLine ::
  "(u32 \<Rightarrow> 'd \<Rightarrow> fs \<Rightarrow> bytes) \<Rightarrow> 'w sock_funcs \<Rightarrow> int \<Rightarrow> uhttp_version \<Rightarrow> uhttp_status_code \<Rightarrow> ('w, err_t) act" where
  "UHTTPSrv_SendStatusLine pd sf tmo version code =
     abind (alift (UHTTPSrv_GetVersionSpec version None)) (\<lambda>vspec.
     case vspec of
       None \<Rightarrow> aret EFATAL
     | Some (_, vstr) \<Rightarrow>
         abind (alift (UHTTPSrv_GetStatusCodeSpec code None)) (\<lambda>cspec.
         case cspec of
           None \<Rightarrow> aret EFATAL
         | Some (_, val, msg) \<Rightarrow>
             abind (alift (snprintf pd (replicate 32 0) 32 (ascii ''%s %d %s'' @ CRLF) [VStr vstr, VInt val, VStr msg]))
               (\<lambda>(response, len). sf_send sf response (of_nat len) tmo)))"

definition UHTTPSrv_SendEmptyLine :: "'w sock_funcs \<Rightarrow> int \<Rightarrow> ('w, err_t) act" where
  "UHTTPSrv_SendEmptyLine sf tmo = sf_send sf (CRLF @ [0]) 2 tmo"

section \<open>Requests\<close>

definition ws_fields_req :: u32 where
  "ws_fields_req = HTTP_FIELD_MASK_HOST OR HTTP_FIELD_MASK_SEC_WS_VERSION OR HTTP_FIELD_MASK_SEC_WS_KEY OR
     HTTP_FIELD_MASK_CONNECTION OR HTTP_FIELD_MASK_UPGRADE"

text \<open>The value of a field as a string, or as an integer: the member of the union that the name of the field stands for.\<close>

definition field_s :: "'d uhttp_field \<Rightarrow> fault + bytes" where
  "field_s f = (case uf_value f of FV_s s \<Rightarrow> Inr s | _ \<Rightarrow> Inl Uninit)"

definition field_i :: "'d uhttp_field \<Rightarrow> fault + u32" where
  "field_i f = (case uf_value f of FV_i i \<Rightarrow> Inr i | _ \<Rightarrow> Inl Uninit)"

definition add_ws_field :: "u32 \<Rightarrow> uhttp_request \<Rightarrow> uhttp_request" where
  "add_ws_field m req = req\<lparr>rq_ws_fields := rq_ws_fields req OR m\<rparr>"

definition use_field :: "'d uhttp_field \<Rightarrow> uhttp_request \<Rightarrow> fault + uhttp_request" where
  "use_field field req =
     (case uf_name field of
        HTTP_FIELD_NAME_CONTENT_LENGTH \<Rightarrow> bind_res (field_i field) (\<lambda>i. Inr (req\<lparr>rq_body_bleft := i\<rparr>))
      | HTTP_FIELD_NAME_CONNECTION \<Rightarrow>
          bind_res (field_s field) (\<lambda>s. bind_res (strcicmp s (lit ''Upgrade'')) (\<lambda>c.
            Inr (if c = 0 then add_ws_field HTTP_FIELD_MASK_CONNECTION req else req)))
      | HTTP_FIELD_NAME_UPGRADE \<Rightarrow>
          bind_res (field_s field) (\<lambda>s. bind_res (strcicmp s (lit ''websocket'')) (\<lambda>c.
            Inr (if c = 0 then add_ws_field HTTP_FIELD_MASK_UPGRADE req else req)))
      | HTTP_FIELD_NAME_SEC_WS_VERSION \<Rightarrow>
          bind_res (field_i field) (\<lambda>i. Inr (if i = 13 then add_ws_field HTTP_FIELD_MASK_SEC_WS_VERSION req else req))
      | HTTP_FIELD_NAME_HOST \<Rightarrow>
          bind_res (field_s field) (\<lambda>s. bind_res (strlen s) (\<lambda>n.
            Inr (if n \<noteq> 0 then add_ws_field HTTP_FIELD_MASK_HOST req else req)))
      | HTTP_FIELD_NAME_SEC_WS_KEY \<Rightarrow>
          bind_res (field_s field) (\<lambda>s. bind_res (strlen s) (\<lambda>n.
            if n = 24
            then bind_res (strncpy (rq_ws_key req) s 24) (\<lambda>key. Inr (add_ws_field HTTP_FIELD_MASK_SEC_WS_KEY (req\<lparr>rq_ws_key := key\<rparr>)))
            else Inr req))
      | _ \<Rightarrow> Inr req)"

text \<open>
  The length of the line is stored in a \<open>size_t\<close>: the comparison of what was stored with \<open>EOK\<close> is one of unsigned numbers
  and never true.
\<close>

definition UHTTPSrv_ReadHeaderField ::
  "(bytes \<Rightarrow> u32 \<Rightarrow> bool \<Rightarrow> fs \<Rightarrow> int \<times> 'd scan_val option) \<Rightarrow> 'w sock_funcs \<Rightarrow> int \<Rightarrow> uhttp_request \<Rightarrow> 'd uhttp_field \<Rightarrow>
   ('w, err_t \<times> uhttp_request \<times> 'd uhttp_field) act" where
  "UHTTPSrv_ReadHeaderField sd sf tmo req field =
     (if rq_state req \<noteq> HTTP_STATE_READ_FIELDS then aret (EFATAL, req\<lparr>rq_state := HTTP_STATE_ERROR\<rparr>, field)
      else
        abind (UHTTPSrv_RecvLine sf tmo (rq_line req) UHTTPSRV_MAX_LINE_LEN) (\<lambda>(ec, line).
        let req = req\<lparr>rq_line := line, rq_line_len := word_of_int ec\<rparr> in
        if rq_line_len req < 0 then aret (EFATAL, req\<lparr>rq_state := HTTP_STATE_ERROR\<rparr>, field)
        else if rq_line_len req = 0 then
          let req = req\<lparr>rq_state := (if rq_body_bleft req \<noteq> 0 then HTTP_STATE_READ_BODY else HTTP_STATE_SEND_STATUS),
                rq_type := (if rq_method req = HTTP_METHOD_GET \<and> rq_body_bleft req = 0 \<and> rq_ws_fields req = ws_fields_req
                            then HTTP_REQ_TYPE_WEBSOCKET else HTTP_REQ_TYPE_STANDARD)\<rparr>
          in aret (EOK, req, field\<lparr>uf_name := HTTP_FIELD_NAME_EMPTY\<rparr>)
        else
          abind (alift (UHTTPSrv_ParseFieldLine sd (rq_line req) (rq_line_len req) field)) (\<lambda>(ec, field).
          if ec < EOK then aret (STATE_ERR, req\<lparr>rq_state := HTTP_STATE_ERROR\<rparr>, field)
          else abind (alift (use_field field req)) (\<lambda>req. aret (EOK, req, field)))))"

text \<open>
  The loop of \<open>UHTTPSrv_ReadBody\<close>: \<open>ptr\<close> is the contents of the destination, or null; then the bytes go into an array of
  16. A call of \<open>recv\<close> that returns nothing keeps the loop going, so it has a bound on its rounds.
\<close>

fun read_body_loop :: "nat \<Rightarrow> 'w sock_funcs \<Rightarrow> int \<Rightarrow> bytes option \<Rightarrow> u32 \<Rightarrow> u32 \<Rightarrow> ('w, (err_t + u32) \<times> bytes option) act" where
  "read_body_loop fuel sf tmo ptr bsz brcvd =
     (if \<not> brcvd < bsz then aret (Inr brcvd, ptr)
      else
        case fuel of
          0 \<Rightarrow> (\<lambda>w. None)
        | Suc fuel \<Rightarrow>
            abind (sf_recv sf (case ptr of None \<Rightarrow> min 16 (bsz - brcvd) | Some _ \<Rightarrow> bsz - brcvd) tmo) (\<lambda>(ec, data).
            if ec < EOK then aret (Inl ec, ptr)
            else
              case ptr of
                None \<Rightarrow> read_body_loop fuel sf tmo ptr bsz (brcvd + word_of_int ec)
              | Some buf \<Rightarrow>
                  abind (alift (mem_write buf (unat brcvd) data)) (\<lambda>buf.
                    read_body_loop fuel sf tmo (Some buf) bsz (brcvd + word_of_int ec))))"

declare read_body_loop.simps [simp del]

definition UHTTPSrv_ReadBody ::
  "nat \<Rightarrow> 'w sock_funcs \<Rightarrow> int \<Rightarrow> uhttp_request \<Rightarrow> bytes option \<Rightarrow> u32 \<Rightarrow> ('w, err_t \<times> uhttp_request \<times> bytes option) act" where
  "UHTTPSrv_ReadBody fuel sf tmo req ptr bsz =
     (if rq_state req \<noteq> HTTP_STATE_READ_BODY then aret (STATE_ERR, req\<lparr>rq_state := HTTP_STATE_ERROR\<rparr>, ptr)
      else
        let bsz = min bsz (rq_body_bleft req) in
        if bsz = 0 then aret (EOK, req, ptr)
        else
          abind (read_body_loop fuel sf tmo ptr bsz 0) (\<lambda>(r, ptr).
          case r of
            Inl ec \<Rightarrow> aret (STATE_ERR, req\<lparr>rq_state := HTTP_STATE_ERROR\<rparr>, ptr)
          | Inr brcvd \<Rightarrow>
              let req = req\<lparr>rq_body_bleft := rq_body_bleft req - brcvd\<rparr>;
                  req = (if rq_body_bleft req = 0 then req\<lparr>rq_state := HTTP_STATE_SEND_STATUS\<rparr> else req)
              in aret (sint brcvd, req, ptr)))"

definition UHTTPSrv_SendHeaderField ::
  "(u32 \<Rightarrow> 'd \<Rightarrow> fs \<Rightarrow> bytes) \<Rightarrow> 'w sock_funcs \<Rightarrow> int \<Rightarrow> uhttp_request \<Rightarrow> uhttp_field_name \<Rightarrow> 'd va list \<Rightarrow>
   ('w, err_t \<times> uhttp_request) act" where
  "UHTTPSrv_SendHeaderField pd sf tmo req name args =
     (if rq_state req \<noteq> HTTP_STATE_SEND_FIELDS then aret (STATE_ERR, req\<lparr>rq_state := HTTP_STATE_ERROR\<rparr>)
      else
        abind (alift (UHTTPSrv_RenderFieldLine pd (replicate 256 0) 256 name args)) (\<lambda>(ec, line).
        if ec < EOK then aret (STATE_ERR, req\<lparr>rq_state := HTTP_STATE_ERROR\<rparr>)
        else
          abind (sf_send sf line (word_of_int ec) tmo) (\<lambda>ec.
          if ec < EOK then aret (STATE_ERR, req\<lparr>rq_state := HTTP_STATE_ERROR\<rparr>) else aret (EOK, req))))"

definition UHTTPSrv_SendStatus ::
  "(u32 \<Rightarrow> 'd \<Rightarrow> fs \<Rightarrow> bytes) \<Rightarrow> 'w sock_funcs \<Rightarrow> int \<Rightarrow> uhttp_request \<Rightarrow> uhttp_status_code \<Rightarrow> u32 \<Rightarrow>
   ('w, err_t \<times> uhttp_request) act" where
  "UHTTPSrv_SendStatus pd sf tmo req code res_size =
     (if rq_state req = HTTP_STATE_ERROR then aret (STATE_ERR, req)
      else
        abind (UHTTPSrv_SendStatusLine pd sf tmo HTTP_VER_1V1 code) (\<lambda>ec.
        if ec < EOK then aret (STATE_ERR, req\<lparr>rq_state := HTTP_STATE_ERROR\<rparr>)
        else
          abind (UHTTPSrv_SendHeaderField pd sf tmo (req\<lparr>rq_state := HTTP_STATE_SEND_FIELDS\<rparr>) HTTP_FIELD_NAME_CONTENT_LENGTH [VInt res_size]) (\<lambda>(_, req).
          abind (UHTTPSrv_SendHeaderField pd sf tmo req HTTP_FIELD_NAME_SERVER [VStr (lit ''uHTTP'')]) (\<lambda>(_, req).
          abind (UHTTPSrv_SendHeaderField pd sf tmo req HTTP_FIELD_NAME_CONNECTION [VStr (lit ''keep-alive'')]) (\<lambda>(_, req).
          abind (UHTTPSrv_SendHeaderField pd sf tmo req HTTP_FIELD_NAME_ACCESS_CONTROL_ALLOW_ORIGIN [VStr (lit ''*'')]) (\<lambda>(_, req).
          let req = req\<lparr>rq_resp_bleft := res_size, rq_state := HTTP_STATE_SEND_FIELDS\<rparr>
          in aret (if rq_state req = HTTP_STATE_ERROR then EFATAL else EOK, req)))))))"

definition UHTTPSrv_EndHeader :: "'w sock_funcs \<Rightarrow> int \<Rightarrow> uhttp_request \<Rightarrow> ('w, err_t \<times> uhttp_request) act" where
  "UHTTPSrv_EndHeader sf tmo req =
     (if rq_state req \<noteq> HTTP_STATE_SEND_FIELDS then aret (STATE_ERR, req\<lparr>rq_state := HTTP_STATE_ERROR\<rparr>)
      else
        abind (UHTTPSrv_SendEmptyLine sf tmo) (\<lambda>ec.
        if ec < EOK then aret (EFATAL, req\<lparr>rq_state := HTTP_STATE_ERROR\<rparr>)
        else aret (EOK, req\<lparr>rq_state := (if rq_resp_bleft req \<noteq> 0 then HTTP_STATE_SEND_BODY else HTTP_STATE_DONE)\<rparr>)))"

definition UHTTPSrc_SendBody ::
  "'w sock_funcs \<Rightarrow> int \<Rightarrow> uhttp_request \<Rightarrow> bytes \<Rightarrow> u32 \<Rightarrow> ('w, err_t \<times> uhttp_request) act" where
  "UHTTPSrc_SendBody sf tmo req ptr bsz =
     (if rq_state req \<noteq> HTTP_STATE_SEND_BODY then aret (STATE_ERR, req\<lparr>rq_state := HTTP_STATE_ERROR\<rparr>)
      else if bsz = 0 then aret (EOK, req)
      else if bsz > rq_resp_bleft req then aret (EFATAL, req)
      else
        abind (sf_send sf ptr bsz tmo) (\<lambda>ec.
        if ec < EOK then aret (STATE_ERR, req\<lparr>rq_state := HTTP_STATE_ERROR\<rparr>)
        else
          let req = req\<lparr>rq_resp_bleft := rq_resp_bleft req - word_of_int ec\<rparr>;
              req = (if rq_resp_bleft req = 0 then req\<lparr>rq_state := HTTP_STATE_DONE\<rparr> else req)
          in aret (ec, req)))"

section \<open>Serving\<close>

text \<open>The request that is handed to the callback; members that the initialiser does not name are zero.\<close>

definition new_request :: "uhttp_method \<Rightarrow> bytes \<Rightarrow> u32 \<Rightarrow> bytes \<Rightarrow> uhttp_request" where
  "new_request method line line_len url =
     \<lparr>rq_method = method, rq_url = url, rq_type = HTTP_REQ_TYPE_STANDARD, rq_state = HTTP_STATE_READ_FIELDS,
      rq_line = line, rq_line_len = line_len, rq_body_bleft = 0, rq_resp_bleft = 0, rq_ws_fields = 0,
      rq_ws_key = replicate 24 0,
      rq_ws = \<lparr>ws_is_open = False, ws_tx_sem = 0, ws_rx_sem = 0, ws_rx_size = 0, ws_rx_offs = 0, ws_rx_opcode = 0, ws_mask = [0, 0, 0, 0]\<rparr>\<rparr>"

text \<open>
  One round of the inner loop of \<open>UHTTPSrv_ServeTask\<close>: receive and parse the request line, run the callback. The result
  is whether the connection is kept. The loop has a bound on its rounds; \<open>yield\<close> is what happens between two of them.
\<close>

definition serve_request ::
  "(bytes \<Rightarrow> u32 \<Rightarrow> bool \<Rightarrow> fs \<Rightarrow> int \<times> 'd scan_val option) \<Rightarrow> 'w sock_funcs \<Rightarrow> int \<Rightarrow>
   (uhttp_request \<Rightarrow> ('w, err_t \<times> uhttp_request) act) \<Rightarrow> bytes \<Rightarrow> ('w, bool \<times> bytes) act" where
  "serve_request sd sf tmo callback line =
     abind (UHTTPSrv_RecvLine sf tmo line UHTTPSRV_MAX_LINE_LEN) (\<lambda>(line_len, line).
     if line_len < EOK then aret (False, line)
     else
       abind (alift (UHTTPSrv_ParseRequestLine sd line (word_of_int line_len) (of_nat UHTTPSRV_MAX_LINE_LEN))) (\<lambda>(ec, r).
       if ec < EOK then aret (False, line)
       else
         case r of
           None \<Rightarrow> afail Uninit
         | Some (method, url, version) \<Rightarrow>
             abind (callback (new_request method line (word_of_int line_len) url)) (\<lambda>(ec, req).
               aret (ec = EOK \<and> rq_state req = HTTP_STATE_DONE, rq_line req))))"

fun serve_loop ::
  "nat \<Rightarrow> ('w \<Rightarrow> 'w) \<Rightarrow> (bytes \<Rightarrow> u32 \<Rightarrow> bool \<Rightarrow> fs \<Rightarrow> int \<times> 'd scan_val option) \<Rightarrow> 'w sock_funcs \<Rightarrow> int \<Rightarrow>
   (uhttp_request \<Rightarrow> ('w, err_t \<times> uhttp_request) act) \<Rightarrow> bytes \<Rightarrow> ('w, bytes) act" where
  "serve_loop 0 yield sd sf tmo callback line = (\<lambda>w. None)"
| "serve_loop (Suc fuel) yield sd sf tmo callback line =
     abind (serve_request sd sf tmo callback line) (\<lambda>(keep, line).
     if keep then (\<lambda>w. serve_loop fuel yield sd sf tmo callback line (yield w)) else aret line)"

text \<open>One round of the outer loop: a connection from its start to its end.\<close>

definition UHTTPSrv_ServeTask_round ::
  "nat \<Rightarrow> ('w \<Rightarrow> 'w) \<Rightarrow> (bytes \<Rightarrow> u32 \<Rightarrow> bool \<Rightarrow> fs \<Rightarrow> int \<times> 'd scan_val option) \<Rightarrow> 'w sock_funcs \<Rightarrow> u16 \<Rightarrow> int \<Rightarrow>
   (uhttp_request \<Rightarrow> ('w, err_t \<times> uhttp_request) act) \<Rightarrow> bytes \<Rightarrow> ('w, bytes) act" where
  "UHTTPSrv_ServeTask_round fuel yield sd sf port tmo callback line =
     abind (sf_listen sf port) (\<lambda>ec.
     if ec < EOK then aret line
     else
       abind (serve_loop fuel yield sd sf tmo callback line) (\<lambda>line.
       abind (sf_close sf) (\<lambda>_. aret line)))"

definition UHTTPSrv_Init :: err_t where
  "UHTTPSrv_Init = EOK"

section \<open>Reading a line\<close>

definition rstrip :: "bytes \<Rightarrow> bytes" where
  "rstrip l = rev (dropWhile (\<lambda>c. isspace (uint c)) (rev l))"

lemma rstrip_snoc: "rstrip (l @ [c]) = (if isspace (uint c) then rstrip l else l @ [c])"
  by (simp add: rstrip_def)

lemma rstrip_prefix: "\<exists>s. l = rstrip l @ s"
proof (induction l rule: rev_induct)
  case (snoc c l)
  then obtain s where s: "l = rstrip l @ s" by blast
  then have "l @ [c] = rstrip l @ s @ [c]" by (metis append.assoc)
  then show ?case unfolding rstrip_snoc by (cases "isspace (uint c)") (auto intro: exI [of _ "s @ [c]"])
qed (simp add: rstrip_def)

lemma strip_end_rstrip: "strip_end (l @ r) (length l) = length (rstrip l)"
proof (induction l arbitrary: r rule: rev_induct)
  case (snoc c l)
  have "(l @ [c] @ r) ! length l = c" by simp
  then show ?case using snoc.IH [of "c # r"] by (simp add: rstrip_snoc)
qed (simp add: rstrip_def)

context wire_sock begin

lemma recv_byte:
  assumes "ok w" "inp w = b # rest"
  obtains w' where "sf_recv sf 1 t w = Some (Inr (1, [b]), w')" "ok w'" "inp w' = rest" "outp w' = outp w" "room w' = room w"
proof -
  obtain w' where r: "sf_recv sf 1 t w = Some (Inr (1, [b]), w')"
    using recv_now [of w 1 t] assms by auto
  show thesis using that [OF r recv_ok [OF assms(1) r]] recv_inp [OF assms(1) r] assms(2) by auto
qed

lemma recv_line_loop_ok:
  assumes "ok w" "inp w = l @ 10 # rest" "10 \<notin> set l" "c + length l < bsz" "bsz \<le> length line"
  shows "\<exists>w'. recv_line_loop sf t bsz c line w =
      Some (Inr (Inr (c + length l), take c line @ l @ 10 # drop (Suc (c + length l)) line), w') \<and>
    ok w' \<and> inp w' = rest \<and> outp w' = outp w \<and> room w' = room w"
  using assms
proof (induction l arbitrary: c line w)
  case Nil
  obtain w' where w': "sf_recv sf 1 t w = Some (Inr (1, [10]), w')" "ok w'" "inp w' = rest" "outp w' = outp w" "room w' = room w"
    using recv_byte [of w 10 rest t] Nil.prems(1,2) by auto
  have "mem_write line c [10] = Inr (take c line @ 10 # drop (Suc c) line)"
    using Nil.prems by (simp add: mem_write_def)
  then show ?case using w' Nil.prems by (simp add: recv_line_loop.simps [of sf t bsz c line] abind_def EOK_def nth_append aret_def)
next
  case (Cons b l)
  obtain w1 where w1: "sf_recv sf 1 t w = Some (Inr (1, [b]), w1)" "ok w1" "inp w1 = l @ 10 # rest" "outp w1 = outp w" "room w1 = room w"
    using recv_byte [of w b "l @ 10 # rest" t] Cons.prems(1,2) by auto
  let ?line = "take c line @ b # drop (Suc c) line"
  have m: "mem_write line c [b] = Inr ?line" using Cons.prems by (simp add: mem_write_def)
  obtain w' where w': "recv_line_loop sf t bsz (Suc c) ?line w1 =
      Some (Inr (Inr (Suc c + length l), take (Suc c) ?line @ l @ 10 # drop (Suc (Suc c + length l)) ?line), w')"
      "ok w'" "inp w' = rest" "outp w' = outp w1" "room w' = room w1"
  proof -
    have "length ?line = length line" using Cons.prems by simp
    then show ?thesis using that Cons.IH [OF w1(2,3), of "Suc c" ?line] Cons.prems(3-5) by fastforce
  qed
  have c: "c < length line" using Cons.prems by simp
  then have "\<not> length ?line \<le> c" "?line ! c = b" by (simp_all add: nth_append)
  then have "recv_line_loop sf t bsz c line w = recv_line_loop sf t bsz (Suc c) ?line w1"
    using w1(1) m Cons.prems(3,4) by (simp add: recv_line_loop.simps [of sf t bsz c line] abind_def EOK_def)
  then show ?case using w' w1(4,5) Cons.prems by (simp add: min_def add.commute)
qed

lemma RecvLine_ok:
  assumes "ok w" "inp w = l @ 10 # rest" "10 \<notin> set l" "length l < bsz" "bsz \<le> length line"
  shows "\<exists>line' w'. UHTTPSrv_RecvLine sf t line bsz w = Some (Inr (int (length (rstrip l)), line'), w') \<and>
    length line' = length line \<and> take (length (rstrip l)) line' = rstrip l \<and> line' ! length (rstrip l) = 0 \<and>
    ok w' \<and> inp w' = rest \<and> outp w' = outp w \<and> room w' = room w"
proof -
  let ?line = "l @ 10 # drop (Suc (length l)) line"
  obtain w' where w': "recv_line_loop sf t bsz 0 line w = Some (Inr (Inr (length l), ?line), w')"
    "ok w'" "inp w' = rest" "outp w' = outp w" "room w' = room w"
    using recv_line_loop_ok [of w l rest 0 bsz line t] assms by auto
  obtain s where s: "l = rstrip l @ s" using rstrip_prefix by blast
  have le: "length (rstrip l) \<le> length l" by (subst (2) s) simp
  have "take (length (rstrip l)) (?line[length (rstrip l) := 0]) = rstrip l"
    using le by (simp add: take_update_cancel) (metis append_eq_conv_conj s)
  then show ?thesis
    using w' assms(4,5) le strip_end_rstrip [of l "10 # drop (Suc (length l)) line"]
    by (simp add: UHTTPSrv_RecvLine_def abind_def Let_def aret_def)
qed

end

text \<open>
  C33: with a complete line in the input of an established connection, the line reader returns it without the white space
  at its end, terminated inside its buffer, and leaves what follows the line for the next read.
\<close>

theorem Http_line_read:
  assumes "tcp_up w" "sock_in w = l @ 10 # rest" "10 \<notin> set l" "length l < bsz" "bsz \<le> length line"
  shows "\<exists>line' w'. UHTTPSrv_RecvLine (tcp_funcs 0 env) t line bsz w = Some (Inr (int (length (rstrip l)), line'), w') \<and>
    length line' = length line \<and> take (length (rstrip l)) line' = rstrip l \<and> line' ! length (rstrip l) = 0 \<and>
    tcp_up w' \<and> sock_in w' = rest \<and> sock_out w' = sock_out w"
  using tcp_wire.RecvLine_ok [OF assms, of env t] by blast

theorem Http_line_read_witness:
  "\<forall>env. \<exists>line' w'. UHTTPSrv_RecvLine (tcp_funcs 0 env) 0 (replicate 9 0) 8 (demo_tcp [71, 69, 84, 32, 13, 10, 65]) =
     Some (Inr (3, line'), w') \<and> take 3 line' = [71, 69, 84] \<and> sock_in w' = [65]"
proof
  fix env
  have r: "rstrip [71, 69, 84, 32, 13] = [71, 69, 84]" by (simp add: rstrip_def isspace_def)
  show "\<exists>line' w'. UHTTPSrv_RecvLine (tcp_funcs 0 env) 0 (replicate 9 0) 8 (demo_tcp [71, 69, 84, 32, 13, 10, 65]) =
     Some (Inr (3, line'), w') \<and> take 3 line' = [71, 69, 84] \<and> sock_in w' = [65]"
    using Http_line_read [of "demo_tcp [71, 69, 84, 32, 13, 10, 65]" "[71, 69, 84, 32, 13]" "[65]" 8 "replicate 9 0" env 0]
      demo_tcp_up [of "[71, 69, 84, 32, 13, 10, 65]"] by (auto simp: r numeral_3_eq_3)
qed

section \<open>The body of a response\<close>

lemma snprintf_room:
  assumes "snprintf pd buf bsz fmt args = Inr (out, n)" "0 < bsz" "unat bsz \<le> length buf"
    and "set (conversions fmt) \<inter> {TYPE_PERCENT, TYPE_DOUBLE} = {}"
  shows "n < unat bsz" "length out = length buf"
proof -
  have u: "unat bsz = Suc (unat (bsz - 1))" using assms(2) by (simp add: unat_minus_one word_gt_0 unat_gt_0)
  have r: "in_room 0 (unat (bsz - 1)) buf (vsn_loop pd buf 0 (bsz - 1) fmt args)"
    using vsn_loop_in_room [of 0 "bsz - 1" buf fmt pd args] assms u by simp
  obtain b where v: "vsn_loop pd buf 0 (bsz - 1) fmt args = Inr (b, n)" "mem_write b n [0] = Inr out"
    using assms(1,2) by (auto simp: snprintf_def vsnprintf_def bind_res_eq_Inr)
  show "n < unat bsz" "length out = length buf" using r v u mem_write_length [OF v(2)] by (auto simp: in_room_def)
qed

lemma field_formats:
  "set (conversions (ascii ''%s: %i'' @ CRLF)) \<inter> {TYPE_PERCENT, TYPE_DOUBLE} = {}"
  "set (conversions (ascii ''%s: %s'' @ CRLF)) \<inter> {TYPE_PERCENT, TYPE_DOUBLE} = {}"
  "set (conversions (ascii ''%s %d %s'' @ CRLF)) \<inter> {TYPE_PERCENT, TYPE_DOUBLE} = {}"
  by code_simp+

lemma lut_find_mem: "lut_find f g lut = Inr (Some l) \<Longrightarrow> l \<in> set lut"
  by (induction lut) (auto simp: bind_res_eq_Inr split: if_splits)

lemma field_spec_no_float: "UHTTPSrv_GetFieldSpec name str = Inr (Some (n, ty, s)) \<Longrightarrow> ty \<noteq> HTTP_FIELD_TYPE_FLOAT"
proof -
  assume "UHTTPSrv_GetFieldSpec name str = Inr (Some (n, ty, s))"
  then have "(n, ty, s) \<in> set field_lut"
    unfolding UHTTPSrv_GetFieldSpec_def one_key_def by (auto dest!: lut_find_mem split: if_splits)
  moreover have "\<forall>l \<in> set field_lut. fst (snd l) \<noteq> HTTP_FIELD_TYPE_FLOAT" by (simp add: field_lut_def)
  ultimately show ?thesis by auto
qed

lemma RenderFieldLine_room:
  assumes "UHTTPSrv_RenderFieldLine pd (replicate 256 0) 256 name args = Inr (ec, line)" "\<not> ec < 0"
  shows "nat ec < 256" "length line = 256"
proof -
  obtain n ty s where f: "UHTTPSrv_GetFieldSpec name None = Inr (Some (n, ty, s))"
    using assms by (auto simp: UHTTPSrv_RenderFieldLine_def bind_res_eq_Inr EFATAL_def split: option.splits)
  then have ty: "ty \<noteq> HTTP_FIELD_TYPE_FLOAT" by (rule field_spec_no_float)
  define fmt where "fmt = ascii (case ty of HTTP_FIELD_TYPE_INT \<Rightarrow> ''%s: %i'' | HTTP_FIELD_TYPE_FLOAT \<Rightarrow> ''%s: %f'' | HTTP_FIELD_TYPE_STR \<Rightarrow> ''%s: %s'') @ CRLF"
  have c: "set (conversions fmt) \<inter> {TYPE_PERCENT, TYPE_DOUBLE} = {}"
    using ty field_formats unfolding fmt_def by (cases ty) (simp_all del: set_empty)
  obtain k where k: "snprintf pd (replicate 256 0) 256 fmt (VStr s # args) = Inr (line, k)" "ec = int k"
    using assms(1) f by (auto simp: UHTTPSrv_RenderFieldLine_def bind_res_eq_Inr fmt_def)
  show "nat ec < 256" "length line = 256" using snprintf_room [OF k(1) _ _ c] k(2) by auto
qed

text \<open>What a callback does after the status of the response, with the bytes of body that were accepted so far.\<close>

inductive resp :: "(u32 \<Rightarrow> 'd \<Rightarrow> fs \<Rightarrow> bytes) \<Rightarrow> 'w sock_funcs \<Rightarrow> int \<Rightarrow> uhttp_request \<times> 'w \<times> bytes \<Rightarrow> uhttp_request \<times> 'w \<times> bytes \<Rightarrow> bool"
  for pd sf tmo where
  resp_field: "UHTTPSrv_SendHeaderField pd sf tmo req name args w = Some (Inr (ec, req'), w') \<Longrightarrow>
    resp pd sf tmo (req, w, b) (req', w', b)"
| resp_end: "UHTTPSrv_EndHeader sf tmo req w = Some (Inr (ec, req'), w') \<Longrightarrow> resp pd sf tmo (req, w, b) (req', w', b)"
| resp_body: "unat bsz \<le> length ptr \<Longrightarrow> UHTTPSrc_SendBody sf tmo req ptr bsz w = Some (Inr (ec, req'), w') \<Longrightarrow>
    resp pd sf tmo (req, w, b) (req', w', b @ take (nat ec) ptr)"

definition resp_inv :: "u32 \<Rightarrow> uhttp_request \<Rightarrow> bytes \<Rightarrow> bool" where
  "resp_inv n req b \<longleftrightarrow>
     rq_state req = HTTP_STATE_ERROR \<or> rq_state req = HTTP_STATE_SEND_FIELDS \<and> b = [] \<and> rq_resp_bleft req = n \<or>
     rq_state req = HTTP_STATE_SEND_BODY \<and> length b + unat (rq_resp_bleft req) = unat n \<or>
     rq_state req = HTTP_STATE_DONE \<and> length b = unat n"

context stream_sock begin

lemma SendHeaderField_keeps:
  assumes "ok w" "UHTTPSrv_SendHeaderField pd sf t req name args w = Some (Inr (ec, req'), w')"
  shows "ok w' \<and> (req' = req\<lparr>rq_state := HTTP_STATE_ERROR\<rparr> \<or> req' = req \<and> rq_state req = HTTP_STATE_SEND_FIELDS)"
proof (cases "rq_state req = HTTP_STATE_SEND_FIELDS")
  case True
  have sent: "ok v" if "sf_send sf line (word_of_int k) t w = Some (Inr e, v)"
      "UHTTPSrv_RenderFieldLine pd (replicate 256 0) 256 name args = Inr (k, line)" "\<not> k < 0" for line k e v
  proof (rule send_ok [OF assms(1) _ that(1)])
    have k: "nat k < 256" "length line = 256" using RenderFieldLine_room [OF that(2,3)] by auto
    then have "unat (word_of_int k :: u32) = nat k" using that(3) by (simp add: unat_eq_nat_uint uint_word_of_int)
    then show "unat (word_of_int k :: u32) \<le> length line" using k by simp
  qed
  show ?thesis using True assms sent
    by (auto simp: UHTTPSrv_SendHeaderField_def abind_Some EOK_def alift_def split: if_splits sum.splits)
qed (use assms in \<open>auto simp: UHTTPSrv_SendHeaderField_def\<close>)

lemma EndHeader_keeps:
  assumes "ok w" "UHTTPSrv_EndHeader sf t req w = Some (Inr (ec, req'), w')"
  shows "ok w' \<and> (req' = req\<lparr>rq_state := HTTP_STATE_ERROR\<rparr> \<or> rq_state req = HTTP_STATE_SEND_FIELDS \<and>
     req' = req\<lparr>rq_state := (if rq_resp_bleft req \<noteq> 0 then HTTP_STATE_SEND_BODY else HTTP_STATE_DONE)\<rparr>)"
  using assms send_ok [OF assms(1), of 2 "CRLF @ [0]" t]
  by (auto simp: UHTTPSrv_EndHeader_def UHTTPSrv_SendEmptyLine_def abind_Some CRLF_def split: if_splits)

lemma SendBody_keeps:
  assumes "ok w" "unat bsz \<le> length ptr" "UHTTPSrc_SendBody sf t req ptr bsz w = Some (Inr (ec, req'), w')"
  shows "ok w' \<and> (rq_state req' = HTTP_STATE_ERROR \<or> rq_state req = HTTP_STATE_SEND_BODY \<and> req' = req \<and> nat ec = 0 \<or>
     rq_state req = HTTP_STATE_SEND_BODY \<and> bsz \<le> rq_resp_bleft req \<and> nat ec = unat bsz \<and>
     rq_resp_bleft req' = rq_resp_bleft req - bsz \<and>
     rq_state req' = (if rq_resp_bleft req' = 0 then HTTP_STATE_DONE else HTTP_STATE_SEND_BODY))"
proof (cases "rq_state req = HTTP_STATE_SEND_BODY \<and> bsz \<noteq> 0 \<and> \<not> bsz > rq_resp_bleft req")
  case True
  then obtain e v where s: "sf_send sf ptr bsz t w = Some (Inr e, v)"
    using assms(3) by (auto simp: UHTTPSrc_SendBody_def abind_Some)
  have v: "ok v" "0 \<le> e \<Longrightarrow> e = int (unat bsz)" using send_ok [OF assms(1,2) s] send_all [OF assms(1,2) s] by auto
  have lt: "\<not> rq_resp_bleft req < bsz" "bsz \<noteq> 0" "rq_state req = HTTP_STATE_SEND_BODY" using True by auto
  show ?thesis
  proof (cases "0 \<le> e")
    case True
    then have "sf_send sf ptr bsz t w = Some (Inr (uint bsz), v)" using s v(2) by simp
    then have "nat ec = unat bsz" "w' = v" "req' = (let r = req\<lparr>rq_resp_bleft := rq_resp_bleft req - bsz\<rparr>
        in if rq_resp_bleft r = 0 then r\<lparr>rq_state := HTTP_STATE_DONE\<rparr> else r)"
      using assms(3) lt by (auto simp: UHTTPSrc_SendBody_def abind_def EOK_def Let_def)
    then show ?thesis using lt v(1) by (simp add: Let_def not_less)
  next
    case False
    then show ?thesis using assms(3) s lt v(1) by (auto simp: UHTTPSrc_SendBody_def abind_def EOK_def)
  qed
next
  case False
  then show ?thesis using assms
    by (cases "rq_state req = HTTP_STATE_SEND_BODY"; cases "bsz = 0") (auto simp: UHTTPSrc_SendBody_def EOK_def EFATAL_def)
qed

lemma resp_step_inv:
  assumes "resp pd sf t (req, w, b) (req', w', b')" "ok w" "resp_inv n req b"
  shows "ok w' \<and> resp_inv n req' b'"
  using assms(1)
proof cases
  case (resp_field name args ec)
  then show ?thesis using SendHeaderField_keeps [OF assms(2) resp_field(2)] assms(3) by (auto simp: resp_inv_def)
next
  case (resp_end ec)
  then show ?thesis using EndHeader_keeps [OF assms(2) resp_end(2)] assms(3) by (auto simp: resp_inv_def)
next
  case (resp_body bsz ptr ec)
  have "unat (rq_resp_bleft req - bsz) = unat (rq_resp_bleft req) - unat bsz" if "bsz \<le> rq_resp_bleft req"
    using that by (rule unat_u32_sub)
  then show ?thesis using SendBody_keeps [OF assms(2) resp_body(2,3)] assms(3) resp_body(1,2)
    by (auto simp: resp_inv_def word_le_nat_alt split: if_splits)
qed

lemma resp_run_inv:
  assumes "(resp pd sf t)\<^sup>*\<^sup>* (req, w, b) (req', w', b')" "ok w" "resp_inv n req b"
  shows "ok w' \<and> resp_inv n req' b'"
  using assms by (induction "(req', w', b')" arbitrary: req' w' b' rule: rtranclp_induct) (auto dest: resp_step_inv)

end

context stream_sock begin

lemma SendStatusLine_ok:
  assumes "ok w" "UHTTPSrv_SendStatusLine pd sf t v code w = Some (Inr ec, w')"
  shows "ok w'"
proof -
  have sent: "ok u" if "snprintf pd (replicate 32 0) 32 (ascii ''%s %d %s'' @ CRLF) args = Inr (out, n)"
      "sf_send sf out (of_nat n) t w = Some (Inr e, u)" for args out n e u
  proof (rule send_ok [OF assms(1) _ that(2)])
    have "n < 32" "length out = 32" using snprintf_room [OF that(1) _ _ field_formats(3)] by auto
    then show "unat (of_nat n :: u32) \<le> length out" by (simp add: unat_of_nat take_bit_nat_eq_self)
  qed
  show ?thesis using assms sent
    by (auto simp: UHTTPSrv_SendStatusLine_def abind_Some alift_def split: sum.splits option.splits if_splits)
qed

lemma SendStatus_EOK:
  assumes "ok w" "UHTTPSrv_SendStatus pd sf t req code n w = Some (Inr (EOK, req'), w')"
  shows "ok w' \<and> resp_inv n req' []"
proof -
  obtain v ec r1 v1 r2 v2 r3 v3 r4 where
    s: "UHTTPSrv_SendStatusLine pd sf t HTTP_VER_1V1 code w = Some (Inr ec, v)"
    and f: "\<exists>e. UHTTPSrv_SendHeaderField pd sf t (req\<lparr>rq_state := HTTP_STATE_SEND_FIELDS\<rparr>) HTTP_FIELD_NAME_CONTENT_LENGTH [VInt n] v = Some (Inr (e, r1), v1)"
      "\<exists>e. UHTTPSrv_SendHeaderField pd sf t r1 HTTP_FIELD_NAME_SERVER [VStr (lit ''uHTTP'')] v1 = Some (Inr (e, r2), v2)"
      "\<exists>e. UHTTPSrv_SendHeaderField pd sf t r2 HTTP_FIELD_NAME_CONNECTION [VStr (lit ''keep-alive'')] v2 = Some (Inr (e, r3), v3)"
      "\<exists>e. UHTTPSrv_SendHeaderField pd sf t r3 HTTP_FIELD_NAME_ACCESS_CONTROL_ALLOW_ORIGIN [VStr (lit ''*'')] v3 = Some (Inr (e, r4), w')"
    and r: "req' = r4\<lparr>rq_resp_bleft := n, rq_state := HTTP_STATE_SEND_FIELDS\<rparr>"
    using assms(2) by (auto simp: UHTTPSrv_SendStatus_def STATE_ERR_def EOK_def abind_Some Let_def split: if_splits)
  have k: "ok u'" if "ok u" "\<exists>e. UHTTPSrv_SendHeaderField pd sf t r name args u = Some (Inr (e, r'), u')" for u r name args r' u'
    using that SendHeaderField_keeps [OF that(1)] by metis
  have "ok w'" by (rule k [OF k [OF k [OF k [OF SendStatusLine_ok [OF assms(1) s] f(1)] f(2)] f(3)] f(4)])
  then show ?thesis using r by (simp add: resp_inv_def)
qed

end

context wire_sock begin

lemma SendHeaderField_now:
  assumes "ok w" "rq_state req = HTTP_STATE_SEND_FIELDS" "0 \<le> t" "k \<le> room w"
    and r: "UHTTPSrv_RenderFieldLine pd (replicate 256 0) 256 name args = Inr (int k, line)"
  shows "\<exists>w'. UHTTPSrv_SendHeaderField pd sf t req name args w = Some (Inr (EOK, req), w') \<and> ok w' \<and>
    room w \<le> room w' + k \<and> outp w' = outp w @ take k line"
proof -
  have k: "k < 256" "length line = 256" using RenderFieldLine_room [OF r] by auto
  then have u: "unat (of_nat k :: u32) = k" by (simp add: unat_of_nat take_bit_nat_eq_self)
  obtain w' where s: "sf_send sf line (of_nat k) t w = Some (Inr (int k), w')"
    using send_now [of w "of_nat k" line t] assms(1,3,4) k u by auto
  have "ok w'" "room w \<le> room w' + k \<and> outp w' = outp w @ take k line"
    using send_ok [OF assms(1) _ s] send_outp [OF assms(1) _ s] k u by auto
  then show ?thesis using assms(2) r s by (simp add: UHTTPSrv_SendHeaderField_def abind_def EOK_def aret_def)
qed

end

text \<open>
  C34: a response that is done has sent exactly as many bytes of body as its status announced, whatever the callback calls
  after the status and whatever the stack does in between; a callback that sends too much, too little or out of order does not
  bring the request to \<open>HTTP_STATE_DONE\<close>.
\<close>

theorem Http_body_complete:
  assumes "tcp_ok w" "UHTTPSrv_SendStatus pd (tcp_funcs fuel (stack_env arrive)) tmo req code n w = Some (Inr (EOK, req1), w1)"
    and "(resp pd (tcp_funcs fuel (stack_env arrive)) tmo)\<^sup>*\<^sup>* (req1, w1, []) (req2, w2, body)" "rq_state req2 = HTTP_STATE_DONE"
  shows "length body = unat n"
proof -
  have "tcp_ok w1 \<and> resp_inv n req1 []" by (rule tcp_live.SendStatus_EOK [OF assms(1,2)])
  then have "resp_inv n req2 body" using tcp_live.resp_run_inv [OF assms(3)] by blast
  with assms(4) show ?thesis by (simp add: resp_inv_def)
qed

section \<open>Examples\<close>

abbreviation no_pd :: "u32 \<Rightarrow> unit \<Rightarrow> fs \<Rightarrow> bytes" where "no_pd \<equiv> \<lambda>_ _ _. []"

text \<open>The lines that a status sends.\<close>

lemma status_lines:
  "\<exists>l. UHTTPSrv_RenderFieldLine no_pd (replicate 256 0) 256 HTTP_FIELD_NAME_CONTENT_LENGTH [VInt 2] = Inr (int 19, l)"
  "\<exists>l. UHTTPSrv_RenderFieldLine no_pd (replicate 256 0) 256 HTTP_FIELD_NAME_SERVER [VStr (lit ''uHTTP'')] = Inr (int 15, l)"
  "\<exists>l. UHTTPSrv_RenderFieldLine no_pd (replicate 256 0) 256 HTTP_FIELD_NAME_CONNECTION [VStr (lit ''keep-alive'')] = Inr (int 24, l)"
  "\<exists>l. UHTTPSrv_RenderFieldLine no_pd (replicate 256 0) 256 HTTP_FIELD_NAME_ACCESS_CONTROL_ALLOW_ORIGIN [VStr (lit ''*'')] = Inr (int 32, l)"
proof -
  have e: "\<exists>l. r = Inr (int n, l)" if "(case r of Inl _ \<Rightarrow> False | Inr (k, l) \<Rightarrow> k = int n)" for r :: "fault + err_t \<times> bytes" and n
    using that by (auto split: sum.splits)
  show
    "\<exists>l. UHTTPSrv_RenderFieldLine no_pd (replicate 256 0) 256 HTTP_FIELD_NAME_CONTENT_LENGTH [VInt 2] = Inr (int 19, l)"
    "\<exists>l. UHTTPSrv_RenderFieldLine no_pd (replicate 256 0) 256 HTTP_FIELD_NAME_SERVER [VStr (lit ''uHTTP'')] = Inr (int 15, l)"
    "\<exists>l. UHTTPSrv_RenderFieldLine no_pd (replicate 256 0) 256 HTTP_FIELD_NAME_CONNECTION [VStr (lit ''keep-alive'')] = Inr (int 24, l)"
    "\<exists>l. UHTTPSrv_RenderFieldLine no_pd (replicate 256 0) 256 HTTP_FIELD_NAME_ACCESS_CONTROL_ALLOW_ORIGIN [VStr (lit ''*'')] = Inr (int 32, l)"
    by (rule e, code_simp)+
qed

abbreviation no_sd :: "bytes \<Rightarrow> u32 \<Rightarrow> bool \<Rightarrow> fs \<Rightarrow> int \<times> unit scan_val option" where "no_sd \<equiv> \<lambda>_ _ _ _. (-1, None)"

lemma status_line_200:
  "\<exists>l. snprintf no_pd (replicate 32 0) 32 (ascii ''%s %d %s'' @ CRLF) [VStr (lit ''HTTP/1.1''), VInt 200, VStr (lit ''OK'')] = Inr (l, 17) \<and>
     length l = 32"
proof -
  have "(case snprintf no_pd (replicate 32 0) 32 (ascii ''%s %d %s'' @ CRLF) [VStr (lit ''HTTP/1.1''), VInt 200, VStr (lit ''OK'')] of
      Inl _ \<Rightarrow> False | Inr (l, n) \<Rightarrow> n = 17 \<and> length l = 32)" by code_simp
  then show ?thesis by (auto split: sum.splits)
qed

definition demo_req :: uhttp_request where
  "demo_req = (new_request HTTP_METHOD_GET (replicate 257 0) 0 (lit ''/''))\<lparr>rq_state := HTTP_STATE_SEND_STATUS\<rparr>"

theorem Http_body_complete_witness:
  "\<forall>arrive. \<exists>req1 w1 req2 w2.
     UHTTPSrv_SendStatus no_pd (tcp_funcs 0 (stack_env arrive)) 0 demo_req HTTP_STATUS_200_OK 2 (demo_tcp []) = Some (Inr (EOK, req1), w1) \<and>
     (resp no_pd (tcp_funcs 0 (stack_env arrive)) 0)\<^sup>*\<^sup>* (req1, w1, []) (req2, w2, [104, 105]) \<and> length [104, 105 :: u8] = unat (2 :: u32)"
proof
  fix arrive
  let ?sf = "tcp_funcs 0 (stack_env arrive)" and ?w = "demo_tcp []" and ?r = "demo_req\<lparr>rq_state := HTTP_STATE_SEND_FIELDS\<rparr>"
  let ?fld = "UHTTPSrv_SendHeaderField no_pd ?sf 0 ?r"
  note up = demo_tcp_up [of "[]"]
  obtain l where l: "snprintf no_pd (replicate 32 0) 32 (ascii ''%s %d %s'' @ CRLF)
      [VStr (lit ''HTTP/1.1''), VInt 200, VStr (lit ''OK'')] = Inr (l, 17)" "length l = 32" using status_line_200 by blast
  obtain v where v: "sf_send ?sf l 17 0 ?w = Some (Inr 17, v)"
    using tcp_wire.send_now [of ?w 17 l 0 "stack_env arrive"] up l(2) by auto
  have v': "tcp_up v" "256 \<le> sock_room v + 17"
    using tcp_wire.send_ok [OF _ _ v] tcp_wire.send_outp [OF _ _ v] up l(2) by auto
  have st: "UHTTPSrv_SendStatusLine no_pd ?sf 0 HTTP_VER_1V1 HTTP_STATUS_200_OK ?w = Some (Inr 17, v)"
    using l(1) v by (simp add: UHTTPSrv_SendStatusLine_def UHTTPSrv_GetVersionSpec_def UHTTPSrv_GetStatusCodeSpec_def one_key_def
        version_lut_def status_lut_def same_str_def)
  have fld: "\<exists>u'. ?fld name args u = Some (Inr (EOK, ?r), u') \<and> tcp_up u' \<and> sock_room u \<le> sock_room u' + k"
    if "\<exists>l. UHTTPSrv_RenderFieldLine no_pd (replicate 256 0) 256 name args = Inr (int k, l)" "tcp_up u" "k \<le> sock_room u" for u k name args
    using that tcp_wire.SendHeaderField_now [of u ?r 0 k no_pd name args _ "stack_env arrive"] by fastforce
  obtain v1 where v1: "?fld HTTP_FIELD_NAME_CONTENT_LENGTH [VInt 2] v = Some (Inr (EOK, ?r), v1)" "tcp_up v1" "sock_room v \<le> sock_room v1 + 19"
    using fld [OF status_lines(1) v'(1)] v'(2) by auto
  obtain v2 where v2: "?fld HTTP_FIELD_NAME_SERVER [VStr (lit ''uHTTP'')] v1 = Some (Inr (EOK, ?r), v2)" "tcp_up v2" "sock_room v1 \<le> sock_room v2 + 15"
    using fld [OF status_lines(2) v1(2)] v1(3) v'(2) by auto
  obtain v3 where v3: "?fld HTTP_FIELD_NAME_CONNECTION [VStr (lit ''keep-alive'')] v2 = Some (Inr (EOK, ?r), v3)" "tcp_up v3" "sock_room v2 \<le> sock_room v3 + 24"
    using fld [OF status_lines(3) v2(2)] v2(3) v1(3) v'(2) by auto
  obtain v4 where v4: "?fld HTTP_FIELD_NAME_ACCESS_CONTROL_ALLOW_ORIGIN [VStr (lit ''*'')] v3 = Some (Inr (EOK, ?r), v4)" "tcp_up v4" "sock_room v3 \<le> sock_room v4 + 32"
    using fld [OF status_lines(4) v3(2)] v3(3) v2(3) v1(3) v'(2) by auto
  let ?r1 = "?r\<lparr>rq_resp_bleft := 2\<rparr>"
  have status: "UHTTPSrv_SendStatus no_pd ?sf 0 demo_req HTTP_STATUS_200_OK 2 ?w = Some (Inr (EOK, ?r1), v4)"
    using st v1(1) v2(1) v3(1) v4(1)
    by (simp add: UHTTPSrv_SendStatus_def abind_def demo_req_def new_request_def EOK_def aret_def)
  obtain v5 where e: "sf_send ?sf (CRLF @ [0]) 2 0 v4 = Some (Inr 2, v5)"
    using tcp_wire.send_now [of v4 2 "CRLF @ [0]" 0 "stack_env arrive"] v4 v3(3) v2(3) v1(3) v'(2) by (auto simp: CRLF_def)
  have v5: "tcp_up v5" "sock_room v4 \<le> sock_room v5 + 2"
    using tcp_wire.send_ok [OF v4(2) _ e] tcp_wire.send_outp [OF v4(2) _ e] by (auto simp: CRLF_def)
  have "resp no_pd ?sf 0 (?r1, v4, []) (?r1\<lparr>rq_state := HTTP_STATE_SEND_BODY\<rparr>, v5, [])"
    using e by (intro resp_end [where ec = EOK]) (simp add: UHTTPSrv_EndHeader_def UHTTPSrv_SendEmptyLine_def abind_def EOK_def aret_def)
  moreover obtain v6 where b: "sf_send ?sf [104, 105] 2 0 v5 = Some (Inr 2, v6)"
    using tcp_wire.send_now [of v5 2 "[104, 105]" 0 "stack_env arrive"] v5 v4(3) v3(3) v2(3) v1(3) v'(2) by auto
  have "resp no_pd ?sf 0 (?r1\<lparr>rq_state := HTTP_STATE_SEND_BODY\<rparr>, v5, [])
      (?r1\<lparr>rq_resp_bleft := 0, rq_state := HTTP_STATE_DONE\<rparr>, v6, [] @ take (nat 2) [104, 105])"
    using b by (intro resp_body [where bsz = 2]) (simp_all add: UHTTPSrc_SendBody_def abind_def EOK_def aret_def Let_def)
  ultimately have run: "(resp no_pd ?sf 0)\<^sup>*\<^sup>* (?r1, v4, []) (?r1\<lparr>rq_resp_bleft := 0, rq_state := HTTP_STATE_DONE\<rparr>, v6, [104, 105])"
    by (simp add: rtranclp.rtrancl_into_rtrancl)
  have "tcp_ok ?w" using up by (simp add: tcp_up_def)
  from Http_body_complete [OF this status run] status run
  show "\<exists>req1 w1 req2 w2.
     UHTTPSrv_SendStatus no_pd ?sf 0 demo_req HTTP_STATUS_200_OK 2 ?w = Some (Inr (EOK, req1), w1) \<and>
     (resp no_pd ?sf 0)\<^sup>*\<^sup>* (req1, w1, []) (req2, w2, [104, 105]) \<and> length [104, 105 :: u8] = unat (2 :: u32)"
    by (intro exI conjI) auto
qed

section \<open>Defects\<close>

text \<open>The buffer of 32 bytes cuts the longer status lines: their line end is lost, and the next field joins the line.\<close>

lemma Http_status_line_cut:
  "snprintf no_pd (replicate 32 0) 32 (ascii ''%s %d %s'' @ CRLF)
     [VStr (lit ''HTTP/1.1''), VInt 101, VStr (lit ''Switching Protocols'')] = Inr (lit ''HTTP/1.1 101 Switching Protocol'', 31)"
  by code_simp

text \<open>A request with a version that is not in the table makes the server follow a null pointer: the wrong pointer is checked.\<close>

lemma Http_unknown_version_faults:
  "UHTTPSrv_ParseRequestLine no_sd (lit ''GET / HTTP/0.9'') 14 256 = Inl NullDeref"
  by code_simp

text \<open>A field is recognised by the beginning of its name alone.\<close>

lemma Http_field_prefix_taken:
  "map_sum id (uf_name \<circ> snd) (UHTTPSrv_ParseFieldLine no_sd (lit ''hostile: x'') 10
     \<lparr>uf_name = HTTP_FIELD_NAME_UNKNOWN, uf_name_str = [], uf_name_str_len = 0, uf_value = FV_i 0\<rparr>) = Inr HTTP_FIELD_NAME_HOST"
  by code_simp

text \<open>An error of the socket while a field is read is taken for a length: the line is parsed far past its end.\<close>

lemma Http_recv_error_unnoticed:
  assumes "sf_recv sf 1 t w = Some (Inr (ENOCONNECT, []), w')" "rq_state req = HTTP_STATE_READ_FIELDS" "length (rq_line req) = 257"
  shows "UHTTPSrv_ReadHeaderField sd sf t req field w = Some (Inl OutOfBounds, w')"
  using assms by (simp add: UHTTPSrv_ReadHeaderField_def UHTTPSrv_RecvLine_def recv_line_loop.simps [of sf t _ 0]
      abind_def ENOCONNECT_def EOK_def aret_def UHTTPSrv_ParseFieldLine_def alift_def afail_def)
end
