(* ===== verification/Dev_Seed.thy ===== *)
theory Dev_Seed
  imports Util_Endian
begin

text \<open>
  The random numbers, \<^verbatim>\<open>dev/src/seed.c\<close>: a shift register that is seeded from analog readings and the number of the
  chip. The readings \<open>vals\<close> and the number \<open>uid\<close> are arguments. The results: a random integer is in the range it was asked for,
  and the initialisation reads past the array with the number of the chip.
\<close>

unbundle bit_operations_syntax

record seed_state =
  sd_seed :: u32
  sd_generated :: bool
  sd_rand :: u32

text \<open>The size of the hashed data is that of the array of readings in both calls.\<close>

definition Seed_Init :: "u16 list \<Rightarrow> u32 list \<Rightarrow> fault + err_t \<times> seed_state" where
  "Seed_Init vals uid =
     (let sizeof_vals = 2 * 19 in
      bind_res (mem_read (concat (map le_bytes16 vals)) 0 sizeof_vals) (\<lambda>v.
      bind_res (mem_read (concat (map le_bytes32 uid)) 0 sizeof_vals) (\<lambda>u.
        let seed = Jenkins_OAAT (Jenkins_OAAT 0 v) u
        in Inr (EOK, \<lparr>sd_seed = seed, sd_generated = True, sd_rand = seed\<rparr>))))"

definition Seed_GetSeed :: "seed_state \<Rightarrow> fault + u32" where
  "Seed_GetSeed s = (if \<not> sd_generated s then Inl AssertFail else Inr (sd_seed s))"

definition Seed_GetRand :: "seed_state \<Rightarrow> fault + u32 \<times> seed_state" where
  "Seed_GetRand s =
     (if \<not> sd_generated s then Inl AssertFail
      else let r = LFSR32_Next (sd_rand s) in Inr (r, s\<lparr>sd_rand := r\<rparr>))"

text \<open>The difference is an \<open>int\<close>; the remainder and the sum are of unsigned numbers.\<close>

definition Seed_GetRandInt :: "int \<Rightarrow> int \<Rightarrow> seed_state \<Rightarrow> fault + int \<times> seed_state" where
  "Seed_GetRandInt a b s =
     (if a > b then Inr (0, s)
      else
        bind_res (Seed_GetRand s) (\<lambda>(r, s).
        let m = word_of_int (b - a + 1) :: u32 in
        if m = 0 then Inl DivByZero else Inr (sint (word_of_int a + r mod m :: u32), s)))"

lemma Seed_Init_overreads:
  assumes "length vals = 19" "length uid = 3"
  shows "Seed_Init vals uid = Inl OutOfBounds"
proof -
  have "length (concat (map le_bytes16 vals)) = 38" "length (concat (map le_bytes32 uid)) = 12"
    using assms by (simp_all add: length_concat comp_def sum_list_triv)
  then show ?thesis by (simp add: Seed_Init_def mem_read_def Let_def)
qed

lemma Seed_rand_in_range:
  assumes "a \<le> b" "- (2 ^ 31) \<le> a" "b < 2 ^ 31" "b - a + 1 < 2 ^ 31" "sd_generated s"
  shows "\<exists>r s'. Seed_GetRandInt a b s = Inr (r, s') \<and> a \<le> r \<and> r \<le> b \<and> sd_generated s'"
proof -
  define d where "d = b - a + 1"
  have d: "0 < d" "d < 2 ^ 31" "a + (d - 1) = b" using assms unfolding d_def by auto
  let ?m = "word_of_int d :: u32" and ?r = "LFSR32_Next (sd_rand s)"
  have m: "uint ?m = d" using d by (simp add: uint_word_of_int)
  then have m0: "?m \<noteq> 0" using d(1) by auto
  define k where "k = uint ?r mod d"
  have k: "0 \<le> k" "k < d" using d(1) by (simp_all add: k_def)
  have r: "uint (?r mod ?m) = k" by (simp add: uint_mod m k_def)
  define v where "v = a + k"
  have "word_of_int a + ?r mod ?m = (word_of_int v :: u32)"
    unfolding v_def by (metis r of_int_add word_of_int_uint)
  moreover have "sint (word_of_int v :: u32) = v"
  proof -
    have "- (2 ^ 31) \<le> v" "v < 2 ^ 31" using assms(2,3) d(3) k unfolding v_def by auto
    then show ?thesis by (simp add: signed_of_int signed_take_bit_int_eq_self)
  qed
  ultimately show ?thesis using assms(1,5) k d(3) m0
    by (simp add: Seed_GetRandInt_def Seed_GetRand_def Let_def d_def [symmetric]) (simp add: v_def)
qed

end
