(* ===== verification/Net_Websocket.thy ===== *)
theory Net_Websocket
  imports Net_Http Util_Sha Util_Base64 Dev_Seed
begin

text \<open>
  Websockets, \<^verbatim>\<open>net/websocket/src/websocket.c\<close> and \<^verbatim>\<open>net/websocket/websocket.h\<close>: the handshake of the client and of the
  server, and the frames. A websocket is the record \<open>websocket\<close>; the functions of its TCP socket are those of the record
  \<open>tcp_api\<close>, and \<open>task\<close> is the number of the calling task. \<open>pd\<close> and \<open>sd\<close> print and scan a floating point number. Loops
  over the socket have a bound on their rounds. Arrays on the stack start as zeros where the code writes what it reads; the
  frame header is read into an array whose contents, where the socket delivers less than asked for, is an argument
  \<open>junk\<close>.

  The main results: what the client sends is what the server receives, and the other way round; the value with which a
  server accepts a key; and what a handshake that succeeds has checked.
\<close>

unbundle bit_operations_syntax

section \<open>Data\<close>

datatype websocket_http_version = HTTP_VER_UNKNOWN | HTTP_VER_1V0 | HTTP_VER_1V1 | HTTP_VER_2V0 | HTTP_VER_3V0

datatype websocket_field_name =
    WS_FIELD_NAME_UNKNOWN | WS_FIELD_NAME_EMPTY | WS_FIELD_NAME_HOST | WS_FIELD_NAME_ORIGIN | WS_FIELD_NAME_CONNECTION
  | WS_FIELD_NAME_UPGRADE | WS_FIELD_NAME_SEC_WS_KEY | WS_FIELD_NAME_SEC_WS_PROTOCOL | WS_FIELD_NAME_SEC_WS_VERSION
  | WS_FIELD_NAME_SEC_WS_ACCEPT

text \<open>The bit of a field in the mask of the fields that were received, by its number.\<close>

fun field_bit :: "websocket_field_name \<Rightarrow> u32" where
  "field_bit WS_FIELD_NAME_UNKNOWN = push_bit 1 1"
| "field_bit WS_FIELD_NAME_EMPTY = push_bit 2 1"
| "field_bit WS_FIELD_NAME_HOST = push_bit 3 1"
| "field_bit WS_FIELD_NAME_ORIGIN = push_bit 4 1"
| "field_bit WS_FIELD_NAME_CONNECTION = push_bit 5 1"
| "field_bit WS_FIELD_NAME_UPGRADE = push_bit 6 1"
| "field_bit WS_FIELD_NAME_SEC_WS_KEY = push_bit 7 1"
| "field_bit WS_FIELD_NAME_SEC_WS_PROTOCOL = push_bit 8 1"
| "field_bit WS_FIELD_NAME_SEC_WS_VERSION = push_bit 9 1"
| "field_bit WS_FIELD_NAME_SEC_WS_ACCEPT = push_bit 10 1"

datatype websocket_status_code =
    WS_STATUS_UNKNOWN | WS_STATUS_101_SWITCHING_PROTOCOLS | WS_STATUS_400_BAD_REQUEST | WS_STATUS_404_NOT_FOUND
  | WS_STATUS_500_INTERNAL_SRV_ERR

datatype websocket_field_type = WS_FIELD_TYPE_INT | WS_FIELD_TYPE_FLOAT | WS_FIELD_TYPE_STR

datatype 'd websocket_field_value = WFV_i u32 | WFV_f 'd | WFV_s bytes

record 'd websocket_field =
  wf_name :: websocket_field_name
  wf_value :: "'d websocket_field_value"

datatype websocket_data_type = WS_DATA_TYPE_TEXT | WS_DATA_TYPE_BIN

datatype websocket_state = WS_STATE_CLOSED | WS_STATE_LISTEN | WS_STATE_OPEN

datatype websocket_role = WS_ROLE_SERVER | WS_ROLE_CLIENT

record websocket =
  wk_state :: websocket_state
  wk_tx_sem :: u32
  wk_rx_sem :: u32
  wk_rx_size :: u32
  wk_rx_offs :: u32
  wk_rx_opcode :: u16
  wk_mask :: bytes
  wk_role :: websocket_role

definition WEBSOCKETS_MAX_LINE_LEN :: nat where "WEBSOCKETS_MAX_LINE_LEN = 256"

definition WS_HDR_FIN :: u16 where "WS_HDR_FIN = 0x8000"
definition WS_HDR_OPCODE :: u16 where "WS_HDR_OPCODE = 0x0f00"
definition WS_HDR_OPCODE_TEXT :: u16 where "WS_HDR_OPCODE_TEXT = 0x0100"
definition WS_HDR_OPCODE_BIN :: u16 where "WS_HDR_OPCODE_BIN = 0x0200"
definition WS_HDR_OPCODE_CLOSE :: u16 where "WS_HDR_OPCODE_CLOSE = 0x0800"
definition WS_HDR_OPCODE_PING :: u16 where "WS_HDR_OPCODE_PING = 0x0900"
definition WS_HDR_OPCODE_PONG :: u16 where "WS_HDR_OPCODE_PONG = 0x0A00"
definition WS_HDR_MASKED :: u16 where "WS_HDR_MASKED = 0x0080"
definition WS_HDR_PLD_LEN :: u16 where "WS_HDR_PLD_LEN = 0x007f"

lemmas ws_hdr_bits = WS_HDR_FIN_def WS_HDR_OPCODE_def WS_HDR_OPCODE_TEXT_def WS_HDR_OPCODE_BIN_def WS_HDR_OPCODE_CLOSE_def
  WS_HDR_OPCODE_PING_def WS_HDR_OPCODE_PONG_def WS_HDR_MASKED_def WS_HDR_PLD_LEN_def

definition ws_magic :: bytes where
  "ws_magic = ascii ''258EAFA5-E914-47DA-95CA-C5AB0DC85B11''"

text \<open>The functions of the TCP socket, the clock, and what happens while the task yields.\<close>

record 'w tcp_api =
  ta_sock :: "'w sock_funcs"
  ta_connect :: "u32 \<Rightarrow> u16 \<Rightarrow> int \<Rightarrow> ('w, err_t) act"
  ta_listen :: "u16 \<Rightarrow> int \<Rightarrow> ('w, err_t) act"
  ta_close :: "int \<Rightarrow> ('w, err_t) act"
  ta_time :: "'w \<Rightarrow> u32"
  ta_yield :: "'w \<Rightarrow> 'w"

section \<open>Tables\<close>

text \<open>A number that is not given is zero in the code, and \<open>None\<close> here.\<close>

definition ws_version_lut :: "(websocket_http_version \<times> bytes) list" where
  "ws_version_lut = [(HTTP_VER_1V0, lit ''HTTP/1.0''), (HTTP_VER_1V1, lit ''HTTP/1.1''), (HTTP_VER_2V0, lit ''HTTP/2''),
     (HTTP_VER_3V0, lit ''HTTP/3'')]"

definition WebSocket_GetVersionSpec ::
  "websocket_http_version option \<Rightarrow> bytes option \<Rightarrow> fault + (websocket_http_version \<times> bytes) option" where
  "WebSocket_GetVersionSpec version str =
     one_key (version \<noteq> None) str (lut_find (\<lambda>l. version = Some (fst l)) (\<lambda>l. same_str str (snd l)) ws_version_lut)"

definition ws_status_lut :: "(websocket_status_code \<times> u32 \<times> bytes) list" where
  "ws_status_lut =
    [(WS_STATUS_101_SWITCHING_PROTOCOLS, 101, lit ''Switching Protocols''), (WS_STATUS_400_BAD_REQUEST, 400, lit ''Bad Request''),
     (WS_STATUS_404_NOT_FOUND, 404, lit ''Not Found''), (WS_STATUS_500_INTERNAL_SRV_ERR, 500, lit ''Internal Server Error'')]"

definition WebSocket_GetStatusCodeSpec ::
  "websocket_status_code option \<Rightarrow> u32 \<Rightarrow> bytes option \<Rightarrow> fault + (websocket_status_code \<times> u32 \<times> bytes) option" where
  "WebSocket_GetStatusCodeSpec code code_val msg =
     (if code \<noteq> None \<and> msg \<noteq> None \<and> code_val \<noteq> 0 then Inl AssertFail
      else if code = None \<and> msg = None \<and> code_val = 0 then Inl AssertFail
      else lut_find (\<lambda>l. code = Some (fst l) \<or> code_val \<noteq> 0 \<and> code_val = fst (snd l)) (\<lambda>l. prefix_str msg (snd (snd l))) ws_status_lut)"

definition ws_field_lut :: "(websocket_field_name \<times> websocket_field_type \<times> bytes) list" where
  "ws_field_lut =
    [(WS_FIELD_NAME_HOST, WS_FIELD_TYPE_STR, lit ''Host''), (WS_FIELD_NAME_ORIGIN, WS_FIELD_TYPE_STR, lit ''Origin''),
     (WS_FIELD_NAME_CONNECTION, WS_FIELD_TYPE_STR, lit ''Connection''), (WS_FIELD_NAME_UPGRADE, WS_FIELD_TYPE_STR, lit ''Upgrade''),
     (WS_FIELD_NAME_SEC_WS_KEY, WS_FIELD_TYPE_STR, lit ''Sec-WebSocket-Key''),
     (WS_FIELD_NAME_SEC_WS_PROTOCOL, WS_FIELD_TYPE_STR, lit ''Sec-WebSocket-Protocol''),
     (WS_FIELD_NAME_SEC_WS_VERSION, WS_FIELD_TYPE_INT, lit ''Sec-WebSocket-Version''),
     (WS_FIELD_NAME_SEC_WS_ACCEPT, WS_FIELD_TYPE_STR, lit ''Sec-WebSocket-Accept'')]"

definition WebSocket_GetFieldSpec ::
  "websocket_field_name option \<Rightarrow> bytes option \<Rightarrow> fault + (websocket_field_name \<times> websocket_field_type \<times> bytes) option" where
  "WebSocket_GetFieldSpec name str =
     one_key (name \<noteq> None) str (lut_find (\<lambda>l. name = Some (fst l)) (\<lambda>l. prefix_str str (snd (snd l))) ws_field_lut)"

section \<open>Lines\<close>

text \<open>The destinations of a scan are numbered. The URL is returned when the line was accepted.\<close>

definition WebSocket_ParseRequestLine ::
  "(bytes \<Rightarrow> u32 \<Rightarrow> bool \<Rightarrow> fs \<Rightarrow> int \<times> 'd scan_val option) \<Rightarrow> bytes \<Rightarrow> u32 \<Rightarrow> u32 \<Rightarrow> fault + err_t \<times> bytes option" where
  "WebSocket_ParseRequestLine sd line line_len url_size =
     bind_res (c_text line) (\<lambda>text.
     bind_res (snscanf sd text line_len (ascii ''%.*s %.*s %.*s'')
         [SvaInt 9, SvaPtr (Some 0), SvaInt url_size, SvaPtr (Some 1), SvaInt 9, SvaPtr (Some 2)]) (\<lambda>(n, st).
     if n \<noteq> 3 then Inr (EARGVAL, None)
     else
       bind_res (stored_str 0 st) (\<lambda>method_str.
       bind_res (stored_str 1 st) (\<lambda>url.
       bind_res (stored_str 2 st) (\<lambda>version_str.
       bind_res (strcmp method_str (lit ''GET'')) (\<lambda>c.
       if c \<noteq> 0 then Inr (EARGVAL, None)
       else
         bind_res (WebSocket_GetVersionSpec None (Some version_str)) (\<lambda>v_spec.
         if v_spec = None then Inr (EFATAL, None) else Inr (EOK, Some url))))))))"

text \<open>The only caller gives no place for the version. The result of the second look up is not checked.\<close>

definition WebSocket_ParseStatusLine ::
  "(bytes \<Rightarrow> u32 \<Rightarrow> bool \<Rightarrow> fs \<Rightarrow> int \<times> 'd scan_val option) \<Rightarrow> bytes \<Rightarrow> u32 \<Rightarrow> fault + err_t \<times> websocket_status_code option" where
  "WebSocket_ParseStatusLine sd line line_len =
     bind_res (c_text line) (\<lambda>text.
     bind_res (snscanf sd text line_len (ascii ''%.*s %d %.*s'')
         [SvaInt 15, SvaPtr (Some 0), SvaPtr (Some 1), SvaInt 63, SvaPtr (Some 2)]) (\<lambda>(n, st).
     if n \<noteq> 3 then Inr (EARGVAL, None)
     else
       bind_res (stored_str 0 st) (\<lambda>version_str.
       bind_res (case map_of st 1 of Some (SInt i) \<Rightarrow> Inr i | _ \<Rightarrow> Inl Uninit) (\<lambda>code_value.
       bind_res (WebSocket_GetVersionSpec None (Some version_str)) (\<lambda>v_spec.
       if v_spec = None then Inr (EFATAL, None)
       else
         bind_res (WebSocket_GetStatusCodeSpec None code_value None) (\<lambda>s_spec.
         if v_spec = None then Inr (EFATAL, None)
         else
           case s_spec of
             None \<Rightarrow> Inl NullDeref
           | Some s \<Rightarrow> Inr (EOK, Some (fst s))))))))"

text \<open>The field is returned when the line was accepted. The value of an unknown field is cut to the size of the array.\<close>

definition WebSocket_ParseFieldLine ::
  "(bytes \<Rightarrow> u32 \<Rightarrow> bool \<Rightarrow> fs \<Rightarrow> int \<times> 'd scan_val option) \<Rightarrow> bytes \<Rightarrow> u32 \<Rightarrow> fault + err_t \<times> 'd websocket_field option" where
  "WebSocket_ParseFieldLine sd line line_len =
     (if length line < unat line_len \<or> line = [] then Inl OutOfBounds
      else if hd line = 0 then Inr (EOK, Some \<lparr>wf_name = WS_FIELD_NAME_EMPTY, wf_value = WFV_i 0\<rparr>)
      else
        let i = name_end (unat line_len) line in
        if length line \<le> i then Inl OutOfBounds
        else if line ! i \<noteq> 58 then Inr (EFATAL, None)
        else
          let v = Suc i + space_end (unat line_len - Suc i) (drop (Suc i) line);
              vsize = line_len - of_nat v
          in
          bind_res (WebSocket_GetFieldSpec None (Some line)) (\<lambda>fs.
          case fs of
            None \<Rightarrow>
              bind_res (strlcpy (replicate 32 0) (drop v line) (min 32 (unat vsize))) (\<lambda>(_, s).
                Inr (EOK, Some \<lparr>wf_name = WS_FIELD_NAME_UNKNOWN, wf_value = WFV_s s\<rparr>))
          | Some (name, ty, str) \<Rightarrow>
              (case ty of
                 WS_FIELD_TYPE_STR \<Rightarrow>
                   bind_res (strlcpy (replicate 32 0) (drop v line) 32) (\<lambda>(_, s).
                     Inr (EOK, Some \<lparr>wf_name = name, wf_value = WFV_s s\<rparr>))
               | _ \<Rightarrow>
                   bind_res (c_text (drop v line)) (\<lambda>text.
                   bind_res (snscanf sd text vsize (ascii (if ty = WS_FIELD_TYPE_INT then ''%i'' else ''%a'')) [SvaPtr (Some 0)])
                     (\<lambda>(n, st).
                     if n \<noteq> 1 then Inr (EFATAL, None)
                     else
                       (case map_of st 0 of
                          Some (SInt i) \<Rightarrow> Inr (EOK, Some \<lparr>wf_name = name, wf_value = WFV_i i\<rparr>)
                        | _ \<Rightarrow> Inl Uninit))))))"


section \<open>Sending and receiving lines\<close>

definition WebSocket_SendEmptyLine :: "'w sock_funcs \<Rightarrow> ('w, err_t) act" where
  "WebSocket_SendEmptyLine sf = sf_send sf (CRLF @ [0]) 2 0"

text \<open>The condition is the wrong way round: a URL that is given is replaced by the root, a null pointer is printed.\<close>

definition WebSocket_SendRequestLine :: "(u32 \<Rightarrow> 'd \<Rightarrow> fs \<Rightarrow> bytes) \<Rightarrow> 'w sock_funcs \<Rightarrow> bytes option \<Rightarrow> ('w, err_t) act" where
  "WebSocket_SendRequestLine pd sf url =
     abind (alift (WebSocket_GetVersionSpec (Some HTTP_VER_1V1) None)) (\<lambda>vspec.
     case (if url \<noteq> None then Some (lit ''/'') else url) of
       None \<Rightarrow> afail NullDeref
     | Some s \<Rightarrow>
         (case vspec of
            None \<Rightarrow> afail NullDeref
          | Some (_, vstr) \<Rightarrow>
              abind (alift (snprintf pd (replicate (WEBSOCKETS_MAX_LINE_LEN + 1) 0) (of_nat (WEBSOCKETS_MAX_LINE_LEN + 1))
                  (ascii ''GET %s %s'' @ CRLF) [VStr s, VStr vstr]))
                (\<lambda>(line, len). sf_send sf line (of_nat len) 0)))"

definition WebSocket_SendStatusLine ::
  "(u32 \<Rightarrow> 'd \<Rightarrow> fs \<Rightarrow> bytes) \<Rightarrow> 'w sock_funcs \<Rightarrow> websocket_http_version \<Rightarrow> websocket_status_code \<Rightarrow> ('w, err_t) act" where
  "WebSocket_SendStatusLine pd sf version code =
     abind (alift (WebSocket_GetVersionSpec (Some version) None)) (\<lambda>vspec.
     case vspec of
       None \<Rightarrow> aret EFATAL
     | Some (_, vstr) \<Rightarrow>
         abind (alift (WebSocket_GetStatusCodeSpec (Some code) 0 None)) (\<lambda>cspec.
         case cspec of
           None \<Rightarrow> aret EFATAL
         | Some (_, val, msg) \<Rightarrow>
             abind (alift (snprintf pd (replicate WEBSOCKETS_MAX_LINE_LEN 0) (of_nat WEBSOCKETS_MAX_LINE_LEN)
                 (ascii ''%s %d %s'' @ CRLF) [VStr vstr, VInt val, VStr msg]))
               (\<lambda>(response, len). sf_send sf response (of_nat len) 0)))"

definition WebSocket_SendFieldLine ::
  "(u32 \<Rightarrow> 'd \<Rightarrow> fs \<Rightarrow> bytes) \<Rightarrow> 'w sock_funcs \<Rightarrow> websocket_field_name \<Rightarrow> 'd va \<Rightarrow> ('w, err_t) act" where
  "WebSocket_SendFieldLine pd sf name arg =
     abind (alift (WebSocket_GetFieldSpec (Some name) None)) (\<lambda>fs.
     case fs of
       None \<Rightarrow> aret EFATAL
     | Some (_, ty, str) \<Rightarrow>
         abind (alift (snprintf pd (replicate (WEBSOCKETS_MAX_LINE_LEN + 1) 0) (of_nat (WEBSOCKETS_MAX_LINE_LEN + 1))
             (ascii (case ty of WS_FIELD_TYPE_INT \<Rightarrow> ''%s: %i'' | WS_FIELD_TYPE_FLOAT \<Rightarrow> ''%s: %f'' | WS_FIELD_TYPE_STR \<Rightarrow> ''%s: %s'') @ CRLF)
             [VStr str, arg]))
           (\<lambda>(line, len). sf_send sf line (of_nat len) 0))"

definition WebSocket_RecvLine :: "'w sock_funcs \<Rightarrow> bytes \<Rightarrow> nat \<Rightarrow> ('w, err_t \<times> bytes) act" where
  "WebSocket_RecvLine sf line bsz =
     abind (recv_line_loop sf 0 bsz 0 line) (\<lambda>(r, line).
       case r of
         Inl ec \<Rightarrow> aret (ec, line)
       | Inr c \<Rightarrow> let c = strip_end line c in aret (int c, line[c := 0]))"

definition WebSocket_RecvStatusLine ::
  "(bytes \<Rightarrow> u32 \<Rightarrow> bool \<Rightarrow> fs \<Rightarrow> int \<times> 'd scan_val option) \<Rightarrow> 'w sock_funcs \<Rightarrow> ('w, err_t \<times> websocket_status_code option) act" where
  "WebSocket_RecvStatusLine sd sf =
     abind (WebSocket_RecvLine sf (replicate (WEBSOCKETS_MAX_LINE_LEN + 1) 0) WEBSOCKETS_MAX_LINE_LEN) (\<lambda>(line_len, line).
     if line_len < EOK then aret (EFATAL, None)
     else
       abind (alift (WebSocket_ParseStatusLine sd line (word_of_int line_len))) (\<lambda>(ec, code).
       if ec < EOK then aret (EFATAL, None) else aret (EOK, code)))"

definition WebSocket_RecvRequestLine ::
  "(bytes \<Rightarrow> u32 \<Rightarrow> bool \<Rightarrow> fs \<Rightarrow> int \<times> 'd scan_val option) \<Rightarrow> 'w sock_funcs \<Rightarrow> u32 \<Rightarrow> ('w, err_t \<times> bytes option) act" where
  "WebSocket_RecvRequestLine sd sf url_size =
     abind (WebSocket_RecvLine sf (replicate (WEBSOCKETS_MAX_LINE_LEN + 1) 0) WEBSOCKETS_MAX_LINE_LEN) (\<lambda>(line_len, line).
     if line_len < EOK then aret (EFATAL, None)
     else
       abind (alift (WebSocket_ParseRequestLine sd line (word_of_int line_len) url_size)) (\<lambda>(ec, url).
       if ec < EOK then aret (EFATAL, None) else aret (EOK, url)))"

definition Websocket_RecvFieldLine ::
  "(bytes \<Rightarrow> u32 \<Rightarrow> bool \<Rightarrow> fs \<Rightarrow> int \<times> 'd scan_val option) \<Rightarrow> 'w sock_funcs \<Rightarrow> ('w, err_t \<times> 'd websocket_field option) act" where
  "Websocket_RecvFieldLine sd sf =
     abind (WebSocket_RecvLine sf (replicate (WEBSOCKETS_MAX_LINE_LEN + 1) 0) (WEBSOCKETS_MAX_LINE_LEN + 1)) (\<lambda>(line_len, line).
     if line_len < EOK then aret (EFATAL, None)
     else
       abind (alift (WebSocket_ParseFieldLine sd line (word_of_int line_len))) (\<lambda>(ec, field).
       if ec < EOK then aret (EFATAL, None) else aret (EOK, field)))"

definition WebSocket_SendErrorReply :: "(u32 \<Rightarrow> 'd \<Rightarrow> fs \<Rightarrow> bytes) \<Rightarrow> 'w sock_funcs \<Rightarrow> websocket_status_code \<Rightarrow> ('w, err_t) act" where
  "WebSocket_SendErrorReply pd sf code =
     abind (WebSocket_SendStatusLine pd sf HTTP_VER_1V1 code) (\<lambda>ec.
     if ec \<ge> EOK then WebSocket_SendEmptyLine sf else aret ec)"

section \<open>Frames\<close>

text \<open>
  A header is read into a structure of 14 bytes. The header word and the size are returned when they were written; the
  number of bytes that follow is 4 for a 64 bit size as well.
\<close>

definition is_masked :: "u16 \<Rightarrow> bool" where
  "is_masked hdr \<longleftrightarrow> hdr AND WS_HDR_MASKED \<noteq> 0"

definition be_size64 :: "bytes \<Rightarrow> u32" where
  "be_size64 b = be_word32 (drop 4 b)"

definition WebSocket_RecvHeader ::
  "('w \<Rightarrow> bytes) \<Rightarrow> 'w sock_funcs \<Rightarrow> int \<Rightarrow> websocket \<Rightarrow> ('w, err_t \<times> u16 option \<times> u32 option \<times> websocket) act" where
  "WebSocket_RecvHeader junk sf timeout ws =
     abind (aget junk) (\<lambda>pld.
     abind (sf_recv sf 2 timeout) (\<lambda>(ec, d).
     if ec < EOK then aret (ec, None, None, ws)
     else
       abind (alift (mem_write pld 0 d)) (\<lambda>pld.
       let hdr = be_word16 pld in
       if wk_role ws = WS_ROLE_SERVER \<and> \<not> is_masked hdr \<or> wk_role ws = WS_ROLE_CLIENT \<and> is_masked hdr
       then aret (EFATAL, Some hdr, None, ws)
       else
         let decoded_size = hdr AND WS_HDR_PLD_LEN;
             bsize = (if decoded_size < 126 then Some (ucast decoded_size) else None);
             bytes_to_get = (if is_masked hdr then 4 else 0) + (if decoded_size < 126 then 0 else if decoded_size = 126 then 2 else 4)
         in
         abind (sf_recv sf bytes_to_get 0) (\<lambda>(ec, d).
         if ec < EOK then aret (ec, Some hdr, bsize, ws)
         else
           abind (alift (mem_write pld 2 d)) (\<lambda>pld.
           let (bsize, mask_ptr) =
                 (if decoded_size = 126 then (Some (ucast (be_word16 (drop 2 pld))), 4)
                  else if decoded_size = 127 then (Some (be_size64 (drop 2 pld)), 10)
                  else (bsize, 2))
           in
           if is_masked hdr
           then abind (alift (mem_read pld mask_ptr 4)) (\<lambda>m. aret (EOK, Some hdr, bsize, ws\<lparr>wk_mask := m\<rparr>))
           else aret (EOK, Some hdr, bsize, ws))))))"

definition size_field :: "u32 \<Rightarrow> u16 \<times> bytes" where
  "size_field bsz =
     (if bsz < 126 then (ucast bsz, [])
      else if bsz < 0xffff then (126, be_bytes16 (ucast bsz))
      else (127, be_bytes32 0 @ be_bytes32 bsz))"

definition WebSocket_SendHeader ::
  "'w tcp_api \<Rightarrow> u16 \<Rightarrow> u32 \<Rightarrow> websocket \<Rightarrow> ('w, err_t \<times> websocket) act" where
  "WebSocket_SendHeader api hdr bsz ws =
     abind (aget (ta_time api)) (\<lambda>now.
      let hdr = hdr OR WS_HDR_FIN OR fst (size_field bsz);
          ws = (if wk_role ws = WS_ROLE_CLIENT then ws\<lparr>wk_mask := le_bytes32 now\<rparr> else ws);
          hdr = (if wk_role ws = WS_ROLE_CLIENT then hdr OR WS_HDR_MASKED else hdr);
          pld = be_bytes16 hdr @ snd (size_field bsz) @ (if wk_role ws = WS_ROLE_CLIENT then wk_mask ws else [])
      in abind (sf_send (ta_sock api) pld (of_nat (length pld)) 0) (\<lambda>ec. aret (ec, ws)))"

text \<open>The mask is applied from its first byte on in every piece of at most 32 bytes.\<close>

definition xor_mask :: "bytes \<Rightarrow> bytes \<Rightarrow> bytes" where
  "xor_mask m d = map (\<lambda>i. d ! i XOR m ! (i mod 4)) [0..<length d]"

text \<open>The loops over the payload; \<open>f\<close> is what is done to each piece. \<open>ptr\<close> is the destination, or null.\<close>

fun recv_payload_loop :: "nat \<Rightarrow> 'w sock_funcs \<Rightarrow> (bytes \<Rightarrow> bytes) \<Rightarrow> bytes option \<Rightarrow> u32 \<Rightarrow> u32 \<Rightarrow> ('w, err_t \<times> bytes option) act" where
  "recv_payload_loop fuel sf f ptr bsz offs =
     (if \<not> offs < bsz then aret (sint offs, ptr)
      else
        case fuel of
          0 \<Rightarrow> (\<lambda>w. None)
        | Suc fuel \<Rightarrow>
            abind (sf_recv sf (min 32 (bsz - offs)) 0) (\<lambda>(ec, d).
            if ec < EOK then aret (ec, ptr)
            else
              abind (alift (mem_write (replicate 32 0) 0 d)) (\<lambda>buf.
              abind (alift (mem_read buf 0 (nat ec))) (\<lambda>d.
              case ptr of
                None \<Rightarrow> recv_payload_loop fuel sf f ptr bsz (offs + word_of_int ec)
              | Some p \<Rightarrow>
                  abind (alift (mem_write p (unat offs) (f d))) (\<lambda>p.
                    recv_payload_loop fuel sf f (Some p) bsz (offs + word_of_int ec))))))"

declare recv_payload_loop.simps [simp del]

definition WebSocket_RecvPayload :: "nat \<Rightarrow> 'w sock_funcs \<Rightarrow> bytes option \<Rightarrow> u32 \<Rightarrow> websocket \<Rightarrow> ('w, err_t \<times> bytes option) act" where
  "WebSocket_RecvPayload fuel sf ptr bsz ws =
     recv_payload_loop fuel sf (if wk_role ws = WS_ROLE_SERVER then xor_mask (wk_mask ws) else (\<lambda>d. d)) ptr bsz 0"

fun send_payload_loop :: "nat \<Rightarrow> 'w sock_funcs \<Rightarrow> (bytes \<Rightarrow> bytes) \<Rightarrow> bytes \<Rightarrow> u32 \<Rightarrow> u32 \<Rightarrow> ('w, err_t) act" where
  "send_payload_loop fuel sf f ptr bsz offs =
     (if \<not> offs < bsz then aret (sint offs)
      else
        case fuel of
          0 \<Rightarrow> (\<lambda>w. None)
        | Suc fuel \<Rightarrow>
            let t_size = min 32 (bsz - offs) in
            abind (alift (mem_read ptr (unat offs) (unat t_size))) (\<lambda>buf.
            abind (sf_send sf (f buf) t_size 0) (\<lambda>ec.
            if ec < EOK then aret ec else send_payload_loop fuel sf f ptr bsz (offs + word_of_int ec))))"

declare send_payload_loop.simps [simp del]

definition WebSocket_SendPayload :: "nat \<Rightarrow> 'w sock_funcs \<Rightarrow> bytes \<Rightarrow> u32 \<Rightarrow> websocket \<Rightarrow> ('w, err_t) act" where
  "WebSocket_SendPayload fuel sf ptr bsz ws =
     send_payload_loop fuel sf (if wk_role ws = WS_ROLE_CLIENT then xor_mask (wk_mask ws) else (\<lambda>d. d)) ptr bsz 0"

definition WebSocket_ComputeAccept :: "bytes \<Rightarrow> fault + bytes" where
  "WebSocket_ComputeAccept key =
     bind_res (mem_read key 0 24) (\<lambda>k.
     bind_res (SHA1_Digest SHA1_InitState False k) (\<lambda>(_, sha1).
     bind_res (SHA1_Digest sha1 True ws_magic) (\<lambda>(_, sha1).
     bind_res (SHA1_GetHashVal sha1 20) (\<lambda>(hash_size, hash).
     bind_res (Base64_Encode (take (nat hash_size) hash) 29) (\<lambda>(accept_size, out).
     bind_res (mem_write (replicate 30 0) 0 out) (\<lambda>accept.
       mem_write accept (unat (word_of_int accept_size :: u32)) [0]))))))"

definition WebSockSrv_Init :: err_t where
  "WebSockSrv_Init = EOK"

section \<open>Handshake\<close>

text \<open>The value of a field as a string, or as an integer.\<close>

definition wf_s :: "'d websocket_field \<Rightarrow> fault + bytes" where
  "wf_s f = (case wf_value f of WFV_s s \<Rightarrow> Inr s | _ \<Rightarrow> Inl Uninit)"

definition wf_i :: "'d websocket_field \<Rightarrow> fault + u32" where
  "wf_i f = (case wf_value f of WFV_i i \<Rightarrow> Inr i | _ \<Rightarrow> Inl Uninit)"

definition make_key :: "seed_state \<Rightarrow> fault + bytes \<times> seed_state" where
  "make_key s0 =
     bind_res (Seed_GetRand s0) (\<lambda>(n0, s1). bind_res (Seed_GetRand s1) (\<lambda>(n1, s2).
     bind_res (Seed_GetRand s2) (\<lambda>(n2, s3). bind_res (Seed_GetRand s3) (\<lambda>(n3, s4).
     bind_res (Base64_Encode (le_bytes32 n0 @ le_bytes32 n1 @ le_bytes32 n2 @ le_bytes32 n3) 25) (\<lambda>(key_size, out).
     bind_res (mem_write (replicate 25 0) 0 out) (\<lambda>key.
     bind_res (mem_write key (unat (word_of_int key_size :: u32)) [0]) (\<lambda>key. Inr (key, s4))))))))"

text \<open>Whether the client goes on after a field of the server's answer.\<close>

definition connect_field :: "bytes \<Rightarrow> 'd websocket_field \<Rightarrow> fault + bool" where
  "connect_field key f =
     (case wf_name f of
        WS_FIELD_NAME_CONNECTION \<Rightarrow>
          bind_res (wf_s f) (\<lambda>s. bind_res (strcistr s (lit ''Upgrade'')) (\<lambda>p. Inr (p \<noteq> None)))
      | WS_FIELD_NAME_UPGRADE \<Rightarrow>
          bind_res (wf_s f) (\<lambda>s. bind_res (strcicmp s (lit ''websocket'')) (\<lambda>c. Inr (c = 0)))
      | WS_FIELD_NAME_SEC_WS_ACCEPT \<Rightarrow>
          bind_res (wf_s f) (\<lambda>s. bind_res (strlen s) (\<lambda>n.
            if n \<noteq> 28 then Inr False
            else bind_res (WebSocket_ComputeAccept key) (\<lambda>accept. bind_res (memcmp accept s 28) (\<lambda>c. Inr (c = 0)))))
      | _ \<Rightarrow> Inr True)"

fun connect_fields ::
  "nat \<Rightarrow> (bytes \<Rightarrow> u32 \<Rightarrow> bool \<Rightarrow> fs \<Rightarrow> int \<times> 'd scan_val option) \<Rightarrow> 'w sock_funcs \<Rightarrow> bytes \<Rightarrow> u32 \<Rightarrow> ('w, u32 option) act" where
  "connect_fields 0 sd sf key field_mask = (\<lambda>w. None)"
| "connect_fields (Suc fuel) sd sf key field_mask =
     abind (Websocket_RecvFieldLine sd sf) (\<lambda>(ec, field).
     if ec < EOK then aret None
     else
       case field of
         None \<Rightarrow> afail Uninit
       | Some f \<Rightarrow>
           if wf_name f = WS_FIELD_NAME_EMPTY then aret (Some field_mask)
           else
             abind (alift (connect_field key f)) (\<lambda>go.
             if go then connect_fields fuel sd sf key (field_mask OR field_bit (wf_name f)) else aret None))"

definition connect_req_mask :: u32 where
  "connect_req_mask = field_bit WS_FIELD_NAME_SEC_WS_ACCEPT OR field_bit WS_FIELD_NAME_CONNECTION OR field_bit WS_FIELD_NAME_UPGRADE"

text \<open>From the request line to the last field of the answer: the result is whether the connection is accepted.\<close>

definition connect_talk ::
  "nat \<Rightarrow> (u32 \<Rightarrow> 'd \<Rightarrow> fs \<Rightarrow> bytes) \<Rightarrow> (bytes \<Rightarrow> u32 \<Rightarrow> bool \<Rightarrow> fs \<Rightarrow> int \<times> 'd scan_val option) \<Rightarrow> 'w sock_funcs \<Rightarrow> bytes option \<Rightarrow>
   seed_state \<Rightarrow> ('w, bool \<times> seed_state) act" where
  "connect_talk fuel pd sd sf url seed =
     abind (WebSocket_SendRequestLine pd sf url) (\<lambda>ec.
     if ec < EOK then aret (False, seed)
     else
       abind (alift (make_key seed)) (\<lambda>(key, seed).
       abind (WebSocket_SendFieldLine pd sf WS_FIELD_NAME_UPGRADE (VStr (lit ''websocket''))) (\<lambda>e1.
       abind (WebSocket_SendFieldLine pd sf WS_FIELD_NAME_CONNECTION (VStr (lit ''Upgrade''))) (\<lambda>e2.
       abind (WebSocket_SendFieldLine pd sf WS_FIELD_NAME_SEC_WS_KEY (VStr key)) (\<lambda>e3.
       abind (WebSocket_SendFieldLine pd sf WS_FIELD_NAME_SEC_WS_VERSION (VInt 13)) (\<lambda>e4.
       abind (WebSocket_SendEmptyLine sf) (\<lambda>e5.
       if ec OR e1 OR e2 OR e3 OR e4 OR e5 < EOK then aret (False, seed)
       else
         abind (WebSocket_RecvStatusLine sd sf) (\<lambda>(ec, code).
         if ec < EOK then aret (False, seed)
         else
           case code of
             None \<Rightarrow> afail Uninit
           | Some c \<Rightarrow>
               if c \<noteq> WS_STATUS_101_SWITCHING_PROTOCOLS then aret (False, seed)
               else
                 abind (connect_fields fuel sd sf key 0) (\<lambda>m.
                 case m of
                   None \<Rightarrow> aret (False, seed)
                 | Some field_mask \<Rightarrow> aret (field_mask AND connect_req_mask = connect_req_mask, seed))))))))))"

definition WebSocket_Connect ::
  "nat \<Rightarrow> (u32 \<Rightarrow> 'd \<Rightarrow> fs \<Rightarrow> bytes) \<Rightarrow> (bytes \<Rightarrow> u32 \<Rightarrow> bool \<Rightarrow> fs \<Rightarrow> int \<times> 'd scan_val option) \<Rightarrow> 'w tcp_api \<Rightarrow> seed_state \<Rightarrow>
   u32 \<Rightarrow> u16 \<Rightarrow> bytes option \<Rightarrow> websocket \<Rightarrow> ('w, err_t \<times> seed_state \<times> websocket) act" where
  "WebSocket_Connect fuel pd sd api seed ip port url ws =
     (if wk_state ws \<noteq> WS_STATE_CLOSED \<or> port = 0 then aret (EARGVAL, seed, ws)
      else
        let ws = ws\<lparr>wk_role := WS_ROLE_CLIENT\<rparr> in
        abind (ta_connect api ip port 0) (\<lambda>ec.
        abind (if ec < EOK then aret (False, seed) else connect_talk fuel pd sd (ta_sock api) url seed) (\<lambda>(accepted, seed).
        if accepted then aret (EOK, seed, ws\<lparr>wk_rx_size := 0, wk_rx_offs := 0, wk_state := WS_STATE_OPEN\<rparr>)
        else abind (ta_close api 0) (\<lambda>_. aret (EFATAL, seed, ws\<lparr>wk_state := WS_STATE_CLOSED\<rparr>)))))"

text \<open>The server waits for a connection: the code with which it gives up, or goes on.\<close>

fun listen_wait :: "nat \<Rightarrow> 'w tcp_api \<Rightarrow> u16 \<Rightarrow> int \<Rightarrow> u32 \<Rightarrow> ('w, err_t + err_t) act" where
  "listen_wait 0 api port timeout ts = (\<lambda>w. None)"
| "listen_wait (Suc fuel) api port timeout ts =
     abind (ta_listen api port timeout) (\<lambda>ec w.
       if ec = ETIMEOUT then aret (Inl ec) w
       else if timeout \<noteq> 0 \<and> dtime (ta_time api w) ts > timeout then aret (Inl ETIMEOUT) w
       else if ec < EOK then listen_wait fuel api port timeout ts w
       else aret (Inr ec) w)"

text \<open>What the server makes of a field of the request: an error, and the key.\<close>

definition listen_field :: "'d websocket_field \<Rightarrow> bytes option \<Rightarrow> fault + websocket_status_code \<times> bytes option" where
  "listen_field f key =
     (case wf_name f of
        WS_FIELD_NAME_CONNECTION \<Rightarrow>
          bind_res (wf_s f) (\<lambda>s. bind_res (strcistr s (lit ''Upgrade'')) (\<lambda>p.
            Inr (if p = None then WS_STATUS_400_BAD_REQUEST else WS_STATUS_UNKNOWN, key)))
      | WS_FIELD_NAME_UPGRADE \<Rightarrow>
          bind_res (wf_s f) (\<lambda>s. bind_res (strcicmp s (lit ''websocket'')) (\<lambda>c.
            Inr (if c \<noteq> 0 then WS_STATUS_400_BAD_REQUEST else WS_STATUS_UNKNOWN, key)))
      | WS_FIELD_NAME_SEC_WS_VERSION \<Rightarrow>
          bind_res (wf_i f) (\<lambda>i. Inr (if i \<noteq> 13 then WS_STATUS_400_BAD_REQUEST else WS_STATUS_UNKNOWN, key))
      | WS_FIELD_NAME_SEC_WS_KEY \<Rightarrow>
          bind_res (wf_s f) (\<lambda>s. bind_res (strlen s) (\<lambda>n.
            if n \<noteq> 24 then Inr (WS_STATUS_400_BAD_REQUEST, key)
            else bind_res (mem_read s 0 24) (\<lambda>k. Inr (WS_STATUS_UNKNOWN, Some k))))
      | _ \<Rightarrow> Inr (WS_STATUS_UNKNOWN, key))"

fun listen_fields ::
  "nat \<Rightarrow> (bytes \<Rightarrow> u32 \<Rightarrow> bool \<Rightarrow> fs \<Rightarrow> int \<times> 'd scan_val option) \<Rightarrow> 'w sock_funcs \<Rightarrow> u32 \<Rightarrow> bytes option \<Rightarrow>
   ('w, (err_t \<times> websocket_status_code) + (u32 \<times> bytes option)) act" where
  "listen_fields 0 sd sf field_mask key = (\<lambda>w. None)"
| "listen_fields (Suc fuel) sd sf field_mask key =
     abind (Websocket_RecvFieldLine sd sf) (\<lambda>(ec, field).
     if ec < EOK then aret (Inl (ec, if ec = EFATAL then WS_STATUS_400_BAD_REQUEST else WS_STATUS_UNKNOWN))
     else
       case field of
         None \<Rightarrow> afail Uninit
       | Some f \<Rightarrow>
           if wf_name f = WS_FIELD_NAME_EMPTY then aret (Inr (field_mask, key))
           else
             abind (alift (listen_field f key)) (\<lambda>(error_code, key).
             if error_code \<noteq> WS_STATUS_UNKNOWN then aret (Inl (ec, error_code))
             else listen_fields fuel sd sf (field_mask OR field_bit (wf_name f)) key))"

definition listen_req_mask :: u32 where
  "listen_req_mask = field_bit WS_FIELD_NAME_HOST OR field_bit WS_FIELD_NAME_SEC_WS_VERSION OR field_bit WS_FIELD_NAME_SEC_WS_KEY OR
     field_bit WS_FIELD_NAME_CONNECTION OR field_bit WS_FIELD_NAME_UPGRADE"

text \<open>The answer of a server that accepts.\<close>

definition listen_accept :: "(u32 \<Rightarrow> 'd \<Rightarrow> fs \<Rightarrow> bytes) \<Rightarrow> 'w sock_funcs \<Rightarrow> err_t \<Rightarrow> bytes \<Rightarrow> ('w, err_t) act" where
  "listen_accept pd sf ec key =
     abind (alift (WebSocket_ComputeAccept key)) (\<lambda>accept.
     abind (WebSocket_SendStatusLine pd sf HTTP_VER_1V1 WS_STATUS_101_SWITCHING_PROTOCOLS) (\<lambda>e1.
     abind (WebSocket_SendFieldLine pd sf WS_FIELD_NAME_UPGRADE (VStr (lit ''websocket''))) (\<lambda>e2.
     abind (WebSocket_SendFieldLine pd sf WS_FIELD_NAME_CONNECTION (VStr (lit ''Upgrade''))) (\<lambda>e3.
     abind (WebSocket_SendFieldLine pd sf WS_FIELD_NAME_SEC_WS_ACCEPT (VStr accept)) (\<lambda>e4.
     abind (WebSocket_SendEmptyLine sf) (\<lambda>e5. aret (ec OR e1 OR e2 OR e3 OR e4 OR e5)))))))"

text \<open>The part of \<open>WebSocket_Listen\<close> after the connection: the error code, the status to be sent, and whether it is accepted.\<close>

definition listen_talk ::
  "nat \<Rightarrow> (u32 \<Rightarrow> 'd \<Rightarrow> fs \<Rightarrow> bytes) \<Rightarrow> (bytes \<Rightarrow> u32 \<Rightarrow> bool \<Rightarrow> fs \<Rightarrow> int \<times> 'd scan_val option) \<Rightarrow> 'w sock_funcs \<Rightarrow> bytes option \<Rightarrow>
   ('w, err_t \<times> websocket_status_code \<times> bool) act" where
  "listen_talk fuel pd sd sf url =
     abind (WebSocket_RecvRequestLine sd sf (of_nat (WEBSOCKETS_MAX_LINE_LEN + 1))) (\<lambda>(ec, req_url).
     if ec < EOK then aret (ec, WS_STATUS_UNKNOWN, False)
     else
       case req_url of
         None \<Rightarrow> afail Uninit
       | Some req_url \<Rightarrow>
           abind (alift (case url of None \<Rightarrow> Inr 0 | Some u \<Rightarrow> strcmp u req_url)) (\<lambda>c.
           if c \<noteq> 0 then aret (ec, WS_STATUS_404_NOT_FOUND, False)
           else
             abind (listen_fields fuel sd sf 0 None) (\<lambda>r.
             case r of
               Inl (ec, error_code) \<Rightarrow> aret (ec, error_code, False)
             | Inr (field_mask, key) \<Rightarrow>
                 if field_mask AND listen_req_mask \<noteq> listen_req_mask then aret (EOK, WS_STATUS_400_BAD_REQUEST, False)
                 else
                   case key of
                     None \<Rightarrow> afail Uninit
                   | Some k \<Rightarrow>
                       abind (listen_accept pd sf EOK k) (\<lambda>ec. aret (ec, WS_STATUS_UNKNOWN, \<not> ec < EOK)))))"

definition WebSocket_Listen ::
  "nat \<Rightarrow> (u32 \<Rightarrow> 'd \<Rightarrow> fs \<Rightarrow> bytes) \<Rightarrow> (bytes \<Rightarrow> u32 \<Rightarrow> bool \<Rightarrow> fs \<Rightarrow> int \<times> 'd scan_val option) \<Rightarrow> 'w tcp_api \<Rightarrow>
   u16 \<Rightarrow> bytes option \<Rightarrow> int \<Rightarrow> websocket \<Rightarrow> ('w, err_t \<times> websocket) act" where
  "WebSocket_Listen fuel pd sd api port url timeout ws =
     (if wk_state ws \<noteq> WS_STATE_CLOSED \<or> port = 0 then aret (EARGVAL, ws)
      else
        let ws = ws\<lparr>wk_role := WS_ROLE_SERVER, wk_state := WS_STATE_LISTEN\<rparr>; sf = ta_sock api in
        abind (aget (ta_time api)) (\<lambda>ts.
        abind (listen_wait fuel api port timeout ts) (\<lambda>r.
        abind (case r of Inl ec \<Rightarrow> aret (ec, WS_STATUS_UNKNOWN, False) | Inr ec \<Rightarrow> listen_talk fuel pd sd sf url) (\<lambda>(ec, error_code, accepted).
        if accepted then aret (EOK, ws\<lparr>wk_rx_size := 0, wk_rx_offs := 0, wk_state := WS_STATE_OPEN\<rparr>)
        else
          abind (if error_code \<noteq> WS_STATUS_UNKNOWN then abind (WebSocket_SendErrorReply pd sf error_code) (\<lambda>_. aret ()) else aret ()) (\<lambda>_.
          abind (ta_close api 0) (\<lambda>_. aret (ec, ws\<lparr>wk_state := WS_STATE_CLOSED\<rparr>)))))))"

section \<open>Receiving and sending\<close>

text \<open>
  A semaphore holds zero or the number of its owner (see \<^verbatim>\<open>Sys_Sem\<close>). A task that meets a semaphore of another
  task waits for it: nothing else uses the websocket during a call here, so the call does not return.
\<close>

definition ws_lock :: "u32 \<Rightarrow> u32 \<Rightarrow> ('w, u32) act" where
  "ws_lock task sem = (if sem \<noteq> 0 \<and> sem \<noteq> task then (\<lambda>w. None) else aret task)"

definition with_tx_sem :: "u32 \<Rightarrow> (websocket \<Rightarrow> ('w, 'a \<times> websocket) act) \<Rightarrow> websocket \<Rightarrow> ('w, 'a \<times> websocket) act" where
  "with_tx_sem task f ws =
     abind (ws_lock task (wk_tx_sem ws)) (\<lambda>s.
     abind (f (ws\<lparr>wk_tx_sem := s\<rparr>)) (\<lambda>(x, ws). aret (x, ws\<lparr>wk_tx_sem := 0\<rparr>)))"

definition with_rx_sem :: "u32 \<Rightarrow> (websocket \<Rightarrow> ('w, 'a \<times> websocket) act) \<Rightarrow> websocket \<Rightarrow> ('w, 'a \<times> websocket) act" where
  "with_rx_sem task f ws =
     abind (ws_lock task (wk_rx_sem ws)) (\<lambda>s.
     abind (f (ws\<lparr>wk_rx_sem := s\<rparr>)) (\<lambda>(x, ws). aret (x, ws\<lparr>wk_rx_sem := 0\<rparr>)))"

definition ping_ival :: int where "ping_ival = 1000"

text \<open>
  \<open>WebSocket_Recv\<close> has a part that gets the header of a frame and a part that handles the frame. Each part ends the call,
  starts it again with a new timeout or a new number of pongs, or goes on. The number of pings is never counted up.
\<close>

datatype hdr_step = HdrReady | HdrEnd err_t | HdrAgain int

datatype frame_step = FrameDone err_t | FrameAgain u32

definition recv_next_header ::
  "('w \<Rightarrow> bytes) \<Rightarrow> 'w tcp_api \<Rightarrow> u32 \<Rightarrow> int \<Rightarrow> u32 \<Rightarrow> websocket \<Rightarrow> ('w, hdr_step \<times> websocket) act" where
  "recv_next_header junk api task timeout pong_cnt ws =
     (if wk_rx_size ws \<noteq> wk_rx_offs ws then aret (HdrReady, ws)
      else
        let hdr_to = (if timeout \<noteq> 0 then min timeout ping_ival else ping_ival); ping_cnt = 0 in
        abind (WebSocket_RecvHeader junk (ta_sock api) hdr_to ws) (\<lambda>(ec, hdr, bsize, ws).
        let ws = (case bsize of None \<Rightarrow> ws | Some s \<Rightarrow> ws\<lparr>wk_rx_size := s\<rparr>) in
        if ec < EOK then
          if hdr_to < ping_ival then aret (HdrEnd ec, ws)
          else if ping_cnt > pong_cnt + 3 then aret (HdrEnd ec, ws)
          else
            abind (with_tx_sem task (WebSocket_SendHeader api WS_HDR_OPCODE_PING 0) ws) (\<lambda>(ec, ws).
            if ec < EOK then aret (HdrEnd ec, ws)
            else aret (HdrAgain (if timeout \<noteq> 0 then timeout - ping_ival else timeout), ws))
        else
          case hdr of
            None \<Rightarrow> afail Uninit
          | Some h \<Rightarrow> aret (HdrReady, ws\<lparr>wk_rx_opcode := h AND WS_HDR_OPCODE, wk_rx_offs := 0\<rparr>)))"

definition recv_frame ::
  "nat \<Rightarrow> 'w tcp_api \<Rightarrow> u32 \<Rightarrow> bytes option \<Rightarrow> u32 \<Rightarrow> u32 \<Rightarrow> websocket \<Rightarrow>
   ('w, frame_step \<times> websocket_data_type option \<times> bytes option \<times> websocket) act" where
  "recv_frame fuel api task ptr bsz pong_cnt ws =
     (let sf = ta_sock api; opcode = wk_rx_opcode ws in
      if opcode = WS_HDR_OPCODE_TEXT \<or> opcode = WS_HDR_OPCODE_BIN then
        abind (WebSocket_RecvPayload fuel sf ptr (min bsz (wk_rx_size ws - wk_rx_offs ws)) ws) (\<lambda>(ec, ptr).
        let ws = (if ec \<ge> EOK then ws\<lparr>wk_rx_offs := wk_rx_offs ws + word_of_int ec\<rparr> else ws)
        in aret (FrameDone ec, Some (if opcode = WS_HDR_OPCODE_TEXT then WS_DATA_TYPE_TEXT else WS_DATA_TYPE_BIN), ptr,
              ws\<lparr>wk_rx_sem := 0\<rparr>))
      else if opcode = WS_HDR_OPCODE_PONG then
        abind (WebSocket_RecvPayload fuel sf None (wk_rx_size ws) ws) (\<lambda>(ec, _).
        aret (if ec \<ge> EOK then FrameAgain (pong_cnt + 1) else FrameDone ec, None, ptr, ws\<lparr>wk_rx_size := 0, wk_rx_offs := 0\<rparr>))
      else if opcode = WS_HDR_OPCODE_PING \<or> opcode = WS_HDR_OPCODE_CLOSE then
        abind (WebSocket_RecvPayload fuel sf (Some (replicate 125 0)) (min 125 (wk_rx_size ws)) ws) (\<lambda>(ec, pld).
        let ws = ws\<lparr>wk_rx_sem := 0\<rparr>; pld_size = word_of_int ec in
        if ec < EOK then aret (FrameDone ec, None, ptr, ws)
        else
          abind (with_tx_sem task (\<lambda>ws.
            let rsp_opcode = (if opcode = WS_HDR_OPCODE_CLOSE then WS_HDR_OPCODE_CLOSE else WS_HDR_OPCODE_PONG) in
            abind (WebSocket_SendHeader api rsp_opcode pld_size ws) (\<lambda>(ec, ws).
            abind (if ec \<ge> EOK then (case pld of None \<Rightarrow> afail NullDeref | Some p \<Rightarrow> WebSocket_SendPayload fuel sf p pld_size ws) else aret ec)
              (\<lambda>ec. aret (if rsp_opcode = WS_HDR_OPCODE_CLOSE then ENOCONNECT else ec, ws)))) ws) (\<lambda>(ec, ws).
          aret (if ec \<ge> EOK then FrameAgain pong_cnt else FrameDone ec, None, ptr, ws\<lparr>wk_rx_size := 0, wk_rx_offs := 0\<rparr>)))
      else aret (FrameDone EFATAL, None, ptr, ws))"

fun ws_recv_loop ::
  "nat \<Rightarrow> ('w \<Rightarrow> bytes) \<Rightarrow> 'w tcp_api \<Rightarrow> u32 \<Rightarrow> bytes option \<Rightarrow> u32 \<Rightarrow> int \<Rightarrow> u32 \<Rightarrow> websocket \<Rightarrow>
   ('w, err_t \<times> websocket_data_type option \<times> bytes option \<times> websocket) act" where
  "ws_recv_loop 0 junk api task ptr bsz timeout pong_cnt ws = (\<lambda>w. None)"
| "ws_recv_loop (Suc fuel) junk api task ptr bsz timeout pong_cnt ws =
     abind (ws_lock task (wk_rx_sem ws)) (\<lambda>s.
     abind (recv_next_header junk api task timeout pong_cnt (ws\<lparr>wk_rx_sem := s\<rparr>)) (\<lambda>(h, ws).
     case h of
       HdrEnd ec \<Rightarrow> aret (ec, None, ptr, ws)
     | HdrAgain timeout \<Rightarrow> ws_recv_loop fuel junk api task ptr bsz timeout pong_cnt ws
     | HdrReady \<Rightarrow>
         abind (recv_frame fuel api task ptr bsz pong_cnt ws) (\<lambda>(r, dtype, ptr, ws).
         case r of
           FrameDone ec \<Rightarrow> aret (ec, dtype, ptr, ws)
         | FrameAgain pong_cnt \<Rightarrow> ws_recv_loop fuel junk api task ptr bsz timeout pong_cnt ws)))"

declare ws_recv_loop.simps [simp del]

definition WebSocket_Recv ::
  "nat \<Rightarrow> ('w \<Rightarrow> bytes) \<Rightarrow> 'w tcp_api \<Rightarrow> u32 \<Rightarrow> bytes option \<Rightarrow> u32 \<Rightarrow> int \<Rightarrow> websocket \<Rightarrow>
   ('w, err_t \<times> websocket_data_type option \<times> bytes option \<times> websocket) act" where
  "WebSocket_Recv fuel junk api task ptr bsz timeout ws =
     abind (ws_recv_loop fuel junk api task ptr bsz timeout 0 ws) (\<lambda>(ec, dtype, ptr, ws).
     if ec < EOK then abind (ta_close api 3000) (\<lambda>_. aret (ec, dtype, ptr, ws\<lparr>wk_state := WS_STATE_CLOSED\<rparr>))
     else aret (ec, dtype, ptr, ws))"

definition opcode_of :: "websocket_data_type \<Rightarrow> u16" where
  "opcode_of dtype = (case dtype of WS_DATA_TYPE_TEXT \<Rightarrow> WS_HDR_OPCODE_TEXT | WS_DATA_TYPE_BIN \<Rightarrow> WS_HDR_OPCODE_BIN)"

definition WebSocket_Send ::
  "nat \<Rightarrow> 'w tcp_api \<Rightarrow> u32 \<Rightarrow> websocket_data_type \<Rightarrow> bytes \<Rightarrow> u32 \<Rightarrow> websocket \<Rightarrow> ('w, err_t \<times> websocket) act" where
  "WebSocket_Send fuel api task dtype ptr bsz ws =
     (if wk_state ws \<noteq> WS_STATE_OPEN then aret (ENOCONNECT, ws)
      else
        abind (with_tx_sem task (\<lambda>ws.
          abind (WebSocket_SendHeader api (opcode_of dtype) bsz ws) (\<lambda>(ec, ws).
          if ec \<ge> EOK then abind (WebSocket_SendPayload fuel (ta_sock api) ptr bsz ws) (\<lambda>ec. aret (ec, ws)) else aret (ec, ws))) ws) (\<lambda>(ec, ws).
        if ec < EOK then abind (ta_close api 3000) (\<lambda>_. aret (ec, ws\<lparr>wk_state := WS_STATE_CLOSED\<rparr>)) else aret (ec, ws)))"

text \<open>The loop that waits for the close frame of the peer; \<open>ec\<close> is the code so far.\<close>

fun ws_close_loop :: "nat \<Rightarrow> ('w \<Rightarrow> bytes) \<Rightarrow> 'w tcp_api \<Rightarrow> u32 \<Rightarrow> err_t \<Rightarrow> websocket \<Rightarrow> ('w, websocket) act" where
  "ws_close_loop 0 junk api task ec ws = (\<lambda>w. None)"
| "ws_close_loop (Suc fuel) junk api task ec ws =
     abind (with_rx_sem task (\<lambda>ws.
       if ec < EOK then aret ((ec, None), ws)
       else
         abind (WebSocket_RecvHeader junk (ta_sock api) 0 ws) (\<lambda>(ec, hdr, bsize, ws).
         if ec < EOK then aret ((ec, hdr), ws)
         else
           case bsize of
             None \<Rightarrow> afail Uninit
           | Some bsz \<Rightarrow> abind (WebSocket_RecvPayload fuel (ta_sock api) None bsz ws) (\<lambda>(ec, _). aret ((ec, hdr), ws)))) ws)
       (\<lambda>((ec, hdr), ws).
     if ec < EOK then aret ws
     else
       case hdr of
         None \<Rightarrow> afail Uninit
       | Some h \<Rightarrow>
           if h AND WS_HDR_OPCODE = WS_HDR_OPCODE_CLOSE then aret ws
           else (\<lambda>w. ws_close_loop fuel junk api task ec ws (ta_yield api w)))"

definition WebSocket_Close :: "nat \<Rightarrow> ('w \<Rightarrow> bytes) \<Rightarrow> 'w tcp_api \<Rightarrow> u32 \<Rightarrow> websocket \<Rightarrow> ('w, err_t \<times> websocket) act" where
  "WebSocket_Close fuel junk api task ws =
     abind (if wk_state ws = WS_STATE_OPEN
            then abind (with_tx_sem task (WebSocket_SendHeader api WS_HDR_OPCODE_CLOSE 0) ws) (\<lambda>(ec, ws). ws_close_loop fuel junk api task ec ws)
            else aret ws) (\<lambda>ws.
     if wk_state ws \<noteq> WS_STATE_CLOSED then abind (ta_close api 3000) (\<lambda>_. aret (EOK, ws\<lparr>wk_state := WS_STATE_CLOSED\<rparr>))
     else aret (EOK, ws))"

section \<open>The payload\<close>

lemma xor_mask_length [simp]: "length (xor_mask m d) = length d"
  by (simp add: xor_mask_def)

lemma xor_mask_nth: "i < length d \<Longrightarrow> xor_mask m d ! i = d ! i XOR m ! (i mod 4)"
  by (simp add: xor_mask_def)

lemma xor_mask_twice: "xor_mask m (xor_mask m d) = d"
  by (rule nth_equalityI) (simp_all add: xor_mask_nth xor.assoc)

text \<open>What is done to the payload can be done in pieces, as long as their sizes are multiples of four.\<close>

definition piecewise :: "(bytes \<Rightarrow> bytes) \<Rightarrow> bool" where
  "piecewise f \<longleftrightarrow> (\<forall>d. length (f d) = length d) \<and> (\<forall>a b. length a mod 4 = 0 \<longrightarrow> f (a @ b) = f a @ f b)"

lemma piecewise_id: "piecewise (\<lambda>d. d)"
  by (simp add: piecewise_def)

lemma piecewise_xor_mask: "piecewise (xor_mask m)"
proof -
  have "xor_mask m (a @ b) = xor_mask m a @ xor_mask m b" if "length a mod 4 = 0" for a b
  proof (rule nth_equalityI)
    fix i assume i: "i < length (xor_mask m (a @ b))"
    have "(i - length a) mod 4 = i mod 4" if "\<not> i < length a"
      using that \<open>length a mod 4 = 0\<close> by (metis le_add_diff_inverse2 mod_add_right_eq add_0_right not_less)
    then show "xor_mask m (a @ b) ! i = (xor_mask m a @ xor_mask m b) ! i"
      using i by (auto simp: xor_mask_nth nth_append)
  qed simp
  then show ?thesis by (simp add: piecewise_def)
qed

lemma piecewise_drop:
  assumes "piecewise f" "k \<le> length d" "k = length d \<or> k mod 4 = 0"
  shows "f d = f (take k d) @ f (drop k d)"
proof (cases "k mod 4 = 0")
  case True
  then have "f (take k d @ drop k d) = f (take k d) @ f (drop k d)"
    using assms by (simp only: piecewise_def) (simp del: append_take_drop_id)
  then show ?thesis by simp
next
  case False
  then have k: "k = length d" using assms(3) by auto
  have "length (f []) = length ([] :: bytes)" using assms(1) by (simp only: piecewise_def)
  then show ?thesis using k by simp
qed

lemma unat_min_32: "unat (min 32 x :: u32) = min 32 (unat x)"
  by (simp add: min_def word_le_nat_alt)

context wire_sock begin

lemma recv_chunk:
  assumes "ok w" "inp w = d @ rest" "length d = unat n" "0 < n"
  obtains w' where "sf_recv sf n t w = Some (Inr (int (unat n), d), w')" "ok w'" "inp w' = rest" "outp w' = outp w" "room w' = room w"
proof -
  have ne: "inp w \<noteq> []" using assms by (auto simp: word_gt_0 unat_eq_zero)
  obtain w' where r: "sf_recv sf n t w = Some (Inr (int (unat n), d), w')"
    using recv_now [OF assms(1) ne assms(4), of t] assms(2,3) by auto
  show thesis using that [OF r recv_ok [OF assms(1) r]] recv_inp [OF assms(1) r] assms(2) by auto
qed

lemma send_chunk:
  assumes "ok w" "length d = unat n" "unat n \<le> room w"
  obtains w' where "sf_send sf d n 0 w = Some (Inr (int (unat n)), w')" "ok w'" "inp w' = inp w" "outp w' = outp w @ d"
    "room w \<le> room w' + unat n"
proof -
  have le: "unat n \<le> length d" using assms(2) by simp
  obtain w' where s: "sf_send sf d n 0 w = Some (Inr (int (unat n)), w')"
    using send_now [OF assms(1) le assms(3), of 0] by auto
  show thesis using that [OF s send_ok [OF assms(1) le s]] send_outp [OF assms(1) le s] assms(2) by auto
qed

lemma send_payload_ok:
  assumes "ok w" "piecewise f" "offs \<le> bsz" "unat bsz \<le> length ptr" "unat bsz - unat offs \<le> 32 * fuel" "unat bsz - unat offs \<le> room w"
  shows "\<exists>w'. send_payload_loop fuel sf f ptr bsz offs w = Some (Inr (sint bsz), w') \<and> ok w' \<and> inp w' = inp w \<and>
    outp w' = outp w @ f (take (unat bsz - unat offs) (drop (unat offs) ptr)) \<and> room w \<le> room w' + (unat bsz - unat offs)"
  using assms
proof (induction fuel arbitrary: offs w)
  case 0
  then have "offs = bsz" by (simp add: word_le_nat_alt word_unat_eq_iff)
  moreover have "f [] = []" using assms(2) by (metis length_0_conv piecewise_def)
  ultimately show ?case using 0 by (simp add: send_payload_loop.simps aret_def)
next
  case (Suc fuel)
  have f0: "f [] = []" using assms(2) by (metis length_0_conv piecewise_def)
  show ?case
  proof (cases "offs = bsz")
    case True
    then show ?thesis using Suc.prems(1) f0 by (simp add: send_payload_loop.simps aret_def)
  next
    case False
    then have lt: "offs < bsz" using Suc.prems(3) by simp
    define k where "k = min 32 (bsz - offs)"
    have uk: "unat k = min 32 (unat bsz - unat offs)"
      unfolding k_def unat_min_32 using Suc.prems(3) by (simp add: unat_u32_sub)
    let ?d = "take (unat bsz - unat offs) (drop (unat offs) ptr)"
    let ?c = "take (unat k) (drop (unat offs) ptr)"
    have le: "unat offs < unat bsz" using lt by (simp add: word_less_nat_alt)
    have lc: "length (f ?c) = unat k" using Suc.prems(2,4) uk le by (simp add: piecewise_def)
    have m: "mem_read ptr (unat offs) (unat k) = Inr ?c" using Suc.prems(4) uk le by (intro mem_read_Inr) simp
    obtain w1 where w1: "sf_send sf (f ?c) k 0 w = Some (Inr (int (unat k)), w1)" "ok w1" "inp w1 = inp w"
        "outp w1 = outp w @ f ?c" "room w \<le> room w1 + unat k"
    proof (rule send_chunk [OF Suc.prems(1) lc])
      show "unat k \<le> room w" using Suc.prems(6) uk by linarith
    qed
    have ukc: "unat k = 32 \<or> unat offs + unat k = unat bsz" using uk le by (auto simp: min_def)
    have uo: "unat (offs + k) = unat offs + unat k"
      using uk le unat_u32_less [of bsz] by (intro unat_u32_add) linarith
    have "offs + k \<le> bsz" using uo uk le by (simp add: word_le_nat_alt)
    moreover have "unat bsz - unat (offs + k) \<le> 32 * fuel" "unat bsz - unat (offs + k) \<le> room w1"
      using Suc.prems(5,6) uo ukc w1(5) by auto
    ultimately obtain w' where w': "send_payload_loop fuel sf f ptr bsz (offs + k) w1 = Some (Inr (sint bsz), w')" "ok w'"
        "inp w' = inp w1" "outp w' = outp w1 @ f (take (unat bsz - unat (offs + k)) (drop (unat (offs + k)) ptr))"
        "room w1 \<le> room w' + (unat bsz - unat (offs + k))"
      using Suc.IH [OF w1(2) assms(2) _ Suc.prems(4)] by auto
    have "unat k = length ?d \<or> unat k mod 4 = 0" using Suc.prems(4) uk le by (auto simp: min_def)
    then have "f ?d = f (take (unat k) ?d) @ f (drop (unat k) ?d)"
      using uk Suc.prems(4) by (intro piecewise_drop [OF assms(2)]) auto
    moreover have "take (unat k) ?d = ?c" using uk by simp
    moreover have "drop (unat k) ?d = take (unat bsz - unat (offs + k)) (drop (unat (offs + k)) ptr)"
      using uo by (simp add: drop_take add.commute)
    ultimately have "f ?d = f ?c @ f (take (unat bsz - unat (offs + k)) (drop (unat (offs + k)) ptr))" by simp
    moreover have "send_payload_loop (Suc fuel) sf f ptr bsz offs w = send_payload_loop fuel sf f ptr bsz (offs + k) w1"
      using lt w1(1) m by (simp add: send_payload_loop.simps [of "Suc fuel"] Let_def k_def [symmetric] abind_def EOK_def)
    moreover have "room w \<le> room w' + (unat bsz - unat offs)"
    proof -
      have "unat k \<le> unat bsz - unat offs" using uk by simp
      then show ?thesis using w'(5) w1(5) uo le by linarith
    qed
    ultimately show ?thesis using w'(1-4) w1(3,4) by simp
  qed
qed

lemma recv_payload_ok:
  assumes "ok w" "piecewise f" "offs \<le> bsz" "unat bsz \<le> length p" "unat bsz - unat offs \<le> 32 * fuel"
    and "inp w = d @ rest" "length d = unat bsz - unat offs"
  shows "\<exists>w'. recv_payload_loop fuel sf f (Some p) bsz offs w =
      Some (Inr (sint bsz, Some (take (unat offs) p @ f d @ drop (unat bsz) p)), w') \<and> ok w' \<and> inp w' = rest \<and>
      outp w' = outp w \<and> room w' = room w"
  using assms
proof (induction fuel arbitrary: offs w d p)
  case 0
  then have "offs = bsz" by (simp add: word_le_nat_alt word_unat_eq_iff)
  moreover have "f [] = []" using assms(2) by (metis length_0_conv piecewise_def)
  ultimately show ?case using 0 by (simp add: recv_payload_loop.simps aret_def)
next
  case (Suc fuel)
  have f0: "f [] = []" using assms(2) by (metis length_0_conv piecewise_def)
  show ?case
  proof (cases "offs = bsz")
    case True
    then show ?thesis using Suc.prems f0 by (simp add: recv_payload_loop.simps aret_def)
  next
    case False
    then have lt: "offs < bsz" using Suc.prems(3) by simp
    define k where "k = min 32 (bsz - offs)"
    have uk: "unat k = min 32 (unat bsz - unat offs)"
      unfolding k_def unat_min_32 using Suc.prems(3) by (simp add: unat_u32_sub)
    have le: "unat offs < unat bsz" using lt by (simp add: word_less_nat_alt)
    define c where "c = take (unat k) d"
    define d' where "d' = drop (unat k) d"
    have k0: "0 < k" using uk le by (simp add: word_less_nat_alt)
    have lc: "length c = unat k" "length (f c) = unat k" using uk Suc.prems(2,7) by (simp_all add: piecewise_def c_def)
    obtain w1 where w1: "sf_recv sf k 0 w = Some (Inr (int (unat k), c), w1)" "ok w1" "inp w1 = d' @ rest"
        "outp w1 = outp w" "room w1 = room w"
      by (rule recv_chunk [OF Suc.prems(1) _ lc(1) k0, of "d' @ rest" 0]) (use Suc.prems(6) in \<open>auto simp: c_def d'_def\<close>)
    define p' where "p' = take (unat offs) p @ f c @ drop (unat offs + unat k) p"
    have "unat offs + unat k \<le> length p" using Suc.prems(4) uk le by linarith
    then have m: "mem_write p (unat offs) (f c) = Inr p'" using lc(2) by (simp add: mem_write_def p'_def)
    have b: "mem_write (replicate 32 0) 0 c = Inr (c @ replicate (32 - unat k) 0)" using lc(1) uk by (simp add: mem_write_def)
    have b2: "mem_read (c @ replicate (32 - unat k) 0) 0 (unat k) = Inr c" using lc(1) by (simp add: mem_read_def)
    have ukc: "unat k = 32 \<or> unat offs + unat k = unat bsz" using uk le by (auto simp: min_def)
    have uo: "unat (offs + k) = unat offs + unat k"
      using uk le unat_u32_less [of bsz] by (intro unat_u32_add) linarith
    have o1: "offs + k \<le> bsz" using uo uk le by (simp add: word_le_nat_alt)
    have o2: "unat bsz - unat (offs + k) \<le> 32 * fuel" using Suc.prems(5) uo ukc by auto
    have o3: "unat bsz \<le> length p'" using mem_write_length [OF m] Suc.prems(4) by simp
    have o4: "length d' = unat bsz - unat (offs + k)" using Suc.prems(7) uo by (simp add: d'_def)
    obtain w' where w': "recv_payload_loop fuel sf f (Some p') bsz (offs + k) w1 =
        Some (Inr (sint bsz, Some (take (unat (offs + k)) p' @ f d' @ drop (unat bsz) p')), w')" "ok w'"
        "inp w' = rest" "outp w' = outp w1" "room w' = room w1"
      using Suc.IH [OF w1(2) assms(2) o1 o3 o2 w1(3) o4] by blast
    have "unat k = length d \<or> unat k mod 4 = 0" using Suc.prems(7) ukc by auto
    then have fd: "f d = f c @ f d'" unfolding c_def d'_def using uk Suc.prems(7) by (intro piecewise_drop [OF assms(2)]) auto
    have p': "take (unat (offs + k)) p' = take (unat offs) p @ f c" "drop (unat bsz) p' = drop (unat bsz) p"
      using uo lc le Suc.prems(4) o1 by (auto simp: p'_def word_le_nat_alt)
    have "recv_payload_loop (Suc fuel) sf f (Some p) bsz offs w = recv_payload_loop fuel sf f (Some p') bsz (offs + k) w1"
      using lt w1(1) m b b2 by (simp add: recv_payload_loop.simps [of "Suc fuel"] k_def [symmetric] abind_def EOK_def)
    then show ?thesis using w' w1(4,5) p' fd by simp
  qed
qed

end

section \<open>Headers\<close>

lemma small_and: "(len :: u16) \<le> 127 \<Longrightarrow> len AND 0x7f = len"
proof -
  assume "len \<le> 127"
  then have "unat len < 2 ^ 7" by (simp add: word_le_nat_alt)
  then have "take_bit 7 len = len" by (simp add: word_unat_eq_iff unsigned_take_bit_eq take_bit_nat_eq_self)
  moreover have "(0x7f :: u16) = mask 7" by (simp add: mask_eq_exp_minus_1)
  ultimately show ?thesis by (simp only: take_bit_eq_mask)
qed

lemma hdr_word_fields:
  fixes len opcode :: u16
  assumes "len \<le> 127" "opcode AND WS_HDR_OPCODE = opcode"
  shows "(opcode OR WS_HDR_FIN OR len) AND WS_HDR_PLD_LEN = len"
    "(opcode OR WS_HDR_FIN OR len OR WS_HDR_MASKED) AND WS_HDR_PLD_LEN = len"
    "(opcode OR WS_HDR_FIN OR len) AND WS_HDR_OPCODE = opcode"
    "(opcode OR WS_HDR_FIN OR len OR WS_HDR_MASKED) AND WS_HDR_OPCODE = opcode"
    "\<not> is_masked (opcode OR WS_HDR_FIN OR len)" "is_masked (opcode OR WS_HDR_FIN OR len OR WS_HDR_MASKED)"
proof -
  have l: "len AND 0x7f = len" by (rule small_and [OF assms(1)])
  have lb: "\<not> bit len 7" "\<not> bit len 8" "\<not> bit len 9" "\<not> bit len 10" "\<not> bit len 11" "\<not> bit len 12" "\<not> bit len 13"
    "\<not> bit len 14" "\<not> bit len 15"
    by (subst l [symmetric], simp add: bit_simps)+
  have ob: "\<not> bit opcode 0" "\<not> bit opcode (Suc 0)" "\<not> bit opcode 2" "\<not> bit opcode 3" "\<not> bit opcode 4" "\<not> bit opcode 5"
    "\<not> bit opcode 6" "\<not> bit opcode 7" "\<not> bit opcode 12" "\<not> bit opcode 13" "\<not> bit opcode 14" "\<not> bit opcode 15"
    by (subst assms(2) [symmetric], simp add: WS_HDR_OPCODE_def bit_simps)+
  show "(opcode OR WS_HDR_FIN OR len) AND WS_HDR_PLD_LEN = len"
    "(opcode OR WS_HDR_FIN OR len OR WS_HDR_MASKED) AND WS_HDR_PLD_LEN = len"
    "(opcode OR WS_HDR_FIN OR len) AND WS_HDR_OPCODE = opcode"
    "(opcode OR WS_HDR_FIN OR len OR WS_HDR_MASKED) AND WS_HDR_OPCODE = opcode"
    "\<not> is_masked (opcode OR WS_HDR_FIN OR len)" "is_masked (opcode OR WS_HDR_FIN OR len OR WS_HDR_MASKED)"
    by (simp_all add: is_masked_def ws_hdr_bits word_bits bit_simps lb ob)
qed

text \<open>The header of a frame from the side \<open>r\<close>, with the mask \<open>m\<close> when it is the client.\<close>

definition hdr_word :: "websocket_role \<Rightarrow> u16 \<Rightarrow> u32 \<Rightarrow> u16" where
  "hdr_word r opcode bsz =
     (let h = opcode OR WS_HDR_FIN OR fst (size_field bsz) in if r = WS_ROLE_CLIENT then h OR WS_HDR_MASKED else h)"

definition role_mask :: "websocket_role \<Rightarrow> bytes \<Rightarrow> bytes" where
  "role_mask r m = (if r = WS_ROLE_CLIENT then m else [])"

definition frame_hdr :: "websocket_role \<Rightarrow> u16 \<Rightarrow> u32 \<Rightarrow> bytes \<Rightarrow> bytes" where
  "frame_hdr r opcode bsz m = be_bytes16 (hdr_word r opcode bsz) @ snd (size_field bsz) @ role_mask r m"

definition sent_ws :: "u32 \<Rightarrow> websocket \<Rightarrow> websocket" where
  "sent_ws now ws = (if wk_role ws = WS_ROLE_CLIENT then ws\<lparr>wk_mask := le_bytes32 now\<rparr> else ws)"

lemma size_field_cases:
  assumes "bsz < 0xffff"
  obtains (short) "fst (size_field bsz) < 126" "ucast (fst (size_field bsz)) = bsz" "snd (size_field bsz) = []"
  | (long) "fst (size_field bsz) = 126" "snd (size_field bsz) = be_bytes16 (ucast bsz)" "ucast (ucast bsz :: u16) = bsz"
proof (cases "bsz < 126")
  case True
  then have "unat (ucast bsz :: u16) = unat bsz" by (simp add: unsigned_ucast_eq take_bit_nat_eq_self word_less_nat_alt)
  then have "(ucast bsz :: u16) < 126" "ucast (ucast bsz :: u16) = bsz"
    using True by (simp_all add: word_less_nat_alt word_unat_eq_iff unsigned_ucast_eq unsigned_take_bit_eq take_bit_nat_eq_self)
  then show thesis using True by (intro short) (simp_all add: size_field_def)
next
  case False
  have "unat (ucast bsz :: u16) = unat bsz" using assms by (simp add: unsigned_ucast_eq take_bit_nat_eq_self word_less_nat_alt)
  then have "ucast (ucast bsz :: u16) = bsz" using assms by (simp add: word_unat_eq_iff unsigned_ucast_eq unsigned_take_bit_eq take_bit_nat_eq_self word_less_nat_alt)
  then show thesis using False assms by (intro long) (simp_all add: size_field_def)
qed

lemma frame_hdr_length: "bsz < 0xffff \<Longrightarrow> length m = 4 \<Longrightarrow> length (frame_hdr r opcode bsz m) \<le> 8"
  by (cases rule: size_field_cases [of bsz]) (auto simp: frame_hdr_def role_mask_def)

lemma hdr_word_read:
  assumes "bsz < 0xffff" "opcode AND WS_HDR_OPCODE = opcode"
  shows "hdr_word r opcode bsz AND WS_HDR_PLD_LEN = fst (size_field bsz)" "hdr_word r opcode bsz AND WS_HDR_OPCODE = opcode"
    "is_masked (hdr_word r opcode bsz) \<longleftrightarrow> r = WS_ROLE_CLIENT"
proof -
  have l: "fst (size_field bsz) \<le> 127" using assms(1) by (cases rule: size_field_cases) (auto simp: word_le_nat_alt word_less_nat_alt)
  show "hdr_word r opcode bsz AND WS_HDR_PLD_LEN = fst (size_field bsz)" "hdr_word r opcode bsz AND WS_HDR_OPCODE = opcode"
    "is_masked (hdr_word r opcode bsz) \<longleftrightarrow> r = WS_ROLE_CLIENT"
    using hdr_word_fields [OF l assms(2)] by (simp_all add: hdr_word_def Let_def or.assoc)
qed

context wire_sock begin

lemma SendHeader_ok:
  assumes "ok w" "ta_sock api = sf" "bsz < 0xffff" "8 \<le> room w"
    and ws': "ws' = sent_ws (ta_time api w) ws" "length (wk_mask ws') = 4"
  shows "\<exists>w'. WebSocket_SendHeader api opcode bsz ws w = Some (Inr (int (length (frame_hdr (wk_role ws) opcode bsz (wk_mask ws'))), ws'), w') \<and>
    ok w' \<and> inp w' = inp w \<and> outp w' = outp w @ frame_hdr (wk_role ws) opcode bsz (wk_mask ws') \<and> room w \<le> room w' + 8"
proof -
  define p where "p = frame_hdr (wk_role ws) opcode bsz (wk_mask ws')"
  have l: "length p \<le> 8" unfolding p_def by (rule frame_hdr_length [OF assms(3) ws'(2)])
  then have u: "length p = unat (of_nat (length p) :: u32)" by (simp add: unat_of_nat take_bit_nat_eq_self)
  obtain w' where w': "sf_send sf p (of_nat (length p)) 0 w = Some (Inr (int (length p)), w')" "ok w'" "inp w' = inp w" "outp w' = outp w @ p"
      "room w \<le> room w' + length p"
    using send_chunk [OF assms(1) u] u l assms(4) by (metis order_trans)
  have "WebSocket_SendHeader api opcode bsz ws w = abind (sf_send sf p (of_nat (length p)) 0) (\<lambda>ec. aret (ec, ws')) w"
    by (auto simp: WebSocket_SendHeader_def Let_def assms(2) p_def frame_hdr_def hdr_word_def role_mask_def ws'(1) sent_ws_def)
  then show ?thesis using w' l unfolding p_def [symmetric] by (auto simp: abind_def aret_def)
qed

lemma recv_any:
  assumes "ok w" "inp w = d @ rest" "length d = unat n"
  obtains w' where "sf_recv sf n 0 w = Some (Inr (int (unat n), d), w')" "ok w'" "inp w' = rest" "outp w' = outp w" "room w' = room w"
proof (cases "n = 0")
  case True
  obtain w' where r: "sf_recv sf 0 0 w = Some (Inr (0, []), w')" using recv_empty [OF assms(1)] by blast
  show ?thesis using that [of w'] r recv_ok [OF assms(1) r] recv_inp [OF assms(1) r] True assms(2,3) by simp
next
  case False
  then show ?thesis using recv_chunk [OF assms, of 0] that by (auto simp: word_gt_0)
qed

lemma RecvHeader_ok:
  assumes "ok w" "inp w = frame_hdr r opcode bsz m @ rest" "wk_role ws \<noteq> r" "bsz < 0xffff" "length m = 4"
    and "length (junk w) = 14" "opcode AND WS_HDR_OPCODE = opcode"
  shows "\<exists>w'. WebSocket_RecvHeader junk sf t ws w =
      Some (Inr (EOK, Some (hdr_word r opcode bsz), Some bsz, if r = WS_ROLE_CLIENT then ws\<lparr>wk_mask := m\<rparr> else ws), w') \<and>
    ok w' \<and> inp w' = rest \<and> outp w' = outp w \<and> room w' = room w"
proof -
  define h where "h = hdr_word r opcode bsz"
  define s where "s = snd (size_field bsz)"
  define k where "k = role_mask r m"
  note hw = hdr_word_read [OF assms(4,7), of r, folded h_def]
  obtain w1 where w1: "sf_recv sf 2 t w = Some (Inr (2, be_bytes16 h), w1)" "ok w1" "inp w1 = s @ k @ rest" "outp w1 = outp w" "room w1 = room w"
    using recv_chunk [OF assms(1), of "be_bytes16 h" "s @ k @ rest" 2 t] assms(2) by (auto simp: frame_hdr_def h_def s_def k_def)
  define n :: u32 where "n = (if is_masked h then 4 else 0) + (if fst (size_field bsz) < 126 then 0 else if fst (size_field bsz) = 126 then 2 else 4)"
  have sk: "length (s @ k) = unat n" "length s \<le> 2" "length k \<le> 4"
    using assms(4) by (cases rule: size_field_cases; simp add: n_def hw(3) k_def role_mask_def s_def assms(5))+
  obtain w2 where w2: "sf_recv sf n 0 w1 = Some (Inr (int (unat n), s @ k), w2)" "ok w2" "inp w2 = rest" "outp w2 = outp w1" "room w2 = room w1"
    using recv_any [OF w1(2) _ sk(1), of rest] w1(3) by auto
  define pld where "pld = be_bytes16 h @ drop 2 (junk w)"
  define pld2 where "pld2 = be_bytes16 h @ s @ k @ drop (2 + length (s @ k)) (junk w)"
  have m1: "mem_write (junk w) 0 (be_bytes16 h) = Inr pld" using assms(6) by (simp add: mem_write_def pld_def numeral_2_eq_2)
  have m2: "mem_write pld 2 (s @ k) = Inr pld2" using assms(6) sk(2,3) by (simp add: mem_write_def pld_def pld2_def)
  have b: "be_word16 pld = h" by (simp add: pld_def)
  have mk: "mem_read pld2 (2 + length s) 4 = Inr m" if "r = WS_ROLE_CLIENT"
    using that assms(5,6) sk(2) by (simp add: pld2_def k_def role_mask_def mem_read_def)
  have ok: "\<not> (wk_role ws = WS_ROLE_SERVER \<and> \<not> is_masked h \<or> wk_role ws = WS_ROLE_CLIENT \<and> is_masked h)"
    using assms(3) hw(3) by (cases r; cases "wk_role ws") auto
  have e: "WebSocket_RecvHeader junk sf t ws w = Some (Inr (EOK, Some h, Some bsz, if r = WS_ROLE_CLIENT then ws\<lparr>wk_mask := m\<rparr> else ws), w2)"
    using assms(4)
  proof (cases rule: size_field_cases)
    case short
    then have "n = (if is_masked h then 4 else 0)" "s = []" by (simp_all add: n_def s_def)
    then show ?thesis using short w1(1) w2(1) m1 m2 b ok hw mk
      by (auto simp: WebSocket_RecvHeader_def abind_def aget_def EOK_def Let_def aret_def)
  next
    case long
    then have "n = (if is_masked h then 4 else 0) + 2" "s = be_bytes16 (ucast bsz)" by (simp_all add: n_def s_def)
    moreover from this have "be_word16 (drop 2 pld2) = ucast bsz" by (simp add: pld2_def)
    ultimately show ?thesis using long w1(1) w2(1) m1 m2 b ok hw mk
      by (auto simp: WebSocket_RecvHeader_def abind_def aget_def EOK_def Let_def aret_def)
  qed
  then show ?thesis using w2 w1 h_def by auto
qed

end

section \<open>Frames\<close>

definition masking :: "websocket_role \<Rightarrow> bytes \<Rightarrow> bytes \<Rightarrow> bytes" where
  "masking r m = (if r = WS_ROLE_CLIENT then xor_mask m else (\<lambda>d. d))"

lemma masking_simps [simp]: "masking r m (masking r m d) = d" "length (masking r m d) = length d" "piecewise (masking r m)"
  by (simp_all add: masking_def xor_mask_twice piecewise_id piecewise_xor_mask)

lemma opcode_of_simps [simp]:
  "opcode_of t AND WS_HDR_OPCODE = opcode_of t" "opcode_of t = WS_HDR_OPCODE_TEXT \<longleftrightarrow> t = WS_DATA_TYPE_TEXT"
  "opcode_of t = WS_HDR_OPCODE_BIN \<longleftrightarrow> t = WS_DATA_TYPE_BIN"
  by (cases t; simp add: opcode_of_def ws_hdr_bits)+

lemma sint_small: "n < (0xffff :: u32) \<Longrightarrow> sint n = int (unat n)"
proof -
  assume "n < 0xffff"
  then have "uint n < 2 ^ 31" by (simp add: word_less_def)
  then have "signed_take_bit 31 (uint n) = uint n" using uint_ge_0 [of n] by (intro signed_take_bit_int_eq_self) linarith+
  then show ?thesis by (simp add: sint_uint)
qed

definition ws_frame :: "websocket_role \<Rightarrow> u16 \<Rightarrow> bytes \<Rightarrow> bytes \<Rightarrow> bytes" where
  "ws_frame r opcode m d = frame_hdr r opcode (of_nat (length d)) m @ masking r m d"

lemma sent_ws_simps [simp]: "wk_role (sent_ws now ws) = wk_role ws" "wk_state (sent_ws now ws) = wk_state ws"
  "sent_ws now (ws\<lparr>wk_tx_sem := s\<rparr>) = sent_ws now ws\<lparr>wk_tx_sem := s\<rparr>"
  "length (wk_mask ws) = 4 \<Longrightarrow> length (wk_mask (sent_ws now ws)) = 4"
  by (simp_all add: sent_ws_def)

context wire_sock begin

lemma Send_ok:
  assumes "ok w" "ta_sock api = sf" "wk_state ws = WS_STATE_OPEN" "wk_tx_sem ws \<in> {0, task}" "length (wk_mask ws) = 4"
    and "length d < 0xffff" "length d \<le> 32 * fuel" "length d + 8 \<le> room w"
  shows "\<exists>w'. WebSocket_Send fuel api task dtype d (of_nat (length d)) ws w =
      Some (Inr (int (length d), sent_ws (ta_time api w) ws\<lparr>wk_tx_sem := 0\<rparr>), w') \<and> ok w' \<and> inp w' = inp w \<and>
      outp w' = outp w @ ws_frame (wk_role ws) (opcode_of dtype) (wk_mask (sent_ws (ta_time api w) ws)) d"
proof -
  define n :: u32 where "n = of_nat (length d)"
  have n: "unat n = length d" "n < 0xffff" "sint n = int (length d)"
    using assms(6) sint_small [of n] by (simp_all add: n_def unat_of_nat take_bit_nat_eq_self word_less_nat_alt)
  let ?ws = "ws\<lparr>wk_tx_sem := task\<rparr>"
  let ?ws' = "sent_ws (ta_time api w) ?ws"
  obtain w1 where w1: "WebSocket_SendHeader api (opcode_of dtype) n ?ws w =
      Some (Inr (int (length (frame_hdr (wk_role ws) (opcode_of dtype) n (wk_mask ?ws'))), ?ws'), w1)" "ok w1" "inp w1 = inp w"
      "outp w1 = outp w @ frame_hdr (wk_role ws) (opcode_of dtype) n (wk_mask ?ws')" "room w \<le> room w1 + 8"
    using SendHeader_ok [OF assms(1,2) n(2), of ?ws' ?ws "opcode_of dtype"] assms(5,8) by auto
  obtain w2 where w2: "send_payload_loop fuel sf (masking (wk_role ws) (wk_mask ?ws')) d n 0 w1 = Some (Inr (int (length d)), w2)"
      "ok w2" "inp w2 = inp w1" "outp w2 = outp w1 @ masking (wk_role ws) (wk_mask ?ws') d"
    using send_payload_ok [OF w1(2) masking_simps(3) [of "wk_role ws" "wk_mask ?ws'"], of 0 n d fuel] n assms(7,8) w1(5) by auto
  have "WebSocket_SendPayload fuel sf d n ?ws' w1 = Some (Inr (int (length d)), w2)"
    using w2(1) by (cases "wk_role ws") (simp_all add: WebSocket_SendPayload_def masking_def)
  then show ?thesis unfolding n_def [symmetric]
    using w1 w2(2-4) assms(2-4) by (auto simp: WebSocket_Send_def with_tx_sem_def ws_lock_def abind_def aret_def EOK_def ws_frame_def n_def)
qed

lemma Recv_ok:
  assumes "ok w" "ta_sock api = sf" "inp w = ws_frame r (opcode_of dtype) m d @ rest" "wk_role ws \<noteq> r" "wk_rx_sem ws \<in> {0, task}"
    and "wk_rx_size ws = wk_rx_offs ws" "length m = 4" "\<And>w. length (junk w) = 14"
    and "length d < 0xffff" "length d \<le> 32 * fuel" "length d \<le> unat bsz" "length d \<le> length p"
  shows "\<exists>ws' w'. WebSocket_Recv (Suc fuel) junk api task (Some p) bsz t ws w =
      Some (Inr (int (length d), Some dtype, Some (d @ drop (length d) p), ws'), w') \<and> ok w' \<and> inp w' = rest \<and> outp w' = outp w \<and>
      wk_rx_size ws' = wk_rx_offs ws' \<and> wk_rx_sem ws' = 0 \<and> wk_role ws' = wk_role ws \<and> wk_state ws' = wk_state ws \<and>
      wk_tx_sem ws' = wk_tx_sem ws \<and> length (wk_mask ws') = length (if r = WS_ROLE_CLIENT then m else wk_mask ws)"
proof -
  define n :: u32 where "n = of_nat (length d)"
  have n: "unat n = length d" "n < 0xffff" "sint n = int (length d)"
    using assms(9) sint_small [of n] by (simp_all add: n_def unat_of_nat take_bit_nat_eq_self word_less_nat_alt)
  have nb: "min bsz n = n" using assms(11) n(1) by (intro min_absorb2) (simp add: word_le_nat_alt)
  define ws1 where "ws1 = (if r = WS_ROLE_CLIENT then ws\<lparr>wk_rx_sem := task, wk_mask := m\<rparr> else ws\<lparr>wk_rx_sem := task\<rparr>)"
  let ?f = "masking r m"
  obtain w1 where w1: "WebSocket_RecvHeader junk sf (if t \<noteq> 0 then min t ping_ival else ping_ival) (ws\<lparr>wk_rx_sem := task\<rparr>) w =
      Some (Inr (EOK, Some (hdr_word r (opcode_of dtype) n), Some n, ws1), w1)" "ok w1" "inp w1 = ?f d @ rest" "outp w1 = outp w"
    using RecvHeader_ok [OF assms(1), of r "opcode_of dtype" n m "?f d @ rest" "ws\<lparr>wk_rx_sem := task\<rparr>" junk
        "if t \<noteq> 0 then min t ping_ival else ping_ival"] assms(3,4,7,8) n(2)
    by (auto simp: ws_frame_def n_def [symmetric] ws1_def)
  define ws2 where "ws2 = ws1\<lparr>wk_rx_size := n, wk_rx_opcode := opcode_of dtype, wk_rx_offs := 0\<rparr>"
  have h: "recv_next_header junk api task t 0 (ws\<lparr>wk_rx_sem := task\<rparr>) w = Some (Inr (HdrReady, ws2), w1)"
    using w1(1) assms(2,6) hdr_word_read(2) [OF n(2), of "opcode_of dtype" r]
    by (simp add: recv_next_header_def Let_def abind_def aret_def ws2_def)
  obtain w2 where w2: "recv_payload_loop fuel sf ?f (Some p) n 0 w1 = Some (Inr (sint n, Some (d @ drop (length d) p)), w2)"
      "ok w2" "inp w2 = rest" "outp w2 = outp w1"
    using recv_payload_ok [OF w1(2) masking_simps(3) [of r m], of 0 n p fuel "?f d" rest] n assms(10,12) w1(3) by auto
  have role: "wk_role ws2 = wk_role ws" "r = WS_ROLE_CLIENT \<Longrightarrow> wk_mask ws2 = m" by (simp_all add: ws2_def ws1_def)
  have "WebSocket_RecvPayload fuel sf (Some p) n ws2 w1 = Some (Inr (int (length d), Some (d @ drop (length d) p)), w2)"
    using w2(1) n(3) assms(4) role by (cases r; cases "wk_role ws") (simp_all add: WebSocket_RecvPayload_def masking_def)
  moreover have "word_of_int (int (length d)) = n" by (simp add: n_def)
  ultimately have f: "recv_frame fuel api task (Some p) bsz 0 ws2 w1 =
      Some (Inr (FrameDone (int (length d)), Some dtype, Some (d @ drop (length d) p), ws2\<lparr>wk_rx_offs := n, wk_rx_sem := 0\<rparr>), w2)"
    using assms(2) nb by (cases dtype) (simp_all add: recv_frame_def Let_def abind_def aret_def ws2_def EOK_def)
  show ?thesis
    using h f w2(2-4) w1(4) assms(5)
    by (auto simp: WebSocket_Recv_def ws_recv_loop.simps ws_lock_def abind_def aret_def EOK_def ws2_def ws1_def)
qed

end

text \<open>The functions of the TCP socket. The random number for the local port of a connection is an argument.\<close>

definition ws_tcp :: "nat \<Rightarrow> (nat \<Rightarrow> tcp_world \<Rightarrow> tcp_world) \<Rightarrow> u32 \<Rightarrow> tcp_world tcp_api" where
  "ws_tcp fuel env rnd =
     \<lparr>ta_sock = tcp_funcs fuel env,
      ta_connect = (\<lambda>ip port timeout w. map_option (apfst Inr) (TCPIPTcpSock_Connect fuel env rnd ip port timeout w)),
      ta_listen = (\<lambda>port timeout w. map_option (apfst Inr) (TCPIPTcpSock_Listen fuel env port timeout w)),
      ta_close = (\<lambda>timeout w. map_option (apfst Inr) (TCPIPTcpSock_Close fuel env timeout w)),
      ta_time = tw_now, ta_yield = env 0\<rparr>"


definition demo_ws :: "websocket_role \<Rightarrow> websocket" where
  "demo_ws r = \<lparr>wk_state = WS_STATE_OPEN, wk_tx_sem = 0, wk_rx_sem = 0, wk_rx_size = 0, wk_rx_offs = 0, wk_rx_opcode = 0,
     wk_mask = [0, 0, 0, 0], wk_role = r\<rparr>"


section \<open>The accept value\<close>

text \<open>The hash of the standard, as bytes.\<close>

definition sha1_value :: "bytes \<Rightarrow> bytes" where
  "sha1_value m = concat (map be_bytes32 (md_spec (mixing sha1_block) (sh_h SHA1_InitState) m))"

lemma sha1_mix_length: "length (mixing sha1_block h w) = 5 \<or> mixing sha1_block h w = h"
  by (auto simp: mixing_def sha1_block_def SHA1_Rounds_def bind_res_eq_Inr split: sum.splits prod.splits)

lemma absorb_length: "length h = 5 \<Longrightarrow> length (fst (absorb (mixing sha1_block) h m)) = 5"
proof (induction "length m" arbitrary: h m rule: less_induct)
  case less
  have "length (mixing sha1_block h (be_words (take 64 m))) = 5" using sha1_mix_length less.prems by metis
  then show ?case using less by (subst absorb.simps) auto
qed

lemma sha1_value_length: "length (sha1_value m) = 20"
proof -
  have "length (md_spec (mixing sha1_block) (sh_h SHA1_InitState) m) = 5"
    unfolding md_spec_def by (rule absorb_length) (simp add: SHA1_InitState_def)
  then show ?thesis by (simp add: sha1_value_def length_concat comp_def sum_list_triv)
qed

lemma sha1_two_pieces:
  obtains s1 e1 s2 where "SHA1_Digest SHA1_InitState False a = Inr (e1, s1)" "SHA1_Digest s1 True b = Inr (EOK, s2)"
    "sh_finalized s2" "hash_bytes s2 = sha1_value (a @ b)"
proof -
  obtain s where s: "digest_pieces SHA1_Digest SHA1_InitState [a, b] = Inr (EOK, s)" "sh_finalized s"
      "sh_h s = map HTOBE32 (md_spec (mixing sha1_block) (sh_h SHA1_InitState) (a @ b))"
    using sha1.digest_pieces_correct [of "[a, b]" SHA1_InitState "sh_h SHA1_InitState" "[]"] init_ok
    by (auto simp: SHA1_Digest_def absorb_short)
  have h: "hash_bytes s = sha1_value (a @ b)"
    unfolding hash_bytes_def s(3) map_map sha1_value_def by (simp add: comp_def HTOBE32_bytes)
  from s(1) obtain e1 s1 where "SHA1_Digest SHA1_InitState False a = Inr (e1, s1)" "SHA1_Digest s1 True b = Inr (EOK, s)"
    by (auto simp: bind_res_eq_Inr)
  then show thesis using that s(2) h by blast
qed



section \<open>Memory safety\<close>

lemma runs_mem_write:
  "off + length xs \<le> length buf \<Longrightarrow> (\<And>b. length b = length buf \<Longrightarrow> Q b w) \<Longrightarrow> runs (alift (mem_write buf off xs)) w Q"
  by (rule runs_alift [OF mem_write_Inr]) auto

lemma runs_mem_read:
  "off + n \<le> length buf \<Longrightarrow> (\<And>b. length b = n \<Longrightarrow> Q b w) \<Longrightarrow> runs (alift (mem_read buf off n)) w Q"
  by (rule runs_alift [OF mem_read_Inr]) auto

definition ws_wf :: "websocket \<Rightarrow> bool" where
  "ws_wf ws \<longleftrightarrow> length (wk_mask ws) = 4"

lemma ws_wf_upd [simp]: "ws_wf (ws\<lparr>wk_mask := m\<rparr>) \<longleftrightarrow> length m = 4" "ws_wf (ws\<lparr>wk_rx_size := a\<rparr>) = ws_wf ws"
  "ws_wf (ws\<lparr>wk_rx_offs := a\<rparr>) = ws_wf ws" "ws_wf (ws\<lparr>wk_rx_sem := a\<rparr>) = ws_wf ws" "ws_wf (ws\<lparr>wk_tx_sem := a\<rparr>) = ws_wf ws"
  "ws_wf (ws\<lparr>wk_rx_opcode := b\<rparr>) = ws_wf ws" "ws_wf (ws\<lparr>wk_state := c\<rparr>) = ws_wf ws" "ws_wf ws \<Longrightarrow> ws_wf (sent_ws now ws)"
  by (simp_all add: ws_wf_def)

lemma size_field_length: "length (snd (size_field bsz)) \<le> 8"
  by (simp add: size_field_def)

text \<open>
  A websocket on a connection about which nothing is known but that its functions report as many bytes as they
  delivered or took. The header is read into 14 bytes \<open>junk\<close> of whatever contents.
\<close>

lemma pld_len_cases: "(x AND WS_HDR_PLD_LEN < 126) \<or> x AND WS_HDR_PLD_LEN = 126 \<or> x AND WS_HDR_PLD_LEN = 127"
proof -
  have "WS_HDR_PLD_LEN = mask 7" by (simp add: WS_HDR_PLD_LEN_def mask_eq_exp_minus_1)
  then have "x AND WS_HDR_PLD_LEN = take_bit 7 x" by (simp only: take_bit_eq_mask)
  moreover have "unat (take_bit 7 x) < 128" using take_bit_nat_less_exp [of 7 "unat x"] by (simp add: unsigned_take_bit_eq)
  ultimately show ?thesis by (simp add: word_less_nat_alt word_unat_eq_iff) linarith
qed

lemma unat_eq_same: "unat offs = unat bsz \<Longrightarrow> offs = bsz"
  by (simp add: word_unat_eq_iff)

locale ws_conn = stream_sock sf ok
  for sf :: "'w sock_funcs" and ok :: "'w \<Rightarrow> bool" +
  fixes api :: "'w tcp_api"
  assumes api_sock: "ta_sock api = sf"
    and close_safe: "ok w \<Longrightarrow> runs (ta_close api t) w (\<lambda>_ _. True)"
begin

lemma runs_RecvHeader:
  assumes "ok w" "ws_wf ws" and junk_size: "\<And>w. length (junk w) = 14"
  shows "runs (WebSocket_RecvHeader junk sf t ws) w (\<lambda>(ec, hdr, bsize, ws') w'. ok w' \<and> ws_wf ws' \<and>
    (0 \<le> ec \<longrightarrow> hdr \<noteq> None \<and> bsize \<noteq> None))"
  unfolding WebSocket_RecvHeader_def Let_def EOK_def
proof (intro runs_bind runs_get runs_recv [OF assms(1)], goal_cases)
  case (1 ec d w1)
  have sz: "unat ((if is_masked h then 4 else 0) + (if x < 126 then 0 else if x = 126 then 2 else 4) :: u32) \<le> 8" for h x
    by auto
  show ?case
  proof (cases "ec < 0")
    case True
    then show ?thesis using 1 assms by (auto intro!: runs_intros)
  next
    case False
    then have d: "length d \<le> 2" using 1 by auto
    show ?thesis unfolding prod.case if_not_P [OF False]
    proof (intro runs_bind runs_mem_write runs_if runs_ret runs_recv [OF 1(1)], goal_cases)
      case (3 pld ec2 d2 w2)
      have n: "length d2 \<le> 8" if "\<not> ec2 < 0" using 3 that by (elim disjE conjE order_trans [OF _ sz]; linarith)
      show ?case
        using 3 n assms junk_size [of w] False pld_len_cases [of "be_word16 pld"]
        by (auto intro!: runs_intros runs_mem_write runs_mem_read)
    qed (use 1 d assms junk_size in \<open>auto simp: EFATAL_def\<close>)
  qed
qed

lemma runs_recv_payload:
  assumes "ok w" "\<And>d. length (f d) = length d" "unat offs \<le> unat bsz" "\<And>p. ptr = Some p \<Longrightarrow> unat bsz \<le> length p"
  shows "runs (recv_payload_loop fuel sf f ptr bsz offs) w (\<lambda>(ec, ptr') w'. ok w' \<and> (0 \<le> ec \<longrightarrow> ec = sint bsz) \<and>
    rel_option (\<lambda>p q. length p = length q) ptr ptr')"
  using assms
proof (induction fuel arbitrary: offs w ptr)
  case 0
  then show ?case
    by (auto simp: recv_payload_loop.simps word_less_nat_alt option.rel_refl intro!: runs_intros dest: unat_eq_same)
next
  case (Suc fuel)
  show ?case
  proof (cases "offs < bsz")
    case False
    then show ?thesis using Suc.prems
      by (auto simp: recv_payload_loop.simps word_less_nat_alt option.rel_refl intro!: runs_intros dest: unat_eq_same)
  next
    case True
    define k where "k = min 32 (bsz - offs)"
    have uk: "unat k \<le> 32" "unat offs + unat k \<le> unat bsz"
      unfolding k_def unat_min_32 using True by (auto simp: unat_u32_sub word_less_nat_alt word_le_nat_alt)
    have step: "runs (recv_payload_loop fuel sf f q bsz (offs + word_of_int ec)) v (\<lambda>(ec, ptr') w'. ok w' \<and> (0 \<le> ec \<longrightarrow> ec = sint bsz) \<and>
        rel_option (\<lambda>p q. length p = length q) ptr ptr')"
      if "ok v" "ec = int l" "l \<le> unat k" "rel_option (\<lambda>p q. length p = length q) ptr q" for ec v l q
    proof -
      have "unat (word_of_nat l :: u32) = l" using that(3) uk by (simp add: unat_of_nat take_bit_nat_eq_self)
      then have "unat (offs + word_of_nat l) = unat offs + l"
        using that(3) uk unat_u32_less [of bsz] by (subst unat_u32_add) auto
      then have le: "unat (offs + word_of_int ec) \<le> unat bsz" using that(2,3) uk by simp
      have q: "unat bsz \<le> length p" if "q = Some p" for p
        using Suc.prems(4) \<open>rel_option _ ptr q\<close> that by (cases ptr) auto
      show ?thesis
        by (rule runs_mono [OF Suc.IH [OF that(1) Suc.prems(2) le q]])
          (use that(4) in \<open>auto simp: option_rel_Some1 option_rel_Some2 rel_option_iff split: option.splits\<close>)
    qed
    show ?thesis
      unfolding recv_payload_loop.simps [of "Suc fuel"] if_not_P [OF not_not [THEN iffD2, OF True]] k_def [symmetric] nat.case EOK_def
    proof (intro runs_bind runs_recv [OF Suc.prems(1)], goal_cases)
      case (1 ec d w1)
      show ?case
      proof (cases "ec < 0")
        case True
        then show ?thesis using 1 by (auto intro!: runs_intros option.rel_refl)
      next
        case False
        then have d: "ec = int (length d)" "length d \<le> unat k" using 1(2) by auto
        have "runs (case ptr of None \<Rightarrow> recv_payload_loop fuel sf f ptr bsz (offs + word_of_int ec)
            | Some p \<Rightarrow> abind (alift (mem_write p (unat offs) (f b))) (\<lambda>p. recv_payload_loop fuel sf f (Some p) bsz (offs + word_of_int ec))) w1
            (\<lambda>(ec, ptr') w'. ok w' \<and> (0 \<le> ec \<longrightarrow> ec = sint bsz) \<and> rel_option (\<lambda>p q. length p = length q) ptr ptr')"
          if b: "length b = length d" for b
        proof (cases ptr)
          case None
          then show ?thesis using step [OF 1(1) d, of None] by simp
        next
          case (Some p)
          have "unat offs + length (f b) \<le> length p" using Suc.prems(2,4) Some b d(2) uk(2) by fastforce
          then show ?thesis using Some step [OF 1(1) d] by (auto intro!: runs_bind runs_mem_write)
        qed
        then show ?thesis unfolding prod.case if_not_P [OF False]
          using d uk(1) by (intro runs_bind runs_mem_write runs_mem_read) auto
      qed
    qed
  qed
qed

lemma runs_SendHeader:
  assumes "ok w" "ws_wf ws"
  shows "runs (WebSocket_SendHeader api opcode bsz ws) w (\<lambda>(ec, ws') w'. ok w' \<and> ws_wf ws')"
proof -
  define p where "p = frame_hdr (wk_role ws) opcode bsz (wk_mask (sent_ws (ta_time api w) ws))"
  have "length p \<le> 14" using size_field_length [of bsz] assms(2) by (simp add: p_def frame_hdr_def role_mask_def sent_ws_def ws_wf_def)
  then have "unat (of_nat (length p) :: u32) \<le> length p" by (simp add: unat_of_nat take_bit_nat_eq_self)
  then have "runs (abind (sf_send sf p (of_nat (length p)) 0) (\<lambda>ec. aret (ec, sent_ws (ta_time api w) ws))) w (\<lambda>(ec, ws') w'. ok w' \<and> ws_wf ws')"
    using assms by (auto intro!: runs_intros runs_send)
  moreover have "WebSocket_SendHeader api opcode bsz ws w = abind (sf_send sf p (of_nat (length p)) 0) (\<lambda>ec. aret (ec, sent_ws (ta_time api w) ws)) w"
    by (auto simp: WebSocket_SendHeader_def Let_def api_sock p_def frame_hdr_def hdr_word_def role_mask_def sent_ws_def)
  ultimately show ?thesis by (simp add: runs_def)
qed

lemma runs_send_payload:
  assumes "ok w" "\<And>d. length (f d) = length d" "unat offs \<le> unat bsz" "unat bsz \<le> length p"
  shows "runs (send_payload_loop fuel sf f p bsz offs) w (\<lambda>ec w'. ok w')"
  using assms
proof (induction fuel arbitrary: offs w)
  case 0
  then show ?case by (auto simp: send_payload_loop.simps intro!: runs_intros)
next
  case (Suc fuel)
  show ?case
  proof (cases "offs < bsz")
    case False
    then show ?thesis using Suc.prems by (auto simp: send_payload_loop.simps intro!: runs_intros)
  next
    case True
    define k where "k = min 32 (bsz - offs)"
    have uk: "unat offs + unat k \<le> unat bsz"
      unfolding k_def unat_min_32 using True by (auto simp: unat_u32_sub word_less_nat_alt word_le_nat_alt)
    then have "unat (offs + k) = unat offs + unat k" using unat_u32_less [of bsz] by (intro unat_u32_add) linarith
    then have step: "runs (send_payload_loop fuel sf f p bsz (offs + k)) v (\<lambda>ec w'. ok w')" if "ok v" for v
      using Suc.IH [OF that Suc.prems(2) _ Suc.prems(4)] uk by simp
    show ?thesis unfolding send_payload_loop.simps [of "Suc fuel"] if_not_P [OF not_not [THEN iffD2, OF True]] Let_def
        k_def [symmetric] nat.case EOK_def
    proof (intro runs_bind runs_mem_read runs_send [OF Suc.prems(1)], goal_cases)
      case (3 b ec w1)
      then show ?case using step by (auto intro!: runs_intros)
    qed (use uk Suc.prems in auto)
  qed
qed

lemma runs_with_tx_sem:
  assumes "\<And>ws. ws_wf ws \<Longrightarrow> runs (f ws) w (\<lambda>(x, ws') w'. ok w' \<and> ws_wf ws')" "ws_wf ws"
  shows "runs (with_tx_sem task f ws) w (\<lambda>(x, ws') w'. ok w' \<and> ws_wf ws')"
  using assms(2) by (auto simp: with_tx_sem_def ws_lock_def intro!: runs_intros runs_mono [OF assms(1)])

lemma runs_recv_next_header:
  assumes "ok w" "ws_wf ws" and junk_size: "\<And>w. length (junk w) = 14"
  shows "runs (recv_next_header junk api task t pong ws) w (\<lambda>(h, ws') w'. ok w' \<and> ws_wf ws')"
  unfolding recv_next_header_def Let_def EOK_def api_sock
proof (intro runs_if runs_bind runs_ret runs_mono [OF runs_RecvHeader [OF assms]], goal_cases)
  case (2 x w1)
  obtain ec hdr bsize ws1 where x: "x = (ec, hdr, bsize, ws1)" by (cases x)
  define ws2 where "ws2 = (case bsize of None \<Rightarrow> ws1 | Some s \<Rightarrow> ws1\<lparr>wk_rx_size := s\<rparr>)"
  have ws2: "ws_wf ws2" using 2 x by (auto simp: ws2_def split: option.split)
  have "runs (with_tx_sem task (WebSocket_SendHeader api WS_HDR_OPCODE_PING 0) ws2) w1 (\<lambda>(x, ws') w'. ok w' \<and> ws_wf ws')"
    using 2 x ws2 by (intro runs_with_tx_sem runs_SendHeader) auto
  note ping = this
  show ?case
    using 2 x ws2 unfolding x prod.case ws2_def [symmetric]
    by (auto intro!: runs_intros runs_mono [OF ping] split: option.split)
qed (use assms in auto)

lemma runs_RecvPayload:
  assumes "ok w" "\<And>p. ptr = Some p \<Longrightarrow> unat bsz \<le> length p"
  shows "runs (WebSocket_RecvPayload fuel sf ptr bsz ws) w (\<lambda>(ec, ptr') w'. ok w' \<and> (0 \<le> ec \<longrightarrow> ec = sint bsz) \<and>
    rel_option (\<lambda>p q. length p = length q) ptr ptr')"
  unfolding WebSocket_RecvPayload_def by (rule runs_recv_payload [OF assms(1)]) (use assms(2) in auto)

lemma runs_recv_frame:
  assumes "ok w" "ws_wf ws" "\<And>p. ptr = Some p \<Longrightarrow> unat bsz \<le> length p"
  shows "runs (recv_frame fuel api task ptr bsz pong ws) w (\<lambda>(r, dt, ptr', ws') w'. ok w' \<and> ws_wf ws' \<and>
    rel_option (\<lambda>p q. length p = length q) ptr ptr')"
  unfolding recv_frame_def Let_def EOK_def api_sock
proof (intro runs_if runs_bind runs_mono [OF runs_RecvPayload [OF assms(1)]], goal_cases)
  case (1 p)
  then show ?case using assms(3) by (auto simp: min_def word_le_nat_alt)
next
  case (2 x w1)
  then show ?case using assms by (cases x) (auto intro!: runs_intros)
next
  case (3 p)
  then show ?case by simp
next
  case (4 x w1)
  then show ?case using assms by (cases x) (auto intro!: runs_intros option.rel_refl)
next
  case (5 p)
  then show ?case by (auto simp: min_def word_le_nat_alt)
next
  case (6 x w1)
  obtain ec pld where x: "x = (ec, pld)" by (cases x)
  obtain q where q: "pld = Some q" "length q = 125" using 6 x by (auto simp: option_rel_Some1)
  have sz: "unat (word_of_int ec :: u32) \<le> length q" if "\<not> ec < 0"
    using 6 x q that by (auto simp: min_def word_le_nat_alt)
  have "runs (with_tx_sem task (\<lambda>ws.
      abind (WebSocket_SendHeader api rsp (word_of_int ec) ws) (\<lambda>(ec', ws).
      abind (if 0 \<le> ec' then (case pld of None \<Rightarrow> afail NullDeref | Some p \<Rightarrow> WebSocket_SendPayload fuel sf p (word_of_int ec) ws) else aret ec')
        (\<lambda>ec'. aret (if rsp = WS_HDR_OPCODE_CLOSE then ENOCONNECT else ec', ws)))) (ws\<lparr>wk_rx_sem := 0\<rparr>)) w1 (\<lambda>(x, ws') w'. ok w' \<and> ws_wf ws')"
    if "\<not> ec < 0" for rsp
  proof (intro runs_with_tx_sem runs_bind, goal_cases)
    case (1 ws1)
    then show ?case
      using 6 x q sz [OF that]
      by (auto simp: WebSocket_SendPayload_def intro!: runs_mono [OF runs_SendHeader] runs_mono [OF runs_send_payload] runs_intros)
  qed (use assms in auto)
  note tx = this
  show ?case
  proof (cases "ec < 0")
    case True
    then show ?thesis using 6 x assms by (auto intro!: runs_intros option.rel_refl)
  next
    case False
    show ?thesis unfolding x prod.case if_not_P [OF False]
      by (rule runs_bind, rule runs_mono [OF tx [OF False]]) (auto intro!: runs_intros option.rel_refl)
  qed
next
  case 7
  then show ?case using assms by (auto intro!: runs_intros option.rel_refl)
qed

lemma runs_recv_loop:
  assumes "ok w" "ws_wf ws" "\<And>p. ptr = Some p \<Longrightarrow> unat bsz \<le> length p" and junk_size: "\<And>w. length (junk w) = 14"
  shows "runs (ws_recv_loop fuel junk api task ptr bsz t pong ws) w (\<lambda>(ec, dt, ptr', ws') w'. ok w' \<and> ws_wf ws' \<and>
    rel_option (\<lambda>p q. length p = length q) ptr ptr')"
  using assms(1-3)
proof (induction fuel arbitrary: w ws ptr t pong)
  case 0
  then show ?case by (simp add: ws_recv_loop.simps runs_none)
next
  case (Suc fuel)
  have again: "runs (ws_recv_loop fuel junk api task q bsz t' pong' ws') v (\<lambda>(ec, dt, ptr', ws') w'. ok w' \<and> ws_wf ws' \<and>
      rel_option (\<lambda>p q. length p = length q) ptr ptr')"
    if "ok v" "ws_wf ws'" "rel_option (\<lambda>p q. length p = length q) ptr q" for q t' pong' ws' v
  proof -
    have "unat bsz \<le> length p" if "q = Some p" for p using Suc.prems(3) \<open>rel_option _ ptr q\<close> that by (cases ptr) auto
    then show ?thesis
      by (rule runs_mono [OF Suc.IH [OF that(1,2)]]) (use that(3) in \<open>auto simp: rel_option_iff split: option.splits\<close>)
  qed
  show ?case
    unfolding ws_recv_loop.simps ws_lock_def
  proof (intro runs_bind runs_if runs_none runs_ret, goal_cases)
    case 1
    have wf: "ws_wf (ws\<lparr>wk_rx_sem := task\<rparr>)" using Suc.prems(2) by simp
    show ?case
    proof (rule runs_mono [OF runs_recv_next_header [OF Suc.prems(1) wf junk_size]], goal_cases)
      case (1 x w1)
      obtain h ws1 where x: "x = (h, ws1)" "ok w1" "ws_wf ws1" using 1 by (cases x) auto
      show ?case
      proof (cases h)
        case HdrReady
        then show ?thesis unfolding x prod.case HdrReady hdr_step.case
          by (auto intro!: runs_bind runs_mono [OF runs_recv_frame [OF x(2,3) Suc.prems(3)]] again runs_intros split: frame_step.split)
      next
        case (HdrAgain t')
        then show ?thesis using again [OF x(2,3)] x by (simp add: option.rel_refl)
      qed (use x in \<open>auto intro!: runs_intros option.rel_refl\<close>)
    qed
  qed
qed

lemma runs_Recv:
  assumes "ok w" "ws_wf ws" "\<And>p. ptr = Some p \<Longrightarrow> unat bsz \<le> length p" and junk_size: "\<And>w. length (junk w) = 14"
  shows "runs (WebSocket_Recv fuel junk api task ptr bsz t ws) w (\<lambda>(ec, dt, ptr', ws') w'. ws_wf ws' \<and>
    rel_option (\<lambda>p q. length p = length q) ptr ptr' \<and> (ec < 0 \<longrightarrow> wk_state ws' = WS_STATE_CLOSED))"
  unfolding WebSocket_Recv_def EOK_def
  by (intro runs_bind runs_mono [OF runs_recv_loop [OF assms]])
    (auto intro!: runs_intros runs_mono [OF close_safe])

end

interpretation ws_live: ws_conn "tcp_funcs fuel (stack_env arrive)" tcp_ok "ws_tcp fuel (stack_env arrive) rnd" for fuel arrive rnd
  by unfold_locales (auto simp: ws_tcp_def runs_def)

text \<open>
  C36: whatever segments the stack delivers while the task waits, and however the bytes of the frames are cut into pieces,
  receiving from a websocket does not access memory outside its arrays and the buffer of the caller, and does not use a value
  that was not written: when the call returns, it returns a code, the buffer has the size it had and the mask its
  four bytes; and after an error the websocket is closed.
\<close>

theorem Ws_Recv_memory_safe:
  assumes "tcp_ok w" "ws_wf ws" "unat bsz \<le> length p" "\<And>w. length (junk w) = 14"
    and "WebSocket_Recv fuel junk (ws_tcp n (stack_env arrive) rnd) task (Some p) bsz t ws w = Some (r, w')"
  shows "\<exists>ec dt p' ws'. r = Inr (ec, dt, Some p', ws') \<and> length p' = length p \<and> ws_wf ws' \<and> (ec < 0 \<longrightarrow> wk_state ws' = WS_STATE_CLOSED)"
  using runs_D [OF ws_live.runs_Recv [OF assms(1,2) _ assms(4), where ptr = "Some p"] assms(5)] assms(3)
  by (auto simp: option_rel_Some1)

theorem Ws_Recv_memory_safe_witness:
  "\<forall>arrive. \<exists>r w'. WebSocket_Recv (Suc 1) (\<lambda>w. replicate 14 0) (ws_tcp 0 (stack_env arrive) 0) 1 (Some (replicate 4 0)) 4 0
      (demo_ws WS_ROLE_CLIENT) (demo_tcp [129, 2, 72, 105]) = Some (r, w') \<and>
    (\<exists>ec dt p' ws'. r = Inr (ec, dt, Some p', ws') \<and> length p' = length (replicate 4 (0 :: u8)) \<and> ws_wf ws' \<and>
       (ec < 0 \<longrightarrow> wk_state ws' = WS_STATE_CLOSED))"
proof
  fix arrive
  let ?w = "demo_tcp [129, 2, 72, 105]"
  have f: "[129, 2, 72, 105] = ws_frame WS_ROLE_SERVER (opcode_of WS_DATA_TYPE_TEXT) [0, 0, 0, 0] [72, 105] @ []"
    by (simp add: ws_frame_def frame_hdr_def masking_def hdr_word_def role_mask_def size_field_def be_bytes16_def le_bytes16_def
        opcode_of_def ws_hdr_bits drop_bit_eq_div)
  have s: "sock_in ?w = [129, 2, 72, 105]" by (rule demo_tcp_up(2)) simp
  have u: "tcp_up ?w" "sock_in ?w = ws_frame WS_ROLE_SERVER (opcode_of WS_DATA_TYPE_TEXT) [0, 0, 0, 0] [72, 105] @ []"
    by (rule demo_tcp_up(1), simp) (unfold s, rule f)
  have a: "ta_sock (ws_tcp 0 (stack_env arrive) 0) = tcp_funcs 0 (stack_env arrive)" by (simp add: ws_tcp_def)
  obtain r w' where r: "WebSocket_Recv (Suc 1) (\<lambda>w. replicate 14 0) (ws_tcp 0 (stack_env arrive) 0) 1 (Some (replicate 4 0)) 4 0
      (demo_ws WS_ROLE_CLIENT) ?w = Some (r, w')"
    using tcp_wire.Recv_ok [OF u(1) a u(2), of "demo_ws WS_ROLE_CLIENT" 1 "\<lambda>w. replicate 14 0" 1 4 "replicate 4 0" 0]
    by (auto simp: demo_ws_def)
  have "tcp_ok ?w" using u(1) by (simp add: tcp_up_def)
  then show "\<exists>r w'. WebSocket_Recv (Suc 1) (\<lambda>w. replicate 14 0) (ws_tcp 0 (stack_env arrive) 0) 1 (Some (replicate 4 0)) 4 0
      (demo_ws WS_ROLE_CLIENT) ?w = Some (r, w') \<and>
    (\<exists>ec dt p' ws'. r = Inr (ec, dt, Some p', ws') \<and> length p' = length (replicate 4 (0 :: u8)) \<and> ws_wf ws' \<and>
       (ec < 0 \<longrightarrow> wk_state ws' = WS_STATE_CLOSED))"
    using r Ws_Recv_memory_safe [OF _ _ _ _ r] by (auto simp: ws_wf_def demo_ws_def)
qed

section \<open>The state of a websocket\<close>

lemma abind_result:
  assumes "abind m f w = Some (Inr y, w')"
  obtains x v where "f x v = Some (Inr y, w')"
  using assms by (auto simp: abind_Some)

text \<open>
  A websocket that was closed is open after \<open>WebSocket_Connect\<close> exactly if the call reports success; then it is a client with no
  frame begun. After \<open>WebSocket_Listen\<close> it is a server with no frame begun, and the call reports success, or it is closed.
\<close>

lemma Connect_result:
  assumes "wk_state ws = WS_STATE_CLOSED" "WebSocket_Connect fuel pd sd api seed ip port url ws w = Some (Inr (ec, seed', ws'), w')"
  shows "(ec = EOK \<longleftrightarrow> wk_state ws' = WS_STATE_OPEN) \<and>
    (ec = EOK \<longrightarrow> wk_role ws' = WS_ROLE_CLIENT \<and> wk_rx_size ws' = wk_rx_offs ws') \<and> (ec \<noteq> EOK \<longrightarrow> wk_state ws' = WS_STATE_CLOSED)"
proof (cases "port = 0")
  case False
  with assms show ?thesis
    by (auto simp: WebSocket_Connect_def Let_def EOK_def EFATAL_def elim!: abind_result split: if_splits prod.splits)
qed (use assms in \<open>auto simp: WebSocket_Connect_def EARGVAL_def EOK_def\<close>)

lemma Listen_result:
  assumes "wk_state ws = WS_STATE_CLOSED" "WebSocket_Listen fuel pd sd api port url timeout ws w = Some (Inr (ec, ws'), w')"
  shows "(wk_state ws' = WS_STATE_OPEN \<longrightarrow> ec = EOK \<and> wk_role ws' = WS_ROLE_SERVER \<and> wk_rx_size ws' = wk_rx_offs ws') \<and>
    (wk_state ws' \<noteq> WS_STATE_OPEN \<longrightarrow> wk_state ws' = WS_STATE_CLOSED)"
proof (cases "port = 0")
  case False
  with assms show ?thesis
    by (auto simp: WebSocket_Listen_def Let_def EOK_def elim!: abind_result split: if_splits prod.splits)
qed (use assms in \<open>auto simp: WebSocket_Listen_def EARGVAL_def EOK_def\<close>)

section \<open>Defects\<close>

text \<open>
  A server that turns a request down reports the code of its last read, which was successful: the caller cannot tell
  from the result that there is no connection.
\<close>

lemma Ws_listen_refusal_reported_as_success:
  assumes "wk_state ws = WS_STATE_CLOSED" "port \<noteq> 0" "listen_wait fuel api port timeout (ta_time api w) w = Some (Inr (Inr e), w1)"
    and "WebSocket_RecvRequestLine sd (ta_sock api) (of_nat (WEBSOCKETS_MAX_LINE_LEN + 1)) w1 = Some (Inr (EOK, Some req_url), w2)"
    and "strcmp u req_url = Inr c" "c \<noteq> 0"
    and "WebSocket_SendErrorReply pd (ta_sock api) WS_STATUS_404_NOT_FOUND w2 = Some (Inr e2, w3)" "ta_close api 0 w3 = Some (Inr e3, w4)"
  shows "\<exists>ws'. WebSocket_Listen fuel pd sd api port (Some u) timeout ws w = Some (Inr (EOK, ws'), w4) \<and> wk_state ws' = WS_STATE_CLOSED"
  using assms by (simp add: WebSocket_Listen_def listen_talk_def Let_def abind_def aret_def aget_def)

text \<open>A status code that is not in the table makes the client follow a null pointer.\<close>

lemma Ws_unknown_status_faults:
  "WebSocket_ParseStatusLine no_sd (lit ''HTTP/1.1 403 Forbidden'') 22 = Inl NullDeref"
  by code_simp

text \<open>The URL of a request is not sent, and the null pointer, which stands for the root, is printed.\<close>

lemma Ws_url_ignored:
  "WebSocket_SendRequestLine pd sf (Some u) = WebSocket_SendRequestLine pd sf (Some u')"
  "WebSocket_SendRequestLine pd sf None = afail NullDeref"
proof -
  show "WebSocket_SendRequestLine pd sf (Some u) = WebSocket_SendRequestLine pd sf (Some u')"
    by (simp add: WebSocket_SendRequestLine_def)
  have "WebSocket_GetVersionSpec (Some HTTP_VER_1V1) None = Inr (Some (HTTP_VER_1V1, lit ''HTTP/1.1''))" by code_simp
  then show "WebSocket_SendRequestLine pd sf None = afail NullDeref" by (simp add: WebSocket_SendRequestLine_def)
qed

text \<open>A timeout of a whole second becomes zero after the first ping, which stands for no timeout.\<close>

lemma Ws_timeout_becomes_endless:
  assumes "wk_rx_size ws = wk_rx_offs ws" "sf_recv (ta_sock api) 2 1000 w = Some (Inr (ETIMEOUT, []), w1)"
    and "with_tx_sem task (WebSocket_SendHeader api WS_HDR_OPCODE_PING 0) ws w1 = Some (Inr (ec, ws'), w2)" "0 \<le> ec"
  shows "recv_next_header junk api task 1000 pong ws w = Some (Inr (HdrAgain 0, ws'), w2)"
  using assms by (simp add: recv_next_header_def WebSocket_RecvHeader_def ping_ival_def abind_def aget_def aret_def ETIMEOUT_def EOK_def)

text \<open>After an error the task keeps the semaphore, and every other task that receives waits for ever.\<close>

lemma Ws_error_keeps_semaphore:
  assumes "wk_rx_size ws = wk_rx_offs ws" "wk_rx_sem ws = 0" "0 < t" "t < 1000" "sf_recv (ta_sock api) 2 t w = Some (Inr (ec, []), w1)" "ec < 0"
    and "ta_close api 3000 w1 = Some (Inr e, w2)"
  shows "\<exists>ws'. WebSocket_Recv (Suc fuel) junk api task ptr bsz t ws w = Some (Inr (ec, None, ptr, ws'), w2) \<and> wk_rx_sem ws' = task"
  using assms
  by (simp add: WebSocket_Recv_def ws_recv_loop.simps ws_lock_def recv_next_header_def WebSocket_RecvHeader_def ping_ival_def abind_def
      aget_def aret_def EOK_def min_def)

text \<open>
  A message that is read in two calls: the second one starts with the first byte of the mask again, so a first part whose
  size is not a multiple of four garbles the rest.
\<close>

lemma Ws_second_read_garbled:
  assumes "tcp_up w" "wk_role ws = WS_ROLE_SERVER" "wk_rx_opcode ws = WS_HDR_OPCODE_BIN" "wk_rx_sem ws = 0"
    and "sock_in w = drop (unat (wk_rx_offs ws)) (xor_mask (wk_mask ws) d) @ rest"
    and "wk_rx_offs ws < wk_rx_size ws" "length d = unat (wk_rx_size ws)" "length d < 0xffff" "length d \<le> 32 * fuel"
    and "length d \<le> unat bsz" "length d \<le> length p"
  shows "\<exists>p' ws' w'. WebSocket_Recv (Suc fuel) junk (ws_tcp 0 env rnd) task (Some p) bsz t ws w =
      Some (Inr (int (length d) - int (unat (wk_rx_offs ws)), Some WS_DATA_TYPE_BIN, Some p', ws'), w') \<and>
    p' ! 0 = d ! unat (wk_rx_offs ws) XOR wk_mask ws ! (unat (wk_rx_offs ws) mod 4) XOR wk_mask ws ! 0"
proof -
  define o' where "o' = unat (wk_rx_offs ws)"
  define e where "e = drop o' (xor_mask (wk_mask ws) d)"
  define n where "n = wk_rx_size ws - wk_rx_offs ws"
  have lt: "o' < length d" using assms(6,7) by (simp add: o'_def word_less_nat_alt)
  have n: "unat n = length d - o'" using assms(6,7) by (simp add: n_def o'_def unat_u32_sub)
  have ns: "n < 0xffff" using n assms(8) by (simp add: word_less_nat_alt)
  have mn: "min bsz n = n" using n assms(10) by (intro min_absorb2) (simp add: word_le_nat_alt)
  have le: "length e = unat n" using n by (simp add: e_def)
  have "\<exists>w'. recv_payload_loop fuel (tcp_funcs 0 env) (xor_mask (wk_mask ws)) (Some p) n 0 w =
      Some (Inr (sint n, Some (take (unat (0 :: u32)) p @ xor_mask (wk_mask ws) e @ drop (unat n) p)), w') \<and> tcp_up w' \<and> sock_in w' = rest \<and>
      sock_out w' = sock_out w \<and> sock_room w' = sock_room w"
  proof (rule tcp_wire.recv_payload_ok [OF assms(1) piecewise_xor_mask])
    show "sock_in w = e @ rest" using assms(5) by (simp add: e_def o'_def)
  qed (use n le assms(9,11) in auto)
  then obtain w' where w': "WebSocket_RecvPayload fuel (tcp_funcs 0 env) (Some p) n (ws\<lparr>wk_rx_sem := task\<rparr>) w =
      Some (Inr (int (length d) - int o', Some (xor_mask (wk_mask ws) e @ drop (unat n) p)), w')"
    using assms(2) sint_small [OF ns] n lt by (auto simp: WebSocket_RecvPayload_def)
  have "xor_mask (wk_mask ws) e ! 0 = e ! 0 XOR wk_mask ws ! 0" using lt by (simp add: xor_mask_nth e_def)
  also have "e ! 0 = d ! o' XOR wk_mask ws ! (o' mod 4)" using lt by (simp add: e_def xor_mask_nth)
  finally have "(xor_mask (wk_mask ws) e @ drop (unat n) p) ! 0 = d ! o' XOR wk_mask ws ! (o' mod 4) XOR wk_mask ws ! 0"
    using lt n by (simp add: nth_append e_def xor.assoc)
  moreover have "wk_rx_size ws \<noteq> wk_rx_offs ws" using assms(6) by auto
  ultimately show ?thesis
    using w' assms(3,4) mn lt unfolding o'_def [symmetric] n_def [symmetric]
    by (auto simp: WebSocket_Recv_def ws_recv_loop.simps ws_lock_def recv_next_header_def recv_frame_def ws_tcp_def Let_def abind_def aret_def
        EOK_def WS_HDR_OPCODE_BIN_def WS_HDR_OPCODE_TEXT_def n_def [symmetric])
qed

text \<open>Of a header with a 64 bit size the last four bytes, the mask, are left in the socket.\<close>

lemma Ws_long_header_leaves_mask:
  assumes "tcp_up w" "wk_role ws = WS_ROLE_SERVER" "length (junk w) = 14" "length m = 4"
    and "sock_in w = be_bytes16 0x82ff @ be_bytes32 0 @ be_bytes32 n @ m @ rest"
  shows "\<exists>ws' w'. WebSocket_RecvHeader junk (tcp_funcs 0 env) t ws w = Some (Inr (EOK, Some 0x82ff, Some n, ws'), w') \<and>
    sock_in w' = m @ rest \<and> wk_mask ws' = drop 10 (junk w)"
proof -
  obtain w1 where w1: "sf_recv (tcp_funcs 0 env) 2 t w = Some (Inr (2, be_bytes16 0x82ff), w1)" "tcp_up w1"
      "sock_in w1 = (be_bytes32 0 @ be_bytes32 n) @ m @ rest"
    using tcp_wire.recv_chunk [OF assms(1), of "be_bytes16 0x82ff" _ 2 env t] assms(5) by auto
  obtain w2 where w2: "sf_recv (tcp_funcs 0 env) 8 0 w1 = Some (Inr (8, be_bytes32 0 @ be_bytes32 n), w2)" "sock_in w2 = m @ rest"
    using tcp_wire.recv_chunk [OF w1(2,3), of 8 env 0] by auto
  define pld where "pld = be_bytes16 0x82ff @ drop 2 (junk w)"
  define pld2 where "pld2 = be_bytes16 0x82ff @ be_bytes32 0 @ be_bytes32 n @ drop 10 (junk w)"
  have m: "mem_write (junk w) 0 (be_bytes16 0x82ff) = Inr pld" "mem_write pld 2 (be_bytes32 0 @ be_bytes32 n) = Inr pld2"
    "be_word16 pld = 0x82ff" "be_size64 (drop 2 pld2) = n" "mem_read pld2 10 4 = Inr (drop 10 (junk w))"
    using assms(3) by (simp_all add: mem_write_def mem_read_def pld_def pld2_def be_size64_def numeral_2_eq_2)
  have h: "is_masked 0x82ff" "(0x82ff :: u16) AND WS_HDR_PLD_LEN = 127" by (simp_all add: is_masked_def ws_hdr_bits)
  show ?thesis using w1(1) w2 m h assms(2)
    by (simp add: WebSocket_RecvHeader_def Let_def abind_def aget_def aret_def EOK_def)
qed
end
