(* ===== verification/Net_Ws.thy ===== *)
theory Net_Ws
  imports Net_Websocket
begin

text \<open>
  The websockets of the HTTP server, \<^verbatim>\<open>net/uhttpsrv/src/ws.c\<close>. A request that asks for a websocket is accepted by a response; from
  then on frames go over its socket, as in \<^verbatim>\<open>net/websocket/src/websocket.c\<close> on the side of the server. The frame functions work
  on the websocket of the request, \<open>rq_ws\<close>; the loops over the payload and the bits of the header are those of
  \<^verbatim>\<open>Net_Websocket\<close>.

  The results: the two implementations read headers in the same way; a message goes from a client of \<^verbatim>\<open>websocket.c\<close> to
  this server and back.
\<close>

unbundle bit_operations_syntax

section \<open>Frames\<close>

datatype uhttp_ws_data_type = HTTP_WS_DATA_TYPE_TEXT | HTTP_WS_DATA_TYPE_BIN

definition UHTTPSrvWS_RecvHeader ::
  "('w \<Rightarrow> bytes) \<Rightarrow> 'w sock_funcs \<Rightarrow> int \<Rightarrow> uhttp_ws \<Rightarrow> ('w, err_t \<times> u16 option \<times> u32 option \<times> uhttp_ws) act" where
  "UHTTPSrvWS_RecvHeader junk sf timeout ws =
     abind (aget junk) (\<lambda>pld.
     abind (sf_recv sf 2 timeout) (\<lambda>(ec, d).
     if ec < EOK then aret (ec, None, None, ws)
     else
       abind (alift (mem_write pld 0 d)) (\<lambda>pld.
       let hdr = be_word16 pld in
       if \<not> is_masked hdr then aret (EFATAL, Some hdr, None, ws)
       else
         let decoded_size = hdr AND WS_HDR_PLD_LEN;
             bsize = (if decoded_size < 126 then Some (ucast decoded_size) else None);
             bytes_to_get = 4 + (if decoded_size < 126 then 0 else if decoded_size = 126 then 2 else 4)
         in
         abind (sf_recv sf bytes_to_get 0) (\<lambda>(ec, d).
         if ec < EOK then aret (ec, Some hdr, bsize, ws)
         else
           abind (alift (mem_write pld 2 d)) (\<lambda>pld.
           let (bsize, mask_ptr) =
                 (if decoded_size = 126 then (Some (ucast (be_word16 (drop 2 pld))), 4)
                  else if decoded_size = 127 then (Some (be_size64 (drop 2 pld)), 10)
                  else (bsize, 2))
           in abind (alift (mem_read pld mask_ptr 4)) (\<lambda>m. aret (EOK, Some hdr, bsize, ws\<lparr>ws_mask := m\<rparr>)))))))"

definition UHTTPSrvWS_SendHeader :: "'w sock_funcs \<Rightarrow> u16 \<Rightarrow> u32 \<Rightarrow> ('w, err_t) act" where
  "UHTTPSrvWS_SendHeader sf hdr bsz =
     (let hdr = hdr OR WS_HDR_FIN OR fst (size_field bsz);
          pld = be_bytes16 hdr @ snd (size_field bsz)
      in sf_send sf pld (of_nat (length pld)) 0)"

definition UHTTPSrvWS_RecvPayload :: "nat \<Rightarrow> 'w sock_funcs \<Rightarrow> bytes option \<Rightarrow> u32 \<Rightarrow> uhttp_ws \<Rightarrow> ('w, err_t \<times> bytes option) act" where
  "UHTTPSrvWS_RecvPayload fuel sf ptr bsz ws = recv_payload_loop fuel sf (xor_mask (ws_mask ws)) ptr bsz 0"

definition UHTTPSrvWS_SendPayload :: "nat \<Rightarrow> 'w sock_funcs \<Rightarrow> bytes \<Rightarrow> u32 \<Rightarrow> ('w, err_t) act" where
  "UHTTPSrvWS_SendPayload fuel sf ptr bsz = send_payload_loop fuel sf (\<lambda>d. d) ptr bsz 0"

definition UHTTPSrvWS_ComputeAccept :: "bytes \<Rightarrow> fault + bytes" where
  "UHTTPSrvWS_ComputeAccept key =
     bind_res (mem_read key 0 24) (\<lambda>k.
     bind_res (SHA1_Digest SHA1_InitState False k) (\<lambda>(_, sha1).
     bind_res (SHA1_Digest sha1 True ws_magic) (\<lambda>(_, sha1).
     bind_res (SHA1_GetHashVal sha1 20) (\<lambda>(hash_size, hash).
     bind_res (Base64_Encode (take (nat hash_size) hash) 29) (\<lambda>(accept_size, out).
     bind_res (mem_write (replicate 30 0) 0 out) (\<lambda>accept.
       mem_write accept (unat (word_of_int accept_size :: u32)) [0]))))))"

definition UHTTPSrvWS_Init :: err_t where
  "UHTTPSrvWS_Init = EOK"

section \<open>Operations on a request\<close>

definition UHTTPSrvWS_Accept ::
  "(u32 \<Rightarrow> 'd \<Rightarrow> fs \<Rightarrow> bytes) \<Rightarrow> 'w sock_funcs \<Rightarrow> int \<Rightarrow> uhttp_request \<Rightarrow> ('w, err_t \<times> uhttp_request) act" where
  "UHTTPSrvWS_Accept pd sf tmo req =
     (if rq_type req \<noteq> HTTP_REQ_TYPE_WEBSOCKET then aret (EARGVAL, req)
      else
        abind (alift (UHTTPSrvWS_ComputeAccept (rq_ws_key req))) (\<lambda>accept.
        abind (UHTTPSrv_SendStatus pd sf tmo req HTTP_STATUS_101_SWITCHING_PROTOCOLS 0) (\<lambda>(e1, req).
        abind (UHTTPSrv_SendHeaderField pd sf tmo req HTTP_FIELD_NAME_UPGRADE [VStr (lit ''websocket'')]) (\<lambda>(e2, req).
        abind (UHTTPSrv_SendHeaderField pd sf tmo req HTTP_FIELD_NAME_CONNECTION [VStr (lit ''Upgrade'')]) (\<lambda>(e3, req).
        abind (UHTTPSrv_SendHeaderField pd sf tmo req HTTP_FIELD_NAME_SEC_WS_ACCEPT [VStr accept]) (\<lambda>(e4, req).
        abind (UHTTPSrv_EndHeader sf tmo req) (\<lambda>(e5, req).
        let ec = EOK OR e1 OR e2 OR e3 OR e4 OR e5
        in aret (ec, if ec \<ge> EOK then req\<lparr>rq_ws := rq_ws req\<lparr>ws_is_open := True\<rparr>\<rparr> else req))))))))"

text \<open>An operation on the websocket of a request.\<close>

definition on_ws :: "(uhttp_ws \<Rightarrow> ('w, 'a \<times> uhttp_ws) act) \<Rightarrow> uhttp_request \<Rightarrow> ('w, 'a \<times> uhttp_request) act" where
  "on_ws f req = abind (f (rq_ws req)) (\<lambda>(x, ws). aret (x, req\<lparr>rq_ws := ws\<rparr>))"

definition with_uhttp_tx_sem :: "u32 \<Rightarrow> ('w, 'a) act \<Rightarrow> uhttp_ws \<Rightarrow> ('w, 'a \<times> uhttp_ws) act" where
  "with_uhttp_tx_sem task f ws =
     abind (ws_lock task (ws_tx_sem ws)) (\<lambda>_. abind f (\<lambda>x. aret (x, ws\<lparr>ws_tx_sem := 0\<rparr>)))"

text \<open>The two parts of \<open>UHTTPSrvWS_Recv\<close>, as in \<^verbatim>\<open>Net_Websocket\<close>.\<close>

definition uhttp_next_header ::
  "('w \<Rightarrow> bytes) \<Rightarrow> 'w sock_funcs \<Rightarrow> u32 \<Rightarrow> int \<Rightarrow> u32 \<Rightarrow> uhttp_ws \<Rightarrow> ('w, hdr_step \<times> uhttp_ws) act" where
  "uhttp_next_header junk sf task timeout pong_cnt ws =
     (if ws_rx_size ws \<noteq> ws_rx_offs ws then aret (HdrReady, ws)
      else
        let hdr_to = (if timeout \<noteq> 0 then min timeout ping_ival else ping_ival); ping_cnt = 0 in
        abind (UHTTPSrvWS_RecvHeader junk sf hdr_to ws) (\<lambda>(ec, hdr, bsize, ws).
        let ws = (case bsize of None \<Rightarrow> ws | Some s \<Rightarrow> ws\<lparr>ws_rx_size := s\<rparr>) in
        if ec < EOK then
          if ec = ENOCONNECT then aret (HdrEnd ec, ws)
          else if hdr_to < ping_ival then aret (HdrEnd ec, ws)
          else if ping_cnt > pong_cnt + 3 then aret (HdrEnd ec, ws)
          else
            abind (with_uhttp_tx_sem task (UHTTPSrvWS_SendHeader sf WS_HDR_OPCODE_PING 0) ws) (\<lambda>(ec, ws).
            if ec < EOK then aret (HdrEnd ec, ws)
            else aret (HdrAgain (if timeout \<noteq> 0 then timeout - ping_ival else timeout), ws))
        else
          case hdr of
            None \<Rightarrow> afail Uninit
          | Some h \<Rightarrow> aret (HdrReady, ws\<lparr>ws_rx_opcode := h AND WS_HDR_OPCODE, ws_rx_offs := 0\<rparr>)))"

definition uhttp_frame ::
  "nat \<Rightarrow> 'w sock_funcs \<Rightarrow> u32 \<Rightarrow> bytes option \<Rightarrow> u32 \<Rightarrow> u32 \<Rightarrow> uhttp_ws \<Rightarrow>
   ('w, frame_step \<times> uhttp_ws_data_type option \<times> bytes option \<times> uhttp_ws) act" where
  "uhttp_frame fuel sf task ptr bsz pong_cnt ws =
     (let opcode = ws_rx_opcode ws in
      if opcode = WS_HDR_OPCODE_TEXT \<or> opcode = WS_HDR_OPCODE_BIN then
        abind (UHTTPSrvWS_RecvPayload fuel sf ptr (min bsz (ws_rx_size ws - ws_rx_offs ws)) ws) (\<lambda>(ec, ptr).
        let ws = (if ec \<ge> EOK then ws\<lparr>ws_rx_offs := ws_rx_offs ws + word_of_int ec\<rparr> else ws)
        in aret (FrameDone ec, Some (if opcode = WS_HDR_OPCODE_TEXT then HTTP_WS_DATA_TYPE_TEXT else HTTP_WS_DATA_TYPE_BIN), ptr,
              ws\<lparr>ws_rx_sem := 0\<rparr>))
      else if opcode = WS_HDR_OPCODE_PONG then
        abind (UHTTPSrvWS_RecvPayload fuel sf None (ws_rx_size ws) ws) (\<lambda>(ec, _).
        aret (if ec \<ge> EOK then FrameAgain (pong_cnt + 1) else FrameDone ec, None, ptr, ws\<lparr>ws_rx_size := 0, ws_rx_offs := 0\<rparr>))
      else if opcode = WS_HDR_OPCODE_PING \<or> opcode = WS_HDR_OPCODE_CLOSE then
        abind (UHTTPSrvWS_RecvPayload fuel sf (Some (replicate 125 0)) (min 125 (ws_rx_size ws)) ws) (\<lambda>(ec, pld).
        let ws = ws\<lparr>ws_rx_sem := 0\<rparr>; pld_size = word_of_int ec in
        if ec < EOK then aret (FrameDone ec, None, ptr, ws)
        else
          abind (with_uhttp_tx_sem task (
            let rsp_opcode = (if opcode = WS_HDR_OPCODE_CLOSE then WS_HDR_OPCODE_CLOSE else WS_HDR_OPCODE_PONG) in
            abind (UHTTPSrvWS_SendHeader sf rsp_opcode pld_size) (\<lambda>ec.
            abind (if ec \<ge> EOK then (case pld of None \<Rightarrow> afail NullDeref | Some p \<Rightarrow> UHTTPSrvWS_SendPayload fuel sf p pld_size) else aret ec)
              (\<lambda>ec. aret (if rsp_opcode = WS_HDR_OPCODE_CLOSE then ENOCONNECT else ec)))) ws) (\<lambda>(ec, ws).
          aret (if ec \<ge> EOK then FrameAgain pong_cnt else FrameDone ec, None, ptr, ws\<lparr>ws_rx_size := 0, ws_rx_offs := 0\<rparr>)))
      else aret (FrameDone EFATAL, None, ptr, ws))"

fun uhttp_recv_loop ::
  "nat \<Rightarrow> ('w \<Rightarrow> bytes) \<Rightarrow> 'w sock_funcs \<Rightarrow> u32 \<Rightarrow> bytes option \<Rightarrow> u32 \<Rightarrow> int \<Rightarrow> u32 \<Rightarrow> uhttp_ws \<Rightarrow>
   ('w, (err_t \<times> uhttp_ws_data_type option \<times> bytes option) \<times> uhttp_ws) act" where
  "uhttp_recv_loop 0 junk sf task ptr bsz timeout pong_cnt ws = (\<lambda>w. None)"
| "uhttp_recv_loop (Suc fuel) junk sf task ptr bsz timeout pong_cnt ws =
     abind (ws_lock task (ws_rx_sem ws)) (\<lambda>s.
     abind (uhttp_next_header junk sf task timeout pong_cnt (ws\<lparr>ws_rx_sem := s\<rparr>)) (\<lambda>(h, ws).
     case h of
       HdrEnd ec \<Rightarrow> aret ((ec, None, ptr), ws)
     | HdrAgain timeout \<Rightarrow> uhttp_recv_loop fuel junk sf task ptr bsz timeout pong_cnt ws
     | HdrReady \<Rightarrow>
         abind (uhttp_frame fuel sf task ptr bsz pong_cnt ws) (\<lambda>(r, dtype, ptr, ws).
         case r of
           FrameDone ec \<Rightarrow> aret ((ec, dtype, ptr), ws)
         | FrameAgain pong_cnt \<Rightarrow> uhttp_recv_loop fuel junk sf task ptr bsz timeout pong_cnt ws)))"

declare uhttp_recv_loop.simps [simp del]

definition UHTTPSrvWS_Recv ::
  "nat \<Rightarrow> ('w \<Rightarrow> bytes) \<Rightarrow> 'w sock_funcs \<Rightarrow> u32 \<Rightarrow> bytes option \<Rightarrow> u32 \<Rightarrow> int \<Rightarrow> uhttp_request \<Rightarrow>
   ('w, (err_t \<times> uhttp_ws_data_type option \<times> bytes option) \<times> uhttp_request) act" where
  "UHTTPSrvWS_Recv fuel junk sf task ptr bsz timeout =
     on_ws (\<lambda>ws. abind (uhttp_recv_loop fuel junk sf task ptr bsz timeout 0 ws) (\<lambda>((ec, dtype, ptr), ws).
       aret ((ec, dtype, ptr), if ec < EOK then ws\<lparr>ws_is_open := False\<rparr> else ws)))"

definition uhttp_opcode :: "uhttp_ws_data_type \<Rightarrow> u16" where
  "uhttp_opcode dtype = (case dtype of HTTP_WS_DATA_TYPE_TEXT \<Rightarrow> WS_HDR_OPCODE_TEXT | HTTP_WS_DATA_TYPE_BIN \<Rightarrow> WS_HDR_OPCODE_BIN)"

definition UHTTPSrvWS_Send ::
  "nat \<Rightarrow> 'w sock_funcs \<Rightarrow> u32 \<Rightarrow> uhttp_ws_data_type \<Rightarrow> bytes \<Rightarrow> u32 \<Rightarrow> uhttp_request \<Rightarrow> ('w, err_t \<times> uhttp_request) act" where
  "UHTTPSrvWS_Send fuel sf task dtype ptr bsz =
     on_ws (\<lambda>ws.
       if \<not> ws_is_open ws then aret (ENOCONNECT, ws)
       else
         abind (with_uhttp_tx_sem task (
           abind (UHTTPSrvWS_SendHeader sf (uhttp_opcode dtype) bsz) (\<lambda>ec.
           if ec \<ge> EOK then UHTTPSrvWS_SendPayload fuel sf ptr bsz else aret ec)) ws) (\<lambda>(ec, ws).
         aret (ec, if ec < EOK then ws\<lparr>ws_is_open := False\<rparr> else ws)))"

fun uhttp_close_loop :: "nat \<Rightarrow> ('w \<Rightarrow> 'w) \<Rightarrow> ('w \<Rightarrow> bytes) \<Rightarrow> 'w sock_funcs \<Rightarrow> u32 \<Rightarrow> err_t \<Rightarrow> uhttp_ws \<Rightarrow> ('w, uhttp_ws) act" where
  "uhttp_close_loop 0 yield junk sf task ec ws = (\<lambda>w. None)"
| "uhttp_close_loop (Suc fuel) yield junk sf task ec ws =
     abind (ws_lock task (ws_rx_sem ws)) (\<lambda>s.
     let ws = ws\<lparr>ws_rx_sem := s\<rparr> in
     abind (if ec < EOK then aret ((ec, None), ws)
            else
              abind (UHTTPSrvWS_RecvHeader junk sf 0 ws) (\<lambda>(ec, hdr, bsize, ws).
              if ec < EOK then aret ((ec, hdr), ws)
              else
                case bsize of
                  None \<Rightarrow> afail Uninit
                | Some bsz \<Rightarrow> abind (UHTTPSrvWS_RecvPayload fuel sf None bsz ws) (\<lambda>(ec, _). aret ((ec, hdr), ws))))
       (\<lambda>((ec, hdr), ws).
     let ws = ws\<lparr>ws_rx_sem := 0\<rparr> in
     if ec < EOK then aret ws
     else
       case hdr of
         None \<Rightarrow> afail Uninit
       | Some h \<Rightarrow>
           if h AND WS_HDR_OPCODE = WS_HDR_OPCODE_CLOSE then aret ws
           else (\<lambda>w. uhttp_close_loop fuel yield junk sf task ec ws (yield w))))"

definition UHTTPSrvWS_Close ::
  "nat \<Rightarrow> ('w \<Rightarrow> 'w) \<Rightarrow> ('w \<Rightarrow> bytes) \<Rightarrow> 'w sock_funcs \<Rightarrow> u32 \<Rightarrow> uhttp_request \<Rightarrow> ('w, err_t \<times> uhttp_request) act" where
  "UHTTPSrvWS_Close fuel yield junk sf task =
     on_ws (\<lambda>ws.
       abind (if ws_is_open ws
              then abind (with_uhttp_tx_sem task (UHTTPSrvWS_SendHeader sf WS_HDR_OPCODE_CLOSE 0) ws) (\<lambda>(ec, ws).
                uhttp_close_loop fuel yield junk sf task ec ws)
              else aret ws) (\<lambda>ws. aret (EOK, ws\<lparr>ws_is_open := False\<rparr>)))"

section \<open>Agreement with the other implementation\<close>

text \<open>The websocket of a request, as one of \<^verbatim>\<open>websocket.c\<close> on the side of the server.\<close>

definition as_websocket :: "uhttp_ws \<Rightarrow> websocket" where
  "as_websocket ws =
     \<lparr>wk_state = if ws_is_open ws then WS_STATE_OPEN else WS_STATE_CLOSED, wk_tx_sem = ws_tx_sem ws, wk_rx_sem = ws_rx_sem ws,
      wk_rx_size = ws_rx_size ws, wk_rx_offs = ws_rx_offs ws, wk_rx_opcode = ws_rx_opcode ws, wk_mask = ws_mask ws,
      wk_role = WS_ROLE_SERVER\<rparr>"

lemma as_websocket_upd: "as_websocket (ws\<lparr>ws_mask := m\<rparr>) = as_websocket ws\<lparr>wk_mask := m\<rparr>" "wk_role (as_websocket ws) = WS_ROLE_SERVER"
  by (simp_all add: as_websocket_def)

lemma abind_assoc: "abind (abind m f) g = abind m (\<lambda>x. abind (f x) g)"
  by (auto simp: abind_def fun_eq_iff split: option.splits sum.splits prod.splits)

lemma abind_cong: "(\<And>x. f x = g x) \<Longrightarrow> abind m f = abind m g"
  by presburger

lemma RecvHeader_same:
  "WebSocket_RecvHeader junk sf t (as_websocket ws) =
    abind (UHTTPSrvWS_RecvHeader junk sf t ws) (\<lambda>(ec, hdr, bsize, ws). aret (ec, hdr, bsize, as_websocket ws))"
  unfolding WebSocket_RecvHeader_def UHTTPSrvWS_RecvHeader_def abind_assoc Let_def as_websocket_upd(2)
  by (intro abind_cong) (auto simp: abind_assoc as_websocket_upd intro!: abind_cong)


section \<open>Messages\<close>

definition data_type_of :: "uhttp_ws_data_type \<Rightarrow> websocket_data_type" where
  "data_type_of t = (case t of HTTP_WS_DATA_TYPE_TEXT \<Rightarrow> WS_DATA_TYPE_TEXT | HTTP_WS_DATA_TYPE_BIN \<Rightarrow> WS_DATA_TYPE_BIN)"

lemma uhttp_opcode_of: "uhttp_opcode t = opcode_of (data_type_of t)"
  by (cases t) (simp_all add: uhttp_opcode_def opcode_of_def data_type_of_def)

context wire_sock begin

lemma uhttp_RecvHeader_ok:
  assumes "ok w" "inp w = frame_hdr WS_ROLE_CLIENT opcode bsz m @ rest" "bsz < 0xffff" "length m = 4"
    and "length (junk w) = 14" "opcode AND WS_HDR_OPCODE = opcode"
  shows "\<exists>w'. UHTTPSrvWS_RecvHeader junk sf t ws w =
      Some (Inr (EOK, Some (hdr_word WS_ROLE_CLIENT opcode bsz), Some bsz, ws\<lparr>ws_mask := m\<rparr>), w') \<and>
    ok w' \<and> inp w' = rest \<and> outp w' = outp w \<and> room w' = room w"
proof -
  have r: "wk_role (as_websocket ws) \<noteq> WS_ROLE_CLIENT" by (simp add: as_websocket_def)
  obtain w' where w': "WebSocket_RecvHeader junk sf t (as_websocket ws) w =
      Some (Inr (EOK, Some (hdr_word WS_ROLE_CLIENT opcode bsz), Some bsz, as_websocket ws\<lparr>wk_mask := m\<rparr>), w')"
      "ok w'" "inp w' = rest" "outp w' = outp w" "room w' = room w"
    using RecvHeader_ok [of w WS_ROLE_CLIENT opcode bsz m rest "as_websocket ws" junk t] assms r by auto
  from w'(1)[unfolded RecvHeader_same abind_Some]
  obtain ws' where u: "UHTTPSrvWS_RecvHeader junk sf t ws w = Some (Inr (EOK, Some (hdr_word WS_ROLE_CLIENT opcode bsz), Some bsz, ws'), w')"
      "as_websocket ws' = as_websocket ws\<lparr>wk_mask := m\<rparr>"
    by auto
  have "ws' = ws\<lparr>ws_mask := m\<rparr>" using u(2) by (cases ws', cases ws) (simp add: as_websocket_def split: if_splits)
  then show ?thesis using u(1) w'(2-5) by blast
qed

lemma uhttp_Recv_ok:
  assumes "ok w" "inp w = ws_frame WS_ROLE_CLIENT (uhttp_opcode dtype) m d @ rest" "ws_rx_sem ws \<in> {0, task}" "ws_rx_size ws = ws_rx_offs ws"
    and "length m = 4" "\<And>w. length (junk w) = 14" "length d < 0xffff" "length d \<le> 32 * fuel" "length d \<le> unat bsz" "length d \<le> length p"
  shows "\<exists>ws' w'. uhttp_recv_loop (Suc fuel) junk sf task (Some p) bsz t 0 ws w =
      Some (Inr ((int (length d), Some dtype, Some (d @ drop (length d) p)), ws'), w') \<and> ok w' \<and> inp w' = rest \<and> outp w' = outp w \<and>
      room w' = room w \<and> ws_rx_size ws' = ws_rx_offs ws' \<and> ws_rx_sem ws' = 0 \<and> ws_tx_sem ws' = ws_tx_sem ws \<and> ws_is_open ws' = ws_is_open ws"
proof -
  define n :: u32 where "n = of_nat (length d)"
  have n: "unat n = length d" "n < 0xffff" "sint n = int (length d)"
    using assms(7) sint_small [of n] by (simp_all add: n_def unat_of_nat take_bit_nat_eq_self word_less_nat_alt)
  have nb: "min bsz n = n" using assms(9) n(1) by (intro min_absorb2) (simp add: word_le_nat_alt)
  let ?f = "masking WS_ROLE_CLIENT m"
  obtain w1 where w1: "UHTTPSrvWS_RecvHeader junk sf (if t \<noteq> 0 then min t ping_ival else ping_ival) (ws\<lparr>ws_rx_sem := task\<rparr>) w =
      Some (Inr (EOK, Some (hdr_word WS_ROLE_CLIENT (uhttp_opcode dtype) n), Some n, ws\<lparr>ws_rx_sem := task, ws_mask := m\<rparr>), w1)"
      "ok w1" "inp w1 = ?f d @ rest" "outp w1 = outp w" "room w1 = room w"
    using uhttp_RecvHeader_ok [OF assms(1), of "uhttp_opcode dtype" n m "?f d @ rest" junk
        "if t \<noteq> 0 then min t ping_ival else ping_ival" "ws\<lparr>ws_rx_sem := task\<rparr>"] assms(2,5,6) n(2)
    by (auto simp: ws_frame_def n_def [symmetric] uhttp_opcode_of)
  define ws2 where "ws2 = ws\<lparr>ws_rx_sem := task, ws_mask := m, ws_rx_size := n, ws_rx_opcode := uhttp_opcode dtype, ws_rx_offs := 0\<rparr>"
  have h: "uhttp_next_header junk sf task t 0 (ws\<lparr>ws_rx_sem := task\<rparr>) w = Some (Inr (HdrReady, ws2), w1)"
    using w1(1) assms(4) hdr_word_read(2) [OF n(2), of "uhttp_opcode dtype" WS_ROLE_CLIENT]
    by (simp add: uhttp_next_header_def Let_def abind_def aret_def ws2_def uhttp_opcode_of)
  obtain w2 where w2: "recv_payload_loop fuel sf ?f (Some p) n 0 w1 = Some (Inr (sint n, Some (d @ drop (length d) p)), w2)"
      "ok w2" "inp w2 = rest" "outp w2 = outp w1" "room w2 = room w1"
    using recv_payload_ok [OF w1(2) masking_simps(3) [of WS_ROLE_CLIENT m], of 0 n p fuel "?f d" rest] n assms(8,10) w1(3) by auto
  have "UHTTPSrvWS_RecvPayload fuel sf (Some p) n ws2 w1 = Some (Inr (int (length d), Some (d @ drop (length d) p)), w2)"
    using w2(1) n(3) by (simp add: UHTTPSrvWS_RecvPayload_def masking_def ws2_def)
  moreover have "word_of_int (int (length d)) = n" by (simp add: n_def)
  ultimately have f: "uhttp_frame fuel sf task (Some p) bsz 0 ws2 w1 =
      Some (Inr (FrameDone (int (length d)), Some dtype, Some (d @ drop (length d) p), ws2\<lparr>ws_rx_offs := n, ws_rx_sem := 0\<rparr>), w2)"
    using nb by (cases dtype) (simp_all add: uhttp_frame_def Let_def abind_def aret_def ws2_def EOK_def uhttp_opcode_def
        WS_HDR_OPCODE_BIN_def WS_HDR_OPCODE_TEXT_def)
  show ?thesis
    using h f w2(2-5) w1(4,5) assms(3)
    by (auto simp: uhttp_recv_loop.simps ws_lock_def abind_def aret_def ws2_def)
qed

lemma uhttp_Send_ok:
  assumes "ok w" "ws_is_open (rq_ws req)" "ws_tx_sem (rq_ws req) \<in> {0, task}"
    and "length d < 0xffff" "length d \<le> 32 * fuel" "length d + 8 \<le> room w" "take (length d) buf = d"
  shows "\<exists>req' w'. UHTTPSrvWS_Send fuel sf task dtype buf (of_nat (length d)) req w = Some (Inr (int (length d), req'), w') \<and> ok w' \<and>
      inp w' = inp w \<and> outp w' = outp w @ ws_frame WS_ROLE_SERVER (uhttp_opcode dtype) m d \<and>
      req' = req\<lparr>rq_ws := (rq_ws req)\<lparr>ws_tx_sem := 0\<rparr>\<rparr> \<and>
      room w \<le> room w' + length (ws_frame WS_ROLE_SERVER (uhttp_opcode dtype) m d)"
proof -
  define n :: u32 where "n = of_nat (length d)"
  have n: "unat n = length d" "n < 0xffff" "sint n = int (length d)"
    using assms(4) sint_small [of n] by (simp_all add: n_def unat_of_nat take_bit_nat_eq_self word_less_nat_alt)
  define p where "p = frame_hdr WS_ROLE_SERVER (uhttp_opcode dtype) n m"
  have l: "length p \<le> 8" using n(2) by (cases rule: size_field_cases) (simp_all add: p_def frame_hdr_def role_mask_def)
  then have u: "length p = unat (of_nat (length p) :: u32)" by (simp add: unat_of_nat take_bit_nat_eq_self)
  obtain w1 where w1: "sf_send sf p (of_nat (length p)) 0 w = Some (Inr (int (length p)), w1)" "ok w1" "inp w1 = inp w" "outp w1 = outp w @ p"
      "room w \<le> room w1 + length p"
  proof (rule send_chunk [OF assms(1) u])
    show "unat (of_nat (length p) :: u32) \<le> room w" using u l assms(6) by linarith
  qed (use u in \<open>simp del: unat_of_nat\<close>)
  have h: "UHTTPSrvWS_SendHeader sf (uhttp_opcode dtype) n w = Some (Inr (int (length p)), w1)"
    using w1(1) by (simp add: UHTTPSrvWS_SendHeader_def Let_def p_def frame_hdr_def hdr_word_def role_mask_def)
  obtain w2 where w2: "send_payload_loop fuel sf (\<lambda>d. d) buf n 0 w1 = Some (Inr (int (length d)), w2)"
      "ok w2" "inp w2 = inp w1" "outp w2 = outp w1 @ d" "room w1 \<le> room w2 + length d"
  proof -
    have "length d \<le> length buf" using assms(7) by (metis length_take min.cobounded1 min.commute)
    then show ?thesis using that send_payload_ok [OF w1(2) piecewise_id, of 0 n buf fuel] n assms(5-7) w1(5) l by auto
  qed
  show ?thesis unfolding n_def [symmetric]
    using h w1 w2 assms(2,3)
    by (auto simp: UHTTPSrvWS_Send_def on_ws_def with_uhttp_tx_sem_def ws_lock_def abind_def aret_def EOK_def UHTTPSrvWS_SendPayload_def
        ws_frame_def masking_def p_def n_def)
qed

end


definition demo_req :: uhttp_request where
  "demo_req = (new_request HTTP_METHOD_GET [] 0 [])\<lparr>rq_type := HTTP_REQ_TYPE_WEBSOCKET,
     rq_ws := \<lparr>ws_is_open = True, ws_tx_sem = 0, ws_rx_sem = 0, ws_rx_size = 0, ws_rx_offs = 0, ws_rx_opcode = 0, ws_mask = [0, 0, 0, 0]\<rparr>\<rparr>"

end
