(* ===== verification/Net_Prompt.thy ===== *)
theory Net_Prompt
  imports Net_Sock
begin

unbundle bit_operations_syntax

text \<open>
  A connection whose peer is prompt: whenever the task yields, the stack sends what is in the transmit queue and the
  acknowledgement of all of it arrives. Data of any size can then be sent, however small the queue is. The bytes that
  the socket has accepted are recorded beside the network; the locale \<open>brisk_net\<close> is what is needed of the stack and the
  peer, and the theory interprets it on the segments that the stack builds and processes.
\<close>

section \<open>Recording what is sent\<close>

record 'w tapped =
  tp_net :: 'w
  tp_sent :: bytes

definition tap_send :: "('w, err_t) act \<Rightarrow> bytes \<Rightarrow> ('w tapped, err_t) act" where
  "tap_send m bs w =
     (case m (tp_net w) of
        None \<Rightarrow> None
      | Some (Inl e, v) \<Rightarrow> Some (Inl e, w\<lparr>tp_net := v\<rparr>)
      | Some (Inr ec, v) \<Rightarrow> Some (Inr ec, \<lparr>tp_net = v, tp_sent = (if 0 \<le> ec then tp_sent w @ bs else tp_sent w)\<rparr>))"

definition tap_other :: "('w, 'a) act \<Rightarrow> ('w tapped, 'a) act" where
  "tap_other m w = (case m (tp_net w) of None \<Rightarrow> None | Some (r, v) \<Rightarrow> Some (r, w\<lparr>tp_net := v\<rparr>))"

definition tap :: "'w sock_funcs \<Rightarrow> 'w tapped sock_funcs" where
  "tap sf = \<lparr>sf_recv = \<lambda>n t. tap_other (sf_recv sf n t), sf_send = \<lambda>p n t. tap_send (sf_send sf p n t) (take (unat n) p),
     sf_listen = \<lambda>port. tap_other (sf_listen sf port), sf_close = tap_other (sf_close sf)\<rparr>"

lemma tap_other_Some: "tap_other m w = Some (r, w') \<longleftrightarrow> (\<exists>v. m (tp_net w) = Some (r, v) \<and> w' = w\<lparr>tp_net := v\<rparr>)"
  by (auto simp: tap_other_def split: option.splits)

lemma tap_send_Inr:
  "tap_send m bs w = Some (Inr ec, w') \<longleftrightarrow> (\<exists>v. m (tp_net w) = Some (Inr ec, v) \<and>
     w' = \<lparr>tp_net = v, tp_sent = (if 0 \<le> ec then tp_sent w @ bs else tp_sent w)\<rparr>)"
  "tap_send m bs w = Some (Inl e, w') \<longleftrightarrow> (\<exists>v. m (tp_net w) = Some (Inl e, v) \<and> w' = w\<lparr>tp_net := v\<rparr>)"
  by (auto simp: tap_send_def split: option.splits sum.splits)

section \<open>A prompt network\<close>

locale brisk_net =
  fixes fuel :: nat
    and env :: "nat \<Rightarrow> tcp_world \<Rightarrow> tcp_world"
    and up :: "tcp_world \<Rightarrow> bool"
  assumes up_tcp: "up w \<Longrightarrow> tcp_up w \<and> 0 < cap (txq (tw_sock w))"
    and up_rx: "up w \<Longrightarrow> byte_q q \<Longrightarrow> up (sock_upd (\<lambda>s. s\<lparr>rxq := q\<rparr>) w)"
    and up_tx: "up w \<Longrightarrow> byte_q q \<Longrightarrow> cap q = cap (txq (tw_sock w)) \<Longrightarrow> up (sock_upd (\<lambda>s. s\<lparr>txq := q\<rparr>) w)"
    and env_up: "up w \<Longrightarrow> up (env k w) \<and> sock_in (env k w) = sock_in w \<and> used (txq (tw_sock (env k w))) = 0 \<and> tw_now (env k w) = tw_now w"
begin

lemma up_ok: "up w \<Longrightarrow> tcp_ok w"
  using up_tcp by (simp add: tcp_up_def)

lemma upd_sel [simp]:
  "rxq (tw_sock (sock_upd (\<lambda>s. s\<lparr>rxq := q\<rparr>) w)) = q" "rxq (tw_sock (sock_upd (\<lambda>s. s\<lparr>txq := q\<rparr>) w)) = rxq (tw_sock w)"
  "txq (tw_sock (sock_upd (\<lambda>s. s\<lparr>txq := q\<rparr>) w)) = q" "tw_now (sock_upd f w) = tw_now w"
  by (simp_all add: sock_upd_def)

lemma recv_brisk:
  assumes "up w" "TCPIPTcpSock_Recv fuel env n t w = Some (r, w')"
  shows "\<exists>ec d. r = Inr (ec, d) \<and> up w' \<and> sock_in w = d @ sock_in w' \<and>
    (0 \<le> ec \<longrightarrow> ec = int (length d) \<and> length d \<le> unat n \<and> (0 < n \<longrightarrow> d \<noteq> [])) \<and> (ec < 0 \<longrightarrow> d = [])"
proof (rule yield_loop_invariant [OF assms(2) [unfolded TCPIPTcpSock_Recv_def], of "\<lambda>l v. up v \<and> sock_in v = sock_in w"])
  fix l v l' v' j
  assume v: "up v \<and> sock_in v = sock_in w" and r: "TCPIPTcpSock_Recv_body (n, t, tw_now w) l v = Inr (l', v')"
  have ok: "tcp_ok v" using v up_ok by blast
  have "up v' \<and> sock_in v' = sock_in w"
    using v r by (cases rule: Recv_body_cases [OF ok, where bsz = n and t = t and ts = "tw_now w" and l = l]) (auto intro: up_rx)
  then show "up (env j v') \<and> sock_in (env j v') = sock_in w" using env_up by simp
next
  fix l v r v'
  assume v: "up v \<and> sock_in v = sock_in w" and r: "TCPIPTcpSock_Recv_body (n, t, tw_now w) l v = Inl (r, v')"
  have ok: "tcp_ok v" using v up_ok by blast
  show "\<exists>ec d. r = Inr (ec, d) \<and> up v' \<and> sock_in w = d @ sock_in v' \<and>
      (0 \<le> ec \<longrightarrow> ec = int (length d) \<and> length d \<le> unat n \<and> (0 < n \<longrightarrow> d \<noteq> [])) \<and> (ec < 0 \<longrightarrow> d = [])"
    using v r by (cases rule: Recv_body_cases [OF ok, where bsz = n and t = t and ts = "tw_now w" and l = l])
      (auto intro: up_rx simp: min.commute unat_eq_zero word_gt_0)
qed (use assms(1) in simp)

lemma send_brisk:
  assumes "up w" "unat n \<le> length p" "TCPIPTcpSock_Send fuel env p n t w = Some (r, w')"
  shows "\<exists>ec. r = Inr ec \<and> up w' \<and> sock_in w' = sock_in w \<and> (0 \<le> ec \<longrightarrow> ec = int (unat n))"
proof (rule yield_loop_invariant [OF assms(3) [unfolded TCPIPTcpSock_Send_def], of "\<lambda>l v. up v \<and> sock_in v = sock_in w \<and> unat l \<le> unat n"])
  fix l v l' v' j
  assume v: "up v \<and> sock_in v = sock_in w \<and> unat l \<le> unat n" and r: "TCPIPTcpSock_Send_body (p, n, t, tw_now w) l v = Inr (l', v')"
  have ok: "tcp_ok v" "unat l \<le> unat n" using v up_ok by simp_all
  have "up v' \<and> sock_in v' = sock_in w \<and> unat l' \<le> unat n"
    using v r by (cases rule: Send_body_cases [OF ok(1) assms(2) ok(2), where t = t and ts = "tw_now w"]) (auto intro: up_tx split: if_splits)
  then show "up (env j v') \<and> sock_in (env j v') = sock_in w \<and> unat l' \<le> unat n" using env_up by simp
next
  fix l v r v'
  assume v: "up v \<and> sock_in v = sock_in w \<and> unat l \<le> unat n" and r: "TCPIPTcpSock_Send_body (p, n, t, tw_now w) l v = Inl (r, v')"
  have ok: "tcp_ok v" "unat l \<le> unat n" using v up_ok by simp_all
  show "\<exists>ec. r = Inr ec \<and> up v' \<and> sock_in v' = sock_in w \<and> (0 \<le> ec \<longrightarrow> ec = int (unat n))"
    using v r by (cases rule: Send_body_cases [OF ok(1) assms(2) ok(2), where t = t and ts = "tw_now w"]) (auto intro: up_tx split: if_splits)
qed (use assms(1) in simp)

text \<open>Every round but the first one stores at least one byte.\<close>

lemma send_progress:
  assumes "unat n \<le> length p" "0 \<le> t" "up w" "tw_now w = ts" "unat l \<le> unat n"
    and "unat n - unat l \<le> m \<or> used (txq (tw_sock w)) = 0 \<and> unat n - unat l \<le> Suc m"
  shows "\<exists>w'. yield_loop m env k (TCPIPTcpSock_Send_body (p, n, t, ts)) l w = Some (Inr (int (unat n)), w')"
  using assms(3-)
proof (induction m arbitrary: k l w)
  case 0
  have ok: "tcp_ok w" and e: "tw_state w = TCPIP_TCP_SOCK_STATE_ESTABLISHED" "0 < cap (txq (tw_sock w))"
    using up_tcp [OF "0.prems"(1)] by (simp_all add: tcp_up_def)
  from ok assms(1) "0.prems"(3) show ?case
  proof (cases rule: Send_body_cases [where t = t and ts = ts])
    case (err ec)
    then show ?thesis using e "0.prems"(2) assms(2) by simp
  next
    case (stored b q)
    have "l + b = n" using stored(3,5) "0.prems"(3,4) e(2) by (auto simp: word_unat_eq_iff min_def split: if_splits)
    then show ?thesis using stored(7) by simp
  qed
next
  case (Suc m)
  have ok: "tcp_ok w" and e: "tw_state w = TCPIP_TCP_SOCK_STATE_ESTABLISHED" "0 < cap (txq (tw_sock w))"
    using up_tcp [OF Suc.prems(1)] by (simp_all add: tcp_up_def)
  from ok assms(1) Suc.prems(3) show ?case
  proof (cases rule: Send_body_cases [where t = t and ts = ts])
    case (err ec)
    then show ?thesis using e Suc.prems(2) assms(2) by simp
  next
    case (stored b q)
    show ?thesis
    proof (cases "l + b = n")
      case True
      then show ?thesis using stored(7) by simp
    next
      case False
      let ?w = "env k (sock_upd (\<lambda>s. s\<lparr>txq := q\<rparr>) w)"
      have u: "up ?w" "tw_now ?w = ts" "used (txq (tw_sock ?w)) = 0"
        using env_up [OF up_tx [OF Suc.prems(1) stored(1,4)]] Suc.prems(2) by simp_all
      have "unat n - unat l \<le> Suc m \<or> 0 < unat b" using stored(3) Suc.prems(4) e(2) by (auto simp: min_def split: if_splits)
      then have "unat n - unat (l + b) \<le> Suc m" using stored(5) Suc.prems(4) by auto
      then have "\<exists>w'. yield_loop m env (Suc k) (TCPIPTcpSock_Send_body (p, n, t, ts)) (l + b) ?w = Some (Inr (int (unat n)), w')"
        using u stored(5,6) by (intro Suc.IH) simp_all
      then show ?thesis using stored(7) False by simp
    qed
  qed
qed

end

sublocale brisk_net \<subseteq> tapped: wire_sock "tap (tcp_funcs fuel env)" "\<lambda>w. up (tp_net w)" "\<lambda>w. sock_in (tp_net w)" tp_sent "\<lambda>_. fuel"
proof (unfold_locales, goal_cases)
  case (1 w n t ec d w') then show ?case using recv_brisk by (fastforce simp: tap_def tcp_funcs_def UHTTPSrv_Recv_def tap_other_Some)
next
  case (2 w n t ec d w') then show ?case using recv_brisk by (fastforce simp: tap_def tcp_funcs_def UHTTPSrv_Recv_def tap_other_Some)
next
  case (3 w n t ec d w') then show ?case using recv_brisk by (fastforce simp: tap_def tcp_funcs_def UHTTPSrv_Recv_def tap_other_Some)
next
  case (4 w n t e w') then show ?case using recv_brisk by (fastforce simp: tap_def tcp_funcs_def UHTTPSrv_Recv_def tap_other_Some)
next
  case (5 w n p t e w') then show ?case using send_brisk by (fastforce simp: tap_def tcp_funcs_def UHTTPSrv_Send_def tap_send_Inr)
next
  case (6 w n p t ec w') then show ?case using send_brisk by (fastforce simp: tap_def tcp_funcs_def UHTTPSrv_Send_def tap_send_Inr)
next
  case (7 w n p t ec w') then show ?case using send_brisk by (fastforce simp: tap_def tcp_funcs_def UHTTPSrv_Send_def tap_send_Inr)
next
  case (8 w n t ec d w') then show ?case using recv_brisk by (fastforce simp: tap_def tcp_funcs_def UHTTPSrv_Recv_def tap_other_Some)
next
  case (9 w n t)
  from 9 show ?case
    by (cases fuel; cases rule: Recv_body_cases [OF up_ok [OF 9(1)], where bsz = n and t = t and ts = "tw_now (tp_net w)" and l = "()"])
      (auto simp: tap_def tcp_funcs_def UHTTPSrv_Recv_def tap_other_Some TCPIPTcpSock_Recv_def)
next
  case (10 w)
  have e: "tw_state (tp_net w) = TCPIP_TCP_SOCK_STATE_ESTABLISHED" using up_tcp [OF 10] by (simp add: tcp_up_def)
  show ?case
    by (cases fuel; cases rule: Recv_body_cases [OF up_ok [OF 10], where bsz = 0 and t = 0 and ts = "tw_now (tp_net w)" and l = "()"])
      (use e in \<open>auto simp: tap_def tcp_funcs_def UHTTPSrv_Recv_def tap_other_Some TCPIPTcpSock_Recv_def TCPIPTcpSock_Recv_body_def Let_def
        sock_upd_def split: sum.splits\<close>)
next
  case (11 w n p t ec w') then show ?case using send_brisk by (fastforce simp: tap_def tcp_funcs_def UHTTPSrv_Send_def tap_send_Inr)
next
  case (12 w n p t ec w') then show ?case by (auto simp: tap_def tap_send_Inr)
next
  case (13 w n p t)
  have "\<exists>v. TCPIPTcpSock_Send fuel env p n t (tp_net w) = Some (Inr (int (unat n)), v)"
    unfolding TCPIPTcpSock_Send_def using 13 by (intro send_progress) simp_all
  then show ?case by (auto simp: tap_def tcp_funcs_def UHTTPSrv_Send_def tap_send_Inr)
qed

section \<open>The stack and a peer that acknowledges everything\<close>

text \<open>The acknowledgement of all that was sent.\<close>

definition ack_for :: "tcp_sock \<Rightarrow> tcp_seg" where
  "ack_for s = \<lparr>seg_ip = sock_addr s, seg_src_port = rem_port s, seg_dst_port = loc_port s, seg_seq = rx_seq_recvd s,
     seg_ack = tx_seq_end s, seg_win = 1024, seg_flags = TCPIP_TCP_FLAGS_ACK, seg_size = 0, seg_mem = []\<rparr>"

text \<open>During a yield the stack builds its segment, and the acknowledgement of it is processed.\<close>

definition prompt_peer :: "nat \<Rightarrow> tcp_world \<Rightarrow> tcp_world" where
  "prompt_peer k w =
     (case out_build TCPIP_TCP_FLAGS_ACK (tw_sock w) of
        Inl e \<Rightarrow> w
      | Inr (_, _, s) \<Rightarrow>
          (case TCPIPTcpSock_ProcessIncoming (tw_now w) 0 (ack_for s) s of
             Inl e \<Rightarrow> w
           | Inr (_, s) \<Rightarrow> w\<lparr>tw_sock := s\<rparr>))"

text \<open>An open connection with a transmit queue of at most the size of a segment.\<close>

definition prompt_up :: "tcp_world \<Rightarrow> bool" where
  "prompt_up w \<longleftrightarrow> tcp_up w \<and> loc_link (tw_sock w) \<noteq> TCPIP_TCP_LINK_STATE_CLOSING \<and> 0 < cap (txq (tw_sock w)) \<and> cap (txq (tw_sock w)) \<le> 1024"

lemma prompt_build:
  assumes "prompt_up w"
  shows "\<exists>fl out. out_build TCPIP_TCP_FLAGS_ACK (tw_sock w) =
    Inr (fl, out, (tw_sock w)\<lparr>tx_seq_end := tx_seq_start (tw_sock w) + Queue_GetUsed (txq (tw_sock w))\<rparr>)"
proof -
  let ?q = "txq (tw_sock w)"
  have q: "byte_q ?q" "cap ?q \<le> 1024" using assms by (simp_all add: prompt_up_def tcp_up_def tcp_ok_def)
  then have u: "used ?q \<le> 1024" "q_ok ?q" by (auto simp: byte_q_def q_ok_def q_wf_def)
  obtain r d where p: "Queue_Peek ?q (of_nat TCPIP_RXTX_BUF_SIZE) = Inr (r, d)"
    using Queue_Peek_spec [of ?q "of_nat TCPIP_RXTX_BUF_SIZE"] u(2) by (auto simp: q_ok_def)
  have r: "unat r = used ?q" "d = take (unat r) (q_bytes ?q)" using byte_q_peek [OF q(1) p] u(1) by (simp_all add: TCPIP_RXTX_BUF_SIZE_def)
  then have "r = Queue_GetUsed ?q" "length d \<le> 1024" using u(1) by (simp_all add: word_unat_eq_iff min.coboundedI2)
  then show ?thesis using p
    by (simp add: out_build_def TCPIP_RXTX_BUF_SIZE_def mem_write_def Let_def tcp_flag_defs)
qed

lemma prompt_peer_up:
  assumes "prompt_up w"
  shows "prompt_up (prompt_peer k w) \<and> sock_in (prompt_peer k w) = sock_in w \<and> used (txq (tw_sock (prompt_peer k w))) = 0 \<and>
    tw_now (prompt_peer k w) = tw_now w"
proof -
  let ?s = "tw_sock w" and ?q = "txq (tw_sock w)"
  let ?n = "Queue_GetUsed ?q"
  let ?b = "?s\<lparr>tx_seq_end := tx_seq_start ?s + ?n\<rparr>"
  have up: "byte_q (rxq ?s)" "byte_q ?q" "state ?s = TCPIP_TCP_SOCK_STATE_ESTABLISHED" "loc_link ?s \<noteq> TCPIP_TCP_LINK_STATE_CLOSING"
    "0 < cap ?q" "cap ?q \<le> 1024" using assms by (simp_all add: prompt_up_def tcp_up_def tcp_ok_def)
  obtain fl out where b: "out_build TCPIP_TCP_FLAGS_ACK ?s = Inr (fl, out, ?b)" using prompt_build [OF assms] by blast
  obtain n rq where rq: "Queue_Put (rxq ?s) [] 0 = Inr (n, rq)" "byte_q rq" "n = 0" "q_bytes rq = q_bytes (rxq ?s)"
    by (rule byte_q_put_ex [OF up(1), of 0 "[]"]) (simp_all add: unat_eq_zero)
  let ?d = "snd (Queue_Drop ?q ?n)"
  have d: "byte_q ?d" "used ?d = 0" "cap ?d = cap ?q"
    using byte_q_drop_any [OF up(2), of ?n] by (auto simp: Queue_Drop_def Queue_GetUsed_def c_min_def Let_def)
  have "TCPIPTcpSock_ProcessIncoming (tw_now w) 0 (ack_for ?b) ?b =
      Inr (EOK, ?b\<lparr>rxq := rq, txq := ?d, tx_seq_start := tx_seq_start ?s + ?n, tx_retr_cnt := 0, rx_flags := TCPIP_TCP_FLAGS_ACK\<rparr>)"
    using up(3,4) rq(1,3)
    by (simp add: TCPIPTcpSock_ProcessIncoming_def ack_for_def seg_matches_def TCPIPIpAddr_AddressMatch_def in_rst_def in_syn_def
        in_ack_def in_data_def in_acked_def in_fin_def Let_def tcp_flag_defs)
  then have "prompt_peer k w = w\<lparr>tw_sock := ?b\<lparr>rxq := rq, txq := ?d, tx_seq_start := tx_seq_start ?s + ?n, tx_retr_cnt := 0,
      rx_flags := TCPIP_TCP_FLAGS_ACK\<rparr>\<rparr>"
    using b by (simp add: prompt_peer_def)
  then show ?thesis using up rq(2,4) d by (simp add: prompt_up_def tcp_up_def tcp_ok_def)
qed

interpretation prompt: brisk_net fuel prompt_peer prompt_up for fuel
proof
  fix w q
  assume "prompt_up w" "byte_q q"
  then show "prompt_up (sock_upd (\<lambda>s. s\<lparr>rxq := q\<rparr>) w)" by (simp add: prompt_up_def tcp_up_def tcp_ok_def sock_upd_def)
next
  fix w q
  assume "prompt_up w" "byte_q q" "cap q = cap (txq (tw_sock w))"
  then show "prompt_up (sock_upd (\<lambda>s. s\<lparr>txq := q\<rparr>) w)" by (simp add: prompt_up_def tcp_up_def tcp_ok_def sock_upd_def)
qed (use prompt_peer_up in \<open>auto simp: prompt_up_def\<close>)

lemma demo_tcp_prompt: "length d \<le> 256 \<Longrightarrow> prompt_up (demo_tcp d)"
  using demo_tcp_up [of d] filled_simps [of "[]"] by (simp add: prompt_up_def demo_tcp_def demo_sock_def)

end
