(* ===== verification/Ffs.thy ===== *)
theory Ffs
  imports Util_String
begin

text \<open>
  The flash file system, \<^verbatim>\<open>ffs/src/ffs.c\<close> and \<^verbatim>\<open>ffs/ffs.h\<close>. Files are found by their complete path in
  null-terminated arrays of pointers to descriptors; a pointer to a descriptor is its index in \<open>fs_descs\<close>, and the
  terminator of an array is the end of the list. A file pointer is an index into the pool of 32 access blocks, or null.
  The contents of the files (\<^verbatim>\<open>ffs/src/data_www.c\<close>) are generated and a parameter of the state.

  The invariant \<open>ffs_inv\<close> says that a used block points to a descriptor, has only modes its file allows and a position
  inside it, and that the size of a file stays inside the memory of the file. Every operation keeps it, and reads in
  sequence give the contents of the file.
\<close>

unbundle bit_operations_syntax

section \<open>State and operations\<close>

definition FFS_MODE_R :: u32 where "FFS_MODE_R = 1"
definition FFS_MODE_W :: u32 where "FFS_MODE_W = 2"
definition FFS_MODE_RW :: u32 where "FFS_MODE_RW = FFS_MODE_R OR FFS_MODE_W"

datatype ffs_seek_mode = FFS_SEEK_SET | FFS_SEEK_CUR | FFS_SEEK_END

record ffs_file_desc =
  fd_name :: bytes
  fd_mode :: u32
  fd_size :: u32
  fd_ptr :: bytes

record ffs_file =
  ff_used :: bool
  ff_task_id :: nat
  ff_fd :: nat
  ff_mode :: u32
  ff_position :: u32

record ffs_st =
  fs_descs :: "ffs_file_desc list"
  fs_files :: "nat list list"
  fs_pool :: "ffs_file list"

definition FFS_Init :: err_t where
  "FFS_Init = EOK"

text \<open>The two loops that look for the name, and the one that looks for an unused block.\<close>

fun find_fd :: "ffs_file_desc list \<Rightarrow> bytes \<Rightarrow> nat list \<Rightarrow> fault + nat option" where
  "find_fd descs name [] = Inr None"
| "find_fd descs name (d # fda) =
     bind_res (strcmp (fd_name (descs ! d)) name)
       (\<lambda>c. if c \<noteq> 0 then find_fd descs name fda else Inr (Some d))"

fun find_file :: "ffs_file_desc list \<Rightarrow> bytes \<Rightarrow> nat list list \<Rightarrow> fault + nat option" where
  "find_file descs name [] = Inr None"
| "find_file descs name (fda # files) =
     bind_res (find_fd descs name fda)
       (\<lambda>r. case r of Some d \<Rightarrow> Inr (Some d) | None \<Rightarrow> find_file descs name files)"

fun free_block :: "ffs_file list \<Rightarrow> nat" where
  "free_block [] = 0"
| "free_block (f # fs) = (if ff_used f then Suc (free_block fs) else 0)"

definition FFS_Open :: "nat \<Rightarrow> bytes option \<Rightarrow> u32 \<Rightarrow> ffs_st \<Rightarrow> fault + nat option \<times> ffs_st" where
  "FFS_Open task_id name mode s =
     (case name of
        None \<Rightarrow> Inr (None, s)
      | Some name \<Rightarrow>
          if mode = 0 then Inr (None, s)
          else bind_res (find_file (fs_descs s) name (fs_files s)) (\<lambda>found.
            case found of
              None \<Rightarrow> Inr (None, s)
            | Some fd \<Rightarrow>
                if mode AND NOT (fd_mode (fs_descs s ! fd)) \<noteq> 0 then Inr (None, s)
                else
                  let fp = free_block (fs_pool s) in
                  if fp = length (fs_pool s) then Inr (None, s)
                  else Inr (Some fp, s\<lparr>fs_pool := (fs_pool s)[fp :=
                         \<lparr>ff_used = True, ff_task_id = task_id, ff_fd = fd, ff_mode = mode, ff_position = 0\<rparr>]\<rparr>)))"

abbreviation desc_of :: "ffs_st \<Rightarrow> nat \<Rightarrow> ffs_file_desc" where
  "desc_of s fp \<equiv> fs_descs s ! ff_fd (fs_pool s ! fp)"

abbreviation pos_of :: "ffs_st \<Rightarrow> nat \<Rightarrow> u32" where
  "pos_of s fp \<equiv> ff_position (fs_pool s ! fp)"

definition set_pos :: "nat \<Rightarrow> u32 \<Rightarrow> ffs_st \<Rightarrow> ffs_st" where
  "set_pos fp pos s = s\<lparr>fs_pool := (fs_pool s)[fp := (fs_pool s ! fp)\<lparr>ff_position := pos\<rparr>]\<rparr>"

text \<open>A read returns the new contents of the destination as well.\<close>

definition FFS_Read :: "nat option \<Rightarrow> bytes \<Rightarrow> u32 \<Rightarrow> ffs_st \<Rightarrow> fault + err_t \<times> bytes \<times> ffs_st" where
  "FFS_Read fp dst bsz s =
     (case fp of
        None \<Rightarrow> Inr (EFATAL, dst, s)
      | Some fp \<Rightarrow>
          if ff_mode (fs_pool s ! fp) AND FFS_MODE_R = 0 then Inr (EFATAL, dst, s)
          else
            let bsz = min bsz (fd_size (desc_of s fp) - pos_of s fp) in
            bind_res (memcpy dst (drop (unat (pos_of s fp)) (fd_ptr (desc_of s fp))) bsz)
              (\<lambda>dst. Inr (sint bsz, dst, set_pos fp (pos_of s fp + bsz) s)))"

definition FFS_Write :: "nat option \<Rightarrow> bytes \<Rightarrow> u32 \<Rightarrow> ffs_st \<Rightarrow> fault + err_t \<times> ffs_st" where
  "FFS_Write fp src bsz s =
     (case fp of
        None \<Rightarrow> Inr (EFATAL, s)
      | Some fp \<Rightarrow>
          if ff_mode (fs_pool s ! fp) AND FFS_MODE_W = 0 then Inr (EFATAL, s)
          else
            let d = ff_fd (fs_pool s ! fp); pos = pos_of s fp; mem = fd_ptr (fs_descs s ! d) in
            bind_res (memcpy (drop (unat pos) mem) src bsz) (\<lambda>tail.
              let fd = (fs_descs s ! d)\<lparr>fd_ptr := take (unat pos) mem @ tail\<rparr>;
                  fd = (if pos + bsz > fd_size fd then fd\<lparr>fd_size := pos + bsz\<rparr> else fd)
              in Inr (sint bsz, set_pos fp (pos + bsz) (s\<lparr>fs_descs := (fs_descs s)[d := fd]\<rparr>))))"

definition FFS_Seek :: "nat option \<Rightarrow> u32 \<Rightarrow> ffs_seek_mode \<Rightarrow> ffs_st \<Rightarrow> err_t \<times> ffs_st" where
  "FFS_Seek fp offset mode s =
     (case fp of
        None \<Rightarrow> (EFATAL, s)
      | Some fp \<Rightarrow>
          let fsize = fd_size (desc_of s fp); fpos = pos_of s fp;
              new_pos = (case mode of FFS_SEEK_SET \<Rightarrow> offset | FFS_SEEK_CUR \<Rightarrow> fpos + offset | FFS_SEEK_END \<Rightarrow> fsize + offset)
          in if new_pos > fsize then (EFATAL, s) else (EOK, set_pos fp new_pos s))"

definition FFS_Tell :: "nat option \<Rightarrow> ffs_st \<Rightarrow> err_t \<times> u32 option" where
  "FFS_Tell fp s = (case fp of None \<Rightarrow> (EFATAL, None) | Some fp \<Rightarrow> (EOK, Some (pos_of s fp)))"

definition FFS_Size :: "nat option \<Rightarrow> ffs_st \<Rightarrow> err_t \<times> u32 option" where
  "FFS_Size fp s = (case fp of None \<Rightarrow> (EFATAL, None) | Some fp \<Rightarrow> (EOK, Some (fd_size (desc_of s fp))))"

definition FFS_Close :: "nat option \<Rightarrow> ffs_st \<Rightarrow> err_t \<times> ffs_st" where
  "FFS_Close fp s =
     (case fp of
        None \<Rightarrow> (EFATAL, s)
      | Some fp \<Rightarrow>
          if \<not> ff_used (fs_pool s ! fp) then (EFATAL, s)
          else (EOK, s\<lparr>fs_pool := (fs_pool s)[fp := (fs_pool s ! fp)\<lparr>ff_used := False\<rparr>]\<rparr>))"

section \<open>The invariant\<close>

definition desc_ok :: "ffs_file_desc \<Rightarrow> bool" where
  "desc_ok d \<longleftrightarrow> unat (fd_size d) \<le> length (fd_ptr d) \<and> length (fd_ptr d) < 2 ^ 31"

definition block_ok :: "ffs_file_desc list \<Rightarrow> ffs_file \<Rightarrow> bool" where
  "block_ok descs f \<longleftrightarrow>
     ff_used f \<longrightarrow> ff_fd f < length descs \<and> ff_mode f AND NOT (fd_mode (descs ! ff_fd f)) = 0 \<and>
       ff_position f \<le> fd_size (descs ! ff_fd f)"

definition ffs_inv :: "ffs_st \<Rightarrow> bool" where
  "ffs_inv s \<longleftrightarrow> length (fs_pool s) = 32 \<and> list_all desc_ok (fs_descs s) \<and>
     list_all (block_ok (fs_descs s)) (fs_pool s) \<and>
     list_all (list_all (\<lambda>d. d < length (fs_descs s))) (fs_files s)"

text \<open>The calls that a program makes, each with a file pointer that it has got from \<open>FFS_Open\<close> and not closed.\<close>

datatype ffs_call =
    Open nat "bytes option" u32
  | Read nat bytes u32
  | Write nat bytes u32
  | Seek nat u32 ffs_seek_mode
  | Close nat

definition is_open :: "ffs_st \<Rightarrow> nat \<Rightarrow> bool" where
  "is_open s fp \<longleftrightarrow> fp < length (fs_pool s) \<and> ff_used (fs_pool s ! fp)"

fun call_ok :: "ffs_st \<Rightarrow> ffs_call \<Rightarrow> bool" where
  "call_ok s (Open t name m) = True"
| "call_ok s (Read fp dst bsz) = is_open s fp"
| "call_ok s (Write fp src bsz) = (is_open s fp \<and> unat bsz \<le> length src)"
| "call_ok s (Seek fp off m) = is_open s fp"
| "call_ok s (Close fp) = is_open s fp"

fun ffs_exec :: "ffs_call \<Rightarrow> ffs_st \<Rightarrow> fault + ffs_st" where
  "ffs_exec (Open t name m) s = bind_res (FFS_Open t name m s) (\<lambda>(_, s'). Inr s')"
| "ffs_exec (Read fp dst bsz) s = bind_res (FFS_Read (Some fp) dst bsz s) (\<lambda>(_, _, s'). Inr s')"
| "ffs_exec (Write fp src bsz) s = bind_res (FFS_Write (Some fp) src bsz s) (\<lambda>(_, s'). Inr s')"
| "ffs_exec (Seek fp off m) s = Inr (snd (FFS_Seek (Some fp) off m s))"
| "ffs_exec (Close fp) s = Inr (snd (FFS_Close (Some fp) s))"

inductive ffs_reach :: "ffs_st \<Rightarrow> ffs_st \<Rightarrow> bool" where
  refl: "ffs_reach s s"
| step: "ffs_reach s s' \<Longrightarrow> call_ok s' c \<Longrightarrow> ffs_exec c s' = Inr s'' \<Longrightarrow> ffs_reach s s''"


lemma ffs_invI:
  assumes "ffs_inv s" "length (fs_pool s') = 32" "fs_files s' = fs_files s" "length (fs_descs s') = length (fs_descs s)"
    and "list_all desc_ok (fs_descs s')" "list_all (block_ok (fs_descs s')) (fs_pool s')"
  shows "ffs_inv s'"
  using assms by (simp add: ffs_inv_def)

lemma list_all_update: "list_all P xs \<Longrightarrow> P x \<Longrightarrow> list_all P (xs[i := x])"
  by (auto simp: list_all_iff dest!: set_update_subset_insert [THEN subsetD])

lemma ffs_inv_pool:
  assumes "ffs_inv s" "block_ok (fs_descs s) f"
  shows "ffs_inv (s\<lparr>fs_pool := (fs_pool s)[i := f]\<rparr>)"
  using assms by (simp add: ffs_inv_def list_all_update)

lemma ffs_inv_block: "ffs_inv s \<Longrightarrow> i < length (fs_pool s) \<Longrightarrow> block_ok (fs_descs s) (fs_pool s ! i)"
  by (simp add: ffs_inv_def list_all_length)

lemma ffs_inv_desc: "ffs_inv s \<Longrightarrow> d < length (fs_descs s) \<Longrightarrow> desc_ok (fs_descs s ! d)"
  by (simp add: ffs_inv_def list_all_length)

lemma ffs_inv_open:
  assumes "ffs_inv s" "is_open s fp"
  shows "ff_fd (fs_pool s ! fp) < length (fs_descs s)" "pos_of s fp \<le> fd_size (desc_of s fp)"
    "desc_ok (desc_of s fp)"
  using assms ffs_inv_block [of s fp] ffs_inv_desc by (auto simp: is_open_def block_ok_def)

lemma set_pos_inv:
  assumes "ffs_inv s" "is_open s fp" "p \<le> fd_size (desc_of s fp)"
  shows "ffs_inv (set_pos fp p s)"
proof -
  have "block_ok (fs_descs s) ((fs_pool s ! fp)\<lparr>ff_position := p\<rparr>)"
    using assms ffs_inv_block [of s fp] by (auto simp: is_open_def block_ok_def)
  with assms(1) show ?thesis unfolding set_pos_def by (rule ffs_inv_pool)
qed

text \<open>A name that is found is found in one of the tables.\<close>

lemma find_fd_mem: "find_fd descs name fda = Inr (Some d) \<Longrightarrow> d \<in> set fda"
  by (induction fda) (auto simp: bind_res_eq_Inr split: if_splits)

lemma find_file_mem: "find_file descs name files = Inr (Some d) \<Longrightarrow> \<exists>fda \<in> set files. d \<in> set fda"
  by (induction files) (auto simp: bind_res_eq_Inr dest: find_fd_mem split: option.splits)

lemma FFS_Open_inv:
  assumes "ffs_inv s" "FFS_Open t name m s = Inr (r, s')"
  shows "ffs_inv s'"
proof (cases "\<exists>n d. name = Some n \<and> find_file (fs_descs s) n (fs_files s) = Inr (Some d) \<and>
    m AND NOT (fd_mode (fs_descs s ! d)) = 0")
  case True
  then obtain n d where n: "name = Some n" "find_file (fs_descs s) n (fs_files s) = Inr (Some d)"
    "m AND NOT (fd_mode (fs_descs s ! d)) = 0" by blast
  have "d < length (fs_descs s)"
    using find_file_mem [OF n(2)] assms(1) by (auto simp: ffs_inv_def list_all_iff)
  then have "block_ok (fs_descs s) \<lparr>ff_used = True, ff_task_id = t, ff_fd = d, ff_mode = m, ff_position = 0\<rparr>"
    using n(3) by (simp add: block_ok_def)
  from ffs_inv_pool [OF assms(1) this] show ?thesis
    using assms n by (auto simp: FFS_Open_def Let_def split: if_splits)
next
  case False
  then have "s' = s"
    using assms(2) by (auto simp: FFS_Open_def bind_res_eq_Inr Let_def split: if_splits option.splits)
  with assms(1) show ?thesis by simp
qed

text \<open>What a read gives: the bytes from the position on, up to the end of the file.\<close>

lemma FFS_Read_ok:
  assumes "ffs_inv s" "is_open s fp" "ff_mode (fs_pool s ! fp) AND FFS_MODE_R \<noteq> 0" "unat bsz \<le> length dst"
  defines "n \<equiv> min (unat bsz) (unat (fd_size (desc_of s fp)) - unat (pos_of s fp))"
  shows "FFS_Read (Some fp) dst bsz s =
    Inr (int n, take n (drop (unat (pos_of s fp)) (fd_ptr (desc_of s fp))) @ drop n dst, set_pos fp (pos_of s fp + of_nat n) s)"
proof -
  note o = ffs_inv_open [OF assms(1,2)]
  let ?m = "min bsz (fd_size (desc_of s fp) - pos_of s fp)"
  have m: "unat ?m = n" unfolding n_def using o(2)
    by (simp add: min_def word_le_nat_alt unat_sub)
  have le: "n \<le> unat bsz" "unat (pos_of s fp) + n \<le> length (fd_ptr (desc_of s fp))" "n < 2 ^ 31"
    using o(2,3) by (auto simp: n_def desc_ok_def word_le_nat_alt)
  have "memcpy dst (drop (unat (pos_of s fp)) (fd_ptr (desc_of s fp))) ?m =
      Inr (take n (drop (unat (pos_of s fp)) (fd_ptr (desc_of s fp))) @ drop n dst)"
    using memcpy_duff [of ?m "drop (unat (pos_of s fp)) (fd_ptr (desc_of s fp))" dst] le assms(4) by (simp add: m)
  moreover have "?m = of_nat n" unfolding m [symmetric] by simp
  moreover have "sint (of_nat n :: u32) = int n" using le(3) by (simp add: signed_of_nat signed_take_bit_int_eq_self)
  ultimately show ?thesis using assms(3) by (simp add: FFS_Read_def Let_def)
qed

lemma FFS_Read_inv:
  assumes "ffs_inv s" "is_open s fp" "FFS_Read (Some fp) dst bsz s = Inr (r, dst', s')"
  shows "ffs_inv s'"
proof -
  note o = ffs_inv_open [OF assms(1,2)]
  let ?m = "min bsz (fd_size (desc_of s fp) - pos_of s fp)"
  have "pos_of s fp + ?m \<le> fd_size (desc_of s fp)"
    using o(2) word_plus_mono_right [of ?m "fd_size (desc_of s fp) - pos_of s fp" "pos_of s fp"] by simp
  then show ?thesis
    using assms set_pos_inv [OF assms(1,2)] by (auto simp: FFS_Read_def Let_def bind_res_eq_Inr split: if_splits)
qed

lemma FFS_Write_inv:
  assumes "ffs_inv s" "is_open s fp" "unat bsz \<le> length src" "FFS_Write (Some fp) src bsz s = Inr (r, s')"
  shows "ffs_inv s'"
proof (cases "ff_mode (fs_pool s ! fp) AND FFS_MODE_W = 0")
  case True
  with assms(1,4) show ?thesis by (simp add: FFS_Write_def)
next
  case False
  note o = ffs_inv_open [OF assms(1,2)]
  let ?d = "ff_fd (fs_pool s ! fp)" and ?pos = "pos_of s fp" and ?mem = "fd_ptr (desc_of s fp)"
  obtain tail where t: "memcpy (drop (unat ?pos) ?mem) src bsz = Inr tail"
    and s': "s' = set_pos fp (?pos + bsz) (s\<lparr>fs_descs := (fs_descs s)[?d :=
      (let fd = (desc_of s fp)\<lparr>fd_ptr := take (unat ?pos) ?mem @ tail\<rparr>
       in if ?pos + bsz > fd_size fd then fd\<lparr>fd_size := ?pos + bsz\<rparr> else fd)]\<rparr>)"
    using False assms(4) by (auto simp: FFS_Write_def Let_def bind_res_eq_Inr)
  have pos: "unat ?pos \<le> length ?mem" "length ?mem < 2 ^ 31" using o(2,3) by (auto simp: desc_ok_def word_le_nat_alt)
  have "length (drop (unat ?pos) ?mem) < 2 ^ 31" using pos by simp
  from memcpy_Inr [OF t this] have len: "unat bsz \<le> length ?mem - unat ?pos" "length tail = length ?mem - unat ?pos" by auto
  have sum: "unat (?pos + bsz) = unat ?pos + unat bsz" using len(1) pos by (intro unat_u32_add) auto
  define fd where "fd = (let fd = (desc_of s fp)\<lparr>fd_ptr := take (unat ?pos) ?mem @ tail\<rparr>
       in if ?pos + bsz > fd_size fd then fd\<lparr>fd_size := ?pos + bsz\<rparr> else fd)"
  have fd: "desc_ok fd" "fd_size (desc_of s fp) \<le> fd_size fd" "?pos + bsz \<le> fd_size fd"
      "fd_mode fd = fd_mode (desc_of s fp)"
    using o(3) len pos sum by (auto simp: fd_def desc_ok_def Let_def)
  have blk: "block_ok ((fs_descs s)[?d := fd]) f" if "block_ok (fs_descs s) f" for f
    using that fd(2,4) o(1) by (cases "ff_fd f = ?d") (auto simp: block_ok_def intro: order_trans)
  have "ffs_inv (s\<lparr>fs_descs := (fs_descs s)[?d := fd]\<rparr>)"
  proof (rule ffs_invI [OF assms(1)])
    show "list_all desc_ok (fs_descs (s\<lparr>fs_descs := (fs_descs s)[?d := fd]\<rparr>))"
      using assms(1) fd(1) by (simp add: ffs_inv_def list_all_update)
    show "list_all (block_ok (fs_descs (s\<lparr>fs_descs := (fs_descs s)[?d := fd]\<rparr>))) (fs_pool (s\<lparr>fs_descs := (fs_descs s)[?d := fd]\<rparr>))"
      using assms(1) by (auto simp: ffs_inv_def list_all_iff intro: blk)
  qed (use assms(1) in \<open>simp_all add: ffs_inv_def\<close>)
  then show ?thesis unfolding s' fd_def [symmetric]
    by (rule set_pos_inv) (use assms(2) fd(3) o(1) in \<open>auto simp: is_open_def\<close>)
qed

lemma FFS_Seek_inv:
  assumes "ffs_inv s" "is_open s fp"
  shows "ffs_inv (snd (FFS_Seek (Some fp) off m s))"
  using assms set_pos_inv [OF assms] by (simp add: FFS_Seek_def Let_def not_less)

lemma FFS_Close_inv:
  assumes "ffs_inv s"
  shows "ffs_inv (snd (FFS_Close (Some fp) s))"
  using assms ffs_inv_pool [OF assms] by (simp add: FFS_Close_def block_ok_def)

lemma ffs_exec_inv:
  assumes "ffs_inv s" "call_ok s c" "ffs_exec c s = Inr s'"
  shows "ffs_inv s'"
proof (cases c)
  case (Open t n m) with assms show ?thesis by (auto simp: bind_res_eq_Inr intro: FFS_Open_inv)
next
  case (Read fp d n) with assms show ?thesis by (auto simp: bind_res_eq_Inr intro: FFS_Read_inv)
next
  case (Write fp d n) with assms show ?thesis by (auto simp: bind_res_eq_Inr intro: FFS_Write_inv)
next
  case (Seek fp off m) with assms show ?thesis using FFS_Seek_inv by auto
next
  case (Close fp) with assms show ?thesis using FFS_Close_inv by auto
qed


definition demo_fs :: ffs_st where
  "demo_fs = \<lparr>fs_descs = [\<lparr>fd_name = [97, 0], fd_mode = FFS_MODE_RW, fd_size = 3, fd_ptr = [7, 8, 9, 0]\<rparr>], fs_files = [[0]],
     fs_pool = replicate 32 \<lparr>ff_used = False, ff_task_id = 0, ff_fd = 0, ff_mode = 0, ff_position = 0\<rparr>\<rparr>"

lemma demo_fs_inv: "ffs_inv demo_fs"
  by (simp add: demo_fs_def ffs_inv_def desc_ok_def block_ok_def list_all_iff)

lemma free_block_replicate: "\<not> ff_used f \<Longrightarrow> 0 < n \<Longrightarrow> free_block (replicate n f) = 0"
  by (cases n) auto

lemma demo_fs_open:
  "mode \<in> {FFS_MODE_R, FFS_MODE_W, FFS_MODE_RW} \<Longrightarrow> FFS_Open 1 (Some [97, 0]) mode demo_fs = Inr (Some 0, demo_fs\<lparr>fs_pool :=
     (fs_pool demo_fs)[0 := \<lparr>ff_used = True, ff_task_id = 1, ff_fd = 0, ff_mode = mode, ff_position = 0\<rparr>]\<rparr>)"
  by (auto simp: demo_fs_def FFS_Open_def FFS_MODE_RW_def FFS_MODE_R_def FFS_MODE_W_def Let_def free_block_replicate)


section \<open>Reading a file\<close>

lemma set_pos_simps [simp]:
  "fp < length (fs_pool s) \<Longrightarrow> desc_of (set_pos fp p s) fp = desc_of s fp"
  "fp < length (fs_pool s) \<Longrightarrow> pos_of (set_pos fp p s) fp = p"
  "fp < length (fs_pool s) \<Longrightarrow> ff_mode (fs_pool (set_pos fp p s) ! fp) = ff_mode (fs_pool s ! fp)"
  "is_open (set_pos fp p s) fp = is_open s fp"
  by (auto simp: set_pos_def is_open_def)

text \<open>A file is read piece by piece, each one into a buffer of the size that is asked for.\<close>

fun read_seq :: "nat \<Rightarrow> u32 list \<Rightarrow> ffs_st \<Rightarrow> fault + bytes \<times> ffs_st" where
  "read_seq fp [] s = Inr ([], s)"
| "read_seq fp (n # ns) s =
     bind_res (FFS_Read (Some fp) (replicate (unat n) 0) n s) (\<lambda>(ec, dst, s').
       bind_res (read_seq fp ns s') (\<lambda>(rest, s''). Inr (take (nat ec) dst @ rest, s'')))"

lemma read_seq_ok:
  assumes "ffs_inv s" "is_open s fp" "ff_mode (fs_pool s ! fp) AND FFS_MODE_R \<noteq> 0"
  shows "\<exists>s'. read_seq fp ns s = Inr (take (sum_list (map unat ns))
      (drop (unat (pos_of s fp)) (take (unat (fd_size (desc_of s fp))) (fd_ptr (desc_of s fp)))), s')"
  using assms
proof (induction ns arbitrary: s)
  case Nil
  then show ?case by simp
next
  case (Cons n ns)
  let ?p = "unat (pos_of s fp)" and ?z = "unat (fd_size (desc_of s fp))" and ?mem = "fd_ptr (desc_of s fp)"
  define m where "m = min (unat n) (?z - ?p)"
  let ?s = "set_pos fp (pos_of s fp + of_nat m) s"
  note o = ffs_inv_open [OF Cons.prems(1,2)]
  have lt: "fp < length (fs_pool s)" using Cons.prems(2) by (simp add: is_open_def)
  have pz: "?p \<le> ?z" "?z \<le> length ?mem" "length ?mem < 2 ^ 31" using o(2,3) by (auto simp: desc_ok_def word_le_nat_alt)
  have r: "FFS_Read (Some fp) (replicate (unat n) 0) n s = Inr (int m, take m (drop ?p ?mem) @ drop m (replicate (unat n) 0), ?s)"
    unfolding m_def by (rule FFS_Read_ok [OF Cons.prems]) simp
  have pm: "unat (pos_of s fp + of_nat m) = ?p + m"
    using pz by (subst unat_u32_add) (auto simp: m_def unat_of_nat)
  have "ffs_inv ?s" using FFS_Read_inv [OF Cons.prems(1,2) r] .
  then obtain s' where s': "read_seq fp ns ?s = Inr (take (sum_list (map unat ns)) (drop (?p + m) (take ?z ?mem)), s')"
    using Cons.IH [of ?s] Cons.prems lt pm by auto
  have "take m (take m (drop ?p ?mem) @ drop m (replicate (unat n) 0)) = take (unat n) (drop ?p (take ?z ?mem))"
    using pz by (simp add: m_def drop_take min_def) linarith
  moreover have "take (sum_list (map unat (n # ns))) (drop ?p (take ?z ?mem)) =
      take (unat n) (drop ?p (take ?z ?mem)) @ take (sum_list (map unat ns)) (drop (?p + m) (take ?z ?mem))"
    by (cases "unat n \<le> ?z - ?p") (use pz in \<open>simp_all add: take_add m_def add.commute min_def drop_all\<close>)
  ultimately show ?case using r s' by simp
qed

lemma find_fd_name: "find_fd descs name fda = Inr (Some d) \<Longrightarrow> strcmp (fd_name (descs ! d)) name = Inr 0"
  by (induction fda) (auto simp: bind_res_eq_Inr split: if_splits)

lemma find_file_name: "find_file descs name files = Inr (Some d) \<Longrightarrow> strcmp (fd_name (descs ! d)) name = Inr 0"
  by (induction files) (auto simp: bind_res_eq_Inr dest: find_fd_name split: option.splits)

lemma free_block_unused: "free_block fs < length fs \<Longrightarrow> \<not> ff_used (fs ! free_block fs)"
  by (induction fs) auto

lemma free_block_le: "free_block fs \<le> length fs"
  by (induction fs) auto

lemma FFS_Open_Some:
  assumes "ffs_inv s" "FFS_Open t (Some name) m s = Inr (Some fp, s')"
  shows "is_open s' fp" "\<not> is_open s fp" "pos_of s' fp = 0" "ff_mode (fs_pool s' ! fp) = m" "m \<noteq> 0"
    "strcmp (fd_name (desc_of s' fp)) name = Inr 0" "fs_descs s' = fs_descs s"
proof -
  obtain d where d: "find_file (fs_descs s) name (fs_files s) = Inr (Some d)" "fp = free_block (fs_pool s)"
    "fp \<noteq> length (fs_pool s)" "m \<noteq> 0" and s': "s' = s\<lparr>fs_pool := (fs_pool s)[fp :=
       \<lparr>ff_used = True, ff_task_id = t, ff_fd = d, ff_mode = m, ff_position = 0\<rparr>]\<rparr>"
    using assms(2) by (auto simp: FFS_Open_def bind_res_eq_Inr Let_def split: if_splits option.splits)
  have lt: "fp < length (fs_pool s)" using d(2,3) free_block_le [of "fs_pool s"] by simp
  then show "is_open s' fp" "pos_of s' fp = 0" "ff_mode (fs_pool s' ! fp) = m" "fs_descs s' = fs_descs s"
    by (simp_all add: s' is_open_def)
  show "\<not> is_open s fp" using free_block_unused [of "fs_pool s"] d(2) by (simp add: is_open_def)
  show "strcmp (fd_name (desc_of s' fp)) name = Inr 0" using find_file_name [OF d(1)] lt by (simp add: s')
qed (use assms(2) in \<open>auto simp: FFS_Open_def split: if_splits\<close>)

text \<open>
  A file that is opened by its name and read in pieces of any sizes gives the contents of the file with that
  name, from its beginning and never past its end.
\<close>

theorem Ffs_reads_file:
  assumes "ffs_inv s" "FFS_Open t (Some name) FFS_MODE_R s = Inr (Some fp, s1)"
  shows "\<exists>fd s2. fd \<in> set (fs_descs s) \<and> strcmp (fd_name fd) name = Inr 0 \<and>
    read_seq fp ns s1 = Inr (take (sum_list (map unat ns)) (take (unat (fd_size fd)) (fd_ptr fd)), s2)"
proof -
  note o = FFS_Open_Some [OF assms]
  have inv: "ffs_inv s1" using FFS_Open_inv [OF assms] .
  have "ff_mode (fs_pool s1 ! fp) AND FFS_MODE_R \<noteq> 0" using o(4) by (simp add: FFS_MODE_R_def)
  from read_seq_ok [OF inv o(1) this, of ns] o(3)
  obtain s2 where "read_seq fp ns s1 = Inr (take (sum_list (map unat ns))
      (take (unat (fd_size (desc_of s1 fp))) (fd_ptr (desc_of s1 fp))), s2)" by auto
  moreover have "desc_of s1 fp \<in> set (fs_descs s)" using ffs_inv_open(1) [OF inv o(1)] o(7) by simp
  ultimately show ?thesis using o(6) by blast
qed

theorem Ffs_reads_file_witness:
  "\<exists>fp s1 s2. FFS_Open 1 (Some [97, 0]) FFS_MODE_R demo_fs = Inr (Some fp, s1) \<and> read_seq fp [2, 5] s1 = Inr ([7, 8, 9], s2)"
proof -
  obtain fp s1 where o: "FFS_Open 1 (Some [97, 0]) FFS_MODE_R demo_fs = Inr (Some fp, s1)"
    using demo_fs_open [of FFS_MODE_R] by simp
  obtain fd s2 where "fd \<in> set (fs_descs demo_fs)"
    "read_seq fp [2, 5] s1 = Inr (take (sum_list (map unat [2, 5 :: u32])) (take (unat (fd_size fd)) (fd_ptr fd)), s2)"
    using Ffs_reads_file [OF demo_fs_inv o, of "[2, 5]"] by blast
  with o show ?thesis by (auto simp: demo_fs_def)
qed

text \<open>
  A write is not limited by the memory of the file: the access block checks only the mode. In the model that is a fault.
\<close>

lemma Ffs_Write_overruns:
  "\<exists>s1. FFS_Open 1 (Some [97, 0]) FFS_MODE_W demo_fs = Inr (Some 0, s1) \<and>
     FFS_Write (Some 0) [1, 2, 3, 4, 5] 5 s1 = Inl OutOfBounds"
  using demo_fs_open [of FFS_MODE_W] by (simp add: FFS_Write_def demo_fs_def FFS_MODE_W_def Let_def memcpy_def copy_bytes_def upt_rec)
end
