(* ===== verification/Www_Site.thy ===== *)
theory Www_Site
  imports Net_Ws Net_Prompt Ffs Sys_Yield
begin

unbundle bit_operations_syntax

text \<open>
  The web site (\<^verbatim>\<open>www/src/website.c\<close>): the callback of the HTTP server that serves the files of the file system and echoes
  the messages of websockets.

  The tasks that serve connections share the file system, one buffer and the semaphore of the buffer: the record \<open>site\<close>. A
  world is the network of one task beside the shared site. Whenever a function of the socket may have yielded, the other tasks
  change the site as the function \<open>others\<close> says. The rely condition \<open>polite\<close> states what the other tasks leave alone.
\<close>

section \<open>The shared state\<close>

record site =
  st_fs :: ffs_st
  st_fbuf :: bytes
  st_sem :: u32

record 'w site_world =
  wn_net :: 'w
  wn_site :: site

type_synonym 'w others = "'w \<Rightarrow> site \<Rightarrow> site"

definition on_net :: "'w others \<Rightarrow> ('w, 'a) act \<Rightarrow> ('w site_world, 'a) act" where
  "on_net others m w =
     (case m (wn_net w) of
        None \<Rightarrow> None
      | Some (r, v) \<Rightarrow> Some (r, \<lparr>wn_net = v, wn_site = others v (wn_site w)\<rparr>))"

definition site_funcs :: "'w others \<Rightarrow> 'w sock_funcs \<Rightarrow> 'w site_world sock_funcs" where
  "site_funcs others sf = \<lparr>sf_recv = \<lambda>n t. on_net others (sf_recv sf n t), sf_send = \<lambda>p n t. on_net others (sf_send sf p n t),
     sf_listen = \<lambda>port. on_net others (sf_listen sf port), sf_close = on_net others (sf_close sf)\<rparr>"

definition on_fs :: "(ffs_st \<Rightarrow> fault + 'a \<times> ffs_st) \<Rightarrow> ('w site_world, 'a) act" where
  "on_fs f w =
     (case f (st_fs (wn_site w)) of
        Inl e \<Rightarrow> Some (Inl e, w)
      | Inr (x, fs) \<Rightarrow> Some (Inr x, w\<lparr>wn_site := (wn_site w)\<lparr>st_fs := fs\<rparr>\<rparr>))"

text \<open>A read of the file into the shared buffer.\<close>

definition read_fbuf :: "nat option \<Rightarrow> u32 \<Rightarrow> ('w site_world, err_t) act" where
  "read_fbuf fp n w =
     (case FFS_Read fp (st_fbuf (wn_site w)) n (st_fs (wn_site w)) of
        Inl e \<Rightarrow> Some (Inl e, w)
      | Inr (ec, buf, fs) \<Rightarrow> Some (Inr ec, w\<lparr>wn_site := (wn_site w)\<lparr>st_fbuf := buf, st_fs := fs\<rparr>\<rparr>))"

text \<open>
  \<open>with_sem\<close>: the semaphore is taken when it is free or belongs to the task, and is released however the block is left.
  While it belongs to another task the task yields, at most \<open>fuel\<close> times.
\<close>

fun fbuf_lock :: "nat \<Rightarrow> 'w others \<Rightarrow> u32 \<Rightarrow> ('w site_world, unit) act" where
  "fbuf_lock 0 others task w = None"
| "fbuf_lock (Suc fuel) others task w =
     (if st_sem (wn_site w) = 0 \<or> st_sem (wn_site w) = task then aret () (w\<lparr>wn_site := (wn_site w)\<lparr>st_sem := task\<rparr>\<rparr>)
      else fbuf_lock fuel others task (w\<lparr>wn_site := others (wn_net w) (wn_site w)\<rparr>))"

definition fbuf_release :: "('w site_world, unit) act" where
  "fbuf_release w = aret () (w\<lparr>wn_site := (wn_site w)\<lparr>st_sem := 0\<rparr>\<rparr>)"

definition with_fbuf :: "nat \<Rightarrow> 'w others \<Rightarrow> u32 \<Rightarrow> ('w site_world, 'a) act \<Rightarrow> ('w site_world, 'a) act" where
  "with_fbuf fuel others task m =
     abind (fbuf_lock fuel others task) (\<lambda>_. abind m (\<lambda>x. abind fbuf_release (\<lambda>_. aret x)))"

section \<open>The type of a file\<close>

definition mime_lut :: "(bytes \<times> bytes) list" where
  "mime_lut = [(lit ''text/html'', lit ''.htm''), (lit ''text/html'', lit ''.html''), (lit ''text/javascript'', lit ''.js''),
     (lit ''text/css'', lit ''.css''), (lit ''image/svg+xml'', lit ''.svg''), (lit ''image/jpeg'', lit ''.jpg''),
     (lit ''image/jpeg'', lit ''.jpeg''), (lit ''image/png'', lit ''.png'')]"

fun mime_find :: "bytes \<Rightarrow> (bytes \<times> bytes) list \<Rightarrow> fault + bytes" where
  "mime_find ext [] = Inr (lit ''text/plain'')"
| "mime_find ext ((mime, e) # lut) = bind_res (strcmp ext e) (\<lambda>c. if c = 0 then Inr mime else mime_find ext lut)"

text \<open>The walk back to the last dot does not stop at the beginning of the string.\<close>

fun back_to_dot :: "bytes \<Rightarrow> nat \<Rightarrow> fault + nat" where
  "back_to_dot s 0 = (if s ! 0 = 46 then Inr 0 else Inl OutOfBounds)"
| "back_to_dot s (Suc i) = (if s ! Suc i = 46 then Inr (Suc i) else back_to_dot s i)"

definition HTTPSrvWebsite_GetMimeTypeForFileExt :: "bytes option \<Rightarrow> fault + bytes" where
  "HTTPSrvWebsite_GetMimeTypeForFileExt ext =
     (case ext of
        None \<Rightarrow> Inr (lit ''text/plain'')
      | Some s \<Rightarrow>
          bind_res (strlen s) (\<lambda>n.
          if n = 0 then Inr (lit ''text/plain'')
          else bind_res (back_to_dot s n) (\<lambda>i. mime_find (drop i s) mime_lut)))"

section \<open>Files\<close>

text \<open>The loop that sends the file. A result with an error is a return from the callback, without one the code goes on.\<close>

fun site_body_loop ::
  "nat \<Rightarrow> 'w site_world sock_funcs \<Rightarrow> int \<Rightarrow> nat option \<Rightarrow> u32 \<Rightarrow> uhttp_request \<Rightarrow> ('w site_world, err_t option \<times> uhttp_request) act" where
  "site_body_loop 0 sf tmo fp fsize req = (\<lambda>w. None)"
| "site_body_loop (Suc fuel) sf tmo fp fsize req =
     (if fsize = 0 then aret (None, req)
      else
        abind (read_fbuf fp 1024) (\<lambda>n.
        if n \<le> 0 then aret (None, req)
        else
          abind (aget (\<lambda>w. st_fbuf (wn_site w))) (\<lambda>fbuf.
          abind (UHTTPSrc_SendBody sf tmo req fbuf (word_of_int n)) (\<lambda>(ec, req).
          if ec < EOK then aret (Some EFATAL, req)
          else site_body_loop fuel sf tmo fp (fsize - word_of_int n) req))))"

declare site_body_loop.simps [simp del]

text \<open>The check for a compressed file: the first three bytes are looked at, and the file is rewound.\<close>

definition site_gzip ::
  "(u32 \<Rightarrow> 'd \<Rightarrow> fs \<Rightarrow> bytes) \<Rightarrow> 'w site_world sock_funcs \<Rightarrow> int \<Rightarrow> nat option \<Rightarrow> uhttp_request \<Rightarrow> ('w site_world, uhttp_request) act" where
  "site_gzip pd sf tmo fp req =
     abind (read_fbuf fp 3) (\<lambda>n.
     if n \<noteq> 3 then aret req
     else
       abind (aget (\<lambda>w. st_fbuf (wn_site w))) (\<lambda>fbuf.
       abind (if take 3 fbuf = [0x1f, 0x8b, 8]
              then abind (UHTTPSrv_SendHeaderField pd sf tmo req HTTP_FIELD_NAME_CONTENT_ENCODING [VStr (lit ''gzip'')]) (\<lambda>(_, req). aret req)
              else aret req) (\<lambda>req.
       abind (on_fs (\<lambda>fs. Inr (FFS_Seek fp 0 FFS_SEEK_SET fs))) (\<lambda>_. aret req))))"

definition site_name :: "bytes \<Rightarrow> fault + bytes" where
  "site_name url = bind_res (strcmp (lit ''/'') url) (\<lambda>c. Inr (if c = 0 then lit ''/index.html'' else url))"

definition site_status :: "nat option \<Rightarrow> ffs_st \<Rightarrow> uhttp_status_code \<times> u32 option" where
  "site_status fp fs =
     (case fp of
        None \<Rightarrow> (HTTP_STATUS_404_NOT_FOUND, None)
      | Some _ \<Rightarrow>
          (case FFS_Size fp fs of (ec, fsize) \<Rightarrow> (if ec < EOK then HTTP_STATUS_500_INTERNAL_SRV_ERR else HTTP_STATUS_200_OK, fsize)))"

definition HTTPSrvWebsite_CallbackFiles ::
  "nat \<Rightarrow> (u32 \<Rightarrow> 'd \<Rightarrow> fs \<Rightarrow> bytes) \<Rightarrow> 'w others \<Rightarrow> 'w site_world sock_funcs \<Rightarrow> int \<Rightarrow> u32 \<Rightarrow> uhttp_request \<Rightarrow>
   ('w site_world, err_t \<times> uhttp_request) act" where
  "HTTPSrvWebsite_CallbackFiles fuel pd others sf tmo task req =
     abind (alift (site_name (rq_url req))) (\<lambda>fname.
     abind (on_fs (FFS_Open (unat task) (Some fname) FFS_MODE_R)) (\<lambda>fp.
     abind (aget (\<lambda>w. site_status fp (st_fs (wn_site w)))) (\<lambda>(err_code, size).
     abind (if err_code \<noteq> HTTP_STATUS_200_OK then aret 0 else case size of None \<Rightarrow> afail Uninit | Some n \<Rightarrow> aret n) (\<lambda>fsize.
     abind (UHTTPSrv_SendStatus pd sf tmo req err_code fsize) (\<lambda>(_, req).
     abind (UHTTPSrv_SendHeaderField pd sf tmo req HTTP_FIELD_NAME_ACCESS_CONTROL_ALLOW_ORIGIN [VStr (lit ''*'')]) (\<lambda>(_, req).
     abind (UHTTPSrv_SendHeaderField pd sf tmo req HTTP_FIELD_NAME_CONNECTION [VStr (lit ''close'')]) (\<lambda>(_, req).
     abind (with_fbuf fuel others task (
       abind (site_gzip pd sf tmo fp req) (\<lambda>req.
       abind (alift (HTTPSrvWebsite_GetMimeTypeForFileExt (Some fname))) (\<lambda>mime_type.
       abind (UHTTPSrv_SendHeaderField pd sf tmo req HTTP_FIELD_NAME_CONTENT_TYPE [VStr mime_type]) (\<lambda>(_, req).
       abind (UHTTPSrv_EndHeader sf tmo req) (\<lambda>(ec, req).
       if ec \<noteq> EOK then aret (None, req) else site_body_loop fuel sf tmo fp fsize req)))))) (\<lambda>(r, req).
     case r of
       Some ec \<Rightarrow> aret (ec, req)
     | None \<Rightarrow> abind (on_fs (\<lambda>fs. Inr (FFS_Close fp fs))) (\<lambda>_. aret (EOK, req))))))))))"

section \<open>Websockets\<close>

text \<open>The loop that sends every message back; the buffer has 16 bytes.\<close>

fun site_echo_loop ::
  "nat \<Rightarrow> ('w \<Rightarrow> 'w) \<Rightarrow> ('w \<Rightarrow> bytes) \<Rightarrow> 'w sock_funcs \<Rightarrow> u32 \<Rightarrow> bytes \<Rightarrow> uhttp_request \<Rightarrow> ('w, err_t \<times> uhttp_request) act" where
  "site_echo_loop 0 yield junk sf task buf req = (\<lambda>w. None)"
| "site_echo_loop (Suc fuel) yield junk sf task buf req =
     abind (UHTTPSrvWS_Recv fuel junk sf task (Some buf) 16 0 req) (\<lambda>((ec, dtype, buf), req).
     if ec < EOK then aret (ec, req)
     else
       case (dtype, buf) of
         (Some dtype, Some buf) \<Rightarrow>
           abind (UHTTPSrvWS_Send fuel sf task dtype buf (word_of_int ec) req) (\<lambda>(ec, req).
           if ec < EOK then aret (ec, req) else (\<lambda>w. site_echo_loop fuel yield junk sf task buf req (yield w)))
       | _ \<Rightarrow> afail Uninit)"

declare site_echo_loop.simps [simp del]

definition HTTPSrvWebsite_CallbackWebSocket ::
  "nat \<Rightarrow> ('w \<Rightarrow> 'w) \<Rightarrow> ('w \<Rightarrow> bytes) \<Rightarrow> (u32 \<Rightarrow> 'd \<Rightarrow> fs \<Rightarrow> bytes) \<Rightarrow> 'w sock_funcs \<Rightarrow> int \<Rightarrow> u32 \<Rightarrow> bytes \<Rightarrow> uhttp_request \<Rightarrow>
   ('w, err_t \<times> uhttp_request) act" where
  "HTTPSrvWebsite_CallbackWebSocket fuel yield junk pd sf tmo task buf req =
     abind (UHTTPSrvWS_Accept pd sf tmo req) (\<lambda>(ec, req).
     if ec < EOK then aret (ec, req) else site_echo_loop fuel yield junk sf task buf req)"

section \<open>The callback\<close>

text \<open>The loop over the fields of the header; the result is an error when the client does not take compressed files.\<close>

fun site_fields_loop ::
  "nat \<Rightarrow> (bytes \<Rightarrow> u32 \<Rightarrow> bool \<Rightarrow> fs \<Rightarrow> int \<times> 'd scan_val option) \<Rightarrow> 'w sock_funcs \<Rightarrow> int \<Rightarrow> uhttp_request \<Rightarrow> 'd uhttp_field \<Rightarrow>
   ('w, err_t option \<times> uhttp_request) act" where
  "site_fields_loop 0 sd sf tmo req field = (\<lambda>w. None)"
| "site_fields_loop (Suc fuel) sd sf tmo req field =
     (if rq_state req \<noteq> HTTP_STATE_READ_FIELDS then aret (None, req)
      else
        abind (UHTTPSrv_ReadHeaderField sd sf tmo req field) (\<lambda>(ec, req, field).
        if ec < EOK then aret (None, req)
        else if uf_name field = HTTP_FIELD_NAME_ACCEPT_ENCODING then
          abind (alift (bind_res (field_s field) (\<lambda>s. strstr s (lit ''gzip'')))) (\<lambda>found.
          if found = None then aret (Some EFATAL, req) else site_fields_loop fuel sd sf tmo req field)
        else site_fields_loop fuel sd sf tmo req field))"

declare site_fields_loop.simps [simp del]

text \<open>The type of a request has two values, so the default branch of the switch is never taken.\<close>

definition HTTPSrvWebsite_Callback ::
  "nat \<Rightarrow> (bytes \<Rightarrow> u32 \<Rightarrow> bool \<Rightarrow> fs \<Rightarrow> int \<times> 'd scan_val option) \<Rightarrow> (u32 \<Rightarrow> 'd \<Rightarrow> fs \<Rightarrow> bytes) \<Rightarrow>
   ('w site_world \<Rightarrow> 'w site_world) \<Rightarrow> ('w site_world \<Rightarrow> bytes) \<Rightarrow> 'w others \<Rightarrow> 'w site_world sock_funcs \<Rightarrow> int \<Rightarrow> u32 \<Rightarrow>
   'd uhttp_field \<Rightarrow> bytes \<Rightarrow> uhttp_request \<Rightarrow> ('w site_world, err_t \<times> uhttp_request) act" where
  "HTTPSrvWebsite_Callback fuel sd pd yield junk others sf tmo task field buf req =
     abind (site_fields_loop fuel sd sf tmo req field) (\<lambda>(r, req).
     case r of
       Some ec \<Rightarrow> aret (ec, req)
     | None \<Rightarrow>
         abind (if rq_state req = HTTP_STATE_READ_BODY
                then abind (UHTTPSrv_ReadBody fuel sf tmo req None (-1)) (\<lambda>(_, req, _). aret req)
                else aret req) (\<lambda>req.
         case rq_type req of
           HTTP_REQ_TYPE_WEBSOCKET \<Rightarrow> HTTPSrvWebsite_CallbackWebSocket fuel yield junk pd sf tmo task buf req
         | HTTP_REQ_TYPE_STANDARD \<Rightarrow> HTTPSrvWebsite_CallbackFiles fuel pd others sf tmo task req))"

section \<open>Start\<close>

record uhttp_instance =
  ui_port :: u16
  ui_timeout :: int
  ui_max_connections :: nat
  ui_stack_size :: u32

text \<open>The tasks that serve an instance; \<open>handler\<close> is the address of \<open>UHTTPSrv_ServeTask\<close>, \<open>arg\<close> that of the instance.\<close>

fun start_tasks :: "task_t \<Rightarrow> addr \<Rightarrow> u32 \<Rightarrow> u32 \<Rightarrow> nat \<Rightarrow> err_t \<Rightarrow> yield_t \<Rightarrow> fault + err_t \<times> yield_t" where
  "start_tasks junk handler arg stack_size 0 ec s = Inr (ec, s)"
| "start_tasks junk handler arg stack_size (Suc n) ec s =
     bind_res (Yield_Task junk s handler arg stack_size) (\<lambda>(ec, s).
       if ec < EOK then Inr (ec, s) else start_tasks junk handler arg stack_size n ec s)"

definition UHTTPSrv_InstanceInit :: "task_t \<Rightarrow> addr \<Rightarrow> u32 \<Rightarrow> uhttp_instance \<Rightarrow> yield_t \<Rightarrow> fault + err_t \<times> yield_t" where
  "UHTTPSrv_InstanceInit junk handler arg i s = start_tasks junk handler arg (ui_stack_size i) (ui_max_connections i) EOK s"

definition website_instance :: uhttp_instance where
  "website_instance = \<lparr>ui_port = 80, ui_timeout = 1000, ui_max_connections = 3, ui_stack_size = 2048\<rparr>"

definition HTTPSrvWebsite_Init :: "task_t \<Rightarrow> addr \<Rightarrow> u32 \<Rightarrow> yield_t \<Rightarrow> fault + err_t \<times> yield_t" where
  "HTTPSrvWebsite_Init junk handler arg s =
     bind_res (UHTTPSrv_InstanceInit junk handler arg website_instance s) (\<lambda>(ec, s).
       if ec < EOK then Inl AssertFail else Inr (ec, s))"

section \<open>The type of a file\<close>

lemma mime_find_ok:
  assumes "cstr ext t" "list_all (\<lambda>(m, x). cstr x (butlast x)) lut"
  shows "mime_find ext lut = Inr (case find (\<lambda>(m, x). butlast x = t) lut of Some (m, _) \<Rightarrow> m | None \<Rightarrow> lit ''text/plain'')"
  using assms(2)
proof (induction lut)
  case (Cons l lut)
  obtain m x where l: "l = (m, x)" by (cases l)
  obtain c where "strcmp ext x = Inr c" "c = 0 \<longleftrightarrow> t = butlast x"
    using strcmp_ok [OF assms(1), of x "butlast x"] Cons.prems l by auto
  then show ?case using Cons l by auto
qed simp

lemma back_to_dot_ok:
  assumes "length p + k < length s" "s ! length p = 46" "\<And>j. j < k \<Longrightarrow> s ! (length p + Suc j) \<noteq> 46"
  shows "back_to_dot s (length p + k) = Inr (length p)"
  using assms
proof (induction k)
  case 0
  then show ?case by (cases "length p") simp_all
next
  case (Suc k)
  have "s ! Suc (length p + k) \<noteq> 46" using Suc.prems(3) [of k] by simp
  then show ?case using Suc by simp
qed

lemma back_to_dot_none: "(\<And>j. j \<le> i \<Longrightarrow> s ! j \<noteq> 46) \<Longrightarrow> back_to_dot s i = Inl OutOfBounds"
  by (induction i) auto

lemma cstr_nth: "cstr s t \<Longrightarrow> j < length t \<Longrightarrow> s ! j = t ! j" "cstr s t \<Longrightarrow> s ! length t = 0"
  by (auto simp: cstr_def nth_append)

definition mime_of :: "bytes \<Rightarrow> bytes" where
  "mime_of e =
     (if e = ascii ''htm'' \<or> e = ascii ''html'' then lit ''text/html'' else if e = ascii ''js'' then lit ''text/javascript''
      else if e = ascii ''css'' then lit ''text/css'' else if e = ascii ''svg'' then lit ''image/svg+xml''
      else if e = ascii ''jpg'' \<or> e = ascii ''jpeg'' then lit ''image/jpeg''
      else if e = ascii ''png'' then lit ''image/png'' else lit ''text/plain'')"

lemma mime_lut_cstr: "list_all (\<lambda>(m, x). cstr x (butlast x)) mime_lut"
  by (simp add: mime_lut_def cstr_def lit_def ascii_def)

lemma mime_lut_find: "(case find (\<lambda>(m, x). butlast x = 46 # e) mime_lut of Some (m, _) \<Rightarrow> m | None \<Rightarrow> lit ''text/plain'') = mime_of e"
  by (simp add: mime_lut_def mime_of_def lit_def ascii_def)

text \<open>
  The type of a file is decided by what follows the last dot of its name, whatever comes before the dot.
\<close>

theorem Site_mime_type:
  assumes "cstr s (p @ 46 # e)" "46 \<notin> set e"
  shows "HTTPSrvWebsite_GetMimeTypeForFileExt (Some s) = Inr (mime_of e)"
proof -
  let ?t = "p @ 46 # e"
  obtain rest where s: "s = ?t @ 0 # rest" using assms(1) by (auto simp: cstr_def)
  have "back_to_dot s (length p + Suc (length e)) = Inr (length p)"
  proof (rule back_to_dot_ok)
    fix j assume "j < Suc (length e)"
    then show "s ! (length p + Suc j) \<noteq> 46"
      using assms(2) by (cases "j = length e") (auto simp: s nth_append in_set_conv_nth)
  qed (simp_all add: s nth_append)
  moreover have "cstr (drop (length p) s) (46 # e)" using assms(1) by (auto simp: cstr_def)
  from mime_find_ok [OF this mime_lut_cstr] have "mime_find (drop (length p) s) mime_lut = Inr (mime_of e)"
    by (simp add: mime_lut_find)
  ultimately show ?thesis
    using strlen_ok [OF assms(1)] by (simp add: HTTPSrvWebsite_GetMimeTypeForFileExt_def)
qed

theorem Site_mime_type_witness:
  "HTTPSrvWebsite_GetMimeTypeForFileExt (Some (lit ''/a.b/index.css'')) = Inr (lit ''text/css'')"
proof -
  have "cstr (lit ''/a.b/index.css'') (ascii ''/a.b/index'' @ 46 # ascii ''css'')" by (simp add: cstr_def lit_def ascii_def)
  from Site_mime_type [OF this] show ?thesis by (simp add: mime_of_def ascii_def)
qed

text \<open>The walk back to the dot leaves the string when there is none: the answer to a request for \<^verbatim>\<open>/about\<close> is a fault.\<close>

lemma Site_no_dot_faults:
  assumes "cstr s t" "t \<noteq> []" "46 \<notin> set t"
  shows "HTTPSrvWebsite_GetMimeTypeForFileExt (Some s) = Inl OutOfBounds"
proof -
  have "back_to_dot s (length t) = Inl OutOfBounds"
  proof (rule back_to_dot_none)
    fix j assume "j \<le> length t"
    then show "s ! j \<noteq> 46" using assms(3) cstr_nth [OF assms(1)] by (cases "j = length t") (auto simp: in_set_conv_nth)
  qed
  then show ?thesis using strlen_ok [OF assms(1)] assms(2) by (simp add: HTTPSrvWebsite_GetMimeTypeForFileExt_def)
qed

section \<open>What a response is made of\<close>

text \<open>The bytes of a rendered line.\<close>

definition rendered :: "fault + err_t \<times> bytes \<Rightarrow> bytes option" where
  "rendered r = (case r of Inr (ec, line) \<Rightarrow> if ec < 0 then None else Some (take (nat ec) line) | Inl _ \<Rightarrow> None)"

definition field_text :: "(u32 \<Rightarrow> 'd \<Rightarrow> fs \<Rightarrow> bytes) \<Rightarrow> uhttp_field_name \<Rightarrow> 'd va \<Rightarrow> bytes option" where
  "field_text pd name arg = rendered (UHTTPSrv_RenderFieldLine pd (replicate 256 0) 256 name [arg])"

definition ok_status_text :: "(u32 \<Rightarrow> 'd \<Rightarrow> fs \<Rightarrow> bytes) \<Rightarrow> bytes option" where
  "ok_status_text pd = rendered (map_sum id (\<lambda>(line, n). (int n, line))
     (snprintf pd (replicate 32 0) 32 (ascii ''%s %d %s'' @ CRLF) [VStr (lit ''HTTP/1.1''), VInt 200, VStr (lit ''OK'')]))"

text \<open>The head of the response with a file: status line, fields, empty line.\<close>

definition file_head :: "(u32 \<Rightarrow> 'd \<Rightarrow> fs \<Rightarrow> bytes) \<Rightarrow> u32 \<Rightarrow> bool \<Rightarrow> bytes \<Rightarrow> bytes option" where
  "file_head pd n gz mime = map_option concat (those (
     [ok_status_text pd,
      field_text pd HTTP_FIELD_NAME_CONTENT_LENGTH (VInt n),
      field_text pd HTTP_FIELD_NAME_SERVER (VStr (lit ''uHTTP'')),
      field_text pd HTTP_FIELD_NAME_CONNECTION (VStr (lit ''keep-alive'')),
      field_text pd HTTP_FIELD_NAME_ACCESS_CONTROL_ALLOW_ORIGIN (VStr (lit ''*'')),
      field_text pd HTTP_FIELD_NAME_ACCESS_CONTROL_ALLOW_ORIGIN (VStr (lit ''*'')),
      field_text pd HTTP_FIELD_NAME_CONNECTION (VStr (lit ''close''))] @
     (if gz then [field_text pd HTTP_FIELD_NAME_CONTENT_ENCODING (VStr (lit ''gzip''))] else []) @
     [field_text pd HTTP_FIELD_NAME_CONTENT_TYPE (VStr mime),
      Some CRLF]))"

definition sends :: "('w \<Rightarrow> bool) \<Rightarrow> ('w \<Rightarrow> bytes) \<Rightarrow> ('w \<Rightarrow> bytes) \<Rightarrow> ('w \<Rightarrow> nat) \<Rightarrow> bytes \<Rightarrow> 'w \<Rightarrow> 'w \<Rightarrow> bool" where
  "sends ok inp outp room bs w w' \<longleftrightarrow> ok w' \<and> inp w' = inp w \<and> outp w' = outp w @ bs \<and> room w \<le> room w' + length bs"

lemma sends_trans: "sends ok inp outp room a u v \<Longrightarrow> sends ok inp outp room b v w \<Longrightarrow> sends ok inp outp room (a @ b) u w"
  by (auto simp: sends_def)

lemma field_text_line:
  assumes "field_text pd name arg = Some bs"
  obtains line where "UHTTPSrv_RenderFieldLine pd (replicate 256 0) 256 name [arg] = Inr (int (length bs), line)"
    "take (length bs) line = bs" "length line = 256" "length bs < 256"
proof -
  obtain ec line where r: "UHTTPSrv_RenderFieldLine pd (replicate 256 0) 256 name [arg] = Inr (ec, line)" "\<not> ec < 0" "bs = take (nat ec) line"
    using assms by (auto simp: field_text_def rendered_def split: sum.splits if_splits)
  have "nat ec < 256" "length line = 256" using RenderFieldLine_room [OF r(1,2)] by auto
  moreover from this have "length bs = nat ec" using r(3) by simp
  ultimately show thesis using that [of line] r by auto
qed

context wire_sock begin

lemma send_sends:
  assumes "ok w" "unat n \<le> length p" "unat n \<le> room w" "0 \<le> t"
  shows "\<exists>w'. sf_send sf p n t w = Some (Inr (int (unat n)), w') \<and> sends ok inp outp room (take (unat n) p) w w'"
proof -
  obtain w' where w': "sf_send sf p n t w = Some (Inr (int (unat n)), w')" using send_now [OF assms] by blast
  have "sends ok inp outp room (take (unat n) p) w w'"
    using send_ok [OF assms(1,2) w'] send_outp [OF assms(1,2) w'] assms(2) by (auto simp: sends_def)
  with w' show ?thesis by blast
qed

lemma SendHeaderField_sends:
  assumes "ok w" "rq_state req = HTTP_STATE_SEND_FIELDS" "0 \<le> t" "field_text pd name arg = Some bs" "length bs \<le> room w"
  shows "\<exists>w'. UHTTPSrv_SendHeaderField pd sf t req name [arg] w = Some (Inr (EOK, req), w') \<and> sends ok inp outp room bs w w'"
proof -
  obtain line where l: "UHTTPSrv_RenderFieldLine pd (replicate 256 0) 256 name [arg] = Inr (int (length bs), line)"
    "take (length bs) line = bs" "length line = 256" "length bs < 256" using field_text_line [OF assms(4)] by blast
  have u: "unat (of_nat (length bs) :: u32) = length bs" using l(4) by (simp add: unat_of_nat take_bit_nat_eq_self)
  obtain w' where "sf_send sf line (of_nat (length bs)) t w = Some (Inr (int (length bs)), w')" "sends ok inp outp room bs w w'"
    using send_sends [OF assms(1), of "of_nat (length bs)" line t] assms(3,5) l(2-4) u by auto
  then show ?thesis using assms(2) l(1) by (simp add: UHTTPSrv_SendHeaderField_def abind_def EOK_def aret_def)
qed

lemma SendStatusLine_sends:
  assumes "ok w" "0 \<le> t" "ok_status_text pd = Some bs" "length bs \<le> room w"
  shows "\<exists>w'. UHTTPSrv_SendStatusLine pd sf t uhttp_version.HTTP_VER_1V1 HTTP_STATUS_200_OK w = Some (Inr (int (length bs)), w') \<and>
    sends ok inp outp room bs w w'"
proof -
  obtain line n where r: "snprintf pd (replicate 32 0) 32 (ascii ''%s %d %s'' @ CRLF) [VStr (lit ''HTTP/1.1''), VInt 200, VStr (lit ''OK'')] = Inr (line, n)"
    "bs = take n line"
    using assms(3) by (auto simp: ok_status_text_def rendered_def map_sum_def split: sum.splits if_splits)
  have n: "n < 32" "length line = 32" using snprintf_room [OF r(1) _ _ field_formats(3)] by auto
  then have u: "unat (of_nat n :: u32) = n" "length bs = n" using r(2) by (simp_all add: unat_of_nat take_bit_nat_eq_self)
  obtain w' where "sf_send sf line (of_nat n) t w = Some (Inr (int n), w')" "sends ok inp outp room bs w w'"
    using send_sends [OF assms(1), of "of_nat n" line t] assms(2,4) n u r(2) by auto
  then show ?thesis using r(1) u(2)
    by (simp add: UHTTPSrv_SendStatusLine_def UHTTPSrv_GetVersionSpec_def UHTTPSrv_GetStatusCodeSpec_def one_key_def
        version_lut_def status_lut_def same_str_def)
qed

lemma SendStatus_sends:
  assumes "ok w" "0 \<le> t" "rq_state req \<noteq> HTTP_STATE_ERROR" "ok_status_text pd = Some l0"
    and "field_text pd HTTP_FIELD_NAME_CONTENT_LENGTH (VInt n) = Some l1"
    and "field_text pd HTTP_FIELD_NAME_SERVER (VStr (lit ''uHTTP'')) = Some l2"
    and "field_text pd HTTP_FIELD_NAME_CONNECTION (VStr (lit ''keep-alive'')) = Some l3"
    and "field_text pd HTTP_FIELD_NAME_ACCESS_CONTROL_ALLOW_ORIGIN (VStr (lit ''*'')) = Some l4"
    and "length (l0 @ l1 @ l2 @ l3 @ l4) \<le> room w"
  shows "\<exists>w'. UHTTPSrv_SendStatus pd sf t req HTTP_STATUS_200_OK n w =
      Some (Inr (EOK, req\<lparr>rq_state := HTTP_STATE_SEND_FIELDS, rq_resp_bleft := n\<rparr>), w') \<and>
    sends ok inp outp room (l0 @ l1 @ l2 @ l3 @ l4) w w'"
proof -
  let ?r = "req\<lparr>rq_state := HTTP_STATE_SEND_FIELDS\<rparr>"
  have r: "rq_state ?r = HTTP_STATE_SEND_FIELDS" by simp
  obtain v0 where v0: "UHTTPSrv_SendStatusLine pd sf t uhttp_version.HTTP_VER_1V1 HTTP_STATUS_200_OK w = Some (Inr (int (length l0)), v0)"
      "sends ok inp outp room l0 w v0"
    using SendStatusLine_sends [OF assms(1,2,4)] assms(9) by auto
  obtain v1 where v1: "UHTTPSrv_SendHeaderField pd sf t ?r HTTP_FIELD_NAME_CONTENT_LENGTH [VInt n] v0 = Some (Inr (EOK, ?r), v1)"
      "sends ok inp outp room l1 v0 v1"
    using SendHeaderField_sends [OF _ r assms(2,5), of v0] v0(2) assms(9) by (auto simp: sends_def)
  obtain v2 where v2: "UHTTPSrv_SendHeaderField pd sf t ?r HTTP_FIELD_NAME_SERVER [VStr (lit ''uHTTP'')] v1 = Some (Inr (EOK, ?r), v2)"
      "sends ok inp outp room l2 v1 v2"
    using SendHeaderField_sends [OF _ r assms(2,6), of v1] v0(2) v1(2) assms(9) by (auto simp: sends_def)
  obtain v3 where v3: "UHTTPSrv_SendHeaderField pd sf t ?r HTTP_FIELD_NAME_CONNECTION [VStr (lit ''keep-alive'')] v2 = Some (Inr (EOK, ?r), v3)"
      "sends ok inp outp room l3 v2 v3"
    using SendHeaderField_sends [OF _ r assms(2,7), of v2] v0(2) v1(2) v2(2) assms(9) by (auto simp: sends_def)
  obtain v4 where v4: "UHTTPSrv_SendHeaderField pd sf t ?r HTTP_FIELD_NAME_ACCESS_CONTROL_ALLOW_ORIGIN [VStr (lit ''*'')] v3 = Some (Inr (EOK, ?r), v4)"
      "sends ok inp outp room l4 v3 v4"
    using SendHeaderField_sends [OF _ r assms(2,8), of v3] v0(2) v1(2) v2(2) v3(2) assms(9) by (auto simp: sends_def)
  have "UHTTPSrv_SendStatus pd sf t req HTTP_STATUS_200_OK n w =
      Some (Inr (EOK, req\<lparr>rq_state := HTTP_STATE_SEND_FIELDS, rq_resp_bleft := n\<rparr>), v4)"
    using assms(3) v0(1) v1(1) v2(1) v3(1) v4(1)
    by (simp add: UHTTPSrv_SendStatus_def abind_def EOK_def aret_def)
  then show ?thesis using v0(2) v1(2) v2(2) v3(2) v4(2) by (auto simp: sends_def)
qed

lemma EndHeader_sends:
  assumes "ok w" "0 \<le> t" "rq_state req = HTTP_STATE_SEND_FIELDS" "2 \<le> room w"
  shows "\<exists>w'. UHTTPSrv_EndHeader sf t req w =
      Some (Inr (EOK, req\<lparr>rq_state := (if rq_resp_bleft req \<noteq> 0 then HTTP_STATE_SEND_BODY else HTTP_STATE_DONE)\<rparr>), w') \<and>
    sends ok inp outp room CRLF w w'"
proof -
  obtain w' where "sf_send sf (CRLF @ [0]) 2 t w = Some (Inr 2, w')" "sends ok inp outp room CRLF w w'"
    using send_sends [OF assms(1), of 2 "CRLF @ [0]" t] assms(2,4) by (auto simp: CRLF_def)
  then show ?thesis using assms(3) by (auto simp: UHTTPSrv_EndHeader_def UHTTPSrv_SendEmptyLine_def abind_def EOK_def aret_def)
qed

lemma SendBody_sends:
  assumes "ok w" "0 \<le> t" "rq_state req = HTTP_STATE_SEND_BODY" "n \<noteq> 0" "n \<le> rq_resp_bleft req" "unat n \<le> length p" "unat n \<le> room w"
  shows "\<exists>w'. UHTTPSrc_SendBody sf t req p n w =
      Some (Inr (int (unat n), req\<lparr>rq_resp_bleft := rq_resp_bleft req - n,
        rq_state := (if rq_resp_bleft req = n then HTTP_STATE_DONE else HTTP_STATE_SEND_BODY)\<rparr>), w') \<and>
    sends ok inp outp room (take (unat n) p) w w'"
proof -
  obtain w' where "sf_send sf p n t w = Some (Inr (int (unat n)), w')" "sends ok inp outp room (take (unat n) p) w w'"
    using send_sends [OF assms(1,6,7,2)] by auto
  moreover have "req\<lparr>rq_resp_bleft := x\<rparr> = req\<lparr>rq_resp_bleft := x, rq_state := HTTP_STATE_SEND_BODY\<rparr>" for x
    using assms(3) by (cases req) simp
  ultimately show ?thesis using assms(3-5) by (auto simp: UHTTPSrc_SendBody_def abind_def EOK_def aret_def Let_def not_less)
qed

end

section \<open>The other tasks\<close>

text \<open>
  What the other tasks leave alone: the files themselves, the access blocks that this task has in use, and the buffer and its
  semaphore as long as this task holds it.
\<close>

definition leaves :: "u32 \<Rightarrow> site \<Rightarrow> site \<Rightarrow> bool" where
  "leaves task s s' \<longleftrightarrow>
     ffs_inv (st_fs s') \<and> fs_descs (st_fs s') = fs_descs (st_fs s) \<and> length (fs_pool (st_fs s')) = length (fs_pool (st_fs s)) \<and>
     (\<forall>i < length (fs_pool (st_fs s)). ff_used (fs_pool (st_fs s) ! i) \<and> ff_task_id (fs_pool (st_fs s) ! i) = unat task \<longrightarrow>
        fs_pool (st_fs s') ! i = fs_pool (st_fs s) ! i) \<and>
     length (st_fbuf s') = length (st_fbuf s) \<and>
     (st_sem s = task \<longrightarrow> st_sem s' = task \<and> st_fbuf s' = st_fbuf s)"

definition polite :: "u32 \<Rightarrow> 'w others \<Rightarrow> bool" where
  "polite task others \<longleftrightarrow> (\<forall>v s. ffs_inv (st_fs s) \<longrightarrow> leaves task s (others v s))"

text \<open>The other tasks give the buffer back within \<open>n\<close> rounds.\<close>

definition gives_back :: "nat \<Rightarrow> u32 \<Rightarrow> 'w others \<Rightarrow> bool" where
  "gives_back n task others \<longleftrightarrow> (\<forall>v s. list_ex (\<lambda>k. st_sem ((others v ^^ k) s) \<in> {0, task}) [0..<n])"

text \<open>The file that this task has open, with the position in it.\<close>

definition site_own :: "u32 \<Rightarrow> nat \<Rightarrow> ffs_file_desc \<Rightarrow> u32 \<Rightarrow> site \<Rightarrow> bool" where
  "site_own task fp d pos s \<longleftrightarrow>
     ffs_inv (st_fs s) \<and> is_open (st_fs s) fp \<and> ff_task_id (fs_pool (st_fs s) ! fp) = unat task \<and>
     ff_mode (fs_pool (st_fs s) ! fp) = FFS_MODE_R \<and> desc_of (st_fs s) fp = d \<and> pos_of (st_fs s) fp = pos \<and>
     length (st_fbuf s) = 1024"

definition site_held :: "u32 \<Rightarrow> nat \<Rightarrow> ffs_file_desc \<Rightarrow> u32 \<Rightarrow> bytes \<Rightarrow> site \<Rightarrow> bool" where
  "site_held task fp d pos buf s \<longleftrightarrow> site_own task fp d pos s \<and> st_sem s = task \<and> st_fbuf s = buf"

lemma polite_own:
  assumes "polite task others" "site_own task fp d pos s"
  shows "site_own task fp d pos (others v s)"
proof -
  have l: "leaves task s (others v s)" using assms by (simp add: polite_def site_own_def)
  have lt: "fp < length (fs_pool (st_fs s))" "ff_used (fs_pool (st_fs s) ! fp)" using assms(2) by (auto simp: site_own_def is_open_def)
  then have "fs_pool (st_fs (others v s)) ! fp = fs_pool (st_fs s) ! fp" using l assms(2) by (simp add: leaves_def site_own_def)
  then show ?thesis using l assms(2) lt by (simp add: leaves_def site_own_def is_open_def)
qed

lemma polite_held: "polite task others \<Longrightarrow> site_held task fp d pos buf s \<Longrightarrow> site_held task fp d pos buf (others v s)"
  using polite_own [of task others fp d pos s v] by (auto simp: site_held_def polite_def leaves_def site_own_def)

lemma polite_own_pow: "polite task others \<Longrightarrow> site_own task fp d pos s \<Longrightarrow> site_own task fp d pos ((others v ^^ k) s)"
  by (induction k) (auto intro: polite_own)

text \<open>A connection of one task keeps its contract beside the others, with any property of the site that the others keep.\<close>

lemma on_net_Some: "on_net others m w = Some (r, w') \<longleftrightarrow> (\<exists>v. m (wn_net w) = Some (r, v) \<and> w' = \<lparr>wn_net = v, wn_site = others v (wn_site w)\<rparr>)"
  by (auto simp: on_net_def split: option.splits)

context wire_sock begin

lemma site_wire:
  assumes keep: "\<And>v s. P s \<Longrightarrow> P (others v s)"
  shows "wire_sock (site_funcs others sf) (\<lambda>w. ok (wn_net w) \<and> P (wn_site w)) (\<lambda>w. inp (wn_net w)) (\<lambda>w. outp (wn_net w)) (\<lambda>w. room (wn_net w))"
proof (intro wire_sock.intro stream_sock.intro wire_sock_axioms.intro, goal_cases)
  case (1 w n t ec d w') then show ?case using recv_ok keep by (auto simp: site_funcs_def on_net_Some)
next
  case (2 w n t ec d w') then show ?case using recv_data by (fastforce simp: site_funcs_def on_net_Some)
next
  case (3 w n t ec d w') then show ?case using recv_none by (fastforce simp: site_funcs_def on_net_Some)
next
  case (4 w n t e w') then show ?case using recv_safe by (auto simp: site_funcs_def on_net_Some)
next
  case (5 w n p t e w') then show ?case using send_safe by (auto simp: site_funcs_def on_net_Some)
next
  case (6 w n p t ec w') then show ?case using send_ok keep by (fastforce simp: site_funcs_def on_net_Some)
next
  case (7 w n p t ec w') then show ?case using send_all by (fastforce simp: site_funcs_def on_net_Some)
next
  case (8 w n t ec d w') then show ?case using recv_inp by (fastforce simp: site_funcs_def on_net_Some)
next
  case (9 w n t) then show ?case using recv_now [of "wn_net w" n t] by (auto simp: site_funcs_def on_net_Some)
next
  case (10 w) then show ?case using recv_empty [of "wn_net w"] by (auto simp: site_funcs_def on_net_Some)
next
  case (11 w n p t ec w') then show ?case using send_outp by (fastforce simp: site_funcs_def on_net_Some)
next
  case (12 w n p t ec w') then show ?case using send_err by (fastforce simp: site_funcs_def on_net_Some)
next
  case (13 w n p t) then show ?case using send_now [of "wn_net w" n p t] by (auto simp: site_funcs_def on_net_Some)
qed

end

text \<open>The contents of a file.\<close>

definition fd_bytes :: "ffs_file_desc \<Rightarrow> bytes" where
  "fd_bytes d = take (unat (fd_size d)) (fd_ptr d)"

lemma site_own_bounds:
  assumes "site_own task fp d pos s"
  shows "pos \<le> fd_size d" "length (fd_bytes d) = unat (fd_size d)" "unat (fd_size d) < 2 ^ 31"
  using assms ffs_inv_open [of "st_fs s" fp] by (auto simp: site_own_def desc_ok_def fd_bytes_def)

lemma set_pos_own:
  assumes "site_own task fp d pos s" "p \<le> fd_size d" "length buf = 1024"
  shows "site_own task fp d p (s\<lparr>st_fbuf := buf, st_fs := set_pos fp p (st_fs s)\<rparr>)"
proof -
  have lt: "fp < length (fs_pool (st_fs s))" using assms(1) by (simp add: site_own_def is_open_def)
  have "ffs_inv (set_pos fp p (st_fs s))" using assms set_pos_inv [of "st_fs s" fp p] by (simp add: site_own_def)
  moreover have "ff_task_id (fs_pool (set_pos fp p (st_fs s)) ! fp) = ff_task_id (fs_pool (st_fs s) ! fp)"
    using lt by (simp add: set_pos_def)
  ultimately show ?thesis using assms lt by (simp add: site_own_def)
qed

lemma read_fbuf_ok:
  assumes "site_own task fp d pos (wn_site w)" "unat n \<le> 1024"
  defines "m \<equiv> min (unat n) (unat (fd_size d) - unat pos)"
  shows "\<exists>w' buf. read_fbuf (Some fp) n w = Some (Inr (int m), w') \<and> wn_net w' = wn_net w \<and> st_sem (wn_site w') = st_sem (wn_site w) \<and>
    site_own task fp d (pos + of_nat m) (wn_site w') \<and> st_fbuf (wn_site w') = buf \<and> take m buf = take m (drop (unat pos) (fd_bytes d))"
proof -
  let ?s = "wn_site w"
  note o = assms(1)[unfolded site_own_def]
  have b: "length (st_fbuf ?s) = 1024" "ffs_inv (st_fs ?s)" "is_open (st_fs ?s) fp" "desc_of (st_fs ?s) fp = d" "pos_of (st_fs ?s) fp = pos"
    using o by auto
  have r: "FFS_Read (Some fp) (st_fbuf ?s) n (st_fs ?s) =
      Inr (int m, take m (drop (unat pos) (fd_ptr d)) @ drop m (st_fbuf ?s), set_pos fp (pos + of_nat m) (st_fs ?s))"
    using FFS_Read_ok [of "st_fs ?s" fp n "st_fbuf ?s"] o assms(2) by (simp add: FFS_MODE_R_def m_def)
  note bd = site_own_bounds [OF assms(1)]
  have mz: "m \<le> unat (fd_size d) - unat pos" "m \<le> 1024" using assms(2) by (auto simp: m_def)
  then have "unat (pos + of_nat m) = unat pos + m"
    using bd by (subst unat_u32_add) (auto simp: unat_of_nat take_bit_nat_eq_self word_le_nat_alt)
  then have le: "pos + of_nat m \<le> fd_size d" using mz bd(1) by (simp add: word_le_nat_alt)
  have l: "unat (fd_size d) \<le> length (fd_ptr d)" using bd(2) by (simp add: fd_bytes_def)
  have m1: "m \<le> length (fd_ptr d) - unat pos" using mz l by linarith
  then have t: "take m (take m (drop (unat pos) (fd_ptr d)) @ drop m (st_fbuf ?s)) = take m (drop (unat pos) (fd_bytes d))"
    using mz(1) by (simp add: fd_bytes_def drop_take)
  have "length (take m (drop (unat pos) (fd_ptr d)) @ drop m (st_fbuf ?s)) = 1024" using b(1) m1 mz(2) by simp
  from set_pos_own [OF assms(1) le this] r t show ?thesis by (simp add: read_fbuf_def)
qed

section \<open>A file is served\<close>

lemma sends_site:
  "sends (\<lambda>w. ok (wn_net w) \<and> P (wn_site w)) (\<lambda>w. inp (wn_net w)) (\<lambda>w. outp (wn_net w)) (\<lambda>w. room (wn_net w)) bs w w' \<longleftrightarrow>
     sends ok inp outp room bs (wn_net w) (wn_net w') \<and> P (wn_site w')"
  by (auto simp: sends_def)

context wire_sock begin

lemma site_SendHeaderField:
  assumes "\<And>v s. P s \<Longrightarrow> P (others v s)" "ok (wn_net w)" "P (wn_site w)"
    and "rq_state req = HTTP_STATE_SEND_FIELDS" "0 \<le> t" "field_text pd name arg = Some bs" "length bs \<le> room (wn_net w)"
  shows "\<exists>w'. UHTTPSrv_SendHeaderField pd (site_funcs others sf) t req name [arg] w = Some (Inr (EOK, req), w') \<and>
    sends ok inp outp room bs (wn_net w) (wn_net w') \<and> P (wn_site w')"
  using wire_sock.SendHeaderField_sends [OF site_wire [of P others, OF assms(1)], of w req t pd name arg bs] assms(2-) by (auto simp: sends_site)

lemma body_loop_ok:
  assumes "polite task others" "0 \<le> t"
    and "ok (wn_net w)" "site_own task fp d pos (wn_site w)" "st_sem (wn_site w) = task"
    and "rq_resp_bleft req = fd_size d - pos" "rq_state req = (if fd_size d = pos then HTTP_STATE_DONE else HTTP_STATE_SEND_BODY)"
    and "unat (fd_size d) - unat pos \<le> 1024 * fuel" "unat (fd_size d) - unat pos \<le> room (wn_net w)"
  shows "\<exists>req' w'. site_body_loop (Suc fuel) (site_funcs others sf) t (Some fp) (fd_size d - pos) req w = Some (Inr (None, req'), w') \<and>
    rq_state req' = HTTP_STATE_DONE \<and> sends ok inp outp room (drop (unat pos) (fd_bytes d)) (wn_net w) (wn_net w') \<and>
    site_own task fp d (fd_size d) (wn_site w') \<and> st_sem (wn_site w') = task"
  using assms(3-)
proof (induction fuel arbitrary: pos req w)
  case 0
  note b = site_own_bounds [OF "0.prems"(2)]
  have "fd_size d = pos" using "0.prems"(6) b(1) by (simp add: word_le_nat_alt word_unat_eq_iff)
  then show ?case using "0.prems" b(2) by (auto simp: sends_def aret_def site_body_loop.simps)
next
  case (Suc fuel)
  note b = site_own_bounds [OF Suc.prems(2)]
  show ?case
  proof (cases "fd_size d = pos")
    case True
    then show ?thesis using Suc.prems b(2) by (auto simp: sends_def aret_def site_body_loop.simps)
  next
    case False
    let ?S = "site_funcs others sf" and ?z = "unat (fd_size d)" and ?p = "unat pos"
    have lt: "?p < ?z" using False b(1) by (simp add: word_le_nat_alt word_unat_eq_iff)
    define m where "m = min 1024 (?z - ?p)"
    have m: "0 < m" "m \<le> 1024" "m \<le> ?z - ?p" using lt by (auto simp: m_def)
    define n :: u32 where "n = of_nat m"
    have n: "unat n = m" "n \<noteq> 0" using m by (auto simp: n_def unat_of_nat take_bit_nat_eq_self word_unat_eq_iff)
    obtain w1 buf where w1: "read_fbuf (Some fp) 1024 w = Some (Inr (int m), w1)" "wn_net w1 = wn_net w" "st_sem (wn_site w1) = task"
        "site_own task fp d (pos + n) (wn_site w1)" "st_fbuf (wn_site w1) = buf" "take m buf = take m (drop ?p (fd_bytes d))"
      using read_fbuf_ok [OF Suc.prems(2), of 1024] Suc.prems(3) by (auto simp: m_def n_def)
    have h: "site_held task fp d (pos + n) buf (wn_site w1)" using w1 by (simp add: site_held_def)
    have buf: "length buf = 1024" using w1(4,5) by (simp add: site_own_def)
    have "unat (fd_size d - pos) = ?z - ?p" using b(1) by (rule unat_u32_sub)
    then have bl: "rq_resp_bleft req - n = fd_size d - (pos + n)" "n \<le> rq_resp_bleft req" "rq_resp_bleft req = n \<longleftrightarrow> fd_size d = pos + n"
      using Suc.prems(4) m(3) n(1) by (simp_all add: diff_diff_eq word_le_nat_alt) (metis add.commute diff_eq_eq)
    define req1 where "req1 = req\<lparr>rq_resp_bleft := rq_resp_bleft req - n,
          rq_state := (if rq_resp_bleft req = n then HTTP_STATE_DONE else HTTP_STATE_SEND_BODY)\<rparr>"
    have "m \<le> room (wn_net w1)" "rq_state req = HTTP_STATE_SEND_BODY" "ok (wn_net w1)" "unat n \<le> length buf"
      using Suc.prems False w1(2) m buf n(1) by simp_all
    then obtain w2 where w2: "UHTTPSrc_SendBody ?S t req buf n w1 = Some (Inr (int m, req1), w2)"
        "sends ok inp outp room (take m buf) (wn_net w) (wn_net w2)" "site_held task fp d (pos + n) buf (wn_site w2)"
      using wire_sock.SendBody_sends [OF site_wire [of "site_held task fp d (pos + n) buf" others, OF polite_held [OF assms(1)]],
          of w1 t req n buf] h w1(2) n bl(2) assms(2) unfolding sends_site req1_def by auto
    have pn: "unat (pos + n) = ?p + m" using b m n lt by (subst unat_u32_add) auto
    have "length (take m buf) = m" using buf m by simp
    then have w2': "ok (wn_net w2)" "room (wn_net w) \<le> room (wn_net w2) + m" "site_own task fp d (pos + n) (wn_site w2)" "st_sem (wn_site w2) = task"
      using w2(2,3) by (simp_all add: sends_def site_held_def)
    have rq: "rq_resp_bleft req1 = fd_size d - (pos + n)"
        "rq_state req1 = (if fd_size d = pos + n then HTTP_STATE_DONE else HTTP_STATE_SEND_BODY)"
      using bl by (simp_all add: req1_def)
    have k: "?z - unat (pos + n) \<le> 1024 * fuel" "?z - unat (pos + n) \<le> room (wn_net w2)"
      using Suc.prems(6,7) pn w2'(2) by (auto simp: m_def)
    obtain req' w' where r: "site_body_loop (Suc fuel) ?S t (Some fp) (fd_size d - (pos + n)) req1 w2 = Some (Inr (None, req'), w')"
        "rq_state req' = HTTP_STATE_DONE" "sends ok inp outp room (drop (?p + m) (fd_bytes d)) (wn_net w2) (wn_net w')"
        "site_own task fp d (fd_size d) (wn_site w')" "st_sem (wn_site w') = task"
      using Suc.IH [OF w2'(1,3,4) rq k] unfolding pn by blast
    have "drop ?p (fd_bytes d) = take m buf @ drop (?p + m) (fd_bytes d)"
      using w1(6) by (metis add.commute append_take_drop_id drop_drop)
    then have s: "sends ok inp outp room (drop ?p (fd_bytes d)) (wn_net w) (wn_net w')" using sends_trans [OF w2(2) r(3)] by simp
    have "word_of_int (int m) = n" by (simp add: n_def)
    then have "site_body_loop (Suc (Suc fuel)) ?S t (Some fp) (fd_size d - pos) req w = Some (Inr (None, req'), w')"
      using r(1) w1 w2(1) m(1) False by (subst site_body_loop.simps(2)) (simp add: abind_def aget_def EOK_def diff_diff_eq)
    then show ?thesis using r s by blast
  qed
qed

end

lemma file_head_lines:
  assumes "file_head pd n gz mime = Some h"
  obtains l0 l1 l2 l3 l4 l5 lg l6 where
    "ok_status_text pd = Some l0" "field_text pd HTTP_FIELD_NAME_CONTENT_LENGTH (VInt n) = Some l1"
    "field_text pd HTTP_FIELD_NAME_SERVER (VStr (lit ''uHTTP'')) = Some l2"
    "field_text pd HTTP_FIELD_NAME_CONNECTION (VStr (lit ''keep-alive'')) = Some l3"
    "field_text pd HTTP_FIELD_NAME_ACCESS_CONTROL_ALLOW_ORIGIN (VStr (lit ''*'')) = Some l4"
    "field_text pd HTTP_FIELD_NAME_CONNECTION (VStr (lit ''close'')) = Some l5"
    "if gz then field_text pd HTTP_FIELD_NAME_CONTENT_ENCODING (VStr (lit ''gzip'')) = Some lg else lg = []"
    "field_text pd HTTP_FIELD_NAME_CONTENT_TYPE (VStr mime) = Some l6"
    "h = (l0 @ l1 @ l2 @ l3 @ l4) @ l4 @ l5 @ lg @ l6 @ CRLF"
proof (cases gz)
  case True
  then show thesis using assms that by (auto simp: file_head_def split: option.splits)
next
  case False
  then show thesis using assms that [where lg = "[]"] by (auto simp: file_head_def split: option.splits)
qed

lemma site_own_sem [simp]: "site_own task fp d pos (s\<lparr>st_sem := x\<rparr>) = site_own task fp d pos s"
  by (simp add: site_own_def)

lemma fbuf_lock_ok:
  assumes "polite task others" "k < fuel" "st_sem ((others (wn_net w) ^^ k) (wn_site w)) \<in> {0, task}" "site_own task fp d pos (wn_site w)"
  shows "\<exists>w'. fbuf_lock fuel others task w = Some (Inr (), w') \<and> wn_net w' = wn_net w \<and> site_own task fp d pos (wn_site w') \<and>
    st_sem (wn_site w') = task"
  using assms(2-)
proof (induction fuel arbitrary: w k)
  case (Suc fuel)
  show ?case
  proof (cases "st_sem (wn_site w) = 0 \<or> st_sem (wn_site w) = task")
    case True
    then show ?thesis using Suc.prems(3) by (auto simp: aret_def)
  next
    case False
    then obtain j where j: "k = Suc j" using Suc.prems(2) by (cases k) auto
    let ?w = "w\<lparr>wn_site := others (wn_net w) (wn_site w)\<rparr>"
    have "site_own task fp d pos (wn_site ?w)" using polite_own [OF assms(1) Suc.prems(3)] by simp
    then have "\<exists>w'. fbuf_lock fuel others task ?w = Some (Inr (), w') \<and> wn_net w' = wn_net ?w \<and> site_own task fp d pos (wn_site w') \<and>
        st_sem (wn_site w') = task"
      using Suc.prems(1,2) j by (intro Suc.IH [of j]) (simp_all add: funpow_swap1)
    then show ?thesis using False by simp
  qed
qed simp

lemma site_seek_start:
  assumes "site_own task fp d pos s"
  shows "FFS_Seek (Some fp) 0 FFS_SEEK_SET (st_fs s) = (EOK, set_pos fp 0 (st_fs s))" "site_own task fp d 0 (s\<lparr>st_fs := set_pos fp 0 (st_fs s)\<rparr>)"
proof -
  have "s\<lparr>st_fbuf := st_fbuf s\<rparr> = s" by simp
  then show "site_own task fp d 0 (s\<lparr>st_fs := set_pos fp 0 (st_fs s)\<rparr>)"
    using set_pos_own [OF assms, of 0 "st_fbuf s"] assms by (metis site_own_def word_zero_le)
qed (simp add: FFS_Seek_def)

context wire_sock begin

lemma site_gzip_ok:
  assumes "polite task others" "0 \<le> t"
    and "ok (wn_net w)" "site_own task fp d 0 (wn_site w)" "st_sem (wn_site w) = task" "fd_size d = 0 \<or> 3 \<le> unat (fd_size d)"
    and "rq_state req = HTTP_STATE_SEND_FIELDS" "gz = (take 3 (fd_bytes d) = [0x1f, 0x8b, 8])"
    and "if gz then field_text pd HTTP_FIELD_NAME_CONTENT_ENCODING (VStr (lit ''gzip'')) = Some l else l = []" "length l \<le> room (wn_net w)"
  shows "\<exists>w'. site_gzip pd (site_funcs others sf) t (Some fp) req w = Some (Inr req, w') \<and>
    sends ok inp outp room l (wn_net w) (wn_net w') \<and> site_own task fp d 0 (wn_site w') \<and> st_sem (wn_site w') = task"
proof -
  let ?S = "site_funcs others sf"
  define m where "m = min 3 (unat (fd_size d))"
  note b = site_own_bounds [OF assms(4)]
  obtain w1 buf where w1: "read_fbuf (Some fp) 3 w = Some (Inr (int m), w1)" "wn_net w1 = wn_net w" "st_sem (wn_site w1) = task"
      "site_own task fp d (of_nat m) (wn_site w1)" "st_fbuf (wn_site w1) = buf" "take m buf = take m (fd_bytes d)"
    using read_fbuf_ok [OF assms(4), of 3] assms(5) by (auto simp: m_def)
  show ?thesis
  proof (cases "fd_size d = 0")
    case True
    then have "m = 0" "\<not> gz" using assms(8) b(2) by (auto simp: m_def)
    then show ?thesis using w1 assms(3,9) by (auto simp: site_gzip_def abind_def aret_def sends_def)
  next
    case False
    then have m: "m = 3" using assms(6) by (auto simp: m_def)
    have h: "site_held task fp d 3 buf (wn_site w1)" using w1 m by (simp add: site_held_def)
    have g: "gz \<longleftrightarrow> take 3 buf = [0x1f, 0x8b, 8]" using assms(8) w1(6) m by simp
    obtain w2 where w2: "(if take 3 buf = [0x1f, 0x8b, 8]
          then abind (UHTTPSrv_SendHeaderField pd ?S t req HTTP_FIELD_NAME_CONTENT_ENCODING [VStr (lit ''gzip'')]) (\<lambda>(_, req). aret req)
          else aret req) w1 = Some (Inr req, w2)"
        "sends ok inp outp room l (wn_net w) (wn_net w2)" "site_held task fp d 3 buf (wn_site w2)"
    proof (cases gz)
      case True
      then obtain w2 where "UHTTPSrv_SendHeaderField pd ?S t req HTTP_FIELD_NAME_CONTENT_ENCODING [VStr (lit ''gzip'')] w1 = Some (Inr (EOK, req), w2)"
          "sends ok inp outp room l (wn_net w1) (wn_net w2)" "site_held task fp d 3 buf (wn_site w2)"
        using site_SendHeaderField [of "site_held task fp d 3 buf" others, OF polite_held [OF assms(1)], of w1 req t pd
            HTTP_FIELD_NAME_CONTENT_ENCODING "VStr (lit ''gzip'')" l] assms(2,3,7,9,10) w1(2) h by auto
      then show thesis using that [of w2] True g w1(2) by (simp add: abind_def aret_def)
    next
      case False
      then show thesis using that [of w1] g w1(2) h assms(3,9) by (simp add: sends_def aret_def)
    qed
    let ?s = "(wn_site w2)\<lparr>st_fs := set_pos fp 0 (st_fs (wn_site w2))\<rparr>"
    have o2: "site_own task fp d 3 (wn_site w2)" "st_sem (wn_site w2) = task" using w2(3) by (simp_all add: site_held_def)
    have "on_fs (\<lambda>fs. Inr (FFS_Seek (Some fp) 0 FFS_SEEK_SET fs)) w2 = Some (Inr EOK, w2\<lparr>wn_site := ?s\<rparr>)"
      using site_seek_start(1) [OF o2(1)] by (simp add: on_fs_def)
    then have "site_gzip pd ?S t (Some fp) req w = Some (Inr req, w2\<lparr>wn_site := ?s\<rparr>)"
      using w1(1,5) w2(1) m unfolding site_gzip_def abind_def aget_def by (simp add: aret_def)
    then show ?thesis using w2(2) o2(2) site_seek_start(2) [OF o2(1)] by simp
  qed
qed

end

lemma abind_run: "m w = Some (Inr x, v) \<Longrightarrow> abind m f w = f x v"
  by (simp add: abind_def)

declare fbuf_lock.simps [simp del]

lemma site_open_own:
  assumes "ffs_inv (st_fs s)" "length (st_fbuf s) = 1024"
    and "FFS_Open (unat task) (Some name) FFS_MODE_R (st_fs s) = Inr (Some fp, fs1)"
  shows "site_own task fp (desc_of fs1 fp) 0 (s\<lparr>st_fs := fs1\<rparr>)"
proof -
  note o = FFS_Open_Some [OF assms(1,3)]
  have "ff_task_id (fs_pool fs1 ! fp) = unat task"
    using assms(3) o(1) by (auto simp: FFS_Open_def bind_res_eq_Inr Let_def is_open_def split: if_splits option.splits)
  then show ?thesis using o FFS_Open_inv [OF assms(1,3)] assms(2) by (simp add: site_own_def)
qed

lemma site_close:
  assumes "site_own task fp d pos (wn_site w)"
  shows "\<exists>w'. on_fs (\<lambda>fs. Inr (FFS_Close (Some fp) fs)) w = Some (Inr EOK, w') \<and> wn_net w' = wn_net w \<and>
    \<not> is_open (st_fs (wn_site w')) fp \<and> st_sem (wn_site w') = st_sem (wn_site w)"
  using assms by (simp add: on_fs_def FFS_Close_def site_own_def is_open_def)

context wire_sock begin

lemma site_EndHeader:
  assumes "\<And>v s. P s \<Longrightarrow> P (others v s)" "ok (wn_net w)" "P (wn_site w)" "rq_state req = HTTP_STATE_SEND_FIELDS" "0 \<le> t" "2 \<le> room (wn_net w)"
  shows "\<exists>w'. UHTTPSrv_EndHeader (site_funcs others sf) t req w =
      Some (Inr (EOK, req\<lparr>rq_state := (if rq_resp_bleft req \<noteq> 0 then HTTP_STATE_SEND_BODY else HTTP_STATE_DONE)\<rparr>), w') \<and>
    sends ok inp outp room CRLF (wn_net w) (wn_net w') \<and> P (wn_site w')"
  using wire_sock.EndHeader_sends [OF site_wire [of P others, OF assms(1)], of w t req] assms(2-) unfolding sends_site by blast

text \<open>The part of the callback that holds the buffer.\<close>

lemma site_guarded_ok:
  assumes "polite task others" "gives_back (Suc n) task others" "0 \<le> t"
    and "ok (wn_net w)" "site_own task fp d 0 (wn_site w)" "fd_size d = 0 \<or> 3 \<le> unat (fd_size d)"
    and "rq_state req = HTTP_STATE_SEND_FIELDS" "rq_resp_bleft req = fd_size d" "gz = (take 3 (fd_bytes d) = [0x1f, 0x8b, 8])"
    and "if gz then field_text pd HTTP_FIELD_NAME_CONTENT_ENCODING (VStr (lit ''gzip'')) = Some lg else lg = []"
    and "HTTPSrvWebsite_GetMimeTypeForFileExt (Some fname) = Inr mime" "field_text pd HTTP_FIELD_NAME_CONTENT_TYPE (VStr mime) = Some lm"
    and "unat (fd_size d) \<le> 1024 * n" "length (lg @ lm @ CRLF @ fd_bytes d) \<le> room (wn_net w)"
  shows "\<exists>req' w'. with_fbuf (Suc n) others task (
       abind (site_gzip pd (site_funcs others sf) t (Some fp) req) (\<lambda>req.
       abind (alift (HTTPSrvWebsite_GetMimeTypeForFileExt (Some fname))) (\<lambda>mime_type.
       abind (UHTTPSrv_SendHeaderField pd (site_funcs others sf) t req HTTP_FIELD_NAME_CONTENT_TYPE [VStr mime_type]) (\<lambda>(_, req).
       abind (UHTTPSrv_EndHeader (site_funcs others sf) t req) (\<lambda>(ec, req).
       if ec \<noteq> EOK then aret (None, req) else site_body_loop (Suc n) (site_funcs others sf) t (Some fp) (fd_size d) req))))) w =
      Some (Inr (None, req'), w') \<and> rq_state req' = HTTP_STATE_DONE \<and>
    sends ok inp outp room (lg @ lm @ CRLF @ fd_bytes d) (wn_net w) (wn_net w') \<and>
    site_own task fp d (fd_size d) (wn_site w') \<and> st_sem (wn_site w') = 0"
proof -
  let ?S = "site_funcs others sf"
  let ?P = "\<lambda>s. site_own task fp d 0 s \<and> st_sem s = task"
  have P: "?P (others v s)" if "?P s" for v s
    using that polite_held [OF assms(1), of fp d 0 "st_fbuf s" s v] by (simp add: site_held_def)
  obtain k where k: "k < Suc n" "st_sem ((others (wn_net w) ^^ k) (wn_site w)) \<in> {0, task}"
    using assms(2) unfolding gives_back_def list_ex_iff by fastforce
  obtain w0 where w0: "fbuf_lock (Suc n) others task w = Some (Inr (), w0)" "wn_net w0 = wn_net w" "site_own task fp d 0 (wn_site w0)"
      "st_sem (wn_site w0) = task"
    using fbuf_lock_ok [OF assms(1) k assms(5)] by blast
  have ok0: "ok (wn_net w0)" and r0: "length lg \<le> room (wn_net w0)" using assms(4,14) w0(2) by simp_all
  obtain w1 where w1: "site_gzip pd ?S t (Some fp) req w0 = Some (Inr req, w1)" "sends ok inp outp room lg (wn_net w0) (wn_net w1)"
      "site_own task fp d 0 (wn_site w1)" "st_sem (wn_site w1) = task"
    using site_gzip_ok [OF assms(1,3) ok0 w0(3,4) assms(6,7,9,10) r0] by blast
  have ok1: "ok (wn_net w1)" and P1: "?P (wn_site w1)" and r1: "length lm \<le> room (wn_net w1)"
    using assms(14) w0(2) w1(2-4) by (simp_all add: sends_def)
  obtain w2 where w2: "UHTTPSrv_SendHeaderField pd ?S t req HTTP_FIELD_NAME_CONTENT_TYPE [VStr mime] w1 = Some (Inr (EOK, req), w2)"
      "sends ok inp outp room lm (wn_net w1) (wn_net w2)" "?P (wn_site w2)"
    using site_SendHeaderField [of ?P others, OF P ok1 P1 assms(7,3,12) r1] by blast
  let ?req = "req\<lparr>rq_state := (if rq_resp_bleft req \<noteq> 0 then HTTP_STATE_SEND_BODY else HTTP_STATE_DONE)\<rparr>"
  have r2: "2 + length (fd_bytes d) \<le> room (wn_net w2)" and ok2: "ok (wn_net w2)"
    using assms(14) w0(2) w1(2) w2(2) by (auto simp: sends_def CRLF_def)
  obtain w3 where w3: "UHTTPSrv_EndHeader ?S t req w2 = Some (Inr (EOK, ?req), w3)" "sends ok inp outp room CRLF (wn_net w2) (wn_net w3)" "?P (wn_site w3)"
    using site_EndHeader [of ?P others, OF P ok2 w2(3) assms(7,3) add_leD1 [OF r2]] by blast
  have ok3: "ok (wn_net w3)" and r3: "length (fd_bytes d) \<le> room (wn_net w3)" using r2 w3(2) by (auto simp: sends_def CRLF_def)
  have z: "length (fd_bytes d) = unat (fd_size d)" using site_own_bounds(2) [OF assms(5)] .
  have rq: "rq_resp_bleft ?req = fd_size d - 0" "rq_state ?req = (if fd_size d = 0 then HTTP_STATE_DONE else HTTP_STATE_SEND_BODY)"
    using assms(8) by simp_all
  have "unat (fd_size d) - unat (0 :: u32) \<le> 1024 * n" "unat (fd_size d) - unat (0 :: u32) \<le> room (wn_net w3)" using assms(13) r3 z by simp_all
  from body_loop_ok [OF assms(1,3) ok3 conjunct1 [OF w3(3)] conjunct2 [OF w3(3)] rq this]
  obtain req' w4 where w4: "site_body_loop (Suc n) ?S t (Some fp) (fd_size d) ?req w3 = Some (Inr (None, req'), w4)"
      "rq_state req' = HTTP_STATE_DONE" "sends ok inp outp room (fd_bytes d) (wn_net w3) (wn_net w4)"
      "site_own task fp d (fd_size d) (wn_site w4)" by auto
  have s: "sends ok inp outp room (lg @ lm @ CRLF @ fd_bytes d) (wn_net w) (wn_net w4)"
    using sends_trans [OF w1(2) sends_trans [OF w2(2) sends_trans [OF w3(2) w4(3)]]] w0(2) by simp
  let ?body = "abind (site_gzip pd ?S t (Some fp) req) (\<lambda>req.
       abind (alift (HTTPSrvWebsite_GetMimeTypeForFileExt (Some fname))) (\<lambda>mime_type.
       abind (UHTTPSrv_SendHeaderField pd ?S t req HTTP_FIELD_NAME_CONTENT_TYPE [VStr mime_type]) (\<lambda>(_, req).
       abind (UHTTPSrv_EndHeader ?S t req) (\<lambda>(ec, req).
       if ec \<noteq> EOK then aret (None, req) else site_body_loop (Suc n) ?S t (Some fp) (fd_size d) req))))"
  have "?body w0 = Some (Inr (None, req'), w4)"
    using w4(1) by (simp add: abind_run [of "site_gzip pd ?S t (Some fp) req" w0, OF w1(1)] assms(11) abind_run [of "UHTTPSrv_SendHeaderField pd ?S t req HTTP_FIELD_NAME_CONTENT_TYPE [VStr mime]" w1, OF w2(1)] abind_run [of "UHTTPSrv_EndHeader ?S t req" w2, OF w3(1)] del: if_cancel split del: if_split)
  note run = abind_run [of ?body w0, OF this]
  have "with_fbuf (Suc n) others task ?body w = Some (Inr (None, req'), w4\<lparr>wn_site := (wn_site w4)\<lparr>st_sem := 0\<rparr>\<rparr>)"
    unfolding with_fbuf_def abind_run [of "fbuf_lock (Suc n) others task" w, OF w0(1)] run by (simp add: abind_def fbuf_release_def aret_def)
  then show ?thesis using s w4(2,4)
    by (intro exI [of _ req'] exI [of _ "w4\<lparr>wn_site := (wn_site w4)\<lparr>st_sem := 0\<rparr>\<rparr>"] conjI) simp_all
qed

lemma CallbackFiles_ok:
  assumes "polite task others" "gives_back (Suc n) task others" "0 \<le> t"
    and "ok (wn_net w)" "ffs_inv (st_fs (wn_site w))" "length (st_fbuf (wn_site w)) = 1024" "rq_state req \<noteq> HTTP_STATE_ERROR"
    and "site_name (rq_url req) = Inr fname" "FFS_Open (unat task) (Some fname) FFS_MODE_R (st_fs (wn_site w)) = Inr (Some fp, fs1)"
    and "d = desc_of fs1 fp" "fd_size d = 0 \<or> 3 \<le> unat (fd_size d)" "unat (fd_size d) \<le> 1024 * n"
    and "HTTPSrvWebsite_GetMimeTypeForFileExt (Some fname) = Inr mime"
    and "file_head pd (fd_size d) (take 3 (fd_bytes d) = [0x1f, 0x8b, 8]) mime = Some h" "length (h @ fd_bytes d) \<le> room (wn_net w)"
  shows "\<exists>req' w'. HTTPSrvWebsite_CallbackFiles (Suc n) pd others (site_funcs others sf) t task req w = Some (Inr (EOK, req'), w') \<and>
    rq_state req' = HTTP_STATE_DONE \<and> sends ok inp outp room (h @ fd_bytes d) (wn_net w) (wn_net w') \<and>
    \<not> is_open (st_fs (wn_site w')) fp \<and> st_sem (wn_site w') = 0"
proof -
  let ?S = "site_funcs others sf" and ?P = "site_own task fp d 0"
  obtain l0 l1 l2 l3 l4 l5 lg l6 where l: "ok_status_text pd = Some l0" "field_text pd HTTP_FIELD_NAME_CONTENT_LENGTH (VInt (fd_size d)) = Some l1"
    "field_text pd HTTP_FIELD_NAME_SERVER (VStr (lit ''uHTTP'')) = Some l2"
    "field_text pd HTTP_FIELD_NAME_CONNECTION (VStr (lit ''keep-alive'')) = Some l3"
    "field_text pd HTTP_FIELD_NAME_ACCESS_CONTROL_ALLOW_ORIGIN (VStr (lit ''*'')) = Some l4"
    "field_text pd HTTP_FIELD_NAME_CONNECTION (VStr (lit ''close'')) = Some l5"
    and lg: "if take 3 (fd_bytes d) = [0x1f, 0x8b, 8] then field_text pd HTTP_FIELD_NAME_CONTENT_ENCODING (VStr (lit ''gzip'')) = Some lg else lg = []"
    and l6: "field_text pd HTTP_FIELD_NAME_CONTENT_TYPE (VStr mime) = Some l6"
    and h: "h = (l0 @ l1 @ l2 @ l3 @ l4) @ l4 @ l5 @ lg @ l6 @ CRLF"
    using file_head_lines [OF assms(14)] by blast
  let ?w = "w\<lparr>wn_site := (wn_site w)\<lparr>st_fs := fs1\<rparr>\<rparr>"
  have o: "?P (wn_site ?w)" using site_open_own [OF assms(5,6,9)] assms(10) by simp
  have open': "on_fs (FFS_Open (unat task) (Some fname) FFS_MODE_R) w = Some (Inr (Some fp), ?w)" using assms(9) by (simp add: on_fs_def)
  have status: "site_status (Some fp) fs1 = (HTTP_STATUS_200_OK, Some (fd_size d))"
    using assms(10) by (simp add: site_status_def FFS_Size_def EOK_def)
  note P = polite_own [OF assms(1), of fp d 0]
  let ?r = "req\<lparr>rq_state := HTTP_STATE_SEND_FIELDS, rq_resp_bleft := fd_size d\<rparr>"
  have room: "length (l0 @ l1 @ l2 @ l3 @ l4) \<le> room (wn_net ?w)" using assms(15) h by simp
  obtain w1 where w1: "UHTTPSrv_SendStatus pd ?S t req HTTP_STATUS_200_OK (fd_size d) ?w = Some (Inr (EOK, ?r), w1)"
      "sends ok inp outp room (l0 @ l1 @ l2 @ l3 @ l4) (wn_net w) (wn_net w1)" "?P (wn_site w1)"
    using wire_sock.SendStatus_sends [OF site_wire [of ?P others, OF P], of ?w t req pd l0 "fd_size d" l1 l2 l3 l4] o room l(1-5) assms(3,4,7)
    unfolding sends_site by auto
  have r: "rq_state ?r = HTTP_STATE_SEND_FIELDS" "rq_resp_bleft ?r = fd_size d" by simp_all
  have s1: "ok (wn_net w1)" "length l4 \<le> room (wn_net w1)" using w1(2) assms(15) h by (auto simp: sends_def)
  obtain w2 where w2: "UHTTPSrv_SendHeaderField pd ?S t ?r HTTP_FIELD_NAME_ACCESS_CONTROL_ALLOW_ORIGIN [VStr (lit ''*'')] w1 = Some (Inr (EOK, ?r), w2)"
      "sends ok inp outp room l4 (wn_net w1) (wn_net w2)" "?P (wn_site w2)"
    using site_SendHeaderField [of ?P others, OF P s1(1) w1(3) r(1) assms(3) l(5) s1(2)] by blast
  have s2: "ok (wn_net w2)" "length l5 \<le> room (wn_net w2)" using w1(2) w2(2) assms(15) h by (auto simp: sends_def)
  obtain w3 where w3: "UHTTPSrv_SendHeaderField pd ?S t ?r HTTP_FIELD_NAME_CONNECTION [VStr (lit ''close'')] w2 = Some (Inr (EOK, ?r), w3)"
      "sends ok inp outp room l5 (wn_net w2) (wn_net w3)" "?P (wn_site w3)"
    using site_SendHeaderField [of ?P others, OF P s2(1) w2(3) r(1) assms(3) l(6) s2(2)] by blast
  have s3: "ok (wn_net w3)" "length (lg @ l6 @ CRLF @ fd_bytes d) \<le> room (wn_net w3)" using w1(2) w2(2) w3(2) assms(15) h by (auto simp: sends_def)
  let ?guarded = "with_fbuf (Suc n) others task (
       abind (site_gzip pd ?S t (Some fp) ?r) (\<lambda>req.
       abind (alift (HTTPSrvWebsite_GetMimeTypeForFileExt (Some fname))) (\<lambda>mime_type.
       abind (UHTTPSrv_SendHeaderField pd ?S t req HTTP_FIELD_NAME_CONTENT_TYPE [VStr mime_type]) (\<lambda>(_, req).
       abind (UHTTPSrv_EndHeader ?S t req) (\<lambda>(ec, req).
       if ec \<noteq> EOK then aret (None, req) else site_body_loop (Suc n) ?S t (Some fp) (fd_size d) req)))))"
  from site_guarded_ok [OF assms(1-3) s3(1) w3(3) assms(11) r HOL.refl lg assms(13) l6 assms(12) s3(2)]
  obtain req' w4 where w4: "?guarded w3 = Some (Inr (None, req'), w4)"
      "rq_state req' = HTTP_STATE_DONE" "sends ok inp outp room (lg @ l6 @ CRLF @ fd_bytes d) (wn_net w3) (wn_net w4)"
      "site_own task fp d (fd_size d) (wn_site w4)" "st_sem (wn_site w4) = 0" by blast
  obtain w5 where w5: "on_fs (\<lambda>fs. Inr (FFS_Close (Some fp) fs)) w4 = Some (Inr EOK, w5)" "wn_net w5 = wn_net w4"
      "\<not> is_open (st_fs (wn_site w5)) fp" "st_sem (wn_site w5) = 0"
    using site_close [OF w4(4)] w4(5) by auto
  have s: "sends ok inp outp room (h @ fd_bytes d) (wn_net w) (wn_net w5)"
    using sends_trans [OF w1(2) sends_trans [OF w2(2) sends_trans [OF w3(2) w4(3)]]] w5(2) h by simp
  have "HTTPSrvWebsite_CallbackFiles (Suc n) pd others ?S t task req w =
      abind (?guarded) (\<lambda>(r, req).
     case r of
       Some ec \<Rightarrow> aret (ec, req)
     | None \<Rightarrow> abind (on_fs (\<lambda>fs. Inr (FFS_Close (Some fp) fs))) (\<lambda>_. aret (EOK, req))) w3"
    by (simp add: HTTPSrvWebsite_CallbackFiles_def assms(8) abind_run [of "on_fs (FFS_Open (unat task) (Some fname) FFS_MODE_R)" w, OF open'] status abind_run [of "UHTTPSrv_SendStatus pd ?S t req HTTP_STATUS_200_OK (fd_size d)" ?w, OF w1(1)] 
        abind_run [of "UHTTPSrv_SendHeaderField pd ?S t ?r HTTP_FIELD_NAME_ACCESS_CONTROL_ALLOW_ORIGIN [VStr (lit ''*'')]" w1, OF w2(1)] 
        abind_run [of "UHTTPSrv_SendHeaderField pd ?S t ?r HTTP_FIELD_NAME_CONNECTION [VStr (lit ''close'')]" w2, OF w3(1)])
  also have "\<dots> = Some (Inr (EOK, req'), w5)" unfolding abind_run [of ?guarded w3, OF w4(1)] by (simp add: abind_run [of "on_fs (\<lambda>fs. Inr (FFS_Close (Some fp) fs))" w4, OF w5(1)] aret_def)
  finally show ?thesis using w4(2) s w5(3,4) by blast
qed

end

section \<open>The calls of the other tasks are polite\<close>

text \<open>The access block that a call of the file system uses.\<close>

fun call_block :: "ffs_call \<Rightarrow> nat option" where
  "call_block (Open t name m) = None"
| "call_block (Read fp dst bsz) = Some fp"
| "call_block (Write fp src bsz) = Some fp"
| "call_block (Seek fp off m) = Some fp"
| "call_block (Close fp) = Some fp"

text \<open>
  Whatever another task does with the file system and its own blocks is within the rely condition, as long as it does not
  write: the files of the site are opened for reading only.
\<close>

lemma leaves_exec:
  assumes "ffs_inv (st_fs s)" "call_ok (st_fs s) c" "\<forall>fp src bsz. c \<noteq> Write fp src bsz"
    and "\<forall>fp. call_block c = Some fp \<longrightarrow> ff_task_id (fs_pool (st_fs s) ! fp) \<noteq> unat task"
    and "ffs_exec c (st_fs s) = Inr fs"
  shows "leaves task s (s\<lparr>st_fs := fs\<rparr>)"
proof -
  let ?s = "st_fs s"
  have inv: "ffs_inv fs" using ffs_exec_inv [OF assms(1,2,5)] .
  have "fs = ?s \<or> (\<exists>i b. fs = ?s\<lparr>fs_pool := (fs_pool ?s)[i := b]\<rparr> \<and>
      (i < length (fs_pool ?s) \<longrightarrow> \<not> (ff_used (fs_pool ?s ! i) \<and> ff_task_id (fs_pool ?s ! i) = unat task)))"
  proof (cases c)
    case (Open t name m)
    let ?i = "free_block (fs_pool ?s)"
    from assms(5) Open obtain r where r: "FFS_Open t name m ?s = Inr (r, fs)" by (auto simp: bind_res_eq_Inr)
    have "fs = ?s \<or> (\<exists>b. fs = ?s\<lparr>fs_pool := (fs_pool ?s)[?i := b]\<rparr>)"
      using r by (auto simp: FFS_Open_def bind_res_eq_Inr Let_def split: option.splits if_splits)
    then show ?thesis using free_block_unused [of "fs_pool ?s"] by blast
  next
    case (Read fp dst bsz)
    then have "ff_task_id (fs_pool ?s ! fp) \<noteq> unat task" using assms(4) by simp
    moreover have "fs = ?s \<or> (\<exists>b. fs = ?s\<lparr>fs_pool := (fs_pool ?s)[fp := b]\<rparr>)"
      using Read assms(5) by (auto simp: FFS_Read_def bind_res_eq_Inr Let_def set_pos_def split: if_splits)
    ultimately show ?thesis by blast
  next
    case (Write fp src bsz)
    then show ?thesis using assms(3) by blast
  next
    case (Seek fp off m)
    then have "ff_task_id (fs_pool ?s ! fp) \<noteq> unat task" using assms(4) by simp
    moreover have "fs = ?s \<or> (\<exists>b. fs = ?s\<lparr>fs_pool := (fs_pool ?s)[fp := b]\<rparr>)"
      using Seek assms(5) by (auto simp: FFS_Seek_def Let_def set_pos_def split: if_splits)
    ultimately show ?thesis by blast
  next
    case (Close fp)
    then have "ff_task_id (fs_pool ?s ! fp) \<noteq> unat task" using assms(4) by simp
    moreover have "fs = ?s \<or> (\<exists>b. fs = ?s\<lparr>fs_pool := (fs_pool ?s)[fp := b]\<rparr>)"
      using Close assms(5) by (auto simp: FFS_Close_def split: if_splits)
    ultimately show ?thesis by blast
  qed
  then show ?thesis using inv assms(1) by (auto simp: leaves_def intro!: nth_list_update_neq)
qed

text \<open>A task that opens a file whenever it runs, and gives the buffer back.\<close>

definition opener :: "u32 \<Rightarrow> bytes \<Rightarrow> 'w others" where
  "opener task name v s =
     (case ffs_exec (Open 9 (Some name) FFS_MODE_R) (st_fs s) of
        Inl _ \<Rightarrow> s
      | Inr fs \<Rightarrow> s\<lparr>st_fs := fs\<rparr>)\<lparr>st_sem := if st_sem s = task then task else 0\<rparr>"

lemma opener_polite: "polite task (opener task name)"
proof -
  have "leaves task s (opener task name v s)" if i: "ffs_inv (st_fs s)" for v :: 'a and s
  proof (cases "ffs_exec (Open 9 (Some name) FFS_MODE_R) (st_fs s)")
    case (Inr fs)
    have "leaves task s (s\<lparr>st_fs := fs\<rparr>)" by (rule leaves_exec [OF i _ _ _ Inr]) simp_all
    then show ?thesis using Inr by (simp add: opener_def leaves_def)
  qed (use i in \<open>simp add: opener_def leaves_def\<close>)
  then show ?thesis by (simp add: polite_def)
qed

lemma opener_gives_back: "gives_back (Suc (Suc n)) task (opener task name)"
proof -
  have "st_sem ((opener task name v ^^ 1) s) \<in> {0, task}" for v :: 'a and s by (simp add: opener_def)
  then show ?thesis unfolding gives_back_def list_ex_iff by (metis One_nat_def Suc_less_eq atLeastLessThan_iff atLeast_upt less_Suc_eq_0_disj lessThan_iff)
qed

section \<open>The response\<close>


section \<open>An example\<close>

definition web_fs :: ffs_st where
  "web_fs = \<lparr>fs_descs = [\<lparr>fd_name = lit ''/a.js'', fd_mode = FFS_MODE_R, fd_size = 1500, fd_ptr = replicate 1500 97\<rparr>], fs_files = [[0]],
     fs_pool = replicate 32 \<lparr>ff_used = False, ff_task_id = 0, ff_fd = 0, ff_mode = 0, ff_position = 0\<rparr>\<rparr>"

definition web_world :: "tcp_world tapped site_world" where
  "web_world = \<lparr>wn_net = \<lparr>tp_net = demo_tcp [], tp_sent = []\<rparr>, wn_site = \<lparr>st_fs = web_fs, st_fbuf = replicate 1024 0, st_sem = 9\<rparr>\<rparr>"

definition web_req :: uhttp_request where
  "web_req = (new_request HTTP_METHOD_GET (replicate 257 0) 0 (lit ''/a.js''))\<lparr>rq_state := HTTP_STATE_SEND_STATUS\<rparr>"

definition web_field :: "unit uhttp_field" where
  "web_field = \<lparr>uf_name = HTTP_FIELD_NAME_UNKNOWN, uf_name_str = [], uf_name_str_len = 0, uf_value = FV_i 0\<rparr>"

definition web_head :: bytes where
  "web_head = concat (map (\<lambda>l. ascii l @ CRLF) [''HTTP/1.1 200 OK'', ''content-length: 1500'', ''server: uHTTP'', ''connection: keep-alive'',
     ''access-control-allow-origin: *'', ''access-control-allow-origin: *'', ''connection: close'', ''content-type: text/javascript'', ''''])"

lemma web_head: "file_head no_pd 1500 False (lit ''text/javascript'') = Some web_head"
  by code_simp

lemma web_head_length: "length web_head = 194"
  by code_simp

lemma web_open:
  "FFS_Open (unat 1) (Some (lit ''/a.js'')) FFS_MODE_R web_fs = Inr (Some 0, web_fs\<lparr>fs_pool :=
     (fs_pool web_fs)[0 := \<lparr>ff_used = True, ff_task_id = 1, ff_fd = 0, ff_mode = FFS_MODE_R, ff_position = 0\<rparr>]\<rparr>)"
  by (simp add: web_fs_def FFS_Open_def FFS_MODE_R_def Let_def free_block_replicate lit_def ascii_def)

lemma web_fs_inv: "ffs_inv web_fs"
  by (simp add: web_fs_def ffs_inv_def desc_ok_def block_ok_def list_all_iff)


section \<open>Defects\<close>

text \<open>
  A file of one or two bytes is not rewound after the look at its first bytes: the loop reads nothing, and the body that the head
  announced is never sent.
\<close>

lemma Site_short_file_not_sent:
  assumes "site_own task fp d 0 (wn_site w)" "0 < unat (fd_size d)" "unat (fd_size d) < 3"
  shows "\<exists>w' w''. site_gzip pd sf t (Some fp) req w = Some (Inr req, w') \<and>
    site_body_loop (Suc n) sf t (Some fp) (fd_size d) req' w' = Some (Inr (None, req'), w'') \<and> wn_net w'' = wn_net w"
proof -
  obtain w1 where w1: "read_fbuf (Some fp) 3 w = Some (Inr (int (unat (fd_size d))), w1)" "wn_net w1 = wn_net w"
      "site_own task fp d (fd_size d) (wn_site w1)"
    using read_fbuf_ok [OF assms(1), of 3] assms(3) by auto
  obtain w2 where w2: "read_fbuf (Some fp) 1024 w1 = Some (Inr 0, w2)" "wn_net w2 = wn_net w1"
    using read_fbuf_ok [OF w1(3), of 1024] by auto
  have "site_gzip pd sf t (Some fp) req w = Some (Inr req, w1)"
  proof -
    define k where "k = unat (fd_size d)"
    show ?thesis using w1(1) assms(3) unfolding k_def [symmetric] by (simp add: site_gzip_def abind_def aret_def)
  qed
  moreover have "site_body_loop (Suc n) sf t (Some fp) (fd_size d) req' w1 = Some (Inr (None, req'), w2)"
    using w2(1) assms(2) by (auto simp: site_body_loop.simps abind_def aret_def)
  ultimately show ?thesis using w1(2) w2(2) by auto
qed

text \<open>
  When the body cannot be sent the callback returns without closing the file: its access block stays in use, and when all the blocks
  are in use nothing can be opened any more.
\<close>

lemma Site_aborted_file_stays_open:
  assumes "site_own task fp d pos (wn_site w)" "pos < fd_size d" "fsize \<noteq> 0" "rq_state req \<noteq> HTTP_STATE_SEND_BODY"
  shows "\<exists>req' w'. site_body_loop (Suc n) sf t (Some fp) fsize req w = Some (Inr (Some EFATAL, req'), w') \<and> is_open (st_fs (wn_site w')) fp"
proof -
  let ?m = "min 1024 (unat (fd_size d) - unat pos)"
  obtain w1 p where w1: "read_fbuf (Some fp) 1024 w = Some (Inr (int ?m), w1)" "site_own task fp d p (wn_site w1)"
    using read_fbuf_ok [OF assms(1), of 1024] by auto
  have "0 < ?m" using assms(2) by (simp add: word_less_nat_alt)
  then have "site_body_loop (Suc n) sf t (Some fp) fsize req w = Some (Inr (Some EFATAL, req\<lparr>rq_state := HTTP_STATE_ERROR\<rparr>), w1)"
    using w1(1) assms(3,4) by (simp add: site_body_loop.simps abind_def aget_def aret_def UHTTPSrc_SendBody_def STATE_ERR_def EOK_def)
  then show ?thesis using w1(2) by (auto simp: site_own_def)
qed

lemma Site_no_blocks_left:
  assumes "list_all ff_used (fs_pool fs)" "FFS_Open task (Some name) mode fs = Inr (r, fs')"
  shows "r = None"
proof -
  have "list_all ff_used bs \<Longrightarrow> free_block bs = length bs" for bs by (induction bs) auto
  then show ?thesis using assms by (auto simp: FFS_Open_def bind_res_eq_Inr Let_def split: option.splits if_splits)
qed

section \<open>Messages are echoed\<close>

text \<open>A request whose websocket is open and between two messages.\<close>

definition ws_ready :: "u32 \<Rightarrow> uhttp_request \<Rightarrow> bool" where
  "ws_ready task req \<longleftrightarrow> ws_is_open (rq_ws req) \<and> ws_tx_sem (rq_ws req) \<in> {0, task} \<and> ws_rx_sem (rq_ws req) \<in> {0, task} \<and>
     ws_rx_size (rq_ws req) = ws_rx_offs (rq_ws req)"

context wire_sock begin

lemma site_echo_round:
  assumes "ok w" "inp w = ws_frame WS_ROLE_CLIENT (uhttp_opcode dtype) m d @ rest" "ws_ready task req"
    and "length m = 4" "\<And>w. length (junk w) = 14" "length d \<le> 16" "length buf = 16" "length d + 8 \<le> room w"
  shows "\<exists>req' w'. site_echo_loop (Suc (Suc (Suc fuel))) yield junk sf task buf req w =
      site_echo_loop (Suc (Suc fuel)) yield junk sf task (d @ drop (length d) buf) req' (yield w') \<and> ws_ready task req' \<and>
    ok w' \<and> inp w' = rest \<and> outp w' = outp w @ ws_frame WS_ROLE_SERVER (uhttp_opcode dtype) [0, 0, 0, 0] d \<and>
    room w \<le> room w' + length (ws_frame WS_ROLE_SERVER (uhttp_opcode dtype) [0, 0, 0, 0] d)"
proof -
  let ?buf = "d @ drop (length d) buf"
  have sz: "length d < 0xffff" "length d \<le> 32 * Suc fuel" "length d \<le> unat (16 :: u32)" "length d \<le> length buf" "length d \<le> 32 * Suc (Suc fuel)"
    using assms(6,7) by simp_all
  have r: "ws_rx_sem (rq_ws req) \<in> {0, task}" "ws_rx_size (rq_ws req) = ws_rx_offs (rq_ws req)" using assms(3) by (simp_all add: ws_ready_def)
  obtain ws1 w1 where w1: "uhttp_recv_loop (Suc (Suc fuel)) junk sf task (Some buf) 16 0 0 (rq_ws req) w =
      Some (Inr ((int (length d), Some dtype, Some ?buf), ws1), w1)" "ok w1" "inp w1 = rest" "outp w1 = outp w" "room w1 = room w"
    and ws1: "ws_rx_size ws1 = ws_rx_offs ws1" "ws_rx_sem ws1 = 0" "ws_tx_sem ws1 = ws_tx_sem (rq_ws req)" "ws_is_open ws1 = ws_is_open (rq_ws req)"
    using uhttp_Recv_ok [of w dtype m d rest "rq_ws req" task junk "Suc fuel" 16 buf 0, OF assms(1,2) r assms(4,5) sz(1-4)] by blast
  let ?r1 = "req\<lparr>rq_ws := ws1\<rparr>"
  have recv: "UHTTPSrvWS_Recv (Suc (Suc fuel)) junk sf task (Some buf) 16 0 req w = Some (Inr ((int (length d), Some dtype, Some ?buf), ?r1), w1)"
    using w1(1) by (simp add: UHTTPSrvWS_Recv_def on_ws_def abind_def aret_def EOK_def)
  have s: "ws_is_open (rq_ws ?r1)" "ws_tx_sem (rq_ws ?r1) \<in> {0, task}" "length d + 8 \<le> room w1" "take (length d) ?buf = d"
    using assms(3,8) ws1 w1(5) by (simp_all add: ws_ready_def)
  obtain req' w' where w': "UHTTPSrvWS_Send (Suc (Suc fuel)) sf task dtype ?buf (of_nat (length d)) ?r1 w1 = Some (Inr (int (length d), req'), w')"
      "ok w'" "inp w' = inp w1" "outp w' = outp w1 @ ws_frame WS_ROLE_SERVER (uhttp_opcode dtype) [0, 0, 0, 0] d"
      "req' = ?r1\<lparr>rq_ws := (rq_ws ?r1)\<lparr>ws_tx_sem := 0\<rparr>\<rparr>"
      "room w1 \<le> room w' + length (ws_frame WS_ROLE_SERVER (uhttp_opcode dtype) [0, 0, 0, 0] d)"
    using uhttp_Send_ok [OF w1(2) s(1,2) sz(1,5) s(3,4)] by blast
  have "site_echo_loop (Suc (Suc (Suc fuel))) yield junk sf task buf req w =
      site_echo_loop (Suc (Suc fuel)) yield junk sf task ?buf req' (yield w')"
    by (subst site_echo_loop.simps(2))
      (simp add: abind_run [of "UHTTPSrvWS_Recv (Suc (Suc fuel)) junk sf task (Some buf) 16 0 req" w, OF recv]
        abind_run [of "UHTTPSrvWS_Send (Suc (Suc fuel)) sf task dtype ?buf (of_nat (length d)) ?r1" w1, OF w'(1)] EOK_def)
  moreover have "ws_ready task req'" using w'(5) ws1 s(1) by (simp add: ws_ready_def)
  ultimately show ?thesis using w' w1 by auto
qed

text \<open>The messages of a client, each with its type and its mask, as they are on the wire, and the answers.\<close>

lemma ws_frame_length: "length d < 0xffff \<Longrightarrow> length (ws_frame WS_ROLE_SERVER opcode m d) \<le> length d + 8"
proof -
  assume "length d < 0xffff"
  then have "(of_nat (length d) :: u32) < 0xffff" by (simp add: word_less_nat_alt unat_of_nat take_bit_nat_eq_self)
  then show ?thesis by (cases rule: size_field_cases) (simp_all add: ws_frame_def frame_hdr_def role_mask_def masking_def)
qed

lemma site_echoes:
  assumes "\<And>w. length (junk w) = 14" "length buf = 16"
    and "\<And>w. ok w \<Longrightarrow> ok (yield w) \<and> inp (yield w) = inp w \<and> outp (yield w) = outp w \<and> room (yield w) = room w"
    and "ok w" "ws_ready task req" "list_all (\<lambda>(dtype, m, d). length m = 4 \<and> length d \<le> 16) msgs"
    and "sum_list (map (\<lambda>(dtype, m, d). length d + 8) msgs) \<le> room w"
    and "inp w = concat (map (\<lambda>(dtype, m, d). ws_frame WS_ROLE_CLIENT (uhttp_opcode dtype) m d) msgs) @ rest"
  shows "\<exists>buf' req' w'. site_echo_loop (length msgs + Suc (Suc fuel)) yield junk sf task buf req w =
      site_echo_loop (Suc (Suc fuel)) yield junk sf task buf' req' w' \<and> inp w' = rest \<and>
    outp w' = outp w @ concat (map (\<lambda>(dtype, m, d). ws_frame WS_ROLE_SERVER (uhttp_opcode dtype) [0, 0, 0, 0] d) msgs)"
  using assms(2,4-)
proof (induction msgs arbitrary: buf req w)
  case (Cons x msgs)
  obtain dtype m d where x: "x = (dtype, m, d)" by (cases x)
  let ?f = "length msgs + fuel" and ?g = "ws_frame WS_ROLE_SERVER (uhttp_opcode dtype) [0, 0, 0, 0] d"
  let ?in = "concat (map (\<lambda>(dtype, m, d). ws_frame WS_ROLE_CLIENT (uhttp_opcode dtype) m d) msgs) @ rest"
  have l: "length m = 4" "length d \<le> 16" "length d + 8 \<le> room w" using Cons.prems(4,5) x by auto
  have i: "inp w = ws_frame WS_ROLE_CLIENT (uhttp_opcode dtype) m d @ ?in" using Cons.prems(6) x by simp
  note round = site_echo_round [of w dtype m d ?in task req junk buf ?f yield, OF Cons.prems(2) i Cons.prems(3) l(1) assms(1) l(2) Cons.prems(1) l(3)]
  obtain req1 w1 where w1: "site_echo_loop (Suc (Suc (Suc ?f))) yield junk sf task buf req w =
      site_echo_loop (Suc (Suc ?f)) yield junk sf task (d @ drop (length d) buf) req1 (yield w1)" "ws_ready task req1" "ok w1"
      "inp w1 = ?in" "outp w1 = outp w @ ?g" "room w \<le> room w1 + length ?g"
    using round by blast
  have y: "ok (yield w1)" "inp (yield w1) = ?in" "outp (yield w1) = outp w1" "room (yield w1) = room w1"
    using assms(3) [OF w1(3)] w1(4) by simp_all
  have b: "length (d @ drop (length d) buf) = 16" "list_all (\<lambda>(dtype, m, d). length m = 4 \<and> length d \<le> 16) msgs"
    using Cons.prems(1,4) l(2) by simp_all
  have "sum_list (map (\<lambda>(dtype, m, d). length d + 8) msgs) \<le> room (yield w1)"
    using Cons.prems(5) x w1(6) y(4) ws_frame_length [of d "uhttp_opcode dtype" "[0, 0, 0, 0]"] l(2) by simp
  from Cons.IH [OF b(1) y(1) w1(2) b(2) this y(2)]
  obtain buf' req' w' where "site_echo_loop (length msgs + Suc (Suc fuel)) yield junk sf task (d @ drop (length d) buf) req1 (yield w1) =
      site_echo_loop (Suc (Suc fuel)) yield junk sf task buf' req' w'" "inp w' = rest"
      "outp w' = outp w1 @ concat (map (\<lambda>(dtype, m, d). ws_frame WS_ROLE_SERVER (uhttp_opcode dtype) [0, 0, 0, 0] d) msgs)"
    using y(3) by auto
  then show ?case using w1(1,5) x by (intro exI [of _ buf'] exI [of _ req'] exI [of _ w']) simp
qed auto

end

end
