(* ===== verification/Www_Api.thy ===== *)
theory Www_Api
  imports Www_Site
begin

unbundle bit_operations_syntax

text \<open>
  The two interfaces of the device beside the web site: the callback of \<^verbatim>\<open>www/src/api.c\<close> for requests to an address of the
  interface, and the server of \<^verbatim>\<open>www/src/ws.c\<close> that switches the light by messages over a websocket. The loops over sockets have
  a bound on their rounds; the light is read and set by the functions \<open>led_get\<close> and \<open>led_set\<close> of the world.
\<close>

section \<open>The interface over HTTP\<close>

text \<open>The numbers of the methods are single bits.\<close>

definition method_bit :: "uhttp_method \<Rightarrow> u32" where
  "method_bit m =
     (case m of
        HTTP_METHOD_UNKNOWN \<Rightarrow> 0 | HTTP_METHOD_GET \<Rightarrow> push_bit 0 1 | HTTP_METHOD_HEAD \<Rightarrow> push_bit 1 1
      | HTTP_METHOD_POST \<Rightarrow> push_bit 2 1 | HTTP_METHOD_PUT \<Rightarrow> push_bit 3 1 | HTTP_METHOD_DELETE \<Rightarrow> push_bit 4 1
      | HTTP_METHOD_CONNECT \<Rightarrow> push_bit 5 1 | HTTP_METHOD_OPTIONS \<Rightarrow> push_bit 6 1 | HTTP_METHOD_TRACE \<Rightarrow> push_bit 7 1
      | HTTP_METHOD_PATCH \<Rightarrow> push_bit 8 1)"

definition api_method_lut :: "(uhttp_method \<times> bytes) list" where
  "api_method_lut = [(HTTP_METHOD_POST, lit ''POST''), (HTTP_METHOD_GET, lit ''GET''), (HTTP_METHOD_OPTIONS, lit ''OPTIONS'')]"

definition HTTPSrvApi_GetMethodSpec :: "u32 \<Rightarrow> bytes option \<Rightarrow> fault + (uhttp_method \<times> bytes) option" where
  "HTTPSrvApi_GetMethodSpec method name =
     lut_find (\<lambda>(m, _). method \<noteq> 0 \<and> method = method_bit m)
       (\<lambda>(_, s). case name of None \<Rightarrow> Inr False | Some n \<Rightarrow> bind_res (strcicmp s n) (\<lambda>c. Inr (c = 0))) api_method_lut"

definition endpoint_lut :: "(bytes \<times> u32) list" where
  "endpoint_lut = [(lit ''/'', method_bit HTTP_METHOD_POST OR method_bit HTTP_METHOD_OPTIONS)]"

definition HTTPSrvApi_GetEnpointSpec :: "bytes \<Rightarrow> fault + (bytes \<times> u32) option" where
  "HTTPSrvApi_GetEnpointSpec url = lut_find (\<lambda>_. False) (\<lambda>(s, _). bind_res (strcmp s url) (\<lambda>c. Inr (c = 0))) endpoint_lut"

text \<open>The two loops that drop the fields of a request: the first one looks at the state only.\<close>

fun api_drop_fields ::
  "nat \<Rightarrow> (bytes \<Rightarrow> u32 \<Rightarrow> bool \<Rightarrow> fs \<Rightarrow> int \<times> 'd scan_val option) \<Rightarrow> 'w sock_funcs \<Rightarrow> int \<Rightarrow> 'd uhttp_field \<Rightarrow> uhttp_request \<Rightarrow>
   ('w, uhttp_request) act" where
  "api_drop_fields 0 sd sf tmo field req = (\<lambda>w. None)"
| "api_drop_fields (Suc fuel) sd sf tmo field req =
     (if rq_state req \<noteq> HTTP_STATE_READ_FIELDS then aret req
      else abind (UHTTPSrv_ReadHeaderField sd sf tmo req field) (\<lambda>(_, req, field). api_drop_fields fuel sd sf tmo field req))"

declare api_drop_fields.simps [simp del]

fun api_skip_fields ::
  "nat \<Rightarrow> (bytes \<Rightarrow> u32 \<Rightarrow> bool \<Rightarrow> fs \<Rightarrow> int \<times> 'd scan_val option) \<Rightarrow> 'w sock_funcs \<Rightarrow> int \<Rightarrow> 'd uhttp_field \<Rightarrow> uhttp_request \<Rightarrow>
   ('w, uhttp_request) act" where
  "api_skip_fields 0 sd sf tmo field req = (\<lambda>w. None)"
| "api_skip_fields (Suc fuel) sd sf tmo field req =
     (if rq_state req \<noteq> HTTP_STATE_READ_FIELDS then aret req
      else
        abind (UHTTPSrv_ReadHeaderField sd sf tmo req field) (\<lambda>(ec, req, field).
        if ec \<ge> EOK then api_skip_fields fuel sd sf tmo field req else aret req))"

declare api_skip_fields.simps [simp del]

text \<open>No command is processed yet: the error code of the processing is always \<open>EFATAL\<close>. The result \<open>EOK\<close> is the status zero.\<close>

definition HTTPSrvApi_ProcessPost ::
  "nat \<Rightarrow> (bytes \<Rightarrow> u32 \<Rightarrow> bool \<Rightarrow> fs \<Rightarrow> int \<times> 'd scan_val option) \<Rightarrow> (u32 \<Rightarrow> 'd \<Rightarrow> fs \<Rightarrow> bytes) \<Rightarrow> 'w sock_funcs \<Rightarrow> int \<Rightarrow>
   'd uhttp_field \<Rightarrow> bytes \<Rightarrow> uhttp_request \<Rightarrow> ('w, uhttp_status_code \<times> uhttp_request) act" where
  "HTTPSrvApi_ProcessPost fuel sd pd sf tmo field data req =
     abind (api_drop_fields fuel sd sf tmo field req) (\<lambda>req.
     abind (UHTTPSrv_ReadBody fuel sf tmo req (Some data) 256) (\<lambda>(data_len, req, ptr).
     if data_len < EOK then aret (HTTP_STATUS_400_BAD_REQUEST, req)
     else
       let ec = EFATAL in
       if ec < EOK then aret (HTTP_STATUS_400_BAD_REQUEST, req)
       else
         case ptr of
           None \<Rightarrow> afail NullDeref
         | Some data \<Rightarrow>
             abind (UHTTPSrv_SendStatus pd sf tmo req HTTP_STATUS_200_OK (word_of_int ec)) (\<lambda>(_, req).
             abind (UHTTPSrv_EndHeader sf tmo req) (\<lambda>(_, req).
             abind (UHTTPSrc_SendBody sf tmo req data (word_of_int ec)) (\<lambda>(_, req).
             aret (HTTP_STATUS_UNKNOWN, req))))))"

text \<open>The list of the methods, one bit after the other; \<open>em\<close> has the bits that are left.\<close>

fun methods_loop :: "(u32 \<Rightarrow> 'd \<Rightarrow> fs \<Rightarrow> bytes) \<Rightarrow> nat list \<Rightarrow> u32 \<Rightarrow> nat \<Rightarrow> bytes \<Rightarrow> fault + bytes" where
  "methods_loop pd [] em offs str = Inr str"
| "methods_loop pd (b # bs) em offs str =
     (let m = push_bit b 1 in
      if em = 0 then Inr str
      else if em AND m = 0 then methods_loop pd bs em offs str
      else
        let em = em AND NOT m in
        bind_res (HTTPSrvApi_GetMethodSpec m None) (\<lambda>spec.
        case spec of
          None \<Rightarrow> Inl NullDeref
        | Some (_, name) \<Rightarrow>
            bind_res (snprintf pd (drop offs str) (of_nat (64 - offs - 1)) (lit ''%s%s'')
                [VStr name, VStr (lit (if em \<noteq> 0 then '', '' else ''''))]) (\<lambda>(out, n).
              methods_loop pd bs em (offs + n) (take offs str @ out))))"

definition HTTPSrvApi_ProcessOptions ::
  "nat \<Rightarrow> (bytes \<Rightarrow> u32 \<Rightarrow> bool \<Rightarrow> fs \<Rightarrow> int \<times> 'd scan_val option) \<Rightarrow> (u32 \<Rightarrow> 'd \<Rightarrow> fs \<Rightarrow> bytes) \<Rightarrow> 'w sock_funcs \<Rightarrow> int \<Rightarrow>
   'd uhttp_field \<Rightarrow> u32 \<Rightarrow> uhttp_request \<Rightarrow> ('w, uhttp_status_code \<times> uhttp_request) act" where
  "HTTPSrvApi_ProcessOptions fuel sd pd sf tmo field methods req =
     abind (api_skip_fields fuel sd sf tmo field req) (\<lambda>req.
     abind (UHTTPSrv_SendStatus pd sf tmo req HTTP_STATUS_200_OK 0) (\<lambda>(_, req).
     abind (alift (methods_loop pd [0..<32] methods 0 (replicate 64 0))) (\<lambda>methods_str.
     abind (UHTTPSrv_SendHeaderField pd sf tmo req HTTP_FIELD_NAME_ACCESS_CONTROL_ALLOW_METHODS [VStr methods_str]) (\<lambda>(_, req).
     abind (UHTTPSrv_SendHeaderField pd sf tmo req HTTP_FIELD_NAME_ACCESS_CONTROL_ALLOW_HEADERS [VStr (lit ''content-type'')]) (\<lambda>(_, req).
     abind (UHTTPSrv_EndHeader sf tmo req) (\<lambda>(_, req).
     aret (HTTP_STATUS_UNKNOWN, req)))))))"

text \<open>The end of a request that is answered by a status alone.\<close>

definition api_send_status ::
  "nat \<Rightarrow> (bytes \<Rightarrow> u32 \<Rightarrow> bool \<Rightarrow> fs \<Rightarrow> int \<times> 'd scan_val option) \<Rightarrow> (u32 \<Rightarrow> 'd \<Rightarrow> fs \<Rightarrow> bytes) \<Rightarrow> 'w sock_funcs \<Rightarrow> int \<Rightarrow>
   'd uhttp_field \<Rightarrow> uhttp_status_code \<Rightarrow> uhttp_request \<Rightarrow> ('w, err_t \<times> uhttp_request) act" where
  "api_send_status fuel sd pd sf tmo field sc req =
     abind (api_drop_fields fuel sd sf tmo field req) (\<lambda>req.
     abind (if rq_state req = HTTP_STATE_READ_BODY
            then abind (UHTTPSrv_ReadBody fuel sf tmo req None (-1)) (\<lambda>(_, req, _). aret req)
            else aret req) (\<lambda>req.
     abind (UHTTPSrv_SendStatus pd sf tmo req sc 0) (\<lambda>(_, req).
     abind (UHTTPSrv_EndHeader sf tmo req) (\<lambda>(_, req).
     aret (EOK, req)))))"

definition HTTPSrvApi_ProcessRequest ::
  "nat \<Rightarrow> (bytes \<Rightarrow> u32 \<Rightarrow> bool \<Rightarrow> fs \<Rightarrow> int \<times> 'd scan_val option) \<Rightarrow> (u32 \<Rightarrow> 'd \<Rightarrow> fs \<Rightarrow> bytes) \<Rightarrow> 'w sock_funcs \<Rightarrow> int \<Rightarrow>
   'd uhttp_field \<Rightarrow> bytes \<Rightarrow> uhttp_request \<Rightarrow> ('w, err_t \<times> uhttp_request) act" where
  "HTTPSrvApi_ProcessRequest fuel sd pd sf tmo field data req =
     abind (alift (HTTPSrvApi_GetEnpointSpec (rq_url req))) (\<lambda>es.
     case es of
       None \<Rightarrow> api_send_status fuel sd pd sf tmo field HTTP_STATUS_404_NOT_FOUND req
     | Some (_, methods) \<Rightarrow>
         if methods AND method_bit (rq_method req) = 0
         then api_send_status fuel sd pd sf tmo field HTTP_STATUS_405_METHOD_NOT_ALLOWED req
         else
           let answered = (\<lambda>(sc, req). if sc = HTTP_STATUS_UNKNOWN then aret (EOK, req) else api_send_status fuel sd pd sf tmo field sc req) in
           case rq_method req of
             HTTP_METHOD_OPTIONS \<Rightarrow> abind (HTTPSrvApi_ProcessOptions fuel sd pd sf tmo field methods req) answered
           | HTTP_METHOD_POST \<Rightarrow> abind (HTTPSrvApi_ProcessPost fuel sd pd sf tmo field data req) answered
           | _ \<Rightarrow> aret (EFATAL, req))"

text \<open>The initialiser of the instance does not name the number of connections and the size of the stack, so they are zero.\<close>

definition api_instance :: uhttp_instance where
  "api_instance = \<lparr>ui_port = 6969, ui_timeout = 2000, ui_max_connections = 0, ui_stack_size = 0\<rparr>"

definition HTTPSrvApi_Init :: "task_t \<Rightarrow> addr \<Rightarrow> u32 \<Rightarrow> yield_t \<Rightarrow> fault + err_t \<times> yield_t" where
  "HTTPSrvApi_Init junk handler arg s = UHTTPSrv_InstanceInit junk handler arg api_instance s"

section \<open>The interface over a websocket\<close>

definition has_prefix :: "bytes \<Rightarrow> string \<Rightarrow> fault + bool" where
  "has_prefix buf s = bind_res (memcmp buf (ascii s) (length s)) (\<lambda>c. Inr (c = 0))"

text \<open>What a message does: the new state of the light, if it is set, and the answer.\<close>

definition ws_command :: "bytes \<Rightarrow> bool \<Rightarrow> fault + bool option \<times> bytes" where
  "ws_command buf led_state =
     bind_res (has_prefix buf ''toggle'') (\<lambda>c. if c then Inr (Some (\<not> led_state), lit ''led was TOGGLED'') else
     bind_res (has_prefix buf ''on'') (\<lambda>c. if c then Inr (Some True, lit (''led is now ON'' @ [CHR 10])) else
     bind_res (has_prefix buf ''off'') (\<lambda>c. if c then Inr (Some False, lit (''led is now OFF'' @ [CHR 10])) else
     bind_res (has_prefix buf ''ping'') (\<lambda>c. if c then Inr (None, lit ''pong'') else
     Inr (None, lit (''unknown command :-('' @ [CHR 10]))))))"

fun ws_serve_loop ::
  "nat \<Rightarrow> ('w \<Rightarrow> bool) \<Rightarrow> (bool \<Rightarrow> 'w \<Rightarrow> 'w) \<Rightarrow> ('w \<Rightarrow> bytes) \<Rightarrow> 'w tcp_api \<Rightarrow> u32 \<Rightarrow> bytes \<Rightarrow> websocket \<Rightarrow> ('w, bytes \<times> websocket) act" where
  "ws_serve_loop 0 led_get led_set junk api task buf ws = (\<lambda>w. None)"
| "ws_serve_loop (Suc fuel) led_get led_set junk api task buf ws =
     abind (WebSocket_Recv fuel junk api task (Some buf) 63 0 ws) (\<lambda>(ec, dtype, ptr, ws).
     case ptr of
       None \<Rightarrow> afail NullDeref
     | Some buf \<Rightarrow>
         if ec < EOK then aret (buf, ws)
         else
           abind (alift (mem_write buf (nat ec) [0])) (\<lambda>buf.
           abind (aget led_get) (\<lambda>led_state.
           abind (alift (ws_command buf led_state)) (\<lambda>(led, rsp).
           abind (\<lambda>w. aret () (case led of None \<Rightarrow> w | Some b \<Rightarrow> led_set b w)) (\<lambda>_.
           abind (alift (strlen rsp)) (\<lambda>n.
           abind (WebSocket_Send fuel api task WS_DATA_TYPE_TEXT rsp (of_nat n) ws) (\<lambda>(ec, ws).
           if ec < EOK then aret (buf, ws)
           else (\<lambda>w. ws_serve_loop fuel led_get led_set junk api task buf ws (ta_yield api w)))))))))"

declare ws_serve_loop.simps [simp del]

text \<open>One round of the endless loop: a connection from its start to its end.\<close>

definition WebSocketSrv_Serve_round ::
  "nat \<Rightarrow> ('w \<Rightarrow> bool) \<Rightarrow> (bool \<Rightarrow> 'w \<Rightarrow> 'w) \<Rightarrow> (u32 \<Rightarrow> 'd \<Rightarrow> fs \<Rightarrow> bytes) \<Rightarrow>
   (bytes \<Rightarrow> u32 \<Rightarrow> bool \<Rightarrow> fs \<Rightarrow> int \<times> 'd scan_val option) \<Rightarrow> ('w \<Rightarrow> bytes) \<Rightarrow> 'w tcp_api \<Rightarrow> u32 \<Rightarrow> bytes \<Rightarrow> websocket \<Rightarrow>
   ('w, bytes \<times> websocket) act" where
  "WebSocketSrv_Serve_round fuel led_get led_set pd sd junk api task buf ws =
     abind (WebSocket_Listen fuel pd sd api 42069 None 0 ws) (\<lambda>(ec, ws).
     if ec < EOK then aret (buf, ws)
     else
       abind (ws_serve_loop fuel led_get led_set junk api task buf ws) (\<lambda>(buf, ws).
       abind (WebSocket_Close fuel junk api task ws) (\<lambda>(_, ws). aret (buf, ws))))"

definition WebSocketSrv_Init :: "task_t \<Rightarrow> addr \<Rightarrow> yield_t \<Rightarrow> fault + err_t \<times> yield_t" where
  "WebSocketSrv_Init junk handler s = Yield_Task junk s handler 0 2500"

section \<open>What the interfaces do\<close>

lemma Api_post_always_refused:
  assumes "HTTPSrvApi_ProcessPost fuel sd pd sf tmo field data req w = Some (Inr (sc, req'), w')"
  shows "sc = HTTP_STATUS_400_BAD_REQUEST"
  using assms by (auto simp: HTTPSrvApi_ProcessPost_def abind_Some EFATAL_def EOK_def Let_def split: if_splits)

lemma Api_methods:
  "methods_loop no_pd [0..<32] (snd (endpoint_lut ! 0)) 0 (replicate 64 0) = Inr (ascii ''POST, OPTIONS'' @ replicate 51 0)"
  by code_simp

lemma Api_unknown_endpoint:
  assumes "cstr (rq_url req) u" "u \<noteq> ascii ''/''"
  shows "HTTPSrvApi_ProcessRequest fuel sd pd sf tmo field data req = api_send_status fuel sd pd sf tmo field HTTP_STATUS_404_NOT_FOUND req"
proof -
  have "cstr (lit ''/'') (ascii ''/'')" by (simp add: cstr_def lit_def ascii_def)
  from strcmp_ok [OF this assms(1)] obtain c where "strcmp (lit ''/'') (rq_url req) = Inr c" "c \<noteq> 0" using assms(2) by auto
  then have "HTTPSrvApi_GetEnpointSpec (rq_url req) = Inr None" by (simp add: HTTPSrvApi_GetEnpointSpec_def endpoint_lut_def)
  then show ?thesis by (simp add: HTTPSrvApi_ProcessRequest_def)
qed

text \<open>The server of the interface has no task: the initialisation reports success and changes nothing.\<close>

lemma Api_Init_starts_nothing: "HTTPSrvApi_Init junk handler arg s = Inr (EOK, s)"
  by (simp add: HTTPSrvApi_Init_def UHTTPSrv_InstanceInit_def api_instance_def)

lemma memcmp_take: "n \<le> length a \<Longrightarrow> n \<le> length b \<Longrightarrow> \<exists>c. memcmp a b n = Inr c \<and> (c = 0 \<longleftrightarrow> take n a = take n b)"
  by (induction a b n rule: memcmp.induct) (auto simp: not_less order.antisym)

lemma has_prefix_ok: "length s \<le> length buf \<Longrightarrow> has_prefix buf s = Inr (take (length s) buf = ascii s)"
  using memcmp_take [of "length s" buf "ascii s"] by (auto simp: has_prefix_def ascii_def)

text \<open>A message is recognised by its beginning, and every message has an answer.\<close>

lemma ws_command_ok:
  assumes "6 \<le> length buf"
  shows "ws_command buf led = Inr
    (if take 6 buf = ascii ''toggle'' then (Some (\<not> led), lit ''led was TOGGLED'')
     else if take 2 buf = ascii ''on'' then (Some True, lit (''led is now ON'' @ [CHR 10]))
     else if take 3 buf = ascii ''off'' then (Some False, lit (''led is now OFF'' @ [CHR 10]))
     else if take 4 buf = ascii ''ping'' then (None, lit ''pong'')
     else (None, lit (''unknown command :-('' @ [CHR 10])))"
proof -
  have p: "has_prefix buf s = Inr (take n buf = ascii s)" if "n = length s" "n \<le> 6" for s n
    using that has_prefix_ok [of s buf] assms by simp
  have "has_prefix buf ''toggle'' = Inr (take 6 buf = ascii ''toggle'')" "has_prefix buf ''on'' = Inr (take 2 buf = ascii ''on'')"
    "has_prefix buf ''off'' = Inr (take 3 buf = ascii ''off'')" "has_prefix buf ''ping'' = Inr (take 4 buf = ascii ''ping'')"
    by (rule p; simp)+
  then show ?thesis by (simp add: ws_command_def)
qed

text \<open>\<^verbatim>\<open>once\<close> switches the light on.\<close>

lemma Ws_command_by_prefix: "ws_command (ascii ''once more'' @ replicate 55 0) led = Inr (Some True, lit (''led is now ON'' @ [CHR 10]))"
  by (subst ws_command_ok) (simp_all add: ascii_def)

end
