(* ===== verification/Spec2Isabelle.thy ===== *)
theory Spec2Isabelle
  imports Sys_Heap Sys_Queue Sys_Time Sys_Sem Sys_Ev Sys_Yield Util_Endian Util_String Util_Base64 Util_Sha Util_Print Util_Scan Net_Checksum Net_Reply Net_Mdns Net_Dhcp Net_Ws Www_Api
begin

text \<open>
  A verification library for the firmware of \<^verbatim>\<open>yield-stm32f401\<close>: a cooperative operating system, a TCP/IP stack with
  the servers on top of it, and the utility functions both use, in C for an STM32F401.

  \<^bold>\<open>The program.\<close> Tasks run until they call \<open>Yield\<close>; the scheduler (\<^verbatim>\<open>sys/src/yield.c\<close>) then picks the next one. Tasks
  share the heap (\<^verbatim>\<open>sys/src/heap.c\<close>), pass bytes through queues (\<^verbatim>\<open>sys/src/queue.c\<close>), guard what they share by
  semaphores (\<^verbatim>\<open>sys/src/sem.c\<close>), tell each other of events (\<^verbatim>\<open>sys/src/ev.c\<close>) and read the clock (\<^verbatim>\<open>sys/src/time.c\<close>). A
  task of the stack takes the frames that arrive over USB through the layers of \<^verbatim>\<open>net/tcpip\<close> to the sockets; sending goes
  down the same layers, and waits for buffers and for the resolution of addresses by yielding. The UDP sockets carry the
  DHCP server (\<^verbatim>\<open>net/dhcp\<close>) and the multicast DNS server (\<^verbatim>\<open>net/mdns\<close>); the TCP sockets carry the HTTP server
  (\<^verbatim>\<open>net/uhttpsrv\<close>) and the websockets (\<^verbatim>\<open>net/websocket\<close>, \<^verbatim>\<open>net/uhttpsrv/src/ws.c\<close>), which carry the web site
  (\<^verbatim>\<open>www\<close>): its files come from a read only file system (\<^verbatim>\<open>ffs\<close>), its programming interface answers under a path of its own.

  \<^bold>\<open>How the code is modelled.\<close>
  \<^item> Machine integers are words of their C width and wrap; \<open>err_t\<close> is an \<open>int\<close>, with the codes of \<^verbatim>\<open>err.h\<close> below zero
    (\<^verbatim>\<open>Prelude\<close>).
  \<^item> A struct is a record, an enumeration a datatype. Memory that code walks through by pointers is a list of bytes with
    offsets, or a store from addresses to objects where objects are linked (the heap, the task ring).
  \<^item> An access outside an object, a null dereference, a failed assertion and the use of a variable that has no value are
    values of the type \<open>fault\<close>, on the left of a sum. A theorem whose conclusion gives a right value shows that the
    code does not do any of this.
  \<^item> A loop that yields is \<open>yield_loop fuel env k body\<close>: between two rounds the other tasks do whatever the function
    \<open>env\<close> says, and \<open>fuel\<close> bounds the rounds; \<open>None\<close> is a loop that has not ended by then. Safety theorems hold for every
    fuel. Theorems that something returns name a fuel that is enough (for a wait with a timeout, the timeout in ticks
    plus one when the clock advances with every yield), and the partial function \<open>MDNSFrame_DecodeName\<close> is shown to return for
    frames whose pointers lead backwards. The loops over sockets in \<^verbatim>\<open>Net_Http\<close> and \<^verbatim>\<open>Net_Websocket\<close> have a bound on
    their rounds for the same reason; one round per byte is enough for them, since the sockets deliver at least one.
  \<^item> Code that is not modelled (floating point conversions, the drivers of the network interface and of the light, what the
    other tasks do while this one yields) is an argument of the definitions that call it; so are the callbacks of an application
    in the theory of a server, which the theories of the web site then give.

  \<^bold>\<open>Theories and sources.\<close>
  \<^item> \<^verbatim>\<open>Prelude\<close>: types, error codes, faults, buffer accesses, \<open>yield_loop\<close> and its invariant rule, and the locale
    \<open>timed_wait\<close> of the waits with a timeout, interpreted for every such loop of the sockets, queues and semaphores.
  \<^item> \<^verbatim>\<open>Sys_Heap\<close> (\<^verbatim>\<open>heap.c\<close>): the chain of blocks; allocation gives disjoint memory inside the heap and the invariant of
    the chain is kept by \<open>Heap_Malloc\<close> and \<open>Heap_Free\<close>.
  \<^item> \<^verbatim>\<open>Sys_Queue\<close>, \<^verbatim>\<open>Sys_Byte_Queue\<close> (\<^verbatim>\<open>queue.c\<close>): the ring refines a list; the locale \<open>byte_fifo\<close> is its contract.
  \<^item> \<^verbatim>\<open>Sys_Time\<close> (\<^verbatim>\<open>time.c\<close>, \<^verbatim>\<open>sleep.c\<close>), \<^verbatim>\<open>Sys_Sem\<close> (\<^verbatim>\<open>sem.c\<close>: mutual exclusion, release of waiters), \<^verbatim>\<open>Sys_Ev\<close> (\<^verbatim>\<open>ev.c\<close>: no
    event is lost or repeated), \<^verbatim>\<open>Sys_Yield\<close> (\<^verbatim>\<open>yield.c\<close>: the ring of tasks, fairness, waiting for tasks).
  \<^item> \<^verbatim>\<open>Util_Endian\<close>, \<^verbatim>\<open>Util_String\<close>, \<^verbatim>\<open>Util_Base64\<close>, \<^verbatim>\<open>Util_Sha\<close>, \<^verbatim>\<open>Util_Print\<close>, \<^verbatim>\<open>Util_Scan\<close> (\<^verbatim>\<open>util\<close>): round trips,
    bounds on what is written, agreement of the hashes with the padding and chaining of their standards.
  \<^item> \<^verbatim>\<open>Dev_Seed\<close> (\<^verbatim>\<open>dev/src/seed.c\<close>): the seed of the random numbers.
  \<^item> \<^verbatim>\<open>Net_Frame\<close>, \<^verbatim>\<open>Net_Checksum\<close>, \<^verbatim>\<open>Net_Arp_Table\<close>, \<^verbatim>\<open>Net_Stack\<close>, \<^verbatim>\<open>Net_Path\<close>, \<^verbatim>\<open>Net_Reply\<close> (\<^verbatim>\<open>net/tcpip\<close>): the header accessors,
    the checksums, and the layers over whole buffers; a frame that one host sends is what the other one receives, echo and
    address requests are answered, frames for others are ignored.
  \<^item> \<^verbatim>\<open>Net_Udp\<close> (\<^verbatim>\<open>udp_sock.c\<close>), \<^verbatim>\<open>Net_Tcp\<close> and \<^verbatim>\<open>Net_Tcp_Stream\<close> (\<^verbatim>\<open>tcp_sock.c\<close>): datagram sockets refine mailboxes; TCP
    sockets are established only by a handshake, and over a network that loses, repeats and reorders segments the receiver
    reads a prefix of what the sender wrote.
  \<^item> \<^verbatim>\<open>Net_Dhcp_Frame\<close>, \<^verbatim>\<open>Net_Dhcp_Book\<close>, \<^verbatim>\<open>Net_Dhcp\<close> (\<^verbatim>\<open>net/dhcp\<close>): options round trip, the record book, the server's replies.
  \<^item> \<^verbatim>\<open>Net_Dns_Name\<close>, \<^verbatim>\<open>Net_Mdns\<close> (\<^verbatim>\<open>net/mdns\<close>): coding of names, answers to queries.
  \<^item> \<^verbatim>\<open>Net_Sock\<close>: the socket functions as the servers see them. Its locales \<open>stream_sock\<close>, \<open>wire_sock\<close> and \<open>tcp_conn\<close> are
    the contracts; they are interpreted on the TCP socket, with the stack running beside the task and without. \<^verbatim>\<open>Net_Prompt\<close>
    interprets them beside a peer that acknowledges what the stack sends whenever the task yields, where a response may be longer
    than the transmit queue.
  \<^item> \<^verbatim>\<open>Net_Http\<close> (\<^verbatim>\<open>uhttpsrv.c\<close>): parsers, the states of a request, serving a connection.
  \<^item> \<^verbatim>\<open>Net_Websocket\<close> (\<^verbatim>\<open>net/websocket/src/websocket.c\<close>) and \<^verbatim>\<open>Net_Ws\<close> (\<^verbatim>\<open>net/uhttpsrv/src/ws.c\<close>): the opening handshake and the
    frames; what one side sends the other one receives, and the payload stays inside the buffer of the caller.
  \<^item> \<^verbatim>\<open>Ffs\<close> (\<^verbatim>\<open>ffs.c\<close>): the invariant of the open files, and that reads in sequence give the contents of a file.
  \<^item> \<^verbatim>\<open>Www_Site\<close> (\<^verbatim>\<open>www/src/website.c\<close>): a request for a file is answered by exactly its contents while other tasks use the
    file system and compete for the buffer (their behaviour is bounded by the rely conditions \<open>polite\<close> and \<open>gives_back\<close>);
    messages of a websocket are echoed. \<^verbatim>\<open>Www_Api\<close> (\<^verbatim>\<open>www/src/api.c\<close>, \<^verbatim>\<open>www/src/ws.c\<close>): the programming interface.

  \<^bold>\<open>What the theorems say about defects.\<close> Where the code does not do what it means to, the model does what the code does, and
  a theorem shows the effect on a concrete or general input, for example \<open>ArpTable_reset_then_update_faults\<close>,
  \<open>Dhcp_two_clients_one_address\<close>, \<open>Http_status_line_cut\<close>, \<open>Ffs_Write_overruns\<close> and \<open>Site_aborted_file_stays_open\<close>.

  \<^bold>\<open>Not modelled.\<close> Register level drivers (\<^verbatim>\<open>dev\<close> but for the seed, the USB device, \<^verbatim>\<open>stm32f401\<close>, \<^verbatim>\<open>arch\<close>), whose effects are those of the hardware; the start up code
  and the exception handlers, and the assembly part of the context switch; floating point printing and scanning; critical
  sections and exclusive accesses: interrupts appear only where a theorem is about them (the clock). The creation of
  sockets on the heap, the order in which \<^verbatim>\<open>main.c\<close> starts the tasks, debug output, the generated contents of the web site, the test programs and the files
  that the \<^verbatim>\<open>Makefile\<close> does not build are left out.
\<close>

end
